(* ===== verification/Prelude.thy ===== *)
theory Prelude
  imports Main "HOL-Library.Word"
begin

unbundle bit_operations_syntax

text \<open>
  Shared vocabulary of the development: the machine integer types of the
  i686 port, the kernel's error numbers, the result type of fallible code with
  its sequencing operator and its verification-condition predicate, and generic
  facts on lists, sums and words used by every component.
\<close>

section \<open>Machine integers\<close>

type_synonym u8 = "8 word"
type_synonym u16 = "16 word"
type_synonym u32 = "32 word"
type_synonym u64 = "64 word"

text \<open>A C \<open>int\<close> is kept as an \<^typ>\<open>int\<close> in its range; \<open>int32\<close> is the wrap-around.\<close>

definition int32 :: "int \<Rightarrow> int" where
  "int32 x = signed_take_bit 31 x"

lemma int32_id: "- (2 ^ 31) \<le> x \<Longrightarrow> x < 2 ^ 31 \<Longrightarrow> int32 x = x"
  unfolding int32_def by (simp add: signed_take_bit_int_eq_self)

lemma int32_range: "- (2 ^ 31) \<le> int32 x \<and> int32 x < 2 ^ 31"
  unfolding int32_def
  using signed_take_bit_int_greater_eq_minus_exp [of 31 x] signed_take_bit_int_less_exp [of 31 x]
  by simp

text \<open>\<open>(int)value\<close> for a 32-bit unsigned value, and \<open>(uintptr_t)value\<close> back.\<close>

definition to_int :: "u32 \<Rightarrow> int" where
  "to_int w = sint w"

definition of_cint :: "int \<Rightarrow> u32" where
  "of_cint i = word_of_int i"

lemma unat_u32_less: "unat (w :: u32) < 4294967296"
  using unsigned_less [of w, where 'a = nat] by simp

section \<open>Error numbers\<close>

definition JINUE_ENOMEM :: int where "JINUE_ENOMEM = 1"
definition JINUE_ENOSYS :: int where "JINUE_ENOSYS = 2"
definition JINUE_EINVAL :: int where "JINUE_EINVAL = 3"
definition JINUE_EAGAIN :: int where "JINUE_EAGAIN = 4"
definition JINUE_EBADF :: int where "JINUE_EBADF = 5"
definition JINUE_EIO :: int where "JINUE_EIO = 6"
definition JINUE_EPERM :: int where "JINUE_EPERM = 7"
definition JINUE_E2BIG :: int where "JINUE_E2BIG = 8"
definition JINUE_ENOMSG :: int where "JINUE_ENOMSG = 9"
definition JINUE_ENOTSUP :: int where "JINUE_ENOTSUP = 10"
definition JINUE_EBUSY :: int where "JINUE_EBUSY = 11"
definition JINUE_ESRCH :: int where "JINUE_ESRCH = 12"
definition JINUE_EDEADLK :: int where "JINUE_EDEADLK = 13"
definition JINUE_EPROTO :: int where "JINUE_EPROTO = 14"

named_theorems errno_defs \<open>the error numbers, as numerals\<close>

lemmas errno_numbers [errno_defs] =
  JINUE_ENOMEM_def JINUE_ENOSYS_def JINUE_EINVAL_def JINUE_EAGAIN_def JINUE_EBADF_def
  JINUE_EIO_def JINUE_EPERM_def JINUE_E2BIG_def JINUE_ENOMSG_def JINUE_ENOTSUP_def
  JINUE_EBUSY_def JINUE_ESRCH_def JINUE_EDEADLK_def JINUE_EPROTO_def

section \<open>Results of kernel code\<close>

text \<open>
  Kernel code either returns or stops the machine: \<open>panic()\<close> with its message,
  a failed \<open>assert()\<close>, a reboot, or an access outside any live object, which the hardware
  does not catch and which the model therefore makes an error of its own.
  \<open>OutOfFuel\<close> is a bound of the model, not a behaviour of the code: every fuel
  parameter comes with a lemma that says how much is enough.
\<close>

datatype kerror = Panic string | AssertFailed | BadAccess | Reboot | OutOfFuel

type_synonym 'a result = "kerror + 'a"

definition bind_ok :: "('e + 'a) \<Rightarrow> ('a \<Rightarrow> 'e + 'b) \<Rightarrow> 'e + 'b" where
  "bind_ok m f = (case m of Inl e \<Rightarrow> Inl e | Inr x \<Rightarrow> f x)"

lemma bind_ok_simps [simp]:
  "bind_ok (Inl e) f = Inl e"
  "bind_ok (Inr x) f = f x"
  by (simp_all add: bind_ok_def)

lemma bind_ok_eq_Inr: "bind_ok m f = Inr y \<longleftrightarrow> (\<exists>x. m = Inr x \<and> f x = Inr y)"
  by (cases m) auto

lemma bind_ok_eq_Inl: "bind_ok m f = Inl e \<longleftrightarrow> m = Inl e \<or> (\<exists>x. m = Inr x \<and> f x = Inl e)"
  by (cases m) auto

lemma bind_ok_cong [fundef_cong]:
  "m = m' \<Longrightarrow> (\<And>x. m' = Inr x \<Longrightarrow> f x = g x) \<Longrightarrow> bind_ok m f = bind_ok m' g"
  by (cases m') auto

definition assert_that :: "bool \<Rightarrow> 'a \<Rightarrow> 'a result" where
  "assert_that b x = (if b then Inr x else Inl AssertFailed)"

text \<open>
  \<open>outcome E m Q\<close>: the code \<open>m\<close> either returns a value that satisfies \<open>Q\<close> or stops
  with an error that \<open>E\<close> allows. With \<open>E\<close> the empty predicate it is total
  correctness. The rules below let the simplifier compute verification
  conditions along a sequence of operations.
\<close>

definition outcome :: "('e \<Rightarrow> bool) \<Rightarrow> ('e + 'a) \<Rightarrow> ('a \<Rightarrow> bool) \<Rightarrow> bool" where
  "outcome E m Q = (case m of Inl e \<Rightarrow> E e | Inr x \<Rightarrow> Q x)"

lemma outcome_simps [simp]:
  "outcome E (Inl e) Q = E e"
  "outcome E (Inr x) Q = Q x"
  by (simp_all add: outcome_def)

lemma outcome_bind [simp]:
  "outcome E (bind_ok m f) Q = outcome E m (\<lambda>x. outcome E (f x) Q)"
  by (cases m) auto

lemma outcome_mono:
  "outcome E m Q \<Longrightarrow> (\<And>x. Q x \<Longrightarrow> R x) \<Longrightarrow> (\<And>e. E e \<Longrightarrow> F e) \<Longrightarrow> outcome F m R"
  by (cases m) auto

lemma outcome_weaken: "outcome E m Q \<Longrightarrow> (\<And>x. Q x \<Longrightarrow> R x) \<Longrightarrow> outcome E m R"
  by (cases m) auto

lemma outcome_InrD: "outcome E m Q \<Longrightarrow> m = Inr x \<Longrightarrow> Q x"
  by simp

lemma outcome_InlD: "outcome E m Q \<Longrightarrow> m = Inl e \<Longrightarrow> E e"
  by simp

lemma outcome_conj: "outcome E m Q \<Longrightarrow> outcome E m R \<Longrightarrow> outcome E m (\<lambda>x. Q x \<and> R x)"
  by (cases m) auto

lemma outcome_totalD: "outcome (\<lambda>_. False) m Q \<Longrightarrow> \<exists>x. m = Inr x \<and> Q x"
  by (cases m) auto

lemma outcome_if [simp]:
  "outcome E (if b then m else n) Q = ((b \<longrightarrow> outcome E m Q) \<and> (\<not> b \<longrightarrow> outcome E n Q))"
  by simp

lemma outcome_assert_that [simp]:
  "outcome E (assert_that b x) Q = ((b \<longrightarrow> Q x) \<and> (\<not> b \<longrightarrow> E AssertFailed))"
  by (simp add: assert_that_def)

section \<open>Lists\<close>

lemma distinct_mem_split: "distinct (xs @ ys) \<Longrightarrow> x \<in> set xs \<Longrightarrow> x \<notin> set ys"
  by auto

lemma sum_list_update_int:
  fixes f :: "'a \<Rightarrow> int"
  assumes "i < length xs"
  shows "sum_list (map f (xs[i := x])) = sum_list (map f xs) - f (xs ! i) + f x"
  using assms
proof (induction xs arbitrary: i)
  case Nil
  then show ?case by simp
next
  case (Cons y ys)
  then show ?case by (cases i) auto
qed

lemma sum_list_nonneg_int:
  fixes f :: "'a \<Rightarrow> int"
  assumes "\<And>x. 0 \<le> f x"
  shows "0 \<le> sum_list (map f xs)"
  using assms by (induction xs) auto

lemma elem_le_sum_list_int:
  fixes f :: "'a \<Rightarrow> int"
  assumes "\<And>x. 0 \<le> f x" and "i < length xs"
  shows "f (xs ! i) \<le> sum_list (map f xs)"
  using assms(2)
proof (induction xs arbitrary: i)
  case Nil
  then show ?case by simp
next
  case (Cons y ys)
  have tail: "0 \<le> sum_list (map f ys)" by (rule sum_list_nonneg_int) (rule assms(1))
  show ?case
  proof (cases i)
    case 0
    then show ?thesis using tail by simp
  next
    case (Suc j)
    then have "f (ys ! j) \<le> sum_list (map f ys)" using Cons by simp
    then show ?thesis using Suc assms(1) [of y] by simp
  qed
qed

end
