(* ===== verification/KList.thy ===== *)
theory KList
  imports Prelude
begin

text \<open>
  The intrusive singly-linked list of \<open>include/kernel/utils/list.h\<close>, on which the
  ready queue and the send and receive queues of IPC endpoints are built. Nodes
  live inside the objects they link, so the \<open>next\<close> pointers are a store indexed by
  node address and a list is a pair of head and tail pointers. The queue interface
  is a locale with a sequence of nodes as its abstraction; the pointer
  implementation is interpreted in it, and the scheduler and the IPC code use the
  sequence view.
\<close>

section \<open>The implementation\<close>

type_synonym node_ptr = "nat option"

record list_t =
  head :: node_ptr
  tail :: node_ptr

text \<open>The \<open>next\<close> member of every node in memory.\<close>

type_synonym next_store = "nat \<Rightarrow> node_ptr"

definition init_list :: "list_t" where
  "init_list = \<lparr>head = None, tail = None\<rparr>"

definition list_enqueue :: "nat \<Rightarrow> next_store \<times> list_t \<Rightarrow> next_store \<times> list_t" where
  "list_enqueue node q =
     (let (nxt, l) = q;
          nxt = nxt(node := None)
      in case tail l of
           None \<Rightarrow> (nxt, l\<lparr>head := Some node, tail := Some node\<rparr>)
         | Some t \<Rightarrow> (nxt(t := Some node), l\<lparr>tail := Some node\<rparr>))"

definition list_dequeue_node :: "next_store \<times> list_t \<Rightarrow> nat option \<times> next_store \<times> list_t" where
  "list_dequeue_node q =
     (let (nxt, l) = q
      in case head l of
           None \<Rightarrow> (None, nxt, l)
         | Some node \<Rightarrow>
             (let l = l\<lparr>head := nxt node\<rparr>
              in (Some node, nxt, if tail l = Some node then l\<lparr>tail := None\<rparr> else l)))"

text \<open>
  \<open>list_node_entry_by_offset\<close>: from the address of the node embedded in an object
  back to the object, with NULL kept. Pointer arithmetic is modulo the address space.
\<close>

definition list_node_entry_by_offset :: "u32 \<Rightarrow> u32 \<Rightarrow> u32" where
  "list_node_entry_by_offset node offset = (if node = 0 then 0 else node - offset)"

section \<open>Chains of nodes\<close>

text \<open>\<open>chain nxt p xs\<close>: following \<open>next\<close> from \<open>p\<close> visits exactly \<open>xs\<close> and ends at NULL.\<close>

fun chain :: "next_store \<Rightarrow> node_ptr \<Rightarrow> nat list \<Rightarrow> bool" where
  "chain nxt p [] = (p = None)"
| "chain nxt p (x # xs) = (p = Some x \<and> chain nxt (nxt x) xs)"

lemma chain_None [simp]: "chain nxt None xs = (xs = [])"
  by (cases xs) auto

lemma chain_upd_other [simp]: "x \<notin> set xs \<Longrightarrow> chain (nxt(x := v)) p xs = chain nxt p xs"
  by (induction xs arbitrary: p) auto

lemma chain_snoc_upd:
  assumes "chain nxt p (xs @ [t])" and "distinct (xs @ [t])" and "n \<notin> set (xs @ [t])"
  shows "chain (nxt(n := None, t := Some n)) p (xs @ [t, n])"
  using assms
proof (induction xs arbitrary: p)
  case Nil
  then show ?case by simp
next
  case (Cons a xs)
  then show ?case by auto
qed

definition queue_of :: "next_store \<times> list_t \<Rightarrow> nat list \<Rightarrow> bool" where
  "queue_of q xs = (let (nxt, l) = q in
     chain nxt (head l) xs \<and> distinct xs \<and> tail l = (if xs = [] then None else Some (last xs)))"

lemma queue_of_init: "queue_of (nxt, init_list) []"
  by (simp add: queue_of_def init_list_def)

lemma queue_of_enqueue:
  assumes "queue_of q xs" and "n \<notin> set xs"
  shows "queue_of (list_enqueue n q) (xs @ [n])"
proof (cases q)
  case q: (Pair nxt l)
  show ?thesis
  proof (cases xs rule: rev_exhaust)
    case Nil
    then show ?thesis using assms q by (simp add: queue_of_def list_enqueue_def)
  next
    case (snoc ys t)
    with assms q have "chain nxt (head l) (ys @ [t])" "distinct (ys @ [t])" "tail l = Some t"
      by (auto simp: queue_of_def)
    moreover have "n \<notin> set (ys @ [t])" using assms snoc by simp
    ultimately show ?thesis
      using chain_snoc_upd [of nxt "head l" ys t n] q snoc
      by (auto simp: queue_of_def list_enqueue_def)
  qed
qed

lemma queue_of_dequeue_empty:
  "queue_of q [] \<Longrightarrow> list_dequeue_node q = (None, q)"
  by (cases q) (auto simp: queue_of_def list_dequeue_node_def)

lemma queue_of_dequeue:
  assumes "queue_of q (x # xs)"
  shows "\<exists>q'. list_dequeue_node q = (Some x, q') \<and> queue_of q' xs"
proof (cases q)
  case (Pair nxt l)
  with assms show ?thesis
    using last_in_set [of xs]
    by (cases "xs = []") (auto simp: queue_of_def list_dequeue_node_def Let_def)
qed

text \<open>A queue is a function of the store: its node sequence is unique.\<close>

lemma chain_unique: "chain nxt p xs \<Longrightarrow> chain nxt p ys \<Longrightarrow> xs = ys"
proof (induction xs arbitrary: p ys)
  case Nil
  then show ?case by simp
next
  case (Cons x xs)
  then show ?case by (cases ys) auto
qed

lemma queue_of_unique: "queue_of q xs \<Longrightarrow> queue_of q ys \<Longrightarrow> xs = ys"
  by (auto simp: queue_of_def split: prod.splits intro: chain_unique)

text \<open>Operations on one list leave every list that shares no node with it as it was.\<close>

lemma queue_of_store_frame:
  assumes "queue_of (nxt, l) xs" and "\<And>x. x \<in> set xs \<Longrightarrow> nxt' x = nxt x"
  shows "queue_of (nxt', l) xs"
proof -
  have "chain nxt p xs \<Longrightarrow> chain nxt' p xs" for p
    using assms(2) by (induction xs arbitrary: p) auto
  then show ?thesis using assms(1) by (simp add: queue_of_def)
qed

lemma list_enqueue_frame:
  assumes "queue_of (nxt, l) xs" and "queue_of (nxt, l') ys"
    and "set xs \<inter> set ys = {}" and "n \<notin> set ys"
  shows "queue_of (fst (list_enqueue n (nxt, l)), l') ys"
proof (rule queue_of_store_frame [OF assms(2)])
  fix y
  assume y: "y \<in> set ys"
  have "tail l = Some t \<Longrightarrow> t \<in> set xs" for t
    using assms(1) by (cases xs rule: rev_exhaust) (auto simp: queue_of_def)
  then show "fst (list_enqueue n (nxt, l)) y = nxt y"
    using assms(3,4) y by (auto simp: list_enqueue_def Let_def split: option.splits)
qed

section \<open>The queue interface\<close>

text \<open>
  What the scheduler and the IPC code rely on: a queue state stands for a sequence
  without repetition; enqueuing an absent element appends it; dequeuing takes the
  first element, or nothing when there is none.
\<close>

locale fifo_queue =
  fixes models :: "'q \<Rightarrow> 'a list \<Rightarrow> bool"
    and enq :: "'a \<Rightarrow> 'q \<Rightarrow> 'q"
    and deq :: "'q \<Rightarrow> 'a option \<times> 'q"
  assumes models_unique: "models q xs \<Longrightarrow> models q ys \<Longrightarrow> xs = ys"
    and models_distinct: "models q xs \<Longrightarrow> distinct xs"
    and models_enq: "models q xs \<Longrightarrow> x \<notin> set xs \<Longrightarrow> models (enq x q) (xs @ [x])"
    and models_deq_Nil: "models q [] \<Longrightarrow> deq q = (None, q)"
    and models_deq_Cons: "models q (x # xs) \<Longrightarrow> \<exists>q'. deq q = (Some x, q') \<and> models q' xs"
begin

text \<open>Draining a queue \<open>n\<close> times: the loop both \<open>destroy_op\<close> and the scheduler run.\<close>

fun drain :: "nat \<Rightarrow> 'q \<Rightarrow> 'a list \<times> 'q" where
  "drain 0 q = ([], q)"
| "drain (Suc n) q =
     (case deq q of (None, q') \<Rightarrow> ([], q')
      | (Some x, q') \<Rightarrow> (let (xs, q'') = drain n q' in (x # xs, q'')))"

lemma drain_fifo:
  assumes "models q xs" and "length xs \<le> n"
  shows "fst (drain n q) = xs \<and> models (snd (drain n q)) []"
  using assms
proof (induction n arbitrary: q xs)
  case 0
  then show ?case by simp
next
  case (Suc n)
  show ?case
  proof (cases xs)
    case Nil
    then show ?thesis using Suc.prems models_deq_Nil by simp
  next
    case (Cons y ys)
    then obtain q' where "deq q = (Some y, q')" "models q' ys"
      using Suc.prems(1) models_deq_Cons by blast
    then show ?thesis
      using Suc.IH [of q' ys] Suc.prems(2) Cons by (auto split: prod.splits)
  qed
qed

fun enq_all :: "'a list \<Rightarrow> 'q \<Rightarrow> 'q" where
  "enq_all [] q = q"
| "enq_all (x # xs) q = enq_all xs (enq x q)"

lemma models_enq_all:
  assumes "models q ys" and "distinct (ys @ xs)"
  shows "models (enq_all xs q) (ys @ xs)"
  using assms
proof (induction xs arbitrary: q ys)
  case Nil
  then show ?case by simp
next
  case (Cons x xs)
  then have "models (enq x q) (ys @ [x])" by (auto intro: models_enq)
  then show ?case using Cons.IH [of "enq x q" "ys @ [x]"] Cons.prems(2) by simp
qed

lemma enq_all_then_drain:
  assumes "models q []" and "distinct xs" and "length xs \<le> n"
  shows "fst (drain n (enq_all xs q)) = xs"
proof -
  have "models (enq_all xs q) ([] @ xs)"
    by (rule models_enq_all) (use assms in auto)
  then show ?thesis using drain_fifo [of "enq_all xs q" xs n] assms(3) by simp
qed

end

text \<open>The pointer implementation provides the interface.\<close>

interpretation ptr_queue: fifo_queue queue_of list_enqueue list_dequeue_node
proof unfold_locales
  show "queue_of q xs \<Longrightarrow> queue_of q ys \<Longrightarrow> xs = ys" for q xs ys
    by (rule queue_of_unique)
  show "queue_of q xs \<Longrightarrow> distinct xs" for q xs
    by (auto simp: queue_of_def split: prod.splits)
  show "queue_of q xs \<Longrightarrow> x \<notin> set xs \<Longrightarrow> queue_of (list_enqueue x q) (xs @ [x])" for q xs x
    by (rule queue_of_enqueue)
  show "queue_of q [] \<Longrightarrow> list_dequeue_node q = (None, q)" for q
    by (rule queue_of_dequeue_empty)
  show "queue_of q (x # xs) \<Longrightarrow> \<exists>q'. list_dequeue_node q = (Some x, q') \<and> queue_of q' xs" for q x xs
    by (rule queue_of_dequeue)
qed

text \<open>
  The sequence view used by the kernel state: a queue is the list of its nodes. It
  provides the same interface, so each kernel queue is the abstraction of the
  pointer list with the same content as long as no node is enqueued twice.
\<close>

definition seq_models :: "'a list \<Rightarrow> 'a list \<Rightarrow> bool" where
  "seq_models q xs = (q = xs \<and> distinct xs)"

definition seq_enqueue :: "'a \<Rightarrow> 'a list \<Rightarrow> 'a list" where
  "seq_enqueue x q = q @ [x]"

definition seq_dequeue :: "'a list \<Rightarrow> 'a option \<times> 'a list" where
  "seq_dequeue q = (case q of [] \<Rightarrow> (None, []) | x # xs \<Rightarrow> (Some x, xs))"

interpretation seq_queue: fifo_queue seq_models seq_enqueue seq_dequeue
  by unfold_locales (auto simp: seq_models_def seq_enqueue_def seq_dequeue_def)

lemma seq_dequeue_simps [simp]:
  "seq_dequeue [] = (None, [])"
  "seq_dequeue (x # xs) = (Some x, xs)"
  by (simp_all add: seq_dequeue_def)

end
