(* ===== verification/KState.thy ===== *)
theory KState
  imports KList
begin

text \<open>
  The data of the kernel core, from \<open>include/kernel/types.h\<close> and the headers of the
  entities: kernel objects with their headers, descriptors with their state bits and
  permissions, threads, processes, IPC endpoints, and the kernel state that holds
  them. An object pointer is a reference tagged with the runtime type its header
  points to. Memory is in three stores, one per object type; an address is live when
  its store has it and its allocator does not hold it as free. Reading or writing
  through a reference that is not live is the error \<open>BadAccess\<close>.
\<close>

unbundle bit_operations_syntax

section \<open>Objects and descriptors\<close>

datatype obj_ref = EndpointRef nat | ProcessRef nat | ThreadRef nat

datatype object_type = object_type_ipc_endpoint | object_type_process | object_type_thread

fun type_of :: "obj_ref \<Rightarrow> object_type" where
  "type_of (EndpointRef _) = object_type_ipc_endpoint"
| "type_of (ProcessRef _) = object_type_process"
| "type_of (ThreadRef _) = object_type_thread"

definition JINUE_PERM_SEND :: u32 where "JINUE_PERM_SEND = 0x01"
definition JINUE_PERM_RECEIVE :: u32 where "JINUE_PERM_RECEIVE = 0x02"
definition JINUE_PERM_MAP :: u32 where "JINUE_PERM_MAP = 0x04"
definition JINUE_PERM_OPEN :: u32 where "JINUE_PERM_OPEN = 0x08"
definition JINUE_PERM_CREATE_THREAD :: u32 where "JINUE_PERM_CREATE_THREAD = 0x10"
definition JINUE_PERM_START :: u32 where "JINUE_PERM_START = 0x20"
definition JINUE_PERM_AWAIT :: u32 where "JINUE_PERM_AWAIT = 0x40"
definition JINUE_PERM_SIGNAL :: u32 where "JINUE_PERM_SIGNAL = 0x80"

named_theorems flag_defs \<open>permission and descriptor flags, as numerals\<close>

lemmas perm_flags [flag_defs] =
  JINUE_PERM_SEND_def JINUE_PERM_RECEIVE_def JINUE_PERM_MAP_def JINUE_PERM_OPEN_def
  JINUE_PERM_CREATE_THREAD_def JINUE_PERM_START_def JINUE_PERM_AWAIT_def JINUE_PERM_SIGNAL_def

text \<open>The \<open>all_permissions\<close> member of the three runtime type definitions.\<close>

fun all_permissions :: "object_type \<Rightarrow> u32" where
  "all_permissions object_type_ipc_endpoint = JINUE_PERM_SEND OR JINUE_PERM_RECEIVE"
| "all_permissions object_type_process =
     JINUE_PERM_CREATE_THREAD OR JINUE_PERM_MAP OR JINUE_PERM_OPEN OR JINUE_PERM_SIGNAL"
| "all_permissions object_type_thread =
     JINUE_PERM_START OR JINUE_PERM_AWAIT OR JINUE_PERM_SIGNAL"

definition OBJECT_FLAG_NONE :: u32 where "OBJECT_FLAG_NONE = 0"
definition OBJECT_FLAG_DESTROYED :: u32 where "OBJECT_FLAG_DESTROYED = 1"

record object_header =
  ref_count :: int
  obj_flags :: u32

definition header_is_destroyed :: "object_header \<Rightarrow> bool" where
  "header_is_destroyed h = (obj_flags h AND OBJECT_FLAG_DESTROYED \<noteq> 0)"

definition object_init_header :: object_header where
  "object_init_header = \<lparr>ref_count = 0, obj_flags = OBJECT_FLAG_NONE\<rparr>"

definition object_reset_header :: "object_header \<Rightarrow> object_header" where
  "object_reset_header h = h\<lparr>obj_flags := OBJECT_FLAG_NONE\<rparr>"

record descriptor =
  d_object :: "obj_ref option"
  d_flags :: u32
  d_cookie :: u32

definition DESC_FLAG_STATE1 :: u32 where "DESC_FLAG_STATE1 = 0x80000000"
definition DESC_FLAG_STATE0 :: u32 where "DESC_FLAG_STATE0 = 0x40000000"
definition DESC_FLAG_OWNER :: u32 where "DESC_FLAG_OWNER = 0x20000000"
definition DESC_FLAG_STATE :: u32 where "DESC_FLAG_STATE = DESC_FLAG_STATE1 OR DESC_FLAG_STATE0"
definition DESC_STATE_FREE :: u32 where "DESC_STATE_FREE = 0"
definition DESC_STATE_RESERVED :: u32 where "DESC_STATE_RESERVED = DESC_FLAG_STATE0"
definition DESC_STATE_OPEN :: u32 where "DESC_STATE_OPEN = DESC_FLAG_STATE1"
definition DESC_STATE_DESTROYED :: u32 where
  "DESC_STATE_DESTROYED = DESC_FLAG_STATE1 OR DESC_FLAG_STATE0"

lemmas desc_flags [flag_defs] =
  DESC_FLAG_STATE1_def DESC_FLAG_STATE0_def DESC_FLAG_OWNER_def DESC_FLAG_STATE_def
  DESC_STATE_FREE_def DESC_STATE_RESERVED_def DESC_STATE_OPEN_def DESC_STATE_DESTROYED_def

definition descriptor_is_free :: "descriptor \<Rightarrow> bool" where
  "descriptor_is_free d = (d_flags d AND DESC_FLAG_STATE = DESC_STATE_FREE)"

definition descriptor_is_reserved :: "descriptor \<Rightarrow> bool" where
  "descriptor_is_reserved d = (d_flags d AND DESC_FLAG_STATE = DESC_STATE_RESERVED)"

definition descriptor_is_open :: "descriptor \<Rightarrow> bool" where
  "descriptor_is_open d = (d_flags d AND DESC_FLAG_STATE = DESC_STATE_OPEN)"

definition descriptor_is_destroyed :: "descriptor \<Rightarrow> bool" where
  "descriptor_is_destroyed d = (d_flags d AND DESC_FLAG_STATE = DESC_STATE_DESTROYED)"

definition descriptor_is_closeable :: "descriptor \<Rightarrow> bool" where
  "descriptor_is_closeable d = (descriptor_is_open d \<or> descriptor_is_destroyed d)"

definition descriptor_is_owner :: "descriptor \<Rightarrow> bool" where
  "descriptor_is_owner d = (d_flags d AND DESC_FLAG_OWNER \<noteq> 0)"

definition descriptor_has_permissions :: "descriptor \<Rightarrow> u32 \<Rightarrow> bool" where
  "descriptor_has_permissions d perms = (d_flags d AND perms = perms)"

definition descriptor_clear :: "descriptor \<Rightarrow> descriptor" where
  "descriptor_clear d = d\<lparr>d_flags := DESC_STATE_FREE, d_object := None, d_cookie := 0\<rparr>"

definition set_state :: "descriptor \<Rightarrow> u32 \<Rightarrow> descriptor" where
  "set_state d st = d\<lparr>d_flags := (d_flags d AND NOT DESC_FLAG_STATE) OR st\<rparr>"

section \<open>Threads, processes, endpoints\<close>

record trapframe =
  tf_gs :: u32
  tf_fs :: u32
  tf_es :: u32
  tf_ds :: u32
  tf_edi :: u32
  tf_esi :: u32
  tf_ebp :: u32
  tf_ebx :: u32
  tf_edx :: u32
  tf_ecx :: u32
  tf_eax :: u32
  tf_trapno :: u32
  tf_errcode :: u32
  tf_eip :: u32
  tf_cs :: u32
  tf_eflags :: u32
  tf_esp :: u32
  tf_ss :: u32

record jinue_message =
  send_buffers :: u32
  send_buffers_length :: u32
  recv_buffers :: u32
  recv_buffers_length :: u32
  recv_function :: u32
  recv_cookie :: u32
  reply_max_size :: u32

datatype thread_state =
    THREAD_STATE_CREATED
  | THREAD_STATE_STARTING
  | THREAD_STATE_READY
  | THREAD_STATE_RUNNING
  | THREAD_STATE_BLOCKED
  | THREAD_STATE_ZOMBIE

text \<open>
  Where a thread that is not running resumes: the part of its kernel stack that
  matters after a switch. \<open>K_user\<close> is a thread executing (or about to execute) user
  code; \<open>K_start\<close> a prepared thread that has not run yet and returns straight to user
  space; the others are the switch points inside the system calls, with the local
  variables that are still needed there.
\<close>

datatype kont =
    K_user
  | K_start
  | K_send descriptor jinue_message
  | K_receive descriptor jinue_message nat u32
  | K_await descriptor
  | K_reply
  | K_reschedule

record thread =
  t_header :: object_header
  t_frame :: trapframe
  t_kont :: kont
  t_state :: thread_state
  cpu_credits :: int
  t_process :: nat
  t_sender :: "nat option"
  t_awaiter :: "nat option"
  t_pending_signals :: u64
  blocked_signals :: u64
  sync_signo :: int
  local_storage_addr :: u32
  local_storage_size :: u32
  recv_buffer_size :: nat
  message_errno :: int
  message_reply_errcode :: u32
  message_function :: u32
  message_cookie :: u32
  message_size :: nat
  message_buffer :: "u8 list"

record process =
  p_header :: object_header
  p_addr_space :: bool
  running_threads_count :: int
  p_pending_signals :: u64
  signal_handler :: u32
  descriptors :: "descriptor list"

record ipc_endpoint =
  e_header :: object_header
  send_list :: "nat list"
  recv_list :: "nat list"
  receivers_count :: int

section \<open>The kernel state\<close>

text \<open>
  \<open>endpoint_cache\<close> and \<open>process_cache\<close> are the free (constructed) objects of the two
  slab caches and \<open>free_pages\<close> the pages the page allocator can hand out as thread
  contexts. \<open>address_space\<close> is the process whose page tables are loaded,
  \<open>tls_segment\<close> the thread-local storage segment of the GDT and \<open>umem\<close> the user
  memory of each process. \<open>klog\<close> collects what \<open>puts\<close> logs.
\<close>

record kstate =
  endpoints :: "nat \<rightharpoonup> ipc_endpoint"
  processes :: "nat \<rightharpoonup> process"
  threads :: "nat \<rightharpoonup> thread"
  endpoint_cache :: "nat list"
  process_cache :: "nat list"
  free_pages :: "nat list"
  ready_queue :: "nat list"
  current :: nat
  address_space :: "nat option"
  tls_segment :: "u32 \<times> u32"
  umem :: "nat \<Rightarrow> u32 \<Rightarrow> u8"
  klog :: "(u8 \<times> u8 \<times> u8 list) list"

fun live :: "kstate \<Rightarrow> obj_ref \<Rightarrow> bool" where
  "live s (EndpointRef e) = (endpoints s e \<noteq> None \<and> e \<notin> set (endpoint_cache s))"
| "live s (ProcessRef p) = (processes s p \<noteq> None \<and> p \<notin> set (process_cache s))"
| "live s (ThreadRef t) = (threads s t \<noteq> None \<and> t \<notin> set (free_pages s))"

definition get_endpoint :: "nat \<Rightarrow> kstate \<Rightarrow> ipc_endpoint result" where
  "get_endpoint e s =
     (if live s (EndpointRef e) then Inr (the (endpoints s e)) else Inl BadAccess)"

definition get_process :: "nat \<Rightarrow> kstate \<Rightarrow> process result" where
  "get_process p s =
     (if live s (ProcessRef p) then Inr (the (processes s p)) else Inl BadAccess)"

definition get_thread :: "nat \<Rightarrow> kstate \<Rightarrow> thread result" where
  "get_thread t s =
     (if live s (ThreadRef t) then Inr (the (threads s t)) else Inl BadAccess)"

definition upd_endpoint :: "nat \<Rightarrow> (ipc_endpoint \<Rightarrow> ipc_endpoint) \<Rightarrow> kstate \<Rightarrow> kstate result" where
  "upd_endpoint e f s =
     bind_ok (get_endpoint e s) (\<lambda>x. Inr (s\<lparr>endpoints := (endpoints s)(e \<mapsto> f x)\<rparr>))"

definition upd_process :: "nat \<Rightarrow> (process \<Rightarrow> process) \<Rightarrow> kstate \<Rightarrow> kstate result" where
  "upd_process p f s =
     bind_ok (get_process p s) (\<lambda>x. Inr (s\<lparr>processes := (processes s)(p \<mapsto> f x)\<rparr>))"

definition upd_thread :: "nat \<Rightarrow> (thread \<Rightarrow> thread) \<Rightarrow> kstate \<Rightarrow> kstate result" where
  "upd_thread t f s =
     bind_ok (get_thread t s) (\<lambda>x. Inr (s\<lparr>threads := (threads s)(t \<mapsto> f x)\<rparr>))"

text \<open>The header at the start of every object.\<close>

fun get_header :: "obj_ref \<Rightarrow> kstate \<Rightarrow> object_header result" where
  "get_header (EndpointRef e) s = bind_ok (get_endpoint e s) (\<lambda>x. Inr (e_header x))"
| "get_header (ProcessRef p) s = bind_ok (get_process p s) (\<lambda>x. Inr (p_header x))"
| "get_header (ThreadRef t) s = bind_ok (get_thread t s) (\<lambda>x. Inr (t_header x))"

fun upd_header ::
    "obj_ref \<Rightarrow> (object_header \<Rightarrow> object_header) \<Rightarrow> kstate \<Rightarrow> kstate result" where
  "upd_header (EndpointRef e) f s = upd_endpoint e (\<lambda>x. x\<lparr>e_header := f (e_header x)\<rparr>) s"
| "upd_header (ProcessRef p) f s = upd_process p (\<lambda>x. x\<lparr>p_header := f (p_header x)\<rparr>) s"
| "upd_header (ThreadRef t) f s = upd_thread t (\<lambda>x. x\<lparr>t_header := f (t_header x)\<rparr>) s"

definition object_is_destroyed :: "obj_ref \<Rightarrow> kstate \<Rightarrow> bool result" where
  "object_is_destroyed o' s = bind_ok (get_header o' s) (\<lambda>h. Inr (header_is_destroyed h))"

definition get_current_process :: "kstate \<Rightarrow> nat result" where
  "get_current_process s = bind_ok (get_thread (current s) s) (\<lambda>t. Inr (t_process t))"

section \<open>User memory\<close>

definition JINUE_KLIMIT :: u32 where "JINUE_KLIMIT = 0xc0000000"

definition is_kernel_pointer :: "u32 \<Rightarrow> bool" where
  "is_kernel_pointer addr = (JINUE_KLIMIT \<le> addr)"

definition is_userspace_pointer :: "u32 \<Rightarrow> bool" where
  "is_userspace_pointer addr = (addr < JINUE_KLIMIT)"

definition user_pointer_max_size :: "u32 \<Rightarrow> u32" where
  "user_pointer_max_size addr = JINUE_KLIMIT - addr"

definition check_userspace_buffer :: "u32 \<Rightarrow> u32 \<Rightarrow> bool" where
  "check_userspace_buffer addr n =
     (is_userspace_pointer addr \<and> n \<le> user_pointer_max_size addr)"

definition read_bytes :: "(u32 \<Rightarrow> u8) \<Rightarrow> u32 \<Rightarrow> nat \<Rightarrow> u8 list" where
  "read_bytes m a n = map (\<lambda>i. m (a + of_nat i)) [0..<n]"

fun write_bytes :: "(u32 \<Rightarrow> u8) \<Rightarrow> u32 \<Rightarrow> u8 list \<Rightarrow> (u32 \<Rightarrow> u8)" where
  "write_bytes m a [] = m"
| "write_bytes m a (b # bs) = write_bytes (m(a := b)) (a + 1) bs"

text \<open>A 32-bit member of a structure in memory, little endian.\<close>

definition read_u32 :: "(u32 \<Rightarrow> u8) \<Rightarrow> u32 \<Rightarrow> u32" where
  "read_u32 m a =
     ucast (m a) OR push_bit 8 (ucast (m (a + 1)))
     OR push_bit 16 (ucast (m (a + 2))) OR push_bit 24 (ucast (m (a + 3)))"

definition bytes_of_u32 :: "u32 \<Rightarrow> u8 list" where
  "bytes_of_u32 w =
     [ucast w, ucast (drop_bit 8 w), ucast (drop_bit 16 w), ucast (drop_bit 24 w)]"

definition write_u32 :: "(u32 \<Rightarrow> u8) \<Rightarrow> u32 \<Rightarrow> u32 \<Rightarrow> (u32 \<Rightarrow> u8)" where
  "write_u32 m a w = write_bytes m a (bytes_of_u32 w)"

end
