(* ===== verification/Scheduler.thy ===== *)
theory Scheduler
  imports KState
begin

text \<open>
  The scheduler of \<open>kernel/domain/services/scheduler.c\<close> with the machine-dependent
  switch of \<open>kernel/infrastructure/i686/thread.c\<close>. There is one CPU and the kernel
  runs with interrupts disabled, so a kernel path executes without interference from
  its entry to the next switch; spinlocks are therefore never contended and are not
  part of the state. A function that switches away saves the continuation of the
  current thread, which is what its kernel stack holds.
\<close>

section \<open>Switching\<close>

definition SCHEDULER_BASE_CREDITS :: int where "SCHEDULER_BASE_CREDITS = 3"

text \<open>What a kernel path tells its caller: it returned, or it switched to another thread.\<close>

datatype 'a ctl = Ret 'a | Switched

definition machine_set_thread_local_storage :: "nat \<Rightarrow> kstate \<Rightarrow> kstate result" where
  "machine_set_thread_local_storage t s =
     bind_ok (get_thread t s) (\<lambda>th.
       Inr (s\<lparr>tls_segment := (local_storage_addr th, local_storage_size th)\<rparr>))"

definition machine_switch_to_process :: "nat \<Rightarrow> kstate \<Rightarrow> kstate result" where
  "machine_switch_to_process p s =
     bind_ok (get_process p s) (\<lambda>_. Inr (s\<lparr>address_space := Some p\<rparr>))"

definition process_switch_to :: "nat \<Rightarrow> kstate \<Rightarrow> kstate result" where
  "process_switch_to p s = machine_switch_to_process p s"

definition save_kont :: "kont \<Rightarrow> kstate \<Rightarrow> kstate result" where
  "save_kont k s = upd_thread (current s) (\<lambda>x. x\<lparr>t_kont := k\<rparr>) s"

definition machine_switch_thread :: "nat \<Rightarrow> kstate \<Rightarrow> kstate result" where
  "machine_switch_thread to s =
     bind_ok (machine_set_thread_local_storage to s) (\<lambda>s. Inr (s\<lparr>current := to\<rparr>))"

text \<open>The test, repeated before every switch, for a change of address space.\<close>

definition switch_process_if_needed :: "nat \<Rightarrow> nat \<Rightarrow> kstate \<Rightarrow> kstate result" where
  "switch_process_if_needed from to s =
     bind_ok (get_thread from s) (\<lambda>c.
     bind_ok (get_thread to s) (\<lambda>n.
       if t_process c \<noteq> t_process n then process_switch_to (t_process n) s else Inr s))"

section \<open>The ready queue\<close>

definition dequeue_ready_thread :: "kstate \<Rightarrow> nat option \<times> kstate" where
  "dequeue_ready_thread s =
     (let (t, q) = seq_dequeue (ready_queue s) in (t, s\<lparr>ready_queue := q\<rparr>))"

definition select_next_ready_thread :: "bool \<Rightarrow> kstate \<Rightarrow> (nat \<times> kstate) result" where
  "select_next_ready_thread current_can_run s =
     (let (t, s) = dequeue_ready_thread s;
          to = (if t = None \<and> current_can_run then Some (current s) else t)
      in case to of
           None \<Rightarrow> Inl (Panic ''No thread to schedule'')
         | Some n \<Rightarrow>
             bind_ok (upd_thread n
                 (\<lambda>x. x\<lparr>cpu_credits := int32 (cpu_credits x + SCHEDULER_BASE_CREDITS)\<rparr>) s)
               (\<lambda>s. Inr (n, s)))"

definition thread_ready_locked :: "nat \<Rightarrow> kstate \<Rightarrow> kstate result" where
  "thread_ready_locked t s =
     bind_ok (upd_thread t (\<lambda>x. x\<lparr>t_state := THREAD_STATE_READY\<rparr>) s)
       (\<lambda>s. Inr (s\<lparr>ready_queue := seq_enqueue t (ready_queue s)\<rparr>))"

definition ready_thread :: "nat \<Rightarrow> kstate \<Rightarrow> kstate result" where
  "ready_thread t s = thread_ready_locked t s"

definition set_thread_state :: "nat \<Rightarrow> thread_state \<Rightarrow> kstate \<Rightarrow> kstate result" where
  "set_thread_state t st s = upd_thread t (\<lambda>x. x\<lparr>t_state := st\<rparr>) s"

definition reschedule :: "kstate \<Rightarrow> (unit ctl \<times> kstate) result" where
  "reschedule s =
     bind_ok (get_thread (current s) s) (\<lambda>c.
       if cpu_credits c > 0 then Inr (Ret (), s)
       else bind_ok (select_next_ready_thread True s) (\<lambda>(to, s).
         if to = current s then Inr (Ret (), s)
         else
           bind_ok (set_thread_state to THREAD_STATE_RUNNING s) (\<lambda>s.
           bind_ok (switch_process_if_needed (current s) to s) (\<lambda>s.
           bind_ok (thread_ready_locked (current s) s) (\<lambda>s.
           bind_ok (save_kont K_reschedule s) (\<lambda>s.
           bind_ok (machine_switch_thread to s) (\<lambda>s. Inr (Switched, s))))))))"

definition scheduler_tick :: "kstate \<Rightarrow> kstate result" where
  "scheduler_tick s =
     upd_thread (current s)
       (\<lambda>x. if cpu_credits x > 0 then x\<lparr>cpu_credits := cpu_credits x - 1\<rparr> else x) s"

definition yield_current_thread :: "kstate \<Rightarrow> kstate result" where
  "yield_current_thread s = upd_thread (current s) (\<lambda>x. x\<lparr>cpu_credits := 0\<rparr>) s"

definition switch_to_thread :: "kont \<Rightarrow> nat \<Rightarrow> kstate \<Rightarrow> kstate result" where
  "switch_to_thread k to s =
     bind_ok (set_thread_state to THREAD_STATE_RUNNING s) (\<lambda>s.
     bind_ok (switch_process_if_needed (current s) to s) (\<lambda>s.
     bind_ok (thread_ready_locked (current s) s) (\<lambda>s.
     bind_ok (save_kont k s) (\<lambda>s.
       machine_switch_thread to s))))"

definition switch_to_thread_and_block :: "kont \<Rightarrow> nat \<Rightarrow> kstate \<Rightarrow> kstate result" where
  "switch_to_thread_and_block k to s =
     bind_ok (set_thread_state (current s) THREAD_STATE_BLOCKED s) (\<lambda>s.
     bind_ok (set_thread_state to THREAD_STATE_RUNNING s) (\<lambda>s.
     bind_ok (switch_process_if_needed (current s) to s) (\<lambda>s.
     bind_ok (save_kont k s) (\<lambda>s.
       machine_switch_thread to s))))"

definition block_current_thread_and_unlock :: "kont \<Rightarrow> kstate \<Rightarrow> kstate result" where
  "block_current_thread_and_unlock k s =
     bind_ok (set_thread_state (current s) THREAD_STATE_BLOCKED s) (\<lambda>s.
     bind_ok (select_next_ready_thread False s) (\<lambda>(to, s).
     bind_ok (set_thread_state to THREAD_STATE_RUNNING s) (\<lambda>s.
     bind_ok (switch_process_if_needed (current s) to s) (\<lambda>s.
     bind_ok (save_kont k s) (\<lambda>s.
       machine_switch_thread to s)))))"

end
