(* ===== verification/Objects.thy ===== *)
theory Objects
  imports Scheduler
begin

text \<open>
  Kernel objects: reference counting (\<open>object.c\<close>), IPC endpoints (\<open>endpoint.c\<close>),
  processes (\<open>process.c\<close>), descriptors (\<open>descriptor.c\<close>) and threads (\<open>thread.c\<close>)
  under \<open>kernel/domain/entities/\<close>. An object's operations are reached through the
  function pointers of its runtime type; the only one that leads back to other
  objects is the \<open>destroy\<close> operation of a process, which closes all the descriptors
  of the process. The generic functions take it as the argument \<open>pd\<close>; the fuel of
  \<open>process_destroy_op\<close> bounds how many processes are destroyed inside one another.
\<close>

type_synonym destroy_fn = "nat \<Rightarrow> kstate \<Rightarrow> kstate result"

section \<open>Aborting a blocked thread\<close>

definition abort_message :: "nat \<Rightarrow> kstate \<Rightarrow> kstate result" where
  "abort_message t s =
     bind_ok (upd_thread t (\<lambda>x. x\<lparr>message_errno := JINUE_EIO\<rparr>) s) (ready_thread t)"

section \<open>The operations of the runtime types\<close>

text \<open>The two loops of the endpoint's \<open>destroy_op\<close>: dequeue a thread, abort it, until empty.\<close>

primrec abort_senders :: "nat list \<Rightarrow> nat \<Rightarrow> kstate \<Rightarrow> kstate result" where
  "abort_senders [] e s = Inr s"
| "abort_senders (t # ts) e s =
     bind_ok (upd_endpoint e (\<lambda>x. x\<lparr>send_list := ts\<rparr>) s) (\<lambda>s.
     bind_ok (abort_message t s) (abort_senders ts e))"

primrec abort_receivers :: "nat list \<Rightarrow> nat \<Rightarrow> kstate \<Rightarrow> kstate result" where
  "abort_receivers [] e s = Inr s"
| "abort_receivers (t # ts) e s =
     bind_ok (upd_endpoint e (\<lambda>x. x\<lparr>recv_list := ts\<rparr>) s) (\<lambda>s.
     bind_ok (abort_message t s) (abort_receivers ts e))"

definition endpoint_destroy_op :: "nat \<Rightarrow> kstate \<Rightarrow> kstate result" where
  "endpoint_destroy_op e s =
     bind_ok (get_endpoint e s) (\<lambda>x.
     bind_ok (abort_senders (send_list x) e s) (\<lambda>s.
     bind_ok (get_endpoint e s) (\<lambda>x.
       abort_receivers (recv_list x) e s)))"

definition endpoint_cache_ctor_op :: ipc_endpoint where
  "endpoint_cache_ctor_op =
     \<lparr>e_header = object_init_header, send_list = [], recv_list = [], receivers_count = 0\<rparr>"

definition add_receiver :: "nat \<Rightarrow> kstate \<Rightarrow> kstate result" where
  "add_receiver e s =
     upd_endpoint e (\<lambda>x. x\<lparr>receivers_count := int32 (receivers_count x + 1)\<rparr>) s"

definition sub_receiver :: "nat \<Rightarrow> kstate \<Rightarrow> (int \<times> kstate) result" where
  "sub_receiver e s =
     bind_ok (upd_endpoint e (\<lambda>x. x\<lparr>receivers_count := int32 (receivers_count x - 1)\<rparr>) s) (\<lambda>s.
     bind_ok (get_endpoint e s) (\<lambda>x. Inr (receivers_count x, s)))"

definition endpoint_open_op :: "nat \<Rightarrow> descriptor \<Rightarrow> kstate \<Rightarrow> kstate result" where
  "endpoint_open_op e d s =
     (if descriptor_has_permissions d JINUE_PERM_RECEIVE then add_receiver e s else Inr s)"

text \<open>Freeing gives the memory back to the slab cache or, for a thread, to the page allocator.\<close>

fun free_op :: "obj_ref \<Rightarrow> kstate \<Rightarrow> kstate result" where
  "free_op (EndpointRef e) s = Inr (s\<lparr>endpoint_cache := e # endpoint_cache s\<rparr>)"
| "free_op (ProcessRef p) s = Inr (s\<lparr>process_cache := p # process_cache s\<rparr>)"
| "free_op (ThreadRef t) s = Inr (s\<lparr>free_pages := t # free_pages s\<rparr>)"

section \<open>Generic object operations\<close>

definition object_add_ref :: "obj_ref \<Rightarrow> kstate \<Rightarrow> kstate result" where
  "object_add_ref o' s = upd_header o' (\<lambda>h. h\<lparr>ref_count := int32 (ref_count h + 1)\<rparr>) s"

fun type_destroy :: "destroy_fn \<Rightarrow> obj_ref \<Rightarrow> kstate \<Rightarrow> kstate result" where
  "type_destroy pd (EndpointRef e) s = endpoint_destroy_op e s"
| "type_destroy pd (ProcessRef p) s = pd p s"
| "type_destroy pd (ThreadRef t) s = Inr s"

definition object_destroy :: "destroy_fn \<Rightarrow> obj_ref \<Rightarrow> kstate \<Rightarrow> kstate result" where
  "object_destroy pd o' s =
     bind_ok (get_header o' s) (\<lambda>h.
     bind_ok (upd_header o' (\<lambda>h. h\<lparr>obj_flags := obj_flags h OR OBJECT_FLAG_DESTROYED\<rparr>) s) (\<lambda>s.
       if header_is_destroyed h then Inr s else type_destroy pd o' s))"

definition object_sub_ref :: "destroy_fn \<Rightarrow> obj_ref \<Rightarrow> kstate \<Rightarrow> kstate result" where
  "object_sub_ref pd o' s =
     bind_ok (upd_header o' (\<lambda>h. h\<lparr>ref_count := int32 (ref_count h - 1)\<rparr>) s) (\<lambda>s.
     bind_ok (get_header o' s) (\<lambda>h.
       if ref_count h > 0 then Inr s
       else if ref_count h \<noteq> 0
         then Inl (Panic ''Object reference count decremented to negative value'')
       else bind_ok (object_destroy pd o' s) (free_op o')))"

definition endpoint_close_op :: "destroy_fn \<Rightarrow> nat \<Rightarrow> descriptor \<Rightarrow> kstate \<Rightarrow> kstate result" where
  "endpoint_close_op pd e d s =
     (if descriptor_has_permissions d JINUE_PERM_RECEIVE then
        bind_ok (sub_receiver e s) (\<lambda>(receivers, s).
          if receivers < 1 then object_destroy pd (EndpointRef e) s else Inr s)
      else Inr s)"

fun type_open :: "obj_ref \<Rightarrow> descriptor \<Rightarrow> kstate \<Rightarrow> kstate result" where
  "type_open (EndpointRef e) d s = endpoint_open_op e d s"
| "type_open (ProcessRef p) d s = Inr s"
| "type_open (ThreadRef t) d s = Inr s"

fun type_close :: "destroy_fn \<Rightarrow> obj_ref \<Rightarrow> descriptor \<Rightarrow> kstate \<Rightarrow> kstate result" where
  "type_close pd (EndpointRef e) d s = endpoint_close_op pd e d s"
| "type_close pd (ProcessRef p) d s = Inr s"
| "type_close pd (ThreadRef t) d s = Inr s"

definition object_open :: "obj_ref \<Rightarrow> descriptor \<Rightarrow> kstate \<Rightarrow> kstate result" where
  "object_open o' d s = bind_ok (object_add_ref o' s) (type_open o' d)"

definition object_close :: "destroy_fn \<Rightarrow> obj_ref \<Rightarrow> descriptor \<Rightarrow> kstate \<Rightarrow> kstate result" where
  "object_close pd o' d s = bind_ok (type_close pd o' d s) (object_sub_ref pd o')"

section \<open>Processes\<close>

definition JINUE_DESC_NUM :: nat where "JINUE_DESC_NUM = 12"

text \<open>A pointer to an object that must not be NULL.\<close>

definition nonnull :: "'a option \<Rightarrow> 'a result" where
  "nonnull x = (case x of None \<Rightarrow> Inl BadAccess | Some y \<Rightarrow> Inr y)"

text \<open>Slot \<open>i\<close> of the descriptor array exists when \<open>i\<close> is below its length.\<close>

definition get_slot :: "nat \<Rightarrow> nat \<Rightarrow> kstate \<Rightarrow> descriptor result" where
  "get_slot p i s =
     bind_ok (get_process p s) (\<lambda>x.
       if i < length (descriptors x) then Inr (descriptors x ! i) else Inl BadAccess)"

primrec close_descriptors :: "destroy_fn \<Rightarrow> nat \<Rightarrow> nat list \<Rightarrow> kstate \<Rightarrow> kstate result" where
  "close_descriptors pd p [] s = Inr s"
| "close_descriptors pd p (idx # rest) s =
     bind_ok (get_slot p idx s) (\<lambda>desc.
     bind_ok
       (if descriptor_is_open desc then
          bind_ok (nonnull (d_object desc)) (\<lambda>o'. object_close pd o' desc s)
        else Inr s)
       (close_descriptors pd p rest))"

definition machine_finalize_process :: "nat \<Rightarrow> kstate \<Rightarrow> kstate result" where
  "machine_finalize_process p s = upd_process p (\<lambda>x. x\<lparr>p_addr_space := False\<rparr>) s"

primrec process_destroy_op :: "nat \<Rightarrow> destroy_fn" where
  "process_destroy_op 0 p s = Inl OutOfFuel"
| "process_destroy_op (Suc n) p s =
     bind_ok (close_descriptors (process_destroy_op n) p [0..<JINUE_DESC_NUM] s)
       (machine_finalize_process p)"

definition process_cache_ctor_op :: "process \<Rightarrow> process" where
  "process_cache_ctor_op p = p\<lparr>p_header := object_init_header\<rparr>"

definition initialize_descriptors :: "process \<Rightarrow> process" where
  "initialize_descriptors p = p\<lparr>descriptors := map descriptor_clear (descriptors p)\<rparr>"

text \<open>
  \<open>process_new\<close>: the slab cache hands out a constructed process or NULL, and creating
  the address space (\<open>init_ok\<close>) may fail for lack of memory.
\<close>

definition process_slab_alloc :: "kstate \<Rightarrow> nat option \<times> kstate" where
  "process_slab_alloc s =
     (case process_cache s of [] \<Rightarrow> (None, s) | p # ps \<Rightarrow> (Some p, s\<lparr>process_cache := ps\<rparr>))"

definition process_new :: "bool \<Rightarrow> kstate \<Rightarrow> (nat option \<times> kstate) result" where
  "process_new init_ok s =
     (case process_slab_alloc s of
        (None, s) \<Rightarrow> Inr (None, s)
      | (Some p, s) \<Rightarrow>
          bind_ok (upd_process p (\<lambda>x.
              initialize_descriptors (x\<lparr>p_header := object_reset_header (p_header x),
                 running_threads_count := 0, signal_handler := 0, p_pending_signals := 0\<rparr>)) s)
            (\<lambda>s. if \<not> init_ok
                  then bind_ok (free_op (ProcessRef p) s) (\<lambda>s. Inr (None, s))
                  else bind_ok (upd_process p (\<lambda>x. x\<lparr>p_addr_space := True\<rparr>) s)
                         (\<lambda>s. Inr (Some p, s))))"

definition process_add_running_thread :: "nat \<Rightarrow> kstate \<Rightarrow> kstate result" where
  "process_add_running_thread p s =
     bind_ok (upd_process p
         (\<lambda>x. x\<lparr>running_threads_count := int32 (running_threads_count x + 1)\<rparr>) s)
       (object_add_ref (ProcessRef p))"

definition process_remove_running_thread :: "destroy_fn \<Rightarrow> nat \<Rightarrow> kstate \<Rightarrow> kstate result" where
  "process_remove_running_thread pd p s =
     bind_ok (upd_process p
         (\<lambda>x. x\<lparr>running_threads_count := int32 (running_threads_count x - 1)\<rparr>) s) (\<lambda>s.
     bind_ok (get_process p s) (\<lambda>x.
     bind_ok (if running_threads_count x < 1 then object_destroy pd (ProcessRef p) s else Inr s)
       (object_sub_ref pd (ProcessRef p))))"

section \<open>Endpoints\<close>

definition endpoint_slab_alloc :: "kstate \<Rightarrow> nat option \<times> kstate" where
  "endpoint_slab_alloc s =
     (case endpoint_cache s of [] \<Rightarrow> (None, s) | e # es \<Rightarrow> (Some e, s\<lparr>endpoint_cache := es\<rparr>))"

definition endpoint_new :: "kstate \<Rightarrow> (nat option \<times> kstate) result" where
  "endpoint_new s =
     (case endpoint_slab_alloc s of
        (None, s) \<Rightarrow> Inr (None, s)
      | (Some e, s) \<Rightarrow>
          bind_ok (upd_header (EndpointRef e) object_reset_header s) (\<lambda>s. Inr (Some e, s)))"

section \<open>Descriptors\<close>

text \<open>
  \<open>dereference\<close> computes the address of a slot of the process' descriptor array; the
  bound it checks is the one in the source.
\<close>

definition dereference :: "int \<Rightarrow> nat option" where
  "dereference fd = (if fd < 0 \<or> fd > int JINUE_DESC_NUM then None else Some (nat fd))"

definition set_slot :: "nat \<Rightarrow> nat \<Rightarrow> descriptor \<Rightarrow> kstate \<Rightarrow> kstate result" where
  "set_slot p i d s =
     bind_ok (get_slot p i s) (\<lambda>_.
       upd_process p (\<lambda>x. x\<lparr>descriptors := (descriptors x)[i := d]\<rparr>) s)"

definition descriptor_access_object_locked ::
    "destroy_fn \<Rightarrow> nat \<Rightarrow> nat \<Rightarrow> kstate \<Rightarrow> ((int + descriptor) \<times> kstate) result" where
  "descriptor_access_object_locked pd p i s =
     bind_ok (get_slot p i s) (\<lambda>desc.
       if descriptor_is_destroyed desc then Inr (Inl (- JINUE_EIO), s)
       else if \<not> descriptor_is_open desc then Inr (Inl (- JINUE_EBADF), s)
       else
         bind_ok (nonnull (d_object desc)) (\<lambda>o'.
         bind_ok (object_is_destroyed o' s) (\<lambda>destroyed.
           if destroyed then
             bind_ok (set_slot p i (set_state desc DESC_STATE_DESTROYED) s) (\<lambda>s.
             bind_ok (object_close pd o' (set_state desc DESC_STATE_DESTROYED) s) (\<lambda>s.
               Inr (Inl (- JINUE_EIO), s)))
           else
             bind_ok (object_add_ref o' s) (\<lambda>s. Inr (Inr desc, s)))))"

definition descriptor_access_object ::
    "destroy_fn \<Rightarrow> nat \<Rightarrow> int \<Rightarrow> kstate \<Rightarrow> ((int + descriptor) \<times> kstate) result" where
  "descriptor_access_object pd p fd s =
     (case dereference fd of
        None \<Rightarrow> Inr (Inl (- JINUE_EBADF), s)
      | Some i \<Rightarrow> descriptor_access_object_locked pd p i s)"

definition descriptor_unreference_object ::
    "destroy_fn \<Rightarrow> descriptor \<Rightarrow> kstate \<Rightarrow> kstate result" where
  "descriptor_unreference_object pd d s =
     bind_ok (nonnull (d_object d)) (\<lambda>o'. object_sub_ref pd o' s)"

definition descriptor_reserve_unused :: "nat \<Rightarrow> int \<Rightarrow> kstate \<Rightarrow> (int \<times> kstate) result" where
  "descriptor_reserve_unused p fd s =
     (case dereference fd of
        None \<Rightarrow> Inr (- JINUE_EBADF, s)
      | Some i \<Rightarrow>
          bind_ok (get_slot p i s) (\<lambda>desc.
            if \<not> descriptor_is_free desc then Inr (- JINUE_EBADF, s)
            else bind_ok (set_slot p i (set_state desc DESC_STATE_RESERVED) s)
                   (\<lambda>s. Inr (0, s))))"

definition descriptor_free_reservation :: "nat \<Rightarrow> int \<Rightarrow> kstate \<Rightarrow> kstate result" where
  "descriptor_free_reservation p fd s =
     bind_ok (nonnull (dereference fd)) (\<lambda>i.
     bind_ok (get_slot p i s) (\<lambda>desc.
     bind_ok (assert_that (descriptor_is_reserved desc) s)
       (set_slot p i (descriptor_clear desc))))"

definition descriptor_open :: "nat \<Rightarrow> int \<Rightarrow> descriptor \<Rightarrow> kstate \<Rightarrow> kstate result" where
  "descriptor_open p fd d s =
     bind_ok (nonnull (dereference fd)) (\<lambda>i.
     bind_ok (get_slot p i s) (\<lambda>desc.
     bind_ok (assert_that (descriptor_is_reserved desc) s) (\<lambda>s.
     bind_ok (set_slot p i (set_state d DESC_STATE_OPEN) s) (\<lambda>s.
     bind_ok (nonnull (d_object d)) (\<lambda>o'. object_open o' d s)))))"

definition descriptor_close :: "destroy_fn \<Rightarrow> nat \<Rightarrow> int \<Rightarrow> kstate \<Rightarrow> (int \<times> kstate) result" where
  "descriptor_close pd p fd s =
     (case dereference fd of
        None \<Rightarrow> Inr (- JINUE_EBADF, s)
      | Some i \<Rightarrow>
          bind_ok (get_slot p i s) (\<lambda>copy.
            if \<not> descriptor_is_closeable copy then Inr (- JINUE_EBADF, s)
            else
              bind_ok (set_slot p i (descriptor_clear copy) s) (\<lambda>s.
              bind_ok
                (if descriptor_is_open copy
                 then bind_ok (nonnull (d_object copy)) (\<lambda>o'. object_close pd o' copy s)
                 else Inr s)
                (\<lambda>s. Inr (0, s)))))"

fun descriptor_get_endpoint :: "descriptor \<Rightarrow> nat option" where
  "descriptor_get_endpoint d = (case d_object d of Some (EndpointRef e) \<Rightarrow> Some e | _ \<Rightarrow> None)"

fun descriptor_get_process :: "descriptor \<Rightarrow> nat option" where
  "descriptor_get_process d = (case d_object d of Some (ProcessRef p) \<Rightarrow> Some p | _ \<Rightarrow> None)"

fun descriptor_get_thread :: "descriptor \<Rightarrow> nat option" where
  "descriptor_get_thread d = (case d_object d of Some (ThreadRef t) \<Rightarrow> Some t | _ \<Rightarrow> None)"

section \<open>Threads\<close>

record thread_params =
  entry :: u32
  stack_addr :: u32
  sigmask :: u64

definition thread_page_alloc :: "kstate \<Rightarrow> nat option \<times> kstate" where
  "thread_page_alloc s =
     (case free_pages s of [] \<Rightarrow> (None, s) | t # ts \<Rightarrow> (Some t, s\<lparr>free_pages := ts\<rparr>))"

definition thread_new :: "nat \<Rightarrow> kstate \<Rightarrow> (nat option \<times> kstate) result" where
  "thread_new p s =
     (case thread_page_alloc s of
        (None, s) \<Rightarrow> Inr (None, s)
      | (Some t, s) \<Rightarrow>
          bind_ok (upd_thread t (\<lambda>x. x\<lparr>
              t_header := object_init_header,
              t_state := THREAD_STATE_CREATED,
              t_process := p,
              t_awaiter := None,
              local_storage_addr := 0,
              local_storage_size := 0\<rparr>) s)
            (\<lambda>s. Inr (Some t, s)))"

text \<open>The frame of a thread that enters user space for the first time.\<close>

definition user_frame :: "thread_params \<Rightarrow> trapframe" where
  "user_frame params = \<lparr>
     tf_gs = 0x3b, tf_fs = 0x23, tf_es = 0x23, tf_ds = 0x23,
     tf_edi = 0, tf_esi = 0, tf_ebp = 0, tf_ebx = 0, tf_edx = 0, tf_ecx = 0, tf_eax = 0,
     tf_trapno = 0, tf_errcode = 0,
     tf_eip = entry params, tf_cs = 0x1b, tf_eflags = 0x202,
     tf_esp = stack_addr params, tf_ss = 0x23\<rparr>"

definition machine_prepare_thread :: "nat \<Rightarrow> thread_params \<Rightarrow> kstate \<Rightarrow> kstate result" where
  "machine_prepare_thread t params s =
     upd_thread t (\<lambda>x. x\<lparr>t_frame := user_frame params, t_kont := K_start\<rparr>) s"

definition thread_prepare :: "nat \<Rightarrow> thread_params \<Rightarrow> kstate \<Rightarrow> kstate result" where
  "thread_prepare t params s =
     bind_ok (upd_thread t (\<lambda>x. x\<lparr>
         t_sender := None,
         cpu_credits := 0,
         t_awaiter := None,
         t_state := THREAD_STATE_STARTING\<rparr>) s) (\<lambda>s.
     bind_ok (get_thread t s) (\<lambda>th.
     bind_ok (get_process (t_process th) s) (\<lambda>_.
     bind_ok (upd_thread t (\<lambda>x. x\<lparr>
         t_pending_signals := 0,
         blocked_signals := sigmask params,
         sync_signo := 0\<rparr>) s)
       (machine_prepare_thread t params))))"

definition thread_is_starting :: "nat \<Rightarrow> kstate \<Rightarrow> kstate result" where
  "thread_is_starting t s =
     bind_ok (get_thread t s) (\<lambda>th.
     bind_ok (process_add_running_thread (t_process th) s) (\<lambda>s.
     bind_ok (object_add_ref (ThreadRef t) s) (\<lambda>s.
       set_thread_state t THREAD_STATE_RUNNING s)))"

definition thread_run :: "nat \<Rightarrow> kstate \<Rightarrow> kstate result" where
  "thread_run t s = bind_ok (thread_is_starting t s) (ready_thread t)"

definition thread_run_first :: "nat \<Rightarrow> kstate \<Rightarrow> kstate result" where
  "thread_run_first t s =
     bind_ok (get_thread t s) (\<lambda>th.
     bind_ok (process_switch_to (t_process th) s) (\<lambda>s.
     bind_ok (thread_is_starting t s)
       (machine_switch_thread t)))"

text \<open>
  The reference the running thread holds on itself is dropped after the switch, on the
  stack of the next thread: \<open>machine_switch_and_unref_thread\<close>.
\<close>

definition machine_switch_and_unref_thread ::
    "destroy_fn \<Rightarrow> nat \<Rightarrow> nat \<Rightarrow> kstate \<Rightarrow> kstate result" where
  "machine_switch_and_unref_thread pd from to s =
     bind_ok (machine_switch_thread to s) (object_sub_ref pd (ThreadRef from))"

definition switch_from_exiting_thread :: "destroy_fn \<Rightarrow> kstate \<Rightarrow> kstate result" where
  "switch_from_exiting_thread pd s =
     bind_ok (select_next_ready_thread False s) (\<lambda>(to, s).
     bind_ok (set_thread_state to THREAD_STATE_RUNNING s) (\<lambda>s.
     bind_ok (switch_process_if_needed (current s) to s) (\<lambda>s.
     bind_ok (get_thread (current s) s) (\<lambda>c.
     bind_ok (process_remove_running_thread pd (t_process c) s) (\<lambda>s.
       machine_switch_and_unref_thread pd (current s) to s)))))"

definition thread_terminate_current :: "destroy_fn \<Rightarrow> kstate \<Rightarrow> kstate result" where
  "thread_terminate_current pd s =
     bind_ok (set_thread_state (current s) THREAD_STATE_ZOMBIE s) (\<lambda>s.
     bind_ok (get_thread (current s) s) (\<lambda>c.
     bind_ok (case t_awaiter c of None \<Rightarrow> Inr s | Some w \<Rightarrow> ready_thread w s) (\<lambda>s.
     bind_ok (case t_sender c of
                None \<Rightarrow> Inr s
              | Some sd \<Rightarrow>
                  bind_ok (abort_message sd s)
                    (upd_thread (current s) (\<lambda>x. x\<lparr>t_sender := None\<rparr>)))
       (switch_from_exiting_thread pd))))"

text \<open>\<open>thread_await\<close> on behalf of a caller that must drop a descriptor reference afterwards.\<close>

definition thread_await :: "descriptor \<Rightarrow> nat \<Rightarrow> kstate \<Rightarrow> (int ctl \<times> kstate) result" where
  "thread_await d t s =
     (if t = current s then Inr (Ret (- JINUE_EDEADLK), s)
      else
        bind_ok (get_thread t s) (\<lambda>th.
          if t_state th = THREAD_STATE_CREATED \<or> t_awaiter th \<noteq> None
            then Inr (Ret (- JINUE_ESRCH), s)
          else
            bind_ok (upd_thread t (\<lambda>x. x\<lparr>t_awaiter := Some (current s)\<rparr>) s) (\<lambda>s.
              if t_state th = THREAD_STATE_ZOMBIE then Inr (Ret 0, s)
              else bind_ok (block_current_thread_and_unlock (K_await d) s)
                     (\<lambda>s. Inr (Switched, s)))))"

definition thread_set_local_storage :: "nat \<Rightarrow> u32 \<Rightarrow> u32 \<Rightarrow> kstate \<Rightarrow> kstate result" where
  "thread_set_local_storage t addr n s =
     bind_ok (upd_thread t (\<lambda>x. x\<lparr>local_storage_addr := addr, local_storage_size := n\<rparr>) s) (\<lambda>s.
       if t = current s then machine_set_thread_local_storage t s else Inr s)"

end
