(* ===== verification/Ipc.thy ===== *)
theory Ipc
  imports Objects
begin

text \<open>
  Inter-process communication, \<open>kernel/domain/services/ipc.c\<close>: gathering a message
  from the buffers of the sender, scattering it into the buffers of the receiver, and
  the send, receive and reply operations with their blocking. Each blocking
  operation is in two parts, what runs before the switch and what runs when the
  thread is switched to again.
\<close>

section \<open>Message buffers\<close>

definition JINUE_MAX_MESSAGE_SIZE :: nat where "JINUE_MAX_MESSAGE_SIZE = 2048"
definition JINUE_MAX_BUFFER_SIZE :: u32 where "JINUE_MAX_BUFFER_SIZE = 0x4000000"
definition JINUE_MAX_BUFFERS_IN_ARRAY :: u32 where "JINUE_MAX_BUFFERS_IN_ARRAY = 256"

text \<open>\<open>sizeof(jinue_buffer_t)\<close> is 8: an address followed by a size.\<close>

definition buffer_addr :: "(u32 \<Rightarrow> u8) \<Rightarrow> u32 \<Rightarrow> nat \<Rightarrow> u32" where
  "buffer_addr m arr idx = read_u32 m (arr + 8 * of_nat idx)"

definition buffer_size :: "(u32 \<Rightarrow> u8) \<Rightarrow> u32 \<Rightarrow> nat \<Rightarrow> u32" where
  "buffer_size m arr idx = read_u32 m (arr + 8 * of_nat idx + 4)"

primrec recv_size_loop :: "(u32 \<Rightarrow> u8) \<Rightarrow> u32 \<Rightarrow> nat list \<Rightarrow> u32 \<Rightarrow> int + u32" where
  "recv_size_loop m arr [] acc = Inr acc"
| "recv_size_loop m arr (idx # rest) acc =
     (if buffer_size m arr idx > JINUE_MAX_BUFFER_SIZE then Inl (- JINUE_EINVAL)
      else if \<not> check_userspace_buffer (buffer_addr m arr idx) (buffer_size m arr idx)
        then Inl (- JINUE_EINVAL)
      else
        (let acc = acc + buffer_size m arr idx;
             acc = (if acc > of_nat JINUE_MAX_MESSAGE_SIZE
                      then of_nat JINUE_MAX_MESSAGE_SIZE else acc)
         in recv_size_loop m arr rest acc))"

definition get_receive_buffers_size :: "(u32 \<Rightarrow> u8) \<Rightarrow> jinue_message \<Rightarrow> int + u32" where
  "get_receive_buffers_size m msg =
     (if recv_buffers_length msg > JINUE_MAX_BUFFERS_IN_ARRAY then Inl (- JINUE_EINVAL)
      else recv_size_loop m (recv_buffers msg) [0..<unat (recv_buffers_length msg)] 0)"

text \<open>\<open>memcpy\<close> into the message buffer at an offset.\<close>

definition put_bytes :: "u8 list \<Rightarrow> nat \<Rightarrow> u8 list \<Rightarrow> u8 list" where
  "put_bytes buf off bs = take off buf @ bs @ drop (off + length bs) buf"

primrec gather_loop ::
    "(u32 \<Rightarrow> u8) \<Rightarrow> u32 \<Rightarrow> nat list \<Rightarrow> nat \<times> u8 list \<Rightarrow> int \<times> nat \<times> u8 list" where
  "gather_loop m arr [] st = (0, st)"
| "gather_loop m arr (idx # rest) st =
     (let (msize, buf) = st; addr = buffer_addr m arr idx; n = buffer_size m arr idx
      in if \<not> check_userspace_buffer addr n then (- JINUE_EINVAL, st)
         else if unat n > JINUE_MAX_MESSAGE_SIZE - msize then (- JINUE_EINVAL, st)
         else gather_loop m arr rest
                (msize + unat n, put_bytes buf msize (read_bytes m addr (unat n))))"

definition gather ::
    "(u32 \<Rightarrow> u8) \<Rightarrow> jinue_message \<Rightarrow> u8 list \<Rightarrow> int \<times> nat \<times> u8 list" where
  "gather m msg buf =
     (if send_buffers_length msg > JINUE_MAX_BUFFERS_IN_ARRAY then (- JINUE_EINVAL, 0, buf)
      else gather_loop m (send_buffers msg) [0..<unat (send_buffers_length msg)] (0, buf))"

primrec scatter_loop ::
    "u8 list \<Rightarrow> u32 \<Rightarrow> nat list \<Rightarrow> nat \<Rightarrow> (u32 \<Rightarrow> u8) \<Rightarrow> int \<times> (u32 \<Rightarrow> u8)" where
  "scatter_loop content arr [] pos m = (0, m)"
| "scatter_loop content arr (idx # rest) pos m =
     (let remaining = length content - pos
      in if remaining = 0 then (0, m)
         else
           (let addr = buffer_addr m arr idx; n = buffer_size m arr idx
            in if \<not> check_userspace_buffer addr n then (- JINUE_EINVAL, m)
               else
                 (let wsize = (if remaining < unat n then remaining else unat n)
                  in scatter_loop content arr rest (pos + wsize)
                       (write_bytes m addr (take wsize (drop pos content))))))"

text \<open>The content of a thread's message: the first \<open>message_size\<close> bytes of its buffer.\<close>

definition message_content :: "thread \<Rightarrow> u8 list" where
  "message_content th = take (message_size th) (message_buffer th)"

definition scatter :: "u8 list \<Rightarrow> jinue_message \<Rightarrow> (u32 \<Rightarrow> u8) \<Rightarrow> int \<times> (u32 \<Rightarrow> u8)" where
  "scatter content msg m =
     scatter_loop content (recv_buffers msg) [0..<unat (recv_buffers_length msg)] 0 m"

section \<open>Access to the memory of the current process\<close>

definition active_process :: "kstate \<Rightarrow> nat result" where
  "active_process s = nonnull (address_space s)"

definition active_memory :: "kstate \<Rightarrow> (u32 \<Rightarrow> u8) result" where
  "active_memory s = bind_ok (active_process s) (\<lambda>p. Inr (umem s p))"

definition set_active_memory :: "(u32 \<Rightarrow> u8) \<Rightarrow> kstate \<Rightarrow> kstate result" where
  "set_active_memory m s =
     bind_ok (active_process s) (\<lambda>p. Inr (s\<lparr>umem := (umem s)(p := m)\<rparr>))"

definition gather_message :: "nat \<Rightarrow> jinue_message \<Rightarrow> kstate \<Rightarrow> (int \<times> kstate) result" where
  "gather_message t msg s =
     bind_ok (active_memory s) (\<lambda>m.
     bind_ok (get_thread t s) (\<lambda>th.
       let (status, n, buf) = gather m msg (message_buffer th) in
       bind_ok (upd_thread t (\<lambda>x. x\<lparr>message_size := n, message_buffer := buf\<rparr>) s)
         (\<lambda>s. Inr (status, s))))"

definition scatter_message :: "nat \<Rightarrow> jinue_message \<Rightarrow> kstate \<Rightarrow> (int \<times> kstate) result" where
  "scatter_message t msg s =
     bind_ok (active_memory s) (\<lambda>m.
     bind_ok (get_thread t s) (\<lambda>th.
       let (status, m) = scatter (message_content th) msg m in
       bind_ok (set_active_memory m s) (\<lambda>s. Inr (status, s))))"

section \<open>Sending\<close>

definition send_message ::
    "descriptor \<Rightarrow> nat \<Rightarrow> nat \<Rightarrow> u32 \<Rightarrow> u32 \<Rightarrow> jinue_message \<Rightarrow> kstate \<Rightarrow> (int ctl \<times> kstate) result" where
  "send_message d e sender function cookie msg s =
     bind_ok (active_memory s) (\<lambda>m.
       case get_receive_buffers_size m msg of
         Inl err \<Rightarrow> Inr (Ret err, s)
       | Inr rsize \<Rightarrow>
           bind_ok (upd_thread sender (\<lambda>x. x\<lparr>
               recv_buffer_size := unat rsize,
               message_errno := 0,
               message_reply_errcode := 0,
               message_function := function,
               message_cookie := cookie\<rparr>) s) (\<lambda>s.
           bind_ok (gather_message sender msg s) (\<lambda>(gather_result, s).
             if gather_result < 0 then Inr (Ret gather_result, s)
             else
               bind_ok (get_endpoint e s) (\<lambda>x.
                 case seq_dequeue (recv_list x) of
                   (None, _) \<Rightarrow>
                     bind_ok (upd_endpoint e
                         (\<lambda>x. x\<lparr>send_list := seq_enqueue sender (send_list x)\<rparr>) s) (\<lambda>s.
                     bind_ok (block_current_thread_and_unlock (K_send d msg) s) (\<lambda>s.
                       Inr (Switched, s)))
                 | (Some receiver, q) \<Rightarrow>
                     bind_ok (upd_endpoint e (\<lambda>x. x\<lparr>recv_list := q\<rparr>) s) (\<lambda>s.
                     bind_ok (upd_thread receiver (\<lambda>x. x\<lparr>t_sender := Some sender\<rparr>) s) (\<lambda>s.
                     bind_ok (switch_to_thread_and_block (K_send d msg) receiver s) (\<lambda>s.
                       Inr (Switched, s))))))))"

text \<open>The part of \<open>send_message\<close> that runs when the sender is switched to again.\<close>

definition send_message_resume :: "nat \<Rightarrow> jinue_message \<Rightarrow> kstate \<Rightarrow> (int \<times> kstate) result" where
  "send_message_resume sender msg s =
     bind_ok (get_thread sender s) (\<lambda>th.
       if message_errno th = JINUE_EPROTO then
         bind_ok (upd_thread sender (\<lambda>x. x\<lparr>t_frame := (t_frame x)
             \<lparr>tf_esi := message_reply_errcode x\<rparr>\<rparr>) s)
           (\<lambda>s. Inr (- JINUE_EPROTO, s))
       else if message_errno th \<noteq> 0 then Inr (- message_errno th, s)
       else
         bind_ok (scatter_message sender msg s) (\<lambda>(scatter_result, s).
           if scatter_result < 0 then Inr (scatter_result, s)
           else bind_ok (get_thread sender s) (\<lambda>th. Inr (int (message_size th), s))))"

section \<open>Receiving\<close>

text \<open>
  One pass of the loop of \<open>receive_message\<close> after the sender is known. The result says
  whether the loop goes round again (the sender's message did not fit).
\<close>

datatype recv_outcome = Again | Received int jinue_message

definition receive_check ::
    "nat \<Rightarrow> nat option \<Rightarrow> nat \<Rightarrow> jinue_message \<Rightarrow> kstate \<Rightarrow> (recv_outcome \<times> kstate) result" where
  "receive_check receiver sender rsize msg s =
     bind_ok (get_thread receiver s) (\<lambda>r.
       if message_errno r \<noteq> 0 then
         bind_ok (upd_thread receiver (\<lambda>x. x\<lparr>t_sender := None\<rparr>) s) (\<lambda>s.
           Inr (Received (- message_errno r) msg, s))
       else
         bind_ok (nonnull sender) (\<lambda>sd.
         bind_ok (get_thread sd s) (\<lambda>th.
           if message_size th > rsize then
             bind_ok (upd_thread sd (\<lambda>x. x\<lparr>message_errno := JINUE_E2BIG\<rparr>) s) (\<lambda>s.
             bind_ok (upd_thread receiver (\<lambda>x. x\<lparr>t_sender := None\<rparr>) s) (\<lambda>s.
             bind_ok (ready_thread sd s) (\<lambda>s. Inr (Again, s))))
           else
             bind_ok (scatter_message sd msg s) (\<lambda>(scatter_result, s).
               if scatter_result < 0 then
                 bind_ok (upd_thread receiver (\<lambda>x. x\<lparr>t_sender := None\<rparr>) s) (\<lambda>s.
                   Inr (Received scatter_result msg, s))
               else
                 Inr (Received (int (message_size th)) (msg\<lparr>
                     recv_function := message_function th,
                     recv_cookie := message_cookie th,
                     reply_max_size := of_nat (recv_buffer_size th)\<rparr>), s)))))"

text \<open>
  The loop. Every pass that goes round again has taken one thread off the send queue,
  so the length of the queue bounds the number of passes.
\<close>

primrec receive_loop ::
    "nat \<Rightarrow> descriptor \<Rightarrow> u32 \<Rightarrow> nat \<Rightarrow> nat \<Rightarrow> nat \<Rightarrow> jinue_message \<Rightarrow> kstate \<Rightarrow>
      ((int \<times> jinue_message) ctl \<times> kstate) result" where
  "receive_loop 0 d umsg e receiver rsize msg s = Inl OutOfFuel"
| "receive_loop (Suc n) d umsg e receiver rsize msg s =
     bind_ok (get_endpoint e s) (\<lambda>x.
       case seq_dequeue (send_list x) of
         (None, _) \<Rightarrow>
           bind_ok (upd_endpoint e
               (\<lambda>x. x\<lparr>recv_list := seq_enqueue receiver (recv_list x)\<rparr>) s) (\<lambda>s.
           bind_ok (block_current_thread_and_unlock (K_receive d msg rsize umsg) s) (\<lambda>s.
             Inr (Switched, s)))
       | (Some sender, q) \<Rightarrow>
           bind_ok (upd_endpoint e (\<lambda>x. x\<lparr>send_list := q\<rparr>) s) (\<lambda>s.
           bind_ok (upd_thread receiver (\<lambda>x. x\<lparr>t_sender := Some sender\<rparr>) s) (\<lambda>s.
           bind_ok (receive_check receiver (Some sender) rsize msg s) (\<lambda>(out, s).
             case out of
               Again \<Rightarrow> receive_loop n d umsg e receiver rsize msg s
             | Received status msg' \<Rightarrow> Inr (Ret (status, msg'), s)))))"

definition receive_passes :: "nat \<Rightarrow> kstate \<Rightarrow> nat result" where
  "receive_passes e s = bind_ok (get_endpoint e s) (\<lambda>x. Inr (Suc (length (send_list x))))"

definition receive_message ::
    "descriptor \<Rightarrow> u32 \<Rightarrow> nat \<Rightarrow> nat \<Rightarrow> jinue_message \<Rightarrow> kstate \<Rightarrow>
      ((int \<times> jinue_message) ctl \<times> kstate) result" where
  "receive_message d umsg e receiver msg s =
     bind_ok (active_memory s) (\<lambda>m.
       case get_receive_buffers_size m msg of
         Inl err \<Rightarrow> Inr (Ret (err, msg), s)
       | Inr rsize \<Rightarrow>
           bind_ok (upd_thread receiver (\<lambda>x. x\<lparr>message_errno := 0\<rparr>) s) (\<lambda>s.
           bind_ok (receive_passes e s) (\<lambda>n.
             receive_loop n d umsg e receiver (unat rsize) msg s)))"

text \<open>The part that runs when the blocked receiver is switched to again.\<close>

definition receive_message_resume ::
    "descriptor \<Rightarrow> u32 \<Rightarrow> nat \<Rightarrow> nat \<Rightarrow> nat \<Rightarrow> jinue_message \<Rightarrow> kstate \<Rightarrow>
      ((int \<times> jinue_message) ctl \<times> kstate) result" where
  "receive_message_resume d umsg e receiver rsize msg s =
     bind_ok (get_thread receiver s) (\<lambda>r.
     bind_ok (receive_check receiver (t_sender r) rsize msg s) (\<lambda>(out, s).
       case out of
         Again \<Rightarrow>
           bind_ok (receive_passes e s) (\<lambda>n. receive_loop n d umsg e receiver rsize msg s)
       | Received status msg' \<Rightarrow> Inr (Ret (status, msg'), s)))"

section \<open>Replying\<close>

definition reply_to_message :: "nat \<Rightarrow> jinue_message \<Rightarrow> kstate \<Rightarrow> (int ctl \<times> kstate) result" where
  "reply_to_message replier msg s =
     bind_ok (get_thread replier s) (\<lambda>r.
       case t_sender r of
         None \<Rightarrow> Inr (Ret (- JINUE_ENOMSG), s)
       | Some replyto \<Rightarrow>
           bind_ok (gather_message replyto msg s) (\<lambda>(gather_result, s).
             if gather_result < 0 then Inr (Ret gather_result, s)
             else
               bind_ok (get_thread replyto s) (\<lambda>th.
                 if message_size th > recv_buffer_size th then Inr (Ret (- JINUE_E2BIG), s)
                 else
                   bind_ok (upd_thread replier (\<lambda>x. x\<lparr>t_sender := None\<rparr>) s) (\<lambda>s.
                   bind_ok (switch_to_thread K_reply replyto s) (\<lambda>s. Inr (Switched, s))))))"

definition reply_error_to_message :: "nat \<Rightarrow> u32 \<Rightarrow> kstate \<Rightarrow> (int ctl \<times> kstate) result" where
  "reply_error_to_message replier err s =
     bind_ok (get_thread replier s) (\<lambda>r.
       case t_sender r of
         None \<Rightarrow> Inr (Ret (- JINUE_ENOMSG), s)
       | Some replyto \<Rightarrow>
           bind_ok (upd_thread replyto (\<lambda>x. x\<lparr>
               message_errno := JINUE_EPROTO, message_reply_errcode := err\<rparr>) s) (\<lambda>s.
           bind_ok (upd_thread replier (\<lambda>x. x\<lparr>t_sender := None\<rparr>) s) (\<lambda>s.
           bind_ok (switch_to_thread K_reply replyto s) (\<lambda>s. Inr (Switched, s)))))"

end
