(* ===== verification/AppCalls.thy ===== *)
theory AppCalls
  imports Ipc
begin

unbundle bit_operations_syntax

text \<open>
  The system calls of \<open>kernel/application/syscalls/\<close>, one definition per C function.
  Calls that can switch to another thread return \<open>Switched\<close> and leave their
  continuation in the calling thread; the others return their status.

  What the machine-dependent layer decides is gathered in a record: whether an
  address space could be created and pages mapped (both fail only for lack of
  memory), the address map call, the size and kind of the saved FPU state, and the fuel for
  nested destruction of processes.
\<close>

section \<open>The machine-dependent layer\<close>

record machine_ops =
  machine_init_process :: bool
  machine_map_userspace :: bool
  machine_get_address_map :: "u32 \<Rightarrow> u32 \<Rightarrow> (u32 \<Rightarrow> u8) \<Rightarrow> int \<times> (u32 \<Rightarrow> u8)"
  fpu_fpregs_size :: u32
  fpu_fpregs_type :: u32
  destroy_fuel :: nat

abbreviation pd_of :: "machine_ops \<Rightarrow> destroy_fn" where
  "pd_of mo \<equiv> process_destroy_op (destroy_fuel mo)"

section \<open>Threads\<close>

definition await_with_thread :: "descriptor \<Rightarrow> kstate \<Rightarrow> (int ctl \<times> kstate) result" where
  "await_with_thread d s =
     (case descriptor_get_thread d of
        None \<Rightarrow> Inr (Ret (- JINUE_EBADF), s)
      | Some t \<Rightarrow>
          if \<not> descriptor_has_permissions d JINUE_PERM_AWAIT then Inr (Ret (- JINUE_EPERM), s)
          else thread_await d t s)"

definition await_thread :: "machine_ops \<Rightarrow> int \<Rightarrow> kstate \<Rightarrow> (int ctl \<times> kstate) result" where
  "await_thread mo fd s =
     bind_ok (get_current_process s) (\<lambda>p.
     bind_ok (descriptor_access_object (pd_of mo) p fd s) (\<lambda>(r, s).
       case r of
         Inl _ \<Rightarrow> Inr (Ret (- JINUE_EBADF), s)
       | Inr d \<Rightarrow>
           bind_ok (await_with_thread d s) (\<lambda>(status, s).
             case status of
               Switched \<Rightarrow> Inr (Switched, s)
             | Ret st \<Rightarrow>
                 bind_ok (descriptor_unreference_object (pd_of mo) d s) (\<lambda>s. Inr (Ret st, s)))))"

definition create_with_target_process ::
    "nat \<Rightarrow> int \<Rightarrow> descriptor \<Rightarrow> kstate \<Rightarrow> (int \<times> kstate) result" where
  "create_with_target_process cur fd target_desc s =
     (case descriptor_get_process target_desc of
        None \<Rightarrow> Inr (- JINUE_EBADF, s)
      | Some target \<Rightarrow>
          if \<not> descriptor_has_permissions target_desc (JINUE_PERM_CREATE_THREAD OR JINUE_PERM_OPEN)
            then Inr (- JINUE_EPERM, s)
          else
            bind_ok (thread_new target s) (\<lambda>(thread, s).
              case thread of
                None \<Rightarrow> Inr (- JINUE_ENOMEM, s)
              | Some t \<Rightarrow>
                  bind_ok (descriptor_open cur fd \<lparr>d_object = Some (ThreadRef t),
                      d_flags = DESC_FLAG_OWNER OR all_permissions object_type_thread,
                      d_cookie = 0\<rparr> s)
                    (\<lambda>s. Inr (0, s))))"

definition create_with_descriptor_reserved ::
    "machine_ops \<Rightarrow> nat \<Rightarrow> int \<Rightarrow> int \<Rightarrow> kstate \<Rightarrow> (int \<times> kstate) result" where
  "create_with_descriptor_reserved mo cur fd process_fd s =
     bind_ok (descriptor_access_object (pd_of mo) cur process_fd s) (\<lambda>(r, s).
       case r of
         Inl status \<Rightarrow> Inr (status, s)
       | Inr target_desc \<Rightarrow>
           bind_ok (create_with_target_process cur fd target_desc s) (\<lambda>(status, s).
           bind_ok (descriptor_unreference_object (pd_of mo) target_desc s) (\<lambda>s.
             Inr (status, s))))"

definition create_thread :: "machine_ops \<Rightarrow> int \<Rightarrow> int \<Rightarrow> kstate \<Rightarrow> (int \<times> kstate) result" where
  "create_thread mo fd process_fd s =
     bind_ok (get_current_process s) (\<lambda>cur.
     bind_ok (descriptor_reserve_unused cur fd s) (\<lambda>(status, s).
       if status < 0 then Inr (- JINUE_EBADF, s)
       else
         bind_ok (create_with_descriptor_reserved mo cur fd process_fd s) (\<lambda>(status, s).
           if status < 0
           then bind_ok (descriptor_free_reservation cur fd s) (\<lambda>s. Inr (status, s))
           else Inr (status, s))))"

definition start_thread ::
    "machine_ops \<Rightarrow> int \<Rightarrow> u32 \<Rightarrow> u32 \<Rightarrow> u64 \<Rightarrow> kstate \<Rightarrow> (int \<times> kstate) result" where
  "start_thread mo fd ent stack smask s =
     bind_ok (get_current_process s) (\<lambda>cur.
     bind_ok (descriptor_access_object (pd_of mo) cur fd s) (\<lambda>(r, s).
       case r of
         Inl _ \<Rightarrow> Inr (- JINUE_EBADF, s)
       | Inr d \<Rightarrow>
           (case descriptor_get_thread d of
              None \<Rightarrow>
                bind_ok (descriptor_unreference_object (pd_of mo) d s) (\<lambda>s.
                  Inr (- JINUE_EBADF, s))
            | Some t \<Rightarrow>
                if \<not> descriptor_has_permissions d JINUE_PERM_START then
                  bind_ok (descriptor_unreference_object (pd_of mo) d s) (\<lambda>s.
                    Inr (- JINUE_EPERM, s))
                else
                  bind_ok (get_thread t s) (\<lambda>th.
                    if t_state th \<noteq> THREAD_STATE_CREATED \<and> t_state th \<noteq> THREAD_STATE_ZOMBIE then
                      bind_ok (descriptor_unreference_object (pd_of mo) d s) (\<lambda>s.
                        Inr (- JINUE_EBUSY, s))
                    else
                      bind_ok (thread_prepare t
                          \<lparr>entry = ent, stack_addr = stack, sigmask = smask\<rparr> s) (\<lambda>s.
                      bind_ok (thread_run t s) (\<lambda>s.
                      bind_ok (descriptor_unreference_object (pd_of mo) d s) (\<lambda>s.
                        Inr (0, s))))))))"

definition exit_thread :: "machine_ops \<Rightarrow> kstate \<Rightarrow> kstate result" where
  "exit_thread mo s = thread_terminate_current (pd_of mo) s"

definition yield_thread :: "kstate \<Rightarrow> kstate result" where
  "yield_thread s = yield_current_thread s"

definition set_thread_local :: "u32 \<Rightarrow> u32 \<Rightarrow> kstate \<Rightarrow> kstate result" where
  "set_thread_local addr n s = thread_set_local_storage (current s) addr n s"

section \<open>Processes, endpoints and descriptors\<close>

definition close :: "machine_ops \<Rightarrow> int \<Rightarrow> kstate \<Rightarrow> (int \<times> kstate) result" where
  "close mo fd s =
     bind_ok (get_current_process s) (\<lambda>p. descriptor_close (pd_of mo) p fd s)"

definition create_endpoint :: "int \<Rightarrow> kstate \<Rightarrow> (int \<times> kstate) result" where
  "create_endpoint fd s =
     bind_ok (get_current_process s) (\<lambda>p.
     bind_ok (descriptor_reserve_unused p fd s) (\<lambda>(status, s).
       if status < 0 then Inr (status, s)
       else
         bind_ok (endpoint_new s) (\<lambda>(endpoint, s).
           case endpoint of
             None \<Rightarrow>
               bind_ok (descriptor_free_reservation p fd s) (\<lambda>s. Inr (- JINUE_EAGAIN, s))
           | Some e \<Rightarrow>
               bind_ok (descriptor_open p fd \<lparr>d_object = Some (EndpointRef e),
                   d_flags = DESC_FLAG_OWNER OR all_permissions object_type_ipc_endpoint,
                   d_cookie = 0\<rparr> s)
                 (\<lambda>s. Inr (0, s)))))"

definition create_process :: "machine_ops \<Rightarrow> int \<Rightarrow> kstate \<Rightarrow> (int \<times> kstate) result" where
  "create_process mo fd s =
     bind_ok (get_current_process s) (\<lambda>cur.
     bind_ok (descriptor_reserve_unused cur fd s) (\<lambda>(status, s).
       if status < 0 then Inr (status, s)
       else
         bind_ok (process_new (machine_init_process mo) s) (\<lambda>(new_process, s).
           case new_process of
             None \<Rightarrow>
               bind_ok (descriptor_free_reservation cur fd s) (\<lambda>s. Inr (- JINUE_EAGAIN, s))
           | Some p \<Rightarrow>
               bind_ok (descriptor_open cur fd \<lparr>d_object = Some (ProcessRef p),
                   d_flags = DESC_FLAG_OWNER OR all_permissions object_type_process,
                   d_cookie = 0\<rparr> s)
                 (\<lambda>s. Inr (0, s)))))"

definition destroy :: "machine_ops \<Rightarrow> int \<Rightarrow> kstate \<Rightarrow> (int \<times> kstate) result" where
  "destroy mo fd s =
     bind_ok (get_current_process s) (\<lambda>p.
     bind_ok (descriptor_access_object (pd_of mo) p fd s) (\<lambda>(r, s).
       case r of
         Inl status \<Rightarrow> Inr (status, s)
       | Inr d \<Rightarrow>
           bind_ok (nonnull (d_object d)) (\<lambda>o'.
             if type_of o' \<noteq> object_type_ipc_endpoint then
               bind_ok (descriptor_unreference_object (pd_of mo) d s) (\<lambda>s.
                 Inr (- JINUE_EBADF, s))
             else if \<not> descriptor_is_owner d then
               bind_ok (descriptor_unreference_object (pd_of mo) d s) (\<lambda>s.
                 Inr (- JINUE_EPERM, s))
             else
               bind_ok (object_destroy (pd_of mo) o' s) (\<lambda>s.
               bind_ok (descriptor_unreference_object (pd_of mo) d s) (\<lambda>s.
                 Inr (0, s))))))"

definition dup_with_source :: "nat \<Rightarrow> descriptor \<Rightarrow> int \<Rightarrow> kstate \<Rightarrow> (int \<times> kstate) result" where
  "dup_with_source target src_desc dest s =
     (if descriptor_is_owner src_desc then Inr (- JINUE_EBADF, s)
      else
        bind_ok (descriptor_reserve_unused target dest s) (\<lambda>(status, s).
          if status < 0 then Inr (status, s)
          else bind_ok (descriptor_open target dest src_desc s) (\<lambda>s. Inr (0, s))))"

definition dup_with_target_process ::
    "machine_ops \<Rightarrow> nat \<Rightarrow> descriptor \<Rightarrow> int \<Rightarrow> int \<Rightarrow> kstate \<Rightarrow> (int \<times> kstate) result" where
  "dup_with_target_process mo cur target_desc src dest s =
     (case descriptor_get_process target_desc of
        None \<Rightarrow> Inr (- JINUE_EBADF, s)
      | Some target \<Rightarrow>
          if \<not> descriptor_has_permissions target_desc JINUE_PERM_OPEN
            then Inr (- JINUE_EPERM, s)
          else
            bind_ok (descriptor_access_object (pd_of mo) cur src s) (\<lambda>(r, s).
              case r of
                Inl status \<Rightarrow> Inr (status, s)
              | Inr src_desc \<Rightarrow>
                  bind_ok (dup_with_source target src_desc dest s) (\<lambda>(status, s).
                  bind_ok (descriptor_unreference_object (pd_of mo) src_desc s) (\<lambda>s.
                    Inr (status, s)))))"

definition dup :: "machine_ops \<Rightarrow> int \<Rightarrow> int \<Rightarrow> int \<Rightarrow> kstate \<Rightarrow> (int \<times> kstate) result" where
  "dup mo process_fd src dest s =
     bind_ok (get_current_process s) (\<lambda>cur.
     bind_ok (descriptor_access_object (pd_of mo) cur process_fd s) (\<lambda>(r, s).
       case r of
         Inl status \<Rightarrow> Inr (status, s)
       | Inr target_desc \<Rightarrow>
           bind_ok (dup_with_target_process mo cur target_desc src dest s) (\<lambda>(status, s).
           bind_ok (descriptor_unreference_object (pd_of mo) target_desc s) (\<lambda>s.
             Inr (status, s)))))"

record mint_args =
  mint_process :: int
  mint_fd :: int
  mint_perms :: u32
  mint_cookie :: u32

definition mint_with_target_process ::
    "descriptor \<Rightarrow> descriptor \<Rightarrow> mint_args \<Rightarrow> kstate \<Rightarrow> (int \<times> kstate) result" where
  "mint_with_target_process owner_desc target_desc args s =
     (case descriptor_get_process target_desc of
        None \<Rightarrow> Inr (- JINUE_EBADF, s)
      | Some target \<Rightarrow>
          if \<not> descriptor_has_permissions target_desc JINUE_PERM_OPEN
            then Inr (- JINUE_EPERM, s)
          else
            bind_ok (descriptor_reserve_unused target (mint_fd args) s) (\<lambda>(status, s).
              if status < 0 then Inr (status, s)
              else
                bind_ok (descriptor_open target (mint_fd args) \<lparr>d_object = d_object owner_desc,
                    d_flags = mint_perms args, d_cookie = mint_cookie args\<rparr> s)
                  (\<lambda>s. Inr (0, s))))"

definition mint_with_owner ::
    "machine_ops \<Rightarrow> nat \<Rightarrow> descriptor \<Rightarrow> mint_args \<Rightarrow> kstate \<Rightarrow> (int \<times> kstate) result" where
  "mint_with_owner mo cur owner_desc args s =
     bind_ok (nonnull (d_object owner_desc)) (\<lambda>o'.
       if mint_perms args AND NOT (all_permissions (type_of o')) \<noteq> 0
         then Inr (- JINUE_EINVAL, s)
       else if mint_perms args = 0 then Inr (- JINUE_EINVAL, s)
       else if \<not> descriptor_is_owner owner_desc then Inr (- JINUE_EPERM, s)
       else
         bind_ok (descriptor_access_object (pd_of mo) cur (mint_process args) s) (\<lambda>(r, s).
           case r of
             Inl status \<Rightarrow> Inr (status, s)
           | Inr target_desc \<Rightarrow>
               bind_ok (mint_with_target_process owner_desc target_desc args s) (\<lambda>(status, s).
               bind_ok (descriptor_unreference_object (pd_of mo) target_desc s) (\<lambda>s.
                 Inr (status, s)))))"

definition mint :: "machine_ops \<Rightarrow> int \<Rightarrow> mint_args \<Rightarrow> kstate \<Rightarrow> (int \<times> kstate) result" where
  "mint mo owner args s =
     bind_ok (get_current_process s) (\<lambda>cur.
     bind_ok (descriptor_access_object (pd_of mo) cur owner s) (\<lambda>(r, s).
       case r of
         Inl status \<Rightarrow> Inr (status, s)
       | Inr owner_desc \<Rightarrow>
           bind_ok (mint_with_owner mo cur owner_desc args s) (\<lambda>(status, s).
           bind_ok (descriptor_unreference_object (pd_of mo) owner_desc s) (\<lambda>s.
             Inr (status, s)))))"

section \<open>Memory\<close>

record mmap_args =
  mmap_addr :: u32
  mmap_length :: u32
  mmap_prot :: u32
  mmap_flags :: u32
  mmap_paddr :: u64

definition mmap_with_process ::
    "machine_ops \<Rightarrow> descriptor \<Rightarrow> mmap_args \<Rightarrow> kstate \<Rightarrow> (int \<times> kstate) result" where
  "mmap_with_process mo d args s =
     (case descriptor_get_process d of
        None \<Rightarrow> Inr (- JINUE_EBADF, s)
      | Some p \<Rightarrow>
          if \<not> descriptor_has_permissions d JINUE_PERM_MAP then Inr (- JINUE_EPERM, s)
          else Inr (if machine_map_userspace mo then 0 else - JINUE_ENOMEM, s))"

definition mmap :: "machine_ops \<Rightarrow> int \<Rightarrow> mmap_args \<Rightarrow> kstate \<Rightarrow> (int \<times> kstate) result" where
  "mmap mo process_fd args s =
     bind_ok (get_current_process s) (\<lambda>p.
     bind_ok (descriptor_access_object (pd_of mo) p process_fd s) (\<lambda>(r, s).
       case r of
         Inl status \<Rightarrow> Inr (status, s)
       | Inr d \<Rightarrow>
           bind_ok (mmap_with_process mo d args s) (\<lambda>(status, s).
           bind_ok (descriptor_unreference_object (pd_of mo) d s) (\<lambda>s. Inr (status, s)))))"

definition get_address_map :: "machine_ops \<Rightarrow> u32 \<Rightarrow> u32 \<Rightarrow> kstate \<Rightarrow> (int \<times> kstate) result" where
  "get_address_map mo addr n s =
     bind_ok (active_memory s) (\<lambda>m.
       let (status, m) = machine_get_address_map mo addr n m in
       bind_ok (set_active_memory m s) (\<lambda>s. Inr (status, s)))"

section \<open>Messages\<close>

definition receive ::
    "machine_ops \<Rightarrow> u32 \<Rightarrow> int \<Rightarrow> jinue_message \<Rightarrow> kstate \<Rightarrow>
      ((int \<times> jinue_message) ctl \<times> kstate) result" where
  "receive mo umsg fd msg s =
     bind_ok (get_current_process s) (\<lambda>p.
     bind_ok (descriptor_access_object (pd_of mo) p fd s) (\<lambda>(r, s).
       case r of
         Inl status \<Rightarrow> Inr (Ret (status, msg), s)
       | Inr d \<Rightarrow>
           (case descriptor_get_endpoint d of
              None \<Rightarrow>
                bind_ok (descriptor_unreference_object (pd_of mo) d s) (\<lambda>s.
                  Inr (Ret (- JINUE_EBADF, msg), s))
            | Some e \<Rightarrow>
                if \<not> descriptor_has_permissions d JINUE_PERM_RECEIVE then
                  bind_ok (descriptor_unreference_object (pd_of mo) d s) (\<lambda>s.
                    Inr (Ret (- JINUE_EPERM, msg), s))
                else
                  bind_ok (receive_message d umsg e (current s) msg s) (\<lambda>(status, s).
                    case status of
                      Switched \<Rightarrow> Inr (Switched, s)
                    | Ret st \<Rightarrow>
                        bind_ok (descriptor_unreference_object (pd_of mo) d s) (\<lambda>s.
                          Inr (Ret st, s))))))"

definition send ::
    "machine_ops \<Rightarrow> int \<Rightarrow> u32 \<Rightarrow> jinue_message \<Rightarrow> kstate \<Rightarrow> (int ctl \<times> kstate) result" where
  "send mo fd function msg s =
     bind_ok (get_current_process s) (\<lambda>p.
     bind_ok (descriptor_access_object (pd_of mo) p fd s) (\<lambda>(r, s).
       case r of
         Inl status \<Rightarrow> Inr (Ret status, s)
       | Inr d \<Rightarrow>
           (case descriptor_get_endpoint d of
              None \<Rightarrow>
                bind_ok (descriptor_unreference_object (pd_of mo) d s) (\<lambda>s.
                  Inr (Ret (- JINUE_EBADF), s))
            | Some e \<Rightarrow>
                if \<not> descriptor_has_permissions d JINUE_PERM_SEND then
                  bind_ok (descriptor_unreference_object (pd_of mo) d s) (\<lambda>s.
                    Inr (Ret (- JINUE_EPERM), s))
                else
                  bind_ok (send_message d e (current s) function (d_cookie d) msg s) (\<lambda>(status, s).
                    case status of
                      Switched \<Rightarrow> Inr (Switched, s)
                    | Ret st \<Rightarrow>
                        bind_ok (descriptor_unreference_object (pd_of mo) d s) (\<lambda>s.
                          Inr (Ret st, s))))))"

definition reply :: "jinue_message \<Rightarrow> kstate \<Rightarrow> (int ctl \<times> kstate) result" where
  "reply msg s = reply_to_message (current s) msg s"

definition reply_error :: "u32 \<Rightarrow> kstate \<Rightarrow> (int ctl \<times> kstate) result" where
  "reply_error err s = reply_error_to_message (current s) err s"

section \<open>Signals\<close>

definition JINUE_SIGNAL_MAX :: int where "JINUE_SIGNAL_MAX = 64"
definition JINUE_SIG_NONE :: int where "JINUE_SIG_NONE = 0"
definition JINUE_SIG_BLOCK :: int where "JINUE_SIG_BLOCK = 1"
definition JINUE_SIG_SETMASK :: int where "JINUE_SIG_SETMASK = 2"
definition JINUE_SIG_UNBLOCK :: int where "JINUE_SIG_UNBLOCK = 3"

definition sigset_mask :: "(u32 \<Rightarrow> u8) \<Rightarrow> u32 \<Rightarrow> u64" where
  "sigset_mask m a = push_bit 32 (ucast (read_u32 m (a + 4))) OR ucast (read_u32 m a)"

definition write_sigset :: "(u32 \<Rightarrow> u8) \<Rightarrow> u32 \<Rightarrow> u64 \<Rightarrow> (u32 \<Rightarrow> u8)" where
  "write_sigset m a smask =
     write_u32 (write_u32 (write_u32 (write_u32 m
       a (ucast (smask AND 0xffffffff)))
       (a + 4) (ucast (drop_bit 32 smask)))
       (a + 8) 0)
       (a + 12) 0"

text \<open>The new smask for each value of \<open>how\<close>, or nothing for an unknown one.\<close>

definition apply_sigmask :: "int \<Rightarrow> u64 \<Rightarrow> u64 \<Rightarrow> u64 option" where
  "apply_sigmask how smask blocked =
     (if how = JINUE_SIG_NONE then Some blocked
      else if how = JINUE_SIG_BLOCK then Some (blocked OR smask)
      else if how = JINUE_SIG_SETMASK then Some smask
      else if how = JINUE_SIG_UNBLOCK then Some (blocked AND NOT smask)
      else None)"

definition get_set_signal_mask :: "int \<Rightarrow> u32 \<Rightarrow> u32 \<Rightarrow> kstate \<Rightarrow> (int \<times> kstate) result" where
  "get_set_signal_mask how uset oset s =
     bind_ok (get_thread (current s) s) (\<lambda>th.
     bind_ok (get_process (t_process th) s) (\<lambda>_.
     bind_ok (active_memory s) (\<lambda>m.
       let how = (if uset = 0 then JINUE_SIG_NONE else how);
           smask = (if how = JINUE_SIG_NONE then 0 else sigset_mask m uset);
           original = blocked_signals th
       in case apply_sigmask how smask original of
            None \<Rightarrow> Inr (- JINUE_EINVAL, s)
          | Some new \<Rightarrow>
              bind_ok (upd_thread (current s) (\<lambda>x. x\<lparr>blocked_signals := new\<rparr>) s) (\<lambda>s.
              bind_ok (if oset \<noteq> 0 then set_active_memory (write_sigset m oset original) s else Inr s)
                (\<lambda>s. Inr (0, s))))))"

definition set_signal_handler :: "u32 \<Rightarrow> kstate \<Rightarrow> kstate result" where
  "set_signal_handler handler s =
     bind_ok (get_current_process s) (\<lambda>p.
       upd_process p (\<lambda>x. x\<lparr>signal_handler := handler\<rparr>) s)"

definition signal_bit :: "int \<Rightarrow> u64" where
  "signal_bit signo = push_bit (nat (signo - 1)) 1"

definition signal_with_process :: "nat \<Rightarrow> int \<Rightarrow> kstate \<Rightarrow> kstate result" where
  "signal_with_process p signo s =
     (if signo = 0 then Inr s
      else upd_process p
        (\<lambda>x. x\<lparr>p_pending_signals := p_pending_signals x OR signal_bit signo\<rparr>) s)"

definition signal_process :: "machine_ops \<Rightarrow> int \<Rightarrow> int \<Rightarrow> kstate \<Rightarrow> (int \<times> kstate) result" where
  "signal_process mo fd signo s =
     (if signo < 0 \<or> signo > JINUE_SIGNAL_MAX then Inr (- JINUE_EINVAL, s)
      else
        bind_ok (get_current_process s) (\<lambda>cur.
          if fd = -1 then
            bind_ok (signal_with_process cur signo s) (\<lambda>s. Inr (0, s))
          else
            bind_ok (descriptor_access_object (pd_of mo) cur fd s) (\<lambda>(r, s).
              case r of
                Inl status \<Rightarrow>
                  Inr (if status = JINUE_EIO then - JINUE_ESRCH else status, s)
              | Inr d \<Rightarrow>
                  (case descriptor_get_process d of
                     None \<Rightarrow>
                       bind_ok (descriptor_unreference_object (pd_of mo) d s) (\<lambda>s.
                         Inr (- JINUE_EBADF, s))
                   | Some p \<Rightarrow>
                       if p \<noteq> cur \<and> \<not> descriptor_has_permissions d JINUE_PERM_SIGNAL then
                         bind_ok (descriptor_unreference_object (pd_of mo) d s) (\<lambda>s.
                           Inr (- JINUE_EPERM, s))
                       else
                         bind_ok (signal_with_process p signo s) (\<lambda>s.
                         bind_ok (descriptor_unreference_object (pd_of mo) d s) (\<lambda>s.
                           Inr (0, s)))))))"

definition signal_with_thread :: "nat \<Rightarrow> int \<Rightarrow> kstate \<Rightarrow> kstate result" where
  "signal_with_thread t signo s =
     bind_ok (get_thread t s) (\<lambda>th.
     bind_ok (get_process (t_process th) s) (\<lambda>_.
       upd_thread t (\<lambda>x. x\<lparr>t_pending_signals := t_pending_signals x OR signal_bit signo\<rparr>) s))"

definition signal_thread :: "machine_ops \<Rightarrow> int \<Rightarrow> int \<Rightarrow> kstate \<Rightarrow> (int \<times> kstate) result" where
  "signal_thread mo fd signo s =
     (if signo < 1 \<or> signo > JINUE_SIGNAL_MAX then Inr (- JINUE_EINVAL, s)
      else if fd = -1 then
        bind_ok (signal_with_thread (current s) signo s) (\<lambda>s. Inr (0, s))
      else
        bind_ok (get_current_process s) (\<lambda>cur.
        bind_ok (descriptor_access_object (pd_of mo) cur fd s) (\<lambda>(r, s).
          case r of
            Inl status \<Rightarrow>
              Inr (if status = JINUE_EIO then - JINUE_ESRCH else status, s)
          | Inr d \<Rightarrow>
              (case descriptor_get_thread d of
                 None \<Rightarrow>
                   bind_ok (descriptor_unreference_object (pd_of mo) d s) (\<lambda>s.
                     Inr (- JINUE_EBADF, s))
               | Some t \<Rightarrow>
                   bind_ok (get_thread t s) (\<lambda>th.
                     if t_process th \<noteq> cur \<and> \<not> descriptor_has_permissions d JINUE_PERM_SIGNAL then
                       bind_ok (descriptor_unreference_object (pd_of mo) d s) (\<lambda>s.
                         Inr (- JINUE_EPERM, s))
                     else
                       bind_ok (signal_with_thread t signo s) (\<lambda>s.
                       bind_ok (descriptor_unreference_object (pd_of mo) d s) (\<lambda>s.
                         Inr (0, s))))))))"

section \<open>Logging and reboot\<close>

definition JINUE_LOG_MAX_LENGTH :: u32 where "JINUE_LOG_MAX_LENGTH = 480"
definition JINUE_LOG_LEVEL_DEBUG :: u8 where "JINUE_LOG_LEVEL_DEBUG = 7"
definition JINUE_LOG_FACILITY_KERNEL :: u8 where "JINUE_LOG_FACILITY_KERNEL = 0"

text \<open>
  The format \<open>"%.*s"\<close> reads bytes up to the precision or a NUL. The address is not
  checked, so it can lie in kernel memory, which the model does not hold.
\<close>

primrec read_string :: "(u32 \<Rightarrow> u8) \<Rightarrow> u32 \<Rightarrow> nat \<Rightarrow> u8 list result" where
  "read_string m a 0 = Inr []"
| "read_string m a (Suc n) =
     (if is_kernel_pointer a then Inl BadAccess
      else if m a = 0 then Inr []
      else bind_ok (read_string m (a + 1) n) (\<lambda>bs. Inr (m a # bs)))"

definition puts :: "u8 \<Rightarrow> u8 \<Rightarrow> u32 \<Rightarrow> u32 \<Rightarrow> kstate \<Rightarrow> (int \<times> kstate) result" where
  "puts loglevel facility str len s =
     (if len > JINUE_LOG_MAX_LENGTH then Inr (- JINUE_EINVAL, s)
      else if loglevel > JINUE_LOG_LEVEL_DEBUG then Inr (- JINUE_EINVAL, s)
      else if facility = JINUE_LOG_FACILITY_KERNEL then Inr (- JINUE_EINVAL, s)
      else
        bind_ok (active_memory s) (\<lambda>m.
        bind_ok (read_string m str (unat len)) (\<lambda>bs.
          Inr (0, s\<lparr>klog := klog s @ [(loglevel, facility, bs)]\<rparr>))))"

definition reboot :: "kstate \<Rightarrow> kstate result" where
  "reboot s = Inl Reboot"

end
