(* ===== verification/Signals.thy ===== *)
theory Signals
  imports AppCalls
begin

unbundle bit_operations_syntax

text \<open>
  Signal delivery: the selection of a pending signal on return to user space
  (\<open>kernel/interface/signal.c\<close>) and the i686 code that saves the interrupted context
  on the user stack and restores it (\<open>kernel/interface/i686/signal.c\<close>). The content
  of the FPU registers is not modelled; the space for it is.
\<close>

section \<open>Selecting a signal\<close>

text \<open>
  The loop over the bits of the set of deliverable signals; running past the last bit
  is the loop that does not end.
\<close>

function signal_loop :: "u64 \<Rightarrow> nat \<Rightarrow> nat option" where
  "signal_loop signals k =
     (if 64 \<le> k then None
      else if signals AND push_bit k 1 = 0 then signal_loop signals (Suc k) else Some k)"
  by pat_completeness auto
termination
  by (relation "measure (\<lambda>(signals, k). 64 - k)") auto

declare signal_loop.simps [simp del]

text \<open>The updates \<open>check_for_signal\<close> makes, and the signal it delivers with the mask to save.\<close>

datatype signal_choice = NoSignal | Deliver int u64 thread process | Endless

definition choose_signal :: "thread \<Rightarrow> process \<Rightarrow> signal_choice" where
  "choose_signal th p =
     (let blocked = blocked_signals th;
          pending = p_pending_signals p OR t_pending_signals th;
          signals = pending AND NOT blocked
      in if signals = 0 \<and> sync_signo th = 0 then NoSignal
         else if signal_handler p = 0 then NoSignal
         else if sync_signo th \<noteq> 0 then
           (let signo = sync_signo th
            in Deliver signo blocked
                 (th\<lparr>sync_signo := 0, blocked_signals := blocked OR signal_bit signo\<rparr>) p)
         else
           (case signal_loop signals 0 of
              None \<Rightarrow> Endless
            | Some k \<Rightarrow>
                (let onemask = push_bit k 1;
                     th' = th\<lparr>blocked_signals := blocked OR onemask\<rparr>
                 in if t_pending_signals th AND onemask \<noteq> 0
                    then Deliver (int k + 1) blocked
                           (th'\<lparr>t_pending_signals := t_pending_signals th AND NOT onemask\<rparr>) p
                    else Deliver (int k + 1) blocked th'
                           (p\<lparr>p_pending_signals := p_pending_signals p AND NOT onemask\<rparr>))))"

section \<open>The frame on the user stack\<close>

definition align_start :: "u32 \<Rightarrow> u32 \<Rightarrow> u32" where
  "align_start x n = x AND NOT (n - 1)"

definition push :: "u32 \<Rightarrow> u32 \<Rightarrow> u32 \<Rightarrow> u32" where
  "push stack n a = (if a = 0 then stack - n else align_start (stack - n) a)"

definition SIZEOF_UCONTEXT :: u32 where "SIZEOF_UCONTEXT = 140"
definition SIZEOF_SIGINFO :: u32 where "SIZEOF_SIGINFO = 32"

text \<open>The general registers in the order of \<open>jinue_gregset_t\<close>.\<close>

definition gregs_of :: "trapframe \<Rightarrow> u32 list" where
  "gregs_of tf =
     [tf_gs tf, tf_fs tf, tf_es tf, tf_ds tf, tf_edi tf, tf_esi tf, tf_ebp tf, 0,
      tf_ebx tf, tf_edx tf, tf_ecx tf, tf_eax tf, tf_trapno tf, tf_errcode tf, tf_eip tf,
      tf_cs tf, tf_eflags tf, tf_esp tf, tf_ss tf]"

primrec write_words :: "(u32 \<Rightarrow> u8) \<Rightarrow> u32 \<Rightarrow> u32 list \<Rightarrow> (u32 \<Rightarrow> u8)" where
  "write_words m a [] = m"
| "write_words m a (w # ws) = write_words (write_u32 m a w) (a + 4) ws"

definition UC_SIGMASK :: u32 where "UC_SIGMASK = 8"
definition UC_GREGS :: u32 where "UC_GREGS = 36"
definition UC_FPREGS_TYPE :: u32 where "UC_FPREGS_TYPE = 112"
definition UC_FPREGS_REGS :: u32 where "UC_FPREGS_REGS = 116"

definition write_ucontext ::
    "machine_ops \<Rightarrow> (u32 \<Rightarrow> u8) \<Rightarrow> u32 \<Rightarrow> u32 \<Rightarrow> u64 \<Rightarrow> trapframe \<Rightarrow> (u32 \<Rightarrow> u8)" where
  "write_ucontext mo m uc fpregs blocked tf =
     (let m = write_words m uc [0, 0];
          m = write_sigset m (uc + UC_SIGMASK) blocked;
          m = write_words m (uc + 24) [0, 0, 0];
          m = write_words m (uc + UC_GREGS) (gregs_of tf)
      in write_words m (uc + UC_FPREGS_TYPE) [fpu_fpregs_type mo, fpregs])"

definition deliver_signal ::
    "machine_ops \<Rightarrow> u32 \<Rightarrow> int \<Rightarrow> u64 \<Rightarrow> (u32 \<Rightarrow> u8) \<Rightarrow> trapframe \<Rightarrow> trapframe \<times> (u32 \<Rightarrow> u8)" where
  "deliver_signal mo handler signo blocked m tf =
     (let entry_stack = tf_esp tf;
          fpregs = push entry_stack (fpu_fpregs_size mo) 16;
          ucontext = push fpregs SIZEOF_UCONTEXT 16;
          siginfo = push ucontext SIZEOF_SIGINFO 16
      in if \<not> check_userspace_buffer (siginfo - 64) (entry_stack - siginfo + 64) then (tf, m)
         else
           (let m = write_u32 m (siginfo - 4) ucontext;
                m = write_u32 m (siginfo - 8) siginfo;
                m = write_u32 m (siginfo - 12) (of_cint signo);
                m = write_u32 m (siginfo - 16) 0;
                m = write_ucontext mo m ucontext fpregs blocked tf;
                m = write_words m siginfo [of_cint signo, 0, 0, 0, 0, 0, 0, 0]
            in (tf\<lparr>tf_esp := siginfo - 16, tf_eip := handler\<rparr>, m)))"

definition check_for_signal :: "machine_ops \<Rightarrow> kstate \<Rightarrow> kstate result" where
  "check_for_signal mo s =
     bind_ok (get_thread (current s) s) (\<lambda>th.
     bind_ok (get_process (t_process th) s) (\<lambda>p.
       case choose_signal th p of
         NoSignal \<Rightarrow> Inr s
       | Endless \<Rightarrow> Inl OutOfFuel
       | Deliver signo blocked th' p' \<Rightarrow>
           bind_ok (upd_process (t_process th) (\<lambda>_. p') s) (\<lambda>s.
           bind_ok (active_memory s) (\<lambda>m.
             let (tf, m) = deliver_signal mo (signal_handler p) signo blocked m (t_frame th) in
             bind_ok (upd_thread (current s) (\<lambda>_. th'\<lparr>t_frame := tf\<rparr>) s)
               (set_active_memory m)))))"

section \<open>Returning from a signal handler\<close>

definition EFLAGS_USER_MASK :: u32 where
  "EFLAGS_USER_MASK = 0x00244dd5"

definition greg :: "(u32 \<Rightarrow> u8) \<Rightarrow> u32 \<Rightarrow> u32 \<Rightarrow> u32" where
  "greg m uc i = read_u32 m (uc + UC_GREGS + 4 * i)"

definition restore_frame :: "(u32 \<Rightarrow> u8) \<Rightarrow> u32 \<Rightarrow> trapframe \<Rightarrow> trapframe" where
  "restore_frame m uc tf = tf\<lparr>
     tf_gs := greg m uc 0,
     tf_fs := greg m uc 1,
     tf_es := greg m uc 2,
     tf_ds := greg m uc 3,
     tf_edi := greg m uc 4,
     tf_esi := greg m uc 5,
     tf_ebp := greg m uc 6,
     tf_ebx := greg m uc 8,
     tf_edx := greg m uc 9,
     tf_ecx := greg m uc 10,
     tf_eax := greg m uc 11,
     tf_trapno := greg m uc 12,
     tf_eip := greg m uc 14,
     tf_eflags := (tf_eflags tf AND NOT EFLAGS_USER_MASK) OR (greg m uc 16 AND EFLAGS_USER_MASK),
     tf_esp := greg m uc 17,
     tf_ss := greg m uc 18\<rparr>"

definition return_from_signal :: "machine_ops \<Rightarrow> u32 \<Rightarrow> kstate \<Rightarrow> (int \<times> kstate) result" where
  "return_from_signal mo uc s =
     bind_ok (active_memory s) (\<lambda>m.
       if \<not> check_userspace_buffer (read_u32 m (uc + UC_FPREGS_REGS)) (fpu_fpregs_size mo)
         then Inr (- JINUE_EINVAL, s)
       else
         bind_ok (get_thread (current s) s) (\<lambda>th.
         bind_ok (get_process (t_process th) s) (\<lambda>_.
         bind_ok (upd_thread (current s) (\<lambda>x. x\<lparr>
             t_frame := restore_frame m uc (t_frame x),
             blocked_signals := sigset_mask m (uc + UC_SIGMASK)\<rparr>) s)
           (\<lambda>s. Inr (0, s)))))"

end
