(* ===== verification/Dispatch.thy ===== *)
theory Dispatch
  imports Signals
begin

unbundle bit_operations_syntax

text \<open>
  The system call interface of \<open>kernel/interface/syscalls.c\<close> and the trap handler of
  \<open>kernel/interface/i686/trap.c\<close>: decoding and checking of the arguments in the trap
  frame, dispatch, encoding of results, and the way back to user space. A system call
  that switched to another thread continues in \<open>resume\<close> when its thread runs again.
\<close>

section \<open>Arguments and results\<close>

definition cur_frame :: "kstate \<Rightarrow> trapframe result" where
  "cur_frame s = bind_ok (get_thread (current s) s) (\<lambda>t. Inr (t_frame t))"

definition upd_frame :: "(trapframe \<Rightarrow> trapframe) \<Rightarrow> kstate \<Rightarrow> kstate result" where
  "upd_frame f s = upd_thread (current s) (\<lambda>x. x\<lparr>t_frame := f (t_frame x)\<rparr>) s"

definition msg_arg0 :: "trapframe \<Rightarrow> u32" where "msg_arg0 tf = tf_eax tf"
definition msg_arg1 :: "trapframe \<Rightarrow> u32" where "msg_arg1 tf = tf_ebx tf"
definition msg_arg2 :: "trapframe \<Rightarrow> u32" where "msg_arg2 tf = tf_esi tf"
definition msg_arg3 :: "trapframe \<Rightarrow> u32" where "msg_arg3 tf = tf_edi tf"

definition frame_return_value :: "int \<Rightarrow> trapframe \<Rightarrow> trapframe" where
  "frame_return_value retval tf =
     tf\<lparr>tf_eax := of_cint retval, tf_ebx := 0, tf_esi := 0, tf_edi := 0\<rparr>"

definition frame_error :: "int \<Rightarrow> trapframe \<Rightarrow> trapframe" where
  "frame_error err tf =
     tf\<lparr>tf_eax := of_cint (-1), tf_ebx := of_cint err, tf_esi := 0, tf_edi := 0\<rparr>"

definition set_return_value :: "int \<Rightarrow> kstate \<Rightarrow> kstate result" where
  "set_return_value retval s = upd_frame (frame_return_value retval) s"

definition set_error :: "int \<Rightarrow> kstate \<Rightarrow> kstate result" where
  "set_error err s = upd_frame (frame_error err) s"

definition set_return_value_or_error :: "int \<Rightarrow> kstate \<Rightarrow> kstate result" where
  "set_return_value_or_error retval s =
     (if retval < 0 then set_error (- retval) s else set_return_value retval s)"

definition get_descriptor :: "u32 \<Rightarrow> int" where
  "get_descriptor v = (if v > 0x7fffffff then - JINUE_EBADF else to_int v)"

text \<open>A handler that finished: back to the trap handler with the status in the frame.\<close>

definition finish :: "int \<Rightarrow> kstate \<Rightarrow> (unit ctl \<times> kstate) result" where
  "finish retval s = bind_ok (set_return_value_or_error retval s) (\<lambda>s. Inr (Ret (), s))"

definition finish_error :: "int \<Rightarrow> kstate \<Rightarrow> (unit ctl \<times> kstate) result" where
  "finish_error err s = bind_ok (set_error err s) (\<lambda>s. Inr (Ret (), s))"

text \<open>A call that cannot switch, and one that can.\<close>

definition finish_call :: "(int \<times> kstate) result \<Rightarrow> (unit ctl \<times> kstate) result" where
  "finish_call m = bind_ok m (\<lambda>(retval, s). finish retval s)"

definition finish_ctl :: "(int ctl \<times> kstate) result \<Rightarrow> (unit ctl \<times> kstate) result" where
  "finish_ctl m = bind_ok m (\<lambda>(c, s).
     case c of Switched \<Rightarrow> Inr (Switched, s) | Ret retval \<Rightarrow> finish retval s)"

section \<open>The handlers\<close>

definition sys_nosys :: "kstate \<Rightarrow> (unit ctl \<times> kstate) result" where
  "sys_nosys s = finish_error JINUE_ENOSYS s"

definition sys_reboot :: "kstate \<Rightarrow> (unit ctl \<times> kstate) result" where
  "sys_reboot s = bind_ok (reboot s) (\<lambda>s. Inr (Ret (), s))"

definition sys_puts :: "trapframe \<Rightarrow> kstate \<Rightarrow> (unit ctl \<times> kstate) result" where
  "sys_puts tf s =
     (let loglevel = ucast (msg_arg1 tf AND 0xff);
          facility = ucast (drop_bit 8 (msg_arg1 tf) AND 0xff)
      in finish_call (puts loglevel facility (msg_arg2 tf) (msg_arg3 tf) s))"

definition sys_create_thread :: "machine_ops \<Rightarrow> trapframe \<Rightarrow> kstate \<Rightarrow> (unit ctl \<times> kstate) result" where
  "sys_create_thread mo tf s =
     (let fd = get_descriptor (msg_arg1 tf); process_fd = get_descriptor (msg_arg2 tf)
      in if fd < 0 then finish fd s
         else if process_fd < 0 then finish process_fd s
         else finish_call (create_thread mo fd process_fd s))"

definition sys_yield_thread :: "kstate \<Rightarrow> (unit ctl \<times> kstate) result" where
  "sys_yield_thread s =
     bind_ok (yield_thread s) (\<lambda>s. bind_ok (set_return_value 0 s) (\<lambda>s. Inr (Ret (), s)))"

definition sys_exit_thread :: "machine_ops \<Rightarrow> kstate \<Rightarrow> (unit ctl \<times> kstate) result" where
  "sys_exit_thread mo s = bind_ok (exit_thread mo s) (\<lambda>s. Inr (Switched, s))"

definition sys_set_thread_local :: "trapframe \<Rightarrow> kstate \<Rightarrow> (unit ctl \<times> kstate) result" where
  "sys_set_thread_local tf s =
     (let addr = msg_arg1 tf; n = msg_arg2 tf
      in if \<not> check_userspace_buffer addr n then finish_error JINUE_EINVAL s
         else bind_ok (set_thread_local addr n s) (finish 0))"

definition sys_get_address_map :: "machine_ops \<Rightarrow> trapframe \<Rightarrow> kstate \<Rightarrow> (unit ctl \<times> kstate) result" where
  "sys_get_address_map mo tf s =
     (let addr = msg_arg1 tf; n = msg_arg2 tf
      in if \<not> check_userspace_buffer addr n then finish_error JINUE_EINVAL s
         else finish_call (get_address_map mo addr n s))"

definition sys_create_endpoint :: "trapframe \<Rightarrow> kstate \<Rightarrow> (unit ctl \<times> kstate) result" where
  "sys_create_endpoint tf s =
     (let fd = get_descriptor (msg_arg1 tf)
      in if fd < 0 then finish fd s else finish_call (create_endpoint fd s))"

definition SIZEOF_MESSAGE :: u32 where "SIZEOF_MESSAGE = 28"

definition copy_message_struct_from_userspace ::
    "(u32 \<Rightarrow> u8) \<Rightarrow> u32 \<Rightarrow> int + jinue_message" where
  "copy_message_struct_from_userspace m umsg =
     (if \<not> check_userspace_buffer umsg SIZEOF_MESSAGE then Inl (- JINUE_EINVAL)
      else Inr \<lparr>send_buffers = read_u32 m umsg,
                send_buffers_length = read_u32 m (umsg + 4),
                recv_buffers = read_u32 m (umsg + 8),
                recv_buffers_length = read_u32 m (umsg + 12),
                recv_function = 0, recv_cookie = 0, reply_max_size = 0\<rparr>)"

definition check_send_buffers :: "jinue_message \<Rightarrow> bool" where
  "check_send_buffers msg =
     check_userspace_buffer (send_buffers msg) (send_buffers_length msg * 8)"

definition check_recv_buffers :: "jinue_message \<Rightarrow> bool" where
  "check_recv_buffers msg =
     check_userspace_buffer (recv_buffers msg) (recv_buffers_length msg * 8)"

text \<open>
  The end of \<open>sys_send\<close>. For \<open>EPROTO\<close> the error code is already in \<open>arg2\<close>
  and is kept.
\<close>

definition sys_send_finish :: "int \<Rightarrow> kstate \<Rightarrow> (unit ctl \<times> kstate) result" where
  "sys_send_finish retval s =
     (if retval = - JINUE_EPROTO then
        bind_ok (upd_frame (\<lambda>tf. tf\<lparr>tf_eax := of_cint (-1), tf_ebx := of_cint JINUE_EPROTO,
            tf_edi := 0\<rparr>) s)
          (\<lambda>s. Inr (Ret (), s))
      else finish retval s)"

definition sys_send :: "machine_ops \<Rightarrow> trapframe \<Rightarrow> kstate \<Rightarrow> (unit ctl \<times> kstate) result" where
  "sys_send mo tf s =
     (let function = msg_arg0 tf; fd = get_descriptor (msg_arg1 tf)
      in if fd < 0 then finish fd s
         else
           bind_ok (active_memory s) (\<lambda>m.
             case copy_message_struct_from_userspace m (msg_arg2 tf) of
               Inl err \<Rightarrow> finish err s
             | Inr msg \<Rightarrow>
                 if \<not> check_send_buffers msg then finish (- JINUE_EINVAL) s
                 else if \<not> check_recv_buffers msg then finish (- JINUE_EINVAL) s
                 else
                   bind_ok (send mo fd function msg s) (\<lambda>(c, s).
                     case c of
                       Switched \<Rightarrow> Inr (Switched, s)
                     | Ret retval \<Rightarrow> sys_send_finish retval s)))"

text \<open>The end of \<open>sys_receive\<close>: the result, and on success the three output members.\<close>

definition sys_receive_finish ::
    "u32 \<Rightarrow> int \<times> jinue_message \<Rightarrow> kstate \<Rightarrow> (unit ctl \<times> kstate) result" where
  "sys_receive_finish umsg res s =
     (let (retval, msg) = res in
      bind_ok (set_return_value_or_error retval s) (\<lambda>s.
        if retval \<ge> 0 then
          bind_ok (active_memory s) (\<lambda>m.
            let m = write_u32 m (umsg + 16) (recv_function msg);
                m = write_u32 m (umsg + 20) (recv_cookie msg);
                m = write_u32 m (umsg + 24) (reply_max_size msg)
            in bind_ok (set_active_memory m s) (\<lambda>s. Inr (Ret (), s)))
        else Inr (Ret (), s)))"

definition sys_receive :: "machine_ops \<Rightarrow> trapframe \<Rightarrow> kstate \<Rightarrow> (unit ctl \<times> kstate) result" where
  "sys_receive mo tf s =
     (let fd = get_descriptor (msg_arg1 tf); umsg = msg_arg2 tf
      in if fd < 0 then finish fd s
         else
           bind_ok (active_memory s) (\<lambda>m.
             case copy_message_struct_from_userspace m umsg of
               Inl err \<Rightarrow> finish err s
             | Inr msg \<Rightarrow>
                 if \<not> check_recv_buffers msg then finish (- JINUE_EINVAL) s
                 else
                   bind_ok (receive mo umsg fd msg s) (\<lambda>(c, s).
                     case c of
                       Switched \<Rightarrow> Inr (Switched, s)
                     | Ret res \<Rightarrow> sys_receive_finish umsg res s)))"

definition sys_reply :: "trapframe \<Rightarrow> kstate \<Rightarrow> (unit ctl \<times> kstate) result" where
  "sys_reply tf s =
     bind_ok (active_memory s) (\<lambda>m.
       case copy_message_struct_from_userspace m (msg_arg2 tf) of
         Inl err \<Rightarrow> finish err s
       | Inr msg \<Rightarrow>
           if \<not> check_send_buffers msg then finish (- JINUE_EINVAL) s
           else finish_ctl (reply msg s))"

definition ALL_PROT_FLAGS :: u32 where "ALL_PROT_FLAGS = 7"
definition WRITE_EXEC :: u32 where "WRITE_EXEC = 6"
definition ALL_MAP_FLAGS :: u32 where "ALL_MAP_FLAGS = 3"
definition UC_WC :: u32 where "UC_WC = 3"
definition SIZEOF_MMAP_ARGS :: u32 where "SIZEOF_MMAP_ARGS = 24"

definition read_mmap_args :: "(u32 \<Rightarrow> u8) \<Rightarrow> u32 \<Rightarrow> mmap_args" where
  "read_mmap_args m a =
     \<lparr>mmap_addr = read_u32 m a,
      mmap_length = read_u32 m (a + 4),
      mmap_prot = read_u32 m (a + 8),
      mmap_flags = read_u32 m (a + 12),
      mmap_paddr = push_bit 32 (ucast (read_u32 m (a + 20))) OR ucast (read_u32 m (a + 16))\<rparr>"

text \<open>The checks \<open>sys_mmap\<close> makes on its arguments: the error number, or nothing.\<close>

definition check_mmap_args :: "mmap_args \<Rightarrow> int option" where
  "check_mmap_args args =
     (if mmap_addr args AND 0xfff \<noteq> 0 then Some JINUE_EINVAL
      else if mmap_length args AND 0xfff \<noteq> 0 then Some JINUE_EINVAL
      else if mmap_paddr args AND 0xfff \<noteq> 0 then Some JINUE_EINVAL
      else if mmap_prot args AND NOT ALL_PROT_FLAGS \<noteq> 0 then Some JINUE_EINVAL
      else if mmap_prot args AND WRITE_EXEC = WRITE_EXEC then Some JINUE_ENOTSUP
      else if mmap_flags args AND NOT ALL_MAP_FLAGS \<noteq> 0 then Some JINUE_EINVAL
      else if mmap_flags args AND UC_WC = UC_WC then Some JINUE_ENOTSUP
      else None)"

definition sys_mmap :: "machine_ops \<Rightarrow> trapframe \<Rightarrow> kstate \<Rightarrow> (unit ctl \<times> kstate) result" where
  "sys_mmap mo tf s =
     (let process_fd = get_descriptor (msg_arg1 tf); uargs = msg_arg2 tf
      in if process_fd < 0 then finish process_fd s
         else if \<not> check_userspace_buffer uargs SIZEOF_MMAP_ARGS then finish_error JINUE_EINVAL s
         else
           bind_ok (active_memory s) (\<lambda>m.
             let args = read_mmap_args m uargs
             in case check_mmap_args args of
                  Some err \<Rightarrow> finish_error err s
                | None \<Rightarrow> finish_call (mmap mo process_fd args s)))"

definition sys_create_process :: "machine_ops \<Rightarrow> trapframe \<Rightarrow> kstate \<Rightarrow> (unit ctl \<times> kstate) result" where
  "sys_create_process mo tf s =
     (let fd = get_descriptor (msg_arg1 tf)
      in if fd < 0 then finish fd s else finish_call (create_process mo fd s))"

definition sys_dup :: "machine_ops \<Rightarrow> trapframe \<Rightarrow> kstate \<Rightarrow> (unit ctl \<times> kstate) result" where
  "sys_dup mo tf s =
     (let process_fd = get_descriptor (msg_arg1 tf);
          src = get_descriptor (msg_arg2 tf);
          dest = get_descriptor (msg_arg3 tf)
      in if process_fd < 0 then finish process_fd s
         else if src < 0 then finish src s
         else if dest < 0 then finish dest s
         else finish_call (dup mo process_fd src dest s))"

definition sys_close :: "machine_ops \<Rightarrow> trapframe \<Rightarrow> kstate \<Rightarrow> (unit ctl \<times> kstate) result" where
  "sys_close mo tf s =
     (let fd = get_descriptor (msg_arg1 tf)
      in if fd < 0 then finish fd s else finish_call (close mo fd s))"

definition sys_destroy :: "machine_ops \<Rightarrow> trapframe \<Rightarrow> kstate \<Rightarrow> (unit ctl \<times> kstate) result" where
  "sys_destroy mo tf s =
     (let fd = get_descriptor (msg_arg1 tf)
      in if fd < 0 then finish fd s else finish_call (destroy mo fd s))"

definition SIZEOF_MINT_ARGS :: u32 where "SIZEOF_MINT_ARGS = 16"

definition sys_mint :: "machine_ops \<Rightarrow> trapframe \<Rightarrow> kstate \<Rightarrow> (unit ctl \<times> kstate) result" where
  "sys_mint mo tf s =
     (let owner = get_descriptor (msg_arg1 tf); uargs = msg_arg2 tf
      in if owner < 0 then finish owner s
         else if \<not> check_userspace_buffer uargs SIZEOF_MINT_ARGS then finish_error JINUE_EINVAL s
         else
           bind_ok (active_memory s) (\<lambda>m.
             let args = \<lparr>mint_process = get_descriptor (read_u32 m uargs),
                         mint_fd = get_descriptor (read_u32 m (uargs + 4)),
                         mint_perms = read_u32 m (uargs + 8),
                         mint_cookie = read_u32 m (uargs + 12)\<rparr>
             in if mint_process args < 0 then finish (mint_process args) s
                else if mint_fd args < 0 then finish (mint_fd args) s
                else finish_call (mint mo owner args s)))"

definition SIZEOF_START_ARGS :: u32 where "SIZEOF_START_ARGS = 12"
definition SIZEOF_SIGSET :: u32 where "SIZEOF_SIGSET = 16"

definition sys_start_thread :: "machine_ops \<Rightarrow> trapframe \<Rightarrow> kstate \<Rightarrow> (unit ctl \<times> kstate) result" where
  "sys_start_thread mo tf s =
     (let fd = get_descriptor (msg_arg1 tf); uargs = msg_arg2 tf
      in if fd < 0 then finish fd s
         else if \<not> check_userspace_buffer uargs SIZEOF_START_ARGS then finish_error JINUE_EINVAL s
         else
           bind_ok (active_memory s) (\<lambda>m.
             let ent = read_u32 m uargs;
                 stack = read_u32 m (uargs + 4);
                 sigset = read_u32 m (uargs + 8)
             in if \<not> is_userspace_pointer ent then finish_error JINUE_EINVAL s
                else if \<not> is_userspace_pointer stack then finish_error JINUE_EINVAL s
                else if \<not> check_userspace_buffer sigset SIZEOF_SIGSET
                  then finish_error JINUE_EINVAL s
                else finish_call
                  (start_thread mo fd ent stack (ucast (read_u32 m sigset)) s)))"

definition sys_await_thread :: "machine_ops \<Rightarrow> trapframe \<Rightarrow> kstate \<Rightarrow> (unit ctl \<times> kstate) result" where
  "sys_await_thread mo tf s =
     (let fd = get_descriptor (msg_arg1 tf)
      in if fd < 0 then finish fd s else finish_ctl (await_thread mo fd s))"

definition sys_reply_error :: "trapframe \<Rightarrow> kstate \<Rightarrow> (unit ctl \<times> kstate) result" where
  "sys_reply_error tf s = finish_ctl (reply_error (msg_arg1 tf) s)"

text \<open>The descriptor argument of the two signal calls, where -1 stands for the caller.\<close>

definition get_signal_descriptor :: "u32 \<Rightarrow> int + int" where
  "get_signal_descriptor v =
     (if to_int v = -1 then Inr (-1)
      else (let fd = get_descriptor v in if fd < 0 then Inl fd else Inr fd))"

definition sys_signal_process :: "machine_ops \<Rightarrow> trapframe \<Rightarrow> kstate \<Rightarrow> (unit ctl \<times> kstate) result" where
  "sys_signal_process mo tf s =
     (case get_signal_descriptor (msg_arg1 tf) of
        Inl err \<Rightarrow> finish err s
      | Inr fd \<Rightarrow> finish_call (signal_process mo fd (to_int (msg_arg2 tf)) s))"

definition sys_signal_thread :: "machine_ops \<Rightarrow> trapframe \<Rightarrow> kstate \<Rightarrow> (unit ctl \<times> kstate) result" where
  "sys_signal_thread mo tf s =
     (case get_signal_descriptor (msg_arg1 tf) of
        Inl err \<Rightarrow> finish err s
      | Inr fd \<Rightarrow> finish_call (signal_thread mo fd (to_int (msg_arg2 tf)) s))"

definition sys_return_from_signal ::
    "machine_ops \<Rightarrow> trapframe \<Rightarrow> kstate \<Rightarrow> (unit ctl \<times> kstate) result" where
  "sys_return_from_signal mo tf s =
     (if \<not> check_userspace_buffer (msg_arg1 tf) SIZEOF_UCONTEXT then finish_error JINUE_EINVAL s
      else finish_call (return_from_signal mo (msg_arg1 tf) s))"

definition sys_get_set_signal_mask :: "trapframe \<Rightarrow> kstate \<Rightarrow> (unit ctl \<times> kstate) result" where
  "sys_get_set_signal_mask tf s =
     (let how = to_int (msg_arg1 tf);
          uset = (if how = JINUE_SIG_NONE then 0 else msg_arg2 tf);
          oset = msg_arg3 tf
      in if how \<noteq> JINUE_SIG_NONE \<and> uset \<noteq> 0 \<and> \<not> check_userspace_buffer uset SIZEOF_SIGSET
           then finish_error JINUE_EINVAL s
         else if oset \<noteq> 0 \<and> \<not> check_userspace_buffer oset SIZEOF_SIGSET
           then finish_error JINUE_EINVAL s
         else finish_call (get_set_signal_mask how uset oset s))"

definition sys_set_signal_handler :: "trapframe \<Rightarrow> kstate \<Rightarrow> (unit ctl \<times> kstate) result" where
  "sys_set_signal_handler tf s =
     (if \<not> is_userspace_pointer (msg_arg1 tf) then finish_error JINUE_EINVAL s
      else bind_ok (set_signal_handler (msg_arg1 tf) s) (\<lambda>s. Inr (Ret (), s)))"

section \<open>Dispatch\<close>

definition JINUE_SYS_USER_BASE :: int where "JINUE_SYS_USER_BASE = 4096"

definition dispatch :: "machine_ops \<Rightarrow> trapframe \<Rightarrow> kstate \<Rightarrow> (unit ctl \<times> kstate) result" where
  "dispatch mo tf s =
     (let function = to_int (msg_arg0 tf)
      in if function < 0 then finish_error JINUE_EINVAL s
         else if function < JINUE_SYS_USER_BASE then
           (if function = 2 then sys_reboot s
            else if function = 3 then sys_puts tf s
            else if function = 4 then sys_create_thread mo tf s
            else if function = 5 then sys_yield_thread s
            else if function = 6 then sys_set_thread_local tf s
            else if function = 8 then sys_get_address_map mo tf s
            else if function = 9 then sys_create_endpoint tf s
            else if function = 10 then sys_receive mo tf s
            else if function = 11 then sys_reply tf s
            else if function = 12 then sys_exit_thread mo s
            else if function = 13 then sys_mmap mo tf s
            else if function = 14 then sys_create_process mo tf s
            else if function = 16 then sys_dup mo tf s
            else if function = 17 then sys_close mo tf s
            else if function = 18 then sys_destroy mo tf s
            else if function = 19 then sys_mint mo tf s
            else if function = 20 then sys_start_thread mo tf s
            else if function = 21 then sys_await_thread mo tf s
            else if function = 22 then sys_reply_error tf s
            else if function = 23 then sys_signal_process mo tf s
            else if function = 24 then sys_signal_thread mo tf s
            else if function = 25 then sys_return_from_signal mo tf s
            else if function = 26 then sys_get_set_signal_mask tf s
            else if function = 27 then sys_set_signal_handler tf s
            else sys_nosys s)
         else sys_send mo tf s)"

definition handle_syscall :: "machine_ops \<Rightarrow> kstate \<Rightarrow> (unit ctl \<times> kstate) result" where
  "handle_syscall mo s = bind_ok (cur_frame s) (\<lambda>tf. dispatch mo tf s)"

section \<open>The way back to user space\<close>

definition to_user :: "machine_ops \<Rightarrow> kstate \<Rightarrow> kstate result" where
  "to_user mo s = check_for_signal mo s"

text \<open>The end of \<open>handle_trap\<close>: \<open>reschedule\<close>, then pending signals.\<close>

definition trap_exit :: "machine_ops \<Rightarrow> unit ctl \<times> kstate \<Rightarrow> kstate result" where
  "trap_exit mo cs =
     (let (c, s) = cs in
      case c of
        Switched \<Rightarrow> Inr s
      | Ret _ \<Rightarrow>
          bind_ok (reschedule s) (\<lambda>(c, s).
            case c of Switched \<Rightarrow> Inr s | Ret _ \<Rightarrow> to_user mo s))"

definition handle_trap_syscall :: "machine_ops \<Rightarrow> kstate \<Rightarrow> kstate result" where
  "handle_trap_syscall mo s = bind_ok (handle_syscall mo s) (trap_exit mo)"

definition tick_interrupt :: "kstate \<Rightarrow> kstate result" where
  "tick_interrupt s = scheduler_tick s"

definition handle_trap_tick :: "machine_ops \<Rightarrow> kstate \<Rightarrow> kstate result" where
  "handle_trap_tick mo s =
     bind_ok (tick_interrupt s) (\<lambda>s. trap_exit mo (Ret (), s))"

text \<open>A thread that is switched to continues where it left off.\<close>

definition resume_kont :: "machine_ops \<Rightarrow> kont \<Rightarrow> kstate \<Rightarrow> kstate result" where
  "resume_kont mo k s =
     (case k of
        K_user \<Rightarrow> Inr s
      | K_start \<Rightarrow> Inr s
      | K_reschedule \<Rightarrow> to_user mo s
      | K_reply \<Rightarrow> bind_ok (finish 0 s) (trap_exit mo)
      | K_await d \<Rightarrow>
          bind_ok (descriptor_unreference_object (pd_of mo) d s) (\<lambda>s.
          bind_ok (finish 0 s) (trap_exit mo))
      | K_send d msg \<Rightarrow>
          bind_ok (send_message_resume (current s) msg s) (\<lambda>(retval, s).
          bind_ok (descriptor_unreference_object (pd_of mo) d s) (\<lambda>s.
          bind_ok (sys_send_finish retval s) (trap_exit mo)))
      | K_receive d msg rsize umsg \<Rightarrow>
          bind_ok (nonnull (descriptor_get_endpoint d)) (\<lambda>e.
          bind_ok (receive_message_resume d umsg e (current s) rsize msg s) (\<lambda>(c, s).
            case c of
              Switched \<Rightarrow> Inr s
            | Ret res \<Rightarrow>
                bind_ok (descriptor_unreference_object (pd_of mo) d s) (\<lambda>s.
                bind_ok (sys_receive_finish umsg res s) (trap_exit mo)))))"

text \<open>Its continuation is consumed: from here on the thread is on its way to user space.\<close>

definition resume :: "machine_ops \<Rightarrow> kstate \<Rightarrow> kstate result" where
  "resume mo s =
     bind_ok (get_thread (current s) s) (\<lambda>th.
     bind_ok (save_kont K_user s) (resume_kont mo (t_kont th)))"

end
