(* ===== verification/Account.thy ===== *)
theory Account
  imports Dispatch
begin

unbundle bit_operations_syntax

text \<open>
  The reference accounting of the kernel. The reference count of an object is compared
  with the references that really exist: open descriptors of processes that are not
  destroyed, the references a started thread holds on itself and on its process, and the
  descriptor copies kept on the kernel stack of a thread in the middle of a system
  call. References held by the kernel code that is executing are \<open>debts\<close>: the
  argument \<open>D\<close> of the accounting predicate says how many there are per object,
  \<open>V\<close> how many of them count as receivers of an endpoint and \<open>R\<close> how many threads of a
  process are leaving.
\<close>

section \<open>Access to the state\<close>

abbreviation thr :: "kstate \<Rightarrow> nat \<Rightarrow> thread" where "thr s t \<equiv> the (threads s t)"
abbreviation prc :: "kstate \<Rightarrow> nat \<Rightarrow> process" where "prc s p \<equiv> the (processes s p)"
abbreviation ept :: "kstate \<Rightarrow> nat \<Rightarrow> ipc_endpoint" where "ept s e \<equiv> the (endpoints s e)"

definition set_thr :: "nat \<Rightarrow> thread \<Rightarrow> kstate \<Rightarrow> kstate" where
  "set_thr t x s = s\<lparr>threads := (threads s)(t \<mapsto> x)\<rparr>"

definition set_prc :: "nat \<Rightarrow> process \<Rightarrow> kstate \<Rightarrow> kstate" where
  "set_prc p x s = s\<lparr>processes := (processes s)(p \<mapsto> x)\<rparr>"

definition set_ept :: "nat \<Rightarrow> ipc_endpoint \<Rightarrow> kstate \<Rightarrow> kstate" where
  "set_ept e x s = s\<lparr>endpoints := (endpoints s)(e \<mapsto> x)\<rparr>"

lemma set_thr_sel [simp]:
  "threads (set_thr t x s) = (threads s)(t \<mapsto> x)"
  "processes (set_thr t x s) = processes s"
  "endpoints (set_thr t x s) = endpoints s"
  "endpoint_cache (set_thr t x s) = endpoint_cache s"
  "process_cache (set_thr t x s) = process_cache s"
  "free_pages (set_thr t x s) = free_pages s"
  "ready_queue (set_thr t x s) = ready_queue s"
  "current (set_thr t x s) = current s"
  "address_space (set_thr t x s) = address_space s"
  "tls_segment (set_thr t x s) = tls_segment s"
  "umem (set_thr t x s) = umem s"
  "klog (set_thr t x s) = klog s"
  by (simp_all add: set_thr_def)

lemma set_prc_sel [simp]:
  "threads (set_prc t x s) = threads s"
  "processes (set_prc t x s) = (processes s)(t \<mapsto> x)"
  "endpoints (set_prc t x s) = endpoints s"
  "endpoint_cache (set_prc t x s) = endpoint_cache s"
  "process_cache (set_prc t x s) = process_cache s"
  "free_pages (set_prc t x s) = free_pages s"
  "ready_queue (set_prc t x s) = ready_queue s"
  "current (set_prc t x s) = current s"
  "address_space (set_prc t x s) = address_space s"
  "tls_segment (set_prc t x s) = tls_segment s"
  "umem (set_prc t x s) = umem s"
  "klog (set_prc t x s) = klog s"
  by (simp_all add: set_prc_def)

lemma set_ept_sel [simp]:
  "threads (set_ept t x s) = threads s"
  "processes (set_ept t x s) = processes s"
  "endpoints (set_ept t x s) = (endpoints s)(t \<mapsto> x)"
  "endpoint_cache (set_ept t x s) = endpoint_cache s"
  "process_cache (set_ept t x s) = process_cache s"
  "free_pages (set_ept t x s) = free_pages s"
  "ready_queue (set_ept t x s) = ready_queue s"
  "current (set_ept t x s) = current s"
  "address_space (set_ept t x s) = address_space s"
  "tls_segment (set_ept t x s) = tls_segment s"
  "umem (set_ept t x s) = umem s"
  "klog (set_ept t x s) = klog s"
  by (simp_all add: set_ept_def)

lemma live_set [simp]:
  "live s (ThreadRef t) \<Longrightarrow> live (set_thr t x s) o' = live s o'"
  "live s (ProcessRef p) \<Longrightarrow> live (set_prc p y s) o' = live s o'"
  "live s (EndpointRef e) \<Longrightarrow> live (set_ept e z s) o' = live s o'"
  by (cases o'; auto)+

declare live.simps [simp del]

lemma get_live [simp]:
  "live s (ThreadRef t) \<Longrightarrow> get_thread t s = Inr (thr s t)"
  "live s (ProcessRef p) \<Longrightarrow> get_process p s = Inr (prc s p)"
  "live s (EndpointRef e) \<Longrightarrow> get_endpoint e s = Inr (ept s e)"
  by (simp_all add: get_thread_def get_process_def get_endpoint_def)

lemma upd_live [simp]:
  "live s (ThreadRef t) \<Longrightarrow> upd_thread t f s = Inr (set_thr t (f (thr s t)) s)"
  "live s (ProcessRef p) \<Longrightarrow> upd_process p g s = Inr (set_prc p (g (prc s p)) s)"
  "live s (EndpointRef e) \<Longrightarrow> upd_endpoint e h s = Inr (set_ept e (h (ept s e)) s)"
  by (simp_all add: upd_thread_def upd_process_def upd_endpoint_def set_thr_def set_prc_def
      set_ept_def)

text \<open>The header of an object.\<close>

fun hdr :: "kstate \<Rightarrow> obj_ref \<Rightarrow> object_header" where
  "hdr s (EndpointRef e) = e_header (ept s e)"
| "hdr s (ProcessRef p) = p_header (prc s p)"
| "hdr s (ThreadRef t) = t_header (thr s t)"

abbreviation rc :: "kstate \<Rightarrow> obj_ref \<Rightarrow> int" where "rc s o' \<equiv> ref_count (hdr s o')"

fun set_hdr :: "obj_ref \<Rightarrow> object_header \<Rightarrow> kstate \<Rightarrow> kstate" where
  "set_hdr (EndpointRef e) h s = set_ept e ((ept s e)\<lparr>e_header := h\<rparr>) s"
| "set_hdr (ProcessRef p) h s = set_prc p ((prc s p)\<lparr>p_header := h\<rparr>) s"
| "set_hdr (ThreadRef t) h s = set_thr t ((thr s t)\<lparr>t_header := h\<rparr>) s"

lemma get_header_live [simp]: "live s o' \<Longrightarrow> get_header o' s = Inr (hdr s o')"
  by (cases o') simp_all

lemma upd_header_live [simp]:
  "live s o' \<Longrightarrow> upd_header o' f s = Inr (set_hdr o' (f (hdr s o')) s)"
  by (cases o') simp_all

lemma hdr_set_hdr [simp]: "hdr (set_hdr o' h s) q = (if q = o' then h else hdr s q)"
  by (cases o'; cases q) auto

lemma live_set_hdr [simp]: "live s o' \<Longrightarrow> live (set_hdr o' h s) q = live s q"
  by (cases o') simp_all

section \<open>References\<close>

definition active :: "kstate \<Rightarrow> nat \<Rightarrow> bool" where
  "active s p \<longleftrightarrow> live s (ProcessRef p) \<and> \<not> header_is_destroyed (p_header (prc s p))"

definition is_started :: "thread_state \<Rightarrow> bool" where
  "is_started st \<longleftrightarrow>
     st = THREAD_STATE_READY \<or> st = THREAD_STATE_RUNNING \<or> st = THREAD_STATE_BLOCKED"

definition started :: "kstate \<Rightarrow> nat \<Rightarrow> bool" where
  "started s t \<longleftrightarrow> live s (ThreadRef t) \<and> is_started (t_state (thr s t))"

definition slot_w :: "obj_ref \<Rightarrow> descriptor \<Rightarrow> int" where
  "slot_w o' d = (if descriptor_is_open d \<and> d_object d = Some o' then 1 else 0)"

definition recv_w :: "nat \<Rightarrow> descriptor \<Rightarrow> int" where
  "recv_w e d = (if descriptor_has_permissions d JINUE_PERM_RECEIVE
                 then slot_w (EndpointRef e) d else 0)"

fun kont_obj :: "kont \<Rightarrow> obj_ref option" where
  "kont_obj (K_send d _) = d_object d"
| "kont_obj (K_receive d _ _ _) = d_object d"
| "kont_obj (K_await d) = d_object d"
| "kont_obj _ = None"

definition pw :: "kstate \<Rightarrow> obj_ref \<Rightarrow> nat \<Rightarrow> int" where
  "pw s o' p = (if active s p then sum_list (map (slot_w o') (descriptors (prc s p))) else 0)"

definition rw :: "kstate \<Rightarrow> nat \<Rightarrow> nat \<Rightarrow> int" where
  "rw s e p = (if active s p then sum_list (map (recv_w e) (descriptors (prc s p))) else 0)"

definition thread_w :: "obj_ref \<Rightarrow> nat \<Rightarrow> thread \<Rightarrow> int" where
  "thread_w o' t x =
     (if o' = ThreadRef t then 1 else 0) + (if o' = ProcessRef (t_process x) then 1 else 0) +
     (if kont_obj (t_kont x) = Some o' then 1 else 0)"

definition tw :: "kstate \<Rightarrow> obj_ref \<Rightarrow> nat \<Rightarrow> int" where
  "tw s o' t = (if started s t then thread_w o' t (thr s t) else 0)"

definition refs :: "kstate \<Rightarrow> obj_ref \<Rightarrow> int" where
  "refs s o' = (\<Sum>p \<in> dom (processes s). pw s o' p) + (\<Sum>t \<in> dom (threads s). tw s o' t)"

definition receivers :: "kstate \<Rightarrow> nat \<Rightarrow> int" where
  "receivers s e = (\<Sum>p \<in> dom (processes s). rw s e p)"

definition runs_in :: "kstate \<Rightarrow> nat \<Rightarrow> nat \<Rightarrow> int" where
  "runs_in s p t = (if started s t \<and> t_process (thr s t) = p then 1 else 0)"

definition running_in :: "kstate \<Rightarrow> nat \<Rightarrow> int" where
  "running_in s p = (\<Sum>t \<in> dom (threads s). runs_in s p t)"

lemma slot_w_bounds: "0 \<le> slot_w o' d" "slot_w o' d \<le> 1"
  by (simp_all add: slot_w_def)

lemma recv_w_bounds: "0 \<le> recv_w e d" "recv_w e d \<le> slot_w (EndpointRef e) d"
  by (simp_all add: recv_w_def slot_w_def)

lemma thread_w_bounds: "0 \<le> thread_w o' t x" "thread_w o' t x \<le> 3"
  by (simp_all add: thread_w_def)

lemma sum_list_mono_int:
  "(\<And>x. x \<in> set xs \<Longrightarrow> f x \<le> (g x :: int)) \<Longrightarrow> sum_list (map f xs) \<le> sum_list (map g xs)"
  by (induction xs) force+

lemma pw_nonneg: "0 \<le> pw s o' p"
  by (simp add: pw_def sum_list_nonneg_int slot_w_bounds)

lemma rw_bounds: "0 \<le> rw s e p" "rw s e p \<le> pw s (EndpointRef e) p"
  by (auto simp: rw_def pw_def sum_list_nonneg_int recv_w_bounds intro!: sum_list_mono_int)

lemma tw_bounds: "0 \<le> tw s o' t" "tw s o' t \<le> 3"
  by (simp_all add: tw_def thread_w_bounds)

lemma refs_nonneg: "0 \<le> refs s o'"
  by (simp add: refs_def sum_nonneg pw_nonneg tw_bounds)

lemma receivers_nonneg: "0 \<le> receivers s e"
  by (simp add: receivers_def sum_nonneg rw_bounds)

lemma receivers_le_refs: "receivers s e \<le> refs s (EndpointRef e)"
proof -
  have "receivers s e \<le> (\<Sum>p \<in> dom (processes s). pw s (EndpointRef e) p)"
    unfolding receivers_def by (intro sum_mono rw_bounds)
  then show ?thesis
    using sum_nonneg [of "dom (threads s)" "tw s (EndpointRef e)"]
    by (simp add: refs_def tw_bounds)
qed

lemma running_in_nonneg: "0 \<le> running_in s p"
  by (simp add: running_in_def runs_in_def sum_nonneg)

lemma running_in_le_refs: "running_in s p \<le> refs s (ProcessRef p)"
proof -
  have "runs_in s p t \<le> tw s (ProcessRef p) t" for t
    by (auto simp: runs_in_def tw_def thread_w_def)
  then have "running_in s p \<le> (\<Sum>t \<in> dom (threads s). tw s (ProcessRef p) t)"
    unfolding running_in_def by (intro sum_mono)
  then show ?thesis
    using sum_nonneg [of "dom (processes s)" "pw s (ProcessRef p)"]
    by (simp add: refs_def pw_nonneg)
qed

section \<open>Sums that change in one place\<close>

lemma sum_change:
  fixes f g :: "'a \<Rightarrow> int"
  assumes "finite A" and "x \<in> A" and "\<And>y. y \<in> A \<Longrightarrow> y \<noteq> x \<Longrightarrow> g y = f y"
  shows "sum g A = sum f A - f x + g x"
proof -
  have "sum g (A - {x}) = sum f (A - {x})"
    by (rule sum.cong) (use assms(3) in auto)
  then show ?thesis
    using sum.remove [OF assms(1,2), of f] sum.remove [OF assms(1,2), of g] by simp
qed

lemma member_le_sum_int:
  fixes f :: "'a \<Rightarrow> int"
  assumes "finite A" and "x \<in> A" and "\<And>y. y \<in> A \<Longrightarrow> 0 \<le> f y"
  shows "f x \<le> sum f A"
  using sum_nonneg [of "A - {x}" f] sum.remove [OF assms(1,2), of f] assms(3) by simp

section \<open>Well-formed stores\<close>

text \<open>
  The number of objects is fixed once and for all by the memory of the machine; the last
  conjunct says that it is too small for a reference count to overflow.
\<close>

definition wf :: "kstate \<Rightarrow> bool" where
  "wf s \<longleftrightarrow>
     finite (dom (processes s)) \<and> finite (dom (threads s)) \<and>
     distinct (endpoint_cache s) \<and> set (endpoint_cache s) \<subseteq> dom (endpoints s) \<and>
     distinct (process_cache s) \<and> set (process_cache s) \<subseteq> dom (processes s) \<and>
     distinct (free_pages s) \<and> set (free_pages s) \<subseteq> dom (threads s) \<and>
     (\<forall>p \<in> dom (processes s). length (descriptors (prc s p)) = JINUE_DESC_NUM) \<and>
     (\<forall>t \<in> dom (threads s). length (message_buffer (thr s t)) = JINUE_MAX_MESSAGE_SIZE \<and>
        message_size (thr s t) \<le> JINUE_MAX_MESSAGE_SIZE) \<and>
     12 * int (card (dom (processes s))) + 3 * int (card (dom (threads s))) < 2 ^ 31 - 16"

lemma wf_finite: "wf s \<Longrightarrow> finite (dom (processes s))" "wf s \<Longrightarrow> finite (dom (threads s))"
  by (simp_all add: wf_def)

lemma live_dom:
  "live s (ProcessRef p) \<Longrightarrow> p \<in> dom (processes s)"
  "live s (ThreadRef t) \<Longrightarrow> t \<in> dom (threads s)"
  "live s (EndpointRef e) \<Longrightarrow> e \<in> dom (endpoints s)"
  by (auto simp: live.simps)

lemma refs_bound:
  assumes "wf s"
  shows "refs s o' < 2 ^ 31 - 16"
proof -
  have "pw s o' p \<le> 12" if "p \<in> dom (processes s)" for p
  proof -
    have "sum_list (map (slot_w o') ds) \<le> int (length ds)" for ds
      by (induction ds) (use slot_w_bounds in \<open>simp_all add: add_mono\<close>)
    from this [of "descriptors (prc s p)"] show ?thesis
      using assms that by (auto simp: pw_def wf_def JINUE_DESC_NUM_def)
  qed
  then have "(\<Sum>p \<in> dom (processes s). pw s o' p) \<le> (\<Sum>p \<in> dom (processes s). 12)"
    by (intro sum_mono)
  moreover have "(\<Sum>t \<in> dom (threads s). tw s o' t) \<le> (\<Sum>t \<in> dom (threads s). 3)"
    by (intro sum_mono tw_bounds)
  ultimately show ?thesis
    using assms by (simp add: refs_def wf_def)
qed

section \<open>Lower bounds on references\<close>

lemma refs_slot:
  assumes "wf s" and "active s p" and "i < length (descriptors (prc s p))"
    and "descriptor_is_open (descriptors (prc s p) ! i)"
    and "d_object (descriptors (prc s p) ! i) = Some o'"
  shows "1 \<le> refs s o'"
proof -
  have "1 \<le> pw s o' p"
    using elem_le_sum_list_int [of "slot_w o'" i "descriptors (prc s p)"] assms(2-5)
    by (simp add: pw_def slot_w_def)
  also have "\<dots> \<le> (\<Sum>p \<in> dom (processes s). pw s o' p)"
    using assms(1,2) by (intro member_le_sum_int live_dom) (auto simp: wf_def active_def pw_nonneg)
  also have "\<dots> \<le> refs s o'"
    by (simp add: refs_def sum_nonneg tw_bounds)
  finally show ?thesis .
qed

lemma refs_thread:
  assumes "wf s" and "started s t" and "1 \<le> thread_w o' t (thr s t)"
  shows "1 \<le> refs s o'"
proof -
  have "1 \<le> tw s o' t"
    using assms(2,3) by (simp add: tw_def)
  also have "\<dots> \<le> (\<Sum>t \<in> dom (threads s). tw s o' t)"
    using assms(1,2) by (intro member_le_sum_int live_dom) (auto simp: wf_def started_def tw_bounds)
  also have "\<dots> \<le> refs s o'"
    by (simp add: refs_def sum_nonneg pw_nonneg)
  finally show ?thesis .
qed

lemma refs_started:
  assumes "wf s" and "started s t"
  shows "1 \<le> refs s (ThreadRef t)" "1 \<le> refs s (ProcessRef (t_process (thr s t)))"
    "kont_obj (t_kont (thr s t)) = Some o' \<Longrightarrow> 1 \<le> refs s o'"
  by (auto intro!: refs_thread [OF assms] simp: thread_w_def)

section \<open>Congruence and change of the references\<close>

lemma refs_cong:
  assumes "dom (processes s') = dom (processes s)" and "dom (threads s') = dom (threads s)"
    and "\<And>p. p \<in> dom (processes s) \<Longrightarrow> pw s' o' p = pw s o' p"
    and "\<And>t. t \<in> dom (threads s) \<Longrightarrow> tw s' o' t = tw s o' t"
  shows "refs s' o' = refs s o'"
  using assms by (simp add: refs_def)

lemma refs_change_thread:
  assumes "wf s" and "t \<in> dom (threads s)"
    and "dom (processes s') = dom (processes s)" and "dom (threads s') = dom (threads s)"
    and "\<And>p. p \<in> dom (processes s) \<Longrightarrow> pw s' o' p = pw s o' p"
    and "\<And>t'. t' \<in> dom (threads s) \<Longrightarrow> t' \<noteq> t \<Longrightarrow> tw s' o' t' = tw s o' t'"
  shows "refs s' o' = refs s o' - tw s o' t + tw s' o' t"
proof -
  have "(\<Sum>t \<in> dom (threads s). tw s' o' t) =
      (\<Sum>t \<in> dom (threads s). tw s o' t) - tw s o' t + tw s' o' t"
    using assms(1,2,6) by (intro sum_change) (auto simp: wf_def)
  then show ?thesis
    using assms(3-5) by (simp add: refs_def)
qed

lemma refs_change_process:
  assumes "wf s" and "p \<in> dom (processes s)"
    and "dom (processes s') = dom (processes s)" and "dom (threads s') = dom (threads s)"
    and "\<And>p'. p' \<in> dom (processes s) \<Longrightarrow> p' \<noteq> p \<Longrightarrow> pw s' o' p' = pw s o' p'"
    and "\<And>t. t \<in> dom (threads s) \<Longrightarrow> tw s' o' t = tw s o' t"
  shows "refs s' o' = refs s o' - pw s o' p + pw s' o' p"
proof -
  have "(\<Sum>p \<in> dom (processes s). pw s' o' p) =
      (\<Sum>p \<in> dom (processes s). pw s o' p) - pw s o' p + pw s' o' p"
    using assms(1,2,5) by (intro sum_change) (auto simp: wf_def)
  then show ?thesis
    using assms(3,4,6) by (simp add: refs_def)
qed

lemma receivers_cong:
  assumes "dom (processes s') = dom (processes s)"
    and "\<And>p. p \<in> dom (processes s) \<Longrightarrow> rw s' e p = rw s e p"
  shows "receivers s' e = receivers s e"
  using assms by (simp add: receivers_def)

lemma receivers_change:
  assumes "wf s" and "p \<in> dom (processes s)" and "dom (processes s') = dom (processes s)"
    and "\<And>p'. p' \<in> dom (processes s) \<Longrightarrow> p' \<noteq> p \<Longrightarrow> rw s' e p' = rw s e p'"
  shows "receivers s' e = receivers s e - rw s e p + rw s' e p"
  unfolding receivers_def assms(3) using assms by (intro sum_change) (auto simp: wf_def)

lemma running_in_cong:
  assumes "dom (threads s') = dom (threads s)"
    and "\<And>t. t \<in> dom (threads s) \<Longrightarrow> runs_in s' p t = runs_in s p t"
  shows "running_in s' p = running_in s p"
  using assms by (simp add: running_in_def)

lemma running_in_change:
  assumes "wf s" and "t \<in> dom (threads s)" and "dom (threads s') = dom (threads s)"
    and "\<And>t'. t' \<in> dom (threads s) \<Longrightarrow> t' \<noteq> t \<Longrightarrow> runs_in s' p t' = runs_in s p t'"
  shows "running_in s' p = running_in s p - runs_in s p t + runs_in s' p t"
  unfolding running_in_def assms(3) using assms by (intro sum_change) (auto simp: wf_def)

section \<open>Updates that do not matter\<close>

lemma live_other [simp]:
  "live (s\<lparr>ready_queue := q\<rparr>) o' = live s o'"
  "live (s\<lparr>current := c\<rparr>) o' = live s o'"
  "live (s\<lparr>address_space := a\<rparr>) o' = live s o'"
  "live (s\<lparr>tls_segment := g\<rparr>) o' = live s o'"
  "live (s\<lparr>umem := m\<rparr>) o' = live s o'"
  "live (s\<lparr>klog := l\<rparr>) o' = live s o'"
  by (cases o'; simp add: live.simps)+

lemma hdr_other [simp]:
  "hdr (s\<lparr>ready_queue := q\<rparr>) o' = hdr s o'"
  "hdr (s\<lparr>current := c\<rparr>) o' = hdr s o'"
  "hdr (s\<lparr>address_space := a\<rparr>) o' = hdr s o'"
  "hdr (s\<lparr>tls_segment := g\<rparr>) o' = hdr s o'"
  "hdr (s\<lparr>umem := m\<rparr>) o' = hdr s o'"
  "hdr (s\<lparr>klog := l\<rparr>) o' = hdr s o'"
  by (cases o'; simp)+

lemma active_other [simp]:
  "active (s\<lparr>ready_queue := q\<rparr>) p = active s p"
  "active (s\<lparr>current := c\<rparr>) p = active s p"
  "active (s\<lparr>address_space := a\<rparr>) p = active s p"
  "active (s\<lparr>tls_segment := g\<rparr>) p = active s p"
  "active (s\<lparr>umem := m\<rparr>) p = active s p"
  "active (s\<lparr>klog := l\<rparr>) p = active s p"
  by (simp_all add: active_def)

lemma started_other [simp]:
  "started (s\<lparr>ready_queue := q\<rparr>) t = started s t"
  "started (s\<lparr>current := c\<rparr>) t = started s t"
  "started (s\<lparr>address_space := a\<rparr>) t = started s t"
  "started (s\<lparr>tls_segment := g\<rparr>) t = started s t"
  "started (s\<lparr>umem := m\<rparr>) t = started s t"
  "started (s\<lparr>klog := l\<rparr>) t = started s t"
  by (simp_all add: started_def)

lemma pw_other [simp]:
  "pw (s\<lparr>ready_queue := q\<rparr>) o' p = pw s o' p"
  "pw (s\<lparr>current := c\<rparr>) o' p = pw s o' p"
  "pw (s\<lparr>address_space := a\<rparr>) o' p = pw s o' p"
  "pw (s\<lparr>tls_segment := g\<rparr>) o' p = pw s o' p"
  "pw (s\<lparr>umem := m\<rparr>) o' p = pw s o' p"
  "pw (s\<lparr>klog := l\<rparr>) o' p = pw s o' p"
  by (simp_all add: pw_def)

lemma rw_other [simp]:
  "rw (s\<lparr>ready_queue := q\<rparr>) e p = rw s e p"
  "rw (s\<lparr>current := c\<rparr>) e p = rw s e p"
  "rw (s\<lparr>address_space := a\<rparr>) e p = rw s e p"
  "rw (s\<lparr>tls_segment := g\<rparr>) e p = rw s e p"
  "rw (s\<lparr>umem := m\<rparr>) e p = rw s e p"
  "rw (s\<lparr>klog := l\<rparr>) e p = rw s e p"
  by (simp_all add: rw_def)

lemma tw_other [simp]:
  "tw (s\<lparr>ready_queue := q\<rparr>) o' t = tw s o' t"
  "tw (s\<lparr>current := c\<rparr>) o' t = tw s o' t"
  "tw (s\<lparr>address_space := a\<rparr>) o' t = tw s o' t"
  "tw (s\<lparr>tls_segment := g\<rparr>) o' t = tw s o' t"
  "tw (s\<lparr>umem := m\<rparr>) o' t = tw s o' t"
  "tw (s\<lparr>klog := l\<rparr>) o' t = tw s o' t"
  by (simp_all add: tw_def)

lemma runs_in_other [simp]:
  "runs_in (s\<lparr>ready_queue := q\<rparr>) p t = runs_in s p t"
  "runs_in (s\<lparr>current := c\<rparr>) p t = runs_in s p t"
  "runs_in (s\<lparr>address_space := a\<rparr>) p t = runs_in s p t"
  "runs_in (s\<lparr>tls_segment := g\<rparr>) p t = runs_in s p t"
  "runs_in (s\<lparr>umem := m\<rparr>) p t = runs_in s p t"
  "runs_in (s\<lparr>klog := l\<rparr>) p t = runs_in s p t"
  by (simp_all add: runs_in_def)

lemma refs_other [simp]:
  "refs (s\<lparr>ready_queue := q\<rparr>) o' = refs s o'"
  "refs (s\<lparr>current := c\<rparr>) o' = refs s o'"
  "refs (s\<lparr>address_space := a\<rparr>) o' = refs s o'"
  "refs (s\<lparr>tls_segment := g\<rparr>) o' = refs s o'"
  "refs (s\<lparr>umem := m\<rparr>) o' = refs s o'"
  "refs (s\<lparr>klog := l\<rparr>) o' = refs s o'"
  by (simp_all add: refs_def)

lemma receivers_other [simp]:
  "receivers (s\<lparr>ready_queue := q\<rparr>) e = receivers s e"
  "receivers (s\<lparr>current := c\<rparr>) e = receivers s e"
  "receivers (s\<lparr>address_space := a\<rparr>) e = receivers s e"
  "receivers (s\<lparr>tls_segment := g\<rparr>) e = receivers s e"
  "receivers (s\<lparr>umem := m\<rparr>) e = receivers s e"
  "receivers (s\<lparr>klog := l\<rparr>) e = receivers s e"
  by (simp_all add: receivers_def)

lemma running_in_other [simp]:
  "running_in (s\<lparr>ready_queue := q\<rparr>) p = running_in s p"
  "running_in (s\<lparr>current := c\<rparr>) p = running_in s p"
  "running_in (s\<lparr>address_space := a\<rparr>) p = running_in s p"
  "running_in (s\<lparr>tls_segment := g\<rparr>) p = running_in s p"
  "running_in (s\<lparr>umem := m\<rparr>) p = running_in s p"
  "running_in (s\<lparr>klog := l\<rparr>) p = running_in s p"
  by (simp_all add: running_in_def)

lemma wf_other [simp]:
  "wf (s\<lparr>ready_queue := q\<rparr>) = wf s"
  "wf (s\<lparr>current := c\<rparr>) = wf s"
  "wf (s\<lparr>address_space := a\<rparr>) = wf s"
  "wf (s\<lparr>tls_segment := g\<rparr>) = wf s"
  "wf (s\<lparr>umem := m\<rparr>) = wf s"
  "wf (s\<lparr>klog := l\<rparr>) = wf s"
  by (simp_all add: wf_def)

section \<open>Updates of one object\<close>

lemma hdr_set [simp]:
  "hdr (set_thr t x s) o' = (if o' = ThreadRef t then t_header x else hdr s o')"
  "hdr (set_prc p y s) o' = (if o' = ProcessRef p then p_header y else hdr s o')"
  "hdr (set_ept e z s) o' = (if o' = EndpointRef e then e_header z else hdr s o')"
  by (cases o'; simp)+

lemma started_set [simp]:
  "live s (ThreadRef t) \<Longrightarrow>
    started (set_thr t x s) t' = (if t' = t then is_started (t_state x) else started s t')"
  "live s (ProcessRef p) \<Longrightarrow> started (set_prc p y s) t' = started s t'"
  "live s (EndpointRef e) \<Longrightarrow> started (set_ept e z s) t' = started s t'"
  by (auto simp: started_def)

lemma active_set [simp]:
  "live s (ThreadRef t) \<Longrightarrow> active (set_thr t x s) q = active s q"
  "live s (ProcessRef p) \<Longrightarrow> active (set_prc p y s) q =
     (if q = p then \<not> header_is_destroyed (p_header y) else active s q)"
  "live s (EndpointRef e) \<Longrightarrow> active (set_ept e z s) q = active s q"
  by (auto simp: active_def)

lemma pw_set [simp]:
  "live s (ThreadRef t) \<Longrightarrow> pw (set_thr t x s) o' q = pw s o' q"
  "live s (ProcessRef p) \<Longrightarrow> pw (set_prc p y s) o' q =
     (if q = p then if header_is_destroyed (p_header y) then 0
        else sum_list (map (slot_w o') (descriptors y)) else pw s o' q)"
  "live s (EndpointRef e) \<Longrightarrow> pw (set_ept e z s) o' q = pw s o' q"
  by (auto simp: pw_def)

lemma rw_set [simp]:
  "live s (ThreadRef t) \<Longrightarrow> rw (set_thr t x s) f q = rw s f q"
  "live s (ProcessRef p) \<Longrightarrow> rw (set_prc p y s) f q =
     (if q = p then if header_is_destroyed (p_header y) then 0
        else sum_list (map (recv_w f) (descriptors y)) else rw s f q)"
  "live s (EndpointRef e) \<Longrightarrow> rw (set_ept e z s) f q = rw s f q"
  by (auto simp: rw_def)

lemma tw_set [simp]:
  "live s (ThreadRef t) \<Longrightarrow> tw (set_thr t x s) o' t' =
     (if t' = t then if is_started (t_state x) then thread_w o' t x else 0 else tw s o' t')"
  "live s (ProcessRef p) \<Longrightarrow> tw (set_prc p y s) o' t' = tw s o' t'"
  "live s (EndpointRef e) \<Longrightarrow> tw (set_ept e z s) o' t' = tw s o' t'"
  by (auto simp: tw_def)

lemma runs_in_set [simp]:
  "live s (ThreadRef t) \<Longrightarrow> runs_in (set_thr t x s) q t' =
     (if t' = t then if is_started (t_state x) \<and> t_process x = q then 1 else 0 else runs_in s q t')"
  "live s (ProcessRef p) \<Longrightarrow> runs_in (set_prc p y s) q t' = runs_in s q t'"
  "live s (EndpointRef e) \<Longrightarrow> runs_in (set_ept e z s) q t' = runs_in s q t'"
  by (auto simp: runs_in_def)

lemma dom_set [simp]:
  "live s (ThreadRef t) \<Longrightarrow> dom (threads (set_thr t x s)) = dom (threads s)"
  "live s (ProcessRef p) \<Longrightarrow> dom (processes (set_prc p y s)) = dom (processes s)"
  "live s (EndpointRef e) \<Longrightarrow> dom (endpoints (set_ept e z s)) = dom (endpoints s)"
  using live_dom [of s] by (auto simp: insert_absorb)

lemma refs_set:
  "wf s \<Longrightarrow> live s (ThreadRef t) \<Longrightarrow> refs (set_thr t x s) o' =
     refs s o' - tw s o' t + (if is_started (t_state x) then thread_w o' t x else 0)"
  "wf s \<Longrightarrow> live s (ProcessRef p) \<Longrightarrow> refs (set_prc p y s) o' =
     refs s o' - pw s o' p + (if header_is_destroyed (p_header y) then 0
        else sum_list (map (slot_w o') (descriptors y)))"
  "live s (EndpointRef e) \<Longrightarrow> refs (set_ept e z s) o' = refs s o'"
proof -
  show "refs (set_thr t x s) o' =
      refs s o' - tw s o' t + (if is_started (t_state x) then thread_w o' t x else 0)"
    if "wf s" "live s (ThreadRef t)"
    using refs_change_thread [of s t "set_thr t x s" o'] that live_dom(2) [OF that(2)]
    by (simp del: set_thr_sel(1)) 
  show "refs (set_prc p y s) o' =
      refs s o' - pw s o' p + (if header_is_destroyed (p_header y) then 0
        else sum_list (map (slot_w o') (descriptors y)))"
    if "wf s" "live s (ProcessRef p)"
    using refs_change_process [of s p "set_prc p y s" o'] that live_dom(1) [OF that(2)]
    by (simp del: set_prc_sel(2))
  show "refs (set_ept e z s) o' = refs s o'" if "live s (EndpointRef e)"
    using that by (simp add: refs_def)
qed

lemma receivers_set:
  "live s (ThreadRef t) \<Longrightarrow> receivers (set_thr t x s) f = receivers s f"
  "wf s \<Longrightarrow> live s (ProcessRef p) \<Longrightarrow> receivers (set_prc p y s) f =
     receivers s f - rw s f p + (if header_is_destroyed (p_header y) then 0
        else sum_list (map (recv_w f) (descriptors y)))"
  "live s (EndpointRef e) \<Longrightarrow> receivers (set_ept e z s) f = receivers s f"
proof -
  show "receivers (set_prc p y s) f =
      receivers s f - rw s f p + (if header_is_destroyed (p_header y) then 0
        else sum_list (map (recv_w f) (descriptors y)))"
    if "wf s" "live s (ProcessRef p)"
    using receivers_change [of s p "set_prc p y s" f] that live_dom(1) [OF that(2)]
    by (simp del: set_prc_sel(2))
qed (simp_all add: receivers_def)

lemma running_in_set:
  "wf s \<Longrightarrow> live s (ThreadRef t) \<Longrightarrow> running_in (set_thr t x s) q =
     running_in s q - runs_in s q t + (if is_started (t_state x) \<and> t_process x = q then 1 else 0)"
  "live s (ProcessRef p) \<Longrightarrow> running_in (set_prc p y s) q = running_in s q"
  "live s (EndpointRef e) \<Longrightarrow> running_in (set_ept e z s) q = running_in s q"
proof -
  show "running_in (set_thr t x s) q =
      running_in s q - runs_in s q t + (if is_started (t_state x) \<and> t_process x = q then 1 else 0)"
    if "wf s" "live s (ThreadRef t)"
    using running_in_change [of s t "set_thr t x s" q] that live_dom(2) [OF that(2)]
    by (simp del: set_thr_sel(1))
qed (simp_all add: running_in_def)

lemma wf_set [simp]:
  "wf s \<Longrightarrow> live s (ThreadRef t) \<Longrightarrow> length (message_buffer x) = JINUE_MAX_MESSAGE_SIZE \<Longrightarrow>
     message_size x \<le> JINUE_MAX_MESSAGE_SIZE \<Longrightarrow> wf (set_thr t x s)"
  "wf s \<Longrightarrow> live s (ProcessRef p) \<Longrightarrow> length (descriptors y) = JINUE_DESC_NUM \<Longrightarrow>
     wf (set_prc p y s)"
  "wf s \<Longrightarrow> live s (EndpointRef e) \<Longrightarrow> wf (set_ept e z s)"
  using live_dom [of s] by (auto simp: wf_def insert_absorb)

lemma wf_thread:
  "wf s \<Longrightarrow> live s (ThreadRef t) \<Longrightarrow> length (message_buffer (thr s t)) = JINUE_MAX_MESSAGE_SIZE"
  "wf s \<Longrightarrow> live s (ThreadRef t) \<Longrightarrow> message_size (thr s t) \<le> JINUE_MAX_MESSAGE_SIZE"
  using live_dom(2) [of s t] by (auto simp: wf_def)

end
