(* ===== verification/Invariant.thy ===== *)
theory Invariant
  imports Account
begin

unbundle bit_operations_syntax

text \<open>
  The invariant of the kernel state. It has three parts: well-formed stores, exact
  reference accounting, and the consistency of scheduling and message queues with the
  states of the threads. The argument \<open>r\<close> is the thread in state running, if any; the
  debts \<open>D\<close>, \<open>V\<close>, \<open>R\<close> are zero between system calls.
\<close>

section \<open>Accounting\<close>

definition acct :: "(obj_ref \<Rightarrow> int) \<Rightarrow> (nat \<Rightarrow> int) \<Rightarrow> (nat \<Rightarrow> int) \<Rightarrow> kstate \<Rightarrow> bool" where
  "acct D V R s \<longleftrightarrow>
     (\<forall>o'. 0 \<le> D o') \<and>
     (\<forall>e. 0 \<le> V e \<and> V e \<le> D (EndpointRef e)) \<and>
     (\<forall>p. 0 \<le> R p \<and> R p \<le> D (ProcessRef p)) \<and>
     (\<forall>o'. refs s o' + D o' < 2 ^ 31) \<and>
     (\<forall>o'. live s o' \<longrightarrow> rc s o' = refs s o' + D o') \<and>
     (\<forall>o'. 0 < refs s o' + D o' \<longrightarrow> live s o') \<and>
     (\<forall>e. live s (EndpointRef e) \<longrightarrow> receivers_count (ept s e) = receivers s e + V e) \<and>
     (\<forall>p. live s (ProcessRef p) \<longrightarrow> running_threads_count (prc s p) = running_in s p + R p)"

section \<open>Queues and thread states\<close>

definition q_ready :: "kstate \<Rightarrow> bool" where
  "q_ready s \<longleftrightarrow> distinct (ready_queue s) \<and>
     (\<forall>t. t \<in> set (ready_queue s) \<longleftrightarrow>
        live s (ThreadRef t) \<and> t_state (thr s t) = THREAD_STATE_READY)"

definition q_running :: "nat option \<Rightarrow> kstate \<Rightarrow> bool" where
  "q_running r s \<longleftrightarrow>
     (\<forall>t. live s (ThreadRef t) \<and> t_state (thr s t) = THREAD_STATE_RUNNING \<longleftrightarrow> r = Some t)"

text \<open>Threads blocked in a send or a receive on endpoint \<open>e\<close>, or waiting for thread \<open>t\<close>.\<close>

definition sending :: "kstate \<Rightarrow> nat \<Rightarrow> nat \<Rightarrow> bool" where
  "sending s t e \<longleftrightarrow> live s (ThreadRef t) \<and> t_state (thr s t) = THREAD_STATE_BLOCKED \<and>
     (\<exists>d msg. t_kont (thr s t) = K_send d msg \<and> d_object d = Some (EndpointRef e))"

definition receiving :: "kstate \<Rightarrow> nat \<Rightarrow> nat \<Rightarrow> bool" where
  "receiving s t e \<longleftrightarrow> live s (ThreadRef t) \<and> t_state (thr s t) = THREAD_STATE_BLOCKED \<and>
     (\<exists>d msg n u. t_kont (thr s t) = K_receive d msg n u \<and> d_object d = Some (EndpointRef e))"

definition awaiting :: "kstate \<Rightarrow> nat \<Rightarrow> nat \<Rightarrow> bool" where
  "awaiting s w t \<longleftrightarrow> live s (ThreadRef w) \<and> t_state (thr s w) = THREAD_STATE_BLOCKED \<and>
     (\<exists>d. t_kont (thr s w) = K_await d \<and> d_object d = Some (ThreadRef t))"

definition q_lists :: "kstate \<Rightarrow> bool" where
  "q_lists s \<longleftrightarrow> (\<forall>e. live s (EndpointRef e) \<longrightarrow>
     distinct (send_list (ept s e)) \<and> distinct (recv_list (ept s e)) \<and>
     (\<forall>t \<in> set (send_list (ept s e)). sending s t e) \<and>
     (\<forall>t \<in> set (recv_list (ept s e)). receiving s t e))"

text \<open>
  The sender a thread has to reply to is blocked, on no queue, and nobody else's to
  reply to.
\<close>

definition q_sender :: "kstate \<Rightarrow> bool" where
  "q_sender s \<longleftrightarrow> (\<forall>t sd. started s t \<and> t_sender (thr s t) = Some sd \<longrightarrow>
     (\<exists>e. sending s sd e \<and> sd \<notin> set (send_list (ept s e))) \<and>
     (\<forall>t'. started s t' \<and> t_sender (thr s t') = Some sd \<longrightarrow> t' = t))"

definition q_await :: "kstate \<Rightarrow> bool" where
  "q_await s \<longleftrightarrow> (\<forall>t w. started s t \<and> t_awaiter (thr s t) = Some w \<longrightarrow> awaiting s w t)"

text \<open>A receive that is about to resume was aborted or has a sender.\<close>

definition recv_fine :: "thread \<Rightarrow> bool" where
  "recv_fine x \<longleftrightarrow> (\<forall>d msg n u. t_state x \<noteq> THREAD_STATE_BLOCKED \<and> t_kont x = K_receive d msg n u \<longrightarrow>
     message_errno x \<noteq> 0 \<or> t_sender x \<noteq> None)"

definition q_recv :: "kstate \<Rightarrow> bool" where
  "q_recv s \<longleftrightarrow> (\<forall>t. started s t \<longrightarrow> recv_fine (thr s t))"

definition q_proc :: "kstate \<Rightarrow> bool" where
  "q_proc s \<longleftrightarrow> (\<forall>t. started s t \<longrightarrow> active s (t_process (thr s t)))"

fun kont_ok :: "kont \<Rightarrow> bool" where
  "kont_ok (K_send d _) = (\<exists>e. d_object d = Some (EndpointRef e))"
| "kont_ok (K_receive d _ _ _) = (\<exists>e. d_object d = Some (EndpointRef e))"
| "kont_ok (K_await d) = (\<exists>t. d_object d = Some (ThreadRef t))"
| "kont_ok _ = True"

definition q_kont :: "kstate \<Rightarrow> bool" where
  "q_kont s \<longleftrightarrow> (\<forall>t. started s t \<longrightarrow> kont_ok (t_kont (thr s t)))"

definition slots_ok :: "descriptor list \<Rightarrow> bool" where
  "slots_ok ds \<longleftrightarrow> (\<forall>d \<in> set ds. descriptor_is_open d \<longrightarrow> d_object d \<noteq> None)"

definition q_slots :: "kstate \<Rightarrow> bool" where
  "q_slots s \<longleftrightarrow> (\<forall>p. active s p \<longrightarrow> slots_ok (descriptors (prc s p)))"

text \<open>Objects in the slab caches are in their constructed state.\<close>

definition q_free :: "kstate \<Rightarrow> bool" where
  "q_free s \<longleftrightarrow>
     (\<forall>e \<in> set (endpoint_cache s). rc s (EndpointRef e) = 0 \<and> send_list (ept s e) = [] \<and>
        recv_list (ept s e) = [] \<and> receivers_count (ept s e) = 0) \<and>
     (\<forall>p \<in> set (process_cache s). rc s (ProcessRef p) = 0)"

definition queues :: "nat option \<Rightarrow> kstate \<Rightarrow> bool" where
  "queues r s \<longleftrightarrow> q_ready s \<and> q_running r s \<and> q_lists s \<and> q_sender s \<and> q_await s \<and> q_recv s \<and>
     q_proc s \<and> q_kont s \<and> q_slots s \<and> q_free s"

lemmas queues_defs = q_ready_def q_running_def q_lists_def q_sender_def q_await_def q_recv_def
  q_proc_def q_kont_def q_slots_def q_free_def

definition kinv ::
    "(obj_ref \<Rightarrow> int) \<Rightarrow> (nat \<Rightarrow> int) \<Rightarrow> (nat \<Rightarrow> int) \<Rightarrow> nat option \<Rightarrow> kstate \<Rightarrow> bool" where
  "kinv D V R r s \<longleftrightarrow> wf s \<and> acct D V R s \<and> queues r s"

lemma kinvI: "wf s \<Longrightarrow> acct D V R s \<Longrightarrow> queues r s \<Longrightarrow> kinv D V R r s"
  by (simp add: kinv_def)

lemma kinvD:
  assumes "kinv D V R r s"
  shows "wf s" "acct D V R s" "queues r s"
  using assms by (simp_all add: kinv_def)

lemma queuesD:
  assumes "queues r s"
  shows "q_ready s" "q_running r s" "q_lists s" "q_sender s" "q_await s" "q_recv s"
    "q_proc s" "q_kont s" "q_slots s" "q_free s"
  using assms by (simp_all add: queues_def)

section \<open>Consequences\<close>

lemma acct_nonneg: "acct D V R s \<Longrightarrow> 0 \<le> D o'"
  by (simp add: acct_def)

lemma acct_live: "acct D V R s \<Longrightarrow> 0 < refs s o' + D o' \<Longrightarrow> live s o'"
  by (simp add: acct_def)

lemma acct_debt_live: "acct D V R s \<Longrightarrow> 0 < D o' \<Longrightarrow> live s o'"
  using refs_nonneg [of s o'] by (simp add: acct_def)

lemma acct_rc: "acct D V R s \<Longrightarrow> live s o' \<Longrightarrow> rc s o' = refs s o' + D o'"
  by (simp add: acct_def)

lemma kinv_refs_live: "kinv D V R r s \<Longrightarrow> 1 \<le> refs s o' \<Longrightarrow> live s o'"
  using acct_live [of D V R s o'] acct_nonneg [of D V R s o'] by (simp add: kinv_def)

lemma kinv_slot_live:
  assumes "kinv D V R r s" and "active s p" and "i < length (descriptors (prc s p))"
    and "descriptor_is_open (descriptors (prc s p) ! i)"
    and "d_object (descriptors (prc s p) ! i) = Some o'"
  shows "live s o'"
  using kinv_refs_live [OF assms(1)] refs_slot [OF kinvD(1) [OF assms(1)] assms(2-)] .

lemma kinv_started:
  assumes "kinv D V R r s" and "started s t"
  shows "live s (ThreadRef t)" "live s (ProcessRef (t_process (thr s t)))"
    "active s (t_process (thr s t))"
    "kont_obj (t_kont (thr s t)) = Some o' \<Longrightarrow> live s o'"
proof -
  show "live s (ThreadRef t)"
    using assms(2) by (simp add: started_def)
  show "active s (t_process (thr s t))"
    using assms by (simp add: kinv_def queues_def q_proc_def)
  then show "live s (ProcessRef (t_process (thr s t)))"
    by (simp add: active_def)
  show "live s o'" if "kont_obj (t_kont (thr s t)) = Some o'"
    by (rule kinv_refs_live [OF assms(1)]) (rule refs_started(3) [OF kinvD(1) [OF assms(1)] assms(2) that])
qed

lemma sending_started: "sending s t e \<Longrightarrow> started s t"
  by (simp add: sending_def started_def is_started_def)

lemma receiving_started: "receiving s t e \<Longrightarrow> started s t"
  by (simp add: receiving_def started_def is_started_def)

lemma awaiting_started: "awaiting s w t \<Longrightarrow> started s w"
  by (simp add: awaiting_def started_def is_started_def)

lemma sending_unique: "sending s t e \<Longrightarrow> sending s t e' \<Longrightarrow> e = e'"
  by (auto simp: sending_def)

lemma sending_not_receiving: "sending s t e \<Longrightarrow> \<not> receiving s t e'"
  by (auto simp: sending_def receiving_def)

lemma length_descriptors:
  "wf s \<Longrightarrow> live s (ProcessRef p) \<Longrightarrow> length (descriptors (prc s p)) = 12"
  using live_dom(1) [of s p] by (simp add: wf_def JINUE_DESC_NUM_def)

section \<open>Blocked threads under updates\<close>

lemma sending_set [simp]:
  "live s (ThreadRef t) \<Longrightarrow> sending (set_thr t x s) t' f =
     (if t' = t then t_state x = THREAD_STATE_BLOCKED \<and>
        (\<exists>d msg. t_kont x = K_send d msg \<and> d_object d = Some (EndpointRef f)) else sending s t' f)"
  "live s (ProcessRef p) \<Longrightarrow> sending (set_prc p y s) t' f = sending s t' f"
  "live s (EndpointRef e) \<Longrightarrow> sending (set_ept e z s) t' f = sending s t' f"
  by (auto simp: sending_def)

lemma receiving_set [simp]:
  "live s (ThreadRef t) \<Longrightarrow> receiving (set_thr t x s) t' f =
     (if t' = t then t_state x = THREAD_STATE_BLOCKED \<and>
        (\<exists>d msg n u. t_kont x = K_receive d msg n u \<and> d_object d = Some (EndpointRef f))
      else receiving s t' f)"
  "live s (ProcessRef p) \<Longrightarrow> receiving (set_prc p y s) t' f = receiving s t' f"
  "live s (EndpointRef e) \<Longrightarrow> receiving (set_ept e z s) t' f = receiving s t' f"
  by (auto simp: receiving_def)

lemma awaiting_set [simp]:
  "live s (ThreadRef t) \<Longrightarrow> awaiting (set_thr t x s) w t' =
     (if w = t then t_state x = THREAD_STATE_BLOCKED \<and>
        (\<exists>d. t_kont x = K_await d \<and> d_object d = Some (ThreadRef t')) else awaiting s w t')"
  "live s (ProcessRef p) \<Longrightarrow> awaiting (set_prc p y s) w t' = awaiting s w t'"
  "live s (EndpointRef e) \<Longrightarrow> awaiting (set_ept e z s) w t' = awaiting s w t'"
  by (auto simp: awaiting_def)

lemma sending_other [simp]:
  "sending (s\<lparr>ready_queue := q\<rparr>) t e = sending s t e"
  "sending (s\<lparr>current := c\<rparr>) t e = sending s t e"
  "sending (s\<lparr>address_space := a\<rparr>) t e = sending s t e"
  "sending (s\<lparr>tls_segment := g\<rparr>) t e = sending s t e"
  "sending (s\<lparr>umem := m\<rparr>) t e = sending s t e"
  "sending (s\<lparr>klog := l\<rparr>) t e = sending s t e"
  by (simp_all add: sending_def)

lemma receiving_other [simp]:
  "receiving (s\<lparr>ready_queue := q\<rparr>) t e = receiving s t e"
  "receiving (s\<lparr>current := c\<rparr>) t e = receiving s t e"
  "receiving (s\<lparr>address_space := a\<rparr>) t e = receiving s t e"
  "receiving (s\<lparr>tls_segment := g\<rparr>) t e = receiving s t e"
  "receiving (s\<lparr>umem := m\<rparr>) t e = receiving s t e"
  "receiving (s\<lparr>klog := l\<rparr>) t e = receiving s t e"
  by (simp_all add: receiving_def)

lemma awaiting_other [simp]:
  "awaiting (s\<lparr>ready_queue := q\<rparr>) t w = awaiting s t w"
  "awaiting (s\<lparr>current := c\<rparr>) t w = awaiting s t w"
  "awaiting (s\<lparr>address_space := a\<rparr>) t w = awaiting s t w"
  "awaiting (s\<lparr>tls_segment := g\<rparr>) t w = awaiting s t w"
  "awaiting (s\<lparr>umem := m\<rparr>) t w = awaiting s t w"
  "awaiting (s\<lparr>klog := l\<rparr>) t w = awaiting s t w"
  by (simp_all add: awaiting_def)

lemma acct_other [simp]:
  "acct D V R (s\<lparr>ready_queue := q\<rparr>) = acct D V R s"
  "acct D V R (s\<lparr>current := c\<rparr>) = acct D V R s"
  "acct D V R (s\<lparr>address_space := a\<rparr>) = acct D V R s"
  "acct D V R (s\<lparr>tls_segment := g\<rparr>) = acct D V R s"
  "acct D V R (s\<lparr>umem := m\<rparr>) = acct D V R s"
  "acct D V R (s\<lparr>klog := l\<rparr>) = acct D V R s"
  by (simp_all add: acct_def)

lemma queues_other [simp]:
  "queues r (s\<lparr>current := c\<rparr>) = queues r s"
  "queues r (s\<lparr>address_space := a\<rparr>) = queues r s"
  "queues r (s\<lparr>tls_segment := g\<rparr>) = queues r s"
  "queues r (s\<lparr>umem := m\<rparr>) = queues r s"
  "queues r (s\<lparr>klog := l\<rparr>) = queues r s"
  by (simp_all add: queues_def queues_defs)

lemma kinv_other [simp]:
  "kinv D V R r (s\<lparr>current := c\<rparr>) = kinv D V R r s"
  "kinv D V R r (s\<lparr>address_space := a\<rparr>) = kinv D V R r s"
  "kinv D V R r (s\<lparr>tls_segment := g\<rparr>) = kinv D V R r s"
  "kinv D V R r (s\<lparr>umem := m\<rparr>) = kinv D V R r s"
  "kinv D V R r (s\<lparr>klog := l\<rparr>) = kinv D V R r s"
  by (simp_all add: kinv_def)

section \<open>Updates that keep the invariant\<close>

text \<open>An update of a thread that touches nothing the invariant depends on.\<close>

definition thread_same :: "thread \<Rightarrow> thread \<Rightarrow> bool" where
  "thread_same x x' \<longleftrightarrow>
     t_header x' = t_header x \<and> t_state x' = t_state x \<and> t_process x' = t_process x \<and>
     t_kont x' = t_kont x \<and> t_sender x' = t_sender x \<and> t_awaiter x' = t_awaiter x \<and>
     length (message_buffer x') = JINUE_MAX_MESSAGE_SIZE \<and>
     message_size x' \<le> JINUE_MAX_MESSAGE_SIZE \<and> (recv_fine x \<longrightarrow> recv_fine x')"

lemma acct_set_thr:
  assumes "wf s" and "live s (ThreadRef t)" and "acct D V R s"
    and "t_header x = t_header (thr s t)"
    and "\<And>o'. (if is_started (t_state x) then thread_w o' t x else 0) = tw s o' t + D o' - D' o'"
    and "\<And>p. (if is_started (t_state x) \<and> t_process x = p then 1 else 0) = runs_in s p t + R p - R' p"
    and "\<And>o'. 0 \<le> D' o'" and "\<And>e. V e \<le> D' (EndpointRef e)"
    and "\<And>p. 0 \<le> R' p \<and> R' p \<le> D' (ProcessRef p)"
  shows "acct D' V R' (set_thr t x s)"
proof -
  have "refs (set_thr t x s) o' + D' o' = refs s o' + D o'" for o'
    using refs_set(1) [OF assms(1,2), of x o'] assms(5) [of o'] by simp
  moreover have "running_in (set_thr t x s) p + R' p = running_in s p + R p" for p
    using running_in_set(1) [OF assms(1,2), of x p] assms(6) [of p] by simp
  moreover have "hdr (set_thr t x s) o' = hdr s o'" for o'
    using assms(4) by simp
  ultimately show ?thesis
    using assms(2,3,7-9) by (simp add: acct_def receivers_set del: hdr_set)
qed

lemma kinv_set_thr_same:
  assumes "kinv D V R r s" and "live s (ThreadRef t)" and "thread_same (thr s t) x"
  shows "kinv D V R r (set_thr t x s)"
proof (rule kinvI)
  note [simp] = assms(2)
  have same: "t_header x = t_header (thr s t)" "t_state x = t_state (thr s t)"
      "t_process x = t_process (thr s t)" "t_kont x = t_kont (thr s t)"
      "t_sender x = t_sender (thr s t)" "t_awaiter x = t_awaiter (thr s t)"
    using assms(3) by (simp_all add: thread_same_def)
  have st: "is_started (t_state (thr s t)) = started s t"
    by (simp add: started_def)
  show "wf (set_thr t x s)"
    using assms by (simp add: kinv_def thread_same_def)
  show "acct D V R (set_thr t x s)"
    by (rule acct_set_thr [OF kinvD(1) [OF assms(1)] assms(2) kinvD(2) [OF assms(1)]])
      (use kinvD(2) [OF assms(1)] in \<open>auto simp: same st tw_def thread_w_def runs_in_def acct_def\<close>)
  have eq: "started (set_thr t x s) = started s" "sending (set_thr t x s) = sending s"
      "receiving (set_thr t x s) = receiving s" "awaiting (set_thr t x s) = awaiting s"
      "active (set_thr t x s) = active s" "live (set_thr t x s) = live s"
    by (auto simp: fun_eq_iff same st sending_def receiving_def awaiting_def)
  have view: "t_state (thr (set_thr t x s) t') = t_state (thr s t')"
      "t_process (thr (set_thr t x s) t') = t_process (thr s t')"
      "t_kont (thr (set_thr t x s) t') = t_kont (thr s t')"
      "t_sender (thr (set_thr t x s) t') = t_sender (thr s t')"
      "t_awaiter (thr (set_thr t x s) t') = t_awaiter (thr s t')"
      "recv_fine (thr s t') \<longrightarrow> recv_fine (thr (set_thr t x s) t')" for t'
    using assms(3) by (auto simp: same thread_same_def)
  show "queues r (set_thr t x s)"
    using kinvD(3) [OF assms(1)] view(6)
    unfolding queues_def queues_defs eq view by (simp add: same)
qed

lemma queues_set_prc:
  assumes "queues r s" and "live s (ProcessRef p)"
    and "ref_count (p_header y) = rc s (ProcessRef p)"
    and "\<not> header_is_destroyed (p_header y) \<Longrightarrow> slots_ok (descriptors y)"
    and "header_is_destroyed (p_header y) \<Longrightarrow> \<forall>t. started s t \<longrightarrow> t_process (thr s t) \<noteq> p"
  shows "queues r (set_prc p y s)"
proof -
  note [simp] = assms(2)
  have "p \<notin> set (process_cache s)"
    using assms(2) by (simp add: live.simps)
  then have "q_free (set_prc p y s)"
    using queuesD(10) [OF assms(1)] by (auto simp: q_free_def)
  moreover have "q_slots (set_prc p y s)"
    using queuesD(9) [OF assms(1)] assms(4) by (auto simp: q_slots_def)
  moreover have "q_proc (set_prc p y s)"
    using queuesD(7) [OF assms(1)] assms(5) by (auto simp: q_proc_def)
  ultimately show ?thesis
    using queuesD [OF assms(1)]
    by (simp add: queues_def q_ready_def q_running_def q_lists_def q_sender_def q_await_def q_recv_def
        q_kont_def)
qed

lemma kinv_set_prc_same:
  assumes "kinv D V R r s" and "live s (ProcessRef p)"
    and "p_header y = p_header (prc s p)" and "descriptors y = descriptors (prc s p)"
    and "running_threads_count y = running_threads_count (prc s p)"
  shows "kinv D V R r (set_prc p y s)"
proof (rule kinvI)
  note [simp] = assms(2)
  have wf: "wf s" using assms(1) by (simp add: kinv_def)
  have "pw s o' p = (if header_is_destroyed (p_header y) then 0
      else sum_list (map (slot_w o') (descriptors y)))" for o'
    by (simp add: pw_def active_def assms)
  then have "refs (set_prc p y s) o' = refs s o'" for o'
    by (simp add: refs_set wf)
  moreover have "rw s e p = (if header_is_destroyed (p_header y) then 0
      else sum_list (map (recv_w e) (descriptors y)))" for e
    by (simp add: rw_def active_def assms)
  then have "receivers (set_prc p y s) e = receivers s e" for e
    by (simp add: receivers_set wf)
  moreover have "hdr (set_prc p y s) o' = hdr s o'" for o'
    using assms(3) by simp
  ultimately show "acct D V R (set_prc p y s)"
    using kinvD(2) [OF assms(1)] assms(5) by (simp add: acct_def running_in_set del: hdr_set)
  show "wf (set_prc p y s)"
    using wf length_descriptors [OF wf assms(2)] by (simp add: assms(4) JINUE_DESC_NUM_def)
  show "queues r (set_prc p y s)"
    by (rule queues_set_prc [OF kinvD(3) [OF assms(1)] assms(2)])
      (use assms kinvD(3) [OF assms(1)] in \<open>auto simp: queues_def q_slots_def q_proc_def active_def\<close>)
qed

lemma q_senderD:
  assumes "q_sender s" and "started s t" and "t_sender (thr s t) = Some sd"
  shows "\<exists>e. sending s sd e \<and> sd \<notin> set (send_list (ept s e))"
    "started s t' \<Longrightarrow> t_sender (thr s t') = Some sd \<Longrightarrow> t' = t"
  using assms unfolding q_sender_def by blast+

lemma q_awaitD: "q_await s \<Longrightarrow> started s t \<Longrightarrow> t_awaiter (thr s t) = Some w \<Longrightarrow> awaiting s w t"
  by (simp add: q_await_def)

lemma awaiting_exclusive:
  "awaiting s w t \<Longrightarrow> \<not> sending s w e" "awaiting s w t \<Longrightarrow> \<not> receiving s w e"
  by (auto simp: awaiting_def sending_def receiving_def)

lemma q_listsD:
  assumes "q_lists s" and "live s (EndpointRef e)"
  shows "distinct (send_list (ept s e))" "distinct (recv_list (ept s e))"
    "t \<in> set (send_list (ept s e)) \<Longrightarrow> sending s t e"
    "t \<in> set (recv_list (ept s e)) \<Longrightarrow> receiving s t e"
  using assms by (simp_all add: q_lists_def)

lemma listed_not_sender:
  assumes "queues r s" and "live s (EndpointRef e)" and "t \<in> set (send_list (ept s e))"
    and "started s q"
  shows "t_sender (thr s q) \<noteq> Some t"
proof
  assume "t_sender (thr s q) = Some t"
  then obtain f where "sending s t f" "t \<notin> set (send_list (ept s f))"
    using q_senderD(1) [OF queuesD(4) [OF assms(1)] assms(4)] by blast
  moreover have "sending s t e"
    using queuesD(3) [OF assms(1)] assms(2,3) by (simp add: q_lists_def)
  ultimately show False
    using sending_unique assms(3) by blast
qed

lemma kinv_set_ept:
  assumes "kinv D V R r s" and "live s (EndpointRef e)"
    and "ref_count (e_header z) = rc s (EndpointRef e)"
    and "receivers_count z = receivers_count (ept s e) + v - V e"
    and "V' = V(e := v)" and "0 \<le> v" and "v \<le> D (EndpointRef e)"
    and "distinct (send_list z)" and "distinct (recv_list z)"
    and "\<And>t. t \<in> set (send_list z) \<Longrightarrow> sending s t e"
    and "\<And>t. t \<in> set (recv_list z) \<Longrightarrow> receiving s t e"
    and "\<And>t q. t \<in> set (send_list z) \<Longrightarrow> started s q \<Longrightarrow> t_sender (thr s q) \<noteq> Some t"
  shows "kinv D V' R r (set_ept e z s)"
proof (rule kinvI)
  note [simp] = assms(2)
  show "wf (set_ept e z s)"
    using assms(1) by (simp add: kinv_def)
  have "rc (set_ept e z s) o' = rc s o'" for o'
    using assms(3) by simp
  then show "acct D V' R (set_ept e z s)"
    using kinvD(2) [OF assms(1)] assms(4,6,7)
    by (simp add: acct_def refs_set receivers_set running_in_set assms(5) del: hdr_set)
  have cache: "e \<notin> set (endpoint_cache s)"
    using assms(2) by (simp add: live.simps)
  note q = queuesD [OF kinvD(3) [OF assms(1)]]
  have "q_lists (set_ept e z s)"
    using q(3) assms(8-11) by (auto simp: q_lists_def)
  moreover have "q_sender (set_ept e z s)"
    unfolding q_sender_def
  proof (intro allI impI conjI, goal_cases)
    case (1 t sd)
    then obtain f where "sending s sd f" "sd \<notin> set (send_list (ept s f))"
      using q_senderD(1) [OF q(4), of t sd] by auto
    then show ?case
      using assms(12) 1 by (intro exI [of _ f]) auto
  next
    case (2 t sd t')
    then show ?case
      using q_senderD(2) [OF q(4), of t sd t'] by simp
  qed
  moreover have "q_free (set_ept e z s)"
    using q(10) cache by (auto simp: q_free_def)
  ultimately show "queues r (set_ept e z s)"
    using q by (simp add: queues_def q_ready_def q_running_def q_await_def q_recv_def q_proc_def
        q_kont_def q_slots_def)
qed

section \<open>Reference counts\<close>

lemma set_hdr_other [simp]:
  assumes "live s o'"
  shows "started (set_hdr o' h s) t = started s t"
    "sending (set_hdr o' h s) t e = sending s t e"
    "receiving (set_hdr o' h s) t e = receiving s t e"
    "awaiting (set_hdr o' h s) t w = awaiting s t w"
    "t_state (thr (set_hdr o' h s) t) = t_state (thr s t)"
    "t_process (thr (set_hdr o' h s) t) = t_process (thr s t)"
    "t_kont (thr (set_hdr o' h s) t) = t_kont (thr s t)"
    "t_sender (thr (set_hdr o' h s) t) = t_sender (thr s t)"
    "t_awaiter (thr (set_hdr o' h s) t) = t_awaiter (thr s t)"
    "recv_fine (thr (set_hdr o' h s) t) = recv_fine (thr s t)"
    "send_list (ept (set_hdr o' h s) e) = send_list (ept s e)"
    "recv_list (ept (set_hdr o' h s) e) = recv_list (ept s e)"
    "receivers_count (ept (set_hdr o' h s) e) = receivers_count (ept s e)"
    "descriptors (prc (set_hdr o' h s) p) = descriptors (prc s p)"
    "running_threads_count (prc (set_hdr o' h s) p) = running_threads_count (prc s p)"
    "ready_queue (set_hdr o' h s) = ready_queue s"
    "endpoint_cache (set_hdr o' h s) = endpoint_cache s"
    "process_cache (set_hdr o' h s) = process_cache s"
    "free_pages (set_hdr o' h s) = free_pages s"
    "current (set_hdr o' h s) = current s"
    "address_space (set_hdr o' h s) = address_space s"
    "tls_segment (set_hdr o' h s) = tls_segment s"
    "umem (set_hdr o' h s) = umem s"
    "klog (set_hdr o' h s) = klog s"
  using assms
  by (cases o'; simp add: started_def sending_def receiving_def awaiting_def recv_fine_def)+

lemma set_hdr_dom [simp]:
  assumes "live s o'"
  shows "dom (processes (set_hdr o' h s)) = dom (processes s)"
    "dom (threads (set_hdr o' h s)) = dom (threads s)"
    "dom (endpoints (set_hdr o' h s)) = dom (endpoints s)"
    "running_in (set_hdr o' h s) p = running_in s p"
proof -
  show "dom (processes (set_hdr o' h s)) = dom (processes s)"
    using assms by (cases o') (simp_all del: set_prc_sel)
  show d: "dom (threads (set_hdr o' h s)) = dom (threads s)"
    using assms by (cases o') (simp_all del: set_thr_sel)
  show "dom (endpoints (set_hdr o' h s)) = dom (endpoints s)"
    using assms by (cases o') (simp_all del: set_ept_sel)
  show "running_in (set_hdr o' h s) p = running_in s p"
    by (rule running_in_cong [OF d]) (simp add: runs_in_def assms)
qed

lemma wf_set_hdr [simp]:
  assumes "wf s" and "live s o'"
  shows "wf (set_hdr o' h s)"
  using assms wf_thread [OF assms(1)] length_descriptors [OF assms(1)]
  by (cases o') (simp_all add: JINUE_DESC_NUM_def)

lemma active_set_hdr:
  "live s o' \<Longrightarrow> header_is_destroyed h = header_is_destroyed (hdr s o') \<Longrightarrow>
    active (set_hdr o' h s) p = active s p"
  by (cases o') (auto simp: active_def)

lemma active_set_hdr_other [simp]:
  "live s o' \<Longrightarrow> o' \<noteq> ProcessRef p \<Longrightarrow> active (set_hdr o' h s) p = active s p"
  by (cases o') auto

lemma refs_set_hdr:
  assumes "live s o'" and "\<And>p. active (set_hdr o' h s) p = active s p"
  shows "refs (set_hdr o' h s) q = refs s q" "receivers (set_hdr o' h s) e = receivers s e"
proof -
  show "refs (set_hdr o' h s) q = refs s q"
    using assms by (intro refs_cong) (simp_all add: pw_def tw_def thread_w_def)
  show "receivers (set_hdr o' h s) e = receivers s e"
    using assms by (intro receivers_cong) (simp_all add: rw_def)
qed

lemma queues_set_hdr:
  assumes "queues r s" and "live s o'" and "\<And>p. active (set_hdr o' h s) p = active s p"
  shows "queues r (set_hdr o' h s)"
proof -
  have "EndpointRef e \<noteq> o'" if "e \<in> set (endpoint_cache s)" for e
    using assms(2) that by (auto simp: live.simps)
  moreover have "ProcessRef p \<noteq> o'" if "p \<in> set (process_cache s)" for p
    using assms(2) that by (auto simp: live.simps)
  note caches = this calculation
  note [simp] = assms(2,3)
  have "q_free (set_hdr o' h s)"
    using caches queuesD(10) [OF assms(1)] by (simp add: q_free_def del: hdr.simps)
  then show ?thesis
    using queuesD [OF assms(1)]
    by (simp add: queues_def q_ready_def q_running_def q_lists_def q_sender_def q_await_def q_recv_def
        q_kont_def q_slots_def q_proc_def)
qed

text \<open>A reference count and the debt on the object change together.\<close>

lemma kinv_rc:
  assumes "kinv D V R r s" and "live s o'"
    and "ref_count h = rc s o' + k" and "\<And>p. active (set_hdr o' h s) p = active s p"
    and "0 \<le> D o' + k" and "refs s o' + D o' + k < 2 ^ 31"
    and "\<And>e. o' = EndpointRef e \<Longrightarrow> V e \<le> D o' + k"
    and "\<And>p. o' = ProcessRef p \<Longrightarrow> R p \<le> D o' + k"
  shows "kinv (D(o' := D o' + k)) V R r (set_hdr o' h s)"
proof (rule kinvI)
  note [simp] = assms(2,4)
  show "wf (set_hdr o' h s)"
    using assms(1) by (simp add: kinv_def)
  show "queues r (set_hdr o' h s)"
    using assms(1) by (simp add: kinv_def queues_set_hdr)
  have "V e \<le> (D(o' := D o' + k)) (EndpointRef e)" for e
    using kinvD(2) [OF assms(1)] assms(7) [of e] by (auto simp: acct_def)
  moreover have "R p \<le> (D(o' := D o' + k)) (ProcessRef p)" for p
    using kinvD(2) [OF assms(1)] assms(8) [of p] by (auto simp: acct_def)
  ultimately show "acct (D(o' := D o' + k)) V R (set_hdr o' h s)"
    using kinvD(2) [OF assms(1)] assms(3,5,6) refs_nonneg [of s o']
    by (auto simp: acct_def refs_set_hdr)
qed

text \<open>Marking an endpoint or a thread as destroyed changes no account.\<close>

lemma kinv_flag:
  assumes "kinv D V R r s" and "live s o'" and "ref_count h = rc s o'"
    and "\<And>p. active (set_hdr o' h s) p = active s p"
  shows "kinv D V R r (set_hdr o' h s)"
proof -
  have "kinv (D(o' := D o' + 0)) V R r (set_hdr o' h s)"
    by (rule kinv_rc [OF assms(1,2)]) (use assms kinvD(2) [OF assms(1)] in \<open>auto simp: acct_def\<close>)
  then show ?thesis
    by simp
qed

text \<open>Marking a process as destroyed turns its open descriptors into debts.\<close>

definition slot_debt :: "descriptor list \<Rightarrow> obj_ref \<Rightarrow> int" where
  "slot_debt ds o' = sum_list (map (slot_w o') ds)"

definition recv_debt :: "descriptor list \<Rightarrow> nat \<Rightarrow> int" where
  "recv_debt ds e = sum_list (map (recv_w e) ds)"

lemma debt_bounds:
  "0 \<le> slot_debt ds o'" "0 \<le> recv_debt ds e" "recv_debt ds e \<le> slot_debt ds (EndpointRef e)"
  by (simp_all add: slot_debt_def recv_debt_def sum_list_nonneg_int slot_w_bounds recv_w_bounds
      sum_list_mono_int)

lemma kinv_flag_process:
  assumes "kinv D V R r s" and "active s p" and "ref_count h = rc s (ProcessRef p)"
    and "header_is_destroyed h" and "\<forall>t. started s t \<longrightarrow> t_process (thr s t) \<noteq> p"
  shows "kinv (\<lambda>o'. D o' + slot_debt (descriptors (prc s p)) o')
    (\<lambda>e. V e + recv_debt (descriptors (prc s p)) e) R r (set_hdr (ProcessRef p) h s)"
proof (rule kinvI)
  let ?s = "set_hdr (ProcessRef p) h s"
  have lp [simp]: "live s (ProcessRef p)"
    using assms(2) by (simp add: active_def)
  have wf: "wf s" using assms(1) by (simp add: kinv_def)
  then show "wf ?s"
    by (rule wf_set_hdr) simp
  show "queues r ?s"
    using queues_set_prc [OF kinvD(3) [OF assms(1)] lp, of "(prc s p)\<lparr>p_header := h\<rparr>"] assms(3-5)
    by simp
  have refs: "refs ?s o' + (D o' + slot_debt (descriptors (prc s p)) o') = refs s o' + D o'" for o'
    using assms(2,4) by (simp add: refs_set(2) [OF wf lp] pw_def slot_debt_def)
  have recv: "receivers ?s e + (V e + recv_debt (descriptors (prc s p)) e) = receivers s e + V e" for e
    using assms(2,4) by (simp add: receivers_set(2) [OF wf lp] rw_def recv_debt_def)
  have acct: "acct D V R s"
    using assms(1) by (simp add: kinv_def)
  have rc: "rc ?s o' = rc s o'" for o'
    using assms(3) by simp
  have R: "R q \<le> D (ProcessRef q) + slot_debt (descriptors (prc s p)) (ProcessRef q)" for q
    using acct debt_bounds(1) [of "descriptors (prc s p)" "ProcessRef q"]
    by (simp add: acct_def add_increasing2)
  show "acct (\<lambda>o'. D o' + slot_debt (descriptors (prc s p)) o')
    (\<lambda>e. V e + recv_debt (descriptors (prc s p)) e) R ?s"
    unfolding acct_def refs recv rc live_set_hdr [OF lp] set_hdr_other(13,15) [OF lp]
      set_hdr_dom(4) [OF lp]
    using acct R debt_bounds by (simp add: acct_def add_mono)
qed

end
