(* ===== verification/Destroy.thy ===== *)
theory Destroy
  imports Invariant
begin

unbundle bit_operations_syntax

text \<open>
  Dropping references: \<open>object_close\<close>, \<open>object_sub_ref\<close>, \<open>object_destroy\<close> and the
  \<open>destroy\<close> operations of the runtime types keep the invariant, never touch an object
  that is not live, never drive a reference count below zero, and terminate within the
  fuel. What they leave unchanged is the relation \<open>shrinks\<close>.
\<close>

section \<open>Giving memory back\<close>

fun freed :: "obj_ref \<Rightarrow> kstate \<Rightarrow> kstate" where
  "freed (EndpointRef e) s = s\<lparr>endpoint_cache := e # endpoint_cache s\<rparr>"
| "freed (ProcessRef p) s = s\<lparr>process_cache := p # process_cache s\<rparr>"
| "freed (ThreadRef t) s = s\<lparr>free_pages := t # free_pages s\<rparr>"

lemma free_op_freed [simp]: "free_op o' s = Inr (freed o' s)"
  by (cases o') simp_all

lemma freed_sel [simp]:
  "threads (freed o' s) = threads s" "processes (freed o' s) = processes s"
  "endpoints (freed o' s) = endpoints s" "ready_queue (freed o' s) = ready_queue s"
  "current (freed o' s) = current s" "address_space (freed o' s) = address_space s"
  "tls_segment (freed o' s) = tls_segment s" "umem (freed o' s) = umem s"
  "klog (freed o' s) = klog s"
  by (cases o'; simp)+

lemma freed_hdr [simp]: "hdr (freed o' s) q = hdr s q"
  by (cases q) simp_all

lemma freed_live [simp]: "live (freed o' s) q \<longleftrightarrow> live s q \<and> q \<noteq> o'"
  by (cases o'; cases q) (auto simp: live.simps)

lemma wf_freed:
  assumes "wf s" and "live s o'"
  shows "wf (freed o' s)"
  using assms by (cases o') (auto simp: wf_def live.simps)

lemma kinv_free:
  assumes "kinv D V R r s" and "live s o'" and "refs s o' + D o' = 0"
    and "\<And>p. o' = ProcessRef p \<Longrightarrow> \<not> active s p"
  shows "kinv D V R r (freed o' s)"
proof (rule kinvI)
  have acct: "acct D V R s" and q: "queues r s" and wf: "wf s"
    using assms(1) by (simp_all add: kinv_def)
  have zero: "refs s o' = 0" "D o' = 0"
    using assms(3) refs_nonneg [of s o'] acct_nonneg [OF acct, of o'] by linarith+
  have not_started: "\<not> started s t" if "o' = ThreadRef t" for t
    using refs_started(1) [OF wf] zero that by fastforce
  have started [simp]: "started (freed o' s) t = started s t" for t
    using not_started by (auto simp: started_def)
  have active [simp]: "active (freed o' s) p = active s p" for p
    using assms(4) by (auto simp: active_def)
  have blocked [simp]: "sending (freed o' s) t e = sending s t e"
      "receiving (freed o' s) t e = receiving s t e" "awaiting (freed o' s) t w = awaiting s t w"
    for t e w
    using not_started by (auto simp: sending_def receiving_def awaiting_def started_def is_started_def)
  show "wf (freed o' s)"
    using wf assms(2) by (rule wf_freed)
  have refs: "refs (freed o' s) x = refs s x" for x
    by (rule refs_cong) (simp_all add: pw_def tw_def)
  have recv: "receivers (freed o' s) e = receivers s e" for e
    by (rule receivers_cong) (simp_all add: rw_def)
  have run: "running_in (freed o' s) p = running_in s p" for p
    by (rule running_in_cong) (simp_all add: runs_in_def)
  show "acct D V R (freed o' s)"
    using acct zero by (auto simp: acct_def refs recv run)
  have free: "q_free (freed o' s)"
  proof (cases o')
    case (EndpointRef e)
    have "send_list (ept s e) = []"
    proof (rule ccontr)
      assume "send_list (ept s e) \<noteq> []"
      then have "sending s (hd (send_list (ept s e))) e"
        using queuesD(3) [OF q] assms(2) EndpointRef by (simp add: q_lists_def)
      then show False
        using refs_started(3) [OF wf sending_started, of "hd (send_list (ept s e))" e o'] zero EndpointRef
        by (auto simp: sending_def)
    qed
    moreover have "recv_list (ept s e) = []"
    proof (rule ccontr)
      assume "recv_list (ept s e) \<noteq> []"
      then have "receiving s (hd (recv_list (ept s e))) e"
        using queuesD(3) [OF q] assms(2) EndpointRef by (simp add: q_lists_def)
      then show False
        using refs_started(3) [OF wf receiving_started, of "hd (recv_list (ept s e))" e o'] zero EndpointRef
        by (auto simp: receiving_def)
    qed
    moreover have "receivers_count (ept s e) = 0" "rc s o' = 0"
      using acct assms(2) zero EndpointRef receivers_nonneg [of s e] receivers_le_refs [of s e]
      by (auto simp: acct_def dest!: spec [of _ e])
    ultimately show ?thesis
      using queuesD(10) [OF q] EndpointRef by (simp add: q_free_def)
  next
    case (ProcessRef p)
    then show ?thesis
      using queuesD(10) [OF q] acct_rc [OF acct assms(2)] assms(3) by (simp add: q_free_def)
  next
    case (ThreadRef t)
    then show ?thesis
      using queuesD(10) [OF q] by (simp add: q_free_def)
  qed
  have ready: "q_ready (freed o' s)" and running: "q_running r (freed o' s)"
    using queuesD(1,2) [OF q] not_started
    by (auto simp: q_ready_def q_running_def started_def is_started_def)
  have lists: "q_lists (freed o' s)"
    using queuesD(3) [OF q] by (simp add: q_lists_def)
  show "queues r (freed o' s)"
    using queuesD [OF q] free ready running lists
    by (simp add: queues_def q_sender_def q_await_def q_recv_def q_proc_def q_kont_def q_slots_def)
qed

section \<open>Waking a blocked thread\<close>

definition woken :: "nat \<Rightarrow> int \<Rightarrow> kstate \<Rightarrow> kstate" where
  "woken t err s = set_thr t ((thr s t)\<lparr>message_errno := err, t_state := THREAD_STATE_READY\<rparr>)
     (s\<lparr>ready_queue := ready_queue s @ [t]\<rparr>)"

text \<open>A blocked thread nobody else will wake.\<close>

definition loose :: "kstate \<Rightarrow> nat \<Rightarrow> bool" where
  "loose s t \<longleftrightarrow> live s (ThreadRef t) \<and> t_state (thr s t) = THREAD_STATE_BLOCKED \<and>
     (\<forall>e. live s (EndpointRef e) \<longrightarrow> t \<notin> set (send_list (ept s e)) \<and> t \<notin> set (recv_list (ept s e))) \<and>
     (\<forall>q. started s q \<longrightarrow> t_sender (thr s q) \<noteq> Some t \<and> t_awaiter (thr s q) \<noteq> Some t)"

lemma kinv_woken:
  assumes "kinv D V R r s" and "loose s t"
    and "\<And>d msg n u. t_kont (thr s t) = K_receive d msg n u \<Longrightarrow> err \<noteq> 0"
  shows "kinv D V R r (woken t err s)"
proof (rule kinvI)
  let ?x = "(thr s t)\<lparr>message_errno := err, t_state := THREAD_STATE_READY\<rparr>"
  let ?s = "s\<lparr>ready_queue := ready_queue s @ [t]\<rparr>"
  have l [simp]: "live s (ThreadRef t)" and b: "t_state (thr s t) = THREAD_STATE_BLOCKED"
    using assms(2) by (simp_all add: loose_def)
  have wf: "wf s" and acct: "acct D V R s" and q: "queues r s"
    using assms(1) by (simp_all add: kinv_def)
  have st: "started s t" "is_started THREAD_STATE_READY"
    using b by (simp_all add: started_def is_started_def)
  show "wf (woken t err s)"
    unfolding woken_def using wf wf_thread [OF wf l] by (intro wf_set(1)) simp_all
  show "acct D V R (woken t err s)"
    unfolding woken_def
  proof (rule acct_set_thr)
    show "(if is_started (t_state ?x) then thread_w o' t ?x else 0) = tw ?s o' t + D o' - D o'" for o'
      using st by (simp add: tw_def thread_w_def)
    show "(if is_started (t_state ?x) \<and> t_process ?x = p then 1 else 0) = runs_in ?s p t + R p - R p" for p
      using st by (simp add: runs_in_def)
  qed (use wf acct in \<open>simp_all add: acct_def\<close>)
  have started: "started (woken t err s) t' = started s t'" for t'
    using st by (simp add: woken_def)
  have thr: "thr (woken t err s) t' = (if t' = t then ?x else thr s t')" for t'
    by (simp add: woken_def)
  have blocked: "sending (woken t err s) t' e = (t' \<noteq> t \<and> sending s t' e)"
      "receiving (woken t err s) t' e = (t' \<noteq> t \<and> receiving s t' e)"
      "awaiting (woken t err s) t' w = (t' \<noteq> t \<and> awaiting s t' w)" for t' e w
    by (simp_all add: woken_def)
  have other: "live (woken t err s) o' = live s o'" "active (woken t err s) p = active s p"
      "ept (woken t err s) e = ept s e" "prc (woken t err s) p = prc s p"
      "endpoint_cache (woken t err s) = endpoint_cache s"
      "process_cache (woken t err s) = process_cache s" for o' p e
    by (simp_all add: woken_def)
  have "t \<notin> set (ready_queue s)"
    using queuesD(1) [OF q] b by (simp add: q_ready_def)
  then have "q_ready (woken t err s)"
    using queuesD(1) [OF q] by (auto simp: q_ready_def other thr woken_def)
  moreover have "q_running r (woken t err s)"
    using queuesD(2) [OF q] b unfolding q_running_def other thr by (auto dest: spec [of _ t])
  moreover have "q_lists (woken t err s)"
    using queuesD(3) [OF q] assms(2) unfolding q_lists_def loose_def other blocked by blast
  moreover have "q_sender (woken t err s)"
    using queuesD(4) [OF q] assms(2) unfolding q_sender_def loose_def other blocked started thr by auto
  moreover have "q_await (woken t err s)"
    using queuesD(5) [OF q] assms(2) unfolding q_await_def loose_def other blocked started thr by auto
  moreover have "recv_fine ?x"
    using assms(3) by (auto simp: recv_fine_def)
  then have "q_recv (woken t err s)"
    using queuesD(6) [OF q] unfolding q_recv_def started thr by simp
  moreover have "q_proc (woken t err s)" "q_kont (woken t err s)"
    using queuesD(7,8) [OF q] unfolding q_proc_def q_kont_def started other thr by auto
  moreover have "q_slots (woken t err s)" "q_free (woken t err s)"
    using queuesD(9,10) [OF q] unfolding q_slots_def q_free_def other by (auto simp: woken_def)
  ultimately show "queues r (woken t err s)"
    by (simp add: queues_def)
qed

lemma ready_thread_woken:
  "live s (ThreadRef t) \<Longrightarrow> ready_thread t s = Inr (woken t (message_errno (thr s t)) s)"
  by (simp add: ready_thread_def thread_ready_locked_def woken_def seq_enqueue_def)

lemma abort_message_woken:
  "live s (ThreadRef t) \<Longrightarrow> abort_message t s = Inr (woken t JINUE_EIO s)"
  by (simp add: abort_message_def ready_thread_def thread_ready_locked_def woken_def seq_enqueue_def)

section \<open>What dropping references leaves unchanged\<close>

definition thread_shrinks :: "thread \<Rightarrow> thread \<Rightarrow> bool" where
  "thread_shrinks x x' \<longleftrightarrow> (\<exists>h st err.
     x' = x\<lparr>t_header := h, t_state := st, message_errno := err\<rparr> \<and>
     (t_state x \<noteq> THREAD_STATE_BLOCKED \<longrightarrow> st = t_state x \<and> err = message_errno x) \<and>
     (t_state x = THREAD_STATE_BLOCKED \<longrightarrow> st = THREAD_STATE_BLOCKED \<or> st = THREAD_STATE_READY))"

definition shrinks :: "kstate \<Rightarrow> kstate \<Rightarrow> bool" where
  "shrinks s s' \<longleftrightarrow>
     dom (processes s') = dom (processes s) \<and> dom (threads s') = dom (threads s) \<and>
     dom (endpoints s') = dom (endpoints s) \<and>
     (\<forall>p. descriptors (prc s' p) = descriptors (prc s p)) \<and>
     (\<forall>p. active s' p \<longrightarrow> active s p) \<and>
     (\<forall>t. started s' t = started s t) \<and>
     (\<forall>t. thread_shrinks (thr s t) (thr s' t)) \<and>
     current s' = current s \<and> address_space s' = address_space s \<and>
     tls_segment s' = tls_segment s \<and> umem s' = umem s \<and> klog s' = klog s \<and>
     (\<forall>o'. live s' o' \<longrightarrow> live s o') \<and>
     (\<forall>o'. live s o' \<and> rc s o' = 0 \<longrightarrow> live s' o' \<and> rc s' o' = 0)"

lemma thread_shrinks_refl [simp]: "thread_shrinks x x"
  unfolding thread_shrinks_def
  by (rule exI [of _ "t_header x"], rule exI [of _ "t_state x"], rule exI [of _ "message_errno x"]) simp

lemma thread_shrinks_trans:
  assumes "thread_shrinks x y" and "thread_shrinks y z"
  shows "thread_shrinks x z"
proof -
  obtain h st err where y: "y = x\<lparr>t_header := h, t_state := st, message_errno := err\<rparr>"
      "t_state x \<noteq> THREAD_STATE_BLOCKED \<longrightarrow> st = t_state x \<and> err = message_errno x"
      "t_state x = THREAD_STATE_BLOCKED \<longrightarrow> st = THREAD_STATE_BLOCKED \<or> st = THREAD_STATE_READY"
    using assms(1) unfolding thread_shrinks_def by blast
  obtain h' st' err' where z: "z = y\<lparr>t_header := h', t_state := st', message_errno := err'\<rparr>"
      "t_state y \<noteq> THREAD_STATE_BLOCKED \<longrightarrow> st' = t_state y \<and> err' = message_errno y"
      "t_state y = THREAD_STATE_BLOCKED \<longrightarrow> st' = THREAD_STATE_BLOCKED \<or> st' = THREAD_STATE_READY"
    using assms(2) unfolding thread_shrinks_def by blast
  show ?thesis
    unfolding thread_shrinks_def
    by (rule exI [of _ h'], rule exI [of _ st'], rule exI [of _ err']) (use y z in auto)
qed

lemma shrinks_refl [simp]: "shrinks s s"
  by (simp add: shrinks_def)

lemma shrinksD:
  assumes "shrinks s s'"
  shows "dom (processes s') = dom (processes s)" "dom (threads s') = dom (threads s)"
    "dom (endpoints s') = dom (endpoints s)"
    "descriptors (prc s' p) = descriptors (prc s p)"
    "active s' p \<Longrightarrow> active s p" "started s' t = started s t"
    "thread_shrinks (thr s t) (thr s' t)"
    "current s' = current s" "address_space s' = address_space s"
    "tls_segment s' = tls_segment s" "umem s' = umem s" "klog s' = klog s"
    "live s' o' \<Longrightarrow> live s o'"
    "live s o' \<Longrightarrow> rc s o' = 0 \<Longrightarrow> live s' o'" "live s o' \<Longrightarrow> rc s o' = 0 \<Longrightarrow> rc s' o' = 0"
  using assms unfolding shrinks_def by simp_all

lemma shrinks_trans:
  assumes "shrinks s s'" and "shrinks s' s''"
  shows "shrinks s s''"
proof -
  note a = shrinksD [OF assms(1)] and b = shrinksD [OF assms(2)]
  have "thread_shrinks (thr s t) (thr s'' t)" for t
    by (rule thread_shrinks_trans [OF a(7) b(7)])
  moreover have "active s'' p \<Longrightarrow> active s p" "live s'' o' \<Longrightarrow> live s o'" for p o'
    using a(5,13) b(5,13) by blast+
  moreover have "live s o' \<Longrightarrow> rc s o' = 0 \<Longrightarrow> live s'' o' \<and> rc s'' o' = 0" for o'
    using a(14,15) b(14,15) by blast
  ultimately show ?thesis
    unfolding shrinks_def by (simp add: a(1-4,6,8-12) b(1-4,6,8-12))
qed

lemma shrinks_woken:
  assumes "loose s t"
  shows "shrinks s (woken t err s)"
proof -
  have l [simp]: "live s (ThreadRef t)" and b: "t_state (thr s t) = THREAD_STATE_BLOCKED"
    using assms by (simp_all add: loose_def)
  have "thread_shrinks (thr s t) ((thr s t)\<lparr>message_errno := err, t_state := THREAD_STATE_READY\<rparr>)"
    unfolding thread_shrinks_def
    by (rule exI [of _ "t_header (thr s t)"], rule exI [of _ THREAD_STATE_READY], rule exI [of _ err])
      (simp add: b)
  moreover have "insert t (dom (threads s)) = dom (threads s)"
    using live_dom(2) [OF l] by auto
  ultimately show ?thesis
    using b by (simp add: shrinks_def woken_def started_def is_started_def)
qed

lemma shrinks_set_ept:
  assumes "live s (EndpointRef e)" and "ref_count (e_header z) = rc s (EndpointRef e)"
  shows "shrinks s (set_ept e z s)"
  using assms live_dom(3) [OF assms(1)] by (simp add: shrinks_def insert_absorb)

lemma shrinks_set_prc:
  assumes "live s (ProcessRef p)" and "p_header y = p_header (prc s p)"
    and "descriptors y = descriptors (prc s p)"
  shows "shrinks s (set_prc p y s)"
  using assms live_dom(1) [OF assms(1)]
  by (simp add: shrinks_def insert_absorb active_def)

lemma shrinks_set_hdr:
  assumes "live s o'" and "rc s o' = 0 \<Longrightarrow> ref_count h = 0"
    and "header_is_destroyed (hdr s o') \<Longrightarrow> header_is_destroyed h"
  shows "shrinks s (set_hdr o' h s)"
proof -
  have "active (set_hdr o' h s) p \<Longrightarrow> active s p" for p
  proof (cases "o' = ProcessRef p")
    case True
    then show "active (set_hdr o' h s) p \<Longrightarrow> active s p"
      using assms by (auto simp: active_def)
  qed (simp add: assms(1))
  moreover have "thread_shrinks (thr s t) (thr (set_hdr o' h s) t)" for t
  proof (cases "o' = ThreadRef t")
    case True
    then show ?thesis
      unfolding thread_shrinks_def
      by (intro exI [of _ h] exI [of _ "t_state (thr s t)"] exI [of _ "message_errno (thr s t)"]) simp
  next
    case False
    then show ?thesis
      by (cases o') simp_all
  qed
  ultimately show ?thesis
    using assms(1,2) by (simp add: shrinks_def)
qed

lemma shrinks_freed:
  assumes "shrinks s s'" and "rc s o' \<noteq> 0"
    and "\<And>t. o' = ThreadRef t \<Longrightarrow> \<not> started s' t"
  shows "shrinks s (freed o' s')"
proof -
  have "started (freed o' s') t = started s' t" for t
    using assms(3) by (auto simp: started_def)
  moreover have "active (freed o' s') p \<Longrightarrow> active s' p" for p
    by (simp add: active_def)
  ultimately show ?thesis
    using assms(1,2) unfolding shrinks_def by auto
qed

section \<open>Destroying an endpoint\<close>

lemma loose_first_sender:
  assumes "queues r s" and "live s (EndpointRef e)" and "send_list (ept s e) = t # ts"
  shows "loose (set_ept e ((ept s e)\<lparr>send_list := ts\<rparr>) s) t"
proof -
  note q = queuesD [OF assms(1)]
  have t: "sending s t e" "t \<notin> set ts"
    using q(3) assms(2,3) by (auto simp: q_lists_def)
  have "t \<notin> set (send_list (ept s f))" if "live s (EndpointRef f)" "f \<noteq> e" for f
    using q_listsD(3) [OF q(3) that(1)] that(2) t(1) sending_unique by blast
  moreover have "t \<notin> set (recv_list (ept s f))" if "live s (EndpointRef f)" for f
    using q_listsD(4) [OF q(3) that] t(1) sending_not_receiving by blast
  moreover have "t_sender (thr s k) \<noteq> Some t" if "started s k" for k
    using listed_not_sender [OF assms(1,2) _ that] assms(3) by simp
  moreover have "t_awaiter (thr s k) \<noteq> Some t" if "started s k" for k
    using q_awaitD [OF q(5) that] awaiting_exclusive(1) t(1) by blast
  ultimately show ?thesis
    using assms(2) t by (auto simp: loose_def sending_def)
qed

lemma loose_first_receiver:
  assumes "queues r s" and "live s (EndpointRef e)" and "recv_list (ept s e) = t # ts"
  shows "loose (set_ept e ((ept s e)\<lparr>recv_list := ts\<rparr>) s) t"
proof -
  note q = queuesD [OF assms(1)]
  have t: "receiving s t e" "t \<notin> set ts"
    using q(3) assms(2,3) by (auto simp: q_lists_def)
  have "t \<notin> set (send_list (ept s f))" if "live s (EndpointRef f)" for f
    using q_listsD(3) [OF q(3) that] t(1) sending_not_receiving by blast
  moreover have "t \<notin> set (recv_list (ept s f))" if "live s (EndpointRef f)" "f \<noteq> e" for f
    using q_listsD(4) [OF q(3) that(1), of t] that(2) t(1) by (auto simp: receiving_def)
  moreover have "t_sender (thr s k) \<noteq> Some t" if "started s k" for k
    using q_senderD(1) [OF q(4) that, of t] t(1) sending_not_receiving by blast
  moreover have "t_awaiter (thr s k) \<noteq> Some t" if "started s k" for k
    using q_awaitD [OF q(5) that] awaiting_exclusive(2) t(1) by blast
  ultimately show ?thesis
    using assms(2) t by (auto simp: loose_def receiving_def)
qed

lemma woken_ept [simp]: "endpoints (woken t err s) = endpoints s"
  by (simp add: woken_def)

lemma woken_live [simp]: "live s (ThreadRef t) \<Longrightarrow> live (woken t err s) o' = live s o'"
  by (simp add: woken_def)

lemma loose_live: "loose s t \<Longrightarrow> live s (ThreadRef t)"
  by (simp add: loose_def)

lemma shorter_lists:
  assumes "kinv D V R r s" and "live s (EndpointRef e)"
  shows "send_list (ept s e) = t # ts \<Longrightarrow> kinv D V R r (set_ept e ((ept s e)\<lparr>send_list := ts\<rparr>) s)"
    "recv_list (ept s e) = t # ts \<Longrightarrow> kinv D V R r (set_ept e ((ept s e)\<lparr>recv_list := ts\<rparr>) s)"
proof -
  have acct: "acct D V R s" and q: "queues r s"
    using assms(1) by (simp_all add: kinv_def)
  have l: "distinct (send_list (ept s e))" "distinct (recv_list (ept s e))"
      "\<And>t. t \<in> set (send_list (ept s e)) \<Longrightarrow> sending s t e"
      "\<And>t. t \<in> set (recv_list (ept s e)) \<Longrightarrow> receiving s t e"
    using queuesD(3) [OF q] assms(2) by (auto simp: q_lists_def)
  have V: "0 \<le> V e" "V e \<le> D (EndpointRef e)"
    using acct by (simp_all add: acct_def)
  show "kinv D V R r (set_ept e ((ept s e)\<lparr>send_list := ts\<rparr>) s)" if "send_list (ept s e) = t # ts"
    by (rule kinv_set_ept [OF assms, where v = "V e"])
      (use that l V listed_not_sender [OF q assms(2)] in auto)
  show "kinv D V R r (set_ept e ((ept s e)\<lparr>recv_list := ts\<rparr>) s)" if "recv_list (ept s e) = t # ts"
    by (rule kinv_set_ept [OF assms, where v = "V e"])
      (use that l V listed_not_sender [OF q assms(2)] in auto)
qed

abbreviation no_error :: "kerror \<Rightarrow> bool" where "no_error \<equiv> \<lambda>_. False"

lemma outcome_seq:
  "outcome E m P \<Longrightarrow> (\<And>x. P x \<Longrightarrow> outcome E (f x) Q) \<Longrightarrow> outcome E (bind_ok m f) Q"
  by (cases m) auto

lemma abort_senders_ok:
  assumes "kinv D V R r s" and "live s (EndpointRef e)" and "send_list (ept s e) = ts"
  shows "outcome no_error (abort_senders ts e s) (\<lambda>s'. kinv D V R r s' \<and> shrinks s s' \<and>
    live s' (EndpointRef e))"
  using assms
proof (induction ts arbitrary: s)
  case (Cons t ts)
  let ?s = "set_ept e ((ept s e)\<lparr>send_list := ts\<rparr>) s"
  have k: "kinv D V R r ?s"
    by (rule shorter_lists(1) [OF Cons.prems])
  have l: "loose ?s t"
    by (rule loose_first_sender [OF kinvD(3) [OF Cons.prems(1)] Cons.prems(2,3)])
  have "sending s t e"
    using q_listsD(3) [OF queuesD(3) [OF kinvD(3) [OF Cons.prems(1)]] Cons.prems(2), of t]
      Cons.prems(3) by simp
  then have kw: "kinv D V R r (woken t JINUE_EIO ?s)"
    by (intro kinv_woken [OF k l]) (simp add: errno_defs)
  have sh: "shrinks s (woken t JINUE_EIO ?s)"
    by (rule shrinks_trans [OF shrinks_set_ept shrinks_woken [OF l]]) (use Cons.prems in simp_all)
  have "outcome no_error (abort_senders ts e (woken t JINUE_EIO ?s))
      (\<lambda>s'. kinv D V R r s' \<and> shrinks (woken t JINUE_EIO ?s) s' \<and> live s' (EndpointRef e))"
    using Cons.prems loose_live [OF l] by (intro Cons.IH [OF kw]) simp_all
  then show ?case
    using Cons.prems loose_live [OF l] sh
    by (auto simp: abort_message_woken elim!: outcome_weaken intro: shrinks_trans)
qed simp

lemma abort_receivers_ok:
  assumes "kinv D V R r s" and "live s (EndpointRef e)" and "recv_list (ept s e) = ts"
  shows "outcome no_error (abort_receivers ts e s) (\<lambda>s'. kinv D V R r s' \<and> shrinks s s' \<and>
    live s' (EndpointRef e))"
  using assms
proof (induction ts arbitrary: s)
  case (Cons t ts)
  let ?s = "set_ept e ((ept s e)\<lparr>recv_list := ts\<rparr>) s"
  have k: "kinv D V R r ?s"
    by (rule shorter_lists(2) [OF Cons.prems])
  have l: "loose ?s t"
    by (rule loose_first_receiver [OF kinvD(3) [OF Cons.prems(1)] Cons.prems(2,3)])
  have kw: "kinv D V R r (woken t JINUE_EIO ?s)"
    by (intro kinv_woken [OF k l]) (simp add: errno_defs)
  have sh: "shrinks s (woken t JINUE_EIO ?s)"
    by (rule shrinks_trans [OF shrinks_set_ept shrinks_woken [OF l]]) (use Cons.prems in simp_all)
  have "outcome no_error (abort_receivers ts e (woken t JINUE_EIO ?s))
      (\<lambda>s'. kinv D V R r s' \<and> shrinks (woken t JINUE_EIO ?s) s' \<and> live s' (EndpointRef e))"
    using Cons.prems loose_live [OF l] by (intro Cons.IH [OF kw]) simp_all
  then show ?case
    using Cons.prems loose_live [OF l] sh
    by (auto simp: abort_message_woken elim!: outcome_weaken intro: shrinks_trans)
qed simp

lemma endpoint_destroy_op_ok:
  assumes "kinv D V R r s" and "live s (EndpointRef e)"
  shows "outcome no_error (endpoint_destroy_op e s) (\<lambda>s'. kinv D V R r s' \<and> shrinks s s' \<and>
    live s' (EndpointRef e))"
proof -
  have "outcome no_error (abort_senders (send_list (ept s e)) e s)
      (\<lambda>s1. outcome no_error (bind_ok (get_endpoint e s1) (\<lambda>x. abort_receivers (recv_list x) e s1))
        (\<lambda>s'. kinv D V R r s' \<and> shrinks s s' \<and> live s' (EndpointRef e)))"
  proof (rule outcome_weaken [OF abort_senders_ok [OF assms refl]], elim conjE)
    fix s1
    assume k: "kinv D V R r s1" and "shrinks s s1" and l: "live s1 (EndpointRef e)"
    then show "outcome no_error (bind_ok (get_endpoint e s1) (\<lambda>x. abort_receivers (recv_list x) e s1))
        (\<lambda>s'. kinv D V R r s' \<and> shrinks s s' \<and> live s' (EndpointRef e))"
      using abort_receivers_ok [OF k l refl]
      by (auto elim!: outcome_weaken intro: shrinks_trans)
  qed
  then show ?thesis
    using assms(2) by (simp add: endpoint_destroy_op_def)
qed

section \<open>The cluster of mutually recursive operations\<close>

definition active_count :: "kstate \<Rightarrow> nat" where
  "active_count s = card {p. active s p}"

definition debts_ok :: "(obj_ref \<Rightarrow> int) \<Rightarrow> (nat \<Rightarrow> int) \<Rightarrow> (nat \<Rightarrow> int) \<Rightarrow> bool" where
  "debts_ok D V R \<longleftrightarrow> (\<forall>o'. 0 \<le> D o') \<and> (\<forall>e. 0 \<le> V e \<and> V e \<le> D (EndpointRef e)) \<and>
     (\<forall>p. 0 \<le> R p \<and> R p \<le> D (ProcessRef p))"

lemma kinv_debts_ok: "kinv D V R r s \<Longrightarrow> debts_ok D V R"
  by (simp add: kinv_def acct_def debts_ok_def)

text \<open>An object the running code keeps alive, or one whose count has just reached zero.\<close>

definition held :: "(obj_ref \<Rightarrow> int) \<Rightarrow> kstate \<Rightarrow> obj_ref \<Rightarrow> bool" where
  "held D s o' \<longleftrightarrow> live s o' \<and> (0 < D o' \<or> rc s o' = 0)"

lemma held_shrinks:
  assumes "held D s o'" and "shrinks s s'" and "kinv D' V R r s'" and "D o' \<le> D' o'"
  shows "held D s' o'"
  using assms acct_debt_live [OF kinvD(2) [OF assms(3)], of o'] shrinksD(14,15) [OF assms(2), of o']
  by (auto simp: held_def)

text \<open>
  What is needed of the \<open>destroy\<close> operation of a process: it pays the debts for the open
  descriptors of the process. The bound \<open>n\<close> is on the number of processes that could
  be destroyed inside.
\<close>

definition pd_ok :: "nat \<Rightarrow> destroy_fn \<Rightarrow> bool" where
  "pd_ok n pd \<longleftrightarrow> (\<forall>p s D V R r.
     kinv (\<lambda>o'. D o' + slot_debt (descriptors (prc s p)) o')
       (\<lambda>e. V e + recv_debt (descriptors (prc s p)) e) R r s \<longrightarrow>
     debts_ok D V R \<longrightarrow> slots_ok (descriptors (prc s p)) \<longrightarrow> \<not> active s p \<longrightarrow>
     held D s (ProcessRef p) \<longrightarrow> active_count s < n \<longrightarrow>
     outcome no_error (pd p s) (\<lambda>s'. kinv D V R r s' \<and> shrinks s s'))"

lemma finite_active: "wf s \<Longrightarrow> finite {p. active s p}"
  by (rule finite_subset [of _ "dom (processes s)"]) (auto simp: wf_def active_def live.simps)

lemma active_count_shrinks: "wf s \<Longrightarrow> shrinks s s' \<Longrightarrow> active_count s' \<le> active_count s"
  unfolding active_count_def by (rule card_mono) (auto simp: finite_active dest: shrinksD(5))

lemma destroyed_flag [simp]:
  "header_is_destroyed (h\<lparr>obj_flags := obj_flags h OR OBJECT_FLAG_DESTROYED\<rparr>)"
  by (simp add: header_is_destroyed_def OBJECT_FLAG_DESTROYED_def bit.conj_disj_distrib2)

lemma object_destroy_ok:
  assumes "pd_ok n pd" and "active_count s \<le> n" and "kinv D V R r s" and "held D s o'"
    and "\<And>p. o' = ProcessRef p \<Longrightarrow> \<forall>t. started s t \<longrightarrow> t_process (thr s t) \<noteq> p"
  shows "outcome no_error (object_destroy pd o' s) (\<lambda>s'. kinv D V R r s' \<and> shrinks s s' \<and>
    held D s' o' \<and> (\<forall>p. o' = ProcessRef p \<longrightarrow> \<not> active s' p))"
proof -
  have l [simp]: "live s o'"
    using assms(4) by (simp add: held_def)
  let ?h = "(hdr s o')\<lparr>obj_flags := obj_flags (hdr s o') OR OBJECT_FLAG_DESTROYED\<rparr>"
  define s1 where "s1 = set_hdr o' ?h s"
  have step: "object_destroy pd o' s =
      (if header_is_destroyed (hdr s o') then Inr s1 else type_destroy pd o' s1)"
    by (simp add: object_destroy_def s1_def)
  have sh: "shrinks s s1"
    unfolding s1_def by (rule shrinks_set_hdr) simp_all
  have h: "held D s1 o'"
    using assms(4) by (simp add: held_def s1_def)
  have hs: "held D s' o'" if "kinv D V R r s'" "shrinks s1 s'" for s'
    by (rule held_shrinks [OF h that(2,1) order_refl])
  have inactive: "\<not> active s1 p" if "o' = ProcessRef p" for p
    using that l by (simp add: active_def s1_def)
  have flag: "kinv D V R r s1" if "header_is_destroyed (hdr s o') \<or> (\<forall>p. o' \<noteq> ProcessRef p)"
    unfolding s1_def using that by (intro kinv_flag [OF assms(3) l]) (auto simp: active_set_hdr)
  show ?thesis
  proof (cases "header_is_destroyed (hdr s o') \<or> (\<exists>t. o' = ThreadRef t)")
    case True
    then show ?thesis
      using flag sh h inactive by (auto simp: step)
  next
    case False
    show ?thesis
    proof (cases o')
      case (EndpointRef e)
      have "outcome no_error (endpoint_destroy_op e s1)
          (\<lambda>s'. kinv D V R r s' \<and> shrinks s1 s' \<and> live s' (EndpointRef e))"
        using flag h EndpointRef by (intro endpoint_destroy_op_ok) (auto simp: held_def)
      then have "outcome no_error (object_destroy pd o' s)
          (\<lambda>s'. kinv D V R r s' \<and> shrinks s1 s' \<and> live s' (EndpointRef e))"
        unfolding step using False EndpointRef by simp
      then show ?thesis
        by (rule outcome_weaken)
          (use EndpointRef hs in \<open>auto intro: shrinks_trans [OF sh]\<close>)
    next
      case (ProcessRef p)
      have act: "active s p"
        using False ProcessRef l by (simp add: active_def)
      let ?ds = "descriptors (prc s p)"
      have k: "kinv (\<lambda>q. D q + slot_debt ?ds q) (\<lambda>e. V e + recv_debt ?ds e) R r s1"
        unfolding ProcessRef s1_def
        by (rule kinv_flag_process [OF assms(3) act]) (use assms(5) ProcessRef in simp_all)
      have ds: "descriptors (prc s1 p) = ?ds"
        by (simp add: s1_def)
      have "{q. active s1 q} \<subset> {q. active s q}"
        using act inactive [OF ProcessRef] shrinksD(5) [OF sh] by auto
      then have "active_count s1 < active_count s"
        unfolding active_count_def
        by (rule psubset_card_mono [OF finite_active [OF kinvD(1) [OF assms(3)]]])
      then have "active_count s1 < n"
        using assms(2) by simp
      moreover have "slots_ok ?ds"
        using queuesD(9) [OF kinvD(3) [OF assms(3)]] act by (simp add: q_slots_def)
      ultimately have "outcome no_error (pd p s1) (\<lambda>s'. kinv D V R r s' \<and> shrinks s1 s')"
        using assms(1) k h kinv_debts_ok [OF assms(3)] inactive [OF ProcessRef] ProcessRef ds
        by (simp add: pd_ok_def)
      then have "outcome no_error (object_destroy pd o' s) (\<lambda>s'. kinv D V R r s' \<and> shrinks s1 s')"
        unfolding step using False ProcessRef by simp
      then show ?thesis
        by (rule outcome_weaken)
          (use ProcessRef inactive hs in \<open>auto intro: shrinks_trans [OF sh] dest: shrinksD(5)\<close>)
    next
      case (ThreadRef t)
      then show ?thesis
        using False by simp
    qed
  qed
qed

lemma kinv_zero_not_started:
  assumes "kinv D V R r s" and "live s o'" and "rc s o' = 0"
  shows "refs s o' = 0" "D o' = 0" "o' = ThreadRef t \<Longrightarrow> \<not> started s t"
    "o' = ProcessRef p \<Longrightarrow> \<forall>t. started s t \<longrightarrow> t_process (thr s t) \<noteq> p"
proof -
  have wf: "wf s" and acct: "acct D V R s"
    using assms(1) by (simp_all add: kinv_def)
  show z: "refs s o' = 0" "D o' = 0"
    using acct_rc [OF acct assms(2)] assms(3) refs_nonneg [of s o'] acct_nonneg [OF acct, of o']
    by linarith+
  show "\<not> started s t" if "o' = ThreadRef t"
    using refs_started(1) [OF wf] z that by fastforce
  show "\<forall>t. started s t \<longrightarrow> t_process (thr s t) \<noteq> p" if "o' = ProcessRef p"
    using refs_started(2) [OF wf] z that by fastforce
qed

lemma object_sub_ref_ok:
  assumes "pd_ok n pd" and "active_count s \<le> n" and "kinv D V R r s" and "1 \<le> D o'"
    and "\<And>e. o' = EndpointRef e \<Longrightarrow> V e \<le> D o' - 1" and "\<And>p. o' = ProcessRef p \<Longrightarrow> R p \<le> D o' - 1"
  shows "outcome no_error (object_sub_ref pd o' s)
    (\<lambda>s'. kinv (D(o' := D o' - 1)) V R r s' \<and> shrinks s s')"
proof -
  have acct: "acct D V R s"
    using assms(3) by (simp add: kinv_def)
  have l [simp]: "live s o'"
    using acct_debt_live [OF acct, of o'] assms(4) by simp
  have rc: "rc s o' = refs s o' + D o'"
    by (rule acct_rc [OF acct l])
  have range: "1 \<le> rc s o'" "rc s o' < 2 ^ 31"
    using rc assms(4) refs_nonneg [of s o'] acct by (simp_all add: acct_def)
  then have i32: "int32 (rc s o' - 1) = rc s o' - 1"
    by (intro int32_id) simp_all
  let ?D = "D(o' := D o' - 1)"
  define s1 where "s1 = set_hdr o' ((hdr s o')\<lparr>ref_count := rc s o' - 1\<rparr>) s"
  have l1: "live s1 o'" and rc1: "rc s1 o' = rc s o' - 1"
    by (simp_all add: s1_def)
  have k1: "kinv ?D V R r s1"
    unfolding s1_def diff_conv_add_uminus
    by (rule kinv_rc [OF assms(3) l])
      (use assms(4-6) rc range in \<open>auto simp: active_set_hdr header_is_destroyed_def\<close>)
  have sh1: "shrinks s s1"
    unfolding s1_def by (rule shrinks_set_hdr) (use range in \<open>auto simp: header_is_destroyed_def\<close>)
  have step: "object_sub_ref pd o' s = (if rc s o' - 1 > 0 then Inr s1
      else bind_ok (object_destroy pd o' s1) (free_op o'))"
    using range by (simp add: object_sub_ref_def i32 s1_def)
  show ?thesis
  proof (cases "rc s o' - 1 > 0")
    case True
    then show ?thesis
      using k1 sh1 by (simp add: step)
  next
    case False
    then have z: "rc s1 o' = 0"
      using range rc1 by simp
    have "active_count s1 \<le> n"
      using active_count_shrinks [OF kinvD(1) [OF assms(3)] sh1] assms(2) by simp
    then have "outcome no_error (object_destroy pd o' s1) (\<lambda>s2. kinv ?D V R r s2 \<and> shrinks s1 s2 \<and>
        held ?D s2 o' \<and> (\<forall>p. o' = ProcessRef p \<longrightarrow> \<not> active s2 p))"
      using l1 z kinv_zero_not_started(4) [OF k1 l1 z]
      by (intro object_destroy_ok [OF assms(1) _ k1]) (auto simp: held_def)
    then have "outcome no_error (bind_ok (object_destroy pd o' s1) (free_op o'))
        (\<lambda>s'. kinv ?D V R r s' \<and> shrinks s s')"
    proof (rule outcome_seq, elim conjE)
      fix s2
      assume k2: "kinv ?D V R r s2" and sh2: "shrinks s1 s2"
        and na: "\<forall>p. o' = ProcessRef p \<longrightarrow> \<not> active s2 p"
      have l2: "live s2 o'" and z2: "rc s2 o' = 0"
        using shrinksD(14,15) [OF sh2 l1 z] by simp_all
      have "kinv ?D V R r (freed o' s2)"
        using kinv_zero_not_started(1,2) [OF k2 l2 z2] na by (intro kinv_free [OF k2 l2]) auto
      moreover have "shrinks s (freed o' s2)"
        using range kinv_zero_not_started(3) [OF k2 l2 z2]
        by (intro shrinks_freed [OF shrinks_trans [OF sh1 sh2]]) auto
      ultimately show "outcome no_error (free_op o' s2) (\<lambda>s'. kinv ?D V R r s' \<and> shrinks s s')"
        by simp
    qed
    then show ?thesis
      using False by (simp add: step)
  qed
qed

text \<open>The receiver debt that closing a descriptor pays.\<close>

definition recv_paid :: "obj_ref \<Rightarrow> descriptor \<Rightarrow> nat \<Rightarrow> int" where
  "recv_paid o' d e =
     (if o' = EndpointRef e \<and> descriptor_has_permissions d JINUE_PERM_RECEIVE then 1 else 0)"

lemma endpoint_close_op_ok:
  assumes "pd_ok n pd" and "active_count s \<le> n" and "kinv D V R r s" and "1 \<le> D (EndpointRef e)"
    and "recv_paid (EndpointRef e) d e \<le> V e"
  shows "outcome no_error (endpoint_close_op pd e d s) (\<lambda>s'.
    kinv D (\<lambda>f. V f - recv_paid (EndpointRef e) d f) R r s' \<and> shrinks s s')"
proof (cases "descriptor_has_permissions d JINUE_PERM_RECEIVE")
  case True
  have acct: "acct D V R s" and q: "queues r s"
    using assms(3) by (simp_all add: kinv_def)
  have l [simp]: "live s (EndpointRef e)"
    using acct_debt_live [OF acct, of "EndpointRef e"] assms(4) by simp
  have rv: "(\<lambda>f. V f - recv_paid (EndpointRef e) d f) = V(e := V e - 1)"
    using True by (auto simp: recv_paid_def)
  have cnt: "receivers_count (ept s e) = receivers s e + V e"
    using acct by (simp add: acct_def)
  moreover have "1 \<le> V e" "V e \<le> D (EndpointRef e)" "refs s (EndpointRef e) + D (EndpointRef e) < 2 ^ 31"
    using acct assms(5) True by (simp_all add: acct_def recv_paid_def)
  ultimately have i32: "int32 (receivers_count (ept s e) - 1) = receivers_count (ept s e) - 1"
    using receivers_nonneg [of s e] receivers_le_refs [of s e] by (intro int32_id) simp_all
  define s1 where "s1 = set_ept e ((ept s e)\<lparr>receivers_count := receivers_count (ept s e) - 1\<rparr>) s"
  have k1: "kinv D (V(e := V e - 1)) R r s1"
    unfolding s1_def
    by (rule kinv_set_ept [OF assms(3) l, where v = "V e - 1"])
      (use q_listsD [OF queuesD(3) [OF q] l] listed_not_sender [OF q l] \<open>1 \<le> V e\<close>
        \<open>V e \<le> D (EndpointRef e)\<close> in auto)
  have sh1: "shrinks s s1"
    unfolding s1_def by (rule shrinks_set_ept) simp_all
  have l1: "live s1 (EndpointRef e)" and c1: "receivers_count (ept s1 e) = receivers_count (ept s e) - 1"
    by (simp_all add: s1_def)
  have sub: "sub_receiver e s = Inr (receivers_count (ept s e) - 1, s1)"
    by (simp add: sub_receiver_def s1_def i32)
  have "outcome no_error (object_destroy pd (EndpointRef e) s1) (\<lambda>s'. kinv D (V(e := V e - 1)) R r s' \<and>
      shrinks s1 s' \<and> held D s' (EndpointRef e) \<and> (\<forall>p. EndpointRef e = ProcessRef p \<longrightarrow> \<not> active s' p))"
    using l1 assms(4) active_count_shrinks [OF kinvD(1) [OF assms(3)] sh1] assms(2)
    by (intro object_destroy_ok [OF assms(1) _ k1]) (auto simp: held_def)
  then show ?thesis
    using True k1 sh1 unfolding rv
    by (auto simp: endpoint_close_op_def sub elim!: outcome_weaken intro: shrinks_trans)
next
  case False
  then have "recv_paid (EndpointRef e) d f = 0" for f
    by (simp add: recv_paid_def)
  then show ?thesis
    using assms(3) False by (simp add: endpoint_close_op_def)
qed

lemma object_close_ok:
  assumes "pd_ok n pd" and "active_count s \<le> n" and "kinv D V R r s" and "1 \<le> D o'"
    and "\<And>e. recv_paid o' d e \<le> V e" and "\<And>e. o' = EndpointRef e \<Longrightarrow> V e - recv_paid o' d e \<le> D o' - 1"
    and "\<And>p. o' = ProcessRef p \<Longrightarrow> R p \<le> D o' - 1"
  shows "outcome no_error (object_close pd o' d s) (\<lambda>s'.
    kinv (D(o' := D o' - 1)) (\<lambda>f. V f - recv_paid o' d f) R r s' \<and> shrinks s s')"
proof -
  have "recv_paid o' d f = 0" if "\<nexists>e. o' = EndpointRef e" for f
    using that by (auto simp: recv_paid_def)
  then have "outcome no_error (type_close pd o' d s)
      (\<lambda>s'. kinv D (\<lambda>f. V f - recv_paid o' d f) R r s' \<and> shrinks s s')"
    using endpoint_close_op_ok [OF assms(1-3)] assms(3-5) by (cases o') auto
  then show ?thesis
    unfolding object_close_def
  proof (rule outcome_seq, elim conjE)
    fix s1
    assume k1: "kinv D (\<lambda>f. V f - recv_paid o' d f) R r s1" and sh1: "shrinks s s1"
    have "active_count s1 \<le> n"
      using active_count_shrinks [OF kinvD(1) [OF assms(3)] sh1] assms(2) by simp
    then have "outcome no_error (object_sub_ref pd o' s1)
        (\<lambda>s'. kinv (D(o' := D o' - 1)) (\<lambda>f. V f - recv_paid o' d f) R r s' \<and> shrinks s1 s')"
      using assms(4-) by (intro object_sub_ref_ok [OF assms(1) _ k1]) auto
    then show "outcome no_error (object_sub_ref pd o' s1)
        (\<lambda>s'. kinv (D(o' := D o' - 1)) (\<lambda>f. V f - recv_paid o' d f) R r s' \<and> shrinks s s')"
      by (rule outcome_weaken) (auto intro: shrinks_trans [OF sh1])
  qed
qed

section \<open>Destroying a process\<close>

lemma get_slot_ok:
  "wf s \<Longrightarrow> live s (ProcessRef p) \<Longrightarrow> i < 12 \<Longrightarrow> get_slot p i s = Inr (descriptors (prc s p) ! i)"
  by (simp add: get_slot_def length_descriptors)

lemma debt_Cons:
  "slot_debt (d # ds) o' = slot_w o' d + slot_debt ds o'"
  "recv_debt (d # ds) e = recv_w e d + recv_debt ds e"
  by (simp_all add: slot_debt_def recv_debt_def)

lemma close_descriptors_ok:
  assumes "pd_ok n pd" and "active_count s \<le> n" and "debts_ok D V R"
    and "kinv (\<lambda>o'. D o' + slot_debt (map ((!) ds) idxs) o')
      (\<lambda>e. V e + recv_debt (map ((!) ds) idxs) e) R r s"
    and "descriptors (prc s p) = ds" and "length ds = 12" and "slots_ok ds" and "held D s (ProcessRef p)"
    and "\<forall>i \<in> set idxs. i < 12"
  shows "outcome no_error (close_descriptors pd p idxs s) (\<lambda>s'. kinv D V R r s' \<and> shrinks s s' \<and>
    held D s' (ProcessRef p))"
  using assms(2,4,5,8,9)
proof (induction idxs arbitrary: s)
  case Nil
  then show ?case
    by (simp add: slot_debt_def recv_debt_def)
next
  case (Cons i js)
  let ?D = "\<lambda>o'. D o' + slot_debt (map ((!) ds) js) o'"
  let ?V = "\<lambda>e. V e + recv_debt (map ((!) ds) js) e"
  define d where "d = ds ! i"
  have d: "slots_ok [d]"
    using assms(6,7) Cons.prems(5) by (auto simp: slots_ok_def d_def)
  have slot: "get_slot p i s = Inr d"
    using get_slot_ok [OF kinvD(1) [OF Cons.prems(2)], of p i] Cons.prems(3-5)
    by (simp add: held_def d_def)
  have k: "kinv (\<lambda>o'. D o' + (slot_w o' d + slot_debt (map ((!) ds) js) o'))
      (\<lambda>e. V e + (recv_w e d + recv_debt (map ((!) ds) js) e)) R r s"
    using Cons.prems(2) by (simp add: debt_Cons d_def)
  have nonneg: "0 \<le> D o'" "0 \<le> V e" "V e \<le> D (EndpointRef e)" "R q \<le> D (ProcessRef q)" for o' e q
    using assms(3) by (simp_all add: debts_ok_def)
  have "outcome no_error
      (if descriptor_is_open d then bind_ok (nonnull (d_object d)) (\<lambda>o'. object_close pd o' d s) else Inr s)
      (\<lambda>s1. kinv ?D ?V R r s1 \<and> shrinks s s1)"
  proof (cases "descriptor_is_open d")
    case True
    then obtain o' where o': "d_object d = Some o'"
      using d by (auto simp: slots_ok_def)
    have sw: "slot_w q d = (if q = o' then 1 else 0)" for q
      using True o' by (simp add: slot_w_def)
    have rw: "recv_w e d = recv_paid o' d e" for e
      by (auto simp: recv_w_def recv_paid_def sw)
    note b = debt_bounds [of "map ((!) ds) js"]
    have Deq: "(\<lambda>q. D q + (slot_w q d + slot_debt (map ((!) ds) js) q))
        (o' := D o' + (slot_w o' d + slot_debt (map ((!) ds) js) o') - 1) = ?D"
      by (auto simp: sw)
    have Veq: "(\<lambda>e. V e + (recv_w e d + recv_debt (map ((!) ds) js) e) - recv_paid o' d e) = ?V"
      by (auto simp: rw)
    have "outcome no_error (object_close pd o' d s)
        (\<lambda>s'. kinv ((\<lambda>q. D q + (slot_w q d + slot_debt (map ((!) ds) js) q))
            (o' := D o' + (slot_w o' d + slot_debt (map ((!) ds) js) o') - 1))
          (\<lambda>e. V e + (recv_w e d + recv_debt (map ((!) ds) js) e) - recv_paid o' d e) R r s' \<and>
          shrinks s s')"
      by (rule object_close_ok [OF assms(1) Cons.prems(1) k])
        (use nonneg b in \<open>simp_all add: sw rw add_nonneg_nonneg add_mono add_increasing2\<close>)
    then show ?thesis
      using True o' unfolding Deq Veq by (simp add: nonnull_def)
  next
    case False
    then have "slot_w q d = 0" "recv_w e d = 0" for q e
      by (simp_all add: slot_w_def recv_w_def)
    then show ?thesis
      using False k by simp
  qed
  then show ?case
    unfolding close_descriptors.simps slot bind_ok_simps
  proof (rule outcome_seq, elim conjE)
    fix s1
    assume k1: "kinv ?D ?V R r s1" and sh1: "shrinks s s1"
    have ac: "active_count s1 \<le> n"
      using active_count_shrinks [OF kinvD(1) [OF k] sh1] Cons.prems(1) by simp
    have ds1: "descriptors (prc s1 p) = ds"
      using shrinksD(4) [OF sh1] Cons.prems(3) by simp
    have h1: "held D s1 (ProcessRef p)"
      by (rule held_shrinks [OF Cons.prems(4) sh1 k1]) (simp add: debt_bounds)
    have "outcome no_error (close_descriptors pd p js s1)
        (\<lambda>s'. kinv D V R r s' \<and> shrinks s1 s' \<and> held D s' (ProcessRef p))"
      by (rule Cons.IH [OF ac k1 ds1 h1]) (use Cons.prems(5) in simp)
    then show "outcome no_error (close_descriptors pd p js s1)
        (\<lambda>s'. kinv D V R r s' \<and> shrinks s s' \<and> held D s' (ProcessRef p))"
      by (rule outcome_weaken) (auto intro: shrinks_trans [OF sh1])
  qed
qed

lemma process_destroy_op_ok: "pd_ok n (process_destroy_op n)"
proof (induction n)
  case 0
  then show ?case
    by (simp add: pd_ok_def)
next
  case (Suc n)
  show ?case
    unfolding pd_ok_def
  proof (intro allI impI)
    fix p s D V R r
    let ?ds = "descriptors (prc s p)"
    assume k: "kinv (\<lambda>o'. D o' + slot_debt ?ds o') (\<lambda>e. V e + recv_debt ?ds e) R r s"
      and d: "debts_ok D V R" and so: "slots_ok ?ds" and h: "held D s (ProcessRef p)"
      and ac: "active_count s < Suc n"
    have len: "length ?ds = 12"
      using length_descriptors [OF kinvD(1) [OF k]] h by (simp add: held_def)
    then have all: "map ((!) ?ds) [0..<JINUE_DESC_NUM] = ?ds"
      by (metis JINUE_DESC_NUM_def map_nth)
    have "outcome no_error (close_descriptors (process_destroy_op n) p [0..<JINUE_DESC_NUM] s)
        (\<lambda>s'. kinv D V R r s' \<and> shrinks s s' \<and> held D s' (ProcessRef p))"
      by (rule close_descriptors_ok [OF Suc.IH _ d _ refl len so h])
        (use k ac in \<open>simp_all add: all\<close>, simp add: JINUE_DESC_NUM_def)
    then show "outcome no_error (process_destroy_op (Suc n) p s)
        (\<lambda>s'. kinv D V R r s' \<and> shrinks s s')"
      unfolding process_destroy_op.simps
    proof (rule outcome_seq, elim conjE)
      fix s1
      assume k1: "kinv D V R r s1" and sh1: "shrinks s s1" and h1: "held D s1 (ProcessRef p)"
      then have l1: "live s1 (ProcessRef p)"
        by (simp add: held_def)
      let ?s = "set_prc p ((prc s1 p)\<lparr>p_addr_space := False\<rparr>) s1"
      have "kinv D V R r ?s" "shrinks s1 ?s"
        by (rule kinv_set_prc_same [OF k1 l1] shrinks_set_prc [OF l1]; simp)+
      then show "outcome no_error (machine_finalize_process p s1) (\<lambda>s'. kinv D V R r s' \<and> shrinks s s')"
        using l1 by (auto simp: machine_finalize_process_def intro: shrinks_trans [OF sh1])
    qed
  qed
qed

end
