(* ===== verification/Switching.thy ===== *)
theory Switching
  imports Destroy
begin

unbundle bit_operations_syntax

text \<open>
  The scheduler keeps the invariant. A switch is decomposed into what happens to the
  thread that stops running (it blocks, is preempted, or exits) and to the one that takes
  over; the operations of the scheduler are shown to be such compositions.
\<close>

section \<open>The running thread\<close>

lemma kinv_running:
  assumes "kinv D V R (Some c) s"
  shows "live s (ThreadRef c)" "t_state (thr s c) = THREAD_STATE_RUNNING" "started s c"
    "live s (ProcessRef (t_process (thr s c)))" "active s (t_process (thr s c))"
proof -
  show l: "live s (ThreadRef c)" and r: "t_state (thr s c) = THREAD_STATE_RUNNING"
    using queuesD(2) [OF kinvD(3) [OF assms]] by (auto simp: q_running_def)
  show st: "started s c"
    using l r by (simp add: started_def is_started_def)
  show "live s (ProcessRef (t_process (thr s c)))" "active s (t_process (thr s c))"
    by (rule kinv_started [OF assms st])+
qed

lemma running_not_blocked:
  assumes "kinv D V R (Some c) s"
  shows "\<not> sending s c e" "\<not> receiving s c e" "\<not> awaiting s c t" "c \<notin> set (ready_queue s)"
    "live s (EndpointRef e) \<Longrightarrow> c \<notin> set (send_list (ept s e))"
    "live s (EndpointRef e) \<Longrightarrow> c \<notin> set (recv_list (ept s e))"
    "started s q \<Longrightarrow> t_sender (thr s q) \<noteq> Some c" "started s q \<Longrightarrow> t_awaiter (thr s q) \<noteq> Some c"
proof -
  note r = kinv_running(2) [OF assms] and q = queuesD [OF kinvD(3) [OF assms]]
  show s: "\<not> sending s c e" for e using r by (simp add: sending_def)
  show v: "\<not> receiving s c e" for e using r by (simp add: receiving_def)
  show a: "\<not> awaiting s c t" for t using r by (simp add: awaiting_def)
  show "c \<notin> set (ready_queue s)" using q(1) r by (simp add: q_ready_def)
  show "c \<notin> set (send_list (ept s e))" if "live s (EndpointRef e)"
    using q_listsD(3) [OF q(3) that] s by blast
  show "c \<notin> set (recv_list (ept s e))" if "live s (EndpointRef e)"
    using q_listsD(4) [OF q(3) that] v by blast
  show "t_sender (thr s q) \<noteq> Some c" if "started s q"
    using q_senderD(1) [OF q(4) that] s by blast
  show "t_awaiter (thr s q) \<noteq> Some c" if "started s q"
    using q_awaitD [OF q(5) that] a by blast
qed

section \<open>A thread that stops running\<close>

text \<open>
  A running thread \<open>c\<close> gets a new state and continuation. It is on no queue and no other
  thread refers to it, so the queues stay consistent.
\<close>

lemma queues_stop:
  assumes "kinv D V R (Some c) s" and "x = (thr s c)\<lparr>t_state := st, t_kont := k\<rparr>"
    and "st = THREAD_STATE_BLOCKED \<or> st = THREAD_STATE_READY \<or> st = THREAD_STATE_ZOMBIE"
    and "kont_ok k" and "st = THREAD_STATE_READY \<Longrightarrow> recv_fine x"
    and "rq = (if st = THREAD_STATE_READY then ready_queue s @ [c] else ready_queue s)"
  shows "queues None (set_thr c x (s\<lparr>ready_queue := rq\<rparr>))"
proof -
  let ?s = "set_thr c x (s\<lparr>ready_queue := rq\<rparr>)"
  note run = kinv_running [OF assms(1)] and nb = running_not_blocked [OF assms(1)]
    and q = queuesD [OF kinvD(3) [OF assms(1)]]
  note [simp] = run(1)
  have started: "started ?s t \<Longrightarrow> started s t" for t
    using run(3) by (auto split: if_splits)
  have thr: "thr ?s t = (if t = c then x else thr s t)" for t
    by simp
  have keep: "sending s t e \<Longrightarrow> sending ?s t e" "receiving s t e \<Longrightarrow> receiving ?s t e"
      "awaiting s t w \<Longrightarrow> awaiting ?s t w" for t e w
    using nb(1-3) by auto
  have same: "t_sender (thr ?s t) = t_sender (thr s t)" "t_awaiter (thr ?s t) = t_awaiter (thr s t)"
      "t_process (thr ?s t) = t_process (thr s t)" for t
    by (simp_all add: assms(2))
  have other: "live ?s o' = live s o'" "active ?s p = active s p" "ept ?s e = ept s e"
      "prc ?s p = prc s p" for o' p e
    by simp_all
  have "q_ready ?s"
    using q(1) run(2) nb(4) assms(3) by (auto simp: q_ready_def assms(2,6))
  moreover have "q_running None ?s"
    using q(2) assms(3) by (auto simp: q_running_def assms(2))
  moreover have "q_lists ?s"
    using q(3) keep unfolding q_lists_def other by blast
  moreover have "q_sender ?s"
    using q(4) keep(1) started unfolding q_sender_def other same by blast
  moreover have "q_await ?s"
    using q(5) keep(3) started unfolding q_await_def same by blast
  moreover have "q_recv ?s"
    using q(6) assms(3,5) started
    by (auto simp: q_recv_def thr recv_fine_def assms(2) is_started_def split: if_splits)
  moreover have "q_proc ?s"
    using q(7) started unfolding q_proc_def other same by blast
  moreover have "q_kont ?s"
    using q(8) assms(4) started by (auto simp: q_kont_def thr assms(2) split: if_splits)
  moreover have "q_slots ?s" "q_free ?s"
    using q(9,10) by (simp_all add: q_slots_def q_free_def)
  ultimately show ?thesis
    by (simp add: queues_def)
qed

definition stopped :: "thread_state \<Rightarrow> kont \<Rightarrow> kstate \<Rightarrow> kstate" where
  "stopped st k s = set_thr (current s) ((thr s (current s))\<lparr>t_state := st, t_kont := k\<rparr>)
     (if st = THREAD_STATE_READY then s\<lparr>ready_queue := ready_queue s @ [current s]\<rparr> else s)"

text \<open>Blocking moves the reference of the running code to the stack of the thread.\<close>

lemma kinv_blocked:
  assumes "kinv D V R (Some (current s)) s" and "t_kont (thr s (current s)) = K_user"
    and "kont_ok k" and "kont_obj k = Some o'" and "1 \<le> D o'"
    and "\<And>e. o' = EndpointRef e \<Longrightarrow> V e \<le> D o' - 1" and "\<And>p. o' = ProcessRef p \<Longrightarrow> R p \<le> D o' - 1"
  shows "kinv (D(o' := D o' - 1)) V R None (stopped THREAD_STATE_BLOCKED k s)"
proof (rule kinvI)
  let ?c = "current s"
  let ?x = "(thr s ?c)\<lparr>t_state := THREAD_STATE_BLOCKED, t_kont := k\<rparr>"
  note run = kinv_running [OF assms(1)]
  have wf: "wf s" and acct: "acct D V R s"
    using assms(1) by (simp_all add: kinv_def)
  have eq: "stopped THREAD_STATE_BLOCKED k s = set_thr ?c ?x s"
    by (simp add: stopped_def)
  show "wf (stopped THREAD_STATE_BLOCKED k s)"
    unfolding eq using wf run(1) wf_thread [OF wf run(1)] by (intro wf_set(1)) simp_all
  show "queues None (stopped THREAD_STATE_BLOCKED k s)"
    using queues_stop [OF assms(1) refl, of THREAD_STATE_BLOCKED k "ready_queue s"] assms(3)
    by (simp add: eq)
  have "is_started THREAD_STATE_BLOCKED"
    by (simp add: is_started_def)
  then have w: "(if is_started (t_state ?x) then thread_w q ?c ?x else 0) =
      tw s q ?c + D q - (D(o' := D o' - 1)) q" for q
    using run(3) assms(2,4) by (simp add: tw_def thread_w_def)
  show "acct (D(o' := D o' - 1)) V R (stopped THREAD_STATE_BLOCKED k s)"
    unfolding eq
    by (rule acct_set_thr [OF wf run(1) acct _ w])
      (use acct assms(5-7) run(3) \<open>is_started THREAD_STATE_BLOCKED\<close> in
        \<open>auto simp: acct_def runs_in_def\<close>)
qed

lemma kinv_preempted:
  assumes "kinv D V R (Some (current s)) s" and "t_kont (thr s (current s)) = K_user"
    and "k = K_reply \<or> k = K_reschedule"
  shows "kinv D V R None (stopped THREAD_STATE_READY k s)"
proof (rule kinvI)
  let ?c = "current s"
  let ?x = "(thr s ?c)\<lparr>t_state := THREAD_STATE_READY, t_kont := k\<rparr>"
  let ?s = "s\<lparr>ready_queue := ready_queue s @ [?c]\<rparr>"
  note run = kinv_running [OF assms(1)]
  have wf: "wf s" and acct: "acct D V R s"
    using assms(1) by (simp_all add: kinv_def)
  have eq: "stopped THREAD_STATE_READY k s = set_thr ?c ?x ?s"
    by (simp add: stopped_def)
  show "wf (stopped THREAD_STATE_READY k s)"
    unfolding eq using wf run(1) wf_thread [OF wf run(1)] by (intro wf_set(1)) simp_all
  show "queues None (stopped THREAD_STATE_READY k s)"
    unfolding eq by (rule queues_stop [OF assms(1) refl]) (use assms(3) in \<open>auto simp: recv_fine_def\<close>)
  have "is_started THREAD_STATE_READY" "kont_obj k = None"
    using assms(3) by (auto simp: is_started_def)
  then have w: "(if is_started (t_state ?x) then thread_w q ?c ?x else 0) = tw ?s q ?c + D q - D q" for q
    using run(3) assms(2) by (simp add: tw_def thread_w_def)
  have r: "(if is_started (t_state ?x) \<and> t_process ?x = p then 1 else 0) = runs_in ?s p ?c + R p - R p" for p
    using run(3) \<open>is_started THREAD_STATE_READY\<close> by (simp add: runs_in_def)
  show "acct D V R (stopped THREAD_STATE_READY k s)"
    unfolding eq by (rule acct_set_thr [OF _ _ _ _ w r]) (use acct wf run(1) in \<open>auto simp: acct_def\<close>)
qed

lemma kinv_exited:
  assumes "kinv D V R (Some (current s)) s" and "t_kont (thr s (current s)) = K_user"
  shows "kinv (\<lambda>o'. D o' + thread_w o' (current s) (thr s (current s))) V
    (R(t_process (thr s (current s)) := R (t_process (thr s (current s))) + 1)) None
    (stopped THREAD_STATE_ZOMBIE K_user s)"
proof (rule kinvI)
  let ?c = "current s" and ?p = "t_process (thr s (current s))"
  let ?x = "(thr s ?c)\<lparr>t_state := THREAD_STATE_ZOMBIE, t_kont := K_user\<rparr>"
  let ?D = "\<lambda>o'. D o' + thread_w o' ?c (thr s ?c)" and ?R = "R(?p := R ?p + 1)"
  note run = kinv_running [OF assms(1)]
  have wf: "wf s" and acct: "acct D V R s"
    using assms(1) by (simp_all add: kinv_def)
  have eq: "stopped THREAD_STATE_ZOMBIE K_user s = set_thr ?c ?x s"
    by (simp add: stopped_def)
  show "wf (stopped THREAD_STATE_ZOMBIE K_user s)"
    unfolding eq using wf run(1) wf_thread [OF wf run(1)] by (intro wf_set(1)) simp_all
  show "queues None (stopped THREAD_STATE_ZOMBIE K_user s)"
    using queues_stop [OF assms(1) refl, of THREAD_STATE_ZOMBIE K_user "ready_queue s"]
    by (simp add: eq)
  have ns: "\<not> is_started THREAD_STATE_ZOMBIE"
    by (simp add: is_started_def)
  then have w: "(if is_started (t_state ?x) then thread_w q ?c ?x else 0) = tw s q ?c + D q - ?D q" for q
    using run(3) by (simp add: tw_def)
  have r: "(if is_started (t_state ?x) \<and> t_process ?x = p then 1 else 0) = runs_in s p ?c + R p - ?R p" for p
    using ns run(3) by (auto simp: runs_in_def)
  have "0 \<le> thread_w q ?c (thr s ?c)" "1 \<le> thread_w (ProcessRef ?p) ?c (thr s ?c)" for q
    using thread_w_bounds(1) by (simp_all add: thread_w_def)
  then show "acct ?D V ?R (stopped THREAD_STATE_ZOMBIE K_user s)"
    unfolding eq
    by (intro acct_set_thr [OF wf run(1) acct _ w r])
      (use acct in \<open>auto simp: acct_def add_increasing2 intro: add_mono\<close>)
qed

section \<open>A thread that takes over\<close>

text \<open>A thread no queue and no other thread refers to.\<close>

definition unqueued :: "kstate \<Rightarrow> nat \<Rightarrow> bool" where
  "unqueued s t \<longleftrightarrow>
     (\<forall>e. live s (EndpointRef e) \<longrightarrow> t \<notin> set (send_list (ept s e)) \<and> t \<notin> set (recv_list (ept s e))) \<and>
     (\<forall>q. started s q \<longrightarrow> t_sender (thr s q) \<noteq> Some t \<and> t_awaiter (thr s q) \<noteq> Some t)"

lemma loose_unqueued: "loose s t \<Longrightarrow> unqueued s t"
  by (simp add: loose_def unqueued_def)

lemma ready_unqueued:
  assumes "queues r s" and "t \<in> set (ready_queue s)"
  shows "live s (ThreadRef t)" "t_state (thr s t) = THREAD_STATE_READY" "started s t" "unqueued s t"
proof -
  note q = queuesD [OF assms(1)]
  show l: "live s (ThreadRef t)" and st: "t_state (thr s t) = THREAD_STATE_READY"
    using q(1) assms(2) by (auto simp: q_ready_def)
  then show "started s t"
    by (simp add: started_def is_started_def)
  have "\<not> sending s t e" "\<not> receiving s t e" "\<not> awaiting s t w" for e w
    using st by (simp_all add: sending_def receiving_def awaiting_def)
  then show "unqueued s t"
    using q_listsD(3,4) [OF q(3)] q_senderD(1) [OF q(4)] q_awaitD [OF q(5)]
    unfolding unqueued_def by blast
qed

definition resumed :: "nat \<Rightarrow> kstate \<Rightarrow> kstate" where
  "resumed t s = set_thr t ((thr s t)\<lparr>t_state := THREAD_STATE_RUNNING\<rparr>) s"

lemma kinv_resumed:
  assumes "kinv D V R None s" and "started s t" and "unqueued s t"
    and "recv_fine ((thr s t)\<lparr>t_state := THREAD_STATE_RUNNING\<rparr>)"
    and "ready_queue s = (if t_state (thr s t) = THREAD_STATE_READY then t # rq else rq)"
  shows "kinv D V R (Some t) (resumed t (s\<lparr>ready_queue := rq\<rparr>))"
proof (rule kinvI)
  let ?x = "(thr s t)\<lparr>t_state := THREAD_STATE_RUNNING\<rparr>"
  let ?q = "s\<lparr>ready_queue := rq\<rparr>"
  let ?s = "set_thr t ?x ?q"
  have eq: "resumed t (s\<lparr>ready_queue := rq\<rparr>) = ?s"
    by (simp add: resumed_def)
  have wf: "wf s" and acct: "acct D V R s" and qq: "queues None s"
    using assms(1) by (simp_all add: kinv_def)
  note q = queuesD [OF qq]
  have l [simp]: "live s (ThreadRef t)"
    using assms(2) by (simp add: started_def)
  have st: "is_started THREAD_STATE_RUNNING"
    by (simp add: is_started_def)
  have notrun: "t_state (thr s t) = THREAD_STATE_READY \<or> t_state (thr s t) = THREAD_STATE_BLOCKED"
    using q(2) assms(2) by (auto simp: q_running_def started_def is_started_def)
  show "wf (resumed t ?q)"
    unfolding eq using wf wf_thread [OF wf l] by (intro wf_set(1)) simp_all
  have w: "(if is_started (t_state ?x) then thread_w o' t ?x else 0) = tw ?q o' t + D o' - D o'" for o'
    using st assms(2) by (simp add: tw_def thread_w_def)
  have r: "(if is_started (t_state ?x) \<and> t_process ?x = p then 1 else 0) = runs_in ?q p t + R p - R p" for p
    using st assms(2) by (simp add: runs_in_def)
  show "acct D V R (resumed t ?q)"
    unfolding eq by (rule acct_set_thr [OF _ _ _ _ w r]) (use acct wf in \<open>auto simp: acct_def\<close>)
  have started: "started ?s t' = started s t'" for t'
    using st assms(2) by simp
  have thr: "thr ?s t' = (if t' = t then ?x else thr s t')" for t'
    by simp
  have keep: "t' \<noteq> t \<Longrightarrow> sending s t' e \<Longrightarrow> sending ?s t' e"
      "t' \<noteq> t \<Longrightarrow> receiving s t' e \<Longrightarrow> receiving ?s t' e"
      "t' \<noteq> t \<Longrightarrow> awaiting s t' w \<Longrightarrow> awaiting ?s t' w" for t' e w
    by simp_all
  have same: "t_sender (thr ?s t') = t_sender (thr s t')" "t_awaiter (thr ?s t') = t_awaiter (thr s t')"
      "t_process (thr ?s t') = t_process (thr s t')" "t_kont (thr ?s t') = t_kont (thr s t')" for t'
    by simp_all
  have other: "live ?s o' = live s o'" "active ?s p = active s p" "ept ?s e = ept s e"
      "prc ?s p = prc s p" for o' p e
    by simp_all
  note u = assms(3) [unfolded unqueued_def]
  have "q_ready ?s"
    using q(1) notrun assms(5) by (auto simp: q_ready_def split: if_splits)
  moreover have "q_running (Some t) ?s"
    using q(2) by (auto simp: q_running_def)
  moreover have "q_lists ?s"
    using q(3) keep(1,2) u unfolding q_lists_def other by metis
  moreover have "q_sender ?s"
    using q(4) keep(1) u unfolding q_sender_def started other same by metis
  moreover have "q_await ?s"
    using q(5) keep(3) u unfolding q_await_def started same by metis
  moreover have "q_recv ?s"
    using q(6) assms(4) unfolding q_recv_def started thr by simp
  moreover have "q_proc ?s" "q_kont ?s"
    using q(7,8) unfolding q_proc_def q_kont_def started other same by simp_all
  moreover have "q_slots ?s" "q_free ?s"
    using q(9,10) by (simp_all add: q_slots_def q_free_def)
  ultimately show "queues (Some t) (resumed t ?q)"
    unfolding eq by (simp add: queues_def)
qed

lemma kinv_resumed_ready:
  assumes "kinv D V R None s" and "ready_queue s = t # rq"
  shows "kinv D V R (Some t) (resumed t (s\<lparr>ready_queue := rq\<rparr>))"
proof -
  have q: "queues None s"
    using assms(1) by (simp add: kinv_def)
  have t: "t \<in> set (ready_queue s)"
    using assms(2) by simp
  note rd = ready_unqueued [OF q t]
  have "recv_fine (thr s t)"
    using queuesD(6) [OF q] rd(3) by (simp add: q_recv_def)
  then show ?thesis
    using assms(2) rd by (intro kinv_resumed [OF assms(1)]) (auto simp: recv_fine_def)
qed

lemma kinv_resumed_blocked:
  assumes "kinv D V R None s" and "loose s t"
    and "recv_fine ((thr s t)\<lparr>t_state := THREAD_STATE_RUNNING\<rparr>)"
  shows "kinv D V R (Some t) (resumed t s)"
proof -
  have "started s t" "t_state (thr s t) = THREAD_STATE_BLOCKED"
    using assms(2) by (simp_all add: loose_def started_def is_started_def)
  then have "kinv D V R (Some t) (resumed t (s\<lparr>ready_queue := ready_queue s\<rparr>))"
    using assms by (intro kinv_resumed loose_unqueued) simp_all
  then show ?thesis
    by simp
qed

section \<open>Links between threads\<close>

lemma kinv_set_links:
  assumes "kinv D V R r s" and "live s (ThreadRef t)"
    and "x = (thr s t)\<lparr>t_sender := v, t_awaiter := w\<rparr>"
    and "started s t \<Longrightarrow> recv_fine (thr s t) \<Longrightarrow> recv_fine x"
    and "\<And>sd. started s t \<Longrightarrow> v = Some sd \<Longrightarrow> \<exists>e. sending s sd e \<and> sd \<notin> set (send_list (ept s e))"
    and "\<And>sd q. started s t \<Longrightarrow> v = Some sd \<Longrightarrow> started s q \<Longrightarrow> q \<noteq> t \<Longrightarrow> t_sender (thr s q) \<noteq> Some sd"
    and "\<And>q. started s t \<Longrightarrow> w = Some q \<Longrightarrow> awaiting s q t"
  shows "kinv D V R r (set_thr t x s)"
proof (rule kinvI)
  note [simp] = assms(2)
  let ?s = "set_thr t x s"
  have wf: "wf s" and acct: "acct D V R s" and qq: "queues r s"
    using assms(1) by (simp_all add: kinv_def)
  note q = queuesD [OF qq]
  have st: "is_started (t_state (thr s t)) = started s t"
    by (simp add: started_def)
  show "wf ?s"
    using wf wf_thread [OF wf assms(2)] by (simp add: assms(3))
  show "acct D V R ?s"
    by (rule acct_set_thr [OF wf assms(2) acct])
      (use acct in \<open>auto simp: assms(3) st tw_def thread_w_def runs_in_def acct_def\<close>)
  have eq: "started ?s = started s" "sending ?s = sending s" "receiving ?s = receiving s"
      "awaiting ?s = awaiting s" "active ?s = active s" "live ?s = live s"
    by (auto simp: fun_eq_iff st assms(3) sending_def receiving_def awaiting_def)
  have view: "t_state (thr ?s t') = t_state (thr s t')"
      "t_process (thr ?s t') = t_process (thr s t')" "t_kont (thr ?s t') = t_kont (thr s t')"
      "t_sender (thr ?s t') = (if t' = t then v else t_sender (thr s t'))"
      "t_awaiter (thr ?s t') = (if t' = t then w else t_awaiter (thr s t'))" for t'
    by (simp_all add: assms(3))
  have other: "ept ?s e = ept s e" "prc ?s p = prc s p" for e p
    by simp_all
  have "q_sender ?s"
    unfolding q_sender_def eq view other
  proof (intro allI impI, elim conjE, goal_cases)
    case (1 t1 sd)
    show ?case
    proof (cases "t1 = t")
      case True
      then have "started s t" "v = Some sd"
        using 1 by simp_all
      from assms(5,6) [OF this] True show ?thesis
        by auto
    next
      case False
      then have t1: "started s t1" "t_sender (thr s t1) = Some sd"
        using 1 by simp_all
      have "v = Some sd \<Longrightarrow> \<not> started s t"
        using assms(6) [OF _ _ t1(1) False] t1(2) by blast
      then show ?thesis
        using q_senderD(1) [OF q(4) t1] q_senderD(2) [OF q(4) t1] by metis
    qed
  qed
  moreover have "q_await ?s"
    using q_awaitD [OF q(5)] assms(7) unfolding q_await_def eq view by auto
  moreover have "q_recv ?s"
    using q(6) assms(4) unfolding q_recv_def eq by auto
  ultimately show "queues r ?s"
    using q unfolding queues_def q_ready_def q_running_def q_lists_def q_proc_def q_kont_def
      q_slots_def q_free_def eq view other by simp
qed

section \<open>The operations of the scheduler\<close>

definition taken_over :: "nat \<Rightarrow> kstate \<Rightarrow> kstate" where
  "taken_over t s = (resumed t s)\<lparr>current := t, address_space := Some (t_process (thr s t)),
     tls_segment := (local_storage_addr (thr s t), local_storage_size (thr s t))\<rparr>"

definition credited :: "nat \<Rightarrow> kstate \<Rightarrow> kstate" where
  "credited t s = set_thr t
     ((thr s t)\<lparr>cpu_credits := int32 (cpu_credits (thr s t) + SCHEDULER_BASE_CREDITS)\<rparr>) s"

text \<open>Between system calls: the current thread runs in its own address space.\<close>

definition in_kernel :: "(obj_ref \<Rightarrow> int) \<Rightarrow> kstate \<Rightarrow> bool" where
  "in_kernel D s \<longleftrightarrow> kinv D (\<lambda>_. 0) (\<lambda>_. 0) (Some (current s)) s \<and>
     address_space s = Some (t_process (thr s (current s)))"

lemma in_kernelD:
  assumes "in_kernel D s"
  shows "kinv D (\<lambda>_. 0) (\<lambda>_. 0) (Some (current s)) s"
    "address_space s = Some (t_process (thr s (current s)))"
    "live s (ThreadRef (current s))" "started s (current s)"
    "t_state (thr s (current s)) = THREAD_STATE_RUNNING"
    "live s (ProcessRef (t_process (thr s (current s))))"
    "active s (t_process (thr s (current s)))" "wf s"
  using assms kinv_running [of D "\<lambda>_. 0" "\<lambda>_. 0" "current s" s]
  by (auto simp: in_kernel_def kinv_def)

lemma in_kernel_taken_over:
  assumes "kinv D (\<lambda>_. 0) (\<lambda>_. 0) (Some t) (resumed t s)"
  shows "in_kernel D (taken_over t s)"
  using assms by (simp add: in_kernel_def taken_over_def) (simp add: resumed_def)

lemma switch_process_eq:
  assumes "live s (ThreadRef c)" and "live s (ThreadRef t)"
    and "live s (ProcessRef (t_process (thr s t)))" and "address_space s = Some (t_process (thr s c))"
  shows "switch_process_if_needed c t s = Inr (s\<lparr>address_space := Some (t_process (thr s t))\<rparr>)"
  using assms
  by (auto simp: switch_process_if_needed_def process_switch_to_def machine_switch_to_process_def)

lemma switch_to_thread_eq:
  assumes "live s (ThreadRef (current s))" and "live s (ThreadRef t)" and "t \<noteq> current s"
    and "live s (ProcessRef (t_process (thr s t)))"
    and "address_space s = Some (t_process (thr s (current s)))"
  shows "switch_to_thread k t s = Inr (taken_over t (stopped THREAD_STATE_READY k s))"
  using assms
  by (simp add: switch_to_thread_def set_thread_state_def switch_process_eq thread_ready_locked_def
      save_kont_def machine_switch_thread_def machine_set_thread_local_storage_def seq_enqueue_def)
    (simp add: taken_over_def resumed_def stopped_def set_thr_def fun_upd_twist)

lemma switch_to_thread_and_block_eq:
  assumes "live s (ThreadRef (current s))" and "live s (ThreadRef t)" and "t \<noteq> current s"
    and "live s (ProcessRef (t_process (thr s t)))"
    and "address_space s = Some (t_process (thr s (current s)))"
  shows "switch_to_thread_and_block k t s = Inr (taken_over t (stopped THREAD_STATE_BLOCKED k s))"
  using assms
  by (simp add: switch_to_thread_and_block_def set_thread_state_def switch_process_eq
      save_kont_def machine_switch_thread_def machine_set_thread_local_storage_def)
    (simp add: taken_over_def resumed_def stopped_def set_thr_def fun_upd_twist)

lemma block_current_eq:
  assumes "live s (ThreadRef (current s))" and "live s (ThreadRef t)" and "t \<noteq> current s"
    and "live s (ProcessRef (t_process (thr s t)))"
    and "address_space s = Some (t_process (thr s (current s)))" and "ready_queue s = t # rq"
  shows "block_current_thread_and_unlock k s =
    Inr (taken_over t (credited t ((stopped THREAD_STATE_BLOCKED k s)\<lparr>ready_queue := rq\<rparr>)))"
  using assms
  by (simp add: block_current_thread_and_unlock_def select_next_ready_thread_def
      dequeue_ready_thread_def seq_dequeue_def set_thread_state_def switch_process_eq
      save_kont_def machine_switch_thread_def machine_set_thread_local_storage_def)
    (simp add: taken_over_def resumed_def stopped_def credited_def set_thr_def fun_upd_twist)

lemma block_current_empty:
  assumes "live s (ThreadRef (current s))" and "ready_queue s = []"
  shows "block_current_thread_and_unlock k s = Inl (Panic ''No thread to schedule'')"
  using assms
  by (simp add: block_current_thread_and_unlock_def select_next_ready_thread_def
      dequeue_ready_thread_def seq_dequeue_def set_thread_state_def)

lemma kinv_credited:
  assumes "kinv D V R r s" and "live s (ThreadRef t)"
  shows "kinv D V R r (credited t s)"
  unfolding credited_def
  by (rule kinv_set_thr_same [OF assms])
    (use wf_thread [OF kinvD(1) [OF assms(1)] assms(2)] in \<open>simp add: thread_same_def recv_fine_def\<close>)

text \<open>The only way for the scheduler to fail: there is nothing to run.\<close>

definition no_thread :: "kerror \<Rightarrow> bool" where
  "no_thread e \<longleftrightarrow> e = Panic ''No thread to schedule''"

lemma no_thread_weaken: "outcome no_error m Q \<Longrightarrow> outcome no_thread m Q"
  by (cases m) simp_all

text \<open>The first thread of the ready queue takes over from one that has stopped.\<close>

lemma first_ready:
  assumes "kinv D (\<lambda>_. 0) (\<lambda>_. 0) None s1" and "ready_queue s1 = t # rq"
  shows "live s1 (ThreadRef t)" "t_state (thr s1 t) = THREAD_STATE_READY"
    "live s1 (ProcessRef (t_process (thr s1 t)))"
    "in_kernel D (taken_over t (credited t (s1\<lparr>ready_queue := rq\<rparr>)))"
    "dom (processes (taken_over t (credited t (s1\<lparr>ready_queue := rq\<rparr>)))) = dom (processes s1)"
proof -
  have t: "t \<in> set (ready_queue s1)"
    using assms(2) by simp
  note rd = ready_unqueued [OF kinvD(3) [OF assms(1)] t]
  show "live s1 (ThreadRef t)" "t_state (thr s1 t) = THREAD_STATE_READY"
    by (rule rd)+
  show "live s1 (ProcessRef (t_process (thr s1 t)))"
    by (rule kinv_started(2) [OF assms(1) rd(3)])
  have eq: "(credited t s1)\<lparr>ready_queue := rq\<rparr> = credited t (s1\<lparr>ready_queue := rq\<rparr>)"
    by (simp add: credited_def set_thr_def)
  have "ready_queue (credited t s1) = t # rq"
    using assms(2) by (simp add: credited_def)
  then have "kinv D (\<lambda>_. 0) (\<lambda>_. 0) (Some t) (resumed t (credited t (s1\<lparr>ready_queue := rq\<rparr>)))"
    using kinv_resumed_ready [OF kinv_credited [OF assms(1) rd(1)]] by (simp add: eq)
  then show "in_kernel D (taken_over t (credited t (s1\<lparr>ready_queue := rq\<rparr>)))"
    by (rule in_kernel_taken_over)
  show "dom (processes (taken_over t (credited t (s1\<lparr>ready_queue := rq\<rparr>)))) = dom (processes s1)"
    by (simp add: taken_over_def resumed_def credited_def)
qed

lemma stopped_sel [simp]:
  "processes (stopped st k s) = processes s" "endpoints (stopped st k s) = endpoints s"
  "current (stopped st k s) = current s" "address_space (stopped st k s) = address_space s"
  "umem (stopped st k s) = umem s"
  "t \<noteq> current s \<Longrightarrow> thr (stopped st k s) t = thr s t"
  "thr (stopped st k s) (current s) = (thr s (current s))\<lparr>t_state := st, t_kont := k\<rparr>"
  by (simp_all add: stopped_def)

lemma stopped_live [simp]: "live s (ThreadRef (current s)) \<Longrightarrow> live (stopped st k s) o' = live s o'"
  by (simp add: stopped_def)

lemma block_current_ok:
  assumes "kinv D (\<lambda>_. 0) (\<lambda>_. 0) None (stopped THREAD_STATE_BLOCKED k s)"
    and "live s (ThreadRef (current s))" and "address_space s = Some (t_process (thr s (current s)))"
  shows "outcome no_thread (block_current_thread_and_unlock k s)
    (\<lambda>s'. in_kernel D s' \<and> dom (processes s') = dom (processes s))"
proof (cases "ready_queue s")
  case Nil
  then show ?thesis
    using assms(2) by (simp add: block_current_empty no_thread_def)
next
  case (Cons t rq)
  let ?s = "stopped THREAD_STATE_BLOCKED k s"
  have rq: "ready_queue ?s = t # rq"
    using Cons by (simp add: stopped_def)
  note f = first_ready [OF assms(1) rq]
  have t: "t \<noteq> current s"
    using f(2) by auto
  have "block_current_thread_and_unlock k s =
      Inr (taken_over t (credited t (?s\<lparr>ready_queue := rq\<rparr>)))"
    using f(1,3) t assms(2,3) Cons by (intro block_current_eq) simp_all
  then show ?thesis
    using f(4,5) by simp
qed

lemma reschedule_ok:
  assumes "in_kernel D s" and "t_kont (thr s (current s)) = K_user"
  shows "outcome no_error (reschedule s) (\<lambda>(c, s'). in_kernel D s' \<and>
    dom (processes s') = dom (processes s) \<and> (c = Ret () \<longrightarrow> t_kont (thr s' (current s')) = K_user))"
proof (cases "cpu_credits (thr s (current s)) > 0")
  case True
  then show ?thesis
    using assms in_kernelD [OF assms(1)] by (simp add: reschedule_def)
next
  case False
  note k = in_kernelD [OF assms(1)]
  show ?thesis
  proof (cases "ready_queue s")
    case Nil
    let ?s = "credited (current s) s"
    have q: "s\<lparr>ready_queue := []\<rparr> = s"
      using Nil by simp
    have "in_kernel D ?s"
      using kinv_credited [OF k(1,3)] k(2) by (simp add: in_kernel_def credited_def)
    moreover have "reschedule s = Inr (Ret (), ?s)"
      using Nil False k(3) q
      by (simp add: reschedule_def select_next_ready_thread_def dequeue_ready_thread_def
          seq_dequeue_def credited_def)
    moreover have "t_kont (thr ?s (current ?s)) = K_user" "dom (processes ?s) = dom (processes s)"
      using assms(2) by (simp_all add: credited_def)
    ultimately show ?thesis
      by simp
  next
    case (Cons t rq)
    let ?s1 = "stopped THREAD_STATE_READY K_reschedule s"
    have k1: "kinv D (\<lambda>_. 0) (\<lambda>_. 0) None ?s1"
      by (rule kinv_preempted [OF k(1) assms(2)]) simp
    have rq: "ready_queue ?s1 = t # (rq @ [current s])"
      using Cons by (simp add: stopped_def)
    note f = first_ready [OF k1 rq]
    have t: "t \<noteq> current s"
      using running_not_blocked(4) [OF k(1)] Cons by auto
    then have "reschedule s = Inr (Switched, taken_over t (credited t (?s1\<lparr>ready_queue := rq @ [current s]\<rparr>)))"
      using False k(2,3) f(1,3) Cons
      by (simp add: reschedule_def select_next_ready_thread_def dequeue_ready_thread_def
          seq_dequeue_def set_thread_state_def switch_process_eq thread_ready_locked_def
          seq_enqueue_def save_kont_def machine_switch_thread_def machine_set_thread_local_storage_def)
        (simp add: taken_over_def resumed_def stopped_def credited_def set_thr_def fun_upd_twist)
    then show ?thesis
      using f(4,5) by simp
  qed
qed

section \<open>Thread exit\<close>

lemma kinv_set_running:
  assumes "kinv D V R r s" and "live s (ProcessRef p)"
    and "y = (prc s p)\<lparr>running_threads_count := running_threads_count (prc s p) + k\<rparr>"
    and "0 \<le> R p + k" and "R p + k \<le> D (ProcessRef p)"
  shows "kinv D V (R(p := R p + k)) r (set_prc p y s)"
proof (rule kinvI)
  note [simp] = assms(2)
  have wf: "wf s" using assms(1) by (simp add: kinv_def)
  have "pw s o' p = (if header_is_destroyed (p_header y) then 0
      else sum_list (map (slot_w o') (descriptors y)))" for o'
    by (simp add: pw_def active_def assms(3))
  then have "refs (set_prc p y s) o' = refs s o'" for o'
    by (simp add: refs_set wf)
  moreover have "rw s e p = (if header_is_destroyed (p_header y) then 0
      else sum_list (map (recv_w e) (descriptors y)))" for e
    by (simp add: rw_def active_def assms(3))
  then have "receivers (set_prc p y s) e = receivers s e" for e
    by (simp add: receivers_set wf)
  moreover have "hdr (set_prc p y s) o' = hdr s o'" for o'
    using assms(3) by simp
  ultimately show "acct D V (R(p := R p + k)) (set_prc p y s)"
    using kinvD(2) [OF assms(1)] assms(4,5)
    by (simp add: acct_def running_in_set assms(3) del: hdr_set)
  show "wf (set_prc p y s)"
    using wf length_descriptors [OF wf assms(2)] by (simp add: assms(3) JINUE_DESC_NUM_def)
  show "queues r (set_prc p y s)"
    by (rule queues_set_prc [OF kinvD(3) [OF assms(1)] assms(2)])
      (use assms(2) kinvD(3) [OF assms(1)] in \<open>auto simp: assms(3) queues_def q_slots_def q_proc_def active_def\<close>)
qed

lemma running_in_zero:
  assumes "wf s" and "running_in s p = 0" and "started s t"
  shows "t_process (thr s t) \<noteq> p"
proof
  assume "t_process (thr s t) = p"
  then have "1 \<le> runs_in s p t"
    using assms(3) by (simp add: runs_in_def)
  also have "\<dots> \<le> running_in s p"
    unfolding running_in_def using assms(1,3)
    by (intro member_le_sum_int live_dom) (auto simp: wf_def started_def runs_in_def)
  finally show False
    using assms(2) by simp
qed

lemma process_remove_running_thread_ok:
  assumes "pd_ok n pd" and "active_count s \<le> n" and "kinv D V R r s" and "1 \<le> R p"
  shows "outcome no_error (process_remove_running_thread pd p s) (\<lambda>s'.
    kinv (D(ProcessRef p := D (ProcessRef p) - 1)) V (R(p := R p - 1)) r s' \<and> shrinks s s')"
proof -
  have acct: "acct D V R s" and wf: "wf s"
    using assms(3) by (simp_all add: kinv_def)
  have R: "R p \<le> D (ProcessRef p)" and tot: "refs s (ProcessRef p) + D (ProcessRef p) < 2 ^ 31"
    using acct by (simp_all add: acct_def)
  have l [simp]: "live s (ProcessRef p)"
    using acct_debt_live [OF acct, of "ProcessRef p"] R assms(4) by simp
  let ?n = "running_threads_count (prc s p)"
  have cnt: "?n = running_in s p + R p"
    using acct by (simp add: acct_def)
  then have i32: "int32 (?n - 1) = ?n - 1"
    using running_in_nonneg [of s p] running_in_le_refs [of s p] R tot assms(4)
    by (intro int32_id) simp_all
  define s1 where "s1 = set_prc p ((prc s p)\<lparr>running_threads_count := ?n - 1\<rparr>) s"
  let ?R = "R(p := R p - 1)"
  have k1: "kinv D V ?R r s1"
    unfolding s1_def diff_conv_add_uminus
    by (rule kinv_set_running [OF assms(3) l refl]) (use assms(4) R in simp_all)
  have sh1: "shrinks s s1"
    unfolding s1_def by (rule shrinks_set_prc) simp_all
  have l1: "live s1 (ProcessRef p)" and n1: "running_threads_count (prc s1 p) = ?n - 1"
    and wf1: "wf s1"
    using kinvD(1) [OF k1] by (simp_all add: s1_def)
  have ac1: "active_count s1 \<le> n"
    using active_count_shrinks [OF wf sh1] assms(2) by simp
  have "outcome no_error (if ?n - 1 < 1 then object_destroy pd (ProcessRef p) s1 else Inr s1)
      (\<lambda>s2. kinv D V ?R r s2 \<and> shrinks s1 s2)"
  proof (cases "?n - 1 < 1")
    case True
    have "running_threads_count (prc s1 p) = running_in s1 p + ?R p"
      using kinvD(2) [OF k1] l1 unfolding acct_def by blast
    then have "running_in s1 p = 0"
      using True n1 running_in_nonneg [of s1 p] assms(4) by simp
    then have "\<forall>t. started s1 t \<longrightarrow> t_process (thr s1 t) \<noteq> p"
      using running_in_zero [OF wf1] by blast
    moreover have "held D s1 (ProcessRef p)"
      using l1 R assms(4) by (simp add: held_def)
    ultimately have "outcome no_error (object_destroy pd (ProcessRef p) s1) (\<lambda>s2. kinv D V ?R r s2 \<and>
        shrinks s1 s2 \<and> held D s2 (ProcessRef p) \<and> (\<forall>q. ProcessRef p = ProcessRef q \<longrightarrow> \<not> active s2 q))"
      by (intro object_destroy_ok [OF assms(1) ac1 k1]) simp_all
    then show ?thesis
      using True by (auto elim!: outcome_weaken)
  next
    case False
    then show ?thesis
      using k1 by simp
  qed
  then have "outcome no_error (bind_ok (if ?n - 1 < 1 then object_destroy pd (ProcessRef p) s1 else Inr s1)
      (object_sub_ref pd (ProcessRef p)))
      (\<lambda>s'. kinv (D(ProcessRef p := D (ProcessRef p) - 1)) V ?R r s' \<and> shrinks s s')"
  proof (rule outcome_seq, elim conjE)
    fix s2
    assume k2: "kinv D V ?R r s2" and sh2: "shrinks s1 s2"
    have "active_count s2 \<le> n"
      using active_count_shrinks [OF wf1 sh2] ac1 by simp
    then have "outcome no_error (object_sub_ref pd (ProcessRef p) s2)
        (\<lambda>s'. kinv (D(ProcessRef p := D (ProcessRef p) - 1)) V ?R r s' \<and> shrinks s2 s')"
      using R assms(4) by (intro object_sub_ref_ok [OF assms(1) _ k2]) auto
    then show "outcome no_error (object_sub_ref pd (ProcessRef p) s2)
        (\<lambda>s'. kinv (D(ProcessRef p := D (ProcessRef p) - 1)) V ?R r s' \<and> shrinks s s')"
      by (rule outcome_weaken) (auto intro: shrinks_trans [OF shrinks_trans [OF sh1 sh2]])
  qed
  then show ?thesis
    by (simp add: process_remove_running_thread_def i32 n1 s1_def)
qed

text \<open>The threads an exiting thread wakes are nobody else's to wake.\<close>

lemma exiting_loose:
  assumes "kinv D V R (Some (current s)) s" and "s1 = stopped THREAD_STATE_ZOMBIE K_user s"
  shows "t_awaiter (thr s (current s)) = Some w \<Longrightarrow> loose s1 w \<and> (\<exists>d. t_kont (thr s1 w) = K_await d)"
    "t_sender (thr s (current s)) = Some sd \<Longrightarrow> loose s1 sd \<and> (\<exists>d msg. t_kont (thr s1 sd) = K_send d msg)"
proof -
  let ?c = "current s"
  note run = kinv_running [OF assms(1)] and nb = running_not_blocked [OF assms(1)]
    and q = queuesD [OF kinvD(3) [OF assms(1)]]
  note [simp] = run(1)
  have st: "started s1 t \<longleftrightarrow> started s t \<and> t \<noteq> ?c" for t
    by (auto simp: assms(2) stopped_def is_started_def)
  have same: "t_sender (thr s1 t) = t_sender (thr s t)" "t_awaiter (thr s1 t) = t_awaiter (thr s t)" for t
    by (simp_all add: assms(2) stopped_def)
  have other: "live s1 o' = live s o'" "ept s1 e = ept s e" for o' e
    by (simp_all add: assms(2))
  have thr: "t \<noteq> ?c \<Longrightarrow> thr s1 t = thr s t" for t
    by (simp add: assms(2))
  show "loose s1 w \<and> (\<exists>d. t_kont (thr s1 w) = K_await d)" if "t_awaiter (thr s ?c) = Some w"
  proof -
    have a: "awaiting s w ?c"
      by (rule q_awaitD [OF q(5) run(3) that])
    then have wc: "w \<noteq> ?c"
      using nb(3) by blast
    have "t_awaiter (thr s k) \<noteq> Some w" if "started s k" "k \<noteq> ?c" for k
      using q_awaitD [OF q(5) that(1)] a that(2) by (auto simp: awaiting_def)
    moreover have "t_sender (thr s k) \<noteq> Some w" if "started s k" for k
      using q_senderD(1) [OF q(4) that] awaiting_exclusive(1) [OF a] by blast
    moreover have "w \<notin> set (send_list (ept s e)) \<and> w \<notin> set (recv_list (ept s e))"
      if "live s (EndpointRef e)" for e
      using q_listsD(3,4) [OF q(3) that] awaiting_exclusive [OF a] by blast
    ultimately show ?thesis
      using a wc unfolding loose_def st same other awaiting_def by (auto simp: thr)
  qed
  show "loose s1 sd \<and> (\<exists>d msg. t_kont (thr s1 sd) = K_send d msg)" if c: "t_sender (thr s ?c) = Some sd"
  proof -
    obtain e where e: "sending s sd e" "sd \<notin> set (send_list (ept s e))"
      using q_senderD(1) [OF q(4) run(3) c] by blast
    then have sc: "sd \<noteq> ?c"
      using nb(1) by blast
    have "t_awaiter (thr s k) \<noteq> Some sd" if "started s k" for k
      using q_awaitD [OF q(5) that] awaiting_exclusive(1) e(1) by blast
    moreover have "t_sender (thr s k) \<noteq> Some sd" if "started s k" "k \<noteq> ?c" for k
      using q_senderD(2) [OF q(4) run(3) c that(1)] that(2) by blast
    moreover have "sd \<notin> set (send_list (ept s f)) \<and> sd \<notin> set (recv_list (ept s f))"
      if "live s (EndpointRef f)" for f
      using q_listsD(3,4) [OF q(3) that, of sd] sending_unique e sending_not_receiving by blast
    ultimately show ?thesis
      using e(1) sc unfolding loose_def st same other sending_def by (auto simp: thr)
  qed
qed

lemma loose_woken:
  assumes "loose s t" and "loose s w" and "t \<noteq> w"
  shows "loose (woken w err s) t" "t_kont (thr (woken w err s) t) = t_kont (thr s t)"
proof -
  note [simp] = loose_live [OF assms(2)]
  have "started (woken w err s) k = started s k" for k
    using assms(2) by (simp add: woken_def loose_def started_def is_started_def)
  then show "loose (woken w err s) t"
    using assms by (auto simp: loose_def woken_def)
  show "t_kont (thr (woken w err s) t) = t_kont (thr s t)"
    using assms(3) by (simp add: woken_def)
qed

lemma thread_shrinks_running:
  assumes "thread_shrinks x x'" and "t_state x = THREAD_STATE_RUNNING"
  shows "t_process x' = t_process x" "t_kont x' = t_kont x" "t_state x' = t_state x"
    "local_storage_addr x' = local_storage_addr x" "local_storage_size x' = local_storage_size x"
    "t_frame x' = t_frame x" "t_sender x' = t_sender x" "message_errno x' = message_errno x"
  using assms by (auto simp: thread_shrinks_def)

lemma credited_queue:
  "(credited t s)\<lparr>ready_queue := rq\<rparr> = credited t (s\<lparr>ready_queue := rq\<rparr>)"
  "ready_queue (credited t s) = ready_queue s"
  by (simp_all add: credited_def set_thr_def)

lemma switch_from_exiting_eq:
  assumes "live s (ThreadRef (current s))" and "live s (ThreadRef t)" and "ready_queue s = t # rq"
    and "live s (ProcessRef (t_process (thr s t)))" and "t \<noteq> current s"
    and "address_space s = Some (t_process (thr s (current s)))"
    and "s4 = (resumed t (credited t (s\<lparr>ready_queue := rq\<rparr>)))\<lparr>address_space := Some (t_process (thr s t))\<rparr>"
  shows "switch_from_exiting_thread pd s =
    bind_ok (process_remove_running_thread pd (t_process (thr s (current s))) s4) (\<lambda>s.
      machine_switch_and_unref_thread pd (current s) t s)"
  using assms(1-6)
  by (simp add: switch_from_exiting_thread_def select_next_ready_thread_def dequeue_ready_thread_def
      seq_dequeue_def set_thread_state_def switch_process_eq assms(7) credited_def resumed_def)

lemma switch_and_unref_ok:
  assumes "pd_ok n pd" and "active_count s \<le> n"
    and "kinv (\<lambda>o'. D o' + (if o' = ThreadRef c then 1 else 0)) (\<lambda>_. 0) (\<lambda>_. 0) (Some t) s"
    and "address_space s = Some (t_process (thr s t))" and "\<And>o'. 0 \<le> D o'"
  shows "outcome no_error (machine_switch_and_unref_thread pd c t s)
    (\<lambda>s'. in_kernel D s' \<and> dom (processes s') = dom (processes s))"
proof -
  let ?D = "\<lambda>o'. D o' + (if o' = ThreadRef c then 1 else 0)"
  note run = kinv_running [OF assms(3)]
  define s6 where "s6 = s\<lparr>tls_segment := (local_storage_addr (thr s t), local_storage_size (thr s t)),
    current := t\<rparr>"
  have k6: "kinv ?D (\<lambda>_. 0) (\<lambda>_. 0) (Some t) s6"
    using assms(3) by (simp add: s6_def)
  have "active_count s6 \<le> n"
    using assms(2) by (simp add: s6_def active_count_def)
  then have "outcome no_error (object_sub_ref pd (ThreadRef c) s6)
      (\<lambda>s'. kinv (?D(ThreadRef c := ?D (ThreadRef c) - 1)) (\<lambda>_. 0) (\<lambda>_. 0) (Some t) s' \<and> shrinks s6 s')"
    using assms(5) by (intro object_sub_ref_ok [OF assms(1) _ k6]) simp_all
  moreover have "?D(ThreadRef c := ?D (ThreadRef c) - 1) = D"
    by auto
  ultimately have sub: "outcome no_error (object_sub_ref pd (ThreadRef c) s6)
      (\<lambda>s'. kinv D (\<lambda>_. 0) (\<lambda>_. 0) (Some t) s' \<and> shrinks s6 s')"
    by simp
  have fin: "in_kernel D s' \<and> dom (processes s') = dom (processes s)"
    if k': "kinv D (\<lambda>_. 0) (\<lambda>_. 0) (Some t) s'" and sh': "shrinks s6 s'" for s'
  proof -
    have "thread_shrinks (thr s t) (thr s' t)"
      using shrinksD(7) [OF sh', of t] by (simp add: s6_def)
    from thread_shrinks_running [OF this run(2)] show ?thesis
      using k' shrinksD(1,8,9) [OF sh'] assms(4) by (simp add: in_kernel_def s6_def)
  qed
  have "outcome no_error (object_sub_ref pd (ThreadRef c) s6)
      (\<lambda>s'. in_kernel D s' \<and> dom (processes s') = dom (processes s))"
    by (rule outcome_weaken [OF sub]) (use fin in blast)
  then show ?thesis
    using run(1)
    by (simp add: machine_switch_and_unref_thread_def machine_switch_thread_def
        machine_set_thread_local_storage_def s6_def)
qed

lemma switch_from_exiting_ok:
  assumes "pd_ok n pd" and "active_count s \<le> n" and "c = current s" and "p = t_process (thr s c)"
    and "kinv (\<lambda>o'. D o' + (if o' = ThreadRef c then 1 else 0) + (if o' = ProcessRef p then 1 else 0))
      (\<lambda>_. 0) ((\<lambda>_. 0)(p := 1)) None s"
    and "address_space s = Some p" and "\<And>o'. 0 \<le> D o'" and "\<not> started s c"
  shows "outcome no_thread (switch_from_exiting_thread pd s)
    (\<lambda>s'. in_kernel D s' \<and> dom (processes s') = dom (processes s))"
proof (cases "ready_queue s")
  case Nil
  then show ?thesis
    by (simp add: switch_from_exiting_thread_def select_next_ready_thread_def
        dequeue_ready_thread_def seq_dequeue_def no_thread_def)
next
  case (Cons t rq)
  let ?D = "\<lambda>o'. D o' + (if o' = ThreadRef c then 1 else 0) + (if o' = ProcessRef p then 1 else 0)"
  note k = assms(5)
  have lc: "live s (ThreadRef c)"
    using acct_debt_live [OF kinvD(2) [OF k], of "ThreadRef c"] assms(7) [of "ThreadRef c"] by simp
  have t: "t \<in> set (ready_queue s)"
    using Cons by simp
  note rd = ready_unqueued [OF kinvD(3) [OF k] t]
  have tc: "t \<noteq> c"
    using rd(3) assms(8) by blast
  have lp: "live s (ProcessRef (t_process (thr s t)))"
    by (rule kinv_started(2) [OF k rd(3)])
  define s4 where "s4 = (resumed t (credited t (s\<lparr>ready_queue := rq\<rparr>)))
    \<lparr>address_space := Some (t_process (thr s t))\<rparr>"
  have k4: "kinv ?D (\<lambda>_. 0) ((\<lambda>_. 0)(p := 1)) (Some t) s4"
    using kinv_resumed_ready [OF kinv_credited [OF k rd(1)], of t rq] Cons
    by (simp add: s4_def credited_queue)
  have c4: "current s4 = c" "address_space s4 = Some (t_process (thr s4 t))"
      "processes s4 = processes s" "active_count s4 = active_count s"
    using assms(3) rd(1) by (simp_all add: s4_def resumed_def credited_def active_count_def)
  have "outcome no_error (process_remove_running_thread pd p s4) (\<lambda>s5.
      kinv (?D(ProcessRef p := ?D (ProcessRef p) - 1)) (\<lambda>_. 0)
        (((\<lambda>_. 0)(p := 1))(p := ((\<lambda>_. 0)(p := 1)) p - 1)) (Some t) s5 \<and> shrinks s4 s5)"
    using c4(4) assms(2) by (intro process_remove_running_thread_ok [OF assms(1) _ k4]) simp_all
  moreover have "?D(ProcessRef p := ?D (ProcessRef p) - 1) = (\<lambda>o'. D o' + (if o' = ThreadRef c then 1 else 0))"
    by auto
  moreover have "((\<lambda>_. 0)(p := 1))(p := ((\<lambda>_. 0)(p := 1)) p - 1) = (\<lambda>_. 0 :: int)"
    by auto
  ultimately have "outcome no_error (process_remove_running_thread pd p s4) (\<lambda>s5.
      kinv (\<lambda>o'. D o' + (if o' = ThreadRef c then 1 else 0)) (\<lambda>_. 0) (\<lambda>_. 0) (Some t) s5 \<and> shrinks s4 s5)"
    by simp
  then have "outcome no_error (bind_ok (process_remove_running_thread pd p s4)
      (\<lambda>s. machine_switch_and_unref_thread pd (current s) t s))
      (\<lambda>s'. in_kernel D s' \<and> dom (processes s') = dom (processes s))"
  proof (rule outcome_seq, elim conjE)
    fix s5
    assume k5: "kinv (\<lambda>o'. D o' + (if o' = ThreadRef c then 1 else 0)) (\<lambda>_. 0) (\<lambda>_. 0) (Some t) s5"
      and sh5: "shrinks s4 s5"
    have "active_count s5 \<le> n"
      using active_count_shrinks [OF kinvD(1) [OF k4] sh5] c4(4) assms(2) by simp
    moreover have "address_space s5 = Some (t_process (thr s5 t))"
      using thread_shrinks_running(1) [OF shrinksD(7) [OF sh5] kinv_running(2) [OF k4]]
        shrinksD(9) [OF sh5] c4(2) by simp
    moreover have "current s5 = c" "dom (processes s5) = dom (processes s)"
      using shrinksD(1,8) [OF sh5] c4(1,3) by simp_all
    ultimately show "outcome no_error (machine_switch_and_unref_thread pd (current s5) t s5)
        (\<lambda>s'. in_kernel D s' \<and> dom (processes s') = dom (processes s))"
      using switch_and_unref_ok [OF assms(1) _ k5 _ assms(7)] by simp
  qed
  moreover have "switch_from_exiting_thread pd s = bind_ok (process_remove_running_thread pd p s4)
      (\<lambda>s. machine_switch_and_unref_thread pd (current s) t s)"
    using switch_from_exiting_eq [OF _ rd(1) Cons lp _ _ s4_def] lc tc assms(3,4,6) by simp
  ultimately show ?thesis
    by (simp add: no_thread_weaken del: outcome_bind)
qed

text \<open>The state of a thread that is leaving, while it wakes the threads that wait for it.\<close>

definition leaving :: "nat \<Rightarrow> (obj_ref \<Rightarrow> int) \<Rightarrow> kstate \<Rightarrow> kstate \<Rightarrow> bool" where
  "leaving n D s s1 \<longleftrightarrow>
     (let c = current s; p = t_process (thr s c) in
      kinv (\<lambda>o'. D o' + (if o' = ThreadRef c then 1 else 0) + (if o' = ProcessRef p then 1 else 0))
        (\<lambda>_. 0) ((\<lambda>_. 0)(p := 1)) None s1 \<and>
      live s1 (ThreadRef c) \<and> \<not> started s1 c \<and> current s1 = c \<and> address_space s1 = Some p \<and>
      processes s1 = processes s \<and> t_process (thr s1 c) = p \<and> active_count s1 \<le> n)"

lemma leaving_stopped:
  assumes "active_count s \<le> n" and "in_kernel D s" and "t_kont (thr s (current s)) = K_user"
  shows "leaving n D s (stopped THREAD_STATE_ZOMBIE K_user s)"
proof -
  note k = in_kernelD [OF assms(2)]
  let ?c = "current s" and ?p = "t_process (thr s (current s))"
  have D: "(\<lambda>o'. D o' + thread_w o' ?c (thr s ?c)) =
      (\<lambda>o'. D o' + (if o' = ThreadRef ?c then 1 else 0) + (if o' = ProcessRef ?p then 1 else 0))"
    using assms(3) by (auto simp: thread_w_def)
  have R: "((\<lambda>_. 0)(?p := 0 + 1)) = ((\<lambda>_. 0)(?p := 1 :: int))"
    by simp
  have "\<not> started (stopped THREAD_STATE_ZOMBIE K_user s) ?c"
    using k(3) by (simp add: stopped_def is_started_def)
  moreover have "active_count (stopped THREAD_STATE_ZOMBIE K_user s) \<le> n"
    using k(3) assms(1) by (simp add: stopped_def active_count_def)
  ultimately show ?thesis
    using kinv_exited [OF k(1) assms(3)] k(2,3) unfolding D R leaving_def by (simp add: Let_def)
qed

lemma leaving_woken:
  assumes "leaving n D s s1" and "loose s1 w"
    and "(\<exists>d. t_kont (thr s1 w) = K_await d) \<or> (\<exists>d msg. t_kont (thr s1 w) = K_send d msg)"
  shows "leaving n D s (woken w err s1)"
proof -
  have w: "started s1 w" "live s1 (ThreadRef w)"
    using assms(2) by (simp_all add: loose_def started_def is_started_def)
  then have ne: "w \<noteq> current s"
    using assms(1) by (auto simp: leaving_def Let_def)
  have "kinv D' V R None (woken w err s1)" if "kinv D' V R None s1" for D' V R
    using assms(3) by (intro kinv_woken [OF that assms(2)]) auto
  then show ?thesis
    using assms(1) w ne by (auto simp: leaving_def Let_def woken_def active_count_def)
qed

lemma leaving_unlinked:
  assumes "leaving n D s s1"
  shows "leaving n D s (set_thr (current s) ((thr s1 (current s))\<lparr>t_sender := None\<rparr>) s1)"
proof -
  let ?c = "current s"
  have l: "live s1 (ThreadRef ?c)" and ns: "\<not> started s1 ?c"
    using assms by (simp_all add: leaving_def Let_def)
  have x: "(thr s1 ?c)\<lparr>t_sender := None\<rparr> =
      (thr s1 ?c)\<lparr>t_sender := None, t_awaiter := t_awaiter (thr s1 ?c)\<rparr>"
    by simp
  have st: "started s1 ?c = is_started (t_state (thr s1 ?c))"
    using l by (simp add: started_def)
  have "kinv D' V R None (set_thr ?c ((thr s1 ?c)\<lparr>t_sender := None\<rparr>) s1)" if "kinv D' V R None s1" for D' V R
    by (rule kinv_set_links [OF that l x]) (use ns st in \<open>auto simp: recv_fine_def is_started_def\<close>)
  then show ?thesis
    using assms l st by (simp add: leaving_def Let_def active_count_def)
qed

lemma thread_same_kont: "t_kont x = k \<Longrightarrow> x\<lparr>t_state := st, t_kont := k\<rparr> = x\<lparr>t_state := st\<rparr>"
  by (rule thread.equality) simp_all

lemma thread_terminate_current_ok:
  assumes "pd_ok n pd" and "active_count s \<le> n" and "in_kernel D s"
    and "t_kont (thr s (current s)) = K_user"
  shows "outcome no_thread (thread_terminate_current pd s)
    (\<lambda>s'. in_kernel D s' \<and> dom (processes s') = dom (processes s))"
proof -
  let ?c = "current s" and ?x = "thr s (current s)"
  note k = in_kernelD [OF assms(3)]
  define s1 where "s1 = stopped THREAD_STATE_ZOMBIE K_user s"
  note lo = exiting_loose [OF k(1) s1_def]
  have l1: "leaving n D s s1"
    unfolding s1_def by (rule leaving_stopped [OF assms(2-4)])
  have c1: "thr s1 ?c = ?x\<lparr>t_state := THREAD_STATE_ZOMBIE\<rparr>"
    using assms(4) by (simp add: s1_def)
  have e1: "set_thread_state ?c THREAD_STATE_ZOMBIE s = Inr s1"
    using k(3) assms(4) by (simp add: set_thread_state_def s1_def stopped_def thread_same_kont)
  define s2 where "s2 = (case t_awaiter ?x of None \<Rightarrow> s1 | Some w \<Rightarrow> woken w (message_errno (thr s1 w)) s1)"
  have l2: "leaving n D s s2"
    using l1 lo(1) leaving_woken by (auto simp: s2_def split: option.split)
  have e2: "(case t_awaiter ?x of None \<Rightarrow> Inr s1 | Some w \<Rightarrow> ready_thread w s1) = Inr s2"
    using lo(1) by (auto simp: s2_def ready_thread_woken loose_def split: option.split)
  have sd2: "loose s2 sd" "\<exists>d msg. t_kont (thr s2 sd) = K_send d msg" if "t_sender ?x = Some sd" for sd
    using lo(2) [OF that] lo(1) loose_woken [of s1 sd]
    by (fastforce simp: s2_def split: option.split)+
  define s3 where "s3 = (case t_sender ?x of None \<Rightarrow> s2 | Some sd \<Rightarrow>
    set_thr ?c ((thr (woken sd JINUE_EIO s2) ?c)\<lparr>t_sender := None\<rparr>) (woken sd JINUE_EIO s2))"
  have l3: "leaving n D s s3"
    using l2 sd2 leaving_woken leaving_unlinked by (auto simp: s3_def split: option.split)
  have c2: "current s2 = ?c" "live s2 (ThreadRef ?c)"
    using l2 by (simp_all add: leaving_def Let_def)
  have e3: "(case t_sender ?x of None \<Rightarrow> Inr s2 | Some sd \<Rightarrow>
      bind_ok (abort_message sd s2) (upd_thread (current s2) (\<lambda>x. x\<lparr>t_sender := None\<rparr>))) = Inr s3"
    using sd2(1) c2 loose_live by (auto simp: s3_def abort_message_woken split: option.split)
  have "thread_terminate_current pd s = switch_from_exiting_thread pd s3"
    using l1 e2 e3 c1 by (simp add: thread_terminate_current_def e1 leaving_def Let_def)
  moreover have "0 \<le> D o'" for o'
    using kinvD(2) [OF k(1)] by (simp add: acct_def)
  then have "outcome no_thread (switch_from_exiting_thread pd s3)
      (\<lambda>s'. in_kernel D s' \<and> dom (processes s') = dom (processes s3))"
    using l3 by (intro switch_from_exiting_ok [OF assms(1) _ refl refl]) (auto simp: leaving_def Let_def)
  ultimately show ?thesis
    using l3 by (simp add: leaving_def Let_def)
qed

end
