(* ===== verification/Descriptors.thy ===== *)
theory Descriptors
  imports Switching
begin

unbundle bit_operations_syntax

text \<open>
  The descriptor operations keep the invariant: reserving, opening, accessing,
  closing a descriptor, and the constructors of the three kinds of objects. Each lemma
  says how the references held by the calling code change.
\<close>

section \<open>Descriptor states\<close>

lemma masked_update:
  "((w :: u32) AND NOT m OR st) AND x = w AND x" if "m AND x = 0" "st AND x = 0"
proof -
  have "(w AND NOT m) AND x = w AND x"
  proof (rule bit_eqI)
    fix i
    have "bit (m AND x) i \<longleftrightarrow> bit (0 :: u32) i" using that(1) by simp
    then show "bit ((w AND NOT m) AND x) i = bit (w AND x) i" if "possible_bit TYPE(u32) i"
      using that by (auto simp: bit_simps)
  qed
  then show ?thesis
    using that(2) by (simp add: bit.conj_disj_distrib2)
qed

lemma set_state_state:
  "d_flags (set_state d st) AND DESC_FLAG_STATE = st" if "st AND DESC_FLAG_STATE = st"
  using that by (simp add: set_state_def bit.conj_disj_distrib2 and.assoc)

lemma state_masks:
  "DESC_STATE_RESERVED AND DESC_FLAG_STATE = DESC_STATE_RESERVED"
  "DESC_STATE_OPEN AND DESC_FLAG_STATE = DESC_STATE_OPEN"
  "DESC_STATE_DESTROYED AND DESC_FLAG_STATE = DESC_STATE_DESTROYED"
  "DESC_STATE_RESERVED \<noteq> DESC_STATE_OPEN" "DESC_STATE_DESTROYED \<noteq> DESC_STATE_OPEN"
  "DESC_FLAG_STATE AND JINUE_PERM_RECEIVE = 0" "DESC_STATE_OPEN AND JINUE_PERM_RECEIVE = 0"
  "DESC_STATE_DESTROYED AND JINUE_PERM_RECEIVE = 0"
  by (simp_all add: flag_defs)

lemma state_of_set_state [simp]:
  "descriptor_is_reserved (set_state d DESC_STATE_RESERVED)"
  "descriptor_is_open (set_state d DESC_STATE_OPEN)"
  "descriptor_is_destroyed (set_state d DESC_STATE_DESTROYED)"
  "\<not> descriptor_is_open (set_state d DESC_STATE_RESERVED)"
  "\<not> descriptor_is_open (set_state d DESC_STATE_DESTROYED)"
  by (simp_all add: descriptor_is_reserved_def descriptor_is_open_def descriptor_is_destroyed_def
      set_state_state state_masks)

lemma state_exclusive:
  "descriptor_is_free d \<Longrightarrow> \<not> descriptor_is_open d"
  "descriptor_is_reserved d \<Longrightarrow> \<not> descriptor_is_open d"
  "descriptor_is_destroyed d \<Longrightarrow> \<not> descriptor_is_open d"
  "descriptor_is_free d \<Longrightarrow> \<not> descriptor_is_reserved d"
  "descriptor_is_closeable d \<Longrightarrow> \<not> descriptor_is_reserved d"
  by (auto simp: descriptor_is_free_def descriptor_is_reserved_def descriptor_is_open_def
      descriptor_is_destroyed_def descriptor_is_closeable_def flag_defs)

lemma clear_state [simp]: "\<not> descriptor_is_open (descriptor_clear d)" "descriptor_is_free (descriptor_clear d)"
  by (simp_all add: descriptor_clear_def descriptor_is_open_def descriptor_is_free_def flag_defs)

lemma set_state_object [simp]: "d_object (set_state d st) = d_object d"
  by (simp add: set_state_def)

lemma set_state_receive [simp]:
  "descriptor_has_permissions (set_state d DESC_STATE_OPEN) JINUE_PERM_RECEIVE =
     descriptor_has_permissions d JINUE_PERM_RECEIVE"
  "descriptor_has_permissions (set_state d DESC_STATE_DESTROYED) JINUE_PERM_RECEIVE =
     descriptor_has_permissions d JINUE_PERM_RECEIVE"
  by (simp_all add: descriptor_has_permissions_def set_state_def masked_update state_masks)

lemma not_open_weight: "\<not> descriptor_is_open d \<Longrightarrow> slot_w o' d = 0" "\<not> descriptor_is_open d \<Longrightarrow> recv_w e d = 0"
  by (simp_all add: slot_w_def recv_w_def)

lemma open_weight:
  assumes "descriptor_is_open d" and "d_object d = Some o'"
  shows "slot_w q d = (if q = o' then 1 else 0)" "recv_w e d = recv_paid o' d e"
  using assms by (auto simp: slot_w_def recv_w_def recv_paid_def)

lemma recv_paid_set_state [simp]:
  "recv_paid o' (set_state d DESC_STATE_OPEN) e = recv_paid o' d e"
  "recv_paid o' (set_state d DESC_STATE_DESTROYED) e = recv_paid o' d e"
  by (simp_all add: recv_paid_def)

section \<open>Writing a slot\<close>

definition slotted :: "nat \<Rightarrow> nat \<Rightarrow> descriptor \<Rightarrow> kstate \<Rightarrow> kstate" where
  "slotted p i d s = set_prc p ((prc s p)\<lparr>descriptors := (descriptors (prc s p))[i := d]\<rparr>) s"

lemma set_slot_eq:
  "wf s \<Longrightarrow> live s (ProcessRef p) \<Longrightarrow> i < 12 \<Longrightarrow> set_slot p i d s = Inr (slotted p i d s)"
  by (simp add: set_slot_def get_slot_ok slotted_def)

lemma slotted_sel [simp]:
  "threads (slotted p i d s) = threads s" "endpoints (slotted p i d s) = endpoints s"
  "current (slotted p i d s) = current s" "address_space (slotted p i d s) = address_space s"
  "umem (slotted p i d s) = umem s" "ready_queue (slotted p i d s) = ready_queue s"
  by (simp_all add: slotted_def)

lemma slotted_live [simp]:
  "live s (ProcessRef p) \<Longrightarrow> live (slotted p i d s) o' = live s o'"
  "live s (ProcessRef p) \<Longrightarrow> dom (processes (slotted p i d s)) = dom (processes s)"
  "live s (ProcessRef p) \<Longrightarrow> active (slotted p i d s) q = active s q"
  "live s (ProcessRef p) \<Longrightarrow> started (slotted p i d s) t = started s t"
proof -
  assume l: "live s (ProcessRef p)"
  then show "live (slotted p i d s) o' = live s o'" "started (slotted p i d s) t = started s t"
    by (simp_all add: slotted_def)
  show "dom (processes (slotted p i d s)) = dom (processes s)"
    unfolding slotted_def using l by (rule dom_set(2))
  show "active (slotted p i d s) q = active s q"
    using l by (auto simp: slotted_def active_def)
qed

lemma slotted_hdr [simp]: "hdr (slotted p i d s) o' = hdr s o'"
  by (simp add: slotted_def)

lemma slotted_slot:
  "descriptors (prc (slotted p i d s) q) =
     (if q = p then (descriptors (prc s p))[i := d] else descriptors (prc s q))"
  by (simp add: slotted_def)

lemma kinv_slotted:
  assumes "kinv D V R r s" and "active s p" and "i < 12"
    and "descriptor_is_open d \<Longrightarrow> d_object d \<noteq> None"
    and "\<And>o'. D' o' = D o' + slot_w o' (descriptors (prc s p) ! i) - slot_w o' d"
    and "\<And>e. V' e = V e + recv_w e (descriptors (prc s p) ! i) - recv_w e d"
    and "debts_ok D' V' R"
  shows "kinv D' V' R r (slotted p i d s)"
proof (rule kinvI)
  let ?y = "(prc s p)\<lparr>descriptors := (descriptors (prc s p))[i := d]\<rparr>"
  have wf: "wf s" and acct: "acct D V R s" and q: "queues r s"
    using assms(1) by (simp_all add: kinv_def)
  have l: "live s (ProcessRef p)" and nd: "\<not> header_is_destroyed (p_header (prc s p))"
    using assms(2) by (simp_all add: active_def)
  have len: "length (descriptors (prc s p)) = 12"
    by (rule length_descriptors [OF wf l])
  show "wf (slotted p i d s)"
    unfolding slotted_def using wf l len by (simp add: JINUE_DESC_NUM_def)
  have "slots_ok (descriptors (prc s p))"
    using queuesD(9) [OF q] assms(2) by (simp add: q_slots_def)
  then have "slots_ok (descriptors ?y)"
    using assms(4) by (auto simp: slots_ok_def dest: set_update_subset_insert [THEN subsetD])
  then show "queues r (slotted p i d s)"
    unfolding slotted_def by (intro queues_set_prc [OF q l]) (use nd in simp_all)
  have "refs (slotted p i d s) o' + D' o' = refs s o' + D o'" for o'
    using assms(2,3,5) nd len sum_list_update_int [of i "descriptors (prc s p)" "slot_w o'" d]
    by (simp add: slotted_def refs_set(2) [OF wf l] pw_def)
  moreover have "receivers (slotted p i d s) e + V' e = receivers s e + V e" for e
    using assms(2,3,6) nd len sum_list_update_int [of i "descriptors (prc s p)" "recv_w e" d]
    by (simp add: slotted_def receivers_set(2) [OF wf l] rw_def)
  moreover have "running_in (slotted p i d s) q = running_in s q" for q
    by (simp add: slotted_def running_in_set l)
  ultimately show "acct D' V' R (slotted p i d s)"
    using acct assms(7) l by (simp add: acct_def debts_ok_def) (simp add: slotted_def)
qed

section \<open>Code that runs on behalf of the current thread\<close>

text \<open>
  \<open>n\<close> bounds the number of processes and is the fuel for nested destruction; \<open>D\<close> are the
  references the executing system call holds.
\<close>

definition incall :: "nat \<Rightarrow> (obj_ref \<Rightarrow> int) \<Rightarrow> kstate \<Rightarrow> bool" where
  "incall n D s \<longleftrightarrow> in_kernel D s \<and> t_kont (thr s (current s)) = K_user \<and>
     card (dom (processes s)) \<le> n"

lemma incallD:
  assumes "incall n D s"
  shows "in_kernel D s" "kinv D (\<lambda>_. 0) (\<lambda>_. 0) (Some (current s)) s"
    "t_kont (thr s (current s)) = K_user" "wf s" "acct D (\<lambda>_. 0) (\<lambda>_. 0) s"
    "live s (ThreadRef (current s))" "started s (current s)"
    "live s (ProcessRef (t_process (thr s (current s))))"
    "active s (t_process (thr s (current s)))"
    "address_space s = Some (t_process (thr s (current s)))"
    "active_count s \<le> n" "0 \<le> D o'" "debts_ok D (\<lambda>_. 0) (\<lambda>_. 0)"
proof -
  show k: "in_kernel D s" and u: "t_kont (thr s (current s)) = K_user"
    using assms by (simp_all add: incall_def)
  note kd = in_kernelD [OF k]
  show "kinv D (\<lambda>_. 0) (\<lambda>_. 0) (Some (current s)) s" "wf s" "live s (ThreadRef (current s))"
      "started s (current s)" "live s (ProcessRef (t_process (thr s (current s))))"
      "active s (t_process (thr s (current s)))"
      "address_space s = Some (t_process (thr s (current s)))"
    using kd by simp_all
  show a: "acct D (\<lambda>_. 0) (\<lambda>_. 0) s"
    using kd(1) by (simp add: kinv_def)
  show "active_count s \<le> n"
  proof -
    have "{p. active s p} \<subseteq> dom (processes s)"
      by (auto simp: active_def live.simps)
    from card_mono [OF wf_finite(1) [OF kd(8)] this] show ?thesis
      using assms by (simp add: active_count_def incall_def)
  qed
  show "0 \<le> D o'"
    using a by (simp add: acct_def)
  show "debts_ok D (\<lambda>_. 0) (\<lambda>_. 0)"
    using kd(1) by (rule kinv_debts_ok)
qed

text \<open>What calls leave unchanged: the running thread, its process, and reserved descriptors.\<close>

definition keeps :: "kstate \<Rightarrow> kstate \<Rightarrow> bool" where
  "keeps s s' \<longleftrightarrow> current s' = current s \<and>
     t_process (thr s' (current s)) = t_process (thr s (current s)) \<and>
     t_sender (thr s' (current s)) = t_sender (thr s (current s)) \<and>
     (\<forall>p i. descriptor_is_reserved (descriptors (prc s p) ! i) \<longrightarrow>
        descriptors (prc s' p) ! i = descriptors (prc s p) ! i)"

lemma keeps_refl [simp]: "keeps s s"
  by (simp add: keeps_def)

lemma keeps_trans: "keeps s s' \<Longrightarrow> keeps s' s'' \<Longrightarrow> keeps s s''"
  by (simp add: keeps_def)

lemma incall_shrinks:
  assumes "incall n D s" and "kinv D' (\<lambda>_. 0) (\<lambda>_. 0) (Some (current s)) s'" and "shrinks s s'"
  shows "incall n D' s'" "keeps s s'"
proof -
  note k = in_kernelD [OF incallD(1) [OF assms(1)]]
  note ts = thread_shrinks_running [OF shrinksD(7) [OF assms(3)] k(5)]
  show "incall n D' s'"
    using assms(1,2) ts k(2) shrinksD(1,8,9) [OF assms(3)] by (simp add: incall_def in_kernel_def)
  show "keeps s s'"
    using ts shrinksD(4,8) [OF assms(3)] by (simp add: keeps_def)
qed

lemma slotted_keeps:
  assumes "\<not> descriptor_is_reserved (descriptors (prc s p) ! i)"
  shows "keeps s (slotted p i d s)"
proof -
  have "descriptors (prc (slotted p i d s) q) ! j = descriptors (prc s q) ! j"
    if "descriptor_is_reserved (descriptors (prc s q) ! j)" for q j
    using assms that by (cases "q = p \<and> j = i") (auto simp: slotted_slot)
  then show ?thesis
    by (simp add: keeps_def)
qed

section \<open>References held by a call\<close>

definition referenced :: "obj_ref \<Rightarrow> kstate \<Rightarrow> kstate" where
  "referenced o' s = set_hdr o' ((hdr s o')\<lparr>ref_count := rc s o' + 1\<rparr>) s"

lemma kinv_referenced:
  assumes "kinv D V R r s" and "live s o'" and "D o' \<le> 8"
  shows "object_add_ref o' s = Inr (referenced o' s)"
    "kinv (D(o' := D o' + 1)) V R r (referenced o' s)"
proof -
  have acct: "acct D V R s" and wf: "wf s"
    using assms(1) by (simp_all add: kinv_def)
  have b: "refs s o' + D o' + 1 < 2 ^ 31" "0 \<le> D o'" "rc s o' = refs s o' + D o'" "0 \<le> refs s o'"
    using refs_bound [OF wf, of o'] assms(3) acct acct_rc [OF acct assms(2)] refs_nonneg [of s o']
    by (simp_all add: acct_def)
  then have "int32 (rc s o' + 1) = rc s o' + 1"
    by (intro int32_id) simp_all
  then show "object_add_ref o' s = Inr (referenced o' s)"
    using assms(2) by (simp add: object_add_ref_def referenced_def)
  show "kinv (D(o' := D o' + 1)) V R r (referenced o' s)"
    unfolding referenced_def
    by (rule kinv_rc [OF assms(1,2)])
      (use b acct assms(2) in \<open>auto simp: active_set_hdr header_is_destroyed_def acct_def intro: add_increasing2\<close>)
qed

lemma active_referenced:
  "live s o' \<Longrightarrow> active (referenced o' s) p = active s p"
  by (simp add: referenced_def active_set_hdr header_is_destroyed_def)

lemma referenced_sel [simp]:
  assumes "live s o'"
  shows "current (referenced o' s) = current s" "live (referenced o' s) q = live s q"
    "t_process (thr (referenced o' s) t) = t_process (thr s t)"
    "t_kont (thr (referenced o' s) t) = t_kont (thr s t)"
    "t_state (thr (referenced o' s) t) = t_state (thr s t)"
    "descriptors (prc (referenced o' s) p) = descriptors (prc s p)"
    "umem (referenced o' s) = umem s" "address_space (referenced o' s) = address_space s"
  using assms by (simp_all add: referenced_def)

lemma incall_referenced:
  assumes "incall n D s" and "live s o'" and "D o' \<le> 8"
  shows "incall n (D(o' := D o' + 1)) (referenced o' s)" "keeps s (referenced o' s)"
  using assms kinv_referenced(2) [OF incallD(2) [OF assms(1)] assms(2,3)]
  by (simp_all add: incall_def in_kernel_def keeps_def referenced_def)

lemma descriptor_unreference_object_ok:
  assumes "pd_ok n pd" and "incall n D s" and "d_object d = Some o'" and "1 \<le> D o'"
  shows "outcome no_error (descriptor_unreference_object pd d s)
    (\<lambda>s'. incall n (D(o' := D o' - 1)) s' \<and> keeps s s')"
proof -
  have "outcome no_error (object_sub_ref pd o' s)
      (\<lambda>s'. kinv (D(o' := D o' - 1)) (\<lambda>_. 0) (\<lambda>_. 0) (Some (current s)) s' \<and> shrinks s s')"
    using assms(4) by (intro object_sub_ref_ok [OF assms(1) incallD(11,2) [OF assms(2)]]) simp_all
  then have "outcome no_error (object_sub_ref pd o' s)
      (\<lambda>s'. incall n (D(o' := D o' - 1)) s' \<and> keeps s s')"
    by (rule outcome_weaken) (use incall_shrinks [OF assms(2)] in blast)
  then show ?thesis
    using assms(3) by (simp add: descriptor_unreference_object_def nonnull_def)
qed

section \<open>Accessing a descriptor\<close>

lemma incall_slotted:
  assumes "incall n D s" and "active s p" and "i < 12"
    and "\<not> descriptor_is_open (descriptors (prc s p) ! i)" and "\<not> descriptor_is_open d"
  shows "incall n D (slotted p i d s)"
proof -
  have l: "live s (ProcessRef p)"
    using assms(2) by (simp add: active_def)
  have "kinv D (\<lambda>_. 0) (\<lambda>_. 0) (Some (current s)) (slotted p i d s)"
    by (rule kinv_slotted [OF incallD(2) [OF assms(1)] assms(2,3)])
      (use assms(4,5) incallD(13) [OF assms(1)] in \<open>simp_all add: not_open_weight\<close>)
  then show ?thesis
    using assms(1) l by (simp add: incall_def in_kernel_def)
qed

text \<open>The references and receiver counts a slot stands for become debts, and are paid by closing.\<close>

lemma close_slot_ok:
  assumes "pd_ok n pd" and "incall n D s" and "active s p" and "i < 12"
    and "descriptor_is_open (descriptors (prc s p) ! i)"
    and "d_object (descriptors (prc s p) ! i) = Some o'"
    and "\<not> descriptor_is_open d" and "\<And>e. recv_paid o' d' e = recv_paid o' (descriptors (prc s p) ! i) e"
  shows "outcome no_error (object_close pd o' d' (slotted p i d s)) (\<lambda>s'. incall n D s' \<and> keeps s s')"
proof -
  let ?d = "descriptors (prc s p) ! i" and ?s = "slotted p i d s"
  have l: "live s (ProcessRef p)"
    using assms(3) by (simp add: active_def)
  have nonneg: "0 \<le> D q" for q
    by (rule incallD(12) [OF assms(2)])
  note w = open_weight [OF assms(5,6)]
  let ?D = "\<lambda>q. D q + (if q = o' then 1 else 0)" and ?V = "recv_paid o' ?d"
  have "debts_ok ?D ?V (\<lambda>_. 0)"
    using nonneg by (simp add: debts_ok_def recv_paid_def)
  then have k: "kinv ?D ?V (\<lambda>_. 0) (Some (current s)) ?s"
    by (intro kinv_slotted [OF incallD(2) [OF assms(2)] assms(3,4)])
      (use assms(7) in \<open>simp_all add: w not_open_weight\<close>)
  have ac: "active_count ?s \<le> n"
    using incallD(11) [OF assms(2)] l by (simp add: active_count_def)
  have "outcome no_error (object_close pd o' d' ?s)
      (\<lambda>s'. kinv (?D(o' := ?D o' - 1)) (\<lambda>f. ?V f - recv_paid o' d' f) (\<lambda>_. 0) (Some (current s)) s' \<and>
        shrinks ?s s')"
    by (rule object_close_ok [OF assms(1) ac k]) (use nonneg assms(8) in simp_all)
  moreover have "?D(o' := ?D o' - 1) = D" "(\<lambda>f. ?V f - recv_paid o' d' f) = (\<lambda>_. 0)"
    using assms(8) by auto
  ultimately have "outcome no_error (object_close pd o' d' ?s)
      (\<lambda>s'. kinv D (\<lambda>_. 0) (\<lambda>_. 0) (Some (current s)) s' \<and> shrinks ?s s')"
    by simp
  then show ?thesis
  proof (rule outcome_weaken, elim conjE)
    fix s'
    assume k': "kinv D (\<lambda>_. 0) (\<lambda>_. 0) (Some (current s)) s'" and sh: "shrinks ?s s'"
    have "thread_shrinks (thr s (current s)) (thr s' (current s))"
      using shrinksD(7) [OF sh] by simp
    note ts = thread_shrinks_running [OF this in_kernelD(5) [OF incallD(1) [OF assms(2)]]]
    have "descriptors (prc s' q) ! j = descriptors (prc s q) ! j"
      if "descriptor_is_reserved (descriptors (prc s q) ! j)" for q j
      using shrinksD(4) [OF sh, of q] that assms(5) state_exclusive(2)
      by (cases "q = p \<and> j = i") (auto simp: slotted_slot nth_list_update)
    then show "incall n D s' \<and> keeps s s'"
      using k' ts assms(2) shrinksD(1,8,9) [OF sh] l
      by (simp add: incall_def in_kernel_def keeps_def)
  qed
qed

text \<open>
  Descriptor number 12 passes the check of \<open>dereference\<close> but is past the end of the table;
  every other number is safe.
\<close>

definition fd_ok :: "int \<Rightarrow> bool" where
  "fd_ok fd \<longleftrightarrow> fd \<noteq> int JINUE_DESC_NUM"

lemma dereference_ok: "fd_ok fd \<Longrightarrow> dereference fd = Some i \<Longrightarrow> i < 12 \<and> fd = int i"
  by (auto simp: fd_ok_def dereference_def JINUE_DESC_NUM_def split: if_splits)

lemma kinv_open_slot:
  assumes "incall n D s" and "active s p" and "i < 12" and "descriptor_is_open (descriptors (prc s p) ! i)"
  shows "\<exists>o'. d_object (descriptors (prc s p) ! i) = Some o' \<and> live s o'"
proof -
  have l: "live s (ProcessRef p)"
    using assms(2) by (simp add: active_def)
  have len: "length (descriptors (prc s p)) = 12"
    by (rule length_descriptors [OF incallD(4) [OF assms(1)] l])
  have "slots_ok (descriptors (prc s p))"
    using queuesD(9) [OF kinvD(3) [OF incallD(2) [OF assms(1)]]] assms(2) by (simp add: q_slots_def)
  then obtain o' where o': "d_object (descriptors (prc s p) ! i) = Some o'"
    using assms(3,4) len by (auto simp: slots_ok_def)
  then show ?thesis
    using kinv_slot_live [OF incallD(2) [OF assms(1)] assms(2) _ assms(4) o'] assms(3) len by simp
qed

definition slot_of :: "nat \<Rightarrow> int \<Rightarrow> kstate \<Rightarrow> descriptor option" where
  "slot_of p fd s = (case dereference fd of
      None \<Rightarrow> None
    | Some i \<Rightarrow> if i < JINUE_DESC_NUM then Some (descriptors (prc s p) ! i) else None)"

lemma descriptor_access_object_ok:
  assumes "pd_ok n pd" and "incall n D s" and "p = t_process (thr s (current s))" and "fd_ok fd"
    and "\<And>q. D q \<le> 8"
  shows "outcome no_error (descriptor_access_object pd p fd s) (\<lambda>(r, s').
    case r of Inl _ \<Rightarrow> incall n D s' \<and> keeps s s'
    | Inr d \<Rightarrow> (\<exists>o'. d_object d = Some o' \<and> live s o' \<and> \<not> header_is_destroyed (hdr s o') \<and>
        descriptor_is_open d \<and> slot_of p fd s = Some d \<and> s' = referenced o' s))"
proof (cases "dereference fd")
  case None
  then show ?thesis
    using assms(2) by (simp add: descriptor_access_object_def)
next
  case (Some i)
  have i: "i < 12"
    using dereference_ok [OF assms(4) Some] by simp
  have act: "active s p" and l: "live s (ProcessRef p)"
    using incallD(8,9) [OF assms(2)] assms(3) by simp_all
  define d where "d = descriptors (prc s p) ! i"
  have slot: "get_slot p i s = Inr d"
    using get_slot_ok [OF incallD(4) [OF assms(2)] l i] by (simp add: d_def)
  have eq: "descriptor_access_object pd p fd s = descriptor_access_object_locked pd p i s"
    by (simp add: descriptor_access_object_def Some)
  show ?thesis
  proof (cases "descriptor_is_open d")
    case False
    then show ?thesis
      using assms(2) by (simp add: eq descriptor_access_object_locked_def slot)
  next
    case True
    then obtain o' where o': "d_object d = Some o'" and lo: "live s o'"
      using kinv_open_slot [OF assms(2) act i] by (auto simp: d_def)
    have nd: "\<not> descriptor_is_destroyed d"
      using True state_exclusive(3) by blast
    show ?thesis
    proof (cases "header_is_destroyed (hdr s o')")
      case False
      then show ?thesis
        using True nd o' lo kinv_referenced(1) [OF incallD(2) [OF assms(2)] lo assms(5)] i
        by (simp add: eq descriptor_access_object_locked_def slot nonnull_def object_is_destroyed_def
            slot_of_def Some d_def [symmetric] JINUE_DESC_NUM_def)
    next
      case dest: True
      let ?d = "set_state d DESC_STATE_DESTROYED"
      have "outcome no_error (object_close pd o' ?d (slotted p i ?d s)) (\<lambda>s'. incall n D s' \<and> keeps s s')"
        by (rule close_slot_ok [OF assms(1,2) act i]) (use True o' in \<open>simp_all add: d_def\<close>)
      then show ?thesis
        using True nd o' lo dest set_slot_eq [OF incallD(4) [OF assms(2)] l i, of ?d]
        by (simp add: eq descriptor_access_object_locked_def slot nonnull_def object_is_destroyed_def)
    qed
  qed
qed

section \<open>Reserving, opening and closing\<close>

text \<open>A slot that is set aside for a new descriptor.\<close>

definition reserved_slot :: "nat \<Rightarrow> int \<Rightarrow> kstate \<Rightarrow> bool" where
  "reserved_slot p fd s \<longleftrightarrow> active s p \<and>
     (\<exists>i < 12. dereference fd = Some i \<and> descriptor_is_reserved (descriptors (prc s p) ! i))"

lemma descriptor_reserve_unused_ok:
  assumes "incall n D s" and "active s p" and "fd_ok fd"
  shows "outcome no_error (descriptor_reserve_unused p fd s) (\<lambda>(st, s').
    incall n D s' \<and> keeps s s' \<and> (\<forall>q. active s' q = active s q) \<and> (\<forall>o'. live s' o' = live s o') \<and>
    (\<forall>o'. hdr s' o' = hdr s o') \<and> (\<not> st < 0 \<longrightarrow> reserved_slot p fd s'))"
proof (cases "dereference fd")
  case None
  then show ?thesis
    using assms(1) by (simp add: descriptor_reserve_unused_def errno_defs)
next
  case (Some i)
  have i: "i < 12"
    using dereference_ok [OF assms(3) Some] by simp
  have l: "live s (ProcessRef p)"
    using assms(2) by (simp add: active_def)
  let ?d = "descriptors (prc s p) ! i"
  let ?s = "slotted p i (set_state ?d DESC_STATE_RESERVED) s"
  have slot: "get_slot p i s = Inr ?d"
    by (rule get_slot_ok [OF incallD(4) [OF assms(1)] l i])
  have len: "length (descriptors (prc s p)) = 12"
    by (rule length_descriptors [OF incallD(4) [OF assms(1)] l])
  show ?thesis
  proof (cases "descriptor_is_free ?d")
    case False
    then show ?thesis
      using assms(1) Some slot by (simp add: descriptor_reserve_unused_def errno_defs)
  next
    case True
    have "incall n D ?s"
      by (rule incall_slotted [OF assms(1,2) i]) (use True state_exclusive(1) in simp_all)
    moreover have "keeps s ?s"
      using True state_exclusive(4) by (intro slotted_keeps) blast
    moreover have "reserved_slot p fd ?s"
      using assms(2) Some i l len by (simp add: reserved_slot_def slotted_slot)
    ultimately show ?thesis
      using True Some slot l set_slot_eq [OF incallD(4) [OF assms(1)] l i]
      by (simp add: descriptor_reserve_unused_def)
  qed
qed

lemma descriptor_free_reservation_ok:
  assumes "incall n D s" and "reserved_slot p fd s"
  shows "outcome no_error (descriptor_free_reservation p fd s) (incall n D)"
proof -
  obtain i where i: "i < 12" "dereference fd = Some i" "descriptor_is_reserved (descriptors (prc s p) ! i)"
    and act: "active s p"
    using assms(2) by (auto simp: reserved_slot_def)
  have l: "live s (ProcessRef p)"
    using act by (simp add: active_def)
  have "incall n D (slotted p i (descriptor_clear (descriptors (prc s p) ! i)) s)"
    by (rule incall_slotted [OF assms(1) act i(1)]) (use i(3) state_exclusive(2) in simp_all)
  then show ?thesis
    using i get_slot_ok [OF incallD(4) [OF assms(1)] l i(1)] set_slot_eq [OF incallD(4) [OF assms(1)] l i(1)]
    by (simp add: descriptor_free_reservation_def nonnull_def)
qed

lemma reserved_slot_keeps:
  assumes "reserved_slot p fd s" and "keeps s s'" and "active s' p"
  shows "reserved_slot p fd s'"
  using assms by (auto simp: reserved_slot_def keeps_def)

text \<open>Opening: the object gains a reference, and a receiver if the descriptor allows it.\<close>

fun opened :: "obj_ref \<Rightarrow> descriptor \<Rightarrow> kstate \<Rightarrow> kstate" where
  "opened (EndpointRef e) d s =
     (let s1 = referenced (EndpointRef e) s
      in if descriptor_has_permissions d JINUE_PERM_RECEIVE
         then set_ept e ((ept s1 e)\<lparr>receivers_count := receivers_count (ept s1 e) + 1\<rparr>) s1 else s1)"
| "opened o' d s = referenced o' s"

lemma object_open_eq:
  assumes "live s o'" and "int32 (rc s o' + 1) = rc s o' + 1"
    and "\<And>e. o' = EndpointRef e \<Longrightarrow>
      int32 (receivers_count (ept s e) + 1) = receivers_count (ept s e) + 1"
  shows "object_open o' d s = Inr (opened o' d s)"
proof -
  have add: "object_add_ref o' s = Inr (referenced o' s)"
    using assms(1,2) by (simp add: object_add_ref_def referenced_def)
  show ?thesis
  proof (cases o')
    case (EndpointRef e)
    have "receivers_count (ept (referenced o' s) e) = receivers_count (ept s e)"
        "live (referenced o' s) (EndpointRef e)"
      using assms(1) EndpointRef by (simp_all add: referenced_def)
    then show ?thesis
      using add assms(3) EndpointRef
      by (simp add: object_open_def endpoint_open_op_def add_receiver_def Let_def)
  qed (use add in \<open>simp_all add: object_open_def\<close>)
qed

lemma open_ranges:
  assumes "kinv D V R r s" and "live s o'" and "D o' \<le> 8"
  shows "int32 (rc s o' + 1) = rc s o' + 1"
    "o' = EndpointRef e \<Longrightarrow> int32 (receivers_count (ept s e) + 1) = receivers_count (ept s e) + 1"
proof -
  have acct: "acct D V R s" and wf: "wf s"
    using assms(1) by (simp_all add: kinv_def)
  have b: "refs s o' < 2 ^ 31 - 16" "0 \<le> D o'" "rc s o' = refs s o' + D o'" "0 \<le> refs s o'"
    using refs_bound [OF wf, of o'] acct acct_rc [OF acct assms(2)] refs_nonneg [of s o']
    by (simp_all add: acct_def)
  then show "int32 (rc s o' + 1) = rc s o' + 1"
    using assms(3) by (intro int32_id) simp_all
  show "int32 (receivers_count (ept s e) + 1) = receivers_count (ept s e) + 1" if "o' = EndpointRef e"
  proof -
    have "receivers_count (ept s e) = receivers s e + V e" "0 \<le> V e" "V e \<le> 8"
      using acct assms(2,3) that by (auto simp: acct_def dest: spec [of _ e])
    then show ?thesis
      using receivers_nonneg [of s e] receivers_le_refs [of s e] b(1) that by (intro int32_id) simp_all
  qed
qed

lemma opened_cases:
  "opened o' d s = referenced o' s \<or>
   (\<exists>e z. o' = EndpointRef e \<and> e_header z = e_header (ept (referenced o' s) e) \<and>
      opened o' d s = set_ept e z (referenced o' s))"
proof (cases "\<exists>e. o' = EndpointRef e \<and> descriptor_has_permissions d JINUE_PERM_RECEIVE")
  case True
  then obtain e where e: "o' = EndpointRef e" "descriptor_has_permissions d JINUE_PERM_RECEIVE"
    by blast
  let ?x = "ept (referenced o' s) e"
  have "opened o' d s = set_ept e (?x\<lparr>receivers_count := receivers_count ?x + 1\<rparr>) (referenced o' s)"
    using e by (simp add: Let_def)
  then show ?thesis
    using e(1) by (intro disjI2 exI conjI) auto
next
  case False
  then show ?thesis
    by (cases o') (auto simp: Let_def)
qed

lemma opened_sel [simp]:
  assumes "live s o'"
  shows "current (opened o' d s) = current s" "address_space (opened o' d s) = address_space s"
    "live (opened o' d s) q = live s q" "active (opened o' d s) p = active s p"
    "t_process (thr (opened o' d s) t) = t_process (thr s t)"
    "t_kont (thr (opened o' d s) t) = t_kont (thr s t)"
    "t_sender (thr (opened o' d s) t) = t_sender (thr s t)"
    "descriptors (prc (opened o' d s) p) = descriptors (prc s p)"
    "dom (processes (opened o' d s)) = dom (processes s)"
proof -
  have r: "current (referenced o' s) = current s" "address_space (referenced o' s) = address_space s"
    "live (referenced o' s) q = live s q" "active (referenced o' s) p = active s p"
    "t_process (thr (referenced o' s) t) = t_process (thr s t)"
    "t_kont (thr (referenced o' s) t) = t_kont (thr s t)"
    "t_sender (thr (referenced o' s) t) = t_sender (thr s t)"
    "descriptors (prc (referenced o' s) p) = descriptors (prc s p)"
    "dom (processes (referenced o' s)) = dom (processes s)" for q p t
    using assms by (simp_all add: active_referenced) (simp_all add: referenced_def)
  show "current (opened o' d s) = current s" "address_space (opened o' d s) = address_space s"
    "live (opened o' d s) q = live s q" "active (opened o' d s) p = active s p"
    "t_process (thr (opened o' d s) t) = t_process (thr s t)"
    "t_kont (thr (opened o' d s) t) = t_kont (thr s t)"
    "t_sender (thr (opened o' d s) t) = t_sender (thr s t)"
    "descriptors (prc (opened o' d s) p) = descriptors (prc s p)"
    "dom (processes (opened o' d s)) = dom (processes s)"
    using opened_cases [of o' d s] r assms by (elim disjE exE conjE; simp)+
qed

lemma kinv_opened:
  assumes "kinv D (\<lambda>_. 0) R r s" and "live s o'" and "D o' \<le> 8"
  shows "kinv (D(o' := D o' + 1)) (recv_paid o' d) R r (opened o' d s)"
proof -
  note ref = kinv_referenced [OF assms]
  show ?thesis
  proof (cases "\<exists>e. o' = EndpointRef e \<and> descriptor_has_permissions d JINUE_PERM_RECEIVE")
    case False
    then have "recv_paid o' d = (\<lambda>_. 0)" "opened o' d s = referenced o' s"
      by (cases o'; auto simp: recv_paid_def Let_def)+
    then show ?thesis
      using ref(2) by simp
  next
    case True
    then obtain e where e: "o' = EndpointRef e" "descriptor_has_permissions d JINUE_PERM_RECEIVE"
      by blast
    let ?s1 = "referenced o' s"
    have l1: "live ?s1 (EndpointRef e)"
      using assms(2) e(1) by simp
    have q1: "queues r ?s1"
      using ref(2) by (simp add: kinv_def)
    have "recv_paid o' d = (\<lambda>_. 0)(e := 1)" "0 \<le> D o'"
      using e kinvD(2) [OF assms(1)] by (auto simp: recv_paid_def acct_def)
    moreover have "kinv (D(o' := D o' + 1)) ((\<lambda>_. 0)(e := 1)) R r
        (set_ept e ((ept ?s1 e)\<lparr>receivers_count := receivers_count (ept ?s1 e) + 1\<rparr>) ?s1)"
      by (rule kinv_set_ept [OF ref(2) l1, where v = 1])
        (use e(1) q_listsD [OF queuesD(3) [OF q1] l1] listed_not_sender [OF q1 l1] \<open>0 \<le> D o'\<close> in simp_all)
    ultimately show ?thesis
      using e by (simp add: Let_def)
  qed
qed

lemma referenced_slotted: "referenced o' (slotted p i x s) = slotted p i x (referenced o' s)"
proof (cases "o' = ProcessRef p")
  case True
  have swap: "(prc s p)\<lparr>descriptors := ds, p_header := h\<rparr> = (prc s p)\<lparr>p_header := h, descriptors := ds\<rparr>"
    for ds h
    by (rule process.equality) simp_all
  show ?thesis
    using True by (simp add: referenced_def slotted_def set_prc_def) (simp only: swap)
next
  case False
  then show ?thesis
    by (cases o')
      (auto simp: referenced_def slotted_def set_prc_def set_ept_def set_thr_def fun_upd_twist)
qed

lemma opened_slotted: "opened o' d (slotted p i x s) = slotted p i x (opened o' d s)"
proof -
  have "set_ept e z (slotted p i x s1) = slotted p i x (set_ept e z s1)" for e z s1
    by (simp add: slotted_def set_prc_def set_ept_def)
  then show ?thesis
    by (cases o') (auto simp: Let_def referenced_slotted)
qed

lemma descriptor_open_eq:
  assumes "kinv D (\<lambda>_. 0) R r s" and "active s p" and "i < 12" and "dereference fd = Some i"
    and "descriptor_is_reserved (descriptors (prc s p) ! i)" and "d_object d = Some o'" and "live s o'"
    and "D o' \<le> 8"
  shows "descriptor_open p fd d s = Inr (slotted p i (set_state d DESC_STATE_OPEN) (opened o' d s))"
    "kinv D (\<lambda>_. 0) R r (slotted p i (set_state d DESC_STATE_OPEN) (opened o' d s))"
proof -
  let ?d = "set_state d DESC_STATE_OPEN"
  let ?s = "slotted p i ?d (opened o' d s)"
  have l: "live s (ProcessRef p)" and wf: "wf s"
    using assms(2) kinvD(1) [OF assms(1)] by (simp_all add: active_def)
  have no: "\<not> descriptor_is_open (descriptors (prc s p) ! i)"
    using assms(5) state_exclusive(2) by blast
  have w: "slot_w q ?d = (if q = o' then 1 else 0)" "recv_w e ?d = recv_paid o' d e" for q e
    using open_weight [of ?d o'] assms(6) by simp_all
  show "kinv D (\<lambda>_. 0) R r ?s"
    by (rule kinv_slotted [OF kinv_opened [OF assms(1,7,8), of d]])
      (use assms no kinv_debts_ok [OF assms(1)] in \<open>simp_all add: w not_open_weight\<close>)
  have "object_open o' d (slotted p i ?d s) = Inr ?s"
    unfolding opened_slotted [symmetric]
    by (rule object_open_eq) (use open_ranges [OF assms(1,7,8)] assms(7) l in simp_all)
  then show "descriptor_open p fd d s = Inr ?s"
    using assms(3-7) get_slot_ok [OF wf l assms(3)] set_slot_eq [OF wf l assms(3)]
    by (simp add: descriptor_open_def nonnull_def assert_that_def)
qed

lemma descriptor_open_ok:
  assumes "incall n D s" and "reserved_slot p fd s" and "d_object d = Some o'" and "live s o'"
    and "D o' \<le> 8"
  shows "outcome no_error (descriptor_open p fd d s) (\<lambda>s'. incall n D s' \<and> current s' = current s)"
proof -
  obtain i where i: "i < 12" "dereference fd = Some i" "descriptor_is_reserved (descriptors (prc s p) ! i)"
    and act: "active s p"
    using assms(2) by (auto simp: reserved_slot_def)
  then have "live s (ProcessRef p)"
    by (simp add: active_def)
  then show ?thesis
    using assms(1,4) descriptor_open_eq [OF incallD(2) [OF assms(1)] act i assms(3-5)]
    by (simp add: incall_def in_kernel_def)
qed

lemma descriptor_close_ok:
  assumes "pd_ok n pd" and "incall n D s" and "p = t_process (thr s (current s))" and "fd_ok fd"
  shows "outcome no_error (descriptor_close pd p fd s) (\<lambda>(st, s'). incall n D s' \<and> keeps s s')"
proof (cases "dereference fd")
  case None
  then show ?thesis
    using assms(2) by (simp add: descriptor_close_def)
next
  case (Some i)
  have i: "i < 12"
    using dereference_ok [OF assms(4) Some] by simp
  have act: "active s p" and l: "live s (ProcessRef p)"
    using incallD(8,9) [OF assms(2)] assms(3) by simp_all
  let ?d = "descriptors (prc s p) ! i"
  let ?s = "slotted p i (descriptor_clear ?d) s"
  have slot: "get_slot p i s = Inr ?d" "set_slot p i (descriptor_clear ?d) s = Inr ?s"
    using get_slot_ok [OF incallD(4) [OF assms(2)] l i] set_slot_eq [OF incallD(4) [OF assms(2)] l i]
    by simp_all
  show ?thesis
  proof (cases "descriptor_is_open ?d")
    case True
    then obtain o' where o': "d_object ?d = Some o'" and lo: "live s o'"
      using kinv_open_slot [OF assms(2) act i] by auto
    have "outcome no_error (object_close pd o' ?d ?s) (\<lambda>s'. incall n D s' \<and> keeps s s')"
      by (rule close_slot_ok [OF assms(1,2) act i True o']) simp_all
    then show ?thesis
      using True o' Some slot by (simp add: descriptor_close_def nonnull_def descriptor_is_closeable_def)
  next
    case False
    have "incall n D ?s"
      by (rule incall_slotted [OF assms(2) act i False]) simp
    moreover have "keeps s ?s" if "descriptor_is_closeable ?d"
      using state_exclusive(5) [OF that] by (rule slotted_keeps)
    ultimately show ?thesis
      using False Some slot assms(2) by (simp add: descriptor_close_def)
  qed
qed

end
