(* ===== verification/Lifecycle.thy ===== *)
theory Lifecycle
  imports Descriptors
begin

unbundle bit_operations_syntax

text \<open>
  Objects come to life: allocation from the slab caches and the page allocator, the
  constructors of endpoints, processes and threads, and starting a thread.
\<close>

section \<open>Objects that are not live\<close>

lemma dead_debt:
  assumes "kinv D V R r s" and "\<not> live s o'"
  shows "refs s o' = 0" "D o' = 0" "o' = EndpointRef e \<Longrightarrow> V e = 0" "o' = ProcessRef p \<Longrightarrow> R p = 0"
    "o' = EndpointRef e \<Longrightarrow> receivers s e = 0" "o' = ProcessRef p \<Longrightarrow> running_in s p = 0"
    "o' = ProcessRef p \<Longrightarrow> started s t \<Longrightarrow> t_process (thr s t) \<noteq> p"
proof -
  have acct: "acct D V R s"
    using assms(1) by (simp add: kinv_def)
  then have "\<not> 0 < refs s o' + D o'"
    using assms(2) by (auto simp: acct_def)
  then show z: "refs s o' = 0" "D o' = 0"
    using refs_nonneg [of s o'] acct_nonneg [OF acct, of o'] by linarith+
  show "V e = 0" if "o' = EndpointRef e"
    using acct z(2) that unfolding acct_def by (metis order_antisym)
  show "R p = 0" if "o' = ProcessRef p"
    using acct z(2) that unfolding acct_def by (metis order_antisym)
  show "receivers s e = 0" if "o' = EndpointRef e"
    using receivers_nonneg [of s e] receivers_le_refs [of s e] z(1) that by simp
  show "running_in s p = 0" if "o' = ProcessRef p"
    using running_in_nonneg [of s p] running_in_le_refs [of s p] z(1) that by simp
  show "t_process (thr s t) \<noteq> p" if "o' = ProcessRef p" "started s t"
    using refs_started(2) [OF kinvD(1) [OF assms(1)] that(2)] z(1) that(1) by auto
qed

text \<open>Writing to an object that is not live.\<close>

lemma kinv_set_prc_dead:
  assumes "kinv D V R r s" and "p \<in> set (process_cache s)"
    and "ref_count (p_header y) = 0" and "length (descriptors y) = JINUE_DESC_NUM"
  shows "kinv D V R r (set_prc p y s)"
proof (rule kinvI)
  let ?s = "set_prc p y s"
  have wf: "wf s" and acct: "acct D V R s" and q: "queues r s"
    using assms(1) by (simp_all add: kinv_def)
  have dom: "insert p (dom (processes s)) = dom (processes s)"
    using wf assms(2) by (auto simp: wf_def)
  have live: "live ?s o' = live s o'" for o'
    using dom assms(2) by (cases o') (auto simp: live.simps)
  have nl: "\<not> live s (ProcessRef p)"
    using assms(2) by (simp add: live.simps)
  have act: "active ?s q = active s q" for q
    using nl by (auto simp: active_def live)
  have st: "started ?s t = started s t" for t
    by (simp add: started_def live)
  have b: "sending ?s t e = sending s t e" "receiving ?s t e = receiving s t e"
      "awaiting ?s t w = awaiting s t w" for t e w
    by (simp_all add: sending_def receiving_def awaiting_def live)
  have prc: "active s q \<Longrightarrow> prc ?s q = prc s q" for q
    using nl by (auto simp: active_def)
  have "refs ?s o' = refs s o'" for o'
    by (rule refs_cong) (use prc in \<open>auto simp: dom pw_def tw_def act st\<close>)
  moreover have "receivers ?s e = receivers s e" for e
    by (rule receivers_cong) (use prc in \<open>auto simp: dom rw_def act\<close>)
  moreover have "running_in ?s q = running_in s q" for q
    by (rule running_in_cong) (simp_all add: runs_in_def st)
  moreover have "live s o' \<Longrightarrow> hdr ?s o' = hdr s o'" for o'
    using nl by auto
  moreover have "live s (ProcessRef q) \<Longrightarrow> prc ?s q = prc s q" for q
    using nl by auto
  ultimately show "acct D V R ?s"
    using acct by (simp add: acct_def live del: set_prc_sel hdr_set) simp
  show "wf ?s"
    using wf assms(4) dom by (auto simp: wf_def)
  have "q_slots ?s"
    using queuesD(9) [OF q] prc by (simp add: q_slots_def act del: set_prc_sel)
  moreover have "q_free ?s"
    using queuesD(10) [OF q] assms(3) by (auto simp: q_free_def)
  ultimately show "queues r ?s"
    using queuesD [OF q]
    by (simp add: queues_def q_ready_def q_running_def q_lists_def q_sender_def q_await_def q_recv_def
        q_proc_def q_kont_def live act st b)
qed

lemma kinv_set_thr_dead:
  assumes "kinv D V R r s" and "t \<in> set (free_pages s)"
    and "length (message_buffer x) = JINUE_MAX_MESSAGE_SIZE" and "message_size x \<le> JINUE_MAX_MESSAGE_SIZE"
  shows "kinv D V R r (set_thr t x s)"
proof (rule kinvI)
  let ?s = "set_thr t x s"
  have wf: "wf s" and acct: "acct D V R s" and q: "queues r s"
    using assms(1) by (simp_all add: kinv_def)
  have dom: "insert t (dom (threads s)) = dom (threads s)"
    using wf assms(2) by (auto simp: wf_def)
  have live: "live ?s o' = live s o'" for o'
    using dom assms(2) by (cases o') (auto simp: live.simps)
  have nl: "\<not> live s (ThreadRef t)"
    using assms(2) by (simp add: live.simps)
  have thr: "live s (ThreadRef t') \<Longrightarrow> thr ?s t' = thr s t'" for t'
    using nl by auto
  have act: "active ?s q = active s q" for q
    by (simp add: active_def live)
  have st: "started ?s t' = started s t'" for t'
    using nl by (auto simp: started_def live)
  have nst: "\<not> started s t"
    using nl by (simp add: started_def)
  then have sthr: "started s t' \<Longrightarrow> thr ?s t' = thr s t'" for t'
    by auto
  have b: "sending ?s t' e = sending s t' e" "receiving ?s t' e = receiving s t' e"
      "awaiting ?s t' w = awaiting s t' w" for t' e w
    using nl by (auto simp: sending_def receiving_def awaiting_def live)
  have "refs ?s o' = refs s o'" for o'
    by (rule refs_cong) (use nst in \<open>auto simp: dom pw_def tw_def act st\<close>)
  moreover have "receivers ?s e = receivers s e" for e
    by (rule receivers_cong) (auto simp: rw_def act)
  moreover have "running_in ?s q = running_in s q" for q
    by (rule running_in_cong) (use nst in \<open>auto simp: dom runs_in_def st\<close>)
  moreover have "live s o' \<Longrightarrow> hdr ?s o' = hdr s o'" for o'
    using nl by auto
  ultimately show "acct D V R ?s"
    using acct by (simp add: acct_def live del: hdr_set)
  show "wf ?s"
    using wf assms(3,4) dom by (auto simp: wf_def)
  note qd = queuesD [OF q]
  have "q_ready ?s" "q_running r ?s"
    using qd(1,2) nl by (auto simp: q_ready_def q_running_def live)
  moreover have "q_sender ?s"
    using qd(4) nst unfolding q_sender_def st b by auto
  moreover have "q_await ?s" "q_recv ?s" "q_proc ?s" "q_kont ?s"
    using qd(5-8) nst by (auto simp: q_await_def q_recv_def q_proc_def q_kont_def st b act)
  ultimately show "queues r ?s"
    using qd by (simp add: queues_def q_lists_def q_slots_def q_free_def live act b)
qed

text \<open>Taking an object out of its allocator.\<close>

lemma closed_weight:
  "\<forall>d \<in> set ds. \<not> descriptor_is_open d \<Longrightarrow> sum_list (map (slot_w o') ds) = 0"
  "\<forall>d \<in> set ds. \<not> descriptor_is_open d \<Longrightarrow> sum_list (map (recv_w e) ds) = 0"
  by (induction ds) (auto simp: not_open_weight)

lemma kinv_alloc_endpoint:
  assumes "kinv D V R r s" and "endpoint_cache s = e # es"
  shows "kinv D V R r (s\<lparr>endpoint_cache := es\<rparr>)"
    "live (s\<lparr>endpoint_cache := es\<rparr>) o' \<longleftrightarrow> live s o' \<or> o' = EndpointRef e"
proof -
  let ?s = "s\<lparr>endpoint_cache := es\<rparr>"
  have wf: "wf s" and acct: "acct D V R s" and q: "queues r s"
    using assms(1) by (simp_all add: kinv_def)
  have new: "e \<in> dom (endpoints s)" "e \<notin> set es" "\<not> live s (EndpointRef e)"
    using wf assms(2) by (auto simp: wf_def live.simps)
  have live: "live ?s o' \<longleftrightarrow> live s o' \<or> o' = EndpointRef e" for o'
    using new assms(2) by (cases o') (auto simp: live.simps)
  then show "live ?s o' \<longleftrightarrow> live s o' \<or> o' = EndpointRef e" .
  have act: "active ?s p = active s p" and st: "started ?s t = started s t" for p t
    by (simp_all add: active_def started_def live)
  have b: "sending ?s t f = sending s t f" "receiving ?s t f = receiving s t f"
      "awaiting ?s t w = awaiting s t w" for t f w
    by (simp_all add: sending_def receiving_def awaiting_def live)
  have hdr: "hdr ?s o' = hdr s o'" for o'
    by (cases o') simp_all
  have "refs ?s o' = refs s o'" for o'
    by (rule refs_cong) (auto simp: pw_def tw_def act st)
  moreover have "receivers ?s f = receivers s f" for f
    by (rule receivers_cong) (auto simp: rw_def act)
  moreover have "running_in ?s p = running_in s p" for p
    by (rule running_in_cong) (auto simp: runs_in_def st)
  moreover note dead = dead_debt [OF assms(1) new(3)]
  moreover have "rc s (EndpointRef e) = 0" "receivers_count (ept s e) = 0"
      "send_list (ept s e) = []" "recv_list (ept s e) = []"
    using queuesD(10) [OF q] assms(2) by (simp_all add: q_free_def)
  ultimately have "acct D V R ?s" "q_lists ?s"
    using acct queuesD(3) [OF q] by (auto simp: acct_def q_lists_def live hdr b)
  moreover have "wf ?s"
    using wf assms(2) by (simp add: wf_def)
  moreover have "queues r ?s" if "q_lists ?s"
    using queuesD [OF q] that assms(2)
    by (simp add: queues_def q_ready_def q_running_def q_sender_def q_await_def q_recv_def
        q_proc_def q_kont_def q_slots_def q_free_def live act st b)
  ultimately show "kinv D V R r ?s"
    by (simp add: kinv_def)
qed

lemma kinv_alloc_process:
  assumes "kinv D V R r s" and "process_cache s = p # ps"
    and "\<forall>d \<in> set (descriptors (prc s p)). \<not> descriptor_is_open d"
    and "running_threads_count (prc s p) = 0"
  shows "kinv D V R r (s\<lparr>process_cache := ps\<rparr>)"
    "live (s\<lparr>process_cache := ps\<rparr>) o' \<longleftrightarrow> live s o' \<or> o' = ProcessRef p"
proof -
  let ?s = "s\<lparr>process_cache := ps\<rparr>"
  have wf: "wf s" and acct: "acct D V R s" and q: "queues r s"
    using assms(1) by (simp_all add: kinv_def)
  have new: "p \<in> dom (processes s)" "p \<notin> set ps" "\<not> live s (ProcessRef p)"
    using wf assms(2) by (auto simp: wf_def live.simps)
  have live: "live ?s o' \<longleftrightarrow> live s o' \<or> o' = ProcessRef p" for o'
    using new assms(2) by (cases o') (auto simp: live.simps)
  then show "live ?s o' \<longleftrightarrow> live s o' \<or> o' = ProcessRef p" .
  have act: "active ?s q \<longleftrightarrow> active s q \<or> (q = p \<and> \<not> header_is_destroyed (p_header (prc s p)))"
      and st: "started ?s t = started s t" for q t
    using new(3) by (auto simp: active_def started_def live)
  have b: "sending ?s t f = sending s t f" "receiving ?s t f = receiving s t f"
      "awaiting ?s t w = awaiting s t w" for t f w
    by (simp_all add: sending_def receiving_def awaiting_def live)
  have hdr: "hdr ?s o' = hdr s o'" for o'
    by (cases o') simp_all
  have none: "sum_list (map (slot_w o') (descriptors (prc s p))) = 0"
      "sum_list (map (recv_w f) (descriptors (prc s p))) = 0" for o' f
    using closed_weight [OF assms(3)] by auto
  have npa: "\<not> active s p"
    using new(3) by (simp add: active_def)
  have "refs ?s o' = refs s o'" for o'
    by (rule refs_cong) (use npa in \<open>auto simp: pw_def tw_def act st none\<close>)
  moreover have "receivers ?s f = receivers s f" for f
    by (rule receivers_cong) (use npa in \<open>auto simp: rw_def act none\<close>)
  moreover have "running_in ?s q = running_in s q" for q
    by (rule running_in_cong) (auto simp: runs_in_def st)
  moreover note dead = dead_debt [OF assms(1) new(3)]
  moreover have "rc s (ProcessRef p) = 0"
    using queuesD(10) [OF q] assms(2) by (simp add: q_free_def)
  ultimately have "acct D V R ?s"
    using acct assms(4) by (auto simp: acct_def live hdr)
  moreover have "wf ?s"
    using wf assms(2) by (simp add: wf_def)
  moreover have "queues r ?s"
    using queuesD [OF q] assms(2,3)
    by (auto simp: queues_def q_ready_def q_running_def q_lists_def q_sender_def q_await_def q_recv_def
        q_proc_def q_kont_def q_slots_def slots_ok_def q_free_def live act st b)
  ultimately show "kinv D V R r ?s"
    by (simp add: kinv_def)
qed

lemma kinv_alloc_thread:
  assumes "kinv D V R r s" and "free_pages s = t # ts" and "\<not> is_started (t_state (thr s t))"
    and "rc s (ThreadRef t) = 0"
  shows "kinv D V R r (s\<lparr>free_pages := ts\<rparr>)"
    "live (s\<lparr>free_pages := ts\<rparr>) o' \<longleftrightarrow> live s o' \<or> o' = ThreadRef t"
proof -
  let ?s = "s\<lparr>free_pages := ts\<rparr>"
  have wf: "wf s" and acct: "acct D V R s" and q: "queues r s"
    using assms(1) by (simp_all add: kinv_def)
  have new: "t \<in> dom (threads s)" "t \<notin> set ts" "\<not> live s (ThreadRef t)"
    using wf assms(2) by (auto simp: wf_def live.simps)
  have live: "live ?s o' \<longleftrightarrow> live s o' \<or> o' = ThreadRef t" for o'
    using new assms(2) by (cases o') (auto simp: live.simps)
  then show "live ?s o' \<longleftrightarrow> live s o' \<or> o' = ThreadRef t" .
  have act: "active ?s p = active s p" and st: "started ?s t' = started s t'" for p t'
    using assms(3) by (auto simp: active_def started_def live)
  have idle: "t_state (thr s t) \<noteq> THREAD_STATE_READY" "t_state (thr s t) \<noteq> THREAD_STATE_RUNNING"
      "t_state (thr s t) \<noteq> THREAD_STATE_BLOCKED"
    using assms(3) by (auto simp: is_started_def)
  have b: "sending ?s t' f = sending s t' f" "receiving ?s t' f = receiving s t' f"
      "awaiting ?s t' w = awaiting s t' w" for t' f w
    using idle by (auto simp: sending_def receiving_def awaiting_def live)
  have hdr: "hdr ?s o' = hdr s o'" for o'
    by (cases o') simp_all
  have "refs ?s o' = refs s o'" for o'
    by (rule refs_cong) (auto simp: pw_def tw_def act st)
  moreover have "receivers ?s f = receivers s f" for f
    by (rule receivers_cong) (auto simp: rw_def act)
  moreover have "running_in ?s p = running_in s p" for p
    by (rule running_in_cong) (auto simp: runs_in_def st)
  moreover note dead = dead_debt [OF assms(1) new(3)]
  ultimately have "acct D V R ?s"
    using acct assms(4) by (auto simp: acct_def live hdr)
  moreover have "wf ?s"
    using wf assms(2) by (simp add: wf_def)
  moreover have "q_ready ?s" "q_running r ?s"
    using queuesD(1,2) [OF q] idle by (auto simp: q_ready_def q_running_def live)
  then have "queues r ?s"
    using queuesD [OF q]
    by (simp add: queues_def q_lists_def q_sender_def q_await_def q_recv_def
        q_proc_def q_kont_def q_slots_def q_free_def live act st b)
  ultimately show "kinv D V R r ?s"
    by (simp add: kinv_def)
qed

section \<open>The constructors\<close>

lemma incall_same:
  assumes "incall n D s" and "kinv D' (\<lambda>_. 0) (\<lambda>_. 0) (Some (current s)) s'"
    and "current s' = current s" and "address_space s' = address_space s"
    and "t_process (thr s' (current s)) = t_process (thr s (current s))"
    and "t_kont (thr s' (current s)) = t_kont (thr s (current s))"
    and "dom (processes s') = dom (processes s)"
  shows "incall n D' s'"
  using assms by (simp add: incall_def in_kernel_def)

lemma endpoint_new_ok:
  assumes "incall n D s"
  shows "outcome no_error (endpoint_new s) (\<lambda>(r, s'). incall n D s' \<and> keeps s s' \<and>
    (\<forall>p. active s p \<longrightarrow> active s' p) \<and> (\<forall>e. r = Some e \<longrightarrow> live s' (EndpointRef e)))"
proof (cases "endpoint_cache s")
  case Nil
  then show ?thesis
    using assms by (simp add: endpoint_new_def endpoint_slab_alloc_def)
next
  case (Cons e es)
  define s1 where "s1 = s\<lparr>endpoint_cache := es\<rparr>"
  define s2 where "s2 = set_hdr (EndpointRef e) (object_reset_header (hdr s1 (EndpointRef e))) s1"
  note k = kinv_alloc_endpoint [OF incallD(2) [OF assms] Cons, folded s1_def]
  have live: "live s1 (EndpointRef e)"
    using k(2) by blast
  have act: "active s1 p = active s p" for p
    by (simp add: active_def k(2)) (simp add: s1_def)
  have "kinv D (\<lambda>_. 0) (\<lambda>_. 0) (Some (current s)) s2"
    unfolding s2_def by (rule kinv_flag [OF k(1) live]) (simp_all add: object_reset_header_def live)
  then have "incall n D s2"
    by (rule incall_same [OF assms]) (simp_all add: s2_def s1_def live [unfolded s1_def])
  moreover have "keeps s s2"
    by (simp add: keeps_def s2_def s1_def)
  moreover have "active s2 p = active s p" "live s2 (EndpointRef e)" for p
    using live by (simp_all add: s2_def act)
  moreover have "endpoint_new s = Inr (Some e, s2)"
    using live unfolding s2_def
    by (simp add: endpoint_new_def endpoint_slab_alloc_def Cons s1_def [symmetric])
  ultimately show ?thesis
    by simp
qed

definition fresh_process :: "process \<Rightarrow> process" where
  "fresh_process x = initialize_descriptors (x\<lparr>p_header := object_reset_header (p_header x),
     running_threads_count := 0, signal_handler := 0, p_pending_signals := 0\<rparr>)"

lemma fresh_process_sel:
  "ref_count (p_header (fresh_process x)) = ref_count (p_header x)"
  "\<not> header_is_destroyed (p_header (fresh_process x))"
  "length (descriptors (fresh_process x)) = length (descriptors x)"
  "d \<in> set (descriptors (fresh_process x)) \<Longrightarrow> \<not> descriptor_is_open d"
  "running_threads_count (fresh_process x) = 0"
  by (auto simp: fresh_process_def initialize_descriptors_def object_reset_header_def
      header_is_destroyed_def OBJECT_FLAG_NONE_def)

lemma process_new_states:
  assumes "process_cache s = p # ps" and "p \<in> dom (processes s)" and "p \<notin> set ps"
  shows "process_new ok s =
    (if ok then Inr (Some p, (set_prc p ((fresh_process (prc s p))\<lparr>p_addr_space := True\<rparr>) s)\<lparr>process_cache := ps\<rparr>)
     else Inr (None, set_prc p (fresh_process (prc s p)) s))"
proof -
  have "live (s\<lparr>process_cache := ps\<rparr>) (ProcessRef p)"
    using assms(2,3) by (auto simp: live.simps)
  then show ?thesis
    using assms(1)
    by (simp add: process_new_def process_slab_alloc_def fresh_process_def [symmetric])
qed

lemma cached_process:
  assumes "kinv D V R r s" and "process_cache s = p # ps"
  shows "p \<in> dom (processes s)" "p \<notin> set ps" "\<not> live s (ProcessRef p)"
    "length (descriptors (prc s p)) = JINUE_DESC_NUM" "ref_count (p_header (prc s p)) = 0"
  using kinvD(1) [OF assms(1)] assms(2) queuesD(10) [OF kinvD(3) [OF assms(1)]]
  by (auto simp: wf_def live.simps q_free_def)

lemma kinv_process_created:
  assumes "kinv D V R r s" and "process_cache s = p # ps"
    and "s1 = (set_prc p ((fresh_process (prc s p))\<lparr>p_addr_space := True\<rparr>) s)\<lparr>process_cache := ps\<rparr>"
  shows "kinv D V R r s1" "live s1 o' \<longleftrightarrow> live s o' \<or> o' = ProcessRef p"
    "process_new True s = Inr (Some p, s1)"
proof -
  note new = cached_process [OF assms(1,2)]
  define y where "y = (fresh_process (prc s p))\<lparr>p_addr_space := True\<rparr>"
  have y: "ref_count (p_header y) = 0" "length (descriptors y) = JINUE_DESC_NUM"
      "\<forall>d \<in> set (descriptors y). \<not> descriptor_is_open d" "running_threads_count y = 0"
    by (auto simp: y_def fresh_process_sel new(4,5))
  have k1: "kinv D V R r (set_prc p y s)"
    by (rule kinv_set_prc_dead [OF assms(1)]) (simp_all add: assms(2) y)
  show "kinv D V R r s1"
    unfolding assms(3) y_def [symmetric]
    by (rule kinv_alloc_process(1) [OF k1, of p]) (use y in \<open>simp_all add: assms(2)\<close>)
  show "live s1 o' \<longleftrightarrow> live s o' \<or> o' = ProcessRef p"
    using new(1,2) assms(2) by (cases o') (auto simp: assms(3) live.simps)
  show "process_new True s = Inr (Some p, s1)"
    by (simp add: process_new_states [OF assms(2) new(1,2)] assms(3))
qed

lemma process_new_ok:
  assumes "incall n D s"
  shows "outcome no_error (process_new ok s) (\<lambda>(r, s'). incall n D s' \<and> current s' = current s \<and>
    (\<forall>p fd. reserved_slot p fd s \<longrightarrow> reserved_slot p fd s') \<and>
    (\<forall>p. r = Some p \<longrightarrow> live s' (ProcessRef p)))"
proof (cases "process_cache s")
  case Nil
  then show ?thesis
    using assms by (simp add: process_new_def process_slab_alloc_def)
next
  case (Cons p ps)
  have k: "kinv D (\<lambda>_. 0) (\<lambda>_. 0) (Some (current s)) s"
    by (rule incallD(2) [OF assms])
  note new = cached_process [OF k Cons]
  have slot: "reserved_slot q fd s'" if "reserved_slot q fd s" "active s' q" "prc s' q = prc s q" for q fd s'
    using that by (simp add: reserved_slot_def)
  have not_new: "q \<noteq> p" if "reserved_slot q fd s" for q fd
    using that new(3) by (auto simp: reserved_slot_def active_def)
  show ?thesis
  proof (cases ok)
    case False
    define s1 where "s1 = set_prc p (fresh_process (prc s p)) s"
    have live: "live s1 o' = live s o'" for o'
      using new(1) Cons by (cases o') (auto simp: s1_def live.simps)
    have "kinv D (\<lambda>_. 0) (\<lambda>_. 0) (Some (current s)) s1"
      unfolding s1_def
      by (rule kinv_set_prc_dead [OF k]) (simp_all add: Cons fresh_process_sel new(4,5))
    then have "incall n D s1"
      by (rule incall_same [OF assms]) (use new(1) in \<open>auto simp: s1_def\<close>)
    moreover have "reserved_slot q fd s1" if "reserved_slot q fd s" for q fd
      using not_new [OF that] that
      by (intro slot [OF that]) (simp_all add: reserved_slot_def active_def live, simp_all add: s1_def)
    ultimately show ?thesis
      using False by (simp add: process_new_states [OF Cons new(1,2)] s1_def [symmetric]) (simp add: s1_def)
  next
    case True
    define s1 where
      "s1 = (set_prc p ((fresh_process (prc s p))\<lparr>p_addr_space := True\<rparr>) s)\<lparr>process_cache := ps\<rparr>"
    note created = kinv_process_created [OF k Cons s1_def]
    have "incall n D s1"
      by (rule incall_same [OF assms created(1)]) (use new(1) in \<open>auto simp: s1_def\<close>)
    moreover have "reserved_slot q fd s1" if "reserved_slot q fd s" for q fd
      using not_new [OF that] that
      by (intro slot [OF that]) (simp_all add: reserved_slot_def active_def created(2), simp_all add: s1_def)
    ultimately show ?thesis
      using True by (simp add: created(2,3)) (simp add: s1_def)
  qed
qed

lemma kinv_thread_created:
  assumes "kinv D V R r s" and "free_pages s = t # ts"
    and "x = (thr s t)\<lparr>t_header := object_init_header, t_state := THREAD_STATE_CREATED,
      t_process := p, t_awaiter := None, local_storage_addr := 0, local_storage_size := 0\<rparr>"
    and "s1 = (set_thr t x s)\<lparr>free_pages := ts\<rparr>"
  shows "kinv D V R r s1" "live s1 o' \<longleftrightarrow> live s o' \<or> o' = ThreadRef t" "\<not> live s (ThreadRef t)"
    "thread_new p s = Inr (Some t, s1)"
proof -
  have new: "t \<in> dom (threads s)" "t \<notin> set ts" "\<not> live s (ThreadRef t)"
      "length (message_buffer (thr s t)) = JINUE_MAX_MESSAGE_SIZE"
      "message_size (thr s t) \<le> JINUE_MAX_MESSAGE_SIZE"
    using kinvD(1) [OF assms(1)] assms(2) by (auto simp: wf_def live.simps)
  then show "\<not> live s (ThreadRef t)"
    by simp
  have k1: "kinv D V R r (set_thr t x s)"
    by (rule kinv_set_thr_dead [OF assms(1)]) (simp_all add: assms(2,3) new)
  show "kinv D V R r s1"
    unfolding assms(4)
    by (rule kinv_alloc_thread(1) [OF k1, of t])
      (simp_all add: assms(2,3) is_started_def object_init_header_def)
  show "live s1 o' \<longleftrightarrow> live s o' \<or> o' = ThreadRef t"
    using new(1,2) assms(2) by (cases o') (auto simp: assms(4) live.simps)
  have "live (s\<lparr>free_pages := ts\<rparr>) (ThreadRef t)"
    using new(1,2) by (auto simp: live.simps)
  then show "thread_new p s = Inr (Some t, s1)"
    by (simp add: thread_new_def thread_page_alloc_def assms(2-4))
qed

lemma thread_new_ok:
  assumes "incall n D s"
  shows "outcome no_error (thread_new p s) (\<lambda>(r, s'). incall n D s' \<and> keeps s s' \<and>
    (\<forall>q. active s' q = active s q) \<and> (\<forall>t. r = Some t \<longrightarrow> live s' (ThreadRef t)))"
proof (cases "free_pages s")
  case Nil
  then show ?thesis
    using assms by (simp add: thread_new_def thread_page_alloc_def)
next
  case (Cons t ts)
  define x where "x = (thr s t)\<lparr>t_header := object_init_header, t_state := THREAD_STATE_CREATED,
    t_process := p, t_awaiter := None, local_storage_addr := 0, local_storage_size := 0\<rparr>"
  define s1 where "s1 = (set_thr t x s)\<lparr>free_pages := ts\<rparr>"
  note created = kinv_thread_created [OF incallD(2) [OF assms] Cons x_def s1_def]
  have nc: "t \<noteq> current s"
    using created(3) incallD(6) [OF assms] by auto
  have "incall n D s1"
    by (rule incall_same [OF assms created(1)]) (use nc in \<open>simp_all add: s1_def\<close>)
  moreover have "keeps s s1"
    using nc by (simp add: keeps_def s1_def)
  moreover have "active s1 q = active s q" for q
    by (simp add: active_def created(2)) (simp add: s1_def)
  ultimately show ?thesis
    by (simp add: created(2,4))
qed

section \<open>Starting a thread\<close>

lemma kinv_set_thr_idle:
  assumes "kinv D V R r s" and "live s (ThreadRef t)" and "\<not> started s t"
    and "\<not> is_started (t_state x)" and "t_header x = t_header (thr s t)"
    and "length (message_buffer x) = JINUE_MAX_MESSAGE_SIZE" and "message_size x \<le> JINUE_MAX_MESSAGE_SIZE"
  shows "kinv D V R r (set_thr t x s)"
proof (rule kinvI)
  let ?s = "set_thr t x s"
  note [simp] = assms(2)
  have wf: "wf s" and acct: "acct D V R s" and q: "queues r s"
    using assms(1) by (simp_all add: kinv_def)
  have old: "\<not> is_started (t_state (thr s t))"
    using assms(2,3) by (simp add: started_def)
  note idle = old [unfolded is_started_def] assms(4) [unfolded is_started_def]
  show "wf ?s"
    using wf assms(6,7) by simp
  show "acct D V R ?s"
    by (rule acct_set_thr [OF wf assms(2) acct])
      (use assms(3,4,5) acct in \<open>simp_all add: tw_def runs_in_def acct_def\<close>)
  have st: "started ?s t' = started s t'" for t'
    using assms(3,4) by simp
  have b: "sending ?s t' e = sending s t' e" "receiving ?s t' e = receiving s t' e"
      "awaiting ?s t' w = awaiting s t' w" for t' e w
    using idle by (auto simp: sending_def receiving_def awaiting_def)
  note qd = queuesD [OF q]
  have "q_ready ?s" "q_running r ?s"
    using qd(1,2) idle by (auto simp: q_ready_def q_running_def)
  moreover have "q_sender ?s"
    using qd(4) assms(3) unfolding q_sender_def st b by auto
  moreover have "q_await ?s" "q_recv ?s" "q_proc ?s" "q_kont ?s"
    using qd(5-8) assms(3) unfolding q_await_def q_recv_def q_proc_def q_kont_def st b by auto
  ultimately show "queues r ?s"
    using qd by (simp add: queues_def q_lists_def q_slots_def q_free_def b)
qed

text \<open>The thread takes over one reference on itself and one on its process.\<close>

lemma kinv_launched:
  assumes "kinv D V R r s" and "live s (ThreadRef t)" and "\<not> started s t"
    and "t_kont (thr s t) = K_start" and "t_sender (thr s t) = None" and "t_awaiter (thr s t) = None"
    and "p = t_process (thr s t)" and "active s p" and "1 \<le> D (ThreadRef t)" and "1 \<le> R p"
  shows "kinv (D(ThreadRef t := D (ThreadRef t) - 1, ProcessRef p := D (ProcessRef p) - 1)) V
    (R(p := R p - 1)) r (woken t (message_errno (thr s t)) s)"
proof (rule kinvI)
  let ?x = "(thr s t)\<lparr>message_errno := message_errno (thr s t), t_state := THREAD_STATE_READY\<rparr>"
  let ?s = "s\<lparr>ready_queue := ready_queue s @ [t]\<rparr>"
  let ?w = "woken t (message_errno (thr s t)) s"
  let ?D = "D(ThreadRef t := D (ThreadRef t) - 1, ProcessRef p := D (ProcessRef p) - 1)"
  note [simp] = assms(2)
  have wf: "wf s" and acct: "acct D V R s" and q: "queues r s"
    using assms(1) by (simp_all add: kinv_def)
  have ready: "is_started THREAD_STATE_READY"
    by (simp add: is_started_def)
  have Rb: "0 \<le> R q" "R q \<le> D (ProcessRef q)" for q
    using acct by (simp_all add: acct_def)
  have Dp: "1 \<le> D (ProcessRef p)"
    using Rb(2) [of p] assms(10) by simp
  show "wf ?w"
    unfolding woken_def using wf wf_thread [OF wf assms(2)] by (intro wf_set(1)) simp_all
  show "acct ?D V (R(p := R p - 1)) ?w"
    unfolding woken_def
  proof (rule acct_set_thr)
    show "(if is_started (t_state ?x) then thread_w o' t ?x else 0) = tw ?s o' t + D o' - ?D o'" for o'
      using ready assms(3,4,7) by (auto simp: tw_def thread_w_def)
    show "(if is_started (t_state ?x) \<and> t_process ?x = q then 1 else 0) =
        runs_in ?s q t + R q - (R(p := R p - 1)) q" for q
      using ready assms(3,7) by (simp add: runs_in_def)
    show "0 \<le> ?D o'" for o'
      using acct assms(9) Dp by (simp add: acct_def)
    show "0 \<le> (R(p := R p - 1)) q \<and> (R(p := R p - 1)) q \<le> ?D (ProcessRef q)" for q
      using Rb [of q] Rb [of p] assms(10) by simp
  qed (use wf acct in \<open>simp_all add: acct_def\<close>)
  have idle: "\<not> is_started (t_state (thr s t))"
    using assms(2,3) by (simp add: started_def)
  note idle' = idle [unfolded is_started_def]
  have started: "started ?w t' = (t' = t \<or> started s t')" for t'
    using ready by (simp add: woken_def)
  have thr: "thr ?w t' = (if t' = t then ?x else thr s t')" for t'
    by (simp add: woken_def)
  have b: "sending ?w t' e = sending s t' e" "receiving ?w t' e = receiving s t' e"
      "awaiting ?w t' w = awaiting s t' w" for t' e w
    using idle' by (auto simp: woken_def sending_def receiving_def awaiting_def)
  have other: "live ?w o' = live s o'" "active ?w p = active s p"
      "ept ?w e = ept s e" "prc ?w p = prc s p"
      "endpoint_cache ?w = endpoint_cache s" "process_cache ?w = process_cache s" for o' p e
    by (simp_all add: woken_def)
  note qd = queuesD [OF q]
  have "t \<notin> set (ready_queue s)"
    using qd(1) idle' by (simp add: q_ready_def)
  then have "q_ready ?w"
    using qd(1) by (auto simp: q_ready_def other thr woken_def)
  moreover have "q_running r ?w"
    using qd(2) idle' unfolding q_running_def other thr by auto
  moreover have "q_sender ?w"
    using qd(4) assms(5) unfolding q_sender_def other b started thr by auto
  moreover have "q_await ?w"
    using qd(5) assms(6) unfolding q_await_def b started thr by auto
  moreover have "q_recv ?w" "q_proc ?w" "q_kont ?w"
    using qd(6-8) assms(4,7,8) unfolding q_recv_def q_proc_def q_kont_def started other thr
    by (auto simp: recv_fine_def)
  moreover have "q_slots ?w" "q_free ?w"
    using qd(9,10) unfolding q_slots_def q_free_def other by (auto simp: woken_def)
  moreover have "q_lists ?w"
    using qd(3) by (simp add: q_lists_def other b)
  ultimately show "queues r ?w"
    by (simp add: queues_def)
qed

definition joined :: "nat \<Rightarrow> kstate \<Rightarrow> kstate" where
  "joined p s = (let s1 = referenced (ProcessRef p) s
     in set_prc p ((prc s1 p)\<lparr>running_threads_count := running_threads_count (prc s1 p) + 1\<rparr>) s1)"

lemma process_add_running_thread_eq:
  assumes "kinv D V R r s" and "live s (ProcessRef p)" and "D (ProcessRef p) \<le> 8"
  shows "process_add_running_thread p s = Inr (joined p s)"
    "kinv (D(ProcessRef p := D (ProcessRef p) + 1)) V (R(p := R p + 1)) r (joined p s)"
proof -
  note [simp] = assms(2)
  have acct: "acct D V R s"
    by (rule kinvD(2) [OF assms(1)])
  have "running_threads_count (prc s p) = running_in s p + R p" "0 \<le> R p" "R p \<le> D (ProcessRef p)"
    using acct by (simp_all add: acct_def)
  then have small: "int32 (running_threads_count (prc s p) + 1) = running_threads_count (prc s p) + 1"
    using running_in_nonneg [of s p] running_in_le_refs [of s p] assms(3)
      refs_bound [OF kinvD(1) [OF assms(1)], of "ProcessRef p"]
    by (intro int32_id) simp_all
  note acct_rc [OF acct \<open>live s (ProcessRef p)\<close>, simplified]
  then have small2: "int32 (ref_count (p_header (prc s p)) + 1) = ref_count (p_header (prc s p)) + 1"
    using refs_nonneg [of s "ProcessRef p"] acct_nonneg [OF acct, of "ProcessRef p"] assms(3)
      refs_bound [OF kinvD(1) [OF assms(1)], of "ProcessRef p"]
    by (intro int32_id) simp_all
  have swap: "(x :: process)\<lparr>running_threads_count := a, p_header := h\<rparr> =
      x\<lparr>p_header := h, running_threads_count := a\<rparr>" for x a h
    by simp
  show "process_add_running_thread p s = Inr (joined p s)"
    by (simp add: process_add_running_thread_def object_add_ref_def small small2 joined_def referenced_def Let_def)
      (simp add: set_prc_def, simp only: swap)
  let ?D = "D(ProcessRef p := D (ProcessRef p) + 1)"
  have k: "kinv ?D V R r (referenced (ProcessRef p) s)"
    by (rule kinv_referenced(2) [OF assms])
  then show "kinv ?D V (R(p := R p + 1)) r (joined p s)"
    unfolding joined_def Let_def
    by (rule kinv_set_running [where k = 1])
      (use \<open>0 \<le> R p\<close> \<open>R p \<le> D (ProcessRef p)\<close> in \<open>simp_all add: referenced_def\<close>)
qed

lemma joined_sel:
  assumes "live s (ProcessRef p)"
  shows "threads (joined p s) = threads s" "live (joined p s) o' = live s o'"
    "current (joined p s) = current s" "address_space (joined p s) = address_space s"
    "active (joined p s) q = active s q" "descriptors (prc (joined p s) q) = descriptors (prc s q)"
    "dom (processes (joined p s)) = dom (processes s)" "started (joined p s) t = started s t"
  using assms live_dom(1) [OF assms]
  by (auto simp: joined_def referenced_def Let_def active_def header_is_destroyed_def started_def)

lemma referenced_thread:
  assumes "live s (ThreadRef t)"
  shows "thr (referenced (ThreadRef t) s) t' =
      (if t' = t then (thr s t)\<lparr>t_header := (t_header (thr s t))\<lparr>ref_count := rc s (ThreadRef t) + 1\<rparr>\<rparr>
       else thr s t')"
    "processes (referenced (ThreadRef t) s) = processes s"
  by (simp_all add: referenced_def)

lemma thread_prepare_eq:
  assumes "live s (ThreadRef t)" and "live s (ProcessRef (t_process (thr s t)))"
  shows "thread_prepare t params s = Inr (set_thr t ((thr s t)\<lparr>
      t_sender := None, cpu_credits := 0, t_awaiter := None, t_state := THREAD_STATE_STARTING,
      t_pending_signals := 0, blocked_signals := sigmask params, sync_signo := 0,
      t_frame := user_frame params, t_kont := K_start\<rparr>) s)"
  using assms by (simp add: thread_prepare_def machine_prepare_thread_def)

lemma woken_of_state:
  "woken t err (set_thr t ((thr s t)\<lparr>t_state := st\<rparr>) s) = woken t err s"
  by (simp add: woken_def)

text \<open>A prepared thread becomes a running thread of its process.\<close>

lemma thread_is_starting_eq:
  assumes "kinv D (\<lambda>_. 0) (\<lambda>_. 0) r s" and "live s (ThreadRef t)" and "\<not> started s t"
    and "t_kont (thr s t) = K_start" and "t_sender (thr s t) = None" and "t_awaiter (thr s t) = None"
    and "p = t_process (thr s t)" and "active s p" and "\<And>q. D q \<le> 8"
    and "s3 = referenced (ThreadRef t) (joined p s)"
  shows "thread_is_starting t s = Inr (set_thr t ((thr s3 t)\<lparr>t_state := THREAD_STATE_RUNNING\<rparr>) s3)"
    "kinv D (\<lambda>_. 0) (\<lambda>_. 0) r (woken t (message_errno (thr s3 t)) s3)"
proof -
  define s2 where "s2 = joined p s"
  have lp: "live s (ProcessRef p)"
    using assms(8) by (simp add: active_def)
  note add = process_add_running_thread_eq [OF assms(1) lp assms(9), folded s2_def]
  note j = joined_sel [OF lp, folded s2_def]
  let ?D = "D(ProcessRef p := D (ProcessRef p) + 1)"
  have k2: "kinv ?D (\<lambda>_. 0) ((\<lambda>_. 0)(p := 1)) r s2"
    using add(2) by simp
  have lt: "live s2 (ThreadRef t)"
    using assms(2) by (simp add: j)
  have "?D (ThreadRef t) \<le> 8"
    using assms(9) by simp
  note ref = kinv_referenced [OF k2 lt this, folded assms(10) [folded s2_def]]
  note r3 = referenced_thread [OF lt, folded assms(10) [folded s2_def]]
  have l3: "live s3 (ThreadRef t)"
    using lt by (simp add: assms(10) s2_def)
  have x3: "t_process (thr s3 t) = p" "t_kont (thr s3 t) = K_start" "t_sender (thr s3 t) = None"
      "t_awaiter (thr s3 t) = None" "t_state (thr s3 t) = t_state (thr s t)"
    using assms(4-7) by (simp_all add: r3 j)
  define D3 where "D3 = ?D(ThreadRef t := ?D (ThreadRef t) + 1)"
  have "\<not> started s3 t"
    using assms(2,3) l3 by (simp add: started_def x3(5))
  moreover have "active s3 p" "1 \<le> D3 (ThreadRef t)"
    using assms(8) acct_nonneg [OF kinvD(2) [OF assms(1)], of "ThreadRef t"]
    by (simp_all add: assms(10) s2_def [symmetric] active_referenced [OF lt] j D3_def)
  ultimately have "kinv (D3(ThreadRef t := D3 (ThreadRef t) - 1, ProcessRef p := D3 (ProcessRef p) - 1)) (\<lambda>_. 0)
      (((\<lambda>_. 0)(p := 1))(p := ((\<lambda>_. 0)(p := 1)) p - 1)) r (woken t (message_errno (thr s3 t)) s3)"
    by (intro kinv_launched [OF ref(2) [folded D3_def]]) (simp_all add: l3 x3)
  moreover have "D3(ThreadRef t := D3 (ThreadRef t) - 1, ProcessRef p := D3 (ProcessRef p) - 1) = D"
      "((\<lambda>_. 0)(p := 1))(p := ((\<lambda>_. 0)(p := 1)) p - 1) = (\<lambda>_. 0 :: int)"
    by (auto simp: D3_def fun_eq_iff)
  ultimately show "kinv D (\<lambda>_. 0) (\<lambda>_. 0) r (woken t (message_errno (thr s3 t)) s3)"
    by simp
  show "thread_is_starting t s = Inr (set_thr t ((thr s3 t)\<lparr>t_state := THREAD_STATE_RUNNING\<rparr>) s3)"
    using add(1) ref(1) assms(2,7) l3 by (simp add: thread_is_starting_def set_thread_state_def)
qed

lemma starting_sel:
  assumes "live s (ThreadRef t)" and "live s (ProcessRef p)"
    and "s3 = referenced (ThreadRef t) (joined p s)"
  shows "live s3 o' = live s o'" "current s3 = current s" "address_space s3 = address_space s"
    "t' \<noteq> t \<Longrightarrow> thr s3 t' = thr s t'" "t_process (thr s3 t') = t_process (thr s t')"
    "t_kont (thr s3 t') = t_kont (thr s t')" "dom (processes s3) = dom (processes s)"
    "descriptors (prc s3 q) = descriptors (prc s q)" "ready_queue s3 = ready_queue s"
proof -
  note j = joined_sel [OF assms(2)]
  have lt: "live (joined p s) (ThreadRef t)"
    using assms(1) by (simp add: j)
  note r3 = referenced_thread [OF lt, folded assms(3)]
  show "live s3 o' = live s o'" "current s3 = current s" "address_space s3 = address_space s"
    using lt by (simp_all add: assms(3) j)
  show "t' \<noteq> t \<Longrightarrow> thr s3 t' = thr s t'" "t_process (thr s3 t') = t_process (thr s t')"
    "t_kont (thr s3 t') = t_kont (thr s t')" "dom (processes s3) = dom (processes s)"
    "descriptors (prc s3 q) = descriptors (prc s q)"
    by (simp_all add: r3 j)
  show "ready_queue s3 = ready_queue s"
    by (simp add: assms(3) joined_def referenced_def Let_def)
qed

lemma thread_start_ok:
  assumes "incall n D s" and "live s (ThreadRef t)"
    and "t_state (thr s t) = THREAD_STATE_CREATED \<or> t_state (thr s t) = THREAD_STATE_ZOMBIE"
    and "active s (t_process (thr s t))" and "\<And>q. D q \<le> 8"
  shows "outcome no_error (bind_ok (thread_prepare t params s) (thread_run t))
    (\<lambda>s'. incall n D s' \<and> keeps s s')"
proof -
  define p where "p = t_process (thr s t)"
  define x where "x = (thr s t)\<lparr>
      t_sender := None, cpu_credits := 0, t_awaiter := None, t_state := THREAD_STATE_STARTING,
      t_pending_signals := 0, blocked_signals := sigmask params, sync_signo := 0,
      t_frame := user_frame params, t_kont := K_start\<rparr>"
  define s1 where "s1 = set_thr t x s"
  define s3 where "s3 = referenced (ThreadRef t) (joined p s1)"
  define s4 where "s4 = woken t (message_errno (thr s3 t)) s3"
  note k = incallD(2) [OF assms(1)]
  have lp: "live s (ProcessRef p)" "active s p"
    using assms(4) by (simp_all add: p_def active_def)
  have idle: "\<not> started s t" and nc: "t \<noteq> current s"
    using assms(3) in_kernelD(5) [OF incallD(1) [OF assms(1)]] by (auto simp: started_def is_started_def)
  have k1: "kinv D (\<lambda>_. 0) (\<lambda>_. 0) (Some (current s)) s1"
    unfolding s1_def
    by (rule kinv_set_thr_idle [OF k assms(2) idle])
      (use wf_thread [OF kinvD(1) [OF k] assms(2)] in \<open>simp_all add: x_def is_started_def\<close>)
  have l1: "live s1 o' = live s o'" "active s1 q = active s q" for o' q
    using assms(2) by (simp_all add: s1_def)
  have t1: "thr s1 t = x" and "\<not> started s1 t"
    by (simp_all add: s1_def started_def x_def is_started_def)
  then have strt: "thread_is_starting t s1 = Inr (set_thr t ((thr s3 t)\<lparr>t_state := THREAD_STATE_RUNNING\<rparr>) s3)"
      "kinv D (\<lambda>_. 0) (\<lambda>_. 0) (Some (current s)) s4"
    using assms(2,5) lp thread_is_starting_eq [OF k1 _ _ _ _ _ _ _ _ s3_def]
    by (simp_all add: l1 s4_def x_def p_def [symmetric])
  note sel = starting_sel [of s1 t p s3, unfolded l1, OF assms(2) lp(1) s3_def]
  have c4: "thr s4 (current s) = thr s (current s)" "current s4 = current s"
      "address_space s4 = address_space s" "dom (processes s4) = dom (processes s)"
      "descriptors (prc s4 q) = descriptors (prc s q)" for q
    using nc by (simp_all add: s4_def woken_def sel) (simp_all add: s1_def)
  have "incall n D s4"
    by (rule incall_same [OF assms(1) strt(2)]) (simp_all add: c4)
  moreover have "keeps s s4"
    by (simp add: keeps_def c4)
  moreover have "thread_prepare t params s = Inr s1"
    unfolding s1_def x_def by (rule thread_prepare_eq [OF assms(2) lp(1) [unfolded p_def]])
  moreover have "thread_run t s1 = Inr s4"
    using strt(1) assms(2) by (simp add: thread_run_def sel ready_thread_woken woken_of_state s4_def)
  ultimately show ?thesis
    by simp
qed

end
