(* ===== verification/IpcProps.thy ===== *)
theory IpcProps
  imports Dispatch
begin

unbundle bit_operations_syntax

text \<open>
  Properties of message transfer: the user-space checks confine every access of the
  IPC code to user memory, the receive size is the clamped sum of the buffer sizes,
  gathering concatenates the send buffers, scattering writes the message over the
  receive buffers in order, and a message that goes through both arrives unchanged.
\<close>

section \<open>User-space ranges\<close>

lemma unat_KLIMIT [simp]: "unat JINUE_KLIMIT = 0xc0000000"
  by (simp add: JINUE_KLIMIT_def)

lemma check_userspace_buffer_iff:
  "check_userspace_buffer a n \<longleftrightarrow> unat a < 0xc0000000 \<and> unat a + unat n \<le> 0xc0000000"
proof (cases "a < JINUE_KLIMIT")
  case True
  then have "unat (JINUE_KLIMIT - a) = 0xc0000000 - unat a"
    by (simp add: unat_sub less_imp_le)
  moreover have "unat a < 0xc0000000"
    using True by (simp add: word_less_nat_alt)
  ultimately show ?thesis
    using True
    by (auto simp: check_userspace_buffer_def is_userspace_pointer_def user_pointer_max_size_def
        word_le_nat_alt)
next
  case False
  then show ?thesis
    by (simp add: check_userspace_buffer_def is_userspace_pointer_def word_less_nat_alt)
qed

text \<open>The addresses of a buffer.\<close>

definition region :: "u32 \<Rightarrow> nat \<Rightarrow> u32 set" where
  "region a n = set (map (\<lambda>i. a + of_nat i) [0..<n])"

lemma region_image: "region a n = (\<lambda>i. a + of_nat i) ` {..<n}"
  by (auto simp: region_def)

lemma region_user:
  assumes "check_userspace_buffer a n" and "x \<in> region a k" and "k \<le> unat n"
  shows "is_userspace_pointer x"
proof -
  from assms(2) obtain i where i: "i < k" "x = a + of_nat i"
    by (auto simp: region_image)
  have b: "unat a + i < 0xc0000000"
    using assms(1,3) i(1) by (auto simp: check_userspace_buffer_iff)
  then have "unat x = unat a + i"
    using i(2) by (simp add: unat_word_ariths unat_of_nat take_bit_nat_eq_self)
  then show ?thesis
    using b by (simp add: is_userspace_pointer_def word_less_nat_alt)
qed

lemma not_kernel_user: "is_kernel_pointer a \<longleftrightarrow> \<not> is_userspace_pointer a"
  by (auto simp: is_kernel_pointer_def is_userspace_pointer_def)

section \<open>Reading and writing bytes\<close>

lemma length_read_bytes [simp]: "length (read_bytes m a n) = n"
  by (simp add: read_bytes_def)

lemma region_0 [simp]: "region a 0 = {}"
  by (simp add: region_image)

lemma region_Suc: "region a (Suc n) = insert a (region (a + 1) n)"
  by (auto simp: region_image lessThan_Suc_eq_insert_0 image_image algebra_simps)

lemma region_mono: "k \<le> n \<Longrightarrow> region a k \<subseteq> region a n"
  by (auto simp: region_image)

lemma of_nat_u32_eq_0: "n < 2 ^ 32 \<Longrightarrow> (of_nat n :: u32) = 0 \<longleftrightarrow> n = 0"
  by (auto simp: word_of_nat_eq_0_iff dest: nat_dvd_not_less)

lemma region_start_notin:
  assumes "n < 2 ^ 32"
  shows "a \<notin> region (a + 1) n"
proof
  assume "a \<in> region (a + 1) n"
  then obtain j where j: "j < n" "a = a + 1 + of_nat j"
    by (auto simp: region_image)
  then have "(of_nat (Suc j) :: u32) = 0"
    by (simp add: algebra_simps)
  then show False
    using of_nat_u32_eq_0 [of "Suc j"] j(1) assms by simp
qed

lemma write_bytes_other: "x \<notin> region a (length bs) \<Longrightarrow> write_bytes m a bs x = m x"
  by (induction bs arbitrary: m a) (auto simp: region_Suc)

lemma write_bytes_read:
  assumes "length bs \<le> 2 ^ 32"
  shows "read_bytes (write_bytes m a bs) a (length bs) = bs"
proof -
  have "write_bytes m a bs (a + of_nat i) = bs ! i" if "i < length bs" for i
    using assms that
  proof (induction bs arbitrary: m a i)
    case Nil
    then show ?case by simp
  next
    case (Cons b bs)
    show ?case
    proof (cases i)
      case 0
      then show ?thesis
        using Cons.prems region_start_notin [of "length bs" a]
        by (simp add: write_bytes_other)
    next
      case (Suc k)
      then have "write_bytes (m(a := b)) (a + 1) bs (a + 1 + of_nat k) = bs ! k"
        using Cons by simp
      then show ?thesis
        using Suc by (simp add: algebra_simps)
    qed
  qed
  then show ?thesis
    by (auto simp: read_bytes_def intro: nth_equalityI)
qed

lemma read_bytes_cong:
  "(\<And>x. x \<in> region a n \<Longrightarrow> m x = m' x) \<Longrightarrow> read_bytes m a n = read_bytes m' a n"
  by (auto simp: read_bytes_def region_image)

lemma read_bytes_take: "k \<le> n \<Longrightarrow> take k (read_bytes m a n) = read_bytes m a k"
  by (simp add: read_bytes_def take_map)

lemma read_u32_cong:
  assumes "\<And>x. x \<in> region a 4 \<Longrightarrow> m x = m' x"
  shows "read_u32 m a = read_u32 m' a"
proof -
  have "a + of_nat i \<in> region a 4" if "i < 4" for i :: nat
    using that by (auto simp: region_image)
  from this [of 0] this [of 1] this [of 2] this [of 3] show ?thesis
    using assms by (simp add: read_u32_def)
qed

section \<open>The size of the receive buffers\<close>

text \<open>What is checked of one receive buffer.\<close>

definition recv_buffer_ok :: "(u32 \<Rightarrow> u8) \<Rightarrow> u32 \<Rightarrow> nat \<Rightarrow> bool" where
  "recv_buffer_ok m arr i \<longleftrightarrow> buffer_size m arr i \<le> JINUE_MAX_BUFFER_SIZE \<and>
     check_userspace_buffer (buffer_addr m arr i) (buffer_size m arr i)"

definition total_size :: "(u32 \<Rightarrow> u8) \<Rightarrow> u32 \<Rightarrow> nat list \<Rightarrow> nat" where
  "total_size m arr idxs = sum_list (map (\<lambda>i. unat (buffer_size m arr i)) idxs)"

lemma total_size_simps [simp]:
  "total_size m arr [] = 0"
  "total_size m arr (i # js) = unat (buffer_size m arr i) + total_size m arr js"
  by (simp_all add: total_size_def)

lemma clamp_step:
  assumes "unat (acc :: u32) \<le> 2048" and "sz \<le> JINUE_MAX_BUFFER_SIZE"
  shows "unat (if acc + sz > of_nat JINUE_MAX_MESSAGE_SIZE
               then of_nat JINUE_MAX_MESSAGE_SIZE else acc + sz) = min 2048 (unat acc + unat sz)"
proof -
  have "unat sz \<le> 0x4000000"
    using assms(2) by (simp add: JINUE_MAX_BUFFER_SIZE_def word_le_nat_alt)
  then have "unat (acc + sz) = unat acc + unat sz"
    using assms(1) by (simp add: unat_word_ariths)
  then show ?thesis
    by (auto simp: JINUE_MAX_MESSAGE_SIZE_def word_less_nat_alt)
qed

lemma recv_size_loop_result:
  assumes "unat acc \<le> 2048"
  shows "recv_size_loop m arr idxs acc =
    (if \<forall>i \<in> set idxs. recv_buffer_ok m arr i
     then Inr (of_nat (min 2048 (unat acc + total_size m arr idxs)))
     else Inl (- JINUE_EINVAL))"
  using assms
proof (induction idxs arbitrary: acc)
  case Nil
  then show ?case by simp
next
  case (Cons i js)
  define acc' where "acc' = (if acc + buffer_size m arr i > of_nat JINUE_MAX_MESSAGE_SIZE
    then of_nat JINUE_MAX_MESSAGE_SIZE else acc + buffer_size m arr i)"
  show ?case
  proof (cases "recv_buffer_ok m arr i")
    case True
    then have *: "unat acc' = min 2048 (unat acc + unat (buffer_size m arr i))"
      using clamp_step Cons.prems by (simp add: acc'_def recv_buffer_ok_def)
    have "recv_size_loop m arr (i # js) acc = recv_size_loop m arr js acc'"
      using True by (auto simp: recv_buffer_ok_def acc'_def Let_def)
    also have "\<dots> = (if \<forall>i \<in> set js. recv_buffer_ok m arr i
        then Inr (of_nat (min 2048 (unat acc' + total_size m arr js))) else Inl (- JINUE_EINVAL))"
      by (rule Cons.IH) (simp add: *)
    also have "min 2048 (unat acc' + total_size m arr js) =
        min 2048 (unat acc + total_size m arr (i # js))"
      by (simp add: *)
    finally show ?thesis
      using True by simp
  next
    case False
    then show ?thesis
      by (auto simp: recv_buffer_ok_def not_le)
  qed
qed

section \<open>Gathering\<close>

text \<open>The bytes a list of buffers describes.\<close>

definition gathered :: "(u32 \<Rightarrow> u8) \<Rightarrow> u32 \<Rightarrow> nat list \<Rightarrow> u8 list" where
  "gathered m arr idxs =
     concat (map (\<lambda>i. read_bytes m (buffer_addr m arr i) (unat (buffer_size m arr i))) idxs)"

lemma gathered_simps [simp]:
  "gathered m arr [] = []"
  "gathered m arr (i # js) =
     read_bytes m (buffer_addr m arr i) (unat (buffer_size m arr i)) @ gathered m arr js"
  by (simp_all add: gathered_def)

lemma length_gathered [simp]: "length (gathered m arr idxs) = total_size m arr idxs"
  by (induction idxs) simp_all

lemma length_put_bytes:
  "off + length bs \<le> length buf \<Longrightarrow> length (put_bytes buf off bs) = length buf"
  by (simp add: put_bytes_def)

lemma take_put_bytes:
  "off \<le> length buf \<Longrightarrow> take (off + length bs) (put_bytes buf off bs) = take off buf @ bs"
  by (simp add: put_bytes_def)

lemma gather_loop_length:
  assumes "gather_loop m arr idxs (n, buf) = (st, n', buf')"
    and "n \<le> 2048" and "length buf = 2048"
  shows "n' \<le> 2048 \<and> length buf' = 2048"
  using assms
proof (induction idxs arbitrary: n buf)
  case Nil
  then show ?case by simp
next
  case (Cons i js)
  show ?case
  proof (cases "check_userspace_buffer (buffer_addr m arr i) (buffer_size m arr i) \<and>
      unat (buffer_size m arr i) \<le> 2048 - n")
    case True
    then show ?thesis
      using Cons.IH [of "n + unat (buffer_size m arr i)"] Cons.prems
      by (auto simp: Let_def JINUE_MAX_MESSAGE_SIZE_def length_put_bytes)
  next
    case False
    then show ?thesis
      using Cons.prems by (auto simp: Let_def JINUE_MAX_MESSAGE_SIZE_def split: if_splits)
  qed
qed

lemma gather_loop_success:
  assumes "gather_loop m arr idxs (n, buf) = (st, n', buf')" and "0 \<le> st"
    and "n \<le> 2048" and "length buf = 2048"
  shows "n' = n + total_size m arr idxs \<and> take n' buf' = take n buf @ gathered m arr idxs \<and>
    (\<forall>i \<in> set idxs. check_userspace_buffer (buffer_addr m arr i) (buffer_size m arr i))"
  using assms
proof (induction idxs arbitrary: n buf)
  case Nil
  then show ?case by simp
next
  case (Cons i js)
  let ?n = "n + unat (buffer_size m arr i)"
  let ?bs = "read_bytes m (buffer_addr m arr i) (unat (buffer_size m arr i))"
  have ok: "check_userspace_buffer (buffer_addr m arr i) (buffer_size m arr i)"
      "unat (buffer_size m arr i) \<le> 2048 - n"
    using Cons.prems(1,2)
    by (auto simp: Let_def JINUE_MAX_MESSAGE_SIZE_def errno_defs split: if_splits)
  then have "gather_loop m arr js (?n, put_bytes buf n ?bs) = (st, n', buf')"
    using Cons.prems(1) by (simp add: Let_def JINUE_MAX_MESSAGE_SIZE_def)
  moreover have "length (put_bytes buf n ?bs) = 2048"
    using Cons.prems ok by (simp add: length_put_bytes)
  moreover have "?n \<le> 2048"
    using ok(2) Cons.prems(3) by simp
  ultimately have "n' = ?n + total_size m arr js \<and>
      take n' buf' = take ?n (put_bytes buf n ?bs) @ gathered m arr js \<and>
      (\<forall>i \<in> set js. check_userspace_buffer (buffer_addr m arr i) (buffer_size m arr i))"
    using Cons.IH [of ?n "put_bytes buf n ?bs"] Cons.prems(2) by blast
  moreover have "take ?n (put_bytes buf n ?bs) = take n buf @ ?bs"
    using take_put_bytes [of n buf ?bs] Cons.prems(3,4) by simp
  ultimately show ?case
    using ok by auto
qed

section \<open>Scattering\<close>

lemma scatter_loop_kernel_untouched:
  assumes "scatter_loop content arr idxs pos m = (st, m')" and "is_kernel_pointer x"
  shows "m' x = m x"
  using assms(1)
proof (induction idxs arbitrary: pos m)
  case Nil
  then show ?case by simp
next
  case (Cons i js)
  define w where "w = (if length content - pos < unat (buffer_size m arr i)
    then length content - pos else unat (buffer_size m arr i))"
  show ?case
  proof (cases "length content - pos = 0 \<or>
      \<not> check_userspace_buffer (buffer_addr m arr i) (buffer_size m arr i)")
    case True
    then show ?thesis
      using Cons.prems by (auto simp: Let_def split: if_splits)
  next
    case False
    let ?bs = "take w (drop pos content)"
    have "scatter_loop content arr js (pos + w) (write_bytes m (buffer_addr m arr i) ?bs) = (st, m')"
      using Cons.prems False by (auto simp: Let_def w_def)
    then have "m' x = write_bytes m (buffer_addr m arr i) ?bs x"
      by (rule Cons.IH)
    also have "\<dots> = m x"
    proof (rule write_bytes_other)
      show "x \<notin> region (buffer_addr m arr i) (length ?bs)"
        using region_user [of "buffer_addr m arr i" "buffer_size m arr i" x "length ?bs"]
          False assms(2) by (auto simp: not_kernel_user w_def)
    qed
    finally show ?thesis .
  qed
qed

text \<open>
  Receive buffers that overlap neither one another nor the array that describes them,
  which is the caller's responsibility.
\<close>

definition buf_region :: "(u32 \<Rightarrow> u8) \<Rightarrow> u32 \<Rightarrow> nat \<Rightarrow> u32 set" where
  "buf_region m arr i = region (buffer_addr m arr i) (unat (buffer_size m arr i))"

definition entry_region :: "u32 \<Rightarrow> nat \<Rightarrow> u32 set" where
  "entry_region arr i = region (arr + 8 * of_nat i) 8"

fun separate :: "(u32 \<Rightarrow> u8) \<Rightarrow> u32 \<Rightarrow> nat list \<Rightarrow> bool" where
  "separate m arr [] = True"
| "separate m arr (i # js) =
     ((\<forall>j \<in> set js. buf_region m arr i \<inter> buf_region m arr j = {} \<and>
        buf_region m arr i \<inter> entry_region arr j = {} \<and>
        buf_region m arr j \<inter> entry_region arr i = {}) \<and>
      buf_region m arr i \<inter> entry_region arr i = {} \<and> separate m arr js)"

lemma entry_halves:
  "region (arr + 8 * of_nat i) 4 \<subseteq> entry_region arr i"
  "region (arr + 8 * of_nat i + 4) 4 \<subseteq> entry_region arr i"
proof -
  show "region (arr + 8 * of_nat i) 4 \<subseteq> entry_region arr i"
    unfolding entry_region_def by (rule region_mono) simp
  show "region (arr + 8 * of_nat i + 4) 4 \<subseteq> entry_region arr i"
  proof
    fix x
    assume "x \<in> region (arr + 8 * of_nat i + 4) 4"
    then obtain k where "k < 4" "x = arr + 8 * of_nat i + 4 + of_nat k"
      by (auto simp: region_image)
    then have "x = arr + 8 * of_nat i + of_nat (k + 4)" "k + 4 < 8"
      by simp_all
    then show "x \<in> entry_region arr i"
      unfolding entry_region_def region_image by blast
  qed
qed

lemma buffer_entry_cong:
  assumes "\<And>x. x \<in> entry_region arr i \<Longrightarrow> m x = m' x"
  shows "buffer_addr m arr i = buffer_addr m' arr i" "buffer_size m arr i = buffer_size m' arr i"
proof -
  show "buffer_addr m arr i = buffer_addr m' arr i"
    unfolding buffer_addr_def by (rule read_u32_cong) (use assms entry_halves(1) in blast)
  show "buffer_size m arr i = buffer_size m' arr i"
    unfolding buffer_size_def by (rule read_u32_cong) (use assms entry_halves(2) in blast)
qed

lemma separate_cong:
  assumes "\<And>i x. i \<in> set idxs \<Longrightarrow> x \<in> entry_region arr i \<Longrightarrow> m x = m' x"
  shows "separate m arr idxs = separate m' arr idxs"
  using assms
proof (induction idxs)
  case Nil
  then show ?case by simp
next
  case (Cons i js)
  have "buf_region m arr j = buf_region m' arr j" if "j \<in> set (i # js)" for j
    using buffer_entry_cong [of arr j m m'] Cons.prems that by (simp add: buf_region_def)
  moreover have "separate m arr js = separate m' arr js"
    by (rule Cons.IH) (use Cons.prems in auto)
  ultimately show ?case
    by simp
qed

lemma separate_write:
  assumes "separate m arr (i # js)"
    and "\<And>x. x \<notin> buf_region m arr i \<Longrightarrow> m1 x = m x"
  shows "separate m1 arr js"
    and "\<And>j. j \<in> set js \<Longrightarrow> buf_region m1 arr j = buf_region m arr j"
    and "\<And>x. x \<in> entry_region arr i \<Longrightarrow> m1 x = m x"
    and "total_size m1 arr js = total_size m arr js"
proof -
  have same: "m1 x = m x" if "j \<in> set (i # js)" "x \<in> entry_region arr j" for j x
    using assms that by auto
  from same [of i] show "\<And>x. x \<in> entry_region arr i \<Longrightarrow> m1 x = m x"
    by simp
  have entry: "buffer_addr m1 arr j = buffer_addr m arr j" "buffer_size m1 arr j = buffer_size m arr j"
    if "j \<in> set js" for j
    using buffer_entry_cong [of arr j m1 m] same that by auto
  then show "\<And>j. j \<in> set js \<Longrightarrow> buf_region m1 arr j = buf_region m arr j"
    by (simp add: buf_region_def)
  show "total_size m1 arr js = total_size m arr js"
    using entry(2) by (simp add: total_size_def cong: map_cong)
  have "separate m1 arr js = separate m arr js"
    by (rule separate_cong) (use same in auto)
  then show "separate m1 arr js"
    using assms(1) by simp
qed

lemma scatter_loop_success:
  assumes "scatter_loop content arr idxs pos m = (st, m')" and "0 \<le> st"
    and "separate m arr idxs" and "pos \<le> length content"
  shows "(\<forall>x. (\<forall>i \<in> set idxs. x \<notin> buf_region m arr i) \<longrightarrow> m' x = m x) \<and>
    take (length content - pos) (gathered m' arr idxs) =
      take (total_size m arr idxs) (drop pos content)"
  using assms
proof (induction idxs arbitrary: pos m)
  case Nil
  then show ?case by simp
next
  case (Cons i js)
  let ?a = "buffer_addr m arr i" and ?n = "unat (buffer_size m arr i)"
  define rem where "rem = length content - pos"
  show ?case
  proof (cases "rem = 0")
    case True
    then show ?thesis
      using Cons.prems by (auto simp: Let_def rem_def)
  next
    case False
    define w where "w = (if rem < ?n then rem else ?n)"
    define bs where "bs = take w (drop pos content)"
    define m1 where "m1 = write_bytes m ?a bs"
    have len: "length bs = w" "w \<le> rem" "w \<le> ?n"
      by (auto simp: bs_def w_def rem_def)
    have step: "scatter_loop content arr js (pos + w) m1 = (st, m')"
      using Cons.prems(1,2) False
      by (auto simp: Let_def w_def rem_def bs_def m1_def errno_defs split: if_splits)
    have m1_other: "m1 x = m x" if "x \<notin> buf_region m arr i" for x
      unfolding m1_def
      by (rule write_bytes_other) (use that region_mono [OF len(3)] len(1) in \<open>auto simp: buf_region_def\<close>)
    note sep = separate_write [OF Cons.prems(3) m1_other, simplified]
    have IH: "(\<forall>x. (\<forall>j \<in> set js. x \<notin> buf_region m1 arr j) \<longrightarrow> m' x = m1 x) \<and>
        take (length content - (pos + w)) (gathered m' arr js) =
          take (total_size m1 arr js) (drop (pos + w) content)"
      by (rule Cons.IH [OF step Cons.prems(2) sep(1)]) (use len(2) rem_def Cons.prems(4) in linarith)
    have frame: "m' x = m1 x" if "\<forall>j \<in> set js. x \<notin> buf_region m arr j" for x
      using IH that sep(2) by simp
    have entry: "buffer_addr m' arr i = ?a" "buffer_size m' arr i = buffer_size m arr i"
      using buffer_entry_cong [of arr i m' m] frame sep(3) Cons.prems(3) by force+
    have "read_bytes m' ?a w = read_bytes m1 ?a w"
    proof (rule read_bytes_cong)
      fix x
      assume "x \<in> region ?a w"
      then have "x \<in> buf_region m arr i"
        using region_mono [OF len(3)] by (auto simp: buf_region_def)
      then show "m' x = m1 x"
        using Cons.prems(3) by (intro frame) auto
    qed
    also have "\<dots> = bs"
      using write_bytes_read [of bs m ?a] len unat_u32_less [of "buffer_size m arr i"]
      by (simp add: m1_def)
    finally have first: "read_bytes m' ?a w = bs" .
    have "take rem (gathered m' arr (i # js)) = take (?n + total_size m arr js) (drop pos content)"
    proof (cases "rem < ?n")
      case True
      then have "take rem (read_bytes m' ?a ?n) = drop pos content"
        using first read_bytes_take [of rem ?n m' ?a] by (simp add: w_def bs_def rem_def)
      then show ?thesis
        using True by (simp add: entry rem_def)
    next
      case False
      then have w: "w = ?n" by (simp add: w_def)
      then have "take rem (gathered m' arr (i # js)) = bs @ take (rem - w) (gathered m' arr js)"
        using first len(1,2) by (simp add: entry)
      also have "rem - w = length content - (pos + w)"
        by (simp add: rem_def)
      also have "take \<dots> (gathered m' arr js) = take (total_size m arr js) (drop (pos + w) content)"
        using IH sep(4) by simp
      finally show ?thesis
        by (metis bs_def w take_add drop_drop add.commute)
    qed
    moreover have "m' x = m x" if "\<forall>j \<in> set (i # js). x \<notin> buf_region m arr j" for x
      using that frame m1_other by simp
    ultimately show ?thesis
      by (auto simp: rem_def)
  qed
qed

section \<open>Accesses stay in user memory\<close>

text \<open>Two memories that agree on user addresses.\<close>

definition same_user :: "(u32 \<Rightarrow> u8) \<Rightarrow> (u32 \<Rightarrow> u8) \<Rightarrow> bool" where
  "same_user m m' \<longleftrightarrow> (\<forall>x. is_userspace_pointer x \<longrightarrow> m x = m' x)"

definition user_entries :: "u32 \<Rightarrow> nat list \<Rightarrow> bool" where
  "user_entries arr idxs \<longleftrightarrow> (\<forall>i \<in> set idxs. \<forall>x \<in> entry_region arr i. is_userspace_pointer x)"

lemma user_entries_simps [simp]:
  "user_entries arr []"
  "user_entries arr (i # js) \<longleftrightarrow>
     (\<forall>x \<in> entry_region arr i. is_userspace_pointer x) \<and> user_entries arr js"
  by (auto simp: user_entries_def)

text \<open>
  The size of the array is computed in 32 bits and may wrap around, but not for a
  length that is within the limit on the number of buffers.
\<close>

lemma array_check_user_entries:
  assumes "check_userspace_buffer arr (len * 8)" and "len \<le> JINUE_MAX_BUFFERS_IN_ARRAY"
  shows "user_entries arr [0..<unat len]"
proof -
  have len: "unat len \<le> 256"
    using assms(2) by (simp add: JINUE_MAX_BUFFERS_IN_ARRAY_def word_le_nat_alt)
  then have sz: "unat (len * 8) = unat len * 8"
    by (simp add: unat_word_ariths)
  have "entry_region arr i \<subseteq> region arr (unat (len * 8))" if "i < unat len" for i
  proof
    fix x
    assume "x \<in> entry_region arr i"
    then obtain k where "k < 8" "x = arr + of_nat (8 * i + k)"
      by (auto simp: entry_region_def region_image algebra_simps)
    then show "x \<in> region arr (unat (len * 8))"
      unfolding region_image
      by (intro image_eqI [where x = "8 * i + k"]) (use that sz in simp_all)
  qed
  then show ?thesis
    using region_user [OF assms(1)] by (fastforce simp: user_entries_def)
qed

lemma same_user_entry:
  assumes "same_user m m'" and "\<forall>x \<in> entry_region arr i. is_userspace_pointer x"
  shows "buffer_addr m arr i = buffer_addr m' arr i" "buffer_size m arr i = buffer_size m' arr i"
  using buffer_entry_cong [of arr i m m'] assms by (auto simp: same_user_def)

lemma same_user_read:
  assumes "same_user m m'" and "check_userspace_buffer a n" and "k \<le> unat n"
  shows "read_bytes m a k = read_bytes m' a k"
  by (rule read_bytes_cong) (use assms region_user in \<open>auto simp: same_user_def\<close>)

lemma same_user_write: "same_user m m' \<Longrightarrow> same_user (write_bytes m a bs) (write_bytes m' a bs)"
  by (induction bs arbitrary: m m' a) (auto simp: same_user_def)

lemma gather_loop_same_user:
  assumes "same_user m m'" and "user_entries arr idxs"
  shows "gather_loop m arr idxs st = gather_loop m' arr idxs st"
  using assms(2)
proof (induction idxs arbitrary: st)
  case (Cons i js)
  then show ?case
    using same_user_entry [OF assms(1), of arr i] same_user_read [OF assms(1) _ order_refl]
    by (auto simp: Let_def split: prod.split)
qed simp

lemma recv_size_loop_same_user:
  assumes "same_user m m'" and "user_entries arr idxs"
  shows "recv_size_loop m arr idxs acc = recv_size_loop m' arr idxs acc"
  using assms(2)
proof (induction idxs arbitrary: acc)
  case (Cons i js)
  then show ?case
    using same_user_entry [OF assms(1), of arr i] by (simp add: Let_def)
qed simp

lemma scatter_loop_same_user:
  assumes "same_user m m'" and "user_entries arr idxs"
  shows "fst (scatter_loop content arr idxs pos m) = fst (scatter_loop content arr idxs pos m') \<and>
    same_user (snd (scatter_loop content arr idxs pos m)) (snd (scatter_loop content arr idxs pos m'))"
  using assms
proof (induction idxs arbitrary: pos m m')
  case (Cons i js)
  then show ?case
    using same_user_entry [OF Cons.prems(1), of arr i] by (simp add: Let_def same_user_write)
qed simp

lemma gather_loop_status:
  assumes "n \<le> 2048"
  shows "fst (gather_loop m arr idxs (n, buf)) =
    (if list_all (\<lambda>i. check_userspace_buffer (buffer_addr m arr i) (buffer_size m arr i)) idxs \<and>
        n + total_size m arr idxs \<le> 2048 then 0 else - JINUE_EINVAL)"
  using assms
proof (induction idxs arbitrary: n buf)
  case (Cons i js)
  show ?case
  proof (cases "check_userspace_buffer (buffer_addr m arr i) (buffer_size m arr i) \<and>
      unat (buffer_size m arr i) \<le> 2048 - n")
    case True
    then show ?thesis
      using Cons.prems by (subst gather_loop.simps) (auto simp: Let_def JINUE_MAX_MESSAGE_SIZE_def Cons.IH)
  next
    case False
    then show ?thesis
      by (auto simp: Let_def JINUE_MAX_MESSAGE_SIZE_def)
  qed
qed simp

lemma scatter_loop_status:
  assumes "separate m arr idxs" and "pos \<le> length content"
    and "\<forall>i \<in> set idxs. check_userspace_buffer (buffer_addr m arr i) (buffer_size m arr i)"
  shows "fst (scatter_loop content arr idxs pos m) = 0"
  using assms
proof (induction idxs arbitrary: pos m)
  case (Cons i js)
  let ?n = "unat (buffer_size m arr i)"
  define w where "w = (if length content - pos < ?n then length content - pos else ?n)"
  let ?m = "write_bytes m (buffer_addr m arr i) (take w (drop pos content))"
  have w: "w \<le> ?n" "pos + w \<le> length content"
    using Cons.prems(2) by (auto simp: w_def)
  have other: "?m x = m x" if "x \<notin> buf_region m arr i" for x
    by (rule write_bytes_other)
      (use that region_mono [OF w(1)] w(2) in \<open>auto simp: buf_region_def\<close>)
  have "buffer_addr ?m arr j = buffer_addr m arr j" "buffer_size ?m arr j = buffer_size m arr j"
    if "j \<in> set js" for j
    using buffer_entry_cong [of arr j ?m m] other that Cons.prems(1) by force+
  then have "fst (scatter_loop content arr js (pos + w) ?m) = 0"
    using Cons.prems(3) w(2) by (intro Cons.IH separate_write(1) [OF Cons.prems(1) other]) simp_all
  then show ?case
    using Cons.prems(3) by (simp add: Let_def w_def)
qed simp

section \<open>Properties\<close>

text \<open>The messages that can be gathered: the conditions of the loop of \<open>gather_message\<close>.\<close>

definition gatherable :: "(u32 \<Rightarrow> u8) \<Rightarrow> jinue_message \<Rightarrow> bool" where
  "gatherable m msg \<longleftrightarrow>
     (let idxs = [0..<unat (send_buffers_length msg)]; arr = send_buffers msg
      in send_buffers_length msg \<le> JINUE_MAX_BUFFERS_IN_ARRAY \<and>
         list_all (\<lambda>i. check_userspace_buffer (buffer_addr m arr i) (buffer_size m arr i)) idxs \<and>
         total_size m arr idxs \<le> JINUE_MAX_MESSAGE_SIZE)"

definition sent_content :: "(u32 \<Rightarrow> u8) \<Rightarrow> jinue_message \<Rightarrow> u8 list" where
  "sent_content m msg = gathered m (send_buffers msg) [0..<unat (send_buffers_length msg)]"

definition received_content :: "(u32 \<Rightarrow> u8) \<Rightarrow> jinue_message \<Rightarrow> u8 list" where
  "received_content m msg = gathered m (recv_buffers msg) [0..<unat (recv_buffers_length msg)]"

text \<open>A memory with an array of one three-byte buffer, for the examples below.\<close>

definition demo_mem :: "u32 \<Rightarrow> u8" where
  "demo_mem = write_u32 (write_u32 (\<lambda>x. if x < 65 then 7 else 9) 16 64) 20 3"

definition demo_msg :: jinue_message where
  "demo_msg = \<lparr>send_buffers = 16, send_buffers_length = 1, recv_buffers = 16,
     recv_buffers_length = 1, recv_function = 0, recv_cookie = 0, reply_max_size = 0\<rparr>"

lemma demo_message:
  "gatherable demo_mem demo_msg" "sent_content demo_mem demo_msg = [7, 9, 9]"
  "check_send_buffers demo_msg" "check_recv_buffers demo_msg"
  "recv_buffers_length demo_msg \<le> JINUE_MAX_BUFFERS_IN_ARRAY"
  "separate demo_mem (recv_buffers demo_msg) [0..<unat (recv_buffers_length demo_msg)]"
  "get_receive_buffers_size demo_mem demo_msg = Inr 3"
  by code_simp+

text \<open>
  Claim C10. Gathering a message succeeds exactly when there are at most 256 send
  buffers, all of them lie in user space and their sizes add up to at most 2048. It
  then leaves the concatenation of the buffers at the start of the 2048-byte message
  buffer of the thread. Otherwise it fails with \<open>EINVAL\<close>. The message buffer is never
  overrun.
\<close>

theorem gather_correct:
  assumes "length buf = JINUE_MAX_MESSAGE_SIZE"
  shows "case gather m msg buf of (status, n, buf') \<Rightarrow>
    status = (if gatherable m msg then 0 else - JINUE_EINVAL) \<and>
    (gatherable m msg \<longrightarrow> take n buf' = sent_content m msg) \<and>
    n \<le> JINUE_MAX_MESSAGE_SIZE \<and> length buf' = JINUE_MAX_MESSAGE_SIZE"
proof -
  obtain status n buf' where g: "gather m msg buf = (status, n, buf')"
    by (metis prod_cases3)
  show ?thesis
  proof (cases "send_buffers_length msg \<le> JINUE_MAX_BUFFERS_IN_ARRAY")
    case True
    let ?idxs = "[0..<unat (send_buffers_length msg)]"
    have loop: "gather_loop m (send_buffers msg) ?idxs (0, buf) = (status, n, buf')"
      using g True by (simp add: gather_def leD)
    have st: "status = (if gatherable m msg then 0 else - JINUE_EINVAL)"
      using gather_loop_status [of 0 m "send_buffers msg" ?idxs buf] loop True
      by (simp add: gatherable_def JINUE_MAX_MESSAGE_SIZE_def Let_def)
    show ?thesis
      using g st gather_loop_length [OF loop] gather_loop_success [OF loop] assms
      by (auto simp: sent_content_def JINUE_MAX_MESSAGE_SIZE_def)
  next
    case False
    then show ?thesis
      using g assms by (auto simp: gather_def gatherable_def Let_def not_le)
  qed
qed

theorem gather_correct_witness:
  "case gather demo_mem demo_msg (replicate 2048 0) of (status, n, buf') \<Rightarrow>
     status = 0 \<and> take n buf' = [7, 9, 9]"
  using gather_correct [of "replicate 2048 0" demo_mem demo_msg] demo_message(1,2)
  by (auto simp: JINUE_MAX_MESSAGE_SIZE_def split: prod.splits)

text \<open>
  Claim C11. The size of the receive buffers is the sum of their sizes clamped to the
  maximum message size, provided there are at most 256 of them, none is larger than
  64 MB and all lie in user space; otherwise the result is \<open>EINVAL\<close>. The 32-bit sum
  never wraps around.
\<close>

theorem get_receive_buffers_size_correct:
  "get_receive_buffers_size m msg =
    (let idxs = [0..<unat (recv_buffers_length msg)]
     in if recv_buffers_length msg \<le> JINUE_MAX_BUFFERS_IN_ARRAY \<and>
           list_all (recv_buffer_ok m (recv_buffers msg)) idxs
        then Inr (of_nat (min JINUE_MAX_MESSAGE_SIZE (total_size m (recv_buffers msg) idxs)))
        else Inl (- JINUE_EINVAL))"
  by (auto simp: get_receive_buffers_size_def recv_size_loop_result JINUE_MAX_MESSAGE_SIZE_def
      list_all_iff Let_def)

text \<open>
  Claim C12. Once the array of send buffers passed the check of the system call,
  gathering reads nothing but user memory: its result is the same for any two
  memories that agree on user addresses, although the size of the array in the check is
  computed modulo \<open>2 ^ 32\<close>. The same holds for the computation of the size of the
  receive buffers.
\<close>

theorem gather_reads_only_user_memory:
  assumes "check_send_buffers msg" and "check_recv_buffers msg" and "same_user m m'"
  shows "gather m msg buf = gather m' msg buf \<and>
    get_receive_buffers_size m msg = get_receive_buffers_size m' msg"
proof -
  have "gather m msg buf = gather m' msg buf"
    using gather_loop_same_user [OF assms(3) array_check_user_entries] assms(1)
    by (auto simp: gather_def check_send_buffers_def leI)
  moreover have "get_receive_buffers_size m msg = get_receive_buffers_size m' msg"
    using recv_size_loop_same_user [OF assms(3) array_check_user_entries] assms(2)
    by (auto simp: get_receive_buffers_size_def check_recv_buffers_def leI)
  ultimately show ?thesis ..
qed

theorem gather_reads_only_user_memory_witness:
  "gather demo_mem demo_msg [] = gather (demo_mem(0xffffffff := 1)) demo_msg []"
proof -
  have "same_user demo_mem (demo_mem(0xffffffff := 1))"
    by (auto simp: same_user_def is_userspace_pointer_def JINUE_KLIMIT_def)
  then show ?thesis
    using gather_reads_only_user_memory [of demo_msg demo_mem "demo_mem(0xffffffff := 1)" "[]"]
      demo_message by simp
qed

text \<open>
  Claim C13. Scattering a message writes only user memory, whatever the receive buffers
  are, and with a checked array of receive buffers it reads only user memory as well.
\<close>

theorem scatter_confined_to_user_memory:
  assumes "check_recv_buffers msg" and "recv_buffers_length msg \<le> JINUE_MAX_BUFFERS_IN_ARRAY"
    and "same_user m m'" and "is_kernel_pointer x"
  shows "snd (scatter content msg m) x = m x \<and>
    fst (scatter content msg m) = fst (scatter content msg m') \<and>
    same_user (snd (scatter content msg m)) (snd (scatter content msg m'))"
proof -
  have "user_entries (recv_buffers msg) [0..<unat (recv_buffers_length msg)]"
    using assms(1,2) by (simp add: check_recv_buffers_def array_check_user_entries)
  then show ?thesis
    using scatter_loop_same_user [OF assms(3)] scatter_loop_kernel_untouched [OF _ assms(4)]
    by (metis scatter_def prod.collapse)
qed

theorem scatter_confined_to_user_memory_witness:
  "snd (scatter [1, 2] demo_msg demo_mem) 0xffffffff = demo_mem 0xffffffff"
proof -
  have "is_kernel_pointer 0xffffffff"
    by (simp add: is_kernel_pointer_def JINUE_KLIMIT_def)
  then show ?thesis
    using scatter_confined_to_user_memory [of demo_msg demo_mem demo_mem "0xffffffff" "[1, 2]"]
      demo_message by (simp add: same_user_def)
qed

text \<open>
  Claim C14. A message arrives unchanged. If the sender's message was gathered
  successfully, and it fits the receive size computed for the receiver, and the
  receiver's buffers overlap neither one another nor the array that describes them,
  then scattering succeeds and the first bytes of the receiver's buffers, taken in order,
  are the contents of the sender's buffers.
\<close>

theorem message_round_trip:
  assumes "gather m msg buf = (0, n, buf')" and "length buf = JINUE_MAX_MESSAGE_SIZE"
    and "get_receive_buffers_size mr rmsg = Inr rsize" and "n \<le> unat rsize"
    and "separate mr (recv_buffers rmsg) [0..<unat (recv_buffers_length rmsg)]"
  shows "\<exists>mr'. scatter (take n buf') rmsg mr = (0, mr') \<and>
    take n (received_content mr' rmsg) = sent_content m msg"
proof -
  let ?idxs = "[0..<unat (recv_buffers_length rmsg)]"
  have sent: "take n buf' = sent_content m msg" "n \<le> length buf'"
    using assms(1,2) gather_loop_success [of m "send_buffers msg" _ 0 buf 0 n buf']
      gather_loop_length [of m "send_buffers msg" _ 0 buf 0 n buf']
    by (auto simp: gather_def sent_content_def JINUE_MAX_MESSAGE_SIZE_def errno_defs
        split: if_splits)
  have size_ok: "rsize = of_nat (min 2048 (total_size mr (recv_buffers rmsg) ?idxs))"
      "\<forall>i \<in> set ?idxs. recv_buffer_ok mr (recv_buffers rmsg) i"
    using assms(3) by (auto simp: get_receive_buffers_size_def recv_size_loop_result split: if_splits)
  have "unat rsize = min 2048 (total_size mr (recv_buffers rmsg) ?idxs)"
    by (simp add: size_ok(1) unat_of_nat take_bit_nat_eq_self)
  then have fits: "n \<le> total_size mr (recv_buffers rmsg) ?idxs"
    using assms(4) by simp
  obtain mr' where mr': "scatter (take n buf') rmsg mr = (0, mr')"
    using scatter_loop_status [OF assms(5), of 0 "take n buf'"] size_ok(2)
    by (metis scatter_def prod.collapse le0 recv_buffer_ok_def)
  then have "take n (received_content mr' rmsg) = take n buf'"
    using scatter_loop_success [of "take n buf'" "recv_buffers rmsg" ?idxs 0 mr 0 mr'] assms(5) fits
      sent(2) by (simp add: scatter_def received_content_def)
  then show ?thesis
    using mr' sent(1) by simp
qed

theorem message_round_trip_witness:
  "\<exists>mr'. scatter [7, 9, 9] demo_msg demo_mem = (0, mr') \<and>
    take 3 (received_content mr' demo_msg) = [7, 9, 9]"
proof -
  have "buffer_addr demo_mem 16 0 = 64" "buffer_size demo_mem 16 0 = 3"
      "read_bytes demo_mem 64 3 = [7, 9, 9]" "check_userspace_buffer 64 3"
    by code_simp+
  then have "gather demo_mem demo_msg (replicate 2048 0) = (0, 3, [7, 9, 9] @ replicate 2045 0)"
    by (simp add: gather_def demo_msg_def JINUE_MAX_BUFFERS_IN_ARRAY_def JINUE_MAX_MESSAGE_SIZE_def
        put_bytes_def)
  from message_round_trip [OF this, where mr = demo_mem and rmsg = demo_msg and rsize = 3] show ?thesis
    using demo_message by (simp add: JINUE_MAX_MESSAGE_SIZE_def)
qed

end
