(* ===== verification/Blocking.thy ===== *)
theory Blocking
  imports Lifecycle IpcProps
begin

unbundle bit_operations_syntax

text \<open>
  The operations that block keep the invariant: waiting for a thread, sending,
  receiving and replying to a message, in both halves, before the switch and after the
  thread is resumed.
\<close>

declare live.simps [simp del]

section \<open>The calling thread\<close>

text \<open>Changes of the current thread or of another one that the invariant does not see.\<close>

lemma incall_set_thr_same:
  assumes "incall n D s" and "live s (ThreadRef t)" and "thread_same (thr s t) x"
  shows "incall n D (set_thr t x s)" "keeps s (set_thr t x s)"
proof -
  have "kinv D (\<lambda>_. 0) (\<lambda>_. 0) (Some (current s)) (set_thr t x s)"
    by (rule kinv_set_thr_same [OF incallD(2) [OF assms(1)] assms(2,3)])
  then show "incall n D (set_thr t x s)"
    by (rule incall_same [OF assms(1)]) (use assms(3) in \<open>auto simp: thread_same_def\<close>)
  show "keeps s (set_thr t x s)"
    using assms(3) by (simp add: keeps_def thread_same_def)
qed

lemma incall_umem:
  assumes "incall n D s"
  shows "incall n D (s\<lparr>umem := m\<rparr>)" "keeps s (s\<lparr>umem := m\<rparr>)"
  using assms by (simp_all add: incall_def in_kernel_def keeps_def)

lemma active_memory_eq [simp]:
  "incall n D s \<Longrightarrow> active_memory s = Inr (umem s (t_process (thr s (current s))))"
  "incall n D s \<Longrightarrow> set_active_memory m s = Inr (s\<lparr>umem := (umem s)(t_process (thr s (current s)) := m)\<rparr>)"
  using incallD(10) [of n D s]
  by (simp_all add: active_memory_def set_active_memory_def active_process_def nonnull_def)

lemma recv_fine_user: "t_kont x = K_user \<Longrightarrow> recv_fine x"
  by (simp add: recv_fine_def)

text \<open>Stopping the current thread commutes with changes of other objects.\<close>

lemma stopped_set_ept:
  "stopped st k (set_ept e z s) = set_ept e z (stopped st k s)"
  by (simp add: stopped_def set_ept_def set_thr_def)

lemma stopped_set_thr:
  "t \<noteq> current s \<Longrightarrow> stopped st k (set_thr t x s) = set_thr t x (stopped st k s)"
  by (simp add: stopped_def set_thr_def fun_upd_twist)

lemma loose_stopped:
  assumes "loose s t" and "live s (ThreadRef (current s))" and "t \<noteq> current s"
    and "started s (current s)" and "is_started st"
  shows "loose (stopped st k s) t"
proof -
  have "started (stopped st k s) q = started s q" for q
    using assms(2,4,5) by (simp add: stopped_def)
  moreover have "t_sender (thr (stopped st k s) q) = t_sender (thr s q)"
      "t_awaiter (thr (stopped st k s) q) = t_awaiter (thr s q)" for q
    by (simp_all add: stopped_def)
  ultimately show ?thesis
    using assms(1,2,3) by (simp add: loose_def)
qed

lemma loose_relinked:
  assumes "loose s r" and "live s (ThreadRef t)" and "v \<noteq> Some r"
  shows "loose (set_thr t ((thr s t)\<lparr>t_sender := v\<rparr>) s) r"
proof -
  let ?s = "set_thr t ((thr s t)\<lparr>t_sender := v\<rparr>) s"
  have "started ?s q = started s q" for q
    using assms(2) by (auto simp: started_def)
  then show ?thesis
    using assms unfolding loose_def by auto
qed

section \<open>Waiting for a thread\<close>

lemma kinv_stopped_awaiter:
  assumes "kinv D V R r (stopped THREAD_STATE_BLOCKED (K_await d) s)"
    and "live s (ThreadRef t)" and "live s (ThreadRef (current s))" and "t \<noteq> current s"
    and "d_object d = Some (ThreadRef t)"
  shows "kinv D V R r (stopped THREAD_STATE_BLOCKED (K_await d)
    (set_thr t ((thr s t)\<lparr>t_awaiter := Some (current s)\<rparr>) s))"
proof -
  let ?s = "stopped THREAD_STATE_BLOCKED (K_await d) s"
  have k: "awaiting ?s (current s) t"
    using assms(3,5) by (simp add: awaiting_def)
  have "kinv D V R r (set_thr t ((thr ?s t)\<lparr>t_awaiter := Some (current s)\<rparr>) ?s)"
  proof (rule kinv_set_links [OF assms(1)])
    show "(thr ?s t)\<lparr>t_awaiter := Some (current s)\<rparr> =
        (thr ?s t)\<lparr>t_sender := t_sender (thr ?s t), t_awaiter := Some (current s)\<rparr>"
      by simp
    note q = queuesD(4) [OF kinvD(3) [OF assms(1)]]
    show "\<exists>e. sending ?s sd e \<and> sd \<notin> set (send_list (ept ?s e))"
        if "started ?s t" "t_sender (thr ?s t) = Some sd" for sd
      by (rule q_senderD(1) [OF q that])
    show "t_sender (thr ?s q) \<noteq> Some sd"
        if "started ?s t" "t_sender (thr ?s t) = Some sd" "started ?s q" "q \<noteq> t" for sd q
      using q_senderD(2) [OF \<open>q_sender ?s\<close> that(1,2,3)] that(4) by blast
    show "awaiting ?s q t" if "Some (current s) = Some q" for q
      using k that by simp
  qed (use assms(2,3) in \<open>simp_all add: recv_fine_def\<close>)
  then show ?thesis
    using assms(4) by (simp add: stopped_set_thr)
qed

text \<open>After a switch: the new current thread may be anywhere in the kernel.\<close>

definition switched :: "nat \<Rightarrow> (obj_ref \<Rightarrow> int) \<Rightarrow> kstate \<Rightarrow> bool" where
  "switched n D s \<longleftrightarrow> in_kernel D s \<and> card (dom (processes s)) \<le> n"

lemma incall_switched: "incall n D s \<Longrightarrow> switched n D s"
  by (simp add: incall_def switched_def)

lemma block_kinv:
  assumes "incall n D s" and "kont_ok k" and "kont_obj k = Some o'" and "1 \<le> D o'"
  shows "kinv (D(o' := D o' - 1)) (\<lambda>_. 0) (\<lambda>_. 0) None (stopped THREAD_STATE_BLOCKED k s)"
  by (rule kinv_blocked) (use assms incallD [OF assms(1)] in simp_all)

lemma block_ok:
  assumes "incall n D0 s" and "kinv D (\<lambda>_. 0) (\<lambda>_. 0) None (stopped THREAD_STATE_BLOCKED k s')"
    and "live s' (ThreadRef (current s))" and "current s' = current s"
    and "address_space s' = address_space s"
    and "t_process (thr s' (current s)) = t_process (thr s (current s))"
    and "dom (processes s') = dom (processes s)"
  shows "outcome no_thread (block_current_thread_and_unlock k s') (switched n D)"
proof -
  have "outcome no_thread (block_current_thread_and_unlock k s')
      (\<lambda>s''. in_kernel D s'' \<and> dom (processes s'') = dom (processes s'))"
    by (rule block_current_ok [OF assms(2)]) (use assms incallD(10) [OF assms(1)] in simp_all)
  then show ?thesis
    by (rule outcome_weaken) (use assms(1,7) in \<open>simp add: switched_def incall_def\<close>)
qed

lemma thread_await_ok:
  assumes "incall n D s" and "d_object d = Some (ThreadRef t)" and "1 \<le> D (ThreadRef t)"
  shows "outcome no_thread (thread_await d t s) (\<lambda>(c, s'). case c of
      Ret _ \<Rightarrow> incall n D s' \<and> keeps s s'
    | Switched \<Rightarrow> switched n (D(ThreadRef t := D (ThreadRef t) - 1)) s')"
proof (cases "t = current s")
  case True
  then show ?thesis
    using assms(1) by (simp add: thread_await_def)
next
  case False
  note k = incallD(2) [OF assms(1)]
  have live: "live s (ThreadRef t)"
    using acct_debt_live [OF incallD(5) [OF assms(1)]] assms(3) by simp
  define s1 where "s1 = set_thr t ((thr s t)\<lparr>t_awaiter := Some (current s)\<rparr>) s"
  have "incall n D s1 \<and> keeps s s1" if "t_state (thr s t) = THREAD_STATE_ZOMBIE"
  proof
    have "kinv D (\<lambda>_. 0) (\<lambda>_. 0) (Some (current s)) s1"
      unfolding s1_def
      by (rule kinv_set_thr_idle [OF k live])
        (use that wf_thread [OF incallD(4) [OF assms(1)] live] in \<open>simp_all add: started_def is_started_def\<close>)
    then show "incall n D s1"
      by (rule incall_same [OF assms(1)]) (use False live in \<open>simp_all add: s1_def\<close>)
    show "keeps s s1"
      using False by (simp add: s1_def keeps_def)
  qed
  moreover have "outcome no_thread (block_current_thread_and_unlock (K_await d) s1)
      (switched n (D(ThreadRef t := D (ThreadRef t) - 1)))"
  proof (rule block_ok [OF assms(1)])
    have "kinv (D(ThreadRef t := D (ThreadRef t) - 1)) (\<lambda>_. 0) (\<lambda>_. 0) None
        (stopped THREAD_STATE_BLOCKED (K_await d) s)"
      by (rule block_kinv [OF assms(1)]) (use assms(2,3) in simp_all)
    then show "kinv (D(ThreadRef t := D (ThreadRef t) - 1)) (\<lambda>_. 0) (\<lambda>_. 0) None
        (stopped THREAD_STATE_BLOCKED (K_await d) s1)"
      unfolding s1_def
      by (rule kinv_stopped_awaiter) (use live False assms(2) incallD(6) [OF assms(1)] in simp_all)
  qed (use False live incallD(6) [OF assms(1)] in \<open>simp_all add: s1_def\<close>)
  ultimately show ?thesis
    using False live assms(1) by (simp add: thread_await_def s1_def [symmetric])
qed

section \<open>Sending\<close>

lemma gather_bounds:
  assumes "gather m msg buf = (st, k, buf')" and "length buf = JINUE_MAX_MESSAGE_SIZE"
  shows "k \<le> JINUE_MAX_MESSAGE_SIZE" "length buf' = JINUE_MAX_MESSAGE_SIZE"
  using assms gather_loop_length [of m "send_buffers msg" _ 0 buf st k buf']
  by (auto simp: gather_def JINUE_MAX_MESSAGE_SIZE_def split: if_splits)

lemma gather_message_ok:
  assumes "incall n D s" and "live s (ThreadRef t)"
  shows "outcome no_error (gather_message t msg s) (\<lambda>(st, s'). \<exists>k buf.
    s' = set_thr t ((thr s t)\<lparr>message_size := k, message_buffer := buf\<rparr>) s \<and>
    thread_same (thr s t) ((thr s t)\<lparr>message_size := k, message_buffer := buf\<rparr>))"
proof -
  obtain st k buf where g: "gather (umem s (t_process (thr s (current s)))) msg (message_buffer (thr s t)) = (st, k, buf)"
    by (metis prod_cases3)
  note gather_bounds [OF g wf_thread(1) [OF incallD(4) [OF assms(1)] assms(2)]]
  then have "thread_same (thr s t) ((thr s t)\<lparr>message_size := k, message_buffer := buf\<rparr>)"
    by (simp add: thread_same_def recv_fine_def)
  then show ?thesis
    using assms by (auto simp: gather_message_def g)
qed

lemma send_enqueue_kinv:
  assumes "incall n D s" and "d_object d = Some (EndpointRef e)" and "1 \<le> D (EndpointRef e)"
  shows "kinv (D(EndpointRef e := D (EndpointRef e) - 1)) (\<lambda>_. 0) (\<lambda>_. 0) None
    (stopped THREAD_STATE_BLOCKED (K_send d msg)
      (set_ept e ((ept s e)\<lparr>send_list := send_list (ept s e) @ [current s]\<rparr>) s))"
proof -
  let ?D = "D(EndpointRef e := D (EndpointRef e) - 1)"
  let ?s = "stopped THREAD_STATE_BLOCKED (K_send d msg) s"
  have le: "live s (EndpointRef e)"
    using acct_debt_live [OF incallD(5) [OF assms(1)]] assms(3) by simp
  note lc = incallD(6) [OF assms(1)] and k = incallD(2) [OF assms(1)]
  have ks: "kinv ?D (\<lambda>_. 0) (\<lambda>_. 0) None ?s"
    by (rule block_kinv [OF assms(1)]) (use assms(2,3) in simp_all)
  have ls: "live ?s (EndpointRef e)"
    using le lc by simp
  note q = q_listsD [OF queuesD(3) [OF kinvD(3) [OF ks]] ls]
  have cs: "sending ?s (current s) e"
    using lc assms(2) by (simp add: sending_def)
  have "kinv ?D (\<lambda>_. 0) (\<lambda>_. 0) None
      (set_ept e ((ept s e)\<lparr>send_list := send_list (ept s e) @ [current s]\<rparr>) ?s)"
  proof (rule kinv_set_ept [OF ks ls, where v = 0])
    show "distinct (send_list ((ept s e)\<lparr>send_list := send_list (ept s e) @ [current s]\<rparr>))"
      using q(1) running_not_blocked(5) [OF k le] by simp
    show "t_sender (thr ?s p) \<noteq> Some t"
      if "t \<in> set (send_list ((ept s e)\<lparr>send_list := send_list (ept s e) @ [current s]\<rparr>))" "started ?s p" for t p
    proof (cases "t = current s")
      case True
      have "started s p \<or> p = current s"
        using that(2) lc by (auto simp: stopped_def split: if_splits)
      then have "t_sender (thr s p) \<noteq> Some t"
        using running_not_blocked(7) [OF k] incallD(7) [OF assms(1)] True by auto
      then show ?thesis
        by (cases "p = current s") simp_all
    next
      case False
      then show ?thesis
        using that listed_not_sender [OF kinvD(3) [OF ks] ls, of t p] by simp
    qed
  qed (use q cs assms(3) in \<open>auto simp: fun_eq_iff\<close>)
  then show ?thesis
    by (simp add: stopped_set_ept)
qed

lemma send_rendezvous_in_kernel:
  assumes "incall n D s" and "d_object d = Some (EndpointRef e)" and "1 \<le> D (EndpointRef e)"
    and "recv_list (ept s e) = r # rs"
    and "s1 = set_thr r ((thr s r)\<lparr>t_sender := Some (current s)\<rparr>)
      (set_ept e ((ept s e)\<lparr>recv_list := rs\<rparr>) s)"
  shows "switch_to_thread_and_block (K_send d msg) r s1 =
      Inr (taken_over r (stopped THREAD_STATE_BLOCKED (K_send d msg) s1))"
    "in_kernel (D(EndpointRef e := D (EndpointRef e) - 1))
      (taken_over r (stopped THREAD_STATE_BLOCKED (K_send d msg) s1))"
    "dom (processes s1) = dom (processes s)"
proof -
  let ?D = "D(EndpointRef e := D (EndpointRef e) - 1)"
  let ?c = "current s"
  define s0 where "s0 = stopped THREAD_STATE_BLOCKED (K_send d msg) s"
  define s2 where "s2 = set_ept e ((ept s0 e)\<lparr>recv_list := rs\<rparr>) s0"
  define s3 where "s3 = set_thr r ((thr s2 r)\<lparr>t_sender := Some ?c\<rparr>) s2"
  have le: "live s (EndpointRef e)"
    using acct_debt_live [OF incallD(5) [OF assms(1)]] assms(3) by simp
  note lc = incallD(6) [OF assms(1)] and k = incallD(2) [OF assms(1)]
  have rec: "receiving s r e"
    using q_listsD(4) [OF queuesD(3) [OF kinvD(3) [OF k]] le] assms(4) by simp
  then have lr: "live s (ThreadRef r)" and nc: "r \<noteq> ?c"
    using running_not_blocked(2) [OF k, of e] by (auto simp: receiving_def)
  have k0: "kinv ?D (\<lambda>_. 0) (\<lambda>_. 0) None s0"
    unfolding s0_def by (rule block_kinv [OF assms(1)]) (use assms(2,3) in simp_all)
  have l0: "live s0 o' = live s o'" for o'
    using lc by (simp add: s0_def)
  have e0: "ept s0 f = ept s f" for f
    by (simp add: s0_def)
  have rl: "live s0 (EndpointRef e)" "recv_list (ept s0 e) = r # rs"
    using le assms(4) by (simp_all add: l0 e0)
  have k2: "kinv ?D (\<lambda>_. 0) (\<lambda>_. 0) None s2"
    unfolding s2_def by (rule shorter_lists(2) [OF k0 rl])
  have loose: "loose s2 r"
    unfolding s2_def by (rule loose_first_receiver [OF kinvD(3) [OF k0] rl])
  have l2: "live s2 o' = live s o'" for o'
    using le by (simp add: s2_def l0)
  have thr2: "thr s2 t = (if t = ?c then (thr s ?c)\<lparr>t_state := THREAD_STATE_BLOCKED, t_kont := K_send d msg\<rparr>
      else thr s t)" for t
    by (simp add: s2_def s0_def)
  have cs: "sending s2 ?c e"
    using lc assms(2) by (simp add: sending_def l2 thr2)
  have st2: "started s2 t = started s t" for t
    using incallD(7) [OF assms(1)] by (simp add: started_def l2 thr2 is_started_def)
  have nosend: "t_sender (thr s2 p) \<noteq> Some ?c" if "started s2 p" for p
    using running_not_blocked(7) [OF k, of p] that by (auto simp: st2 thr2)
  have k3: "kinv ?D (\<lambda>_. 0) (\<lambda>_. 0) None s3"
    unfolding s3_def
  proof (rule kinv_set_links [OF k2, where v = "Some ?c" and w = "t_awaiter (thr s2 r)"])
    show "\<exists>e. sending s2 sd e \<and> sd \<notin> set (send_list (ept s2 e))" if "Some ?c = Some sd" for sd
      using cs running_not_blocked(5) [OF k le] that by (intro exI [of _ e]) (simp add: s2_def e0)
    show "awaiting s2 q r" if "started s2 r" "t_awaiter (thr s2 r) = Some q" for q
      by (rule q_awaitD [OF queuesD(5) [OF kinvD(3) [OF k2]] that])
  qed (use lr nosend rec nc in \<open>auto simp: l2 recv_fine_def receiving_def thr2\<close>)
  have x3: "thr s3 r = (thr s r)\<lparr>t_sender := Some ?c\<rparr>"
    using nc by (simp add: s3_def thr2)
  have "loose s3 r"
    unfolding s3_def by (rule loose_relinked [OF loose]) (use nc lr in \<open>simp_all add: l2\<close>)
  then have "kinv ?D (\<lambda>_. 0) (\<lambda>_. 0) (Some r) (resumed r s3)"
    by (rule kinv_resumed_blocked [OF k3]) (simp add: x3 recv_fine_def)
  then have "in_kernel ?D (taken_over r s3)"
    by (rule in_kernel_taken_over)
  moreover have s3_eq: "s3 = stopped THREAD_STATE_BLOCKED (K_send d msg) s1"
    using nc unfolding assms(5)
    by (simp add: stopped_set_thr stopped_set_ept s3_def s2_def s0_def)
  ultimately show "in_kernel ?D (taken_over r (stopped THREAD_STATE_BLOCKED (K_send d msg) s1))"
    by simp
  have "started s r"
    by (rule receiving_started [OF rec])
  from kinv_started(2) [OF k this] have "live s (ProcessRef (t_process (thr s r)))" .
  then show "switch_to_thread_and_block (K_send d msg) r s1 =
      Inr (taken_over r (stopped THREAD_STATE_BLOCKED (K_send d msg) s1))"
    by (intro switch_to_thread_and_block_eq)
      (use lc lr le nc incallD(10) [OF assms(1)] in \<open>simp_all add: assms(5)\<close>)
  show "dom (processes s1) = dom (processes s)"
    by (simp add: assms(5))
qed

lemma send_message_ok:
  assumes "incall n D s" and "d_object d = Some (EndpointRef e)" and "1 \<le> D (EndpointRef e)"
  shows "outcome no_thread (send_message d e (current s) function cookie msg s) (\<lambda>(c, s'). case c of
      Ret _ \<Rightarrow> incall n D s' \<and> keeps s s'
    | Switched \<Rightarrow> switched n (D(EndpointRef e := D (EndpointRef e) - 1)) s')"
proof (cases "get_receive_buffers_size (umem s (t_process (thr s (current s)))) msg")
  case (Inl err)
  then show ?thesis
    using assms(1) by (simp add: send_message_def)
next
  case (Inr rsize)
  note lc = incallD(6) [OF assms(1)]
  define s1 where "s1 = set_thr (current s) ((thr s (current s))\<lparr>recv_buffer_size := unat rsize,
    message_errno := 0, message_reply_errcode := 0, message_function := function,
    message_cookie := cookie\<rparr>) s"
  have "thread_same (thr s (current s)) ((thr s (current s))\<lparr>recv_buffer_size := unat rsize,
    message_errno := 0, message_reply_errcode := 0, message_function := function,
    message_cookie := cookie\<rparr>)"
    using wf_thread [OF incallD(4) [OF assms(1)] lc] incallD(3) [OF assms(1)]
    by (simp add: thread_same_def recv_fine_def)
  note i1 = incall_set_thr_same [OF assms(1) lc this, folded s1_def]
  have c1: "current s1 = current s" and l1: "live s1 o' = live s o'" for o'
    using lc by (simp_all add: s1_def)
  obtain st s2 where g: "gather_message (current s) msg s1 = Inr (st, s2)"
    and i2: "incall n D s2" and keep: "keeps s s2" and c2: "current s2 = current s"
    using outcome_totalD [OF gather_message_ok [OF i1(1) incallD(6) [OF i1(1)], of msg]]
      incall_set_thr_same [OF i1(1) incallD(6) [OF i1(1)]] keeps_trans [OF i1(2)]
    by (auto simp: c1)
  have le: "live s2 (EndpointRef e)"
    using acct_debt_live [OF incallD(5) [OF i2]] assms(3) by simp
  show ?thesis
  proof (cases "recv_list (ept s2 e)")
    case Nil
    have "outcome no_thread (block_current_thread_and_unlock (K_send d msg)
        (set_ept e ((ept s2 e)\<lparr>send_list := send_list (ept s2 e) @ [current s2]\<rparr>) s2))
        (switched n (D(EndpointRef e := D (EndpointRef e) - 1)))"
      by (rule block_ok [OF i2 send_enqueue_kinv [OF i2 assms(2,3)]])
        (use le incallD(6) [OF i2] in simp_all)
    then show ?thesis
      using assms(1) lc le i2 keep
      by (simp add: send_message_def Inr s1_def [symmetric] g Nil seq_dequeue_def seq_enqueue_def c2)
  next
    case (Cons r rs)
    note rv = send_rendezvous_in_kernel [OF i2 assms(2,3) Cons refl]
    have "receiving s2 r e"
      using q_listsD(4) [OF queuesD(3) [OF kinvD(3) [OF incallD(2) [OF i2]]] le] Cons by simp
    then have "live s2 (ThreadRef r)"
      by (simp add: receiving_def)
    then show ?thesis
      using assms(1) lc le i2 keep rv
      by (simp add: send_message_def Inr s1_def [symmetric] g Cons seq_dequeue_def c2 switched_def)
        (simp add: taken_over_def resumed_def incall_def)
  qed
qed

section \<open>The sender of the message being handled\<close>

lemma incall_set_sender:
  assumes "incall n D s"
    and "\<And>sd. v = Some sd \<Longrightarrow> \<exists>e. sending s sd e \<and> sd \<notin> set (send_list (ept s e))"
    and "\<And>sd q. v = Some sd \<Longrightarrow> started s q \<Longrightarrow> q \<noteq> current s \<Longrightarrow> t_sender (thr s q) \<noteq> Some sd"
  shows "incall n D (set_thr (current s) ((thr s (current s))\<lparr>t_sender := v\<rparr>) s)"
proof -
  note k = incallD(2) [OF assms(1)]
  have "kinv D (\<lambda>_. 0) (\<lambda>_. 0) (Some (current s))
      (set_thr (current s) ((thr s (current s))\<lparr>t_sender := v\<rparr>) s)"
  proof (rule kinv_set_links [OF k, where v = v and w = "t_awaiter (thr s (current s))"])
    show "awaiting s q (current s)" if "started s (current s)" "t_awaiter (thr s (current s)) = Some q" for q
      by (rule q_awaitD [OF queuesD(5) [OF kinvD(3) [OF k]] that])
  qed (use assms incallD(3,6) [OF assms(1)] in \<open>auto simp: recv_fine_def\<close>)
  then show ?thesis
    by (rule incall_same [OF assms(1)]) (use incallD(6) [OF assms(1)] in simp_all)
qed

definition unlinked :: "kstate \<Rightarrow> kstate" where
  "unlinked s = set_thr (current s) ((thr s (current s))\<lparr>t_sender := None\<rparr>) s"

lemma incall_unlinked: "incall n D s \<Longrightarrow> incall n D (unlinked s)"
  unfolding unlinked_def by (rule incall_set_sender) simp_all

lemma sender_sending:
  assumes "kinv D V R (Some (current s)) s" and "t_sender (thr s (current s)) = Some sd"
  obtains e where "sending s sd e" "sd \<notin> set (send_list (ept s e))" "sd \<noteq> current s"
    "\<And>q. started s q \<Longrightarrow> q \<noteq> current s \<Longrightarrow> t_sender (thr s q) \<noteq> Some sd"
proof -
  note q = queuesD(4) [OF kinvD(3) [OF assms(1)]]
  note c = kinv_running(3) [OF assms(1)]
  obtain e where e: "sending s sd e" "sd \<notin> set (send_list (ept s e))"
    using q_senderD(1) [OF q c assms(2)] by blast
  moreover have "sd \<noteq> current s"
    using running_not_blocked(1) [OF assms(1), of e] e(1) by blast
  ultimately show ?thesis
    using that q_senderD(2) [OF q c assms(2)] by blast
qed

lemma loose_unlinked:
  assumes "kinv D V R (Some (current s)) s" and "t_sender (thr s (current s)) = Some sd"
  shows "loose (unlinked s) sd"
proof -
  obtain e where e: "sending s sd e" "sd \<notin> set (send_list (ept s e))" "sd \<noteq> current s"
    and uniq: "\<And>q. started s q \<Longrightarrow> q \<noteq> current s \<Longrightarrow> t_sender (thr s q) \<noteq> Some sd"
    using sender_sending [OF assms] by blast
  note qs = queuesD [OF kinvD(3) [OF assms(1)]]
  note lc = kinv_running(1,3) [OF assms(1)]
  have "sd \<notin> set (send_list (ept s f))" "sd \<notin> set (recv_list (ept s f))" if "live s (EndpointRef f)" for f
    using q_listsD(3,4) [OF qs(3) that, of sd] e sending_unique sending_not_receiving by blast+
  moreover have "t_awaiter (thr s q) \<noteq> Some sd" if "started s q" for q
    using q_awaitD [OF qs(5) that] awaiting_exclusive(1) e(1) by blast
  moreover have "started (unlinked s) q = started s q" for q
    using lc by (auto simp: unlinked_def started_def)
  ultimately show ?thesis
    using e uniq lc by (auto simp: loose_def unlinked_def sending_def)
qed

lemma sender_kont:
  assumes "kinv D V R (Some (current s)) s" and "t_sender (thr s (current s)) = Some sd"
  shows "live s (ThreadRef sd)" "sd \<noteq> current s" "\<exists>d msg. t_kont (thr s sd) = K_send d msg"
    "live s (ProcessRef (t_process (thr s sd)))"
proof -
  obtain e where e: "sending s sd e" "sd \<noteq> current s"
    using sender_sending [OF assms] by blast
  then show "live s (ThreadRef sd)" "sd \<noteq> current s" "\<exists>d msg. t_kont (thr s sd) = K_send d msg"
    by (auto simp: sending_def)
  show "live s (ProcessRef (t_process (thr s sd)))"
    by (rule kinv_started(2) [OF assms(1) sending_started [OF e(1)]])
qed

lemma unlinked_sel [simp]:
  "current (unlinked s) = current s" "endpoints (unlinked s) = endpoints s"
  "t \<noteq> current s \<Longrightarrow> thr (unlinked s) t = thr s t"
  "live s (ThreadRef (current s)) \<Longrightarrow> live (unlinked s) o' = live s o'"
  by (simp_all add: unlinked_def)

lemma incall_woken:
  assumes "incall n D s" and "loose s t" and "\<And>d msg k u. t_kont (thr s t) \<noteq> K_receive d msg k u"
  shows "incall n D (woken t err s)"
proof -
  have nc: "t \<noteq> current s"
    using assms(2) in_kernelD(5) [OF incallD(1) [OF assms(1)]] by (auto simp: loose_def)
  have "kinv D (\<lambda>_. 0) (\<lambda>_. 0) (Some (current s)) (woken t err s)"
    by (rule kinv_woken [OF incallD(2) [OF assms(1)] assms(2)]) (use assms(3) in simp)
  then show ?thesis
    by (rule incall_same [OF assms(1)]) (use nc in \<open>simp_all add: woken_def\<close>)
qed

section \<open>Receiving\<close>

lemma scatter_message_ok:
  assumes "incall n D s" and "live s (ThreadRef t)"
  shows "\<exists>st m. scatter_message t msg s = Inr (st, s\<lparr>umem := m\<rparr>)"
  using assms by (auto simp: scatter_message_def split: prod.splits)

lemma receive_check_ok:
  assumes "incall n D s" and "message_errno (thr s (current s)) \<noteq> 0 \<or> t_sender (thr s (current s)) \<noteq> None"
  shows "outcome no_error (receive_check (current s) (t_sender (thr s (current s))) rsize msg s)
    (\<lambda>(out, s'). incall n D s' \<and> current s' = current s \<and> endpoints s' = endpoints s)"
proof (cases "message_errno (thr s (current s)) = 0")
  case False
  then show ?thesis
    using incallD(6) [OF assms(1)] incall_unlinked [OF assms(1)]
    by (simp add: receive_check_def unlinked_def)
next
  case True
  then obtain sd where sd: "t_sender (thr s (current s)) = Some sd"
    using assms(2) by auto
  note lc = incallD(6) [OF assms(1)] and k = incallD(2) [OF assms(1)]
  note sk = sender_kont [OF k sd]
  have big: "incall n D (woken sd JINUE_E2BIG (unlinked s))"
    by (rule incall_woken [OF incall_unlinked [OF assms(1)] loose_unlinked [OF k sd]])
      (use sk in auto)
  obtain st m where sc: "scatter_message sd msg s = Inr (st, s\<lparr>umem := m\<rparr>)"
    using scatter_message_ok [OF assms(1) sk(1)] by blast
  note um = incall_umem(1) [OF assms(1), of m]
  have err: "incall n D (unlinked (s\<lparr>umem := m\<rparr>))"
    by (rule incall_unlinked [OF um])
  have eq: "woken sd JINUE_E2BIG (unlinked s) =
      woken sd JINUE_E2BIG (set_thr (current s) ((thr s (current s))\<lparr>t_sender := None\<rparr>)
        (set_thr sd ((thr s sd)\<lparr>message_errno := JINUE_E2BIG\<rparr>) s))"
    using sk(2) by (simp add: woken_def unlinked_def)
  show ?thesis
    using True sd sk(1,2) lc big err um
    by (simp add: receive_check_def sc nonnull_def ready_thread_woken eq)
      (simp add: unlinked_def woken_def)
qed

lemma receive_enqueue_kinv:
  assumes "incall n D s" and "d_object d = Some (EndpointRef e)" and "1 \<le> D (EndpointRef e)"
  shows "kinv (D(EndpointRef e := D (EndpointRef e) - 1)) (\<lambda>_. 0) (\<lambda>_. 0) None
    (stopped THREAD_STATE_BLOCKED (K_receive d msg k u)
      (set_ept e ((ept s e)\<lparr>recv_list := recv_list (ept s e) @ [current s]\<rparr>) s))"
proof -
  let ?D = "D(EndpointRef e := D (EndpointRef e) - 1)"
  let ?s = "stopped THREAD_STATE_BLOCKED (K_receive d msg k u) s"
  have le: "live s (EndpointRef e)"
    using acct_debt_live [OF incallD(5) [OF assms(1)]] assms(3) by simp
  note lc = incallD(6) [OF assms(1)]
  have ks: "kinv ?D (\<lambda>_. 0) (\<lambda>_. 0) None ?s"
    by (rule block_kinv [OF assms(1)]) (use assms(2,3) in simp_all)
  have ls: "live ?s (EndpointRef e)"
    using le lc by simp
  note q = q_listsD [OF queuesD(3) [OF kinvD(3) [OF ks]] ls]
  have cs: "receiving ?s (current s) e"
    using lc assms(2) by (simp add: receiving_def)
  have "kinv ?D (\<lambda>_. 0) (\<lambda>_. 0) None
      (set_ept e ((ept s e)\<lparr>recv_list := recv_list (ept s e) @ [current s]\<rparr>) ?s)"
  proof (rule kinv_set_ept [OF ks ls, where v = 0])
    show "distinct (recv_list ((ept s e)\<lparr>recv_list := recv_list (ept s e) @ [current s]\<rparr>))"
      using q(2) running_not_blocked(6) [OF incallD(2) [OF assms(1)] le] by simp
    show "t_sender (thr ?s p) \<noteq> Some t"
      if "t \<in> set (send_list ((ept s e)\<lparr>recv_list := recv_list (ept s e) @ [current s]\<rparr>))" "started ?s p" for t p
      using that listed_not_sender [OF kinvD(3) [OF ks] ls, of t p] by simp
  qed (use q cs assms(3) in \<open>auto simp: fun_eq_iff\<close>)
  then show ?thesis
    by (simp add: stopped_set_ept)
qed

lemma receive_take_sender:
  assumes "incall n D s" and "live s (EndpointRef e)" and "send_list (ept s e) = sd # q"
    and "s1 = set_ept e ((ept s e)\<lparr>send_list := q\<rparr>) s"
    and "s2 = set_thr (current s) ((thr s (current s))\<lparr>t_sender := Some sd\<rparr>) s1"
  shows "incall n D s2" "current s2 = current s" "send_list (ept s2 e) = q"
    "t_sender (thr s2 (current s2)) = Some sd"
proof -
  note k = incallD(2) [OF assms(1)]
  have k1: "kinv D (\<lambda>_. 0) (\<lambda>_. 0) (Some (current s)) s1"
    unfolding assms(4) by (rule shorter_lists(1) [OF k assms(2,3)])
  have i1: "incall n D s1"
    by (rule incall_same [OF assms(1) k1]) (simp_all add: assms(4))
  have loose: "loose s1 sd"
    unfolding assms(4) by (rule loose_first_sender [OF kinvD(3) [OF k] assms(2,3)])
  have "sending s sd e"
    using q_listsD(3) [OF queuesD(3) [OF kinvD(3) [OF k]] assms(2)] assms(3) by simp
  then have "sending s1 sd e"
    using assms(2) by (simp add: assms(4))
  moreover have "live s1 (EndpointRef e)"
    using assms(2) by (simp add: assms(4))
  moreover have "thr s1 t = thr s t" for t
    by (simp add: assms(4))
  ultimately have "incall n D (set_thr (current s1) ((thr s1 (current s1))\<lparr>t_sender := Some sd\<rparr>) s1)"
    by (intro incall_set_sender [OF i1]) (use loose in \<open>auto simp: loose_def\<close>)
  then show "incall n D s2"
    by (simp add: assms(4,5))
  show "current s2 = current s" "send_list (ept s2 e) = q" "t_sender (thr s2 (current s2)) = Some sd"
    by (simp_all add: assms(4,5))
qed

lemma receive_loop_ok:
  assumes "incall n D s" and "d_object d = Some (EndpointRef e)" and "1 \<le> D (EndpointRef e)"
    and "length (send_list (ept s e)) < k" and "c = current s"
  shows "outcome no_thread (receive_loop k d umsg e c rsize msg s) (\<lambda>(r, s'). case r of
      Ret _ \<Rightarrow> incall n D s' \<and> current s' = c
    | Switched \<Rightarrow> switched n (D(EndpointRef e := D (EndpointRef e) - 1)) s')"
  using assms
proof (induction k arbitrary: s)
  case 0
  then show ?case by simp
next
  case (Suc k)
  have le: "live s (EndpointRef e)"
    using acct_debt_live [OF incallD(5) [OF Suc.prems(1)]] Suc.prems(3) by simp
  note lc = incallD(6) [OF Suc.prems(1)]
  show ?case
  proof (cases "send_list (ept s e)")
    case Nil
    have "outcome no_thread (block_current_thread_and_unlock (K_receive d msg rsize umsg)
        (set_ept e ((ept s e)\<lparr>recv_list := recv_list (ept s e) @ [current s]\<rparr>) s))
        (switched n (D(EndpointRef e := D (EndpointRef e) - 1)))"
      by (rule block_ok [OF Suc.prems(1) receive_enqueue_kinv [OF Suc.prems(1-3)]])
        (use le lc in simp_all)
    then show ?thesis
      using le Nil Suc.prems(5) by (simp add: seq_dequeue_def seq_enqueue_def)
  next
    case (Cons sd q)
    define s1 where "s1 = set_ept e ((ept s e)\<lparr>send_list := q\<rparr>) s"
    define s2 where "s2 = set_thr (current s) ((thr s (current s))\<lparr>t_sender := Some sd\<rparr>) s1"
    note t = receive_take_sender [OF Suc.prems(1) le Cons s1_def s2_def]
    have s2_eq: "set_thr (current s) ((thr s1 (current s))\<lparr>t_sender := Some sd\<rparr>) s1 = s2"
      by (simp add: s2_def s1_def)
    have lc1: "live s1 (ThreadRef (current s))"
      using lc le by (simp add: s1_def)
    obtain out s3 where r: "receive_check c (Some sd) rsize msg s2 = Inr (out, s3)"
      and i3: "incall n D s3" "current s3 = current s" "endpoints s3 = endpoints s2"
      using outcome_totalD [OF receive_check_ok [OF t(1), of rsize msg]] t(2,4) Suc.prems(5) by auto
    have "outcome no_thread (receive_loop k d umsg e c rsize msg s3) (\<lambda>(r, s'). case r of
        Ret _ \<Rightarrow> incall n D s' \<and> current s' = c
      | Switched \<Rightarrow> switched n (D(EndpointRef e := D (EndpointRef e) - 1)) s')"
      by (rule Suc.IH [OF i3(1) Suc.prems(2,3)])
        (use i3 t(3) Cons Suc.prems(4,5) in simp_all)
    then show ?thesis
      using le lc1 r i3 Cons Suc.prems(5)
      by (cases out) (simp_all add: seq_dequeue_def s1_def [symmetric] s2_eq)
  qed
qed

lemma receive_message_ok:
  assumes "incall n D s" and "d_object d = Some (EndpointRef e)" and "1 \<le> D (EndpointRef e)"
  shows "outcome no_thread (receive_message d umsg e (current s) msg s) (\<lambda>(r, s'). case r of
      Ret _ \<Rightarrow> incall n D s' \<and> current s' = current s
    | Switched \<Rightarrow> switched n (D(EndpointRef e := D (EndpointRef e) - 1)) s')"
proof (cases "get_receive_buffers_size (umem s (t_process (thr s (current s)))) msg")
  case (Inl err)
  then show ?thesis
    using assms(1) by (simp add: receive_message_def)
next
  case (Inr rsize)
  note lc = incallD(6) [OF assms(1)]
  define s1 where "s1 = set_thr (current s) ((thr s (current s))\<lparr>message_errno := 0\<rparr>) s"
  have "thread_same (thr s (current s)) ((thr s (current s))\<lparr>message_errno := 0\<rparr>)"
    using wf_thread [OF incallD(4) [OF assms(1)] lc] incallD(3) [OF assms(1)]
    by (simp add: thread_same_def recv_fine_def)
  note i1 = incall_set_thr_same [OF assms(1) lc this, folded s1_def]
  have "live s1 (EndpointRef e)" and c1: "current s1 = current s"
    using acct_debt_live [OF incallD(5) [OF i1(1)]] assms(3) by (simp_all add: s1_def)
  then show ?thesis
    using receive_loop_ok [OF i1(1) assms(2,3) lessI c1 [symmetric], of umsg "unat rsize" msg] assms(1) lc
    by (simp add: receive_message_def Inr s1_def [symmetric] receive_passes_def c1)
qed

lemma receive_message_resume_ok:
  assumes "incall n D s" and "d_object d = Some (EndpointRef e)" and "1 \<le> D (EndpointRef e)"
    and "message_errno (thr s (current s)) \<noteq> 0 \<or> t_sender (thr s (current s)) \<noteq> None"
  shows "outcome no_thread (receive_message_resume d umsg e (current s) rsize msg s) (\<lambda>(r, s'). case r of
      Ret _ \<Rightarrow> incall n D s' \<and> current s' = current s
    | Switched \<Rightarrow> switched n (D(EndpointRef e := D (EndpointRef e) - 1)) s')"
proof -
  obtain out s1 where r: "receive_check (current s) (t_sender (thr s (current s))) rsize msg s = Inr (out, s1)"
    and i1: "incall n D s1" "current s1 = current s"
    using outcome_totalD [OF receive_check_ok [OF assms(1,4), of rsize msg]] by auto
  have "live s1 (EndpointRef e)"
    using acct_debt_live [OF incallD(5) [OF i1(1)]] assms(3) by simp
  then show ?thesis
    using receive_loop_ok [OF i1(1) assms(2,3) lessI i1(2) [symmetric], of umsg rsize msg]
      r i1 incallD(6) [OF assms(1)]
    by (cases out) (simp_all add: receive_message_resume_def receive_passes_def)
qed

section \<open>Replying\<close>

lemma thread_same_simple:
  assumes "incall n D s" and "live s (ThreadRef t)"
  shows "thread_same (thr s t) ((thr s t)\<lparr>t_frame := f\<rparr>)"
    "thread_same (thr s t) ((thr s t)\<lparr>message_errno := JINUE_EPROTO, message_reply_errcode := r\<rparr>)"
  using wf_thread [OF incallD(4) [OF assms(1)] assms(2)]
  by (simp_all add: thread_same_def recv_fine_def JINUE_EPROTO_def)

lemma send_message_resume_ok:
  assumes "incall n D s"
  shows "outcome no_error (send_message_resume (current s) msg s)
    (\<lambda>(r, s'). incall n D s' \<and> current s' = current s)"
proof -
  note lc = incallD(6) [OF assms]
  obtain st m where sc: "scatter_message (current s) msg s = Inr (st, s\<lparr>umem := m\<rparr>)"
    using scatter_message_ok [OF assms lc] by blast
  show ?thesis
    using assms lc incall_umem(1) [OF assms, of m] incall_set_thr_same(1) [OF assms lc thread_same_simple(1) [OF assms lc]]
    by (simp add: send_message_resume_def sc)
qed

lemma reply_switch_ok:
  assumes "incall n D s" and "t_sender (thr s (current s)) = Some sd"
  shows "outcome no_error (switch_to_thread K_reply sd (unlinked s)) (switched n D)"
proof -
  define s1 where "s1 = unlinked s"
  define s2 where "s2 = stopped THREAD_STATE_READY K_reply s1"
  note k = incallD(2) [OF assms(1)] and lc = incallD(6) [OF assms(1)]
  note sk = sender_kont [OF k assms(2)]
  have i1: "incall n D s1" and c1: "current s1 = current s"
    by (simp_all add: s1_def incall_unlinked [OF assms(1)])
  have x1: "thr s1 sd = thr s sd"
    using sk(2) by (simp add: s1_def)
  have k2: "kinv D (\<lambda>_. 0) (\<lambda>_. 0) None s2"
    unfolding s2_def by (rule kinv_preempted) (use incallD [OF i1] in simp_all)
  have "loose s1 sd"
    unfolding s1_def by (rule loose_unlinked [OF k assms(2)])
  then have "loose s2 sd"
    unfolding s2_def
    by (rule loose_stopped) (use incallD(6,7) [OF i1] sk(2) in \<open>simp_all add: c1 is_started_def\<close>)
  then have "kinv D (\<lambda>_. 0) (\<lambda>_. 0) (Some sd) (resumed sd s2)"
    by (rule kinv_resumed_blocked [OF k2]) (use sk(2,3) in \<open>auto simp: s2_def x1 c1 recv_fine_def\<close>)
  then have "in_kernel D (taken_over sd s2)"
    by (rule in_kernel_taken_over)
  moreover have "switch_to_thread K_reply sd s1 = Inr (taken_over sd s2)"
    unfolding s2_def
    by (rule switch_to_thread_eq)
      (use incallD(6,10) [OF i1] sk lc in \<open>simp_all add: c1 x1, simp_all add: s1_def\<close>)
  moreover have "processes (taken_over sd s2) = processes s"
    by (simp add: taken_over_def resumed_def s2_def) (simp add: s1_def unlinked_def)
  ultimately show ?thesis
    using assms(1) by (simp add: s1_def [symmetric] switched_def incall_def)
qed

lemma set_sender_unlinked:
  "live s (ThreadRef (current s)) \<Longrightarrow>
    upd_thread (current s) (\<lambda>x. x\<lparr>t_sender := None\<rparr>) s = Inr (unlinked s)"
  by (simp add: unlinked_def)

lemma reply_to_message_ok:
  assumes "incall n D s"
  shows "outcome no_error (reply_to_message (current s) msg s) (\<lambda>(c, s'). case c of
    Ret _ \<Rightarrow> incall n D s' \<and> current s' = current s | Switched \<Rightarrow> switched n D s')"
proof (cases "t_sender (thr s (current s))")
  case None
  then show ?thesis
    using assms incallD(6) [OF assms] by (simp add: reply_to_message_def)
next
  case (Some sd)
  note lc = incallD(6) [OF assms]
  note sk = sender_kont [OF incallD(2) [OF assms] Some]
  obtain st s1 x where g: "gather_message sd msg s = Inr (st, s1)" and s1: "s1 = set_thr sd x s"
    and same: "thread_same (thr s sd) x"
    using outcome_totalD [OF gather_message_ok [OF assms sk(1), of msg]] by auto
  note i1 = incall_set_thr_same(1) [OF assms sk(1) same, folded s1]
  have c1: "current s1 = current s" "live s1 (ThreadRef sd)" "live s1 (ThreadRef (current s))"
      "thr s1 (current s) = thr s (current s)"
    using sk lc by (simp_all add: s1)
  have "outcome no_error (switch_to_thread K_reply sd (unlinked s1)) (switched n D)"
    by (rule reply_switch_ok [OF i1]) (simp add: c1 Some)
  moreover have "upd_thread (current s) (\<lambda>x. x\<lparr>t_sender := None\<rparr>) s1 = Inr (unlinked s1)"
    using c1 by (simp add: unlinked_def)
  ultimately show ?thesis
    using lc i1 c1 by (simp add: reply_to_message_def Some g del: upd_live)
qed

lemma reply_error_to_message_ok:
  assumes "incall n D s"
  shows "outcome no_error (reply_error_to_message (current s) err s) (\<lambda>(c, s'). case c of
    Ret _ \<Rightarrow> incall n D s' \<and> current s' = current s | Switched \<Rightarrow> switched n D s')"
proof (cases "t_sender (thr s (current s))")
  case None
  then show ?thesis
    using assms incallD(6) [OF assms] by (simp add: reply_error_to_message_def)
next
  case (Some sd)
  note lc = incallD(6) [OF assms]
  note sk = sender_kont [OF incallD(2) [OF assms] Some]
  define s1 where "s1 = set_thr sd ((thr s sd)\<lparr>message_errno := JINUE_EPROTO, message_reply_errcode := err\<rparr>) s"
  note i1 = incall_set_thr_same(1) [OF assms sk(1) thread_same_simple(2) [OF assms sk(1)], of err, folded s1_def]
  have c1: "current s1 = current s" "live s1 (ThreadRef (current s))"
      "thr s1 (current s) = thr s (current s)"
    using sk lc by (simp_all add: s1_def)
  have "outcome no_error (switch_to_thread K_reply sd (unlinked s1)) (switched n D)"
    by (rule reply_switch_ok [OF i1]) (simp add: c1 Some)
  moreover have "upd_thread (current s) (\<lambda>x. x\<lparr>t_sender := None\<rparr>) s1 = Inr (unlinked s1)"
    using c1 by (simp add: unlinked_def)
  ultimately show ?thesis
    using lc i1 c1 sk(1) by (simp add: reply_error_to_message_def Some s1_def [symmetric])
qed

end
