(* ===== verification/Calls.thy ===== *)
theory Calls
  imports Blocking
begin

unbundle bit_operations_syntax

text \<open>
  Every system call of the application layer keeps the invariant. The debts of the
  calling code start and end at zero: a reference taken on an object is dropped on every
  path, or handed to the stack of the thread that blocks.
\<close>

section \<open>Taking and dropping a reference\<close>

definition owe :: "obj_ref \<Rightarrow> (obj_ref \<Rightarrow> int) \<Rightarrow> (obj_ref \<Rightarrow> int)" where
  "owe o' D = D(o' := D o' + 1)"

lemma owe_simps [simp]:
  "owe o' D o' = D o' + 1"
  "(owe o' D)(o' := D o') = D"
  "(owe o' D)(o' := owe o' D o' - 1) = D"
  by (simp_all add: owe_def)

lemma owe_bounds:
  "D q \<le> k \<Longrightarrow> owe o' D q \<le> k + 1" "0 \<le> D q \<Longrightarrow> 0 \<le> owe o' D q"
  by (auto simp: owe_def)

lemma debt_small [simp]:
  "owe o' (\<lambda>_. 0) q \<le> 8" "owe o'' (owe o' (\<lambda>_. 0)) q \<le> 8"
  "0 \<le> owe o' (\<lambda>_. 0) q" "0 \<le> owe o'' (owe o' (\<lambda>_. 0)) q"
  by (simp_all add: owe_def)

abbreviation in_call :: "machine_ops \<Rightarrow> (obj_ref \<Rightarrow> int) \<Rightarrow> kstate \<Rightarrow> bool" where
  "in_call mo \<equiv> incall (destroy_fuel mo)"

abbreviation no_debt :: "obj_ref \<Rightarrow> int" where
  "no_debt \<equiv> \<lambda>_. 0"

lemma pd_of_ok: "pd_ok (destroy_fuel mo) (pd_of mo)"
  by (rule process_destroy_op_ok)

definition home :: "nat \<Rightarrow> kstate \<Rightarrow> bool" where
  "home p s \<longleftrightarrow> t_process (thr s (current s)) = p"

lemma home_keeps: "home p s \<Longrightarrow> keeps s s' \<Longrightarrow> home p s'"
  by (simp add: home_def keeps_def)

lemma access_cases:
  assumes "in_call mo D s" and "home p s" and "fd_ok fd" and "\<And>q. D q \<le> 8"
  obtains
    (denied) err s1 where
      "descriptor_access_object (pd_of mo) p fd s = Inr (Inl err, s1)"
      "in_call mo D s1" "keeps s s1" "current s1 = current s" "home p s1"
  | (granted) d o' s1 where
      "descriptor_access_object (pd_of mo) p fd s = Inr (Inr d, s1)"
      "d_object d = Some o'" "live s o'" "\<not> header_is_destroyed (hdr s o')"
      "slot_of p fd s = Some d" "descriptor_is_open d"
      "s1 = referenced o' s" "in_call mo (owe o' D) s1" "keeps s s1" "current s1 = current s" "home p s1"
proof -
  have p: "p = t_process (thr s (current s))"
    using assms(2) by (simp add: home_def)
  obtain r s1 where r: "descriptor_access_object (pd_of mo) p fd s = Inr (r, s1)"
    and post: "case r of Inl _ \<Rightarrow> in_call mo D s1 \<and> keeps s s1
    | Inr d \<Rightarrow> (\<exists>o'. d_object d = Some o' \<and> live s o' \<and> \<not> header_is_destroyed (hdr s o') \<and>
        descriptor_is_open d \<and> slot_of p fd s = Some d \<and> s1 = referenced o' s)"
    using outcome_totalD [OF descriptor_access_object_ok [OF pd_of_ok assms(1) p assms(3,4)]]
    by (force simp: split_def)
  show ?thesis
  proof (cases r)
    case (Inl err)
    then have "in_call mo D s1" "keeps s s1"
      using post by auto
    then show ?thesis
      using denied [of err s1] r Inl home_keeps [OF assms(2)] by (simp add: keeps_def)
  next
    case (Inr d)
    then obtain o' where o': "d_object d = Some o'" "live s o'" "\<not> header_is_destroyed (hdr s o')"
      "descriptor_is_open d" "slot_of p fd s = Some d" "s1 = referenced o' s"
      using post by auto
    note i = incall_referenced [OF assms(1) o'(2) assms(4)]
    show ?thesis
      by (rule granted [OF r [unfolded Inr] o'(1,2,3,5,4,6)])
        (use i o'(2) home_keeps [OF assms(2) i(2)] in \<open>simp_all add: o'(6) owe_def\<close>)
  qed
qed

lemma unref_ok:
  assumes "in_call mo (owe o' D) s" and "d_object d = Some o'" and "0 \<le> D o'"
  obtains s1 where "descriptor_unreference_object (pd_of mo) d s = Inr s1"
    "in_call mo D s1" "keeps s s1" "current s1 = current s"
proof -
  have "outcome no_error (descriptor_unreference_object (pd_of mo) d s)
      (\<lambda>s'. in_call mo ((owe o' D)(o' := owe o' D o' - 1)) s' \<and> keeps s s')"
    by (rule descriptor_unreference_object_ok [OF pd_of_ok assms(1,2)]) (use assms(3) in simp)
  then show ?thesis
    using that by (auto dest!: outcome_totalD simp: keeps_def simp del: owe_simps(1))
qed

lemma current_process:
  assumes "incall n D s"
  obtains p where "get_current_process s = Inr p" "home p s" "active s p"
  using incallD(6,9) [OF assms] by (auto simp: get_current_process_def home_def)

lemma home_active: "incall n D s \<Longrightarrow> home p s \<Longrightarrow> active s p"
  using incallD(9) [of n D s] by (simp add: home_def)

lemma reserved_after:
  assumes "reserved_slot p fd s" and "keeps s s'" and "incall n D s'" and "home p s'"
  shows "reserved_slot p fd s'"
  by (rule reserved_slot_keeps [OF assms(1,2) home_active [OF assms(3,4)]])

lemma get_kind:
  "descriptor_get_process d = Some p \<Longrightarrow> d_object d = Some (ProcessRef p)"
  "descriptor_get_thread d = Some t \<Longrightarrow> d_object d = Some (ThreadRef t)"
  "descriptor_get_endpoint d = Some e \<Longrightarrow> d_object d = Some (EndpointRef e)"
  by (auto split: option.splits obj_ref.splits)

declare descriptor_get_process.simps [simp del] descriptor_get_thread.simps [simp del]
  descriptor_get_endpoint.simps [simp del]

text \<open>Dropping the reference at the end of a call.\<close>

lemma unref_tail:
  assumes "outcome E m (\<lambda>(st, s'). in_call mo (owe o' D) s' \<and> (B st \<longrightarrow> keeps s s'))"
    and "d_object d = Some o'" and "0 \<le> D o'"
  shows "outcome E (bind_ok m (\<lambda>(st, s). bind_ok (descriptor_unreference_object (pd_of mo) d s)
    (\<lambda>s. Inr (st, s)))) (\<lambda>(st, s'). in_call mo D s' \<and> (B st \<longrightarrow> keeps s s'))"
  using assms(1)
proof (rule outcome_seq, clarsimp)
  fix st s1
  assume i: "in_call mo (owe o' D) s1" and k: "B st \<longrightarrow> keeps s s1"
  obtain s2 where "descriptor_unreference_object (pd_of mo) d s1 = Inr s2" "in_call mo D s2" "keeps s1 s2"
    using unref_ok [OF i assms(2,3)] by blast
  then show "outcome E (descriptor_unreference_object (pd_of mo) d s1)
      (\<lambda>x. in_call mo D x \<and> (B st \<longrightarrow> keeps s x))"
    using keeps_trans [of s s1 s2] k by simp
qed

lemma unref_tail_ctl:
  assumes "outcome E m (\<lambda>(c, s'). case c of Ret _ \<Rightarrow> in_call mo (owe o' D) s' | Switched \<Rightarrow> Q s')"
    and "d_object d = Some o'" and "0 \<le> D o'"
  shows "outcome E (bind_ok m (\<lambda>(c, s). case c of Switched \<Rightarrow> Inr (Switched, s)
      | Ret st \<Rightarrow> bind_ok (descriptor_unreference_object (pd_of mo) d s) (\<lambda>s. Inr (Ret st, s))))
    (\<lambda>(c, s'). case c of Ret _ \<Rightarrow> in_call mo D s' | Switched \<Rightarrow> Q s')"
  using assms(1)
proof (rule outcome_seq, clarsimp)
  fix c s1
  assume post: "case c of Ret _ \<Rightarrow> in_call mo (owe o' D) s1 | Switched \<Rightarrow> Q s1"
  show "outcome E (case c of Switched \<Rightarrow> Inr (Switched, s1)
      | Ret st \<Rightarrow> bind_ok (descriptor_unreference_object (pd_of mo) d s1) (\<lambda>s. Inr (Ret st, s)))
    (\<lambda>(c, s'). case c of Ret _ \<Rightarrow> in_call mo D s' | Switched \<Rightarrow> Q s')"
  proof (cases c)
    case (Ret st)
    then have i: "in_call mo (owe o' D) s1"
      using post by simp
    obtain s2 where "descriptor_unreference_object (pd_of mo) d s1 = Inr s2" "in_call mo D s2"
      by (rule unref_ok [OF i assms(2,3)])
    then show ?thesis
      using Ret by simp
  qed (use post in simp)
qed

section \<open>Threads\<close>

lemma await_thread_ok:
  assumes "in_call mo no_debt s" and "fd_ok fd"
  shows "outcome no_thread (await_thread mo fd s) (\<lambda>(c, s'). case c of
    Ret _ \<Rightarrow> in_call mo no_debt s' | Switched \<Rightarrow> switched (destroy_fuel mo) no_debt s')"
proof -
  obtain p where p: "get_current_process s = Inr p" "home p s"
    using current_process [OF assms(1)] by blast
  show ?thesis
  proof (cases rule: access_cases [OF assms(1) p(2) assms(2)])
    case (2 err s1)
    then show ?thesis
      using p(1) by (simp add: await_thread_def)
  next
    case (3 d o' s1)
    have "outcome no_thread (await_with_thread d s1) (\<lambda>(c, s'). case c of
        Ret _ \<Rightarrow> in_call mo (owe o' no_debt) s' | Switched \<Rightarrow> switched (destroy_fuel mo) no_debt s')"
    proof (cases "descriptor_get_thread d")
      case None
      then show ?thesis
        using 3 by (simp add: await_with_thread_def)
    next
      case (Some t)
      then have o': "o' = ThreadRef t"
        using get_kind(2) 3(2) by simp
      have "1 \<le> owe (ThreadRef t) no_debt (ThreadRef t)"
        by simp
      note thread_await_ok [OF 3(8) [unfolded o'] 3(2) [unfolded o'] this, unfolded owe_simps(3)]
      then show ?thesis
        using Some 3(8) o' by (auto simp: await_with_thread_def elim!: outcome_weaken split: ctl.splits)
    qed
    from unref_tail_ctl [OF this 3(2)] show ?thesis
      using p(1) 3(1) by (simp add: await_thread_def)
  qed simp
qed

lemma create_with_target_process_ok:
  assumes "in_call mo D s" and "home p s" and "reserved_slot p fd s" and "\<And>q. D q \<le> 8"
  shows "outcome no_error (create_with_target_process p fd d s)
    (\<lambda>(st, s'). in_call mo D s' \<and> (st < 0 \<longrightarrow> keeps s s'))"
proof (cases "descriptor_get_process d")
  case None
  then show ?thesis
    using assms(1) by (simp add: create_with_target_process_def)
next
  case (Some target)
  obtain t s1 where t: "thread_new target s = Inr (t, s1)" and i1: "in_call mo D s1" "keeps s s1"
      "\<And>u. t = Some u \<Longrightarrow> live s1 (ThreadRef u)"
    using outcome_totalD [OF thread_new_ok [OF assms(1), of target]] by auto
  note slot = reserved_after [OF assms(3) i1(2,1) home_keeps [OF assms(2) i1(2)]]
  have "outcome no_error (descriptor_open p fd \<lparr>d_object = Some (ThreadRef u),
      d_flags = f, d_cookie = 0\<rparr> s1) (in_call mo D)" if "t = Some u" for u f
    by (rule outcome_weaken [OF descriptor_open_ok [OF i1(1) slot _ i1(3) [OF that] assms(4)]]) simp_all
  then show ?thesis
    using Some t i1 assms(1)
    by (cases t) (simp_all add: create_with_target_process_def)
qed

lemma reserve_cases:
  assumes "in_call mo D s" and "active s p" and "fd_ok fd"
  obtains (failed) st s1 where "descriptor_reserve_unused p fd s = Inr (st, s1)" "st < 0" "in_call mo D s1"
      "keeps s s1"
  | (reserved) st s1 where "descriptor_reserve_unused p fd s = Inr (st, s1)" "\<not> st < 0" "in_call mo D s1"
      "keeps s s1" "reserved_slot p fd s1" "\<And>q. active s1 q = active s q" "\<And>q. live s1 q = live s q"
      "\<And>q. hdr s1 q = hdr s q"
proof -
  obtain st s1 where "descriptor_reserve_unused p fd s = Inr (st, s1)" "in_call mo D s1" "keeps s s1"
      "\<forall>q. active s1 q = active s q" "\<forall>q. live s1 q = live s q" "\<forall>q. hdr s1 q = hdr s q"
      "\<not> st < 0 \<longrightarrow> reserved_slot p fd s1"
    using outcome_totalD [OF descriptor_reserve_unused_ok [OF assms]] by auto
  then show ?thesis
    using that by (cases "st < 0") auto
qed

text \<open>A call that failed gives its reservation back.\<close>

lemma reservation_tail:
  assumes "outcome no_error m (\<lambda>(st, s'). in_call mo D s' \<and> (st < 0 \<longrightarrow> keeps s s'))"
    and "reserved_slot p fd s" and "home p s"
  shows "outcome no_error (bind_ok m (\<lambda>(st, s). if st < 0
      then bind_ok (descriptor_free_reservation p fd s) (\<lambda>s. Inr (st, s)) else Inr (st, s)))
    (\<lambda>(st, s'). in_call mo D s')"
  using assms(1)
proof (rule outcome_seq, clarsimp)
  fix st s1
  assume i: "in_call mo D s1" and "st < 0" and k: "keeps s s1"
  show "outcome no_error (descriptor_free_reservation p fd s1) (in_call mo D)"
    by (rule descriptor_free_reservation_ok [OF i reserved_after [OF assms(2) k i home_keeps [OF assms(3) k]]])
qed

lemma create_thread_ok:
  assumes "in_call mo no_debt s" and "fd_ok fd" and "fd_ok process_fd"
  shows "outcome no_error (create_thread mo fd process_fd s) (\<lambda>(st, s'). in_call mo no_debt s')"
proof -
  obtain p where p: "get_current_process s = Inr p" "home p s" "active s p"
    using current_process [OF assms(1)] by blast
  show ?thesis
  proof (cases rule: reserve_cases [OF assms(1) p(3) assms(2)])
    case (1 st s1)
    then show ?thesis
      using p(1) by (simp add: create_thread_def)
  next
    case (2 st s1)
    have h1: "home p s1"
      by (rule home_keeps [OF p(2) 2(4)])
    have "outcome no_error (create_with_descriptor_reserved mo p fd process_fd s1)
      (\<lambda>(st, s'). in_call mo no_debt s' \<and> (st < 0 \<longrightarrow> keeps s1 s'))"
    proof (cases rule: access_cases [OF 2(3) h1 assms(3)])
      case (2 err s2)
      then show ?thesis
        by (simp add: create_with_descriptor_reserved_def)
    next
      case (3 d o' s2)
      have "outcome no_error (create_with_target_process p fd d s2)
          (\<lambda>(st, s'). in_call mo (owe o' no_debt) s' \<and> (st < 0 \<longrightarrow> keeps s2 s'))"
        by (rule create_with_target_process_ok [OF 3(8,11) reserved_after [OF 2(5) 3(9,8,11)]]) simp
      from unref_tail [OF this 3(2)] show ?thesis
        using 3(1) keeps_trans [OF 3(9)]
        by (auto simp: create_with_descriptor_reserved_def elim!: outcome_weaken)
    qed simp
    from reservation_tail [OF this 2(5) h1] show ?thesis
      using p(1) 2(1,2) by (simp add: create_thread_def)
  qed
qed

text \<open>
  A thread keeps no reference on its process before it runs and after it exits, so the
  process may be gone. The calls that start or signal a thread are safe when the process
  of the target is still there.
\<close>

definition target_ok :: "nat \<Rightarrow> int \<Rightarrow> kstate \<Rightarrow> bool" where
  "target_ok p fd s \<longleftrightarrow> (\<forall>d t. slot_of p fd s = Some d \<and> descriptor_is_open d \<and>
     d_object d = Some (ThreadRef t) \<longrightarrow> active s (t_process (thr s t)))"

lemma start_thread_ok:
  assumes "in_call mo no_debt s" and "fd_ok fd" and "home p s" and "target_ok p fd s"
  shows "outcome no_error (start_thread mo fd ent stack smask s) (\<lambda>(st, s'). in_call mo no_debt s')"
proof -
  have p: "get_current_process s = Inr p"
    using current_process [OF assms(1)] assms(3) by (metis home_def)
  show ?thesis
  proof (cases rule: access_cases [OF assms(1,3,2)])
    case (2 err s1)
    then show ?thesis
      using p by (simp add: start_thread_def)
  next
    case (3 d o' s1)
    have unref: "outcome no_error (descriptor_unreference_object (pd_of mo) d s2) (in_call mo no_debt)"
      if "in_call mo (owe o' no_debt) s2" for s2
      using unref_ok [OF that 3(2)] by (metis order_refl outcome_simps(2))
    show ?thesis
    proof (cases "descriptor_get_thread d")
      case None
      then show ?thesis
        using p 3(1) unref [OF 3(8)] by (simp add: start_thread_def)
    next
      case (Some t)
      then have o': "o' = ThreadRef t"
        using get_kind(2) 3(2) by simp
      have lt: "live s1 (ThreadRef t)" and act: "active s1 (t_process (thr s1 t))"
        using 3 assms(4) o' by (auto simp: target_ok_def active_referenced)
      let ?params = "\<lparr>entry = ent, stack_addr = stack, sigmask = smask\<rparr>"
      have "\<exists>s2 s3. thread_prepare t ?params s1 = Inr s2 \<and> thread_run t s2 = Inr s3 \<and>
          in_call mo (owe o' no_debt) s3"
        if "t_state (thr s1 t) = THREAD_STATE_CREATED \<or> t_state (thr s1 t) = THREAD_STATE_ZOMBIE"
        using outcome_totalD [OF thread_start_ok [OF 3(8) lt that act, of ?params]]
        by (auto simp: bind_ok_eq_Inr)
      then show ?thesis
        using p 3(1) lt Some unref [OF 3(8)] unref by (auto simp: start_thread_def)
    qed
  qed simp
qed

lemma exit_thread_ok:
  assumes "in_call mo no_debt s"
  shows "outcome no_thread (exit_thread mo s) (switched (destroy_fuel mo) no_debt)"
  unfolding exit_thread_def
  by (rule outcome_weaken [OF thread_terminate_current_ok [OF pd_of_ok incallD(11,1,3) [OF assms]]])
    (use assms in \<open>simp add: switched_def incall_def\<close>)

lemma thread_same_calls:
  assumes "incall n D s"
  shows "thread_same (thr s (current s)) ((thr s (current s))\<lparr>cpu_credits := k\<rparr>)"
    "thread_same (thr s (current s)) ((thr s (current s))\<lparr>local_storage_addr := a, local_storage_size := b\<rparr>)"
    "thread_same (thr s (current s)) ((thr s (current s))\<lparr>blocked_signals := m\<rparr>)"
  using wf_thread [OF incallD(4,6) [OF assms]] by (simp_all add: thread_same_def recv_fine_def)

lemma yield_thread_ok:
  assumes "in_call mo no_debt s"
  shows "outcome no_error (yield_thread s) (in_call mo no_debt)"
  using incall_set_thr_same(1) [OF assms incallD(6) [OF assms] thread_same_calls(1) [OF assms]] incallD(6) [OF assms]
  by (simp add: yield_thread_def yield_current_thread_def)

lemma incall_tls: "incall n D s \<Longrightarrow> incall n D (s\<lparr>tls_segment := g\<rparr>)"
  by (simp add: incall_def in_kernel_def)

lemma set_thread_local_ok:
  assumes "in_call mo no_debt s"
  shows "outcome no_error (set_thread_local addr k s) (in_call mo no_debt)"
  using incall_set_thr_same(1) [OF assms incallD(6) [OF assms] thread_same_calls(2) [OF assms]] incallD(6) [OF assms]
  by (simp add: set_thread_local_def thread_set_local_storage_def machine_set_thread_local_storage_def incall_tls)

section \<open>Processes, endpoints and descriptors\<close>

lemma close_ok:
  assumes "in_call mo no_debt s" and "fd_ok fd"
  shows "outcome no_error (close mo fd s) (\<lambda>(st, s'). in_call mo no_debt s')"
proof -
  obtain p where p: "get_current_process s = Inr p" "home p s"
    using current_process [OF assms(1)] by blast
  have "outcome no_error (descriptor_close (pd_of mo) p fd s) (\<lambda>(st, s'). in_call mo no_debt s')"
    by (rule outcome_weaken [OF descriptor_close_ok [OF pd_of_ok assms(1) _ assms(2)]])
      (use p(2) in \<open>auto simp: home_def\<close>)
  then show ?thesis
    using p(1) by (simp add: close_def)
qed

lemma create_endpoint_ok:
  assumes "in_call mo no_debt s" and "fd_ok fd"
  shows "outcome no_error (create_endpoint fd s) (\<lambda>(st, s'). in_call mo no_debt s')"
proof -
  obtain p where p: "get_current_process s = Inr p" "home p s" "active s p"
    using current_process [OF assms(1)] by blast
  show ?thesis
  proof (cases rule: reserve_cases [OF assms(1) p(3) assms(2)])
    case (1 st s1)
    then show ?thesis
      using p(1) by (simp add: create_endpoint_def)
  next
    case (2 st s1)
    obtain e s2 where e: "endpoint_new s1 = Inr (e, s2)" and i2: "in_call mo no_debt s2" "keeps s1 s2"
        "\<And>f. e = Some f \<Longrightarrow> live s2 (EndpointRef f)"
      using outcome_totalD [OF endpoint_new_ok [OF 2(3)]] by auto
    note h2 = home_keeps [OF home_keeps [OF p(2) 2(4)] i2(2)]
    note slot = reserved_after [OF 2(5) i2(2,1) h2]
    have "outcome no_error (descriptor_free_reservation p fd s2) (in_call mo no_debt)"
      by (rule descriptor_free_reservation_ok [OF i2(1) slot])
    moreover have "outcome no_error (descriptor_open p fd \<lparr>d_object = Some (EndpointRef f),
        d_flags = g, d_cookie = 0\<rparr> s2) (in_call mo no_debt)" if "e = Some f" for f g
      by (rule outcome_weaken [OF descriptor_open_ok [OF i2(1) slot _ i2(3) [OF that]]]) simp_all
    ultimately show ?thesis
      using p(1) 2(1,2) e by (cases e) (simp_all add: create_endpoint_def)
  qed
qed

lemma create_process_ok:
  assumes "in_call mo no_debt s" and "fd_ok fd"
  shows "outcome no_error (create_process mo fd s) (\<lambda>(st, s'). in_call mo no_debt s')"
proof -
  obtain p where p: "get_current_process s = Inr p" "home p s" "active s p"
    using current_process [OF assms(1)] by blast
  show ?thesis
  proof (cases rule: reserve_cases [OF assms(1) p(3) assms(2)])
    case (1 st s1)
    then show ?thesis
      using p(1) by (simp add: create_process_def)
  next
    case (2 st s1)
    obtain q s2 where q: "process_new (machine_init_process mo) s1 = Inr (q, s2)"
      and i2: "in_call mo no_debt s2" "reserved_slot p fd s2" "\<And>f. q = Some f \<Longrightarrow> live s2 (ProcessRef f)"
      using outcome_totalD [OF process_new_ok [OF 2(3), of "machine_init_process mo"]] 2(5) by auto
    have "outcome no_error (descriptor_free_reservation p fd s2) (in_call mo no_debt)"
      by (rule descriptor_free_reservation_ok [OF i2(1,2)])
    moreover have "outcome no_error (descriptor_open p fd \<lparr>d_object = Some (ProcessRef f),
        d_flags = g, d_cookie = 0\<rparr> s2) (in_call mo no_debt)" if "q = Some f" for f g
      by (rule outcome_weaken [OF descriptor_open_ok [OF i2(1,2) _ i2(3) [OF that]]]) simp_all
    ultimately show ?thesis
      using p(1) 2(1,2) q by (cases q) (simp_all add: create_process_def)
  qed
qed

lemma unref_outcome:
  assumes "in_call mo (owe o' D) s" and "d_object d = Some o'" and "0 \<le> D o'"
  shows "outcome no_error (descriptor_unreference_object (pd_of mo) d s) (in_call mo D)"
  using unref_ok [OF assms] by (metis outcome_simps(2))

lemma destroy_ok:
  assumes "in_call mo no_debt s" and "fd_ok fd"
  shows "outcome no_error (destroy mo fd s) (\<lambda>(st, s'). in_call mo no_debt s')"
proof -
  obtain p where p: "get_current_process s = Inr p" "home p s"
    using current_process [OF assms(1)] by blast
  show ?thesis
  proof (cases rule: access_cases [OF assms(1) p(2) assms(2)])
    case (2 err s1)
    then show ?thesis
      using p(1) by (simp add: destroy_def)
  next
    case (3 d o' s1)
    note unref = unref_outcome [OF _ 3(2), of mo "no_debt"]
    have "\<exists>s2. object_destroy (pd_of mo) o' s1 = Inr s2 \<and> in_call mo (owe o' no_debt) s2"
      if "type_of o' = object_type_ipc_endpoint"
    proof -
      obtain e where e: "o' = EndpointRef e"
        using \<open>type_of o' = object_type_ipc_endpoint\<close> by (cases o') simp_all
      have "held (owe o' no_debt) s1 o'"
        using 3(3,7) by (simp add: held_def)
      then have "outcome no_error (object_destroy (pd_of mo) o' s1) (\<lambda>s'.
          kinv (owe o' no_debt) (\<lambda>_. 0) (\<lambda>_. 0) (Some (current s1)) s' \<and> shrinks s1 s' \<and>
          held (owe o' no_debt) s' o' \<and> (\<forall>p. o' = ProcessRef p \<longrightarrow> \<not> active s' p))"
        by (rule object_destroy_ok [OF pd_of_ok incallD(11,2) [OF 3(8)]]) (simp add: e)
      then show ?thesis
        using incall_shrinks(1) [OF 3(8)] by (auto dest!: outcome_totalD)
    qed
    then show ?thesis
      using p(1) 3(1,2) unref [OF 3(8)] unref by (auto simp: destroy_def nonnull_def)
  qed simp
qed

lemma process_target:
  assumes "descriptor_get_process d = Some q" and "d_object d = Some o'" and "live s o'"
    and "\<not> header_is_destroyed (hdr s o')"
  shows "active s q" "o' = ProcessRef q"
  using assms get_kind(1) [OF assms(1)] by (auto simp: active_def)

lemma dup_with_source_ok:
  assumes "in_call mo D s" and "active s target" and "fd_ok dest" and "d_object d = Some o'"
    and "live s o'" and "\<And>q. D q \<le> 8"
  shows "outcome no_error (dup_with_source target d dest s) (\<lambda>(st, s'). in_call mo D s')"
proof (cases rule: reserve_cases [OF assms(1-3)])
  case (1 st s1)
  then show ?thesis
    using assms(1) by (simp add: dup_with_source_def)
next
  case (2 st s1)
  have "outcome no_error (descriptor_open target dest d s1) (in_call mo D)"
    by (rule outcome_weaken [OF descriptor_open_ok [OF 2(3,5) assms(4) _ assms(6)]])
      (use assms(5) 2(7) in simp_all)
  then show ?thesis
    using assms(1) 2(1,2) by (simp add: dup_with_source_def)
qed

lemma unref_tail':
  assumes "outcome E m (\<lambda>(st, s'). in_call mo (owe o' D) s')" and "d_object d = Some o'" and "0 \<le> D o'"
  shows "outcome E (bind_ok m (\<lambda>(st, s). bind_ok (descriptor_unreference_object (pd_of mo) d s)
    (\<lambda>s. Inr (st, s)))) (\<lambda>(st, s'). in_call mo D s')"
  using unref_tail [where B = "\<lambda>_. False" and D = D, OF _ assms(2,3)] assms(1) by simp

lemma dup_with_target_process_ok:
  assumes "in_call mo D s" and "home p s" and "fd_ok src" and "fd_ok dest" and "d_object d = Some o'"
    and "live s o'" and "\<not> header_is_destroyed (hdr s o')" and "\<And>q. 0 \<le> D q \<and> D q \<le> 7"
  shows "outcome no_error (dup_with_target_process mo p d src dest s) (\<lambda>(st, s'). in_call mo D s')"
proof (cases "descriptor_get_process d")
  case None
  then show ?thesis
    using assms(1) by (simp add: dup_with_target_process_def)
next
  case (Some target)
  note t = process_target [OF Some assms(5-7)]
  have small: "D q \<le> 8" for q
    using assms(8) [of q] by simp
  show ?thesis
  proof (cases rule: access_cases [OF assms(1-3)])
    case 1
    then show ?case
      by (rule small)
  next
    case (2 err s1)
    then show ?thesis
      using Some assms(1) by (simp add: dup_with_target_process_def)
  next
    case (3 sd so s1)
    have "outcome no_error (dup_with_source target sd dest s1) (\<lambda>(st, s'). in_call mo (owe so D) s')"
      by (rule dup_with_source_ok [OF 3(8) _ assms(4) 3(2)])
        (use 3 t assms(8) in \<open>auto simp: active_referenced owe_def intro: order_trans [of _ 7]\<close>)
    from unref_tail' [OF this 3(2)] show ?thesis
      using Some assms(1,8) 3(1) by (simp add: dup_with_target_process_def)
  qed
qed

lemma dup_ok:
  assumes "in_call mo no_debt s" and "fd_ok process_fd" and "fd_ok src" and "fd_ok dest"
  shows "outcome no_error (dup mo process_fd src dest s) (\<lambda>(st, s'). in_call mo no_debt s')"
proof -
  obtain p where p: "get_current_process s = Inr p" "home p s"
    using current_process [OF assms(1)] by blast
  show ?thesis
  proof (cases rule: access_cases [OF assms(1) p(2) assms(2)])
    case (2 err s1)
    then show ?thesis
      using p(1) by (simp add: dup_def)
  next
    case (3 d o' s1)
    have "outcome no_error (dup_with_target_process mo p d src dest s1) (\<lambda>(st, s'). in_call mo (owe o' no_debt) s')"
      by (rule dup_with_target_process_ok [OF 3(8,11) assms(3,4) 3(2)])
        (use 3 in \<open>auto simp: owe_def referenced_def header_is_destroyed_def\<close>)
    from unref_tail' [OF this 3(2)] show ?thesis
      using p(1) 3(1) by (simp add: dup_def)
  qed simp
qed

lemma referenced_destroyed:
  "live s o' \<Longrightarrow> header_is_destroyed (hdr (referenced o' s) q) = header_is_destroyed (hdr s q)"
  by (simp add: referenced_def header_is_destroyed_def)

lemma mint_with_target_process_ok:
  assumes "in_call mo D s" and "fd_ok (mint_fd args)" and "d_object d = Some o'" and "live s o'"
    and "d_object t = Some ot" and "live s ot" and "\<not> header_is_destroyed (hdr s ot)" and "\<And>q. D q \<le> 8"
  shows "outcome no_error (mint_with_target_process d t args s) (\<lambda>(st, s'). in_call mo D s')"
proof (cases "descriptor_get_process t")
  case None
  then show ?thesis
    using assms(1) by (simp add: mint_with_target_process_def)
next
  case (Some target)
  note t = process_target [OF Some assms(5-7)]
  show ?thesis
  proof (cases rule: reserve_cases [OF assms(1) t(1) assms(2)])
    case (1 st s1)
    then show ?thesis
      using Some assms(1) by (simp add: mint_with_target_process_def)
  next
    case (2 st s1)
    have "outcome no_error (descriptor_open target (mint_fd args) \<lparr>d_object = d_object d,
        d_flags = mint_perms args, d_cookie = mint_cookie args\<rparr> s1) (in_call mo D)"
      by (rule outcome_weaken [OF descriptor_open_ok [OF 2(3,5) _ _ assms(8)]])
        (use assms(3,4) 2(7) in simp_all)
    then show ?thesis
      using Some assms(1) 2(1,2) by (simp add: mint_with_target_process_def)
  qed
qed

lemma mint_with_owner_ok:
  assumes "in_call mo D s" and "home p s" and "fd_ok (mint_process args)" and "fd_ok (mint_fd args)"
    and "d_object d = Some o'" and "live s o'" and "\<And>q. 0 \<le> D q \<and> D q \<le> 7"
  shows "outcome no_error (mint_with_owner mo p d args s) (\<lambda>(st, s'). in_call mo D s')"
proof -
  have small: "D q \<le> 8" for q
    using assms(7) [of q] by simp
  show ?thesis
  proof (cases rule: access_cases [OF assms(1-3)])
    case 1
    then show ?case
      by (rule small)
  next
    case (2 err s1)
    then show ?thesis
      using assms(1,5) by (simp add: mint_with_owner_def nonnull_def)
  next
    case (3 t ot s1)
    have "outcome no_error (mint_with_target_process d t args s1) (\<lambda>(st, s'). in_call mo (owe ot D) s')"
      by (rule mint_with_target_process_ok [OF 3(8) assms(4,5) _ 3(2)])
        (use 3 assms(6,7) in \<open>auto simp: referenced_destroyed owe_def intro: order_trans [of _ 7]\<close>)
    from unref_tail' [OF this 3(2)] show ?thesis
      using assms(1,5,7) 3(1) by (simp add: mint_with_owner_def nonnull_def)
  qed
qed

lemma mint_ok:
  assumes "in_call mo no_debt s" and "fd_ok owner" and "fd_ok (mint_process args)" and "fd_ok (mint_fd args)"
  shows "outcome no_error (mint mo owner args s) (\<lambda>(st, s'). in_call mo no_debt s')"
proof -
  obtain p where p: "get_current_process s = Inr p" "home p s"
    using current_process [OF assms(1)] by blast
  show ?thesis
  proof (cases rule: access_cases [OF assms(1) p(2) assms(2)])
    case (2 err s1)
    then show ?thesis
      using p(1) by (simp add: mint_def)
  next
    case (3 d o' s1)
    have "outcome no_error (mint_with_owner mo p d args s1) (\<lambda>(st, s'). in_call mo (owe o' no_debt) s')"
      by (rule mint_with_owner_ok [OF 3(8,11) assms(3,4) 3(2)]) (use 3 in \<open>auto simp: owe_def\<close>)
    from unref_tail' [OF this 3(2)] show ?thesis
      using p(1) 3(1) by (simp add: mint_def)
  qed simp
qed

section \<open>Memory\<close>

lemma mmap_ok:
  assumes "in_call mo no_debt s" and "fd_ok fd"
  shows "outcome no_error (mmap mo fd args s) (\<lambda>(st, s'). in_call mo no_debt s')"
proof -
  obtain p where p: "get_current_process s = Inr p" "home p s"
    using current_process [OF assms(1)] by blast
  show ?thesis
  proof (cases rule: access_cases [OF assms(1) p(2) assms(2)])
    case (2 err s1)
    then show ?thesis
      using p(1) by (simp add: mmap_def)
  next
    case (3 d o' s1)
    have "outcome no_error (mmap_with_process mo d args s1) (\<lambda>(st, s'). in_call mo (owe o' no_debt) s')"
      using 3(8) by (simp add: mmap_with_process_def split: option.splits)
    from unref_tail' [OF this 3(2)] show ?thesis
      using p(1) 3(1) by (simp add: mmap_def)
  qed simp
qed

lemma get_address_map_ok:
  assumes "in_call mo no_debt s"
  shows "outcome no_error (get_address_map mo addr k s) (\<lambda>(st, s'). in_call mo no_debt s')"
  using assms incall_umem(1) [OF assms]
  by (simp add: get_address_map_def split: prod.splits)

section \<open>Messages\<close>

lemma send_ok:
  assumes "in_call mo no_debt s" and "fd_ok fd"
  shows "outcome no_thread (send mo fd function msg s) (\<lambda>(c, s'). case c of
    Ret _ \<Rightarrow> in_call mo no_debt s' | Switched \<Rightarrow> switched (destroy_fuel mo) no_debt s')"
proof -
  obtain p where p: "get_current_process s = Inr p" "home p s"
    using current_process [OF assms(1)] by blast
  show ?thesis
  proof (cases rule: access_cases [OF assms(1) p(2) assms(2)])
    case (2 err s1)
    then show ?thesis
      using p(1) by (simp add: send_def)
  next
    case (3 d o' s1)
    note unref = no_thread_weaken [OF unref_outcome [OF 3(8,2)]]
    show ?thesis
    proof (cases "descriptor_get_endpoint d")
      case None
      then show ?thesis
        using p(1) 3(1) unref by (simp add: send_def)
    next
      case (Some e)
      then have o': "o' = EndpointRef e"
        using get_kind(3) 3(2) by simp
      have "1 \<le> owe (EndpointRef e) no_debt (EndpointRef e)"
        by simp
      note send_message_ok [OF 3(8) [unfolded o'] 3(2) [unfolded o'] this, unfolded owe_simps(3)]
      then have "outcome no_thread (send_message d e (current s1) function (d_cookie d) msg s1) (\<lambda>(c, s'). case c of
          Ret _ \<Rightarrow> in_call mo (owe o' no_debt) s' | Switched \<Rightarrow> switched (destroy_fuel mo) no_debt s')"
        by (rule outcome_weaken) (auto simp: o' split: ctl.splits)
      from unref_tail_ctl [OF this 3(2)] show ?thesis
        using p(1) 3(1) Some unref by (simp add: send_def)
    qed
  qed simp
qed

lemma receive_ok:
  assumes "in_call mo no_debt s" and "fd_ok fd"
  shows "outcome no_thread (receive mo umsg fd msg s) (\<lambda>(c, s'). case c of
    Ret _ \<Rightarrow> in_call mo no_debt s' | Switched \<Rightarrow> switched (destroy_fuel mo) no_debt s')"
proof -
  obtain p where p: "get_current_process s = Inr p" "home p s"
    using current_process [OF assms(1)] by blast
  show ?thesis
  proof (cases rule: access_cases [OF assms(1) p(2) assms(2)])
    case (2 err s1)
    then show ?thesis
      using p(1) by (simp add: receive_def)
  next
    case (3 d o' s1)
    note unref = no_thread_weaken [OF unref_outcome [OF 3(8,2)]]
    show ?thesis
    proof (cases "descriptor_get_endpoint d")
      case None
      then show ?thesis
        using p(1) 3(1) unref by (simp add: receive_def)
    next
      case (Some e)
      then have o': "o' = EndpointRef e"
        using get_kind(3) 3(2) by simp
      have "1 \<le> owe (EndpointRef e) no_debt (EndpointRef e)"
        by simp
      note receive_message_ok [OF 3(8) [unfolded o'] 3(2) [unfolded o'] this, unfolded owe_simps(3)]
      then have "outcome no_thread (receive_message d umsg e (current s1) msg s1) (\<lambda>(c, s'). case c of
          Ret _ \<Rightarrow> in_call mo (owe o' no_debt) s' | Switched \<Rightarrow> switched (destroy_fuel mo) no_debt s')"
        by (rule outcome_weaken) (auto simp: o' split: ctl.splits)
      from unref_tail_ctl [OF this 3(2)] show ?thesis
        using p(1) 3(1) Some unref by (simp add: receive_def)
    qed
  qed simp
qed

lemma reply_ok:
  assumes "in_call mo no_debt s"
  shows "outcome no_error (reply msg s) (\<lambda>(c, s'). case c of
      Ret _ \<Rightarrow> in_call mo no_debt s' | Switched \<Rightarrow> switched (destroy_fuel mo) no_debt s')"
    "outcome no_error (reply_error err s) (\<lambda>(c, s'). case c of
      Ret _ \<Rightarrow> in_call mo no_debt s' | Switched \<Rightarrow> switched (destroy_fuel mo) no_debt s')"
  unfolding reply_def reply_error_def
  by (rule outcome_weaken [OF reply_to_message_ok [OF assms]], auto split: ctl.splits)
    (rule outcome_weaken [OF reply_error_to_message_ok [OF assms]], auto split: ctl.splits)

section \<open>Signals\<close>

lemma incall_set_prc_same:
  assumes "incall n D s" and "live s (ProcessRef p)" and "p_header y = p_header (prc s p)"
    and "descriptors y = descriptors (prc s p)" and "running_threads_count y = running_threads_count (prc s p)"
  shows "incall n D (set_prc p y s)" "keeps s (set_prc p y s)"
proof -
  have "kinv D (\<lambda>_. 0) (\<lambda>_. 0) (Some (current s)) (set_prc p y s)"
    by (rule kinv_set_prc_same [OF incallD(2) [OF assms(1)] assms(2-5)])
  then show "incall n D (set_prc p y s)"
    by (rule incall_same [OF assms(1)]) (use live_dom(1) [OF assms(2)] in auto)
  show "keeps s (set_prc p y s)"
    using assms(4) by (simp add: keeps_def)
qed

lemma set_active_memory_ok:
  "incall n D s \<Longrightarrow> outcome no_error (set_active_memory m s) (\<lambda>s'. incall n D s' \<and> keeps s s')"
  by (simp add: incall_umem)

lemma get_set_signal_mask_ok:
  assumes "in_call mo no_debt s"
  shows "outcome no_error (get_set_signal_mask how uset oset s) (\<lambda>(st, s'). in_call mo no_debt s')"
proof -
  let ?c = "current s"
  note lc = incallD(6,8) [OF assms]
  have step: "in_call mo no_debt (set_thr ?c ((thr s ?c)\<lparr>blocked_signals := m\<rparr>) s)" for m
    by (rule incall_set_thr_same(1) [OF assms lc(1) thread_same_calls(3) [OF assms]])
  have mem: "outcome no_error (set_active_memory w (set_thr ?c ((thr s ?c)\<lparr>blocked_signals := m\<rparr>) s)) (in_call mo no_debt)" for w m
    using set_active_memory_ok [OF step, of w m] by (auto elim!: outcome_weaken)
  show ?thesis
    using lc assms step mem
    by (simp add: get_set_signal_mask_def Let_def split: option.splits)
qed

lemma set_signal_handler_ok:
  assumes "in_call mo no_debt s"
  shows "outcome no_error (set_signal_handler h s) (in_call mo no_debt)"
proof -
  obtain p where p: "get_current_process s = Inr p" "home p s" "active s p"
    using current_process [OF assms] by blast
  then have "live s (ProcessRef p)"
    by (simp add: active_def)
  then show ?thesis
    using p(1) by (simp add: set_signal_handler_def incall_set_prc_same [OF assms])
qed

lemma signal_with_process_ok:
  assumes "in_call mo D s" and "live s (ProcessRef p)"
  shows "outcome no_error (signal_with_process p signo s) (in_call mo D)"
  using assms by (simp add: signal_with_process_def incall_set_prc_same)

lemma signal_process_ok:
  assumes "in_call mo no_debt s" and "fd_ok fd"
  shows "outcome no_error (signal_process mo fd signo s) (\<lambda>(st, s'). in_call mo no_debt s')"
proof -
  obtain p where p: "get_current_process s = Inr p" "home p s" "active s p"
    using current_process [OF assms(1)] by blast
  have self: "outcome no_error (signal_with_process p signo s) (in_call mo no_debt)"
    by (rule signal_with_process_ok [OF assms(1)]) (use p(3) in \<open>simp add: active_def\<close>)
  show ?thesis
  proof (cases rule: access_cases [OF assms(1) p(2) assms(2)])
    case (2 err s1)
    then show ?thesis
      using p(1) assms(1) self by (simp add: signal_process_def)
  next
    case (3 d o' s1)
    note unref = unref_outcome [OF _ 3(2), of mo "no_debt"]
    have "\<exists>s2. signal_with_process q signo s1 = Inr s2 \<and> in_call mo (owe o' no_debt) s2"
      if "descriptor_get_process d = Some q" for q
      using outcome_totalD [OF signal_with_process_ok [OF 3(8), of q signo]] 3 get_kind(1) [OF that] by auto
    then show ?thesis
      using p(1) assms(1) self 3(1) unref [OF 3(8)] unref
      by (fastforce simp: signal_process_def split: option.splits)
  qed simp
qed

lemma signal_with_thread_ok:
  assumes "in_call mo D s" and "live s (ThreadRef t)" and "live s (ProcessRef (t_process (thr s t)))"
  shows "outcome no_error (signal_with_thread t signo s) (in_call mo D)"
proof -
  have "thread_same (thr s t) ((thr s t)\<lparr>t_pending_signals := m\<rparr>)" for m
    using wf_thread [OF incallD(4) [OF assms(1)] assms(2)] by (simp add: thread_same_def recv_fine_def)
  then show ?thesis
    using assms by (simp add: signal_with_thread_def incall_set_thr_same)
qed

lemma signal_thread_ok:
  assumes "in_call mo no_debt s" and "fd_ok fd" and "home p s" and "target_ok p fd s"
  shows "outcome no_error (signal_thread mo fd signo s) (\<lambda>(st, s'). in_call mo no_debt s')"
proof -
  have p: "get_current_process s = Inr p"
    using current_process [OF assms(1)] assms(3) by (metis home_def)
  have self: "outcome no_error (signal_with_thread (current s) signo s) (in_call mo no_debt)"
    by (rule signal_with_thread_ok [OF assms(1) incallD(6,8) [OF assms(1)]])
  show ?thesis
  proof (cases rule: access_cases [OF assms(1,3,2)])
    case (2 err s1)
    then show ?thesis
      using p assms(1) self by (simp add: signal_thread_def)
  next
    case (3 d o' s1)
    note unref = unref_outcome [OF _ 3(2), of mo "no_debt"]
    have "live s1 (ThreadRef t) \<and> (\<exists>s2. signal_with_thread t signo s1 = Inr s2 \<and> in_call mo (owe o' no_debt) s2)"
      if "descriptor_get_thread d = Some t" for t
    proof -
      have o': "o' = ThreadRef t"
        using get_kind(2) [OF that] 3(2) by simp
      then have "active s (t_process (thr s t))"
        using assms(4) 3 by (auto simp: target_ok_def)
      then have "live s1 (ThreadRef t)" "live s1 (ProcessRef (t_process (thr s1 t)))"
        using 3 o' by (auto simp: active_def)
      then show ?thesis
        using outcome_totalD [OF signal_with_thread_ok [OF 3(8), of t signo]] by auto
    qed
    then show ?thesis
      using p assms(1) self 3(1) unref [OF 3(8)] unref
      by (fastforce simp: signal_thread_def split: option.splits)
  qed simp
qed

section \<open>Logging\<close>

lemma read_string_user:
  assumes "unat a + k \<le> 0xc0000000"
  shows "\<exists>bs. read_string m a k = Inr bs"
  using assms
proof (induction k arbitrary: a)
  case 0
  then show ?case by simp
next
  case (Suc k)
  then have "\<not> is_kernel_pointer a"
    by (simp add: is_kernel_pointer_def word_le_nat_alt)
  moreover have "unat (a + 1) = unat a + 1"
    using Suc.prems by (simp add: unat_word_ariths)
  then have "\<exists>bs. read_string m (a + 1) k = Inr bs"
    using Suc.IH [of "a + 1"] Suc.prems by simp
  ultimately show ?case
    by auto
qed

lemma puts_ok:
  assumes "in_call mo no_debt s" and "check_userspace_buffer str len"
  shows "outcome no_error (puts loglevel facility str len s) (\<lambda>(st, s'). in_call mo no_debt s')"
proof -
  obtain bs where "read_string (umem s (t_process (thr s (current s)))) str (unat len) = Inr bs"
    using read_string_user [of str "unat len"] assms(2) by (auto simp: check_userspace_buffer_iff)
  then show ?thesis
    using assms(1) by (simp add: puts_def) (simp add: incall_def in_kernel_def)
qed

end
