(* ===== verification/Kernel.thy ===== *)
theory Kernel
  imports Calls
begin

unbundle bit_operations_syntax

text \<open>
  The system call interface keeps the invariant: dispatch, the way back to user space,
  the timer tick, and the resumption of a thread that was switched to. The kernel as a
  whole is a transition relation whose reachable states satisfy the invariant, and the
  only ways it stops are a reboot and the lack of a thread to run.
\<close>

section \<open>Results\<close>

definition stops :: "kerror \<Rightarrow> bool" where
  "stops e \<longleftrightarrow> e = Reboot \<or> e = Panic ''No thread to schedule''"

lemma stops_weaken:
  "outcome no_error m Q \<Longrightarrow> outcome stops m Q" "outcome no_thread m Q \<Longrightarrow> outcome stops m Q"
  by (auto simp: outcome_def stops_def no_thread_def split: sum.splits)

definition call_post :: "machine_ops \<Rightarrow> 'a ctl \<times> kstate \<Rightarrow> bool" where
  "call_post mo cs = (case cs of (Ret _, s) \<Rightarrow> in_call mo no_debt s
     | (Switched, s) \<Rightarrow> switched (destroy_fuel mo) no_debt s)"

lemma call_post_simps [simp]:
  "call_post mo (Ret x, s) = in_call mo no_debt s"
  "call_post mo (Switched, s) = switched (destroy_fuel mo) no_debt s"
  by (simp_all add: call_post_def)

lemma call_postI:
  "outcome E m (\<lambda>(c, s'). case c of Ret _ \<Rightarrow> in_call mo no_debt s'
    | Switched \<Rightarrow> switched (destroy_fuel mo) no_debt s') \<Longrightarrow> outcome E m (call_post mo)"
  by (erule outcome_weaken) (auto simp: call_post_def split: ctl.splits)

lemma upd_frame_ok:
  assumes "incall n D s"
  shows "outcome E (upd_frame f s) (incall n D)"
  using incall_set_thr_same [OF assms incallD(6) [OF assms] thread_same_simple(1) [OF assms incallD(6) [OF assms]]]
    incallD(6) [OF assms]
  by (simp add: upd_frame_def)

lemma finish_ok:
  assumes "in_call mo no_debt s"
  shows "outcome E (finish r s) (call_post mo)" "outcome E (finish_error r s) (call_post mo)"
    "outcome E (set_return_value r s) (in_call mo no_debt)"
    "outcome E (set_return_value_or_error r s) (in_call mo no_debt)"
  using upd_frame_ok [OF assms, of E]
  by (auto simp: finish_def finish_error_def set_return_value_or_error_def set_return_value_def
      set_error_def elim!: outcome_weaken)

lemma finish_call_ok:
  assumes "outcome no_error m (\<lambda>(st, s'). in_call mo no_debt s')"
  shows "outcome stops (finish_call m) (call_post mo)"
  unfolding finish_call_def
  by (rule outcome_seq [OF stops_weaken(1) [OF assms]]) (auto simp: finish_ok)

lemma finish_ctl_ok:
  assumes "outcome stops m (call_post mo)"
  shows "outcome stops (finish_ctl m) (call_post mo)"
  unfolding finish_ctl_def
  by (rule outcome_seq [OF assms]) (auto simp: finish_ok split: ctl.splits)

section \<open>The handlers\<close>

lemma sys_send_finish_ok:
  assumes "in_call mo no_debt s"
  shows "outcome E (sys_send_finish r s) (call_post mo)"
  using upd_frame_ok [OF assms, of E] finish_ok(1) [OF assms, of E r]
  by (auto simp: sys_send_finish_def elim!: outcome_weaken)

lemma sys_receive_finish_ok:
  assumes "in_call mo no_debt s"
  shows "outcome E (sys_receive_finish umsg res s) (call_post mo)"
proof -
  obtain r msg where res: "res = (r, msg)"
    by (cases res)
  have "outcome E (set_return_value_or_error r s) (in_call mo no_debt)"
    by (rule finish_ok(4) [OF assms])
  then show ?thesis
    unfolding sys_receive_finish_def res Let_def prod.case
  proof (rule outcome_seq)
    fix s1
    assume "in_call mo no_debt s1"
    then show "outcome E (if 0 \<le> r then bind_ok (active_memory s1) (\<lambda>m.
        bind_ok (set_active_memory (write_u32 (write_u32 (write_u32 m (umsg + 16) (recv_function msg))
          (umsg + 20) (recv_cookie msg)) (umsg + 24) (reply_max_size msg)) s1) (\<lambda>s. Inr (Ret (), s)))
        else Inr (Ret (), s1)) (call_post mo)"
      by (simp add: incall_umem)
  qed
qed

lemma sys_send_ok:
  assumes "in_call mo no_debt s" and "fd_ok (get_descriptor (msg_arg1 tf))"
  shows "outcome stops (sys_send mo tf s) (call_post mo)"
proof -
  have fin: "outcome stops (finish r s) (call_post mo)" for r
    by (rule finish_ok(1) [OF assms(1)])
  have "outcome stops (bind_ok (send mo (get_descriptor (msg_arg1 tf)) f msg s) (\<lambda>(c, s).
      case c of Switched \<Rightarrow> Inr (Switched, s) | Ret r \<Rightarrow> sys_send_finish r s)) (call_post mo)" for f msg
    by (rule outcome_seq [OF stops_weaken(2) [OF call_postI [OF send_ok [OF assms]]]])
      (auto simp: sys_send_finish_ok split: ctl.splits)
  then show ?thesis
    using fin assms(1) by (simp add: sys_send_def Let_def split: sum.splits)
qed

lemma sys_receive_ok:
  assumes "in_call mo no_debt s" and "fd_ok (get_descriptor (msg_arg1 tf))"
  shows "outcome stops (sys_receive mo tf s) (call_post mo)"
proof -
  have fin: "outcome stops (finish r s) (call_post mo)" for r
    by (rule finish_ok(1) [OF assms(1)])
  have "outcome stops (bind_ok (receive mo u (get_descriptor (msg_arg1 tf)) msg s) (\<lambda>(c, s).
      case c of Switched \<Rightarrow> Inr (Switched, s) | Ret r \<Rightarrow> sys_receive_finish u r s)) (call_post mo)" for u msg
    by (rule outcome_seq [OF stops_weaken(2) [OF call_postI [OF receive_ok [OF assms]]]])
      (auto simp: sys_receive_finish_ok split: ctl.splits)
  then show ?thesis
    using fin assms(1) by (simp add: sys_receive_def Let_def split: sum.splits)
qed

lemma sys_reply_ok:
  assumes "in_call mo no_debt s"
  shows "outcome stops (sys_reply tf s) (call_post mo)" "outcome stops (sys_reply_error tf s) (call_post mo)"
proof -
  have "outcome stops (finish r s) (call_post mo)" for r
    by (rule finish_ok(1) [OF assms])
  moreover have "outcome stops (finish_ctl (reply msg s)) (call_post mo)" for msg
    by (rule finish_ctl_ok [OF stops_weaken(1) [OF call_postI [OF reply_ok(1) [OF assms]]]])
  ultimately show "outcome stops (sys_reply tf s) (call_post mo)"
    using assms by (simp add: sys_reply_def split: sum.splits)
  show "outcome stops (sys_reply_error tf s) (call_post mo)"
    unfolding sys_reply_error_def
    by (rule finish_ctl_ok [OF stops_weaken(1) [OF call_postI [OF reply_ok(2) [OF assms]]]])
qed

lemma return_from_signal_ok:
  assumes "in_call mo no_debt s"
  shows "outcome no_error (return_from_signal mo uc s) (\<lambda>(st, s'). in_call mo no_debt s')"
proof -
  let ?c = "current s"
  note lc = incallD(6,8) [OF assms]
  have "in_call mo no_debt (set_thr ?c ((thr s ?c)\<lparr>t_frame := f, blocked_signals := b\<rparr>) s)" for f b
    by (rule incall_set_thr_same(1) [OF assms lc(1)])
      (use wf_thread [OF incallD(4,6) [OF assms]] in \<open>simp add: thread_same_def recv_fine_def\<close>)
  then show ?thesis
    using assms lc by (simp add: return_from_signal_def)
qed

section \<open>Dispatch\<close>

text \<open>
  What a call has to satisfy for the kernel to be safe, beyond what the kernel checks
  itself: no descriptor argument is the one number past the table that the bounds check
  lets through, the string given to \<open>puts\<close> is in user memory, and the process of a
  thread to start or signal has not been destroyed.
\<close>

definition call_ok :: "kstate \<Rightarrow> bool" where
  "call_ok s =
     (let tf = t_frame (thr s (current s)); p = t_process (thr s (current s)); m = umem s p;
          function = to_int (msg_arg0 tf);
          ok = (\<lambda>v. fd_ok (get_descriptor v))
      in if function = 3 then check_userspace_buffer (msg_arg2 tf) (msg_arg3 tf)
         else if function = 4 then ok (msg_arg1 tf) \<and> ok (msg_arg2 tf)
         else if function \<in> {9, 10, 13, 14, 17, 18, 21, 23} then ok (msg_arg1 tf)
         else if function = 16 then ok (msg_arg1 tf) \<and> ok (msg_arg2 tf) \<and> ok (msg_arg3 tf)
         else if function = 19 then ok (msg_arg1 tf) \<and> ok (read_u32 m (msg_arg2 tf)) \<and>
           ok (read_u32 m (msg_arg2 tf + 4))
         else if function \<in> {20, 24} then ok (msg_arg1 tf) \<and>
           target_ok p (get_descriptor (msg_arg1 tf)) s
         else if JINUE_SYS_USER_BASE \<le> function then ok (msg_arg1 tf)
         else True)"

lemma fd_ok_minus [simp]: "fd_ok (-1)"
  by (simp add: fd_ok_def)

lemma get_signal_descriptor_ok:
  "fd_ok (get_descriptor v) \<Longrightarrow> get_signal_descriptor v = Inr fd \<Longrightarrow> fd_ok fd"
  by (auto simp: get_signal_descriptor_def Let_def fd_ok_def split: if_splits)

lemma signal_target:
  assumes "get_signal_descriptor v = Inr fd" and "target_ok p (get_descriptor v) s"
  shows "target_ok p fd s"
  using assms
  by (auto simp: get_signal_descriptor_def Let_def target_ok_def slot_of_def dereference_def split: if_splits)

lemma sys_simple_ok:
  assumes "in_call mo no_debt s"
  shows "outcome stops (sys_nosys s) (call_post mo)" "outcome stops (sys_reboot s) (call_post mo)"
    "outcome stops (sys_yield_thread s) (call_post mo)" "outcome stops (sys_exit_thread mo s) (call_post mo)"
    "outcome stops (sys_set_thread_local tf s) (call_post mo)"
    "outcome stops (sys_get_address_map mo tf s) (call_post mo)"
    "outcome stops (sys_return_from_signal mo tf s) (call_post mo)"
    "outcome stops (sys_get_set_signal_mask tf s) (call_post mo)"
    "outcome stops (sys_set_signal_handler tf s) (call_post mo)"
proof -
  note err = finish_ok(2) [OF assms, of stops]
  show "outcome stops (sys_nosys s) (call_post mo)" "outcome stops (sys_reboot s) (call_post mo)"
    using err by (simp_all add: sys_nosys_def sys_reboot_def reboot_def stops_def)
  show "outcome stops (sys_yield_thread s) (call_post mo)"
    unfolding sys_yield_thread_def
    by (rule outcome_seq [OF stops_weaken(1) [OF yield_thread_ok [OF assms]]]) (simp add: finish_ok)
  show "outcome stops (sys_exit_thread mo s) (call_post mo)"
    unfolding sys_exit_thread_def
    by (rule outcome_seq [OF stops_weaken(2) [OF exit_thread_ok [OF assms]]]) simp
  have "outcome stops (bind_ok (set_thread_local a k s) (finish 0)) (call_post mo)" for a k
    by (rule outcome_seq [OF stops_weaken(1) [OF set_thread_local_ok [OF assms]]]) (rule finish_ok)
  then show "outcome stops (sys_set_thread_local tf s) (call_post mo)"
    using err by (simp add: sys_set_thread_local_def Let_def del: outcome_bind)
  show "outcome stops (sys_get_address_map mo tf s) (call_post mo)"
    using err finish_call_ok [OF get_address_map_ok [OF assms]]
    by (simp add: sys_get_address_map_def Let_def)
  show "outcome stops (sys_return_from_signal mo tf s) (call_post mo)"
    using err finish_call_ok [OF return_from_signal_ok [OF assms]]
    by (simp add: sys_return_from_signal_def)
  show "outcome stops (sys_get_set_signal_mask tf s) (call_post mo)"
    using err finish_call_ok [OF get_set_signal_mask_ok [OF assms]]
    by (simp add: sys_get_set_signal_mask_def Let_def)
  show "outcome stops (sys_set_signal_handler tf s) (call_post mo)"
    using err stops_weaken(1) [OF set_signal_handler_ok [OF assms]]
    by (simp add: sys_set_signal_handler_def)
qed

lemma sys_descriptor_ok:
  assumes "in_call mo no_debt s" and "fd_ok (get_descriptor (msg_arg1 tf))"
  shows "outcome stops (sys_create_endpoint tf s) (call_post mo)"
    "outcome stops (sys_create_process mo tf s) (call_post mo)"
    "outcome stops (sys_close mo tf s) (call_post mo)" "outcome stops (sys_destroy mo tf s) (call_post mo)"
    "outcome stops (sys_await_thread mo tf s) (call_post mo)"
    "outcome stops (sys_mmap mo tf s) (call_post mo)"
    "outcome stops (sys_signal_process mo tf s) (call_post mo)"
    "fd_ok (get_descriptor (msg_arg2 tf)) \<Longrightarrow> outcome stops (sys_create_thread mo tf s) (call_post mo)"
    "fd_ok (get_descriptor (msg_arg2 tf)) \<Longrightarrow> fd_ok (get_descriptor (msg_arg3 tf)) \<Longrightarrow>
      outcome stops (sys_dup mo tf s) (call_post mo)"
proof -
  note fin = finish_ok(1,2) [OF assms(1), of stops]
  show "outcome stops (sys_create_endpoint tf s) (call_post mo)"
      "outcome stops (sys_create_process mo tf s) (call_post mo)"
      "outcome stops (sys_close mo tf s) (call_post mo)" "outcome stops (sys_destroy mo tf s) (call_post mo)"
    using fin finish_call_ok [OF create_endpoint_ok [OF assms]] finish_call_ok [OF create_process_ok [OF assms]]
      finish_call_ok [OF close_ok [OF assms]] finish_call_ok [OF destroy_ok [OF assms]]
    by (simp_all add: sys_create_endpoint_def sys_create_process_def sys_close_def sys_destroy_def Let_def)
  show "outcome stops (sys_await_thread mo tf s) (call_post mo)"
    using fin finish_ctl_ok [OF stops_weaken(2) [OF call_postI [OF await_thread_ok [OF assms]]]]
    by (simp add: sys_await_thread_def Let_def)
  show "outcome stops (sys_mmap mo tf s) (call_post mo)"
    using fin finish_call_ok [OF mmap_ok [OF assms]] assms(1)
    by (simp add: sys_mmap_def Let_def split: option.splits)
  show "outcome stops (sys_signal_process mo tf s) (call_post mo)"
    using fin get_signal_descriptor_ok [OF assms(2)] finish_call_ok [OF signal_process_ok [OF assms(1)]]
    by (simp add: sys_signal_process_def split: sum.splits)
  show "outcome stops (sys_create_thread mo tf s) (call_post mo)" if "fd_ok (get_descriptor (msg_arg2 tf))"
    using fin finish_call_ok [OF create_thread_ok [OF assms that]]
    by (simp add: sys_create_thread_def Let_def)
  show "outcome stops (sys_dup mo tf s) (call_post mo)"
    if "fd_ok (get_descriptor (msg_arg2 tf))" "fd_ok (get_descriptor (msg_arg3 tf))"
    using fin finish_call_ok [OF dup_ok [OF assms that]]
    by (simp add: sys_dup_def Let_def)
qed

lemma sys_mint_ok:
  assumes "in_call mo no_debt s" and "fd_ok (get_descriptor (msg_arg1 tf))"
    and "m = umem s (t_process (thr s (current s)))"
    and "fd_ok (get_descriptor (read_u32 m (msg_arg2 tf)))" "fd_ok (get_descriptor (read_u32 m (msg_arg2 tf + 4)))"
  shows "outcome stops (sys_mint mo tf s) (call_post mo)"
  using finish_ok(1,2) [OF assms(1), of stops] finish_call_ok [OF mint_ok [OF assms(1,2)]] assms
  by (simp add: sys_mint_def Let_def)

lemma sys_thread_target_ok:
  assumes "in_call mo no_debt s" and "fd_ok (get_descriptor (msg_arg1 tf))"
    and "target_ok (t_process (thr s (current s))) (get_descriptor (msg_arg1 tf)) s"
  shows "outcome stops (sys_start_thread mo tf s) (call_post mo)"
    "outcome stops (sys_signal_thread mo tf s) (call_post mo)"
proof -
  have h: "home (t_process (thr s (current s))) s"
    by (simp add: home_def)
  note fin = finish_ok(1,2) [OF assms(1), of stops]
  show "outcome stops (sys_start_thread mo tf s) (call_post mo)"
    using fin finish_call_ok [OF start_thread_ok [OF assms(1,2) h assms(3)]] assms(1)
    by (simp add: sys_start_thread_def Let_def)
  show "outcome stops (sys_signal_thread mo tf s) (call_post mo)"
    using fin finish_call_ok [OF signal_thread_ok [OF assms(1) get_signal_descriptor_ok [OF assms(2)] h signal_target [OF _ assms(3)]]]
    by (simp add: sys_signal_thread_def split: sum.splits)
qed

lemma sys_puts_ok:
  assumes "in_call mo no_debt s" and "check_userspace_buffer (msg_arg2 tf) (msg_arg3 tf)"
  shows "outcome stops (sys_puts tf s) (call_post mo)"
  unfolding sys_puts_def Let_def by (rule finish_call_ok [OF puts_ok [OF assms]])

lemma dispatch_ok:
  assumes "in_call mo no_debt s" and "call_ok s" and "tf = t_frame (thr s (current s))"
  shows "outcome stops (dispatch mo tf s) (call_post mo)"
proof -
  let ?f = "to_int (msg_arg0 tf)"
  note ok = assms(2) [unfolded call_ok_def Let_def assms(3) [symmetric]]
  note simple = sys_simple_ok [OF assms(1)] finish_ok(2) [OF assms(1), of stops] sys_reply_ok [OF assms(1)]
  consider "?f < 0" | "?f \<in> {2, 5, 6, 8, 11, 12, 22, 25, 26, 27}" | "?f = 3" | "?f = 4"
    | "?f \<in> {9, 10, 13, 14, 17, 18, 21, 23}" | "?f = 16" | "?f = 19" | "?f \<in> {20, 24}"
    | "?f \<in> {0..<4096} - {2, 3, 4, 5, 6, 8, 9, 10, 11, 12, 13, 14, 16, 17, 18, 19, 20, 21, 22, 23, 24, 25, 26, 27}"
    | "4096 \<le> ?f"
    by fastforce
  then show ?thesis
  proof cases
    case 1
    then show ?thesis by (simp add: dispatch_def Let_def simple)
  next
    case 2
    then show ?thesis by (auto simp: dispatch_def Let_def simple JINUE_SYS_USER_BASE_def)
  next
    case 3
    then show ?thesis
      using ok sys_puts_ok [OF assms(1)] by (simp add: dispatch_def Let_def JINUE_SYS_USER_BASE_def)
  next
    case 4
    then show ?thesis
      using ok sys_descriptor_ok(8) [OF assms(1)] by (simp add: dispatch_def Let_def JINUE_SYS_USER_BASE_def)
  next
    case 5
    then have "fd_ok (get_descriptor (msg_arg1 tf))"
      using ok by auto
    then show ?thesis
      using 5 sys_descriptor_ok(1-7) [OF assms(1)] sys_receive_ok [OF assms(1)]
      by (auto simp: dispatch_def Let_def JINUE_SYS_USER_BASE_def)
  next
    case 6
    then show ?thesis
      using ok sys_descriptor_ok(9) [OF assms(1)] by (simp add: dispatch_def Let_def JINUE_SYS_USER_BASE_def)
  next
    case 7
    then show ?thesis
      using ok sys_mint_ok [OF assms(1) _ refl] by (simp add: dispatch_def Let_def JINUE_SYS_USER_BASE_def)
  next
    case 8
    then have "fd_ok (get_descriptor (msg_arg1 tf)) \<and>
        target_ok (t_process (thr s (current s))) (get_descriptor (msg_arg1 tf)) s"
      using ok by auto
    then show ?thesis
      using 8 sys_thread_target_ok [OF assms(1)] by (auto simp: dispatch_def Let_def JINUE_SYS_USER_BASE_def)
  next
    case 9
    then show ?thesis
      by (simp add: dispatch_def Let_def JINUE_SYS_USER_BASE_def simple)
  next
    case 10
    then show ?thesis
      using ok sys_send_ok [OF assms(1)] by (simp add: dispatch_def Let_def JINUE_SYS_USER_BASE_def)
  qed
qed

section \<open>Signals on the way back to user space\<close>

lemma signal_loop_finds:
  assumes "signal_loop w k = None" and "k \<le> i" and "i < 64"
  shows "\<not> bit w i"
  using assms
proof (induction w k rule: signal_loop.induct)
  case (1 w k)
  have "k < 64"
    using 1(3,4) by simp
  then have zero: "w AND push_bit k 1 = 0" and rest: "signal_loop w (Suc k) = None"
    using 1(2) by (simp_all add: signal_loop.simps [of w k] split: if_splits)
  show ?case
  proof (cases "i = k")
    case True
    then show ?thesis
      using zero 1(4) by (auto simp: bit_eq_iff bit_simps)
  next
    case False
    then show ?thesis
      using 1(1) [OF _ zero rest] \<open>k < 64\<close> 1(3,4) by simp
  qed
qed

lemma signal_loop_total: "signal_loop w 0 = None \<Longrightarrow> w = 0"
  by (rule bit_eqI) (use signal_loop_finds in simp)

lemma choose_signal_ends: "choose_signal th p \<noteq> Endless"
  by (auto simp: choose_signal_def Let_def dest: signal_loop_total split: option.splits)

lemma choose_signal_same:
  assumes "choose_signal th p = Deliver signo blocked th' p'"
  shows "t_header th' = t_header th" "t_state th' = t_state th" "t_process th' = t_process th"
    "t_kont th' = t_kont th" "t_sender th' = t_sender th" "t_awaiter th' = t_awaiter th"
    "message_buffer th' = message_buffer th" "message_size th' = message_size th"
    "message_errno th' = message_errno th" "t_frame th' = t_frame th"
    "p_header p' = p_header p" "descriptors p' = descriptors p"
    "running_threads_count p' = running_threads_count p"
  using assms unfolding choose_signal_def Let_def
  by (auto split: if_splits option.splits)

lemma check_for_signal_ok:
  assumes "incall n D s"
  shows "outcome no_error (check_for_signal mo s) (incall n D)"
proof -
  let ?c = "current s"
  define p where "p = t_process (thr s ?c)"
  note lc = incallD(6,8) [OF assms, folded p_def]
  show ?thesis
  proof (cases "choose_signal (thr s ?c) (prc s p)")
    case (Deliver signo blocked th p')
    note same = choose_signal_same [OF Deliver]
    define s1 where "s1 = set_prc p p' s"
    note i1 = incall_set_prc_same [OF assms lc(2) same(11-13), folded s1_def]
    have c1: "current s1 = ?c" "thr s1 ?c = thr s ?c" "live s1 (ThreadRef ?c)"
      using lc by (simp_all add: s1_def)
    have "thread_same (thr s1 (current s1)) (th\<lparr>t_frame := f\<rparr>)" for f
      using wf_thread [OF incallD(4,6) [OF i1(1)]] same
      by (simp add: thread_same_def recv_fine_def c1)
    then have i2: "incall n D (set_thr ?c (th\<lparr>t_frame := f\<rparr>) s1)" for f
      using incall_set_thr_same(1) [OF i1(1), of ?c] c1 by simp
    have "outcome no_error (set_active_memory m (set_thr ?c (th\<lparr>t_frame := f\<rparr>) s1)) (incall n D)" for m f
      using set_active_memory_ok [OF i2, of m f] by (auto elim!: outcome_weaken)
    then show ?thesis
      using lc Deliver c1 i1(1)
      by (simp add: check_for_signal_def p_def [symmetric] s1_def [symmetric] split: prod.splits)
  qed (use assms lc choose_signal_ends in \<open>auto simp: check_for_signal_def p_def\<close>)
qed

section \<open>Returning, ticking and resuming\<close>

lemma trap_exit_ok:
  assumes "call_post mo cs"
  shows "outcome no_error (trap_exit mo cs) (switched (destroy_fuel mo) no_debt)"
proof -
  obtain c s where cs: "cs = (c, s)"
    by (cases cs)
  show ?thesis
  proof (cases c)
    case Switched
    then show ?thesis
      using assms cs by (simp add: trap_exit_def)
  next
    case (Ret x)
    then have i: "in_call mo no_debt s"
      using assms cs by simp
    obtain r s1 where r: "reschedule s = Inr (r, s1)" and post: "in_kernel no_debt s1"
        "dom (processes s1) = dom (processes s)" "r = Ret () \<longrightarrow> t_kont (thr s1 (current s1)) = K_user"
      using outcome_totalD [OF reschedule_ok [OF incallD(1,3) [OF i]]] by auto
    show ?thesis
    proof (cases r)
      case (Ret u)
      then have i1: "in_call mo no_debt s1"
        using post i by (simp add: incall_def)
      have "outcome no_error (check_for_signal mo s1) (switched (destroy_fuel mo) no_debt)"
        by (rule outcome_weaken [OF check_for_signal_ok [OF i1] incall_switched])
      then show ?thesis
        using Ret cs \<open>c = Ret x\<close> r by (simp add: trap_exit_def to_user_def)
    next
      case Switched
      then show ?thesis
        using cs \<open>c = Ret x\<close> r post i by (simp add: trap_exit_def switched_def incall_def)
    qed
  qed
qed

lemma handle_trap_syscall_ok:
  assumes "in_call mo no_debt s" and "call_ok s"
  shows "outcome stops (handle_trap_syscall mo s) (switched (destroy_fuel mo) no_debt)"
proof -
  have "outcome stops (handle_syscall mo s) (call_post mo)"
    using dispatch_ok [OF assms refl] incallD(6) [OF assms(1)]
    by (simp add: handle_syscall_def cur_frame_def)
  then show ?thesis
    unfolding handle_trap_syscall_def
    by (rule outcome_seq) (rule stops_weaken(1) [OF trap_exit_ok])
qed

lemma handle_trap_tick_ok:
  assumes "in_call mo no_debt s"
  shows "outcome no_error (handle_trap_tick mo s) (switched (destroy_fuel mo) no_debt)"
proof -
  let ?x = "thr s (current s)"
  have "thread_same ?x (if cpu_credits ?x > 0 then ?x\<lparr>cpu_credits := cpu_credits ?x - 1\<rparr> else ?x)"
    using thread_same_calls(1) [OF assms] wf_thread [OF incallD(4,6) [OF assms]] by (simp add: thread_same_def)
  then have "outcome no_error (tick_interrupt s) (\<lambda>s'. call_post mo (Ret (), s'))"
    using incall_set_thr_same(1) [OF assms incallD(6) [OF assms]] incallD(6) [OF assms]
    by (simp add: tick_interrupt_def scheduler_tick_def)
  then show ?thesis
    unfolding handle_trap_tick_def by (rule outcome_seq) (rule trap_exit_ok)
qed

text \<open>Resuming takes the reference the stack held into the hands of the running code.\<close>

definition taken :: "kont \<Rightarrow> (obj_ref \<Rightarrow> int) \<Rightarrow> (obj_ref \<Rightarrow> int)" where
  "taken k D = (case kont_obj k of None \<Rightarrow> D | Some o' \<Rightarrow> owe o' D)"

lemma kinv_take_kont:
  assumes "kinv D V R (Some c) s"
  shows "kinv (taken (t_kont (thr s c)) D) V R (Some c) (set_thr c ((thr s c)\<lparr>t_kont := K_user\<rparr>) s)"
proof (rule kinvI)
  let ?x = "(thr s c)\<lparr>t_kont := K_user\<rparr>"
  let ?s = "set_thr c ?x s"
  let ?D = "taken (t_kont (thr s c)) D"
  note run = kinv_running [OF assms]
  note [simp] = run(1)
  have wf: "wf s" and acct: "acct D V R s" and q: "queues (Some c) s"
    using assms by (simp_all add: kinv_def)
  have strt: "is_started (t_state (thr s c))"
    using run(3) by (simp add: started_def)
  have mono: "D o' \<le> ?D o'" for o'
    by (simp add: taken_def owe_def split: option.splits)
  show "wf ?s"
    using wf wf_thread [OF wf run(1)] by simp
  show "acct ?D V R ?s"
  proof (rule acct_set_thr [OF wf run(1) acct])
    show "(if is_started (t_state ?x) then thread_w o' c ?x else 0) = tw s o' c + D o' - ?D o'" for o'
      using strt run(3) by (auto simp: tw_def thread_w_def taken_def owe_def split: option.splits)
    show "(if is_started (t_state ?x) \<and> t_process ?x = p then 1 else 0) = runs_in s p c + R p - R p" for p
      using strt run(3) by (simp add: runs_in_def)
    show "0 \<le> ?D o'" for o'
      using mono [of o'] acct_nonneg [OF acct, of o'] by simp
    show "V e \<le> ?D (EndpointRef e)" for e
      using acct mono [of "EndpointRef e"] unfolding acct_def by (meson order_trans)
    show "0 \<le> R p \<and> R p \<le> ?D (ProcessRef p)" for p
      using acct mono [of "ProcessRef p"] unfolding acct_def by (meson order_trans)
  qed simp
  have st: "started ?s t = started s t" for t
    using strt run(3) by simp
  have b: "sending ?s t e = sending s t e" "receiving ?s t e = receiving s t e"
      "awaiting ?s t w = awaiting s t w" for t e w
    using run(2) by (auto simp: sending_def receiving_def awaiting_def)
  have x: "thr ?s t = (if t = c then ?x else thr s t)" for t
    by simp
  have keep: "t_sender (thr ?s t) = t_sender (thr s t)" "t_awaiter (thr ?s t) = t_awaiter (thr s t)"
      "t_process (thr ?s t) = t_process (thr s t)" "t_state (thr ?s t) = t_state (thr s t)"
      "recv_fine (thr s t) \<Longrightarrow> recv_fine (thr ?s t)" "kont_ok (t_kont (thr s t)) \<Longrightarrow> kont_ok (t_kont (thr ?s t))" for t
    by (simp_all add: recv_fine_def)
  note qd = queuesD [OF q]
  have "q_recv ?s" "q_kont ?s"
    using qd(6,8) keep(5,6) unfolding q_recv_def q_kont_def st by blast+
  moreover have "q_ready ?s" "q_running (Some c) ?s" "q_sender ?s" "q_await ?s" "q_proc ?s"
    using qd(1,2,4,5,7) unfolding q_ready_def q_running_def q_sender_def q_await_def q_proc_def st b keep
    by simp_all
  ultimately show "queues (Some c) ?s"
    using qd by (simp add: queues_def q_lists_def q_slots_def q_free_def b)
qed

lemma resume_taken:
  assumes "switched n D s"
  shows "incall n (taken (t_kont (thr s (current s))) D)
    (set_thr (current s) ((thr s (current s))\<lparr>t_kont := K_user\<rparr>) s)"
  using assms kinv_take_kont [OF in_kernelD(1), of D s] in_kernelD(3) [of D s]
  by (simp add: switched_def incall_def in_kernel_def)

lemma resume_ok:
  assumes "switched (destroy_fuel mo) no_debt s"
  shows "outcome no_thread (resume mo s) (switched (destroy_fuel mo) no_debt)"
proof -
  let ?c = "current s"
  define k where "k = t_kont (thr s ?c)"
  define s1 where "s1 = set_thr ?c ((thr s ?c)\<lparr>t_kont := K_user\<rparr>) s"
  note ker = assms [unfolded switched_def, THEN conjunct1]
  note lc = in_kernelD(3,4) [OF ker]
  note i1 = resume_taken [OF assms, folded s1_def k_def]
  have c1: "current s1 = ?c"
    by (simp add: s1_def)
  have eq: "resume mo s = resume_kont mo k s1"
    using lc by (simp add: resume_def save_kont_def s1_def k_def)
  have exit: "outcome no_thread (trap_exit mo cs) (switched (destroy_fuel mo) no_debt)" if "call_post mo cs" for cs
    by (rule no_thread_weaken [OF trap_exit_ok [OF that]])
  have fin: "outcome no_thread (bind_ok (finish r s2) (trap_exit mo)) (switched (destroy_fuel mo) no_debt)"
    if "in_call mo no_debt s2" for r s2
    by (rule outcome_seq [OF finish_ok(1) [OF that]]) (rule exit)
  have kok: "kont_ok k" and rfine: "recv_fine (thr s ?c)"
    using queuesD(6,8) [OF kinvD(3) [OF in_kernelD(1) [OF ker]]] lc by (simp_all add: q_kont_def q_recv_def k_def)
  show ?thesis
  proof (cases k)
    case K_user
    then show ?thesis
      using i1 incall_switched by (simp add: eq resume_kont_def taken_def)
  next
    case K_start
    then show ?thesis
      using i1 incall_switched by (simp add: eq resume_kont_def taken_def)
  next
    case K_reschedule
    then have "in_call mo no_debt s1"
      using i1 by (simp add: taken_def)
    from no_thread_weaken [OF outcome_weaken [OF check_for_signal_ok [OF this] incall_switched]]
    show ?thesis
      by (simp add: eq resume_kont_def K_reschedule to_user_def)
  next
    case K_reply
    then show ?thesis
      using i1 fin by (simp add: eq resume_kont_def taken_def del: outcome_bind)
  next
    case (K_await d)
    then obtain t where d: "d_object d = Some (ThreadRef t)"
      using kok by auto
    then have "in_call mo (owe (ThreadRef t) no_debt) s1"
      using i1 K_await by (simp add: taken_def)
    from outcome_seq [OF no_thread_weaken [OF unref_outcome [OF this d]] fin] show ?thesis
      by (simp add: eq resume_kont_def K_await del: outcome_bind)
  next
    case (K_send d msg)
    then obtain e where d: "d_object d = Some (EndpointRef e)"
      using kok by auto
    then have i: "in_call mo (owe (EndpointRef e) no_debt) s1"
      using i1 K_send by (simp add: taken_def)
    obtain r s2 where r: "send_message_resume ?c msg s1 = Inr (r, s2)"
      and i2: "in_call mo (owe (EndpointRef e) no_debt) s2"
      using outcome_totalD [OF send_message_resume_ok [OF i, of msg]] c1 by auto
    have "outcome no_thread (bind_ok (sys_send_finish r s3) (trap_exit mo)) (switched (destroy_fuel mo) no_debt)"
      if "in_call mo no_debt s3" for s3
      by (rule outcome_seq [OF sys_send_finish_ok [OF that]]) (rule exit)
    from outcome_seq [OF no_thread_weaken [OF unref_outcome [OF i2 d]] this] r show ?thesis
      by (simp add: eq resume_kont_def K_send c1 del: outcome_bind)
  next
    case (K_receive d msg rsize umsg)
    then obtain e where d: "d_object d = Some (EndpointRef e)"
      using kok by auto
    then have i: "in_call mo (owe (EndpointRef e) no_debt) s1"
      using i1 K_receive by (simp add: taken_def)
    have "message_errno (thr s1 (current s1)) \<noteq> 0 \<or> t_sender (thr s1 (current s1)) \<noteq> None"
      using rfine in_kernelD(5) [OF ker] K_receive by (auto simp: recv_fine_def k_def s1_def)
    note rm = receive_message_resume_ok [OF i d _ this, unfolded owe_simps(3) c1]
    have tail: "outcome no_thread (bind_ok (sys_receive_finish umsg res s3) (trap_exit mo))
        (switched (destroy_fuel mo) no_debt)" if "in_call mo no_debt s3" for res s3
      by (rule outcome_seq [OF sys_receive_finish_ok [OF that]]) (rule exit)
    have "outcome no_thread (bind_ok (receive_message_resume d umsg e ?c rsize msg s1) (\<lambda>(c, s).
        case c of Switched \<Rightarrow> Inr s | Ret res \<Rightarrow>
          bind_ok (descriptor_unreference_object (pd_of mo) d s) (\<lambda>s.
          bind_ok (sys_receive_finish umsg res s) (trap_exit mo)))) (switched (destroy_fuel mo) no_debt)"
      using rm
    proof (rule outcome_seq)
      fix x :: "(int \<times> jinue_message) ctl \<times> kstate"
      assume post: "case x of (r, s') \<Rightarrow> (case r of Ret _ \<Rightarrow>
          in_call mo (owe (EndpointRef e) no_debt) s' \<and> current s' = ?c | Switched \<Rightarrow> switched (destroy_fuel mo) no_debt s')"
      obtain r s2 where x: "x = (r, s2)"
        by (cases x)
      show "outcome no_thread (case x of (c, s) \<Rightarrow> case c of Switched \<Rightarrow> Inr s | Ret res \<Rightarrow>
          bind_ok (descriptor_unreference_object (pd_of mo) d s) (\<lambda>s.
          bind_ok (sys_receive_finish umsg res s) (trap_exit mo))) (switched (destroy_fuel mo) no_debt)"
      proof (cases r)
        case Switched
        then show ?thesis
          using post x by simp
      next
        case (Ret res)
        then have "in_call mo (owe (EndpointRef e) no_debt) s2"
          using post x by simp
        from outcome_seq [OF no_thread_weaken [OF unref_outcome [OF this d]] tail] Ret x show ?thesis
          by (simp del: outcome_bind)
      qed
    qed simp
    then show ?thesis
      using d by (simp add: eq resume_kont_def K_receive c1 nonnull_def descriptor_get_endpoint.simps del: outcome_bind)
  qed
qed

end
