(* ===== verification/Boot.thy ===== *)
theory Boot
  imports Dispatch
begin

text \<open>
  The start of the kernel, \<open>kernel/application/kmain.c\<close> and \<open>kernel/domain/services/exec.c\<close>:
  the first process and its main thread are created from the object caches, the user
  space loader is loaded, two descriptors are set up and the thread is run. Loading the
  binary (\<open>machine_load_exec\<close>) is a parameter: it yields the entry point and stack of the
  thread and the content of the user memory.
\<close>

record loader_image =
  image_params :: thread_params
  image_memory :: "u32 \<Rightarrow> u8"

definition JINUE_DESC_SELF_PROCESS :: int where "JINUE_DESC_SELF_PROCESS = 0"
definition JINUE_DESC_MAIN_THREAD :: int where "JINUE_DESC_MAIN_THREAD = 1"

definition set_descriptor :: "nat \<Rightarrow> int \<Rightarrow> obj_ref \<Rightarrow> kstate \<Rightarrow> kstate result" where
  "set_descriptor p fd o' s =
     bind_ok (descriptor_reserve_unused p fd s) (\<lambda>(status, s).
       if status < 0 then Inl (Panic ''Could not set up predefined descriptor for user space loader'')
       else descriptor_open p fd
              \<lparr>d_object = Some o', d_flags = all_permissions (type_of o'), d_cookie = 0\<rparr> s)"

definition exec_initialize_descriptors :: "nat \<Rightarrow> nat \<Rightarrow> kstate \<Rightarrow> kstate result" where
  "exec_initialize_descriptors p t s =
     bind_ok (set_descriptor p JINUE_DESC_SELF_PROCESS (ProcessRef p) s)
       (set_descriptor p JINUE_DESC_MAIN_THREAD (ThreadRef t))"

definition exec :: "nat \<Rightarrow> nat \<Rightarrow> loader_image \<Rightarrow> kstate \<Rightarrow> kstate result" where
  "exec p t img s =
     bind_ok (thread_prepare t (image_params img)
         (s\<lparr>umem := (umem s)(p := image_memory img)\<rparr>))
       (exec_initialize_descriptors p t)"

definition kmain :: "machine_ops \<Rightarrow> loader_image \<Rightarrow> kstate \<Rightarrow> kstate result" where
  "kmain mo img s =
     bind_ok (process_new (machine_init_process mo) s) (\<lambda>(process, s).
       case process of
         None \<Rightarrow> Inl (Panic ''Could not create initial process.'')
       | Some p \<Rightarrow>
           bind_ok (process_switch_to p s) (\<lambda>s.
           bind_ok (thread_new p s) (\<lambda>(thread, s).
             case thread of
               None \<Rightarrow> Inl (Panic ''Could not create initial thread.'')
             | Some t \<Rightarrow> bind_ok (exec p t img s) (thread_run_first t))))"

end
