(* ===== verification/BootInv.thy ===== *)
theory BootInv
  imports Kernel Boot
begin

unbundle bit_operations_syntax

text \<open>
  Booting from a machine whose objects are all free establishes the invariant of the
  kernel.
\<close>

declare live.simps [simp del]
declare descriptor_get_process.simps [simp del] descriptor_get_thread.simps [simp del]
  descriptor_get_endpoint.simps [simp del]

definition clean :: "kstate \<Rightarrow> bool" where
  "clean s \<longleftrightarrow> wf s \<and> q_free s \<and> ready_queue s = [] \<and>
     dom (endpoints s) \<subseteq> set (endpoint_cache s) \<and> dom (processes s) \<subseteq> set (process_cache s) \<and>
     dom (threads s) \<subseteq> set (free_pages s)"

lemma clean_live: "clean s \<Longrightarrow> \<not> live s o'"
  by (cases o') (auto simp: clean_def live.simps)

lemma clean_kinv:
  assumes "clean s"
  shows "kinv no_debt (\<lambda>_. 0) (\<lambda>_. 0) None s"
proof -
  note dead = clean_live [OF assms]
  have act: "\<not> active s p" and st: "\<not> started s t" for p t
    using dead by (simp_all add: active_def started_def)
  then have "refs s o' = 0" "receivers s e = 0" "running_in s p = 0" for o' e p
    by (simp_all add: refs_def receivers_def running_in_def pw_def rw_def tw_def runs_in_def)
  then have "acct no_debt (\<lambda>_. 0) (\<lambda>_. 0) s"
    using dead by (simp add: acct_def)
  moreover have "queues None s"
    using dead act st assms
    by (simp add: queues_def q_ready_def q_running_def q_lists_def q_sender_def q_await_def q_recv_def
        q_proc_def q_kont_def q_slots_def clean_def)
  ultimately show ?thesis
    using assms by (simp add: kinv_def clean_def)
qed

section \<open>The predefined descriptors\<close>

text \<open>The state while the first process is built: its thread is prepared but not running yet.\<close>

definition booting :: "nat \<Rightarrow> nat \<Rightarrow> nat \<Rightarrow> kstate \<Rightarrow> bool" where
  "booting n p t s \<longleftrightarrow> kinv no_debt (\<lambda>_. 0) (\<lambda>_. 0) None s \<and> active s p \<and> live s (ThreadRef t) \<and>
     ready_queue s = [] \<and> t_state (thr s t) = THREAD_STATE_STARTING \<and> t_process (thr s t) = p \<and>
     t_kont (thr s t) = K_start \<and> t_sender (thr s t) = None \<and> t_awaiter (thr s t) = None \<and>
     card (dom (processes s)) \<le> n"

lemma set_descriptor_ok:
  assumes "booting n p t s" and "o' = ProcessRef p \<or> o' = ThreadRef t" and "i < 12"
    and "descriptor_is_free (descriptors (prc s p) ! i)"
  shows "outcome no_error (set_descriptor p (int i) o' s) (\<lambda>s'. booting n p t s' \<and>
    (\<forall>j. j \<noteq> i \<longrightarrow> descriptors (prc s' p) ! j = descriptors (prc s p) ! j))"
proof -
  define d where "d = set_state (descriptors (prc s p) ! i) DESC_STATE_RESERVED"
  define s1 where "s1 = slotted p i d s"
  define d' where "d' = \<lparr>d_object = Some o', d_flags = all_permissions (type_of o'), d_cookie = 0\<rparr>"
  define s2 where "s2 = slotted p i (set_state d' DESC_STATE_OPEN) (opened o' d' s1)"
  have k: "kinv no_debt (\<lambda>_. 0) (\<lambda>_. 0) None s" and act: "active s p" and lt: "live s (ThreadRef t)"
    using assms(1) by (simp_all add: booting_def)
  have lp: "live s (ProcessRef p)"
    using act by (simp add: active_def)
  have lo: "live s o'"
    using assms(2) lp lt by auto
  have wf: "wf s"
    by (rule kinvD(1) [OF k])
  have fd: "dereference (int i) = Some i"
    using assms(3) by (simp add: dereference_def JINUE_DESC_NUM_def)
  have k1: "kinv no_debt (\<lambda>_. 0) (\<lambda>_. 0) None s1"
    unfolding s1_def
    by (rule kinv_slotted [OF k act assms(3)])
      (use state_exclusive(1) [OF assms(4)] kinv_debts_ok [OF k] in \<open>simp_all add: d_def not_open_weight\<close>)
  have l1: "live s1 q = live s q" "active s1 q' = active s q'" for q q'
    using lp by (simp_all add: s1_def)
  have res: "descriptor_is_reserved (descriptors (prc s1 p) ! i)"
    using assms(3) length_descriptors [OF wf lp] by (simp add: s1_def slotted_slot d_def)
  have "d_object d' = Some o'"
    by (simp add: d'_def)
  note opn = descriptor_open_eq [OF k1 _ assms(3) fd res this, unfolded l1, OF act lo, folded s2_def]
  have lo1: "live s1 o'"
    by (simp add: l1 lo)
  have "opened o' d' s1 = referenced o' s1"
    using assms(2) by auto
  then have t2: "t_state (thr s2 t) = t_state (thr s t)" "t_awaiter (thr s2 t) = t_awaiter (thr s t)"
      "ready_queue s2 = ready_queue s"
    using assms(2) by (auto simp: s2_def referenced_def s1_def)
  have sel: "t_process (thr s2 t) = t_process (thr s t)" "t_kont (thr s2 t) = t_kont (thr s t)"
      "t_sender (thr s2 t) = t_sender (thr s t)" "dom (processes s2) = dom (processes s)"
      "active s2 p = active s p" "live s2 (ThreadRef t) = live s (ThreadRef t)"
    using lo1 lp by (simp_all add: s2_def l1 slotted_live) (simp_all add: s1_def)
  have "descriptors (prc s2 p) ! j = descriptors (prc s p) ! j" if "j \<noteq> i" for j
    using that lo1 by (simp add: s2_def slotted_slot) (simp add: s1_def slotted_slot)
  moreover have "booting n p t s2"
    using assms(1) opn(2) by (simp add: booting_def t2 sel)
  moreover have "set_descriptor p (int i) o' s = Inr s2"
    using opn(1) assms(4) fd get_slot_ok [OF wf lp assms(3)] set_slot_eq [OF wf lp assms(3)]
    by (simp add: set_descriptor_def descriptor_reserve_unused_def d_def [symmetric] s1_def [symmetric]
        d'_def [symmetric])
  ultimately show ?thesis
    by simp
qed

section \<open>The first thread runs\<close>

lemma thread_run_first_ok:
  assumes "booting n p t s"
  shows "outcome no_error (thread_run_first t s) (\<lambda>s'. switched n no_debt s' \<and> current s' = t)"
proof -
  define s0 where "s0 = s\<lparr>address_space := Some p\<rparr>"
  define s3 where "s3 = referenced (ThreadRef t) (joined p s0)"
  define s4 where "s4 = set_thr t ((thr s3 t)\<lparr>t_state := THREAD_STATE_RUNNING\<rparr>) s3"
  have k: "kinv no_debt (\<lambda>_. 0) (\<lambda>_. 0) None s0" and l0: "live s0 o' = live s o'" "active s0 q = active s q"
      and t0: "threads s0 = threads s" "t_process (thr s t) = p" for o' q
    using assms by (simp_all add: booting_def s0_def)
  have lt: "live s (ThreadRef t)" and act: "active s p" and lp: "live s (ProcessRef p)"
    using assms by (simp_all add: booting_def active_def)
  have strt: "thread_is_starting t s0 = Inr s4"
      "kinv no_debt (\<lambda>_. 0) (\<lambda>_. 0) None (woken t (message_errno (thr s3 t)) s3)"
    unfolding s4_def using assms
    by (intro thread_is_starting_eq [OF k _ _ _ _ _ _ _ _ s3_def];
        simp add: booting_def l0 t0 started_def is_started_def)+
  note sel = starting_sel [of s0 t p s3, unfolded l0, OF lt lp s3_def]
  have rq: "ready_queue s3 = []"
    using assms by (simp add: sel) (simp add: s0_def booting_def)
  have "ready_queue (woken t (message_errno (thr s3 t)) s3) = [t]"
    by (simp add: woken_def rq)
  from kinv_resumed_ready [OF strt(2) this]
  have "kinv no_debt (\<lambda>_. 0) (\<lambda>_. 0) (Some t) (resumed t ((woken t (message_errno (thr s3 t)) s3)\<lparr>ready_queue := []\<rparr>))" .
  moreover have "resumed t ((woken t (message_errno (thr s3 t)) s3)\<lparr>ready_queue := []\<rparr>) = s4"
    by (simp add: resumed_def woken_def s4_def set_thr_def rq)
  ultimately have k4: "kinv no_debt (\<lambda>_. 0) (\<lambda>_. 0) (Some t) s4"
    by simp
  define s5 where "s5 = s4\<lparr>tls_segment := (local_storage_addr (thr s4 t), local_storage_size (thr s4 t)), current := t\<rparr>"
  have "live s4 (ThreadRef t)" "t_process (thr s4 t) = p" "address_space s4 = Some p"
      "dom (processes s4) = dom (processes s)"
    using lt by (simp_all add: s4_def sel l0 t0) (simp_all add: s0_def)
  then have "switched n no_debt s5" "machine_switch_thread t s4 = Inr s5"
    using k4 assms
    by (simp_all add: switched_def in_kernel_def s5_def booting_def machine_switch_thread_def
        machine_set_thread_local_storage_def)
  moreover have "thread_run_first t s = bind_ok (thread_is_starting t s0) (machine_switch_thread t)"
    using lt lp by (simp add: thread_run_first_def t0 process_switch_to_def machine_switch_to_process_def s0_def)
  ultimately show ?thesis
    using strt(1) by (simp add: s5_def)
qed

text \<open>The errors of booting: not even the first process or thread can be allocated.\<close>

fun boot_panic :: "kerror \<Rightarrow> bool" where
  "boot_panic (Panic msg) \<longleftrightarrow>
     msg = ''Could not create initial process.'' \<or> msg = ''Could not create initial thread.''"
| "boot_panic _ \<longleftrightarrow> False"

lemma descriptor_clear_free: "descriptor_is_free (descriptor_clear d)"
  by (simp add: descriptor_clear_def descriptor_is_free_def flag_defs)

lemma exec_ok:
  assumes "kinv no_debt (\<lambda>_. 0) (\<lambda>_. 0) None s" and "active s p" and "live s (ThreadRef t)"
    and "ready_queue s = []" and "t_state (thr s t) = THREAD_STATE_CREATED" and "t_process (thr s t) = p"
    and "card (dom (processes s)) \<le> n" and "\<And>i. i < 12 \<Longrightarrow> descriptor_is_free (descriptors (prc s p) ! i)"
  shows "outcome no_error (exec p t img s) (booting n p t)"
proof -
  define s0 where "s0 = s\<lparr>umem := (umem s)(p := image_memory img)\<rparr>"
  define x where "x = (thr s0 t)\<lparr>t_sender := None, cpu_credits := 0, t_awaiter := None,
      t_state := THREAD_STATE_STARTING, t_pending_signals := 0,
      blocked_signals := sigmask (image_params img), sync_signo := 0,
      t_frame := user_frame (image_params img), t_kont := K_start\<rparr>"
  define s1 where "s1 = set_thr t x s0"
  have lp: "live s (ProcessRef p)"
    using assms(2) by (simp add: active_def)
  have k0: "kinv no_debt (\<lambda>_. 0) (\<lambda>_. 0) None s0" and l0: "live s0 (ThreadRef t)"
      and st0: "\<not> started s0 t" and p0: "live s0 (ProcessRef (t_process (thr s0 t)))"
    using assms(1,3,5,6) lp by (simp_all add: s0_def started_def is_started_def)
  have "kinv no_debt (\<lambda>_. 0) (\<lambda>_. 0) None s1"
    unfolding s1_def
    by (rule kinv_set_thr_idle [OF k0 l0 st0])
      (use wf_thread [OF kinvD(1) [OF k0] l0] in \<open>simp_all add: x_def is_started_def\<close>)
  then have b: "booting n p t s1"
    using assms(2-7) l0 by (simp add: booting_def s1_def) (simp add: x_def s0_def)
  have free: "descriptor_is_free (descriptors (prc s1 p) ! i)" if "i < 12" for i
    using assms(8) [OF that] by (simp add: s1_def s0_def)
  obtain s2 where s2: "set_descriptor p 0 (ProcessRef p) s1 = Inr s2" "booting n p t s2"
      "\<And>j. j \<noteq> 0 \<Longrightarrow> descriptors (prc s2 p) ! j = descriptors (prc s1 p) ! j"
    using outcome_totalD [OF set_descriptor_ok [OF b, of "ProcessRef p" 0]] free by auto
  have "outcome no_error (set_descriptor p 1 (ThreadRef t) s2) (booting n p t)"
    using set_descriptor_ok [OF s2(2), of "ThreadRef t" 1] free [of 1] s2(3) [of 1]
    by (auto elim: outcome_weaken)
  moreover have "thread_prepare t (image_params img) s0 = Inr s1"
    unfolding s1_def x_def by (rule thread_prepare_eq [OF l0 p0])
  ultimately show ?thesis
    using s2(1)
    by (simp add: exec_def s0_def [symmetric] exec_initialize_descriptors_def JINUE_DESC_SELF_PROCESS_def
        JINUE_DESC_MAIN_THREAD_def)
qed

lemma kmain_ok:
  assumes "clean s" and "card (dom (processes s)) \<le> n"
  shows "outcome (\<lambda>e. boot_panic e \<and>
      (process_cache s = [] \<or> \<not> machine_init_process mo \<or> free_pages s = []))
    (kmain mo img s) (\<lambda>s'. switched n no_debt s')"
proof (cases "process_cache s")
  case Nil
  then show ?thesis
    by (simp add: kmain_def process_new_def process_slab_alloc_def)
next
  case (Cons p ps)
  note k = clean_kinv [OF assms(1)]
  show ?thesis
  proof (cases "machine_init_process mo")
    case False
    then show ?thesis
      using cached_process [OF k Cons] Cons by (simp add: kmain_def process_new_states)
  next
    case True
    define s1 where
      "s1 = (set_prc p ((fresh_process (prc s p))\<lparr>p_addr_space := True\<rparr>) s)\<lparr>process_cache := ps\<rparr>"
    define s2 where "s2 = s1\<lparr>address_space := Some p\<rparr>"
    note created = kinv_process_created [OF k Cons s1_def]
    note new = cached_process [OF k Cons]
    have lp: "live s1 (ProcessRef p)"
      by (simp add: created(2))
    have k2: "kinv no_debt (\<lambda>_. 0) (\<lambda>_. 0) None s2"
      using created(1) by (simp add: s2_def)
    have sw: "process_switch_to p s1 = Inr s2"
      using lp by (simp add: process_switch_to_def machine_switch_to_process_def s2_def)
    show ?thesis
    proof (cases "free_pages s2")
      case Nil
      then show ?thesis
        using True created(3) sw
        by (simp add: kmain_def thread_new_def thread_page_alloc_def) (simp add: s2_def s1_def)
    next
      case (Cons t ts)
      define x where "x = (thr s2 t)\<lparr>t_header := object_init_header, t_state := THREAD_STATE_CREATED,
        t_process := p, t_awaiter := None, local_storage_addr := 0, local_storage_size := 0\<rparr>"
      define s3 where "s3 = (set_thr t x s2)\<lparr>free_pages := ts\<rparr>"
      note thread = kinv_thread_created [OF k2 Cons x_def s3_def]
      have "active s3 p"
        using lp fresh_process_sel(2) [of "prc s p"]
        by (simp add: active_def thread(2)) (simp add: s3_def s2_def s1_def)
      moreover have "ready_queue s3 = []" "dom (processes s3) = dom (processes s)"
          "t_state (thr s3 t) = THREAD_STATE_CREATED" "t_process (thr s3 t) = p"
        using assms(1) new(1) by (auto simp: s3_def s2_def s1_def clean_def x_def)
      moreover have "descriptor_is_free (descriptors (prc s3 p) ! i)" if "i < 12" for i
        using new(4) that
        by (simp add: s3_def s2_def s1_def fresh_process_def initialize_descriptors_def
            JINUE_DESC_NUM_def descriptor_clear_free)
      ultimately have "outcome no_error (exec p t img s3) (booting n p t)"
        using assms(2) thread(1,2) by (intro exec_ok) simp_all
      then obtain s4 where "exec p t img s3 = Inr s4" "booting n p t s4"
        using outcome_totalD by blast
      moreover from this(2) obtain s5 where "thread_run_first t s4 = Inr s5" "switched n no_debt s5"
        using outcome_totalD [OF thread_run_first_ok] by blast
      ultimately show ?thesis
        using True created(3) sw thread(4) by (simp add: kmain_def)
    qed
  qed
qed

lemma kmain_fails:
  assumes "clean s" and "process_cache s = [] \<or> \<not> machine_init_process mo \<or> free_pages s = []"
  shows "\<exists>e. kmain mo img s = Inl e"
proof (cases "process_cache s")
  case Nil
  then show ?thesis
    by (simp add: kmain_def process_new_def process_slab_alloc_def)
next
  case (Cons p ps)
  note new = cached_process [OF clean_kinv [OF assms(1)] Cons]
  define s1 where
    "s1 = (set_prc p ((fresh_process (prc s p))\<lparr>p_addr_space := True\<rparr>) s)\<lparr>process_cache := ps\<rparr>"
  have "live s1 (ProcessRef p)" "free_pages s1 = free_pages s"
    using new(1,2) by (simp_all add: s1_def live.simps)
  then show ?thesis
    using assms(2) Cons
    by (auto simp: kmain_def process_new_states [OF Cons new(1,2)] process_switch_to_def
        machine_switch_to_process_def thread_new_def thread_page_alloc_def s1_def [symmetric])
qed

end
