(* ===== verification/Machine.thy ===== *)
theory Machine
  imports BootInv
begin

unbundle bit_operations_syntax

text \<open>
  The kernel as a state machine: after boot, steps of the user code of the running
  thread, system calls, timer ticks, and the continuation of a thread that was switched
  to. The invariant of the library holds in every reachable state, and the properties of
  the kernel as a whole follow from it.
\<close>

declare live.simps [simp del]
declare descriptor_get_process.simps [simp del] descriptor_get_thread.simps [simp del]
  descriptor_get_endpoint.simps [simp del]

section \<open>Transition systems and their invariants\<close>

locale transition_system =
  fixes init :: "'s \<Rightarrow> bool"
    and step :: "'s \<Rightarrow> 's \<Rightarrow> bool"
    and inv :: "'s \<Rightarrow> bool"
  assumes init_inv: "init s \<Longrightarrow> inv s"
    and step_inv: "inv s \<Longrightarrow> step s s' \<Longrightarrow> inv s'"
begin

lemma run_inv:
  assumes "step\<^sup>*\<^sup>* s s'" and "inv s"
  shows "inv s'"
  using assms by (induction rule: rtranclp_induct) (auto intro: step_inv)

lemma reachable_inv: "init s \<Longrightarrow> step\<^sup>*\<^sup>* s s' \<Longrightarrow> inv s'"
  by (rule run_inv [OF _ init_inv])

end

section \<open>The machine\<close>

text \<open>User code changes the registers of its thread and the memory of its process.\<close>

definition user_runs :: "trapframe \<Rightarrow> (u32 \<Rightarrow> u8) \<Rightarrow> kstate \<Rightarrow> kstate" where
  "user_runs tf m s =
     (set_thr (current s) ((thr s (current s))\<lparr>t_frame := tf\<rparr>) s)
       \<lparr>umem := (umem s)(t_process (thr s (current s)) := m)\<rparr>"

definition in_user :: "kstate \<Rightarrow> bool" where
  "in_user s \<longleftrightarrow> t_kont (thr s (current s)) = K_user"

inductive kstep :: "machine_ops \<Rightarrow> kstate \<Rightarrow> kstate \<Rightarrow> bool" for mo where
  user: "in_user s \<Longrightarrow> kstep mo s (user_runs tf m s)"
| syscall: "in_user s \<Longrightarrow> call_ok s \<Longrightarrow> handle_trap_syscall mo s = Inr s' \<Longrightarrow> kstep mo s s'"
| tick: "in_user s \<Longrightarrow> handle_trap_tick mo s = Inr s' \<Longrightarrow> kstep mo s s'"
| resume: "\<not> in_user s \<Longrightarrow> resume mo s = Inr s' \<Longrightarrow> kstep mo s s'"

text \<open>
  A machine that can be booted: its objects are free, and the fuel for destroying
  processes inside one another is at least the number of processes.
\<close>

definition machine_ok :: "machine_ops \<Rightarrow> kstate \<Rightarrow> bool" where
  "machine_ok mo s0 \<longleftrightarrow> clean s0 \<and> card (dom (processes s0)) \<le> destroy_fuel mo"

definition booted :: "machine_ops \<Rightarrow> loader_image \<Rightarrow> kstate \<Rightarrow> kstate \<Rightarrow> bool" where
  "booted mo img s0 s \<longleftrightarrow> machine_ok mo s0 \<and> kmain mo img s0 = Inr s"

definition reachable :: "machine_ops \<Rightarrow> loader_image \<Rightarrow> kstate \<Rightarrow> kstate \<Rightarrow> bool" where
  "reachable mo img s0 s \<longleftrightarrow> (\<exists>s1. booted mo img s0 s1 \<and> (kstep mo)\<^sup>*\<^sup>* s1 s)"

definition kernel_inv :: "machine_ops \<Rightarrow> kstate \<Rightarrow> bool" where
  "kernel_inv mo s = switched (destroy_fuel mo) no_debt s"

lemma user_runs_inv:
  assumes "in_call mo no_debt s"
  shows "in_call mo no_debt (user_runs tf m s)"
proof -
  let ?x = "thr s (current s)"
  have "thread_same ?x (?x\<lparr>t_frame := tf\<rparr>)"
    using wf_thread [OF incallD(4,6) [OF assms]] by (simp add: thread_same_def recv_fine_def)
  then have "in_call mo no_debt (set_thr (current s) (?x\<lparr>t_frame := tf\<rparr>) s)"
    by (rule incall_set_thr_same(1) [OF assms incallD(6) [OF assms]])
  then show ?thesis
    unfolding user_runs_def by (rule incall_umem(1))
qed

lemma kernel_inv_call: "kernel_inv mo s \<Longrightarrow> in_user s \<Longrightarrow> in_call mo no_debt s"
  by (simp add: kernel_inv_def switched_def incall_def in_user_def)

lemma kstep_inv:
  assumes "kernel_inv mo s" and "kstep mo s s'"
  shows "kernel_inv mo s'"
  using assms(2)
proof cases
  case (user tf m)
  then show ?thesis
    using user_runs_inv [OF kernel_inv_call [OF assms(1)]] by (simp add: kernel_inv_def incall_switched)
next
  case syscall
  then show ?thesis
    using handle_trap_syscall_ok [OF kernel_inv_call [OF assms(1)]] by (simp add: kernel_inv_def)
next
  case tick
  then show ?thesis
    using handle_trap_tick_ok [OF kernel_inv_call [OF assms(1)]] by (simp add: kernel_inv_def)
next
  case resume
  then show ?thesis
    using resume_ok [OF assms(1) [unfolded kernel_inv_def]] by (simp add: kernel_inv_def)
qed

interpretation kernel: transition_system "booted mo img s0" "kstep mo" "kernel_inv mo" for mo img s0
proof unfold_locales
  show "booted mo img s0 s \<Longrightarrow> kernel_inv mo s" for s
    using kmain_ok [of s0 "destroy_fuel mo" mo img] by (simp add: booted_def machine_ok_def kernel_inv_def)
  show "kernel_inv mo s \<Longrightarrow> kstep mo s s' \<Longrightarrow> kernel_inv mo s'" for s s'
    by (rule kstep_inv)
qed

lemma kernel_reachable_inv: "reachable mo img s0 s \<Longrightarrow> kernel_inv mo s"
  unfolding reachable_def by (auto intro: kernel.reachable_inv)

section \<open>Timer ticks\<close>

lemma choose_signal_credits:
  "choose_signal th p = Deliver signo blocked th' p' \<Longrightarrow> cpu_credits th' = cpu_credits th"
  unfolding choose_signal_def Let_def by (auto split: if_splits option.splits)

lemma check_for_signal_same:
  assumes "check_for_signal mo s = Inr s'" and "incall n D s"
  shows "current s' = current s" "ready_queue s' = ready_queue s"
    "cpu_credits (thr s' (current s)) = cpu_credits (thr s (current s))"
proof -
  define p where "p = t_process (thr s (current s))"
  note lc = incallD(6,8) [OF assms(2), folded p_def]
  have "current s' = current s \<and> ready_queue s' = ready_queue s \<and>
    cpu_credits (thr s' (current s)) = cpu_credits (thr s (current s))"
  proof (cases "choose_signal (thr s (current s)) (prc s p)")
    case (Deliver signo blocked th p')
    note i1 = incall_set_prc_same(1) [OF assms(2) lc(2) choose_signal_same(11-13) [OF Deliver]]
    have mem: "set_active_memory m s1 = Inr s2 \<Longrightarrow>
        current s2 = current s1 \<and> ready_queue s2 = ready_queue s1 \<and> threads s2 = threads s1" for m s1 s2
      by (cases "active_process s1") (auto simp: set_active_memory_def)
    show ?thesis
      using assms(1) lc Deliver i1 choose_signal_credits [OF Deliver]
      by (auto simp: check_for_signal_def p_def [symmetric] split: prod.splits dest!: mem)
  qed (use assms(1) lc choose_signal_ends in \<open>auto simp: check_for_signal_def p_def\<close>)
  then show "current s' = current s" "ready_queue s' = ready_queue s"
    "cpu_credits (thr s' (current s)) = cpu_credits (thr s (current s))"
    by simp_all
qed

lemma reschedule_switches:
  assumes "in_call mo no_debt s" and "cpu_credits (thr s (current s)) \<le> 0" and "ready_queue s = t # rq"
    and "reschedule s = Inr (c, s')"
  shows "c = Switched" "current s' = t" "ready_queue s' = rq @ [current s]"
proof -
  note k = incallD(2,6) [OF assms(1)]
  have t: "t \<noteq> current s" "live s (ThreadRef t)"
    using running_not_blocked(4) [OF k(1)] queuesD(1) [OF kinvD(3) [OF k(1)]] assms(3)
    by (auto simp: q_ready_def)
  have "c = Switched \<and> current s' = t \<and> ready_queue s' = rq @ [current s]"
    using assms(2-4) k(2) t
    by (auto simp: reschedule_def select_next_ready_thread_def dequeue_ready_thread_def
        set_thread_state_def switch_process_if_needed_def process_switch_to_def machine_switch_to_process_def
        thread_ready_locked_def seq_enqueue_def save_kont_def machine_switch_thread_def
        machine_set_thread_local_storage_def bind_ok_eq_Inr split: if_splits)
  then show "c = Switched" "current s' = t" "ready_queue s' = rq @ [current s]"
    by simp_all
qed

lemma tick_ready:
  assumes "in_call mo no_debt s" and "ready_queue s = t # rq"
  shows "\<exists>s'. handle_trap_tick mo s = Inr s' \<and> switched (destroy_fuel mo) no_debt s' \<and>
    (if 1 < cpu_credits (thr s (current s))
     then in_user s' \<and> current s' = current s \<and> ready_queue s' = t # rq \<and>
       cpu_credits (thr s' (current s')) = cpu_credits (thr s (current s)) - 1
     else current s' = t \<and> ready_queue s' = rq @ [current s])"
proof -
  let ?x = "thr s (current s)"
  define s1 where
    "s1 = set_thr (current s) (if cpu_credits ?x > 0 then ?x\<lparr>cpu_credits := cpu_credits ?x - 1\<rparr> else ?x) s"
  have "in_call mo no_debt s1"
    unfolding s1_def
    by (rule incall_set_thr_same(1) [OF assms(1) incallD(6) [OF assms(1)]])
      (use thread_same_calls(1) [OF assms(1)] wf_thread [OF incallD(4,6) [OF assms(1)]] in
        \<open>simp add: thread_same_def\<close>)
  note i1 = this
  have sel: "current s1 = current s" "ready_queue s1 = t # rq"
      "cpu_credits (thr s1 (current s)) = (if cpu_credits ?x > 0 then cpu_credits ?x - 1 else cpu_credits ?x)"
    using assms(2) by (simp_all add: s1_def)
  have tick: "handle_trap_tick mo s = trap_exit mo (Ret (), s1)"
    using incallD(6) [OF assms(1)]
    by (simp add: handle_trap_tick_def tick_interrupt_def scheduler_tick_def s1_def)
  obtain s' where s': "handle_trap_tick mo s = Inr s'" "switched (destroy_fuel mo) no_debt s'"
    using outcome_totalD [OF handle_trap_tick_ok [OF assms(1)]] by blast
  show ?thesis
  proof (cases "1 < cpu_credits ?x")
    case True
    then have "check_for_signal mo s1 = Inr s'"
      using s'(1) incallD(6) [OF i1] sel
      by (simp add: tick trap_exit_def reschedule_def to_user_def)
    note same = check_for_signal_same [OF this i1] and ok = check_for_signal_ok [OF i1, of mo]
    then have "in_user s'"
      using \<open>check_for_signal mo s1 = Inr s'\<close> by (simp add: incall_def in_user_def)
    then show ?thesis
      using True s' same sel by simp
  next
    case False
    then have "cpu_credits (thr s1 (current s1)) \<le> 0"
      using sel by (simp split: if_splits)
    moreover obtain c s2 where r: "reschedule s1 = Inr (c, s2)"
      using s'(1) by (auto simp: tick trap_exit_def bind_ok_eq_Inr)
    ultimately have sw: "c = Switched" "current s2 = t" "ready_queue s2 = rq @ [current s]"
      using reschedule_switches [OF i1 _ sel(2) r] sel(1) by simp_all
    then have "s' = s2"
      using s'(1) by (simp add: tick trap_exit_def r)
    then show ?thesis
      using False s' sw by simp
  qed
qed

primrec ticks :: "machine_ops \<Rightarrow> nat \<Rightarrow> kstate \<Rightarrow> kstate result" where
  "ticks mo 0 s = Inr s"
| "ticks mo (Suc n) s = bind_ok (handle_trap_tick mo s) (ticks mo n)"

lemma ticks_preempt:
  assumes "in_call mo no_debt s" and "ready_queue s = t # rq"
    and "n = max 1 (nat (cpu_credits (thr s (current s))))"
  shows "\<exists>s'. ticks mo n s = Inr s' \<and> current s' = t \<and> ready_queue s' = rq @ [current s]"
  using assms
proof (induction n arbitrary: s)
  case 0
  then show ?case
    by simp
next
  case (Suc n)
  obtain s1 where s1: "handle_trap_tick mo s = Inr s1" "switched (destroy_fuel mo) no_debt s1"
    and post: "if 1 < cpu_credits (thr s (current s))
     then in_user s1 \<and> current s1 = current s \<and> ready_queue s1 = t # rq \<and>
       cpu_credits (thr s1 (current s1)) = cpu_credits (thr s (current s)) - 1
     else current s1 = t \<and> ready_queue s1 = rq @ [current s]"
    using tick_ready [OF Suc.prems(1,2)] by blast
  show ?case
  proof (cases "1 < cpu_credits (thr s (current s))")
    case True
    then have "in_call mo no_debt s1" "ready_queue s1 = t # rq" "current s1 = current s"
        "n = max 1 (nat (cpu_credits (thr s1 (current s1))))"
      using post s1(2) Suc.prems(3) kernel_inv_call [of mo s1] by (auto simp: kernel_inv_def)
    then show ?thesis
      using Suc.IH [of s1] s1(1) by simp
  next
    case False
    then have "n = 0"
      using Suc.prems(3) by simp
    then show ?thesis
      using False post s1(1) by simp
  qed
qed

end
