(* ===== verification/Demo.thy ===== *)
theory Demo
  imports Machine
begin

unbundle bit_operations_syntax

text \<open>
  A small machine on which the model is executed: it boots, and its first thread makes
  system calls. The states reached are the concrete instances on which the properties
  of the kernel are exercised.
\<close>

declare live.simps [simp del]
declare descriptor_get_process.simps [simp del] descriptor_get_thread.simps [simp del]
  descriptor_get_endpoint.simps [simp del]

section \<open>A small machine\<close>

definition demo_frame :: trapframe where
  "demo_frame = \<lparr>tf_gs = 0, tf_fs = 0, tf_es = 0, tf_ds = 0, tf_edi = 0, tf_esi = 0, tf_ebp = 0,
     tf_ebx = 0, tf_edx = 0, tf_ecx = 0, tf_eax = 0, tf_trapno = 0, tf_errcode = 0, tf_eip = 0,
     tf_cs = 0, tf_eflags = 0, tf_esp = 0, tf_ss = 0\<rparr>"

definition demo_thread :: thread where
  "demo_thread = \<lparr>t_header = object_init_header, t_frame = demo_frame, t_kont = K_user,
     t_state = THREAD_STATE_ZOMBIE, cpu_credits = 0, t_process = 0, t_sender = None,
     t_awaiter = None, t_pending_signals = 0, blocked_signals = 0, sync_signo = 0,
     local_storage_addr = 0, local_storage_size = 0, recv_buffer_size = 0, message_errno = 0,
     message_reply_errcode = 0, message_function = 0, message_cookie = 0, message_size = 0,
     message_buffer = replicate JINUE_MAX_MESSAGE_SIZE 0\<rparr>"

definition demo_process :: process where
  "demo_process = \<lparr>p_header = object_init_header, p_addr_space = False, running_threads_count = 0,
     p_pending_signals = 0, signal_handler = 0,
     descriptors = replicate JINUE_DESC_NUM \<lparr>d_object = None, d_flags = 0, d_cookie = 0\<rparr>\<rparr>"

definition demo_endpoint :: ipc_endpoint where
  "demo_endpoint = \<lparr>e_header = object_init_header, send_list = [], recv_list = [], receivers_count = 0\<rparr>"

text \<open>One endpoint, two processes and two threads, all free.\<close>

definition demo_machine :: kstate where
  "demo_machine = \<lparr>endpoints = [0 \<mapsto> demo_endpoint],
     processes = [0 \<mapsto> demo_process, 1 \<mapsto> demo_process],
     threads = [0 \<mapsto> demo_thread, 1 \<mapsto> demo_thread],
     endpoint_cache = [0], process_cache = [0, 1], free_pages = [0, 1], ready_queue = [],
     current = 0, address_space = None, tls_segment = (0, 0), umem = (\<lambda>_ _. 0), klog = []\<rparr>"

definition demo_ops :: machine_ops where
  "demo_ops = \<lparr>machine_init_process = True, machine_map_userspace = True,
     machine_get_address_map = (\<lambda>_ _ m. (0, m)), fpu_fpregs_size = 108, fpu_fpregs_type = 1,
     destroy_fuel = 2\<rparr>"

definition demo_image :: loader_image where
  "demo_image = \<lparr>image_params = \<lparr>entry = 0x1000, stack_addr = 0x2000, sigmask = 0\<rparr>,
     image_memory = (\<lambda>_. 0)\<rparr>"

lemma demo_dom:
  "dom (endpoints demo_machine) = {0}" "dom (processes demo_machine) = {0, 1}"
  "dom (threads demo_machine) = {0, 1}"
  by (auto simp: demo_machine_def split: if_splits)

lemma demo_machine_ok: "machine_ok demo_ops demo_machine"
proof -
  have "wf demo_machine"
    unfolding wf_def demo_dom
    by (simp add: demo_machine_def demo_process_def demo_thread_def JINUE_DESC_NUM_def)
  moreover have "q_free demo_machine"
    by (simp add: q_free_def demo_machine_def demo_process_def demo_endpoint_def object_init_header_def)
  ultimately have "clean demo_machine"
    unfolding clean_def demo_dom by (simp add: demo_machine_def)
  then show ?thesis
    by (simp add: machine_ok_def demo_dom) (simp add: demo_ops_def)
qed

lemma demo_boots: "\<exists>s. booted demo_ops demo_image demo_machine s"
proof -
  have "outcome no_error (kmain demo_ops demo_image demo_machine) (\<lambda>_. True)"
    using kmain_ok [of demo_machine 2 demo_ops demo_image] demo_machine_ok
    by (auto simp: machine_ok_def demo_ops_def demo_machine_def elim!: outcome_weaken)
  then show ?thesis
    using demo_machine_ok by (auto simp: booted_def dest: outcome_totalD)
qed

lemma booted_reachable: "booted mo img s0 s \<Longrightarrow> reachable mo img s0 s"
  by (auto simp: reachable_def)

section \<open>Executing the model\<close>

text \<open>The definitions of the model, with which the simplifier runs it.\<close>

lemmas demo_eval =
  int32_def to_int_def of_cint_def JINUE_ENOMEM_def JINUE_ENOSYS_def JINUE_EINVAL_def JINUE_EAGAIN_def
  JINUE_EBADF_def JINUE_EIO_def JINUE_EPERM_def JINUE_E2BIG_def JINUE_ENOMSG_def JINUE_ENOTSUP_def
  JINUE_EBUSY_def JINUE_ESRCH_def JINUE_EDEADLK_def JINUE_EPROTO_def assert_that_def JINUE_PERM_SEND_def
  JINUE_PERM_RECEIVE_def JINUE_PERM_MAP_def JINUE_PERM_OPEN_def JINUE_PERM_CREATE_THREAD_def
  JINUE_PERM_START_def JINUE_PERM_AWAIT_def JINUE_PERM_SIGNAL_def OBJECT_FLAG_NONE_def
  OBJECT_FLAG_DESTROYED_def header_is_destroyed_def object_init_header_def object_reset_header_def
  DESC_FLAG_STATE1_def DESC_FLAG_STATE0_def DESC_FLAG_OWNER_def DESC_FLAG_STATE_def DESC_STATE_FREE_def
  DESC_STATE_RESERVED_def DESC_STATE_OPEN_def DESC_STATE_DESTROYED_def descriptor_is_free_def
  descriptor_is_reserved_def descriptor_is_open_def descriptor_is_destroyed_def
  descriptor_is_closeable_def descriptor_is_owner_def descriptor_has_permissions_def
  descriptor_clear_def set_state_def get_endpoint_def get_process_def get_thread_def upd_endpoint_def
  upd_process_def upd_thread_def object_is_destroyed_def get_current_process_def JINUE_KLIMIT_def
  is_kernel_pointer_def is_userspace_pointer_def user_pointer_max_size_def check_userspace_buffer_def
  read_bytes_def read_u32_def bytes_of_u32_def write_u32_def SCHEDULER_BASE_CREDITS_def
  machine_set_thread_local_storage_def machine_switch_to_process_def process_switch_to_def save_kont_def
  machine_switch_thread_def switch_process_if_needed_def dequeue_ready_thread_def
  select_next_ready_thread_def thread_ready_locked_def ready_thread_def set_thread_state_def
  reschedule_def scheduler_tick_def yield_current_thread_def switch_to_thread_def
  switch_to_thread_and_block_def block_current_thread_and_unlock_def abort_message_def
  endpoint_destroy_op_def endpoint_cache_ctor_op_def add_receiver_def sub_receiver_def
  endpoint_open_op_def object_add_ref_def object_destroy_def object_sub_ref_def endpoint_close_op_def
  object_open_def object_close_def JINUE_DESC_NUM_def nonnull_def get_slot_def
  machine_finalize_process_def process_cache_ctor_op_def initialize_descriptors_def
  process_slab_alloc_def process_new_def process_add_running_thread_def
  process_remove_running_thread_def endpoint_slab_alloc_def endpoint_new_def dereference_def
  set_slot_def descriptor_access_object_locked_def descriptor_access_object_def
  descriptor_unreference_object_def descriptor_reserve_unused_def descriptor_free_reservation_def
  descriptor_open_def descriptor_close_def thread_page_alloc_def thread_new_def user_frame_def
  machine_prepare_thread_def thread_prepare_def thread_is_starting_def thread_run_def
  thread_run_first_def machine_switch_and_unref_thread_def switch_from_exiting_thread_def
  thread_terminate_current_def thread_await_def thread_set_local_storage_def JINUE_MAX_BUFFER_SIZE_def
  JINUE_MAX_BUFFERS_IN_ARRAY_def buffer_addr_def buffer_size_def get_receive_buffers_size_def
  put_bytes_def gather_def message_content_def scatter_def active_process_def active_memory_def
  set_active_memory_def gather_message_def scatter_message_def send_message_def send_message_resume_def
  receive_check_def receive_passes_def receive_message_def receive_message_resume_def
  reply_to_message_def reply_error_to_message_def await_with_thread_def await_thread_def
  create_with_target_process_def create_with_descriptor_reserved_def create_thread_def start_thread_def
  exit_thread_def yield_thread_def set_thread_local_def close_def create_endpoint_def create_process_def
  destroy_def dup_with_source_def dup_with_target_process_def dup_def mint_with_target_process_def
  mint_with_owner_def mint_def mmap_with_process_def mmap_def get_address_map_def receive_def send_def
  reply_def reply_error_def JINUE_SIGNAL_MAX_def JINUE_SIG_NONE_def JINUE_SIG_BLOCK_def
  JINUE_SIG_SETMASK_def JINUE_SIG_UNBLOCK_def sigset_mask_def write_sigset_def apply_sigmask_def
  get_set_signal_mask_def set_signal_handler_def signal_bit_def signal_with_process_def
  signal_process_def signal_with_thread_def signal_thread_def JINUE_LOG_MAX_LENGTH_def
  JINUE_LOG_LEVEL_DEBUG_def JINUE_LOG_FACILITY_KERNEL_def puts_def reboot_def choose_signal_def
  align_start_def push_def SIZEOF_UCONTEXT_def SIZEOF_SIGINFO_def gregs_of_def UC_SIGMASK_def
  UC_GREGS_def UC_FPREGS_TYPE_def UC_FPREGS_REGS_def write_ucontext_def deliver_signal_def
  check_for_signal_def EFLAGS_USER_MASK_def greg_def restore_frame_def return_from_signal_def
  cur_frame_def upd_frame_def msg_arg0_def msg_arg1_def msg_arg2_def msg_arg3_def frame_return_value_def
  frame_error_def set_return_value_def set_error_def set_return_value_or_error_def get_descriptor_def
  finish_def finish_error_def finish_call_def finish_ctl_def sys_nosys_def sys_reboot_def sys_puts_def
  sys_create_thread_def sys_yield_thread_def sys_exit_thread_def sys_set_thread_local_def
  sys_get_address_map_def sys_create_endpoint_def SIZEOF_MESSAGE_def
  copy_message_struct_from_userspace_def check_send_buffers_def check_recv_buffers_def
  sys_send_finish_def sys_send_def sys_receive_finish_def sys_receive_def sys_reply_def
  ALL_PROT_FLAGS_def WRITE_EXEC_def ALL_MAP_FLAGS_def UC_WC_def SIZEOF_MMAP_ARGS_def read_mmap_args_def
  check_mmap_args_def sys_mmap_def sys_create_process_def sys_dup_def sys_close_def sys_destroy_def
  SIZEOF_MINT_ARGS_def sys_mint_def SIZEOF_START_ARGS_def SIZEOF_SIGSET_def sys_start_thread_def
  sys_await_thread_def sys_reply_error_def get_signal_descriptor_def sys_signal_process_def
  sys_signal_thread_def sys_return_from_signal_def sys_get_set_signal_mask_def
  sys_set_signal_handler_def JINUE_SYS_USER_BASE_def dispatch_def handle_syscall_def to_user_def
  trap_exit_def handle_trap_syscall_def tick_interrupt_def handle_trap_tick_def resume_kont_def
  resume_def JINUE_DESC_SELF_PROCESS_def JINUE_DESC_MAIN_THREAD_def set_descriptor_def
  exec_initialize_descriptors_def exec_def kmain_def seq_enqueue_def
  live.simps get_header.simps upd_header.simps all_permissions.simps type_of.simps
  descriptor_get_process.simps descriptor_get_thread.simps descriptor_get_endpoint.simps
  set_thr_def set_prc_def set_ept_def in_user_def

lemmas demo_check = call_ok_def Let_def target_ok_def slot_of_def active_def fd_ok_def

text \<open>User code that puts three arguments in its registers, with memory that is all zero.\<close>

definition demo_call :: "u32 \<Rightarrow> u32 \<Rightarrow> u32 \<Rightarrow> kstate \<Rightarrow> kstate" where
  "demo_call f a b = user_runs (demo_frame\<lparr>tf_eax := f, tf_ebx := a, tf_esi := b\<rparr>) (\<lambda>_. 0)"

lemmas demo_calls = demo_call_def user_runs_def demo_frame_def demo_ops_def

text \<open>Boot, enter user code, and make a sequence of calls that return to the same thread.\<close>

primrec demo_calls_from :: "(u32 \<times> u32 \<times> u32) list \<Rightarrow> kstate \<Rightarrow> kstate result" where
  "demo_calls_from [] s = Inr s"
| "demo_calls_from (c # cs) s =
     (case c of (f, a, b) \<Rightarrow>
        bind_ok (assert_that (in_user s \<and> call_ok (demo_call f a b s)) (demo_call f a b s)) (\<lambda>s.
        bind_ok (handle_trap_syscall demo_ops s) (demo_calls_from cs)))"

definition demo_run :: "(u32 \<times> u32 \<times> u32) list \<Rightarrow> kstate result" where
  "demo_run cs =
     bind_ok (kmain demo_ops demo_image demo_machine) (\<lambda>s.
     bind_ok (assert_that (\<not> in_user s) s) (\<lambda>s.
     bind_ok (resume demo_ops s) (demo_calls_from cs)))"

lemma in_user_call: "in_user (demo_call f a b s) = in_user s"
  by (simp add: demo_call_def user_runs_def in_user_def)

lemma demo_calls_from_steps:
  "demo_calls_from cs s = Inr s' \<Longrightarrow> (kstep demo_ops)\<^sup>*\<^sup>* s s'"
proof (induction cs arbitrary: s)
  case (Cons c cs)
  obtain f a b where c: "c = (f, a, b)"
    by (cases c)
  obtain s1 where s1: "in_user s" "call_ok (demo_call f a b s)"
      "handle_trap_syscall demo_ops (demo_call f a b s) = Inr s1" "demo_calls_from cs s1 = Inr s'"
    using Cons.prems by (auto simp: c bind_ok_eq_Inr assert_that_def split: if_splits)
  have "kstep demo_ops s (demo_call f a b s)"
    unfolding demo_call_def using s1(1) by (rule kstep.user)
  moreover have "kstep demo_ops (demo_call f a b s) s1"
    using s1(1-3) by (intro kstep.syscall) (simp_all add: in_user_call)
  ultimately show ?case
    using Cons.IH [OF s1(4)] by (meson converse_rtranclp_into_rtranclp)
qed simp

lemma demo_run_reachable:
  assumes "demo_run cs = Inr s"
  shows "reachable demo_ops demo_image demo_machine s"
proof -
  obtain s1 s2 where "kmain demo_ops demo_image demo_machine = Inr s1" "\<not> in_user s1"
      "resume demo_ops s1 = Inr s2" "demo_calls_from cs s2 = Inr s"
    using assms by (auto simp: demo_run_def bind_ok_eq_Inr assert_that_def split: if_splits)
  then show ?thesis
    using demo_calls_from_steps demo_machine_ok unfolding reachable_def booted_def
    by (meson converse_rtranclp_into_rtranclp kstep.resume)
qed

text \<open>The calls used below: create a thread of the own process as descriptor 2 and start it.\<close>

lemma demo_two_threads:
  "\<exists>s. demo_run [(4, 2, 0), (20, 2, 0)] = Inr s \<and> in_user s \<and> ready_queue s = [1] \<and> current s = 0 \<and>
    cpu_credits (thr s 0) = 3 \<and> active s 0 \<and>
    length (descriptors (prc s 0)) = 12 \<and> descriptor_is_open (descriptors (prc s 0) ! 2) \<and>
    live s (ThreadRef 1) \<and> t_state (thr s 1) = THREAD_STATE_READY"
  unfolding demo_run_def demo_calls_from.simps
  by (intro exI conjI)
    (simp add: demo_eval demo_check demo_calls demo_machine_def demo_process_def)+

lemma demo_destroy:
  "process_destroy_op 2 p s = process_destroy_op (Suc (Suc 0)) p s"
  by (simp add: numeral_2_eq_2)

lemma demo_slots: "[0..<12] = [0, 1, 2, 3, 4, 5, 6, 7, 8, 9, 10, 11 :: nat]"
  by (simp add: upt_rec)

text \<open>A second process as descriptor 2, a thread in it as descriptor 3, and the process closed again.\<close>

lemma demo_orphan_thread:
  "\<exists>s. demo_run [(14, 2, 0), (4, 3, 2), (17, 2, 0)] = Inr s \<and> in_user s \<and>
    handle_trap_syscall demo_ops (demo_call 20 3 0 s) = Inl BadAccess"
  unfolding demo_run_def demo_calls_from.simps
  by (intro exI conjI)
    (simp add: demo_eval demo_check demo_calls demo_machine_def demo_process_def demo_destroy demo_slots)+

text \<open>An endpoint as descriptor 3, and an empty message sent to it that nobody receives.\<close>

lemma demo_blocked_sender:
  "\<exists>s. demo_run [(4, 2, 0), (20, 2, 0), (9, 3, 0), (4096, 3, 0)] = Inr s \<and>
    live s (EndpointRef 0) \<and> send_list (ept s 0) = [0]"
  unfolding demo_run_def demo_calls_from.simps
  by (intro exI conjI)
    (simp add: demo_eval demo_check demo_calls demo_machine_def demo_process_def demo_endpoint_def)+

end
