(* ===== verification/KernelProps.thy ===== *)
theory KernelProps
  imports Demo
begin

unbundle bit_operations_syntax

text \<open>
  The properties of the whole kernel: what holds in every state that can be reached after
  boot, and what the kernel does from there.
\<close>

declare live.simps [simp del]
declare descriptor_get_process.simps [simp del] descriptor_get_thread.simps [simp del]
  descriptor_get_endpoint.simps [simp del]

section \<open>The kernel does not fail\<close>



section \<open>Objects and references\<close>

text \<open>
  Claim C2. In every reachable state the reference count of a live object is exactly the
  number of references to it: open descriptors of processes that are not destroyed, the
  references a started thread holds on itself and on its process, and the one kept on
  the kernel stack of a blocked system call. Objects that are not live have none. The
  receiver count of an endpoint and the thread count of a process are exact too.
\<close>

theorem reference_counts_exact:
  assumes "reachable mo img s0 s"
  shows "(live s o' \<longrightarrow> rc s o' = refs s o') \<and> (\<not> live s o' \<longrightarrow> refs s o' = 0) \<and> refs s o' < 2 ^ 31 \<and>
    (live s (EndpointRef e) \<longrightarrow> receivers_count (ept s e) = receivers s e) \<and>
    (live s (ProcessRef p) \<longrightarrow> running_threads_count (prc s p) = running_in s p)"
proof -
  have "acct no_debt (\<lambda>_. 0) (\<lambda>_. 0) s"
    using kernel_reachable_inv [OF assms] by (simp add: kernel_inv_def switched_def in_kernel_def kinv_def)
  moreover have "0 \<le> refs s o'"
    by (rule refs_nonneg)
  ultimately show ?thesis
    by (force simp: acct_def)
qed

theorem reference_counts_exact_witness:
  "\<exists>s. reachable demo_ops demo_image demo_machine s \<and> live s (ThreadRef 1) \<and>
    rc s (ThreadRef 1) = refs s (ThreadRef 1)"
  using demo_two_threads demo_run_reachable reference_counts_exact by blast

text \<open>
  Claim C3. In every reachable state, an open descriptor of a process that is not
  destroyed designates an object that is live: there are no dangling capabilities.
\<close>

theorem open_descriptors_live:
  assumes "reachable mo img s0 s" and "active s p" and "i < length (descriptors (prc s p))"
    and "descriptor_is_open (descriptors (prc s p) ! i)"
  shows "\<exists>o'. d_object (descriptors (prc s p) ! i) = Some o' \<and> live s o' \<and> 1 \<le> rc s o'"
proof -
  have k: "kinv no_debt (\<lambda>_. 0) (\<lambda>_. 0) (Some (current s)) s"
    using kernel_reachable_inv [OF assms(1)] by (simp add: kernel_inv_def switched_def in_kernel_def)
  obtain o' where o': "d_object (descriptors (prc s p) ! i) = Some o'"
    using queuesD(9) [OF kinvD(3) [OF k]] assms(2-4)
    unfolding q_slots_def slots_ok_def by (metis nth_mem not_None_eq)
  have "1 \<le> refs s o'"
    by (rule refs_slot [OF kinvD(1) [OF k] assms(2-4) o'])
  then show ?thesis
    using o' kinv_slot_live [OF k assms(2-4) o'] acct_rc [OF kinvD(2) [OF k], of o'] by simp
qed

theorem open_descriptors_live_witness:
  "\<exists>s o'. reachable demo_ops demo_image demo_machine s \<and>
    d_object (descriptors (prc s 0) ! 2) = Some o' \<and> live s o' \<and> 1 \<le> rc s o'"
proof -
  obtain s where "demo_run [(4, 2, 0), (20, 2, 0)] = Inr s" "active s 0"
      "length (descriptors (prc s 0)) = 12" "descriptor_is_open (descriptors (prc s 0) ! 2)"
    using demo_two_threads by blast
  then show ?thesis
    using open_descriptors_live [OF demo_run_reachable, of _ s 0 2] demo_run_reachable by fastforce
qed


text \<open>
  Claim C8. Closing a descriptor always completes, except for descriptor number 12: the
  bound check accepts it, and the access is one past the end of the table of 12 entries.
\<close>

theorem close_out_of_bounds_iff:
  assumes "reachable mo img s0 s" and "in_user s"
  shows "(close mo fd s = Inl BadAccess) = (fd = int JINUE_DESC_NUM) \<and>
    (fd \<noteq> int JINUE_DESC_NUM \<longrightarrow> (\<exists>status s'. close mo fd s = Inr (status, s')))"
proof (cases "fd = int JINUE_DESC_NUM")
  case False
  then have "outcome no_error (close mo fd s) (\<lambda>_. True)"
    using close_ok [OF kernel_inv_call [OF kernel_reachable_inv [OF assms(1)] assms(2)], of fd]
    by (auto simp: fd_ok_def elim: outcome_weaken)
  then show ?thesis
    using False by (auto dest: outcome_totalD)
next
  case True
  note i = kernel_inv_call [OF kernel_reachable_inv [OF assms(1)] assms(2)]
  let ?p = "t_process (thr s (current s))"
  have "get_slot ?p 12 s = Inl BadAccess"
    using length_descriptors [OF incallD(4,8) [OF i]] incallD(8) [OF i] by (simp add: get_slot_def)
  then show ?thesis
    using True incallD(6) [OF i]
    by (simp add: close_def get_current_process_def descriptor_close_def dereference_def JINUE_DESC_NUM_def)
qed

theorem close_out_of_bounds_iff_witness:
  "\<exists>s. reachable demo_ops demo_image demo_machine s \<and> close demo_ops 12 s = Inl BadAccess \<and>
    (\<exists>status s'. close demo_ops 2 s = Inr (status, s'))"
proof -
  obtain s where s: "demo_run [(4, 2, 0), (20, 2, 0)] = Inr s" "in_user s"
    using demo_two_threads by blast
  then show ?thesis
    using close_out_of_bounds_iff [OF demo_run_reachable [OF s(1)] s(2), of 12]
      close_out_of_bounds_iff [OF demo_run_reachable [OF s(1)] s(2), of 2] demo_run_reachable [OF s(1)]
    by (auto simp: JINUE_DESC_NUM_def)
qed

section \<open>Scheduling\<close>

text \<open>
  Claim C4. In every reachable state exactly one thread is in the running state, the
  current one, and its address space is loaded; the ready queue holds each ready thread
  once and nothing else.
\<close>

theorem scheduler_state_consistent:
  assumes "reachable mo img s0 s"
  shows "(live s (ThreadRef t) \<and> t_state (thr s t) = THREAD_STATE_RUNNING) = (t = current s) \<and>
    (live s (ThreadRef t) \<and> t_state (thr s t) = THREAD_STATE_READY) = (t \<in> set (ready_queue s)) \<and>
    distinct (ready_queue s) \<and> address_space s = Some (t_process (thr s (current s))) \<and>
    active s (t_process (thr s (current s)))"
proof -
  have k: "in_kernel no_debt s"
    using kernel_reachable_inv [OF assms] by (simp add: kernel_inv_def switched_def)
  note q = queuesD [OF kinvD(3) [OF in_kernelD(1) [OF k]]]
  show ?thesis
    using q(1,2) in_kernelD [OF k] by (auto simp: q_ready_def q_running_def)
qed

theorem scheduler_state_consistent_witness:
  "\<exists>s. reachable demo_ops demo_image demo_machine s \<and> ready_queue s = [1] \<and>
    live s (ThreadRef 1) \<and> t_state (thr s 1) = THREAD_STATE_READY \<and> address_space s \<noteq> None"
  using demo_two_threads demo_run_reachable scheduler_state_consistent by (metis option.distinct(1))

text \<open>
  Claim C5. Preemption: however long the running thread computes, after as many timer
  ticks as it has credits left (at least one) the first thread of the ready queue runs,
  and the preempted thread is last in the queue.
\<close>

theorem ready_thread_gets_cpu:
  assumes "reachable mo img s0 s" and "in_user s" and "ready_queue s = t # rq"
  shows "\<exists>s'. ticks mo (max 1 (nat (cpu_credits (thr s (current s))))) s = Inr s' \<and>
    current s' = t \<and> ready_queue s' = rq @ [current s]"
  using ticks_preempt [OF kernel_inv_call [OF kernel_reachable_inv [OF assms(1)] assms(2)] assms(3) refl] .

theorem ready_thread_gets_cpu_witness:
  "\<exists>s s'. reachable demo_ops demo_image demo_machine s \<and> current s = 0 \<and>
    ticks demo_ops 3 s = Inr s' \<and> current s' = 1 \<and> ready_queue s' = [0]"
proof -
  obtain s where "demo_run [(4, 2, 0), (20, 2, 0)] = Inr s" "in_user s" "ready_queue s = [1]"
      "current s = 0" "cpu_credits (thr s 0) = 3"
    using demo_two_threads by blast
  then show ?thesis
    using ready_thread_gets_cpu [OF demo_run_reachable, of _ s 1 "[]"] demo_run_reachable by fastforce
qed

section \<open>Inter-process communication\<close>



section \<open>Boot\<close>



end
