(* ===== verification/Words.thy ===== *)
theory Words
  imports Prelude
begin

unbundle bit_operations_syntax

text \<open>
  Alignment (\<open>kernel/utils/asm/utils.h\<close>) and the arithmetic facts on machine words the
  memory components share: when an addition does not wrap, and what rounding to a power
  of two does.
\<close>

section \<open>Additions that do not wrap\<close>

lemma unat_add_u32:
  fixes a b :: u32
  assumes "unat a + unat b < 4294967296"
  shows "unat (a + b) = unat a + unat b"
  using assms by (simp add: unat_word_ariths(1))

lemma unat_of_nat_u32: "n < 4294967296 \<Longrightarrow> unat (of_nat n :: u32) = n"
  by (simp add: unat_of_nat)

lemma unat_add_nat_u32:
  fixes a :: u32
  assumes "unat a + n < 4294967296"
  shows "unat (a + of_nat n) = unat a + n"
  using assms unat_add_u32 [of a "of_nat n"] by (simp add: unat_of_nat_u32)

lemma unat_sub_u32:
  fixes a b :: u32
  assumes "unat b \<le> unat a"
  shows "unat (a - b) = unat a - unat b"
  using assms by (simp add: unat_sub word_le_nat_alt)

lemma unat_mult_u32:
  fixes a b :: u32
  assumes "unat a * unat b < 4294967296"
  shows "unat (a * b) = unat a * unat b"
  using assms by (simp add: unat_word_ariths(2))

section \<open>Alignment\<close>

definition ALIGN_START :: "'a::len word \<Rightarrow> 'a word \<Rightarrow> 'a word" where
  "ALIGN_START x s = x AND NOT (s - 1)"

definition ALIGN_END :: "'a::len word \<Rightarrow> 'a word \<Rightarrow> 'a word" where
  "ALIGN_END x s = ALIGN_START (x + s - 1) s"

lemma and_not_mask_word:
  fixes x :: "'a::len word"
  shows "x AND NOT (mask n) = x - take_bit n x"
proof -
  have "x - take_bit n x = x AND NOT (take_bit n x)"
    by (rule disjunctive_diff) (simp add: bit_take_bit_iff)
  moreover have "x AND NOT (take_bit n x) = x AND NOT (mask n)"
    by (rule bit_eqI) (auto simp: bit_simps)
  ultimately show ?thesis
    by simp
qed

lemma unat_align_start:
  fixes x :: "'a::len word"
  assumes "s = mask n + 1"
  shows "unat (ALIGN_START x s) = unat x - unat x mod 2 ^ n"
proof -
  have "ALIGN_START x s = x - take_bit n x"
    using assms by (simp add: ALIGN_START_def and_not_mask_word)
  moreover have "unat (take_bit n x) = unat x mod 2 ^ n"
    by (simp only: unsigned_take_bit_eq) (simp add: take_bit_eq_mod)
  moreover have "take_bit n x \<le> x"
    by (simp add: word_le_nat_alt unsigned_take_bit_eq)
  ultimately show ?thesis
    by (simp add: unat_sub)
qed

end
