(* ===== verification/PageAlloc.thy ===== *)
theory PageAlloc
  imports Words
begin

unbundle bit_operations_syntax

text \<open>
  The page allocator of \<open>kernel/domain/alloc/page_alloc.c\<close>, its virtual address allocator
  \<open>vmalloc.c\<close> and the boot-time allocator of \<open>kernel/infrastructure/i686/boot_alloc.c\<close>.
  Kernel memory is a store of 32-bit words indexed by address; the first word of a free
  page links it to the next one.
\<close>

type_synonym word_mem = "u32 \<Rightarrow> u32"

definition PAGE_SIZE :: u32 where "PAGE_SIZE = 4096"

record page_state =
  words :: word_mem
  head_page :: u32
  page_count :: u32

section \<open>The page allocator\<close>

definition page_alloc :: "('a page_state_scheme) \<Rightarrow> u32 \<times> 'a page_state_scheme" where
  "page_alloc s =
     (let alloc_page = head_page s
      in if alloc_page \<noteq> 0
         then (alloc_page, s\<lparr>head_page := words s alloc_page, page_count := page_count s - 1\<rparr>)
         else (alloc_page, s))"

definition page_free :: "u32 \<Rightarrow> 'a page_state_scheme \<Rightarrow> 'a page_state_scheme" where
  "page_free page s =
     s\<lparr>words := (words s)(page := head_page s), head_page := page, page_count := page_count s + 1\<rparr>"

definition get_page_count :: "'a page_state_scheme \<Rightarrow> u32" where
  "get_page_count s = page_count s"

definition clear_pages :: "u32 \<Rightarrow> nat \<Rightarrow> 'a page_state_scheme \<Rightarrow> 'a page_state_scheme" where
  "clear_pages first_page num_pages s =
     s\<lparr>words := fold (\<lambda>k m. m(first_page + of_nat (4 * k) := 0)) [0..<num_pages * 1024] (words s)\<rparr>"

definition clear_page :: "u32 \<Rightarrow> 'a page_state_scheme \<Rightarrow> 'a page_state_scheme" where
  "clear_page page s = clear_pages page 1 s"

text \<open>The virtual address allocator is not implemented: both operations panic.\<close>

definition vmalloc :: "u32 result" where
  "vmalloc = Inl (Panic ''vmalloc(): not implemented'')"

definition vmfree :: "u32 \<Rightarrow> unit result" where
  "vmfree page = Inl (Panic ''vmfree(): not implemented'')"

definition vmalloc_is_in_range :: "u32 \<Rightarrow> bool" where
  "vmalloc_is_in_range page = (0xc0000000 \<le> page)"

definition PFNULL :: u64 where "PFNULL = - 1"

text \<open>
  Page frames given by and returned to user space. Mapping, unmapping and looking up a
  page are operations of the page table code, given as arguments.
\<close>

definition add_page_frame ::
    "(u32 \<Rightarrow> u64 \<Rightarrow> 'a page_state_scheme \<Rightarrow> 'a page_state_scheme) \<Rightarrow> u64 \<Rightarrow>
      'a page_state_scheme \<Rightarrow> (bool \<times> 'a page_state_scheme) result" where
  "add_page_frame map_page paddr s =
     bind_ok vmalloc (\<lambda>page.
       if page = 0 then Inr (False, s)
       else Inr (True, page_free page (clear_page page (map_page page paddr s))))"

definition remove_page_frame ::
    "(u32 \<Rightarrow> 'a page_state_scheme \<Rightarrow> u64) \<Rightarrow> (u32 \<Rightarrow> 'a page_state_scheme \<Rightarrow> 'a page_state_scheme) \<Rightarrow>
      'a page_state_scheme \<Rightarrow> (u64 \<times> 'a page_state_scheme) result" where
  "remove_page_frame lookup_paddr unmap_page s =
     (let (page, s) = page_alloc s
      in if page = 0 then Inr (PFNULL, s)
         else
           (let s = clear_page page s;
                paddr = lookup_paddr page s;
                s = unmap_page page s
            in bind_ok (vmfree page) (\<lambda>_. Inr (paddr, s))))"

section \<open>The boot-time allocator\<close>

record boot_alloc_t =
  heap_ptr :: u32
  current_page :: u32
  page_limit :: u32

definition ALLOC_BASE :: u32 where "ALLOC_BASE = 0xc0100000"
definition BOOT_SIZE_AT_16MB :: u32 where "BOOT_SIZE_AT_16MB = 12 * 1024 * 1024"

definition boot_alloc_init :: "u32 \<Rightarrow> u32 \<Rightarrow> boot_alloc_t" where
  "boot_alloc_init boot_heap boot_end =
     \<lparr>heap_ptr = boot_heap, current_page = boot_end, page_limit = ALLOC_BASE + BOOT_SIZE_AT_16MB\<rparr>"

definition clear_bytes :: "u32 \<Rightarrow> u32 \<Rightarrow> (u32 \<Rightarrow> u8) \<Rightarrow> (u32 \<Rightarrow> u8)" where
  "clear_bytes a n m = fold (\<lambda>k m. m(a + of_nat k := 0)) [0..<unat n] m"

definition boot_heap_alloc_size ::
    "u32 \<Rightarrow> u32 \<Rightarrow> boot_alloc_t \<Rightarrow> (u32 \<Rightarrow> u8) \<Rightarrow> u32 \<times> boot_alloc_t \<times> (u32 \<Rightarrow> u8)" where
  "boot_heap_alloc_size n align b m =
     (let b = (if align \<noteq> 0 then b\<lparr>heap_ptr := ALIGN_END (heap_ptr b) align\<rparr> else b);
          object = heap_ptr b;
          b = b\<lparr>heap_ptr := heap_ptr b + n\<rparr>
      in (object, b, if n > 0 then clear_bytes object n m else m))"

definition boot_page_alloc_n ::
    "nat \<Rightarrow> boot_alloc_t \<Rightarrow> 'a page_state_scheme \<Rightarrow> (u32 \<times> boot_alloc_t \<times> 'a page_state_scheme) result" where
  "boot_page_alloc_n num_pages b s =
     (let allocation_start = current_page b;
          b = b\<lparr>current_page := allocation_start + of_nat num_pages * PAGE_SIZE\<rparr>
      in if current_page b > page_limit b
         then Inl (Panic ''boot_page_alloc_n(): available memory exhausted'')
         else Inr (allocation_start, b, clear_pages allocation_start num_pages s))"

definition boot_page_alloc ::
    "boot_alloc_t \<Rightarrow> 'a page_state_scheme \<Rightarrow> (u32 \<times> boot_alloc_t \<times> 'a page_state_scheme) result" where
  "boot_page_alloc b s = boot_page_alloc_n 1 b s"

definition boot_page_alloc_is_empty :: "boot_alloc_t \<Rightarrow> bool" where
  "boot_page_alloc_is_empty b = (current_page b \<ge> page_limit b)"

section \<open>Free pages\<close>

text \<open>\<open>link_chain m p xs\<close>: the words at \<open>xs\<close> form a null-terminated list starting at \<open>p\<close>.\<close>

fun link_chain :: "word_mem \<Rightarrow> u32 \<Rightarrow> u32 list \<Rightarrow> bool" where
  "link_chain m p [] = (p = 0)"
| "link_chain m p (x # xs) = (p = x \<and> x \<noteq> 0 \<and> link_chain m (m x) xs)"

lemma link_chain_upd [simp]: "a \<notin> set xs \<Longrightarrow> link_chain (m(a := v)) p xs = link_chain m p xs"
  by (induction xs arbitrary: p) auto

lemma link_chain_cong:
  "(\<And>x. x \<in> set xs \<Longrightarrow> m' x = m x) \<Longrightarrow> link_chain m' p xs = link_chain m p xs"
  by (induction xs arbitrary: p) auto

lemma link_chain_0 [simp]: "link_chain m 0 xs = (xs = [])"
  by (cases xs) auto

lemma link_chain_nonzero: "link_chain m p xs \<Longrightarrow> 0 \<notin> set xs"
  by (induction xs arbitrary: p) auto

lemma link_chain_unique: "link_chain m p xs \<Longrightarrow> link_chain m p ys \<Longrightarrow> xs = ys"
proof (induction xs arbitrary: p ys)
  case Nil
  then show ?case by simp
next
  case (Cons x xs)
  then show ?case by (cases ys) auto
qed

text \<open>The pages the allocator holds: linked, without repetition, and counted.\<close>

definition free_pages_are :: "'a page_state_scheme \<Rightarrow> u32 list \<Rightarrow> bool" where
  "free_pages_are s ps \<longleftrightarrow> link_chain (words s) (head_page s) ps \<and> distinct ps \<and>
     page_count s = of_nat (length ps)"

lemma page_alloc_pages:
  assumes "free_pages_are s ps"
  shows "case ps of [] \<Rightarrow> page_alloc s = (0, s)
    | p # ps' \<Rightarrow> fst (page_alloc s) = p \<and> p \<noteq> 0 \<and> free_pages_are (snd (page_alloc s)) ps' \<and>
        words (snd (page_alloc s)) = words s"
  using assms by (auto simp: free_pages_are_def page_alloc_def Let_def split: list.splits)

lemma page_free_pages:
  assumes "free_pages_are s ps" and "p \<noteq> 0" and "p \<notin> set ps"
  shows "free_pages_are (page_free p s) (p # ps)"
  using assms by (simp add: free_pages_are_def page_free_def)

end
