(* ===== verification/Slab.thy ===== *)
theory Slab
  imports PageAlloc
begin

unbundle bit_operations_syntax

text \<open>
  The slab allocator of \<open>kernel/domain/alloc/slab.c\<close>. Slab headers are records indexed
  by their address at the end of the page; objects, buffer control words and the links
  between free pages are words of the kernel memory, so that a control word inside an
  object shares its storage with the object, as in the code. Constructors and
  destructors are functions on the memory. Warnings are collected.
\<close>

section \<open>Data\<close>

definition SLAB_SIZE :: u32 where "SLAB_SIZE = PAGE_SIZE"
definition SLAB_POISON_ALIVE_VALUE :: u32 where "SLAB_POISON_ALIVE_VALUE = 0x0BADCAFE"
definition SLAB_POISON_DEAD_VALUE :: u32 where "SLAB_POISON_DEAD_VALUE = 0xDEADBEEF"
definition SLAB_RED_ZONE_VALUE :: u32 where "SLAB_RED_ZONE_VALUE = 0x5711600D"
definition SLAB_DEFAULT_WORKING_SET :: u32 where "SLAB_DEFAULT_WORKING_SET = 2"
definition SLAB_RED_ZONE :: u32 where "SLAB_RED_ZONE = 1"
definition SLAB_POISON :: u32 where "SLAB_POISON = 2"
definition SLAB_HWCACHE_ALIGN :: u32 where "SLAB_HWCACHE_ALIGN = 4"
definition SLAB_COMPACT :: u32 where "SLAB_COMPACT = 8"

text \<open>\<open>sizeof(slab_t)\<close>: six words.\<close>

definition SIZEOF_SLAB :: u32 where "SIZEOF_SLAB = 24"

type_synonym slab_ctor = "u32 \<Rightarrow> u32 \<Rightarrow> word_mem \<Rightarrow> word_mem"

record slab_cache_t =
  slabs_empty :: u32
  slabs_partial :: u32
  slabs_full :: u32
  empty_count :: u32
  obj_size :: u32
  alloc_size :: u32
  alignment :: u32
  bufctl_offset :: u32
  next_colour :: u32
  max_colour :: u32
  working_set :: u32
  ctor :: "slab_ctor option"
  dtor :: "slab_ctor option"
  cache_name :: string
  cache_flags :: u32

record slab_t =
  slab_prev :: u32
  slab_next :: u32
  slab_cache :: nat
  obj_count :: u32
  colour :: u32
  free_list :: u32

datatype slab_warning =
    WriteToFreed u32
  | FreedValue u32 nat
  | PastEndOfFreed u32 u32
  | PastEnd u32 u32

record alloc_state = page_state +
  caches :: "nat \<Rightarrow> slab_cache_t"
  slabs :: "u32 \<Rightarrow> slab_t"
  warnings :: "slab_warning list"

definition upd_cache :: "nat \<Rightarrow> (slab_cache_t \<Rightarrow> slab_cache_t) \<Rightarrow> alloc_state \<Rightarrow> alloc_state" where
  "upd_cache c f s = s\<lparr>caches := (caches s)(c := f (caches s c))\<rparr>"

definition upd_slab :: "u32 \<Rightarrow> (slab_t \<Rightarrow> slab_t) \<Rightarrow> alloc_state \<Rightarrow> alloc_state" where
  "upd_slab a f s = s\<lparr>slabs := (slabs s)(a := f (slabs s a))\<rparr>"

definition has_flag :: "slab_cache_t \<Rightarrow> u32 \<Rightarrow> bool" where
  "has_flag cc f = (cache_flags cc AND f \<noteq> 0)"

section \<open>The slab lists\<close>

text \<open>
  Insertion at the head of a list, and removal of any member. The \<open>prev\<close> pointer of the
  first member of a list is not maintained.
\<close>

definition slab_push :: "u32 \<Rightarrow> u32 \<Rightarrow> (u32 \<Rightarrow> slab_t) \<Rightarrow> (u32 \<Rightarrow> slab_t)" where
  "slab_push slab h st =
     (let st = st(slab := (st slab)\<lparr>slab_next := h\<rparr>)
      in if h \<noteq> 0 then st(h := (st h)\<lparr>slab_prev := slab\<rparr>) else st)"

definition slab_remove :: "u32 \<Rightarrow> u32 \<Rightarrow> (u32 \<Rightarrow> slab_t) \<Rightarrow> u32 \<times> (u32 \<Rightarrow> slab_t)" where
  "slab_remove slab h st =
     (let p = slab_prev (st slab); n = slab_next (st slab);
          (h, st) = (if h = slab then (n, st) else (h, st(p := (st p)\<lparr>slab_next := n\<rparr>)))
      in (h, if n \<noteq> 0 then st(n := (st n)\<lparr>slab_prev := p\<rparr>) else st))"

section \<open>New slabs\<close>

definition fill_words :: "u32 \<Rightarrow> u32 \<Rightarrow> u32 \<Rightarrow> word_mem \<Rightarrow> word_mem" where
  "fill_words a n v m = fold (\<lambda>k m. m(a + of_nat (4 * k) := v)) [0..<unat n div 4] m"

text \<open>What is written in a buffer of a new slab.\<close>

definition init_buffer :: "slab_cache_t \<Rightarrow> u32 \<Rightarrow> word_mem \<Rightarrow> word_mem" where
  "init_buffer cc buffer m =
     (if has_flag cc SLAB_POISON then
        (let m = fill_words buffer (obj_size cc) SLAB_POISON_DEAD_VALUE m
         in if has_flag cc SLAB_RED_ZONE then m(buffer + obj_size cc := SLAB_RED_ZONE_VALUE) else m)
      else case ctor cc of
             Some f \<Rightarrow> f buffer (obj_size cc) m
           | None \<Rightarrow> m)"

text \<open>
  The loop over the buffers of a new slab. A slab has room for 1024 words, so 1024
  iterations are enough.
\<close>

primrec init_buffers :: "nat \<Rightarrow> slab_cache_t \<Rightarrow> u32 \<Rightarrow> u32 \<Rightarrow> word_mem \<Rightarrow> word_mem result" where
  "init_buffers 0 cc slab bufctl m = Inl OutOfFuel"
| "init_buffers (Suc n) cc slab bufctl m =
     (let m = init_buffer cc (bufctl - bufctl_offset cc) m;
          nxt = bufctl + alloc_size cc
      in if nxt \<ge> slab then Inr (m(bufctl := 0))
         else init_buffers n cc slab nxt (m(bufctl := nxt)))"

definition SLAB_FUEL :: nat where "SLAB_FUEL = 1024"

definition init_and_add_slab :: "nat \<Rightarrow> u32 \<Rightarrow> alloc_state \<Rightarrow> alloc_state result" where
  "init_and_add_slab c slab_addr s =
     bind_ok (assert_that (slab_addr \<noteq> 0) s) (\<lambda>s.
       let cc = caches s c;
           slab = slab_addr + SLAB_SIZE - SIZEOF_SLAB;
           s = upd_slab slab (\<lambda>x. x\<lparr>slab_cache := c, obj_count := 0\<rparr>) s;
           s = s\<lparr>slabs := slab_push slab (slabs_empty cc) (slabs s)\<rparr>;
           s = upd_cache c (\<lambda>x. x\<lparr>slabs_empty := slab, empty_count := empty_count x + 1\<rparr>) s;
           col = next_colour cc;
           s = upd_cache c (\<lambda>x. x\<lparr>next_colour :=
                 (if next_colour x < max_colour x then next_colour x + alignment x else 0)\<rparr>) s;
           bufctl = slab_addr + col + bufctl_offset cc;
           s = upd_slab slab (\<lambda>x. x\<lparr>colour := col, free_list := bufctl\<rparr>) s
       in bind_ok (init_buffers SLAB_FUEL cc slab bufctl (words s)) (\<lambda>m. Inr (s\<lparr>words := m\<rparr>)))"

section \<open>Initialization of a cache\<close>

definition compute_alignment :: "u32 \<Rightarrow> u32 \<Rightarrow> u32 \<Rightarrow> u32" where
  "compute_alignment dcache_alignment align flags =
     (let cache_alignment = (if align = 0 then 4 else align);
          cache_alignment =
            (if flags AND SLAB_HWCACHE_ALIGN \<noteq> 0 \<and> cache_alignment < dcache_alignment
             then dcache_alignment else cache_alignment)
      in ALIGN_END cache_alignment 4)"

text \<open>The sizes of a cache, computed from the size of its objects.\<close>

definition compute_alloc_size :: "u32 \<Rightarrow> bool \<Rightarrow> u32 \<Rightarrow> u32 \<Rightarrow> u32" where
  "compute_alloc_size osize has_ctor flags align =
     (let n =
        (if flags AND SLAB_POISON \<noteq> 0 \<and> flags AND SLAB_RED_ZONE \<noteq> 0 then osize + 4 + 4
         else if flags AND SLAB_POISON \<noteq> 0 \<or> flags AND SLAB_RED_ZONE \<noteq> 0 then osize + 4
         else if has_ctor \<and> flags AND SLAB_COMPACT = 0 then osize + 4
         else osize)
      in if n mod align \<noteq> 0 then n + (align - n mod align) else n)"

definition slab_cache_init ::
    "u32 \<Rightarrow> nat \<Rightarrow> string \<Rightarrow> u32 \<Rightarrow> u32 \<Rightarrow> slab_ctor option \<Rightarrow> slab_ctor option \<Rightarrow> u32 \<Rightarrow>
      alloc_state \<Rightarrow> alloc_state result" where
  "slab_cache_init dcache c name n align ct dt flags s =
     bind_ok (assert_that (n \<ge> 4) s) (\<lambda>s.
       let al = compute_alignment dcache align flags;
           osize = ALIGN_END n 4;
           asize = compute_alloc_size osize (ct \<noteq> None) flags al;
           avail_space = SLAB_SIZE - SIZEOF_SLAB;
           buffers_per_slab = avail_space div asize;
           wasted_space = avail_space - buffers_per_slab * asize;
           s = s\<lparr>caches := (caches s)(c := \<lparr>slabs_empty = 0, slabs_partial = 0, slabs_full = 0,
                 empty_count = 0, obj_size = osize, alloc_size = asize, alignment = al,
                 bufctl_offset = asize - 4, next_colour = 0,
                 max_colour = (wasted_space div al) * al,
                 working_set = SLAB_DEFAULT_WORKING_SET, ctor = ct, dtor = dt,
                 cache_name = name, cache_flags = flags\<rparr>)\<rparr>;
           (slab_page, s) = page_alloc s
       in if slab_page = 0 then Inl (Panic ''Could not allocate page for first slab'')
          else init_and_add_slab c slab_page s)"

section \<open>Allocation\<close>

text \<open>The first partial slab, or the first empty slab made partial; nothing when no page is left.\<close>

definition select_slab :: "nat \<Rightarrow> alloc_state \<Rightarrow> (u32 option \<times> alloc_state) result" where
  "select_slab c s =
     (if slabs_partial (caches s c) \<noteq> 0 then Inr (Some (slabs_partial (caches s c)), s)
      else
        bind_ok
          (if slabs_empty (caches s c) = 0 then
             (let (slab_page, s) = page_alloc s
              in if slab_page = 0 then Inr (False, s)
                 else bind_ok (init_and_add_slab c slab_page s) (\<lambda>s. Inr (True, s)))
           else Inr (True, s)) (\<lambda>(found, s).
          if \<not> found then Inr (None, s)
          else
            (let slab = slabs_empty (caches s c)
             in bind_ok (assert_that (slab \<noteq> 0) s) (\<lambda>s.
                  let s = upd_cache c (\<lambda>x. x\<lparr>slabs_empty := slab_next (slabs s slab),
                            empty_count := empty_count x - 1\<rparr>) s;
                      s = s\<lparr>slabs := slab_push slab (slabs_partial (caches s c)) (slabs s)\<rparr>;
                      s = upd_cache c (\<lambda>x. x\<lparr>slabs_partial := slab\<rparr>) s
                  in Inr (Some slab, s)))))"

text \<open>The first free buffer of the slab is taken; a slab without free buffers moves to the full list.\<close>

definition take_buffer :: "nat \<Rightarrow> u32 \<Rightarrow> alloc_state \<Rightarrow> (u32 \<times> alloc_state) result" where
  "take_buffer c slab s =
     (let bufctl = free_list (slabs s slab)
      in bind_ok (assert_that (bufctl \<noteq> 0) s) (\<lambda>s.
           let s = upd_slab slab (\<lambda>x. x\<lparr>free_list := words s bufctl, obj_count := obj_count x + 1\<rparr>) s
           in if free_list (slabs s slab) \<noteq> 0 then Inr (bufctl, s)
              else
                bind_ok (assert_that (slabs_partial (caches s c) = slab) s) (\<lambda>s.
                  let (h, st) = slab_remove slab (slabs_partial (caches s c)) (slabs s);
                      s = upd_cache c (\<lambda>x. x\<lparr>slabs_partial := h\<rparr>) (s\<lparr>slabs := st\<rparr>);
                      s = s\<lparr>slabs := slab_push slab (slabs_full (caches s c)) (slabs s)\<rparr>;
                      s = upd_cache c (\<lambda>x. x\<lparr>slabs_full := slab\<rparr>) s
                  in Inr (bufctl, s))))"

text \<open>With poisoning, every word of a free object must still have the dead value.\<close>

fun check_poison ::
    "u32 \<Rightarrow> nat list \<Rightarrow> nat \<Rightarrow> word_mem \<times> slab_warning list \<Rightarrow> word_mem \<times> slab_warning list" where
  "check_poison buffer [] dump_lines mw = mw"
| "check_poison buffer (idx # idxs) dump_lines (m, ws) =
     (let a = buffer + of_nat (4 * idx);
          bad = (m a \<noteq> SLAB_POISON_DEAD_VALUE);
          ws = (if bad \<and> dump_lines = 0 then ws @ [WriteToFreed buffer] else ws);
          ws = (if bad \<and> dump_lines < 4 then ws @ [FreedValue (m a) (4 * idx)] else ws)
      in check_poison buffer idxs (if bad then dump_lines + 1 else dump_lines)
           (m(a := SLAB_POISON_ALIVE_VALUE), ws))"

definition prepare_object :: "slab_cache_t \<Rightarrow> u32 \<Rightarrow> alloc_state \<Rightarrow> alloc_state" where
  "prepare_object cc buffer s =
     (if has_flag cc SLAB_POISON then
        (let (m, ws) = check_poison buffer [0..<unat (obj_size cc) div 4] 0 (words s, warnings s);
             rz = buffer + of_nat (4 * (unat (obj_size cc) div 4));
             (m, ws) =
               (if has_flag cc SLAB_RED_ZONE
                then (m(rz := SLAB_RED_ZONE_VALUE),
                      if m rz \<noteq> SLAB_RED_ZONE_VALUE then ws @ [PastEndOfFreed buffer (m rz)] else ws)
                else (m, ws));
             m = (case ctor cc of Some f \<Rightarrow> f buffer (obj_size cc) m | None \<Rightarrow> m)
         in s\<lparr>words := m, warnings := ws\<rparr>)
      else if has_flag cc SLAB_RED_ZONE then
        s\<lparr>words := (words s)(buffer + of_nat (4 * (unat (obj_size cc) div 4)) := SLAB_RED_ZONE_VALUE)\<rparr>
      else s)"

definition slab_cache_alloc :: "nat \<Rightarrow> alloc_state \<Rightarrow> (u32 \<times> alloc_state) result" where
  "slab_cache_alloc c s =
     bind_ok (select_slab c s) (\<lambda>(slab, s).
       case slab of
         None \<Rightarrow> Inr (0, s)
       | Some slab \<Rightarrow>
           bind_ok (take_buffer c slab s) (\<lambda>(bufctl, s).
             let cc = caches s c; buffer = bufctl - bufctl_offset cc
             in Inr (buffer, prepare_object cc buffer s)))"

section \<open>Freeing\<close>

definition finish_object :: "slab_cache_t \<Rightarrow> u32 \<Rightarrow> alloc_state \<Rightarrow> alloc_state" where
  "finish_object cc buffer s =
     (let rz = buffer + obj_size cc;
          s = (if has_flag cc SLAB_RED_ZONE
               then s\<lparr>warnings := (if words s rz \<noteq> SLAB_RED_ZONE_VALUE
                                   then warnings s @ [PastEnd buffer (words s rz)] else warnings s),
                      words := (words s)(rz := SLAB_RED_ZONE_VALUE)\<rparr>
               else s)
      in if has_flag cc SLAB_POISON then
           (let m = (case dtor cc of Some f \<Rightarrow> f buffer (obj_size cc) (words s) | None \<Rightarrow> words s)
            in s\<lparr>words := fill_words buffer (obj_size cc) SLAB_POISON_DEAD_VALUE m\<rparr>)
         else s)"

definition slab_cache_free :: "u32 \<Rightarrow> alloc_state \<Rightarrow> alloc_state" where
  "slab_cache_free buffer s =
     (let slab = ALIGN_START buffer SLAB_SIZE + SLAB_SIZE - SIZEOF_SLAB;
          c = slab_cache (slabs s slab);
          bufctl = buffer + bufctl_offset (caches s c);
          s = (if free_list (slabs s slab) = 0 then
                 (let (h, st) = slab_remove slab (slabs_full (caches s c)) (slabs s);
                      s = upd_cache c (\<lambda>x. x\<lparr>slabs_full := h\<rparr>) (s\<lparr>slabs := st\<rparr>);
                      s = s\<lparr>slabs := slab_push slab (slabs_partial (caches s c)) (slabs s)\<rparr>
                  in upd_cache c (\<lambda>x. x\<lparr>slabs_partial := slab\<rparr>) s)
               else s);
          s = finish_object (caches s c) buffer s;
          s = s\<lparr>words := (words s)(bufctl := free_list (slabs s slab))\<rparr>;
          s = upd_slab slab (\<lambda>x. x\<lparr>free_list := bufctl, obj_count := obj_count x - 1\<rparr>) s
      in if obj_count (slabs s slab) = 0 then
           (let (h, st) = slab_remove slab (slabs_partial (caches s c)) (slabs s);
                s = upd_cache c (\<lambda>x. x\<lparr>slabs_partial := h\<rparr>) (s\<lparr>slabs := st\<rparr>);
                s = s\<lparr>slabs := slab_push slab (slabs_empty (caches s c)) (slabs s)\<rparr>
            in upd_cache c (\<lambda>x. x\<lparr>slabs_empty := slab, empty_count := empty_count x + 1\<rparr>) s)
         else s)"

section \<open>Returning memory\<close>

primrec destroy_buffers :: "nat \<Rightarrow> slab_cache_t \<Rightarrow> slab_ctor \<Rightarrow> u32 \<Rightarrow> u32 \<Rightarrow> word_mem \<Rightarrow> word_mem result" where
  "destroy_buffers 0 cc f slab buffer m = Inl OutOfFuel"
| "destroy_buffers (Suc n) cc f slab buffer m =
     (if buffer < slab
      then destroy_buffers n cc f slab (buffer + alloc_size cc) (f buffer (obj_size cc) m)
      else Inr m)"

definition destroy_slab :: "nat \<Rightarrow> u32 \<Rightarrow> alloc_state \<Rightarrow> alloc_state result" where
  "destroy_slab c slab s =
     bind_ok (assert_that (obj_count (slabs s slab) = 0) s) (\<lambda>s.
       let cc = caches s c; start_addr = ALIGN_START slab SLAB_SIZE
       in bind_ok
            (case dtor cc of
               Some f \<Rightarrow>
                 if \<not> has_flag cc SLAB_POISON
                 then destroy_buffers (Suc SLAB_FUEL) cc f slab (start_addr + colour (slabs s slab)) (words s)
                 else Inr (words s)
             | None \<Rightarrow> Inr (words s))
            (\<lambda>m. Inr (page_free start_addr (s\<lparr>words := m\<rparr>))))"

text \<open>One iteration for each empty slab is enough: an iteration removes one.\<close>

primrec reap_loop :: "nat \<Rightarrow> nat \<Rightarrow> alloc_state \<Rightarrow> alloc_state result" where
  "reap_loop 0 c s =
     (if empty_count (caches s c) > working_set (caches s c) then Inl OutOfFuel else Inr s)"
| "reap_loop (Suc n) c s =
     (if empty_count (caches s c) > working_set (caches s c) then
        (let slab = slabs_empty (caches s c);
             s = upd_cache c (\<lambda>x. x\<lparr>slabs_empty := slab_next (slabs s slab),
                   empty_count := empty_count x - 1\<rparr>) s
         in bind_ok (destroy_slab c slab s) (reap_loop n c))
      else Inr s)"

definition slab_cache_reap :: "nat \<Rightarrow> alloc_state \<Rightarrow> alloc_state result" where
  "slab_cache_reap c s = reap_loop (unat (empty_count (caches s c))) c s"

definition slab_cache_set_working_set :: "nat \<Rightarrow> u32 \<Rightarrow> alloc_state \<Rightarrow> alloc_state" where
  "slab_cache_set_working_set c n s = upd_cache c (\<lambda>x. x\<lparr>working_set := n\<rparr>) s"

end
