(* ===== verification/SlabProps.thy ===== *)
theory SlabProps
  imports Slab
begin

unbundle bit_operations_syntax

text \<open>
  Correctness of the slab allocator: its lists, the layout of a slab, and the invariant
  of a cache, which every operation keeps. The abstraction of a cache is the set of its
  allocated buffers.
\<close>

section \<open>Doubly linked lists\<close>

definition head_of :: "u32 list \<Rightarrow> u32" where
  "head_of xs = (case xs of [] \<Rightarrow> 0 | x # _ \<Rightarrow> x)"

lemma head_of_simps [simp]:
  "head_of [] = 0" "head_of (x # xs) = x"
  "head_of (xs @ ys) = (if xs = [] then head_of ys else head_of xs)"
  by (cases xs; simp add: head_of_def)+

lemma in_set_tl: "x \<in> set (tl xs) \<Longrightarrow> x \<in> set xs"
  by (cases xs) simp_all

lemma head_of_in: "xs \<noteq> [] \<Longrightarrow> head_of xs \<in> set xs"
  by (cases xs) simp_all

primrec dlinks :: "(u32 \<Rightarrow> slab_t) \<Rightarrow> u32 list \<Rightarrow> bool" where
  "dlinks st [] = True"
| "dlinks st (x # xs) = (slab_next (st x) = head_of xs \<and>
     (xs \<noteq> [] \<longrightarrow> slab_prev (st (head_of xs)) = x) \<and> dlinks st xs)"

definition dlist :: "(u32 \<Rightarrow> slab_t) \<Rightarrow> u32 \<Rightarrow> u32 list \<Rightarrow> bool" where
  "dlist st h xs \<longleftrightarrow> h = head_of xs \<and> 0 \<notin> set xs \<and> distinct xs \<and> dlinks st xs"

lemma dlinks_cong:
  assumes "\<And>x. x \<in> set xs \<Longrightarrow> slab_next (st' x) = slab_next (st x)"
    and "\<And>x. x \<in> set (tl xs) \<Longrightarrow> slab_prev (st' x) = slab_prev (st x)"
  shows "dlinks st' xs = dlinks st xs"
  using assms
proof (induction xs)
  case Nil
  then show ?case by simp
next
  case (Cons x xs)
  have "dlinks st' xs = dlinks st xs"
    by (rule Cons.IH) (use Cons.prems in \<open>auto dest: in_set_tl\<close>)
  moreover have "xs \<noteq> [] \<longrightarrow> slab_prev (st' (head_of xs)) = slab_prev (st (head_of xs))"
    using Cons.prems(2) head_of_in by simp
  ultimately show ?case
    using Cons.prems(1) by auto
qed

lemma dlist_frame:
  assumes "dlist st h xs" and "\<And>x. x \<in> set xs \<Longrightarrow> slab_next (st' x) = slab_next (st x) \<and> slab_prev (st' x) = slab_prev (st x)"
  shows "dlist st' h xs"
proof -
  have "dlinks st' xs = dlinks st xs"
    by (rule dlinks_cong) (use assms(2) in \<open>auto dest: in_set_tl\<close>)
  then show ?thesis
    using assms(1) by (simp add: dlist_def)
qed

lemma dlist_empty [simp]: "dlist st 0 xs = (xs = [])"
  by (cases xs) (auto simp: dlist_def)

lemma dlist_nonempty: "dlist st h xs \<Longrightarrow> h \<noteq> 0 \<Longrightarrow> \<exists>ys. xs = h # ys"
  by (cases xs) (auto simp: dlist_def)

lemma dlist_tail: "dlist st h (x # xs) \<Longrightarrow> dlist st (slab_next (st x)) xs"
  by (simp add: dlist_def)

lemma slab_push_sel:
  "h \<noteq> a \<Longrightarrow> slab_next (slab_push a h st x) = (if x = a then h else slab_next (st x))"
  "x \<noteq> h \<Longrightarrow> slab_prev (slab_push a h st x) = slab_prev (st x)"
  "h \<noteq> 0 \<Longrightarrow> slab_prev (slab_push a h st h) = a"
  by (auto simp: slab_push_def Let_def)

lemma slab_push_dlist:
  assumes "dlist st h xs" and "a \<notin> set xs" and "a \<noteq> 0"
  shows "dlist (slab_push a h st) a (a # xs)"
proof -
  have tl: "x \<noteq> h" if "x \<in> set (tl xs)" for x
    using that assms(1) by (cases xs) (auto simp: dlist_def)
  have "h \<noteq> a"
    using assms head_of_in [of xs] by (cases xs) (auto simp: dlist_def)
  moreover from this have "dlinks (slab_push a h st) xs = dlinks st xs"
    by (intro dlinks_cong) (use assms(2) tl in \<open>auto simp: slab_push_sel(1,2)\<close>)
  moreover have "xs \<noteq> [] \<Longrightarrow> h \<noteq> 0"
    using assms(1) head_of_in [of xs] by (auto simp: dlist_def)
  ultimately show ?thesis
    using assms by (auto simp: dlist_def slab_push_sel)
qed

lemma slab_push_keeps:
  "slab_cache (slab_push a h st x) = slab_cache (st x)" "obj_count (slab_push a h st x) = obj_count (st x)"
  "colour (slab_push a h st x) = colour (st x)" "free_list (slab_push a h st x) = free_list (st x)"
  "x \<noteq> a \<Longrightarrow> x \<noteq> h \<Longrightarrow> slab_push a h st x = st x"
  by (simp_all add: slab_push_def Let_def)

text \<open>Removal of a member, at the head or after another one.\<close>

lemma slab_remove_head:
  "slab_remove a a st = (slab_next (st a), if slab_next (st a) \<noteq> 0
     then st(slab_next (st a) := (st (slab_next (st a)))\<lparr>slab_prev := slab_prev (st a)\<rparr>) else st)"
  by (simp add: slab_remove_def Let_def)

lemma slab_remove_other:
  "h \<noteq> a \<Longrightarrow> slab_remove a h st =
     (let p = slab_prev (st a); n = slab_next (st a); st1 = st(p := (st p)\<lparr>slab_next := n\<rparr>)
      in (h, if n \<noteq> 0 then st1(n := (st1 n)\<lparr>slab_prev := p\<rparr>) else st1))"
  by (simp add: slab_remove_def Let_def)

lemma slab_remove_keeps:
  "slab_cache (snd (slab_remove a h st) x) = slab_cache (st x)"
  "obj_count (snd (slab_remove a h st) x) = obj_count (st x)"
  "colour (snd (slab_remove a h st) x) = colour (st x)"
  "free_list (snd (slab_remove a h st) x) = free_list (st x)"
  by (cases "h = a"; simp add: slab_remove_head slab_remove_other Let_def)+

lemma dlinks_remove:
  assumes "\<And>x. x \<noteq> p \<Longrightarrow> slab_next (st' x) = slab_next (st x)" and "slab_next (st' p) = head_of ys"
    and "\<And>x. ys = [] \<or> x \<noteq> head_of ys \<Longrightarrow> slab_prev (st' x) = slab_prev (st x)"
    and "ys \<noteq> [] \<Longrightarrow> slab_prev (st' (head_of ys)) = p"
  shows "dlinks st (xs @ p # a # ys) \<Longrightarrow> distinct (xs @ p # a # ys) \<Longrightarrow> dlinks st' (xs @ p # ys)"
proof (induction xs)
  case Nil
  have "x \<noteq> head_of ys" if "x \<in> set (tl ys)" for x
    using Nil(2) that by (cases ys) auto
  moreover have "x \<noteq> p" if "x \<in> set ys" for x
    using Nil(2) that by auto
  ultimately have "dlinks st' ys = dlinks st ys"
    by (intro dlinks_cong) (simp_all add: assms(1,3))
  then show ?case
    using Nil(1) assms(2,4) by simp
next
  case (Cons x xs)
  have IH: "dlinks st' (xs @ p # ys)"
    using Cons by simp
  let ?h = "head_of (xs @ p # ys)"
  have h: "?h = head_of (xs @ p # a # ys)"
    by simp
  have "?h \<noteq> head_of ys" if "ys \<noteq> []"
    using Cons.prems(2) head_of_in [OF that] head_of_in [of xs] by (cases "xs = []") auto
  then have "slab_prev (st' ?h) = slab_prev (st ?h)"
    by (intro assms(3)) auto
  moreover have "slab_next (st' x) = slab_next (st x)"
    using Cons.prems(2) by (intro assms(1)) auto
  ultimately show ?case
    using IH Cons.prems(1) h by (simp del: head_of_simps(3))
qed

lemma slab_remove_dlist:
  assumes "dlist st h (xs @ a # ys)"
  shows "dlist (snd (slab_remove a h st)) (fst (slab_remove a h st)) (xs @ ys)"
    "x \<notin> set (xs @ ys) \<Longrightarrow> snd (slab_remove a h st) x = st x"
proof -
  have d: "distinct (xs @ a # ys)" "0 \<notin> set (xs @ a # ys)" "dlinks st (xs @ a # ys)"
      "h = head_of (xs @ a # ys)"
    using assms by (simp_all add: dlist_def del: head_of_simps(3))
  have split: "dlinks st (us @ vs) \<Longrightarrow> dlinks st vs" for us vs
    by (induction us) simp_all
  have n: "slab_next (st a) = head_of ys"
    using split [OF d(3)] by simp
  have n0: "(slab_next (st a) \<noteq> 0) = (ys \<noteq> [])"
    using n d(2) head_of_in [of ys] by (cases ys) auto
  have "dlist (snd (slab_remove a h st)) (fst (slab_remove a h st)) (xs @ ys) \<and>
    (x \<notin> set (xs @ ys) \<longrightarrow> snd (slab_remove a h st) x = st x)" for x
  proof (cases xs rule: rev_exhaust)
    case Nil
    let ?st = "snd (slab_remove a h st)"
    have h: "h = a"
      using d(4) Nil by simp
    have st: "?st = (if ys \<noteq> [] then st(head_of ys := (st (head_of ys))\<lparr>slab_prev := slab_prev (st a)\<rparr>) else st)"
      using n n0 by (simp add: h slab_remove_head)
    have "dlinks ?st ys = dlinks st ys"
      unfolding st using d(1) Nil by (intro dlinks_cong) (cases ys; auto)+
    then show ?thesis
      using d n st head_of_in [of ys] by (auto simp: dlist_def Nil h slab_remove_head)
  next
    case (snoc us p)
    let ?st = "snd (slab_remove a h st)"
    have h: "h \<noteq> a"
      using d(1,4) snoc head_of_in [of us] by (auto split: if_splits)
    have p: "slab_prev (st a) = p" "p \<noteq> head_of ys \<or> ys = []" "p \<noteq> a"
      using split [of us "p # a # ys"] d(1,3) snoc head_of_in [of ys] by auto
    have st: "?st = (let st1 = st(p := (st p)\<lparr>slab_next := head_of ys\<rparr>)
        in if ys \<noteq> [] then st1(head_of ys := (st1 (head_of ys))\<lparr>slab_prev := p\<rparr>) else st1)"
      using h n n0 by (simp add: slab_remove_other p(1) Let_def)
    have "dlinks ?st (us @ p # ys)"
      by (rule dlinks_remove [where a = a and st = st])
        (use p d(1,3) snoc in \<open>auto simp: st Let_def\<close>)
    moreover have "fst (slab_remove a h st) = h" "h = head_of (us @ p # ys)"
      using h d(4) snoc by (simp_all add: slab_remove_other Let_def)
    ultimately show ?thesis
      using d snoc st head_of_in [of ys] by (auto simp: dlist_def Let_def)
  qed
  then show "dlist (snd (slab_remove a h st)) (fst (slab_remove a h st)) (xs @ ys)"
    "x \<notin> set (xs @ ys) \<Longrightarrow> snd (slab_remove a h st) x = st x"
    by blast+
qed

section \<open>The layout of a slab\<close>

text \<open>
  A page that can hold a slab. The last page of the address space is excluded: there the
  address of the control word after the last one would wrap around.
\<close>

definition page_ok :: "u32 \<Rightarrow> bool" where
  "page_ok p \<longleftrightarrow> p \<noteq> 0 \<and> unat p mod 4096 = 0 \<and> unat p + 8192 \<le> 4294967296"

lemma page_ok_bounds: "page_ok p \<Longrightarrow> 4096 \<le> unat p \<and> unat p + 8192 \<le> 4294967296"
proof -
  assume p: "page_ok p"
  then obtain k where k: "unat p = 4096 * k"
    by (auto simp: page_ok_def)
  moreover have "k \<noteq> 0"
    using p k by (cases "k = 0") (simp_all add: page_ok_def unat_eq_zero)
  ultimately show ?thesis
    using p by (simp add: page_ok_def)
qed

text \<open>An object function writes only inside the object it is given.\<close>

definition obj_fn :: "u32 \<Rightarrow> slab_ctor \<Rightarrow> bool" where
  "obj_fn n f \<longleftrightarrow> (\<forall>b m x. \<not> (unat b \<le> unat x \<and> unat x < unat b + unat n) \<longrightarrow> f b n m x = m x)"

definition cache_ok :: "slab_cache_t \<Rightarrow> bool" where
  "cache_ok cc \<longleftrightarrow>
     4 dvd unat (alloc_size cc) \<and> 4 \<le> unat (alloc_size cc) \<and> unat (alloc_size cc) \<le> 4072 \<and>
     bufctl_offset cc = alloc_size cc - 4 \<and> 4 dvd unat (alignment cc) \<and> 0 < unat (alignment cc) \<and>
     unat (alignment cc) dvd unat (next_colour cc) \<and> unat (alignment cc) dvd unat (max_colour cc) \<and>
     unat (next_colour cc) \<le> unat (max_colour cc) \<and>
     unat (max_colour cc) \<le> 4072 mod unat (alloc_size cc) \<and>
     4 dvd unat (obj_size cc) \<and> unat (obj_size cc) \<le> unat (alloc_size cc) \<and>
     (has_flag cc SLAB_POISON \<or> has_flag cc SLAB_RED_ZONE \<longrightarrow> unat (obj_size cc) + 4 \<le> unat (alloc_size cc)) \<and>
     (\<forall>f. ctor cc = Some f \<or> dtor cc = Some f \<longrightarrow> obj_fn (obj_size cc) f)"

lemma cache_okD:
  assumes "cache_ok cc"
  shows "4 dvd unat (alloc_size cc)" "4 \<le> unat (alloc_size cc)" "unat (alloc_size cc) \<le> 4072"
    "bufctl_offset cc = alloc_size cc - 4" "4 dvd unat (alignment cc)" "0 < unat (alignment cc)"
    "unat (alignment cc) dvd unat (next_colour cc)" "unat (alignment cc) dvd unat (max_colour cc)"
    "unat (next_colour cc) \<le> unat (max_colour cc)"
    "unat (max_colour cc) \<le> 4072 mod unat (alloc_size cc)"
    "4 dvd unat (obj_size cc)" "unat (obj_size cc) \<le> unat (alloc_size cc)"
    "has_flag cc SLAB_POISON \<or> has_flag cc SLAB_RED_ZONE \<Longrightarrow> unat (obj_size cc) + 4 \<le> unat (alloc_size cc)"
    "ctor cc = Some f \<Longrightarrow> obj_fn (obj_size cc) f" "dtor cc = Some f \<Longrightarrow> obj_fn (obj_size cc) f"
  using assms unfolding cache_ok_def by blast+

definition nbuf :: "slab_cache_t \<Rightarrow> nat" where
  "nbuf cc = 4072 div unat (alloc_size cc)"

definition buffer_at :: "slab_cache_t \<Rightarrow> u32 \<Rightarrow> u32 \<Rightarrow> nat \<Rightarrow> u32" where
  "buffer_at cc p col i = p + of_nat (unat col + i * unat (alloc_size cc))"

definition buffers :: "slab_cache_t \<Rightarrow> u32 \<Rightarrow> u32 \<Rightarrow> u32 list" where
  "buffers cc p col = map (buffer_at cc p col) [0..<nbuf cc]"

definition in_buffer :: "slab_cache_t \<Rightarrow> u32 \<Rightarrow> u32 \<Rightarrow> bool" where
  "in_buffer cc b x \<longleftrightarrow> unat b \<le> unat x \<and> unat x < unat b + unat (alloc_size cc)"

lemma buffer_fits:
  assumes "cache_ok cc" and "unat col \<le> unat (max_colour cc)" and "i < nbuf cc"
  shows "unat col + i * unat (alloc_size cc) + unat (alloc_size cc) \<le> 4072"
proof -
  let ?a = "unat (alloc_size cc)"
  have "i * ?a + ?a = Suc i * ?a"
    by simp
  also have "\<dots> \<le> nbuf cc * ?a"
    using assms(3) by (intro mult_le_mono1) simp
  also have "\<dots> = 4072 - 4072 mod ?a"
    by (simp add: nbuf_def minus_mod_eq_div_mult)
  finally show ?thesis
    using cache_okD(10) [OF assms(1)] assms(2) mod_less_eq_dividend [of 4072 ?a] by linarith
qed

lemma unat_buffer_at:
  assumes "cache_ok cc" and "page_ok p" and "unat col \<le> unat (max_colour cc)" and "i < nbuf cc"
  shows "unat (buffer_at cc p col i) = unat p + unat col + i * unat (alloc_size cc)"
  unfolding buffer_at_def using buffer_fits [OF assms(1,3,4)] page_ok_bounds [OF assms(2)]
  by (subst unat_add_nat_u32) simp_all

lemma nbuf_pos: "cache_ok cc \<Longrightarrow> 0 < nbuf cc"
  using cache_okD(2,3) [of cc] by (simp add: nbuf_def div_greater_zero_iff)

lemma bufctl_of_buffer:
  assumes "cache_ok cc" and "unat b + unat (alloc_size cc) \<le> 4294967296"
  shows "unat (b + bufctl_offset cc) = unat b + unat (alloc_size cc) - 4"
    "in_buffer cc b (b + bufctl_offset cc)"
proof -
  have "unat (bufctl_offset cc) = unat (alloc_size cc) - 4"
    using cache_okD(2,4) [OF assms(1)] unat_sub_u32 [of 4 "alloc_size cc"] by simp
  then show u: "unat (b + bufctl_offset cc) = unat b + unat (alloc_size cc) - 4"
    using assms(2) cache_okD(2) [OF assms(1)] by (simp add: unat_add_u32)
  show "in_buffer cc b (b + bufctl_offset cc)"
    using cache_okD(2) [OF assms(1)] unfolding in_buffer_def u by linarith
qed

text \<open>Buffers are disjoint.\<close>

lemma buffers_disjoint:
  assumes "cache_ok cc" and "page_ok p" and "unat col \<le> unat (max_colour cc)"
    and "i < nbuf cc" and "j < nbuf cc" and "in_buffer cc (buffer_at cc p col i) x"
    and "in_buffer cc (buffer_at cc p col j) x"
  shows "i = j"
proof -
  let ?a = "unat (alloc_size cc)"
  have "i * ?a < Suc j * ?a" "j * ?a < Suc i * ?a"
    using assms(6,7) by (simp_all add: in_buffer_def unat_buffer_at [OF assms(1-3)] assms(4,5))
  from mult_less_cancel2 [THEN iffD1, OF this(1)] mult_less_cancel2 [THEN iffD1, OF this(2)]
  have "i < Suc j" "j < Suc i"
    by blast+
  then show ?thesis
    by simp
qed

section \<open>Writing buffers\<close>

lemma fill_words_frame:
  assumes "unat a + unat n \<le> 4294967296" and "\<not> (unat a \<le> unat x \<and> unat x < unat a + unat n)"
  shows "fill_words a n v m x = m x"
proof -
  have "k < unat n div 4 \<Longrightarrow> a + of_nat (4 * k) \<noteq> x" for k
    using assms unat_add_nat_u32 [of a "4 * k"] by (cases "a + of_nat (4 * k) = x") simp_all
  then have "set ks \<subseteq> {0..<unat n div 4} \<Longrightarrow> fold (\<lambda>k m. m(a + of_nat (4 * k) := v)) ks m x = m x" for ks
    by (induction ks arbitrary: m) auto
  then show ?thesis
    unfolding fill_words_def by simp
qed

lemma init_buffer_frame:
  assumes "cache_ok cc" and "unat b + unat (alloc_size cc) \<le> 4294967296" and "\<not> in_buffer cc b x"
  shows "init_buffer cc b m x = m x"
proof -
  have out: "\<not> (unat b \<le> unat x \<and> unat x < unat b + unat (obj_size cc))"
    using assms(3) cache_okD(12) [OF assms(1)] by (auto simp: in_buffer_def)
  have rz: "x \<noteq> b + obj_size cc" if "has_flag cc SLAB_RED_ZONE"
    using that assms(2,3) cache_okD(13) [OF assms(1)] unat_add_u32 [of b "obj_size cc"]
    by (auto simp: in_buffer_def)
  have fill: "fill_words b (obj_size cc) v m x = m x" for v
    by (rule fill_words_frame) (use assms(2) cache_okD(12) [OF assms(1)] out in auto)
  have "f b (obj_size cc) m x = m x" if "ctor cc = Some f" for f
    using cache_okD(14) [OF assms(1) that] out by (simp add: obj_fn_def)
  then show ?thesis
    using rz fill by (auto simp: init_buffer_def Let_def split: option.splits)
qed

definition bufctls :: "slab_cache_t \<Rightarrow> u32 \<Rightarrow> u32 \<Rightarrow> nat \<Rightarrow> u32 list" where
  "bufctls cc p col i = map (\<lambda>k. buffer_at cc p col k + bufctl_offset cc) [i..<nbuf cc]"

lemma bufctls_Cons:
  "i < nbuf cc \<Longrightarrow> bufctls cc p col i = (buffer_at cc p col i + bufctl_offset cc) # bufctls cc p col (Suc i)"
  by (simp add: bufctls_def upt_conv_Cons)

text \<open>
  The loop ends after the last buffer that fits: the test on the address of the next
  control word is exact because everything is a multiple of four.
\<close>

lemma next_bufctl:
  assumes "cache_ok cc" and "page_ok p" and "unat col \<le> unat (max_colour cc)" and "4 dvd unat col"
    and "i < nbuf cc"
  shows "(buffer_at cc p col i + bufctl_offset cc + alloc_size cc \<ge> p + 4072) = (Suc i = nbuf cc)"
    "buffer_at cc p col i + bufctl_offset cc + alloc_size cc = buffer_at cc p col (Suc i) + bufctl_offset cc"
proof -
  let ?a = "unat (alloc_size cc)"
  note fit = buffer_fits [OF assms(1,3,5)] page_ok_bounds [OF assms(2)]
  have b: "unat (buffer_at cc p col i) = unat p + unat col + i * ?a"
    by (rule unat_buffer_at [OF assms(1-3,5)])
  have c: "unat (buffer_at cc p col i + bufctl_offset cc) = unat p + unat col + i * ?a + ?a - 4"
    by (subst bufctl_of_buffer(1) [OF assms(1)]) (use b fit in simp_all)
  have n: "unat (buffer_at cc p col i + bufctl_offset cc + alloc_size cc) =
      unat p + unat col + i * ?a + ?a - 4 + ?a"
  proof (subst unat_add_u32)
    show "unat (buffer_at cc p col i + bufctl_offset cc) + ?a < 4294967296"
      unfolding c using fit by linarith
  qed (simp add: c)
  have p: "unat (p + 4072) = unat p + 4072"
    using fit(2) by (subst unat_add_u32) simp_all
  have d: "4 dvd unat col + i * ?a + ?a + ?a"
    using assms(4) cache_okD(1) [OF assms(1)] by simp
  have "(Suc i = nbuf cc) = (\<not> unat col + i * ?a + ?a + ?a \<le> 4072)"
  proof
    assume "\<not> unat col + i * ?a + ?a + ?a \<le> 4072"
    then show "Suc i = nbuf cc"
      using buffer_fits [OF assms(1,3), of "Suc i"] assms(5) by (cases "Suc i < nbuf cc") simp_all
  next
    assume "Suc i = nbuf cc"
    then have "4072 < Suc (Suc i) * ?a"
      unfolding nbuf_def using cache_okD(2) [OF assms(1)] dividend_less_div_times [of ?a 4072] by simp
    then show "\<not> unat col + i * ?a + ?a + ?a \<le> 4072"
      by simp
  qed
  also have "\<dots> = (4072 \<le> unat col + i * ?a + ?a - 4 + ?a)"
    using d cache_okD(2) [OF assms(1)] by presburger
  also have "\<dots> = (buffer_at cc p col i + bufctl_offset cc + alloc_size cc \<ge> p + 4072)"
    unfolding word_le_nat_alt n p using cache_okD(2) [OF assms(1)] by linarith
  finally show "(buffer_at cc p col i + bufctl_offset cc + alloc_size cc \<ge> p + 4072) = (Suc i = nbuf cc)"
    by simp
  show "buffer_at cc p col i + bufctl_offset cc + alloc_size cc = buffer_at cc p col (Suc i) + bufctl_offset cc"
    by (simp add: buffer_at_def)
qed

text \<open>The loop of \<open>init_and_add_slab\<close> from buffer \<open>i\<close> on.\<close>

lemma init_buffers_ok:
  assumes "cache_ok cc" and "page_ok p" and "unat col \<le> unat (max_colour cc)" and "4 dvd unat col"
    and "i < nbuf cc" and "nbuf cc - i \<le> n"
  shows "\<exists>m'. init_buffers n cc (p + 4072) (buffer_at cc p col i + bufctl_offset cc) m = Inr m' \<and>
    link_chain m' (buffer_at cc p col i + bufctl_offset cc) (bufctls cc p col i) \<and>
    (\<forall>x. (\<forall>k. i \<le> k \<and> k < nbuf cc \<longrightarrow> \<not> in_buffer cc (buffer_at cc p col k) x) \<longrightarrow> m' x = m x)"
  using assms(5,6)
proof (induction n arbitrary: i m)
  case 0
  then show ?case by simp
next
  case (Suc n)
  let ?b = "buffer_at cc p col i" and ?c = "buffer_at cc p col i + bufctl_offset cc"
  note fit = buffer_fits [OF assms(1,3) Suc.prems(1)] page_ok_bounds [OF assms(2)]
  have u: "unat ?b = unat p + unat col + i * unat (alloc_size cc)"
    by (rule unat_buffer_at [OF assms(1-3) Suc.prems(1)])
  have room: "unat ?b + unat (alloc_size cc) \<le> 4294967296"
    using fit u by linarith
  have c: "in_buffer cc ?b ?c" "?c \<noteq> 0"
  proof -
    show "in_buffer cc ?b ?c"
      by (rule bufctl_of_buffer(2) [OF assms(1) room])
    then show "?c \<noteq> 0"
      using u fit by (auto simp: in_buffer_def)
  qed
  let ?m = "init_buffer cc ?b m"
  have frame: "?m x = m x" if "\<not> in_buffer cc ?b x" for x
    by (rule init_buffer_frame [OF assms(1) room that])
  show ?case
  proof (cases "Suc i = nbuf cc")
    case True
    then have "init_buffers (Suc n) cc (p + 4072) ?c m = Inr (?m(?c := 0))"
      using next_bufctl(1) [OF assms(1-4) Suc.prems(1)] by (simp add: Let_def)
    moreover have "bufctls cc p col i = [?c]"
      using True bufctls_Cons [OF Suc.prems(1)] by (simp add: bufctls_def)
    ultimately show ?thesis
      using c frame Suc.prems(1) by auto
  next
    case False
    let ?n = "buffer_at cc p col (Suc i) + bufctl_offset cc"
    have i: "Suc i < nbuf cc"
      using False Suc.prems(1) by simp
    obtain m' where m': "init_buffers n cc (p + 4072) ?n (?m(?c := ?n)) = Inr m'"
        "link_chain m' ?n (bufctls cc p col (Suc i))"
        "\<forall>x. (\<forall>k. Suc i \<le> k \<and> k < nbuf cc \<longrightarrow> \<not> in_buffer cc (buffer_at cc p col k) x) \<longrightarrow> m' x = (?m(?c := ?n)) x"
    proof -
      have "nbuf cc - Suc i \<le> n"
        using Suc.prems(2) by simp
      from Suc.IH [OF i this, of "?m(?c := ?n)"] that show ?thesis
        by blast
    qed
    have later: "\<not> in_buffer cc (buffer_at cc p col k) ?c" if "Suc i \<le> k" "k < nbuf cc" for k
      using buffers_disjoint [OF assms(1-3) Suc.prems(1) that(2) c(1)] that(1) by auto
    then have "m' ?c = ?n"
      using m'(3) by simp
    moreover have "m' x = m x" if "\<forall>k. i \<le> k \<and> k < nbuf cc \<longrightarrow> \<not> in_buffer cc (buffer_at cc p col k) x" for x
      using m'(3) frame [of x] that c(1) Suc.prems(1) by auto
    moreover have "init_buffers (Suc n) cc (p + 4072) ?c m = Inr m'"
    proof -
      have "\<not> p + 4072 \<le> ?n"
        using next_bufctl [OF assms(1-4) Suc.prems(1)] False by simp
      then show ?thesis
        using m'(1) by (simp add: Let_def next_bufctl(2) [OF assms(1-4) Suc.prems(1)])
    qed
    ultimately show ?thesis
      using m'(2) c bufctls_Cons [OF Suc.prems(1)] by auto
  qed
qed

section \<open>The invariant of a cache\<close>

text \<open>A view of a cache: its three lists of slabs and the free control words of each slab.\<close>

record slab_view =
  v_empty :: "u32 list"
  v_partial :: "u32 list"
  v_full :: "u32 list"
  v_free :: "u32 \<Rightarrow> u32 list"

definition v_slabs :: "slab_view \<Rightarrow> u32 list" where
  "v_slabs v = v_empty v @ v_partial v @ v_full v"

definition slab_ok :: "nat \<Rightarrow> alloc_state \<Rightarrow> u32 \<Rightarrow> u32 list \<Rightarrow> bool" where
  "slab_ok c s a fl \<longleftrightarrow> page_ok (a - 4072) \<and> slab_cache (slabs s a) = c \<and>
     unat (colour (slabs s a)) \<le> unat (max_colour (caches s c)) \<and> 4 dvd unat (colour (slabs s a)) \<and>
     link_chain (words s) (free_list (slabs s a)) fl \<and> distinct fl \<and>
     set fl \<subseteq> set (bufctls (caches s c) (a - 4072) (colour (slabs s a)) 0) \<and>
     unat (obj_count (slabs s a)) + length fl = nbuf (caches s c)"

definition slab_struct :: "nat \<Rightarrow> alloc_state \<Rightarrow> slab_view \<Rightarrow> u32 list \<Rightarrow> bool" where
  "slab_struct c s v pg \<longleftrightarrow> cache_ok (caches s c) \<and>
     dlist (slabs s) (slabs_empty (caches s c)) (v_empty v) \<and>
     dlist (slabs s) (slabs_partial (caches s c)) (v_partial v) \<and>
     dlist (slabs s) (slabs_full (caches s c)) (v_full v) \<and> distinct (v_slabs v) \<and>
     empty_count (caches s c) = of_nat (length (v_empty v)) \<and>
     (\<forall>a \<in> set (v_slabs v). slab_ok c s a (v_free v a) \<and> a - 4072 \<notin> set pg) \<and>
     free_pages_are s pg \<and> (\<forall>p \<in> set pg. page_ok p)"

text \<open>A slab is on the list its number of free buffers says.\<close>

definition v_counts :: "nat \<Rightarrow> slab_view \<Rightarrow> bool" where
  "v_counts n v \<longleftrightarrow> (\<forall>a \<in> set (v_empty v). length (v_free v a) = n) \<and>
     (\<forall>a \<in> set (v_partial v). 0 < length (v_free v a) \<and> length (v_free v a) < n) \<and>
     (\<forall>a \<in> set (v_full v). v_free v a = [])"

definition slab_inv :: "nat \<Rightarrow> alloc_state \<Rightarrow> slab_view \<Rightarrow> u32 list \<Rightarrow> bool" where
  "slab_inv c s v pg \<longleftrightarrow> slab_struct c s v pg \<and> v_counts (nbuf (caches s c)) v"

definition allocated :: "nat \<Rightarrow> alloc_state \<Rightarrow> slab_view \<Rightarrow> u32 set" where
  "allocated c s v = {b. \<exists>a \<in> set (v_slabs v).
     b \<in> set (buffers (caches s c) (a - 4072) (colour (slabs s a))) \<and>
     b + bufctl_offset (caches s c) \<notin> set (v_free v a)}"

lemma slab_structD:
  assumes "slab_struct c s v pg"
  shows "cache_ok (caches s c)" "dlist (slabs s) (slabs_empty (caches s c)) (v_empty v)"
    "dlist (slabs s) (slabs_partial (caches s c)) (v_partial v)"
    "dlist (slabs s) (slabs_full (caches s c)) (v_full v)" "distinct (v_slabs v)"
    "empty_count (caches s c) = of_nat (length (v_empty v))"
    "a \<in> set (v_slabs v) \<Longrightarrow> slab_ok c s a (v_free v a)" "a \<in> set (v_slabs v) \<Longrightarrow> a - 4072 \<notin> set pg"
    "free_pages_are s pg" "p \<in> set pg \<Longrightarrow> page_ok p"
  using assms unfolding slab_struct_def by blast+

lemma slab_structI:
  assumes "cache_ok (caches s c)" "dlist (slabs s) (slabs_empty (caches s c)) (v_empty v)"
    "dlist (slabs s) (slabs_partial (caches s c)) (v_partial v)"
    "dlist (slabs s) (slabs_full (caches s c)) (v_full v)" "distinct (v_slabs v)"
    "empty_count (caches s c) = of_nat (length (v_empty v))"
    "\<And>a. a \<in> set (v_slabs v) \<Longrightarrow> slab_ok c s a (v_free v a)"
    "\<And>a. a \<in> set (v_slabs v) \<Longrightarrow> a - 4072 \<notin> set pg"
    "free_pages_are s pg" "\<And>p. p \<in> set pg \<Longrightarrow> page_ok p"
  shows "slab_struct c s v pg"
  using assms unfolding slab_struct_def by blast

definition in_page :: "u32 \<Rightarrow> u32 \<Rightarrow> bool" where
  "in_page p x \<longleftrightarrow> unat p \<le> unat x \<and> unat x < unat p + 4096"

lemma in_page_unique:
  assumes "page_ok p" and "page_ok q" and "in_page p x" and "in_page q x"
  shows "p = q"
proof -
  obtain i j where ij: "unat p = 4096 * i" "unat q = 4096 * j"
    using assms(1,2) unfolding page_ok_def by (metis mod_0_imp_dvd dvdE)
  then have "i = j"
    using assms(3,4) by (simp add: in_page_def)
  then show ?thesis
    using ij by (simp add: word_unat_eq_iff)
qed

lemma buffer_in_page:
  assumes "cache_ok cc" and "page_ok p" and "unat col \<le> unat (max_colour cc)" and "i < nbuf cc"
    and "in_buffer cc (buffer_at cc p col i) x"
  shows "in_page p x" "unat x < unat p + 4072"
  using assms(5) buffer_fits [OF assms(1,3,4)] unat_buffer_at [OF assms(1-4)]
  by (auto simp: in_page_def in_buffer_def)

lemma bufctl_in_page:
  assumes "cache_ok cc" and "page_ok p" and "unat col \<le> unat (max_colour cc)"
    and "x \<in> set (bufctls cc p col i)"
  shows "in_page p x"
proof -
  obtain k where k: "k < nbuf cc" "x = buffer_at cc p col k + bufctl_offset cc"
    using assms(4) by (auto simp: bufctls_def)
  have "unat (buffer_at cc p col k) + unat (alloc_size cc) \<le> 4294967296"
    using unat_buffer_at [OF assms(1-3) k(1)] buffer_fits [OF assms(1,3) k(1)] page_ok_bounds [OF assms(2)]
    by linarith
  from bufctl_of_buffer(2) [OF assms(1) this] show ?thesis
    unfolding k(2) by (rule buffer_in_page(1) [OF assms(1-3) k(1)])
qed

lemma slab_ok_frame:
  assumes "slab_ok c s a fl" and "cache_ok (caches s c)"
    and "\<And>x. in_page (a - 4072) x \<Longrightarrow> words s' x = words s x"
    and "slab_cache (slabs s' a) = slab_cache (slabs s a)" "colour (slabs s' a) = colour (slabs s a)"
      "free_list (slabs s' a) = free_list (slabs s a)" "obj_count (slabs s' a) = obj_count (slabs s a)"
    and "max_colour (caches s' c) = max_colour (caches s c)" "alloc_size (caches s' c) = alloc_size (caches s c)"
      "bufctl_offset (caches s' c) = bufctl_offset (caches s c)"
  shows "slab_ok c s' a fl"
proof -
  have "in_page (a - 4072) x" if "x \<in> set fl" for x
    using assms(1) that
    by (intro bufctl_in_page [OF assms(2), where col = "colour (slabs s a)" and i = 0]) (auto simp: slab_ok_def)
  then have "link_chain (words s') (free_list (slabs s a)) fl = link_chain (words s) (free_list (slabs s a)) fl"
    by (intro link_chain_cong) (simp add: assms(3))
  then show ?thesis
    using assms(1,4-) by (simp add: slab_ok_def bufctls_def buffer_at_def nbuf_def)
qed

end
