(* ===== verification/SlabOps.thy ===== *)
theory SlabOps
  imports SlabProps
begin

unbundle bit_operations_syntax

text \<open>
  Every operation of the slab allocator keeps the invariant of its cache and does to the
  set of allocated buffers what it promises.
\<close>

section \<open>Frame facts\<close>

lemma free_pages_frame:
  assumes "free_pages_are s pg" and "\<And>q. q \<in> set pg \<Longrightarrow> page_ok q" and "page_ok p" and "p \<notin> set pg"
    and "\<And>x. \<not> in_page p x \<Longrightarrow> words s' x = words s x" and "head_page s' = head_page s"
    and "page_count s' = page_count s"
  shows "free_pages_are s' pg"
proof -
  have "words s' x = words s x" if "x \<in> set pg" for x
  proof (rule assms(5))
    have "in_page x x"
      by (simp add: in_page_def)
    then show "\<not> in_page p x"
      using in_page_unique [OF assms(3) assms(2) [OF that], of x] that assms(4) by blast
  qed
  then have "link_chain (words s') (head_page s) pg = link_chain (words s) (head_page s) pg"
    by (rule link_chain_cong)
  then show ?thesis
    using assms(1,6,7) by (simp add: free_pages_are_def)
qed

lemma other_page:
  assumes "slab_struct c s v pg" and "b \<in> set (v_slabs v)" and "page_ok p" and "b \<noteq> p + 4072"
    and "in_page (b - 4072) x"
  shows "\<not> in_page p x"
proof
  assume "in_page p x"
  moreover have "page_ok (b - 4072)"
    using slab_structD(7) [OF assms(1,2)] by (simp add: slab_ok_def)
  ultimately have "p = b - 4072"
    using in_page_unique assms(3,5) by blast
  then show False
    using assms(4) by simp
qed

lemma head_not_in_other:
  assumes "slab_struct c s v pg"
  shows "x \<in> set (v_partial v) \<Longrightarrow> x \<noteq> slabs_empty (caches s c)"
    "x \<in> set (v_full v) \<Longrightarrow> x \<noteq> slabs_empty (caches s c)"
    "x \<in> set (v_empty v) \<Longrightarrow> x \<noteq> slabs_partial (caches s c)"
    "x \<in> set (v_full v) \<Longrightarrow> x \<noteq> slabs_partial (caches s c)"
    "x \<in> set (v_empty v) \<Longrightarrow> x \<noteq> slabs_full (caches s c)"
    "x \<in> set (v_partial v) \<Longrightarrow> x \<noteq> slabs_full (caches s c)"
proof -
  have head: "h \<in> set ys \<or> h = 0" if "dlist st h ys" for st h ys
    using that head_of_in [of ys] by (cases ys) (auto simp: dlist_def)
  have zero: "0 \<notin> set ys" if "dlist st h ys" for st h ys
    using that by (simp add: dlist_def)
  note d = slab_structD(2-5) [OF assms]
  note hd = head [OF d(1)] head [OF d(2)] head [OF d(3)] and z = zero [OF d(1)] zero [OF d(2)] zero [OF d(3)]
  show "x \<in> set (v_partial v) \<Longrightarrow> x \<noteq> slabs_empty (caches s c)"
    "x \<in> set (v_full v) \<Longrightarrow> x \<noteq> slabs_empty (caches s c)"
    "x \<in> set (v_empty v) \<Longrightarrow> x \<noteq> slabs_partial (caches s c)"
    "x \<in> set (v_full v) \<Longrightarrow> x \<noteq> slabs_partial (caches s c)"
    "x \<in> set (v_empty v) \<Longrightarrow> x \<noteq> slabs_full (caches s c)"
    "x \<in> set (v_partial v) \<Longrightarrow> x \<noteq> slabs_full (caches s c)"
    using hd z d(4) by (auto simp: v_slabs_def)
qed

section \<open>A new slab\<close>

lemma cache_ok_next_colour:
  assumes "cache_ok cc"
  shows "cache_ok (cc\<lparr>slabs_empty := a, empty_count := n, next_colour :=
    (if next_colour cc < max_colour cc then next_colour cc + alignment cc else 0)\<rparr>)"
proof -
  let ?n = "next_colour cc" and ?m = "max_colour cc" and ?a = "alignment cc"
  have "unat (?n + ?a) = unat ?n + unat ?a \<and> unat ?n + unat ?a \<le> unat ?m" if "?n < ?m"
  proof -
    obtain i j where ij: "unat ?n = unat ?a * i" "unat ?m = unat ?a * j"
      using cache_okD(7,8) [OF assms] by (metis dvdE)
    have "unat ?a * i < unat ?a * j"
      using that ij by (simp add: word_less_nat_alt)
    then have "Suc i \<le> j"
      by simp
    then have "unat ?a * Suc i \<le> unat ?a * j"
      by (rule mult_le_mono2)
    then have "unat ?n + unat ?a \<le> unat ?m"
      using ij by simp
    then show ?thesis
      using unat_add_u32 [of ?n ?a] unat_u32_less [of ?m] by simp
  qed
  then show ?thesis
    using assms cache_okD(7) [OF assms] by (auto simp: cache_ok_def has_flag_def)
qed

lemma slab_header_addr: "p + SLAB_SIZE - SIZEOF_SLAB = p + 4072"
  by (simp add: SLAB_SIZE_def PAGE_SIZE_def SIZEOF_SLAB_def)

definition slab_added :: "nat \<Rightarrow> u32 \<Rightarrow> word_mem \<Rightarrow> alloc_state \<Rightarrow> alloc_state" where
  "slab_added c p m s =
     (let cc = caches s c; a = p + 4072;
          st = slab_push a (slabs_empty cc) ((slabs s)(a := (slabs s a)\<lparr>slab_cache := c, obj_count := 0\<rparr>))
      in s\<lparr>words := m,
           slabs := st(a := (st a)\<lparr>colour := next_colour cc,
             free_list := buffer_at cc p (next_colour cc) 0 + bufctl_offset cc\<rparr>),
           caches := (caches s)(c := cc\<lparr>slabs_empty := a, empty_count := empty_count cc + 1, next_colour :=
             (if next_colour cc < max_colour cc then next_colour cc + alignment cc else 0)\<rparr>)\<rparr>)"

lemma init_and_add_slab_eq:
  assumes "cache_ok (caches s c)" and "page_ok p" and "cc = caches s c"
  obtains m where "init_and_add_slab c p s = Inr (slab_added c p m s)"
    "link_chain m (buffer_at cc p (next_colour cc) 0 + bufctl_offset cc) (bufctls cc p (next_colour cc) 0)"
    "\<And>x. \<not> in_page p x \<Longrightarrow> m x = words s x"
proof -
  let ?col = "next_colour cc"
  note ok = assms(1) [folded assms(3)]
  have col: "unat ?col \<le> unat (max_colour cc)" "4 dvd unat ?col"
    using cache_okD(5,7,9) [OF ok] dvd_trans by blast+
  have "nbuf cc - 0 \<le> SLAB_FUEL"
  proof -
    have "4072 div unat (alloc_size cc) \<le> 4072 div 4"
      by (rule div_le_mono2) (use cache_okD(2) [OF ok] in simp_all)
    then show ?thesis
      by (simp add: nbuf_def SLAB_FUEL_def)
  qed
  from init_buffers_ok [OF ok assms(2) col nbuf_pos [OF ok] this, of "words s"]
  obtain m where m: "init_buffers SLAB_FUEL cc (p + 4072) (buffer_at cc p ?col 0 + bufctl_offset cc) (words s) = Inr m"
      "link_chain m (buffer_at cc p ?col 0 + bufctl_offset cc) (bufctls cc p ?col 0)"
      "\<And>x. (\<forall>k < nbuf cc. \<not> in_buffer cc (buffer_at cc p ?col k) x) \<Longrightarrow> m x = words s x"
    by auto
  have "m x = words s x" if "\<not> in_page p x" for x
    using m(3) buffer_in_page(1) [OF ok assms(2) col(1)] that by blast
  moreover have "p \<noteq> 0" "p + ?col = buffer_at cc p ?col 0"
    using assms(2) by (simp_all add: page_ok_def buffer_at_def)
  then have "init_and_add_slab c p s = Inr (slab_added c p m s)"
    using m(1)
    by (simp add: init_and_add_slab_def Let_def slab_header_addr assms(3) [symmetric] slab_added_def
        upd_slab_def upd_cache_def assert_that_def)
  ultimately show ?thesis
    using m(2) that by blast
qed

lemma length_bufctls [simp]: "length (bufctls cc p col i) = nbuf cc - i"
  by (simp add: bufctls_def)

lemma distinct_bufctls:
  assumes "cache_ok cc" and "page_ok p" and "unat col \<le> unat (max_colour cc)"
  shows "distinct (bufctls cc p col i)"
proof -
  have "inj_on (\<lambda>k. buffer_at cc p col k + bufctl_offset cc) {i..<nbuf cc}"
  proof (rule inj_onI)
    fix k l
    assume k: "k \<in> {i..<nbuf cc}" and l: "l \<in> {i..<nbuf cc}"
      and eq: "buffer_at cc p col k + bufctl_offset cc = buffer_at cc p col l + bufctl_offset cc"
    have "unat (buffer_at cc p col j) + unat (alloc_size cc) \<le> 4294967296" if "j \<in> {i..<nbuf cc}" for j
      using unat_buffer_at [OF assms] buffer_fits [OF assms(1,3)] page_ok_bounds [OF assms(2)] that
      by fastforce
    then have "in_buffer cc (buffer_at cc p col k) (buffer_at cc p col k + bufctl_offset cc)"
        "in_buffer cc (buffer_at cc p col l) (buffer_at cc p col k + bufctl_offset cc)"
      using bufctl_of_buffer(2) [OF assms(1)] k l eq by metis+
    then show "k = l"
      using buffers_disjoint [OF assms] k l by auto
  qed
  then show ?thesis
    by (simp add: bufctls_def distinct_map)
qed

lemma slab_added_struct:
  assumes "slab_struct c s v pg" and "page_ok p" and "p \<notin> set pg" and "p + 4072 \<notin> set (v_slabs v)"
    and "link_chain m (buffer_at cc p (next_colour cc) 0 + bufctl_offset cc) (bufctls cc p (next_colour cc) 0)"
    and "\<And>x. \<not> in_page p x \<Longrightarrow> m x = words s x" and "cc = caches s c"
    and "v' = v\<lparr>v_empty := (p + 4072) # v_empty v,
      v_free := (v_free v)(p + 4072 := bufctls cc p (next_colour cc) 0)\<rparr>"
  shows "slab_struct c (slab_added c p m s) v' pg"
proof (rule slab_structI)
  let ?s = "slab_added c p m s" and ?a = "p + 4072"
  define st where "st = slab_push ?a (slabs_empty cc) ((slabs s)(?a := (slabs s ?a)\<lparr>slab_cache := c, obj_count := 0\<rparr>))"
  note ok = slab_structD(1) [OF assms(1), folded assms(7)]
  have cc': "caches ?s c = cc\<lparr>slabs_empty := ?a, empty_count := empty_count cc + 1, next_colour :=
      (if next_colour cc < max_colour cc then next_colour cc + alignment cc else 0)\<rparr>"
    by (simp add: slab_added_def Let_def assms(7))
  have st': "slabs ?s = st(?a := (st ?a)\<lparr>colour := next_colour cc,
      free_list := buffer_at cc p (next_colour cc) 0 + bufctl_offset cc\<rparr>)"
    by (simp add: slab_added_def Let_def assms(7) st_def)
  have nz: "?a \<noteq> 0"
  proof -
    have "unat ?a = unat p + 4072"
      using page_ok_bounds [OF assms(2)] by (subst unat_add_u32) simp_all
    then show ?thesis
      by (metis add_is_0 unat_0 zero_neq_numeral)
  qed
  show "cache_ok (caches ?s c)"
    unfolding cc' by (rule cache_ok_next_colour [OF ok])
  have E: "?a \<notin> set (v_empty v)" "?a \<notin> set (v_partial v)" "?a \<notin> set (v_full v)"
    using assms(4) by (simp_all add: v_slabs_def)
  have "dlist ((slabs s)(?a := (slabs s ?a)\<lparr>slab_cache := c, obj_count := 0\<rparr>)) (slabs_empty cc) (v_empty v)"
    by (rule dlist_frame [OF slab_structD(2) [OF assms(1), folded assms(7)]]) (use E in auto)
  then have "dlist st ?a (?a # v_empty v)"
    unfolding st_def by (rule slab_push_dlist [OF _ E(1) nz])
  then have "dlist (slabs ?s) ?a (?a # v_empty v)"
    by (rule dlist_frame) (simp add: st')
  then show "dlist (slabs ?s) (slabs_empty (caches ?s c)) (v_empty v')"
    by (simp add: cc' assms(8))
  have other: "slabs ?s x = slabs s x" if "x \<noteq> ?a" "x \<noteq> slabs_empty cc" for x
    using that by (simp add: st' st_def slab_push_keeps(5))
  note heads = head_not_in_other [OF assms(1), folded assms(7)]
  have same: "slabs ?s x = slabs s x" if "x \<in> set (v_partial v) \<or> x \<in> set (v_full v)" for x
    by (rule other) (use that E heads(1,2) in blast)+
  have "dlist (slabs ?s) (slabs_partial cc) (v_partial v)" "dlist (slabs ?s) (slabs_full cc) (v_full v)"
    by (rule dlist_frame [OF slab_structD(3) [OF assms(1), folded assms(7)]]
        dlist_frame [OF slab_structD(4) [OF assms(1), folded assms(7)]], simp add: same)+
  then show "dlist (slabs ?s) (slabs_partial (caches ?s c)) (v_partial v')"
      "dlist (slabs ?s) (slabs_full (caches ?s c)) (v_full v')"
    by (simp_all add: cc' assms(8))
  show "distinct (v_slabs v')"
    using slab_structD(5) [OF assms(1)] assms(4) by (simp add: v_slabs_def assms(8))
  show "empty_count (caches ?s c) = of_nat (length (v_empty v'))"
    using slab_structD(6) [OF assms(1), folded assms(7)] by (simp add: cc' assms(8))
  have nb: "nbuf (caches ?s c) = nbuf cc"
    by (simp add: cc' nbuf_def)
  have bc: "bufctls (caches ?s c) q col k = bufctls cc q col k" for q col k
    by (simp add: cc' bufctls_def buffer_at_def nbuf_def)
  have old: "slab_ok c ?s b (v_free v b)" if "b \<in> set (v_slabs v)" for b
  proof (rule slab_ok_frame [OF slab_structD(7) [OF assms(1) that] slab_structD(1) [OF assms(1)]])
    have "b \<noteq> ?a"
      using that assms(4) by auto
    then show "words ?s x = words s x" if "in_page (b - 4072) x" for x
      using other_page [OF assms(1) \<open>b \<in> set (v_slabs v)\<close> assms(2) _ that] assms(6)
      by (simp add: slab_added_def Let_def)
    show "slab_cache (slabs ?s b) = slab_cache (slabs s b)" "colour (slabs ?s b) = colour (slabs s b)"
      "free_list (slabs ?s b) = free_list (slabs s b)" "obj_count (slabs ?s b) = obj_count (slabs s b)"
      using \<open>b \<noteq> ?a\<close> by (simp_all add: st' st_def slab_push_keeps)
  qed (simp_all add: cc' assms(7))
  have new: "slab_ok c ?s ?a (bufctls cc p (next_colour cc) 0)"
  proof -
    have "unat (next_colour cc) \<le> unat (max_colour cc)" "4 dvd unat (next_colour cc)"
      using cache_okD(5,7,9) [OF ok] dvd_trans by blast+
    then show ?thesis
      using assms(2,5) distinct_bufctls [OF ok assms(2)]
      by (simp add: slab_ok_def nb bc, simp add: cc' st' st_def slab_push_keeps slab_added_def Let_def assms(7) [symmetric])
  qed
  show "slab_ok c ?s b (v_free v' b)" if "b \<in> set (v_slabs v')" for b
    using that old new assms(4) by (auto simp: assms(8) v_slabs_def)
  show "b - 4072 \<notin> set pg" if "b \<in> set (v_slabs v')" for b
    using that slab_structD(8) [OF assms(1)] assms(3) by (auto simp: assms(8) v_slabs_def)
  show "free_pages_are ?s pg"
    by (rule free_pages_frame [OF slab_structD(9,10) [OF assms(1)] assms(2,3)])
      (simp_all add: slab_added_def Let_def assms(6))
  show "page_ok q" if "q \<in> set pg" for q
    by (rule slab_structD(10) [OF assms(1) that])
qed

section \<open>Moving a slab between lists\<close>

definition same_slabs :: "(u32 \<Rightarrow> slab_t) \<Rightarrow> (u32 \<Rightarrow> slab_t) \<Rightarrow> bool" where
  "same_slabs st st' \<longleftrightarrow> (\<forall>x. slab_cache (st' x) = slab_cache (st x) \<and> obj_count (st' x) = obj_count (st x) \<and>
     colour (st' x) = colour (st x) \<and> free_list (st' x) = free_list (st x))"

lemma relist:
  assumes "slab_struct c s v pg" and "same_slabs (slabs s) st"
    and "cc' = (caches s c)\<lparr>slabs_empty := h1, slabs_partial := h2, slabs_full := h3, empty_count := n\<rparr>"
    and "dlist st h1 (v_empty v')" "dlist st h2 (v_partial v')" "dlist st h3 (v_full v')"
    and "distinct (v_slabs v')" "set (v_slabs v') = set (v_slabs v)" "v_free v' = v_free v"
      "n = of_nat (length (v_empty v'))"
  shows "slab_struct c (s\<lparr>slabs := st, caches := (caches s)(c := cc')\<rparr>) v' pg"
proof (rule slab_structI)
  let ?s = "s\<lparr>slabs := st, caches := (caches s)(c := cc')\<rparr>"
  note d = slab_structD [OF assms(1)]
  show "cache_ok (caches ?s c)"
    using d(1) by (simp add: assms(3) cache_ok_def has_flag_def)
  show "dlist (slabs ?s) (slabs_empty (caches ?s c)) (v_empty v')"
    "dlist (slabs ?s) (slabs_partial (caches ?s c)) (v_partial v')"
    "dlist (slabs ?s) (slabs_full (caches ?s c)) (v_full v')"
    "empty_count (caches ?s c) = of_nat (length (v_empty v'))"
    using assms(3-6,10) by simp_all
  show "slab_ok c ?s a (v_free v' a)" if "a \<in> set (v_slabs v')" for a
    using that assms(2,8) unfolding assms(9)
    by (intro slab_ok_frame [OF d(7) d(1)]) (simp_all add: same_slabs_def assms(3))
  show "a - 4072 \<notin> set pg" if "a \<in> set (v_slabs v')" for a
    using that assms(8) d(8) by simp
  show "free_pages_are ?s pg"
    using d(9) by (simp add: free_pages_are_def)
qed (use assms(7) slab_structD(10) [OF assms(1)] in simp_all)

lemma same_slabs_push: "same_slabs st (slab_push a h st)"
  by (simp add: same_slabs_def slab_push_keeps)

lemma same_slabs_move: "same_slabs st (slab_push a h' (snd (slab_remove a h st)))"
  by (simp add: same_slabs_def slab_push_keeps slab_remove_keeps)

text \<open>Three disjoint lists; a slab goes from the first to the head of the second.\<close>

lemma move_dlists:
  assumes "dlist st hx (xs @ a # ys)" and "dlist st hy zs" and "dlist st hw ws"
    and "distinct ((xs @ a # ys) @ zs @ ws)"
    and "st1 = snd (slab_remove a hx st)" and "st2 = slab_push a hy st1"
  shows "dlist st2 (fst (slab_remove a hx st)) (xs @ ys)" "dlist st2 a (a # zs)" "dlist st2 hw ws"
proof -
  have r: "dlist st1 (fst (slab_remove a hx st)) (xs @ ys)" "\<And>x. x \<notin> set (xs @ ys) \<Longrightarrow> st1 x = st x"
    unfolding assms(5) by (rule slab_remove_dlist(1) [OF assms(1)]) (rule slab_remove_dlist(2) [OF assms(1)])
  have keep: "st1 x = st x" if "x \<in> set zs \<or> x \<in> set ws" for x
    by (rule r(2)) (use that assms(4) in auto)
  have z: "dlist st1 hy zs" "dlist st1 hw ws"
    by (rule dlist_frame [OF assms(2)] dlist_frame [OF assms(3)], simp add: keep)+
  have a: "a \<noteq> 0" "a \<notin> set zs"
    using assms(1,4) by (auto simp: dlist_def)
  show "dlist st2 a (a # zs)"
    unfolding assms(6) by (rule slab_push_dlist [OF z(1) a(2,1)])
  have hy: "hy \<notin> set us" if "us = xs @ ys \<or> us = ws" for us
  proof
    assume h: "hy \<in> set us"
    have "0 \<notin> set us"
      using that assms(1,3) by (auto simp: dlist_def)
    then have "hy \<noteq> 0"
      using h by auto
    then have "hy \<in> set zs"
      using assms(2) by (cases zs) (auto simp: dlist_def)
    then show False
      using h that assms(4) by auto
  qed
  have "hy \<notin> set (xs @ ys)" "hy \<notin> set ws"
    using hy by blast+
  moreover have "a \<notin> set (xs @ ys)" "a \<notin> set ws"
    using assms(4) by auto
  ultimately have same: "st2 x = st1 x" if "x \<in> set (xs @ ys) \<or> x \<in> set ws" for x
    unfolding assms(6) by (intro slab_push_keeps(5)) (use that in blast)+
  show "dlist st2 (fst (slab_remove a hx st)) (xs @ ys)"
    by (rule dlist_frame [OF r(1)]) (simp add: same del: set_append)
  show "dlist st2 hw ws"
    by (rule dlist_frame [OF z(2)]) (simp add: same del: set_append)
qed

section \<open>Taking and returning a buffer\<close>

lemma slab_struct_other:
  assumes "slab_struct c s v pg" and "a \<in> set (v_slabs v)" and "b \<in> set (v_slabs v)" and "b \<noteq> a"
    and "in_page (b - 4072) x"
  shows "\<not> in_page (a - 4072) x"
  using other_page [OF assms(1,3), of "a - 4072" x] slab_structD(7) [OF assms(1,2)] assms(4,5)
  by (simp add: slab_ok_def)

text \<open>A change of one slab and of the words of its page.\<close>

lemma slab_changed:
  assumes "slab_struct c s v pg" and "a \<in> set (v_slabs v)"
    and "\<And>x. \<not> in_page (a - 4072) x \<Longrightarrow> m x = words s x"
    and "slab_next y = slab_next (slabs s a)" "slab_prev y = slab_prev (slabs s a)"
    and "s' = s\<lparr>words := m, slabs := (slabs s)(a := y), warnings := ws\<rparr>" and "slab_ok c s' a fl"
  shows "slab_struct c s' (v\<lparr>v_free := (v_free v)(a := fl)\<rparr>) pg"
proof (rule slab_structI)
  note d = slab_structD [OF assms(1)]
  let ?v = "v\<lparr>v_free := (v_free v)(a := fl)\<rparr>"
  have sl: "slabs s' = (slabs s)(a := y)" and cc: "caches s' = caches s"
    by (simp_all add: assms(6))
  have dl: "dlist (slabs s') h xs" if "dlist (slabs s) h xs" for h xs
    by (rule dlist_frame [OF that]) (simp add: sl assms(4,5))
  show "dlist (slabs s') (slabs_empty (caches s' c)) (v_empty ?v)"
    "dlist (slabs s') (slabs_partial (caches s' c)) (v_partial ?v)"
    "dlist (slabs s') (slabs_full (caches s' c)) (v_full ?v)"
    using dl [OF d(2)] dl [OF d(3)] dl [OF d(4)] by (simp_all add: cc)
  show "cache_ok (caches s' c)" "distinct (v_slabs ?v)"
    "empty_count (caches s' c) = of_nat (length (v_empty ?v))"
    using d(1,5,6) by (simp_all add: cc v_slabs_def)
  show "b - 4072 \<notin> set pg" if "b \<in> set (v_slabs ?v)" for b
    using that d(8) by (simp add: v_slabs_def)
  show "page_ok q" if "q \<in> set pg" for q
    using d(10) [OF that] .
  show "slab_ok c s' b (v_free ?v b)" if "b \<in> set (v_slabs ?v)" for b
  proof (cases "b = a")
    case False
    have b: "b \<in> set (v_slabs v)"
      using that by (simp add: v_slabs_def)
    have "slab_ok c s' b (v_free v b)"
      by (rule slab_ok_frame [OF d(7) [OF b] d(1)])
        (use False slab_struct_other [OF assms(1,2) b False] assms(3) in \<open>simp_all add: assms(6)\<close>)
    then show ?thesis
      using False by simp
  qed (simp add: assms(7))
  show "free_pages_are s' pg"
    by (rule free_pages_frame [OF d(9,10), of "a - 4072"])
      (use assms(3) d(7,8) [OF assms(2)] in \<open>simp_all add: assms(6) slab_ok_def\<close>)
qed

section \<open>The abstraction\<close>

definition same_params :: "slab_cache_t \<Rightarrow> slab_cache_t \<Rightarrow> bool" where
  "same_params cc cc' \<longleftrightarrow> alloc_size cc' = alloc_size cc \<and> bufctl_offset cc' = bufctl_offset cc \<and>
     obj_size cc' = obj_size cc \<and> max_colour cc' = max_colour cc \<and> cache_flags cc' = cache_flags cc \<and>
     ctor cc' = ctor cc \<and> dtor cc' = dtor cc"

lemma same_params_refl [simp]: "same_params cc cc"
  by (simp add: same_params_def)

lemma same_params_trans: "same_params a b \<Longrightarrow> same_params b d \<Longrightarrow> same_params a d"
  by (simp add: same_params_def)

lemma same_params_eq:
  assumes "same_params cc cc'"
  shows "nbuf cc' = nbuf cc" "buffers cc' p col = buffers cc p col" "bufctls cc' p col i = bufctls cc p col i"
    "in_buffer cc' b x = in_buffer cc b x" "buffer_at cc' p col i = buffer_at cc p col i"
  using assms by (simp_all add: same_params_def nbuf_def buffers_def bufctls_def buffer_at_def [abs_def] in_buffer_def)

lemma allocated_cong:
  assumes "set (v_slabs v') = set (v_slabs v)" and "\<And>a. a \<in> set (v_slabs v) \<Longrightarrow> v_free v' a = v_free v a"
    and "\<And>a. a \<in> set (v_slabs v) \<Longrightarrow> colour (slabs s' a) = colour (slabs s a)"
    and "same_params (caches s c) (caches s' c)"
  shows "allocated c s' v' = allocated c s v"
  using assms(1-3) assms(4) [unfolded same_params_def]
  by (auto simp: allocated_def same_params_eq [OF assms(4)])

text \<open>Buffers of different slabs, and of different positions, are different.\<close>

lemma buffer_cases:
  assumes "b \<in> set (buffers cc p col)"
  obtains k where "k < nbuf cc" "b = buffer_at cc p col k"
  using assms by (auto simp: buffers_def)

lemma buffer_self:
  assumes "cache_ok cc" and "page_ok p" and "unat col \<le> unat (max_colour cc)" and "b \<in> set (buffers cc p col)"
  shows "in_buffer cc b b" "in_buffer cc b (b + bufctl_offset cc)" "in_page p b" "b \<noteq> 0"
    "unat b + unat (alloc_size cc) \<le> unat p + 4072"
proof -
  obtain k where k: "k < nbuf cc" "b = buffer_at cc p col k"
    using buffer_cases [OF assms(4)] by blast
  note u = unat_buffer_at [OF assms(1-3) k(1), folded k(2)]
  show fits: "unat b + unat (alloc_size cc) \<le> unat p + 4072"
    using u buffer_fits [OF assms(1,3) k(1)] by linarith
  show self: "in_buffer cc b b"
    using cache_okD(2) [OF assms(1)] by (simp add: in_buffer_def)
  show "in_buffer cc b (b + bufctl_offset cc)"
    using bufctl_of_buffer(2) [OF assms(1)] fits page_ok_bounds [OF assms(2)] by simp
  show "in_page p b"
    using buffer_in_page(1) [OF assms(1-3) k(1), folded k(2)] self by blast
  then show "b \<noteq> 0"
    using page_ok_bounds [OF assms(2)] by (auto simp: in_page_def)
qed

lemma bufctl_buffer:
  assumes "x \<in> set (bufctls cc p col 0)"
  shows "x - bufctl_offset cc \<in> set (buffers cc p col)"
  using assms by (auto simp: bufctls_def buffers_def)

lemma buffer_owner:
  assumes "slab_struct c s v pg" and "a \<in> set (v_slabs v)" and "a' \<in> set (v_slabs v)"
    and "b \<in> set (buffers (caches s c) (a - 4072) (colour (slabs s a)))"
    and "b \<in> set (buffers (caches s c) (a' - 4072) (colour (slabs s a')))"
  shows "a = a'"
proof -
  note d = slab_structD(1,7) [OF assms(1)]
  have ok: "page_ok (x - 4072)" "unat (colour (slabs s x)) \<le> unat (max_colour (caches s c))"
    if "x \<in> set (v_slabs v)" for x
    using d(2) [OF that] by (simp_all add: slab_ok_def)
  have "in_page (a - 4072) b" "in_page (a' - 4072) b"
    using buffer_self(3) [OF d(1)] ok assms(2-5) by blast+
  then have "a - 4072 = a' - 4072"
    using in_page_unique ok(1) assms(2,3) by blast
  then show ?thesis
    by simp
qed

section \<open>Allocation\<close>

lemma page_not_slab:
  assumes "slab_struct c s v pg" and "p \<in> set pg"
  shows "p + 4072 \<notin> set (v_slabs v)"
  using slab_structD(8) [OF assms(1), of "p + 4072"] assms(2) by auto

lemma page_alloc_struct:
  assumes "slab_struct c s v (p # pg)"
  shows "fst (page_alloc s) = p" "slab_struct c (snd (page_alloc s)) v pg" "page_ok p" "p \<notin> set pg"
    "caches (snd (page_alloc s)) = caches s" "slabs (snd (page_alloc s)) = slabs s"
proof -
  note d = slab_structD [OF assms]
  have f: "link_chain (words s) (head_page s) (p # pg)" "distinct (p # pg)"
    using d(9) by (simp_all add: free_pages_are_def)
  then show "fst (page_alloc s) = p" "p \<notin> set pg"
    by (auto simp: page_alloc_def Let_def)
  show "page_ok p"
    using d(10) by simp
  show cs: "caches (snd (page_alloc s)) = caches s" "slabs (snd (page_alloc s)) = slabs s"
    by (simp_all add: page_alloc_def Let_def)
  have w: "words (snd (page_alloc s)) = words s"
    by (simp add: page_alloc_def Let_def)
  have "free_pages_are (snd (page_alloc s)) pg"
    using page_alloc_pages [OF d(9)] by simp
  then show "slab_struct c (snd (page_alloc s)) v pg"
    using d by (intro slab_structI) (simp_all add: cs slab_ok_def w)
qed

text \<open>The first empty slab becomes the first partial slab.\<close>

definition emptied :: "nat \<Rightarrow> u32 \<Rightarrow> alloc_state \<Rightarrow> alloc_state" where
  "emptied c a s = s\<lparr>slabs := slab_push a (slabs_partial (caches s c)) (slabs s),
     caches := (caches s)(c := (caches s c)\<lparr>slabs_empty := slab_next (slabs s a),
       empty_count := empty_count (caches s c) - 1, slabs_partial := a\<rparr>)\<rparr>"

lemma emptied_struct:
  assumes "slab_struct c s v pg" and "v_empty v = a # es"
  shows "slab_struct c (emptied c a s) (v\<lparr>v_empty := es, v_partial := a # v_partial v\<rparr>) pg"
proof -
  note d = slab_structD [OF assms(1)]
  let ?cc = "caches s c" and ?st = "slab_push a (slabs_partial (caches s c)) (slabs s)"
  have a: "a \<noteq> 0" "a \<notin> set (v_partial v)" "a \<notin> set es" "a \<notin> set (v_full v)"
    using d(2,5) assms(2) by (auto simp: dlist_def v_slabs_def)
  have same: "?st x = slabs s x" if "x \<in> set es \<or> x \<in> set (v_full v)" for x
    using that a head_not_in_other(3,4) [OF assms(1)] assms(2) by (intro slab_push_keeps(5)) auto
  have 1: "dlist ?st (slab_next (slabs s a)) es"
    by (rule dlist_frame [OF dlist_tail]) (use d(2) assms(2) same in auto)
  have 2: "dlist ?st a (a # v_partial v)"
    by (rule slab_push_dlist [OF d(3) a(2,1)])
  have 3: "dlist ?st (slabs_full ?cc) (v_full v)"
    by (rule dlist_frame [OF d(4)]) (simp add: same)
  have "?cc\<lparr>slabs_empty := slab_next (slabs s a), empty_count := empty_count ?cc - 1, slabs_partial := a\<rparr> =
      ?cc\<lparr>slabs_empty := slab_next (slabs s a), slabs_partial := a, slabs_full := slabs_full ?cc,
        empty_count := empty_count ?cc - 1\<rparr>"
    by simp
  then show ?thesis
    unfolding emptied_def
    by (rule relist [OF assms(1) same_slabs_push]) (use 1 2 3 d(5,6) assms(2) in \<open>auto simp: v_slabs_def\<close>)
qed

text \<open>A new slab has no allocated buffers.\<close>

lemma allocated_added:
  assumes "p + 4072 \<notin> set (v_slabs v)"
    and "v' = v\<lparr>v_empty := (p + 4072) # v_empty v,
      v_free := (v_free v)(p + 4072 := bufctls (caches s c) p (next_colour (caches s c)) 0)\<rparr>"
  shows "allocated c (slab_added c p m s) v' = allocated c s v"
proof -
  let ?s = "slab_added c p m s" and ?cc = "caches s c"
  have par: "same_params ?cc (caches ?s c)"
    by (simp add: slab_added_def Let_def same_params_def)
  have col: "colour (slabs ?s (p + 4072)) = next_colour ?cc"
      "a \<noteq> p + 4072 \<Longrightarrow> colour (slabs ?s a) = colour (slabs s a)" for a
    by (simp_all add: slab_added_def Let_def slab_push_keeps)
  have none: "b + bufctl_offset ?cc \<in> set (bufctls ?cc p q 0)" if "b \<in> set (buffers ?cc p q)" for b q
    using that by (auto simp: buffers_def bufctls_def)
  have off: "bufctl_offset (caches ?s c) = bufctl_offset ?cc"
    using par by (simp add: same_params_def)
  have vs: "set (v_slabs v') = insert (p + 4072) (set (v_slabs v))"
    by (simp add: v_slabs_def assms(2))
  have fr: "v_free v' a = (if a = p + 4072 then bufctls ?cc p (next_colour ?cc) 0 else v_free v a)" for a
    by (simp add: assms(2))
  show ?thesis
    unfolding allocated_def vs off same_params_eq(2) [OF par] fr
    using assms(1) none col by auto
qed

definition with_slab :: "nat \<Rightarrow> u32 \<Rightarrow> slab_view \<Rightarrow> bool" where
  "with_slab n a v \<longleftrightarrow> (\<exists>ps. v_partial v = a # ps \<and> v_free v a \<noteq> [] \<and>
     v_counts n (v\<lparr>v_partial := ps\<rparr>))"

lemma select_slab_ok:
  assumes "slab_inv c s v pg"
  shows "\<exists>r s'. select_slab c s = Inr (r, s') \<and>
    (case r of
       None \<Rightarrow> s' = s \<and> pg = [] \<and> v_empty v = [] \<and> v_partial v = []
     | Some a \<Rightarrow> \<exists>v' pg'. slab_struct c s' v' pg' \<and> with_slab (nbuf (caches s c)) a v' \<and>
         allocated c s' v' = allocated c s v \<and> same_params (caches s c) (caches s' c) \<and> set pg' \<subseteq> set pg \<and>
         (\<forall>x. (\<forall>p \<in> set pg. \<not> in_page p x) \<longrightarrow> words s' x = words s x))"
proof (cases "slabs_partial (caches s c) \<noteq> 0")
  case True
  note str = assms [unfolded slab_inv_def, THEN conjunct1] and cnt = assms [unfolded slab_inv_def, THEN conjunct2]
  obtain ps where "v_partial v = slabs_partial (caches s c) # ps"
    using dlist_nonempty [OF slab_structD(3) [OF str] True] by blast
  then have "with_slab (nbuf (caches s c)) (slabs_partial (caches s c)) v"
    using cnt by (auto simp: with_slab_def v_counts_def)
  then show ?thesis
    using True str by (auto simp: select_slab_def intro!: exI [of _ v] exI [of _ pg])
next
  case False
  note str = assms [unfolded slab_inv_def, THEN conjunct1] and cnt = assms [unfolded slab_inv_def, THEN conjunct2]
  have P: "v_partial v = []"
    using slab_structD(3) [OF str] False by simp
  let ?n = "nbuf (caches s c)"
  have finish: "slab_struct c (emptied c a s1) (v1\<lparr>v_empty := es, v_partial := [a]\<rparr>) pg1 \<and>
      with_slab ?n a (v1\<lparr>v_empty := es, v_partial := [a]\<rparr>) \<and>
      allocated c (emptied c a s1) (v1\<lparr>v_empty := es, v_partial := [a]\<rparr>) = allocated c s1 v1 \<and>
      same_params (caches s c) (caches (emptied c a s1) c)"
    if "slab_struct c s1 v1 pg1" "v_counts ?n v1" "v_empty v1 = a # es" "v_partial v1 = []"
      "same_params (caches s c) (caches s1 c)" for s1 v1 pg1 a es
  proof -
    have "slab_struct c (emptied c a s1) (v1\<lparr>v_empty := es, v_partial := [a]\<rparr>) pg1"
      using emptied_struct [OF that(1,3)] that(4) by simp
    moreover have "with_slab ?n a (v1\<lparr>v_empty := es, v_partial := [a]\<rparr>)"
      using that(2,3) nbuf_pos [OF slab_structD(1) [OF str]] by (auto simp: with_slab_def v_counts_def)
    moreover have "allocated c (emptied c a s1) (v1\<lparr>v_empty := es, v_partial := [a]\<rparr>) = allocated c s1 v1"
      by (rule allocated_cong) (use that(3,4) in \<open>auto simp: v_slabs_def emptied_def slab_push_keeps same_params_def\<close>)
    moreover have "same_params (caches s c) (caches (emptied c a s1) c)"
      using that(5) by (simp add: same_params_def emptied_def)
    ultimately show ?thesis
      by blast
  qed
  have step: "(let slab = a in bind_ok (assert_that (slab \<noteq> 0) s1) (\<lambda>s.
      let s = upd_cache c (\<lambda>x. x\<lparr>slabs_empty := slab_next (slabs s slab), empty_count := empty_count x - 1\<rparr>) s;
          s = s\<lparr>slabs := slab_push slab (slabs_partial (caches s c)) (slabs s)\<rparr>;
          s = upd_cache c (\<lambda>x. x\<lparr>slabs_partial := slab\<rparr>) s
      in Inr (Some slab, s))) = Inr (Some a, emptied c a s1)" if "a \<noteq> 0" for a s1
    using that by (simp add: Let_def assert_that_def upd_cache_def emptied_def)
  show ?thesis
  proof (cases "slabs_empty (caches s c) = 0")
    case False
    obtain es where E: "v_empty v = slabs_empty (caches s c) # es"
      using dlist_nonempty [OF slab_structD(2) [OF str] False] by blast
    have "select_slab c s = Inr (Some (slabs_empty (caches s c)), emptied c (slabs_empty (caches s c)) s)"
      using False \<open>\<not> slabs_partial (caches s c) \<noteq> 0\<close> step [OF False] by (simp add: select_slab_def)
    then show ?thesis
      using finish [OF str cnt E P] by (auto simp: emptied_def)
  next
    case True
    have E: "v_empty v = []"
      using slab_structD(2) [OF str] True by simp
    show ?thesis
    proof (cases pg)
      case Nil
      then have "page_alloc s = (0, s)"
        using page_alloc_pages [OF slab_structD(9) [OF str]] by simp
      then show ?thesis
        using True P E Nil \<open>\<not> slabs_partial (caches s c) \<noteq> 0\<close> by (simp add: select_slab_def)
    next
      case (Cons p pg1)
      define s1 where "s1 = snd (page_alloc s)"
      note pa = page_alloc_struct [OF str [unfolded Cons], folded s1_def]
      have alloc: "page_alloc s = (p, s1)" "p \<noteq> 0"
        using pa(1,3) by (simp_all add: s1_def prod_eq_iff page_ok_def)
      obtain m where m: "init_and_add_slab c p s1 = Inr (slab_added c p m s1)"
          "link_chain m (buffer_at (caches s c) p (next_colour (caches s c)) 0 + bufctl_offset (caches s c))
             (bufctls (caches s c) p (next_colour (caches s c)) 0)" "\<And>x. \<not> in_page p x \<Longrightarrow> m x = words s1 x"
        using init_and_add_slab_eq [of s1 c p "caches s c"] slab_structD(1) [OF str] pa(3,5) by metis
      define s2 where "s2 = slab_added c p m s1"
      define v2 where "v2 = v\<lparr>v_empty := [p + 4072],
        v_free := (v_free v)(p + 4072 := bufctls (caches s c) p (next_colour (caches s c)) 0)\<rparr>"
      have new: "p + 4072 \<notin> set (v_slabs v)"
        by (rule page_not_slab [OF str]) (simp add: Cons)
      have str2: "slab_struct c s2 v2 pg1"
        unfolding s2_def
        by (rule slab_added_struct [OF pa(2-4) new m(2,3)]) (simp_all add: pa(5) v2_def E)
      have par: "same_params (caches s c) (caches s2 c)"
        by (simp add: s2_def slab_added_def Let_def same_params_def pa(5))
      have cnt2: "v_counts ?n v2"
        using cnt new P by (auto simp: v_counts_def v2_def v_slabs_def)
      have "allocated c s2 v2 = allocated c s1 v"
        unfolding s2_def by (rule allocated_added [OF new]) (simp add: v2_def E pa(5))
      also have "\<dots> = allocated c s v"
        by (simp add: allocated_def pa(5,6))
      finally have alloc2: "allocated c s2 v2 = allocated c s v" .
      have "v_empty v2 = (p + 4072) # []" "v_partial v2 = []"
        by (simp_all add: v2_def P)
      note fin = finish [OF str2 cnt2 this par]
      have h: "slabs_empty (caches s2 c) = p + 4072" "p + 4072 \<noteq> 0"
        using slab_structD(2) [OF str2] by (auto simp: v2_def dlist_def)
      have "select_slab c s = Inr (Some (p + 4072), emptied c (p + 4072) s2)"
        using True alloc m(1) \<open>\<not> slabs_partial (caches s c) \<noteq> 0\<close> step [OF h(2), of s2] h(1)
        by (simp add: select_slab_def s2_def [symmetric])
      moreover have "words (emptied c (p + 4072) s2) x = words s x" if "\<forall>p \<in> set pg. \<not> in_page p x" for x
      proof -
        have "words s1 = words s"
          by (simp add: s1_def page_alloc_def Let_def)
        then show ?thesis
          using that m(3) Cons by (simp add: emptied_def s2_def slab_added_def Let_def)
      qed
      ultimately show ?thesis
        using fin alloc2 Cons by auto
    qed
  qed
qed

end
