(* ===== verification/SlabAlloc.thy ===== *)
theory SlabAlloc
  imports SlabOps
begin

unbundle bit_operations_syntax

text \<open>
  Allocation and freeing as a whole, and the properties of the slab allocator.
\<close>

section \<open>Taking a buffer\<close>

definition taken_view :: "u32 \<Rightarrow> u32 list \<Rightarrow> slab_view \<Rightarrow> slab_view" where
  "taken_view a xs v = (if xs = []
     then v\<lparr>v_partial := tl (v_partial v), v_full := a # v_full v, v_free := (v_free v)(a := [])\<rparr>
     else v\<lparr>v_free := (v_free v)(a := xs)\<rparr>)"

lemma take_buffer_ok:
  assumes "slab_struct c s v pg" and "v_partial v = a # ps" and "v_free v a = x # xs"
  shows "\<exists>s'. take_buffer c a s = Inr (x, s') \<and> slab_struct c s' (taken_view a xs v) pg \<and>
    words s' = words s \<and> warnings s' = warnings s \<and> same_params (caches s c) (caches s' c) \<and>
    (\<forall>b. colour (slabs s' b) = colour (slabs s b))"
proof -
  note d = slab_structD [OF assms(1)]
  have a: "a \<in> set (v_slabs v)"
    using assms(2) by (simp add: v_slabs_def)
  have ok: "slab_ok c s a (x # xs)"
    using d(7) [OF a] assms(3) by simp
  let ?y = "(slabs s a)\<lparr>free_list := words s x, obj_count := obj_count (slabs s a) + 1\<rparr>"
  define s1 where "s1 = s\<lparr>words := words s, slabs := (slabs s)(a := ?y), warnings := warnings s\<rparr>"
  have x: "free_list (slabs s a) = x" "x \<noteq> 0" "link_chain (words s) (words s x) xs"
    using ok by (simp_all add: slab_ok_def)
  have "unat (obj_count (slabs s a) + 1) = unat (obj_count (slabs s a)) + 1"
  proof -
    have "unat (obj_count (slabs s a)) < nbuf (caches s c)" "nbuf (caches s c) \<le> 4072"
      using ok by (simp_all add: slab_ok_def nbuf_def)
    then show ?thesis
      by (subst unat_add_u32) simp_all
  qed
  then have "slab_ok c s1 a xs"
    using ok by (auto simp: slab_ok_def s1_def)
  from slab_changed [OF assms(1) a _ _ _ s1_def this]
  have str1: "slab_struct c s1 (v\<lparr>v_free := (v_free v)(a := xs)\<rparr>) pg"
    by simp
  have fl: "(words s x = 0) = (xs = [])"
    using x(3) by (cases xs) auto
  show ?thesis
  proof (cases "xs = []")
    case False
    then have "take_buffer c a s = Inr (x, s1)"
      using x fl by (simp add: take_buffer_def upd_slab_def assert_that_def s1_def Let_def)
    then show ?thesis
      using str1 False by (simp add: taken_view_def) (simp add: s1_def)
  next
    case True
    let ?cc = "caches s1 c"
    have h: "slabs_partial ?cc = a"
      using d(3) assms(2) by (simp add: s1_def dlist_def)
    define st1 where "st1 = snd (slab_remove a a (slabs s1))"
    define st2 where "st2 = slab_push a (slabs_full ?cc) st1"
    let ?h = "fst (slab_remove a a (slabs s1))"
    define s2 where "s2 = s1\<lparr>slabs := st2, caches := (caches s1)(c := ?cc\<lparr>slabs_partial := ?h, slabs_full := a\<rparr>)\<rparr>"
    note d1 = slab_structD [OF str1]
    have dl: "dlist st2 ?h ([] @ ps)" "dlist st2 a (a # v_full v)" "dlist st2 (slabs_empty ?cc) (v_empty v)"
      by (rule move_dlists [of "slabs s1" a "[]" a ps "slabs_full ?cc" "v_full v" "slabs_empty ?cc" "v_empty v" st1 st2];
          use d1(2-5) h assms(2) st1_def st2_def in \<open>auto simp: v_slabs_def\<close>)+
    have eq: "?cc\<lparr>slabs_partial := ?h, slabs_full := a\<rparr> = ?cc\<lparr>slabs_empty := slabs_empty ?cc, slabs_partial := ?h,
        slabs_full := a, empty_count := empty_count ?cc\<rparr>"
      by simp
    have same: "same_slabs (slabs s1) st2"
      unfolding st2_def st1_def by (rule same_slabs_move)
    have str2: "slab_struct c s2 (taken_view a xs v) pg"
      unfolding s2_def
      by (rule relist [OF str1 same eq])
        (use dl d1(5,6) assms(2) True in \<open>auto simp: taken_view_def v_slabs_def\<close>)
    have "take_buffer c a s = Inr (x, s2)"
      using x fl True h
      by (simp add: take_buffer_def upd_slab_def assert_that_def Let_def upd_cache_def s2_def st2_def st1_def
          s1_def split: prod.splits)
    moreover have "colour (slabs s2 b) = colour (slabs s b)" for b
      by (simp add: s2_def st2_def st1_def slab_push_keeps slab_remove_keeps s1_def)
    ultimately show ?thesis
      using str2 by (simp add: s2_def same_params_def) (simp add: s1_def)
  qed
qed

section \<open>Writing in an allocated object\<close>

lemma object_written:
  assumes "slab_struct c s v pg" and "a \<in> set (v_slabs v)"
    and "b \<in> set (buffers (caches s c) (a - 4072) (colour (slabs s a)))"
    and "b + bufctl_offset (caches s c) \<notin> set (v_free v a)"
    and "\<And>x. \<not> in_buffer (caches s c) b x \<Longrightarrow> m x = words s x"
  shows "slab_struct c (s\<lparr>words := m, warnings := ws\<rparr>) v pg"
proof -
  let ?cc = "caches s c" and ?p = "a - 4072" and ?col = "colour (slabs s a)"
  note d = slab_structD [OF assms(1)]
  have ok: "slab_ok c s a (v_free v a)"
    by (rule d(7) [OF assms(2)])
  have p: "page_ok ?p" "unat ?col \<le> unat (max_colour ?cc)" "set (v_free v a) \<subseteq> set (bufctls ?cc ?p ?col 0)"
    using ok by (simp_all add: slab_ok_def)
  obtain k where k: "k < nbuf ?cc" "b = buffer_at ?cc ?p ?col k"
    using buffer_cases [OF assms(3)] by blast
  have "m x = words s x" if "x \<in> set (v_free v a)" for x
  proof -
    obtain j where j: "j < nbuf ?cc" "x = buffer_at ?cc ?p ?col j + bufctl_offset ?cc"
      using subsetD [OF p(3) \<open>x \<in> set (v_free v a)\<close>] by (auto simp: bufctls_def)
    have "in_buffer ?cc (buffer_at ?cc ?p ?col j) x"
      unfolding j(2) using j(1) by (intro buffer_self(2) [OF d(1) p(1,2)]) (simp add: buffers_def)
    moreover have "j \<noteq> k"
      using assms(4) that j(2) k(2) by auto
    ultimately have "\<not> in_buffer ?cc b x"
      unfolding k(2) using buffers_disjoint [OF d(1) p(1,2) j(1) k(1)] by blast
    then show ?thesis
      by (rule assms(5))
  qed
  then have chain: "link_chain m q (v_free v a) = link_chain (words s) q (v_free v a)" for q
    by (rule link_chain_cong)
  have eq: "s\<lparr>words := m, warnings := ws\<rparr> = s\<lparr>words := m, slabs := (slabs s)(a := slabs s a), warnings := ws\<rparr>"
    by simp
  have ok': "slab_ok c (s\<lparr>words := m, warnings := ws\<rparr>) a (v_free v a)"
    using ok chain by (simp add: slab_ok_def)
  have frame: "m x = words s x" if "\<not> in_page ?p x" for x
    using assms(5) buffer_in_page(1) [OF d(1) p(1,2) k(1), folded k(2)] that by blast
  show ?thesis
    using slab_changed [OF assms(1,2) frame refl refl eq ok'] by simp
qed

lemma check_poison_frame:
  assumes "\<And>i. i \<in> set is' \<Longrightarrow> b + of_nat (4 * i) \<noteq> x"
  shows "fst (check_poison b is' k (m, ws)) x = m x"
  using assms
proof (induction is' arbitrary: k m ws)
  case (Cons i is')
  then have "b + of_nat (4 * i) \<noteq> x" "\<And>k m ws. fst (check_poison b is' k (m, ws)) x = m x"
    by simp_all
  then show ?case
    by (simp add: Let_def del: of_nat_mult)
qed simp

lemma object_word:
  assumes "cache_ok cc" and "unat b + unat (alloc_size cc) \<le> 4294967296" and "\<not> in_buffer cc b x"
  shows "i < unat (obj_size cc) div 4 \<Longrightarrow> b + of_nat (4 * i) \<noteq> x"
    "has_flag cc SLAB_RED_ZONE \<Longrightarrow> b + of_nat (4 * (unat (obj_size cc) div 4)) \<noteq> x"
    "has_flag cc SLAB_RED_ZONE \<Longrightarrow> b + obj_size cc \<noteq> x"
proof -
  have out: "b + of_nat n \<noteq> x" if "n < unat (alloc_size cc)" for n
    using unat_add_nat_u32 [of b n] that assms(2,3) by (cases "b + of_nat n = x") (auto simp: in_buffer_def)
  note o = cache_okD(11,12,13) [OF assms(1)]
  show "b + of_nat (4 * i) \<noteq> x" if "i < unat (obj_size cc) div 4"
    using that o(1,2) by (intro out) auto
  have "4 * (unat (obj_size cc) div 4) = unat (obj_size cc)"
    using o(1) by simp
  then show "b + of_nat (4 * (unat (obj_size cc) div 4)) \<noteq> x" "b + obj_size cc \<noteq> x"
    if "has_flag cc SLAB_RED_ZONE"
    using that o(3) out [of "unat (obj_size cc)"] by simp_all
qed

lemma object_fn_frame:
  assumes "cache_ok cc" and "ctor cc = Some f \<or> dtor cc = Some f" and "\<not> in_buffer cc b x"
  shows "f b (obj_size cc) m x = m x"
proof -
  have "obj_fn (obj_size cc) f"
    using assms(2) cache_okD(14,15) [OF assms(1)] by blast
  moreover have "\<not> (unat b \<le> unat x \<and> unat x < unat b + unat (obj_size cc))"
    using assms(3) cache_okD(12) [OF assms(1)] by (auto simp: in_buffer_def)
  ultimately show ?thesis
    by (simp add: obj_fn_def)
qed

lemma prepare_object_same:
  "prepare_object cc b s =
     s\<lparr>words := words (prepare_object cc b s), warnings := warnings (prepare_object cc b s)\<rparr>"
  by (simp add: prepare_object_def Let_def split: prod.split)

lemma finish_object_same:
  "finish_object cc b s =
     s\<lparr>words := words (finish_object cc b s), warnings := warnings (finish_object cc b s)\<rparr>"
  by (simp add: finish_object_def Let_def)

lemma prepare_object_frame:
  assumes "cache_ok cc" and "unat b + unat (alloc_size cc) \<le> 4294967296" and "\<not> in_buffer cc b x"
  shows "words (prepare_object cc b s) x = words s x"
proof -
  obtain m1 ws1 where cp: "check_poison b [0..<unat (obj_size cc) div 4] 0 (words s, warnings s) = (m1, ws1)"
    by fastforce
  have m1: "m1 x = words s x"
    using check_poison_frame [of "[0..<unat (obj_size cc) div 4]" b x 0 "words s" "warnings s"]
      object_word(1) [OF assms] by (simp add: cp)
  have fn: "(case ctor cc of None \<Rightarrow> m | Some f \<Rightarrow> f b (obj_size cc) m) x = m x" for m
    using object_fn_frame [OF assms(1) _ assms(3)] by (simp split: option.split)
  show ?thesis
    using object_word(2) [OF assms] m1 fn
    by (cases "has_flag cc SLAB_RED_ZONE") (simp_all add: prepare_object_def cp Let_def fn)
qed

lemma finish_object_frame:
  assumes "cache_ok cc" and "unat b + unat (alloc_size cc) \<le> 4294967296" and "\<not> in_buffer cc b x"
  shows "words (finish_object cc b s) x = words s x"
proof -
  have fill: "fill_words b (obj_size cc) w m x = m x" for w m
    by (rule fill_words_frame) (use assms(2,3) cache_okD(12) [OF assms(1)] in \<open>auto simp: in_buffer_def\<close>)
  have fn: "(case dtor cc of None \<Rightarrow> m | Some f \<Rightarrow> f b (obj_size cc) m) x = m x" for m
    using object_fn_frame [OF assms(1) _ assms(3)] by (simp split: option.split)
  show ?thesis
    using object_word(3) [OF assms] fill fn
    by (cases "has_flag cc SLAB_RED_ZONE") (simp_all add: finish_object_def Let_def fn)
qed

section \<open>Allocating an object\<close>

lemma taken_slabs [simp]: "v_partial v = a # ps \<Longrightarrow> set (v_slabs (taken_view a xs v)) = set (v_slabs v)"
  by (auto simp: taken_view_def v_slabs_def)

lemma taken_free [simp]: "v_free (taken_view a xs v) b = (if b = a then xs else v_free v b)"
  by (auto simp: taken_view_def)

lemma taken_counts:
  assumes "with_slab n a v" and "v_free v a = x # xs" and "length (x # xs) \<le> n" and "distinct (v_slabs v)"
  shows "v_counts n (taken_view a xs v)"
proof -
  obtain ps where ps: "v_partial v = a # ps" and cnt: "v_counts n (v\<lparr>v_partial := ps\<rparr>)"
    using assms(1) by (auto simp: with_slab_def)
  have "a \<notin> set ps" "a \<notin> set (v_empty v)" "a \<notin> set (v_full v)"
    using assms(4) ps by (auto simp: v_slabs_def)
  then have eq: "v_counts n (taken_view a xs v) = (v_counts n (v\<lparr>v_partial := ps\<rparr>) \<and> (xs = [] \<or> length xs < n))"
    using ps by (auto simp: v_counts_def taken_view_def)
  show ?thesis
    unfolding eq using cnt assms(3) by simp
qed

lemma all_buffers_disjoint:
  assumes "slab_struct c s v pg" and "a \<in> set (v_slabs v)" "a' \<in> set (v_slabs v)"
    and b: "b \<in> set (buffers (caches s c) (a - 4072) (colour (slabs s a)))"
    and b': "b' \<in> set (buffers (caches s c) (a' - 4072) (colour (slabs s a')))"
    and x: "in_buffer (caches s c) b x" "in_buffer (caches s c) b' x"
  shows "b = b'"
proof -
  let ?cc = "caches s c"
  note d = slab_structD [OF assms(1)]
  have p: "page_ok (a - 4072)" "unat (colour (slabs s a)) \<le> unat (max_colour ?cc)"
    using d(7) [OF assms(2)] by (simp_all add: slab_ok_def)
  have p': "page_ok (a' - 4072)" "unat (colour (slabs s a')) \<le> unat (max_colour ?cc)"
    using d(7) [OF assms(3)] by (simp_all add: slab_ok_def)
  obtain k where k: "k < nbuf ?cc" "b = buffer_at ?cc (a - 4072) (colour (slabs s a)) k"
    by (rule buffer_cases [OF b])
  obtain k' where k': "k' < nbuf ?cc" "b' = buffer_at ?cc (a' - 4072) (colour (slabs s a')) k'"
    by (rule buffer_cases [OF b'])
  have "a - 4072 = a' - 4072"
    by (rule in_page_unique [OF p(1) p'(1)])
      (rule buffer_in_page(1) [OF d(1) p k(1) x(1) [unfolded k(2)]], rule buffer_in_page(1) [OF d(1) p' k'(1) x(2) [unfolded k'(2)]])
  then have "a = a'"
    by simp
  then show ?thesis
    using buffers_disjoint [OF d(1) p k(1)] k k' x by blast
qed

lemma allocated_taken:
  assumes str: "slab_struct c s v pg" and v: "v_partial v = a # ps" "v_free v a = x # xs"
    and par: "same_params (caches s c) (caches s' c)" and col: "\<And>b. colour (slabs s' b) = colour (slabs s b)"
    and b: "b = x - bufctl_offset (caches s c)"
  shows "allocated c s' (taken_view a xs v) = insert b (allocated c s v)" "b \<notin> allocated c s v"
    "b \<in> set (buffers (caches s c) (a - 4072) (colour (slabs s a)))" "x \<notin> set xs"
proof -
  let ?cc = "caches s c"
  have a: "a \<in> set (v_slabs v)"
    using v(1) by (simp add: v_slabs_def)
  have ok: "slab_ok c s a (x # xs)"
    using slab_structD(7) [OF str a] v(2) by simp
  then show x: "x \<notin> set xs" and bb: "b \<in> set (buffers ?cc (a - 4072) (colour (slabs s a)))"
    by (simp_all add: slab_ok_def b bufctl_buffer)
  show "b \<notin> allocated c s v"
  proof
    assume "b \<in> allocated c s v"
    then obtain a' where a': "a' \<in> set (v_slabs v)" "b \<in> set (buffers ?cc (a' - 4072) (colour (slabs s a')))"
      "b + bufctl_offset ?cc \<notin> set (v_free v a')"
      by (auto simp: allocated_def)
    with buffer_owner [OF str a a'(1) bb a'(2)] v(2) b show False
      by simp
  qed
  have off: "bufctl_offset (caches s' c) = bufctl_offset ?cc"
    using par by (simp add: same_params_def)
  have eq: "y + bufctl_offset ?cc = x \<longleftrightarrow> y = b" for y
    unfolding b by (simp add: eq_diff_eq)
  have "(y \<in> allocated c s' (taken_view a xs v)) = (y = b \<or> y \<in> allocated c s v)" for y
  proof (cases "y = b")
    case True
    then have "\<exists>a' \<in> set (v_slabs v). y \<in> set (buffers ?cc (a' - 4072) (colour (slabs s a'))) \<and>
        y + bufctl_offset ?cc \<notin> set (if a' = a then xs else v_free v a')"
      using x bb by (intro bexI [OF _ a]) (simp add: b)
    then show ?thesis
      using True by (simp add: allocated_def taken_slabs [OF v(1)] same_params_eq [OF par] off col)
  next
    case False
    then have "(y + bufctl_offset ?cc \<in> set (if a' = a then xs else v_free v a')) =
        (y + bufctl_offset ?cc \<in> set (v_free v a'))" for a'
      by (simp add: v(2) eq)
    then show ?thesis
      using False by (simp add: allocated_def taken_slabs [OF v(1)] same_params_eq [OF par] off col)
  qed
  then show "allocated c s' (taken_view a xs v) = insert b (allocated c s v)"
    by blast
qed

lemma allocated_frame:
  assumes "slab_struct c s v pg" and "b \<in> allocated c s v" and "in_buffer (caches s c) b x" and "p \<in> set pg"
  shows "\<not> in_page p x"
proof -
  note d = slab_structD [OF assms(1)]
  obtain a where a: "a \<in> set (v_slabs v)" "b \<in> set (buffers (caches s c) (a - 4072) (colour (slabs s a)))"
    using assms(2) by (auto simp: allocated_def)
  have p: "page_ok (a - 4072)" "unat (colour (slabs s a)) \<le> unat (max_colour (caches s c))"
    using d(7) [OF a(1)] by (simp_all add: slab_ok_def)
  obtain k where k: "k < nbuf (caches s c)" "b = buffer_at (caches s c) (a - 4072) (colour (slabs s a)) k"
    by (rule buffer_cases [OF a(2)])
  have "in_page (a - 4072) x"
    by (rule buffer_in_page(1) [OF d(1) p k(1) assms(3) [unfolded k(2)]])
  moreover have "a - 4072 \<noteq> p"
    using d(8) [OF a(1)] assms(4) by blast
  ultimately show ?thesis
    using in_page_unique [OF p(1) d(10) [OF assms(4)]] by blast
qed

text \<open>
  Allocation hands out the address of a buffer that was not allocated and touches no
  allocated object, or finds every buffer of every slab allocated and no page to make
  another slab of.
\<close>

definition alloc_effect :: "nat \<Rightarrow> alloc_state \<Rightarrow> slab_view \<Rightarrow> u32 list \<Rightarrow> u32 \<Rightarrow> alloc_state \<Rightarrow> slab_view \<Rightarrow> u32 list \<Rightarrow> bool" where
  "alloc_effect c s v pg b s' v' pg' \<longleftrightarrow> slab_inv c s' v' pg' \<and> b \<noteq> 0 \<and> b \<notin> allocated c s v \<and>
     allocated c s' v' = insert b (allocated c s v) \<and> same_params (caches s c) (caches s' c) \<and> set pg' \<subseteq> set pg \<and>
     (\<forall>b' x. b' \<in> allocated c s v \<and> in_buffer (caches s c) b' x \<longrightarrow> words s' x = words s x)"

lemma take_object_ok:
  assumes str: "slab_struct c s v pg" and w: "with_slab (nbuf (caches s c)) a v"
  shows "\<exists>x s' b v'. take_buffer c a s = Inr (x, s') \<and> b = x - bufctl_offset (caches s' c) \<and>
    alloc_effect c s v pg b (prepare_object (caches s' c) b s') v' pg"
proof -
  obtain ps where ps: "v_partial v = a # ps" "v_free v a \<noteq> []"
    using w by (auto simp: with_slab_def)
  then obtain x xs where xs: "v_free v a = x # xs"
    by (cases "v_free v a") auto
  obtain s2 where tk: "take_buffer c a s = Inr (x, s2)" and str2: "slab_struct c s2 (taken_view a xs v) pg"
    and w2: "words s2 = words s" and par: "same_params (caches s c) (caches s2 c)"
    and col: "\<And>b. colour (slabs s2 b) = colour (slabs s b)"
    using take_buffer_ok [OF str ps(1) xs] by blast
  define b where "b = x - bufctl_offset (caches s2 c)"
  have off: "bufctl_offset (caches s2 c) = bufctl_offset (caches s c)"
    using par by (simp add: same_params_def)
  note tkn = allocated_taken [OF str ps(1) xs par col b_def [unfolded off]]
  let ?s = "prepare_object (caches s2 c) b s2" and ?v = "taken_view a xs v"
  have a: "a \<in> set (v_slabs v)"
    using ps(1) by (simp add: v_slabs_def)
  have ok: "slab_ok c s a (x # xs)"
    using slab_structD(7) [OF str a] xs by simp
  note own = buffer_self [OF slab_structD(1) [OF str], of "a - 4072" "colour (slabs s a)" b]
  have own': "b \<noteq> 0" "unat b + unat (alloc_size (caches s2 c)) \<le> 4294967296"
    using own(4,5) tkn(3) ok par by (auto simp: slab_ok_def page_ok_def same_params_def)
  note frame = prepare_object_frame [OF slab_structD(1) [OF str2] own'(2)]
  have eq: "caches ?s = caches s2" "slabs ?s = slabs s2"
    by (subst prepare_object_same, simp)+
  have "slab_struct c ?s ?v pg"
    by (subst prepare_object_same, rule object_written [OF str2, of a b])
      (use a ps(1) tkn(3,4) frame in \<open>auto simp: same_params_eq [OF par] col b_def\<close>)
  moreover have "allocated c ?s ?v = insert b (allocated c s v)"
    using tkn(1) by (simp add: allocated_def eq)
  moreover have "words ?s y = words s y" if bx: "b' \<in> allocated c s v" "in_buffer (caches s c) b' y" for b' y
  proof -
    obtain a' where a': "a' \<in> set (v_slabs v)" "b' \<in> set (buffers (caches s c) (a' - 4072) (colour (slabs s a')))"
      using bx(1) by (auto simp: allocated_def)
    have "\<not> in_buffer (caches s2 c) b y"
      using all_buffers_disjoint [OF str a a'(1) tkn(3) a'(2)] bx tkn(2) by (auto simp: same_params_eq [OF par])
    then show ?thesis
      unfolding w2 [symmetric] by (rule frame)
  qed
  moreover have "v_counts (nbuf (caches s c)) ?v"
    by (rule taken_counts [OF w xs]) (use ok slab_structD(5) [OF str] in \<open>auto simp: slab_ok_def\<close>)
  ultimately have "alloc_effect c s v pg b ?s ?v pg"
    using tkn(2) own'(1) par by (auto simp: alloc_effect_def slab_inv_def eq same_params_eq [OF par])
  then show ?thesis
    using tk b_def by blast
qed

lemma slab_cache_alloc_ok:
  assumes "slab_inv c s v pg"
  shows "\<exists>b s'. slab_cache_alloc c s = Inr (b, s') \<and>
    (if b = 0 then s' = s \<and> pg = [] \<and> v_empty v = [] \<and> v_partial v = []
     else \<exists>v' pg'. alloc_effect c s v pg b s' v' pg')"
proof -
  note str = assms [unfolded slab_inv_def, THEN conjunct1]
  obtain r s1 where sel: "select_slab c s = Inr (r, s1)"
    and r: "case r of None \<Rightarrow> s1 = s \<and> pg = [] \<and> v_empty v = [] \<and> v_partial v = []
     | Some a \<Rightarrow> \<exists>v' pg'. slab_struct c s1 v' pg' \<and> with_slab (nbuf (caches s c)) a v' \<and>
         allocated c s1 v' = allocated c s v \<and> same_params (caches s c) (caches s1 c) \<and> set pg' \<subseteq> set pg \<and>
         (\<forall>x. (\<forall>p \<in> set pg. \<not> in_page p x) \<longrightarrow> words s1 x = words s x)"
    using select_slab_ok [OF assms] by blast
  show ?thesis
  proof (cases r)
    case None
    then show ?thesis
      using sel r by (simp add: slab_cache_alloc_def)
  next
    case (Some a)
    then obtain v1 pg1 where str1: "slab_struct c s1 v1 pg1" and w: "with_slab (nbuf (caches s c)) a v1"
      and al: "allocated c s1 v1 = allocated c s v" and par: "same_params (caches s c) (caches s1 c)"
      and pg1: "set pg1 \<subseteq> set pg" and fr: "\<And>x. (\<forall>p \<in> set pg. \<not> in_page p x) \<Longrightarrow> words s1 x = words s x"
      using r by auto
    obtain x s2 b v2 where tk: "take_buffer c a s1 = Inr (x, s2)" and b: "b = x - bufctl_offset (caches s2 c)"
      and eff: "alloc_effect c s1 v1 pg1 b (prepare_object (caches s2 c) b s2) v2 pg1"
      using take_object_ok [OF str1 w [folded same_params_eq(1) [OF par]]] by blast
    have "words s1 y = words s y" if "b' \<in> allocated c s v" "in_buffer (caches s c) b' y" for b' y
      using fr allocated_frame [OF str that] by blast
    then have "alloc_effect c s v pg b (prepare_object (caches s2 c) b s2) v2 pg1"
      using eff al pg1 same_params_trans [OF par] by (auto simp: alloc_effect_def same_params_eq [OF par])
    moreover have "b \<noteq> 0"
      using eff by (simp add: alloc_effect_def)
    ultimately show ?thesis
      using sel Some tk b by (auto simp: slab_cache_alloc_def Let_def)
  qed
qed

end
