(* ===== verification/SlabFree.thy ===== *)
theory SlabFree
  imports SlabAlloc
begin

unbundle bit_operations_syntax

text \<open>
  Freeing an object, reaping empty slabs and the initialization of a cache keep the
  invariant of the slab allocator.
\<close>

section \<open>Moving a slab between the lists\<close>

definition to_partial :: "nat \<Rightarrow> u32 \<Rightarrow> alloc_state \<Rightarrow> alloc_state" where
  "to_partial c a s =
     (let (h, st) = slab_remove a (slabs_full (caches s c)) (slabs s)
      in s\<lparr>slabs := slab_push a (slabs_partial (caches s c)) st,
           caches := (caches s)(c := (caches s c)\<lparr>slabs_full := h, slabs_partial := a\<rparr>)\<rparr>)"

definition to_empty :: "nat \<Rightarrow> u32 \<Rightarrow> alloc_state \<Rightarrow> alloc_state" where
  "to_empty c a s =
     (let (h, st) = slab_remove a (slabs_partial (caches s c)) (slabs s)
      in s\<lparr>slabs := slab_push a (slabs_empty (caches s c)) st,
           caches := (caches s)(c := (caches s c)\<lparr>slabs_partial := h, slabs_empty := a,
             empty_count := empty_count (caches s c) + 1\<rparr>)\<rparr>)"

lemma to_partial_struct:
  assumes str: "slab_struct c s v pg" and v: "v_full v = xs @ a # ys"
  shows "slab_struct c (to_partial c a s) (v\<lparr>v_full := xs @ ys, v_partial := a # v_partial v\<rparr>) pg"
proof -
  let ?cc = "caches s c"
  note d = slab_structD [OF str]
  obtain h st where rm: "slab_remove a (slabs_full ?cc) (slabs s) = (h, st)"
    by fastforce
  define st2 where "st2 = slab_push a (slabs_partial ?cc) st"
  have "distinct ((xs @ a # ys) @ v_partial v @ v_empty v)"
    using d(5) v by (auto simp: v_slabs_def)
  note dl = move_dlists [OF d(4) [unfolded v] d(3) d(2) this, of st st2, unfolded rm fst_conv snd_conv, OF refl st2_def]
  have eq: "?cc\<lparr>slabs_full := h, slabs_partial := a\<rparr> = ?cc\<lparr>slabs_empty := slabs_empty ?cc, slabs_partial := a,
      slabs_full := h, empty_count := empty_count ?cc\<rparr>"
    by simp
  have same: "same_slabs (slabs s) st2"
    using same_slabs_move [of "slabs s" a "slabs_partial ?cc" "slabs_full ?cc"] by (simp add: st2_def rm)
  have "slab_struct c (s\<lparr>slabs := st2, caches := (caches s)(c := ?cc\<lparr>slabs_full := h, slabs_partial := a\<rparr>)\<rparr>)
      (v\<lparr>v_full := xs @ ys, v_partial := a # v_partial v\<rparr>) pg"
    by (rule relist [OF str same eq]) (use dl d(5,6) v in \<open>auto simp: v_slabs_def\<close>)
  then show ?thesis
    by (simp add: to_partial_def rm st2_def)
qed

lemma to_empty_struct:
  assumes str: "slab_struct c s v pg" and v: "v_partial v = xs @ a # ys"
  shows "slab_struct c (to_empty c a s) (v\<lparr>v_partial := xs @ ys, v_empty := a # v_empty v\<rparr>) pg"
proof -
  let ?cc = "caches s c"
  note d = slab_structD [OF str]
  obtain h st where rm: "slab_remove a (slabs_partial ?cc) (slabs s) = (h, st)"
    by fastforce
  define st2 where "st2 = slab_push a (slabs_empty ?cc) st"
  have "distinct ((xs @ a # ys) @ v_empty v @ v_full v)"
    using d(5) v by (auto simp: v_slabs_def)
  note dl = move_dlists [OF d(3) [unfolded v] d(2) d(4) this, of st st2, unfolded rm fst_conv snd_conv, OF refl st2_def]
  have eq: "?cc\<lparr>slabs_partial := h, slabs_empty := a, empty_count := empty_count ?cc + 1\<rparr> =
      ?cc\<lparr>slabs_empty := a, slabs_partial := h, slabs_full := slabs_full ?cc, empty_count := empty_count ?cc + 1\<rparr>"
    by simp
  have same: "same_slabs (slabs s) st2"
    using same_slabs_move [of "slabs s" a "slabs_empty ?cc" "slabs_partial ?cc"] by (simp add: st2_def rm)
  have "slab_struct c (s\<lparr>slabs := st2, caches := (caches s)(c := ?cc\<lparr>slabs_partial := h, slabs_empty := a,
        empty_count := empty_count ?cc + 1\<rparr>)\<rparr>)
      (v\<lparr>v_partial := xs @ ys, v_empty := a # v_empty v\<rparr>) pg"
    by (rule relist [OF str same eq]) (use dl d(5,6) v in \<open>auto simp: v_slabs_def\<close>)
  then show ?thesis
    by (simp add: to_empty_def rm st2_def)
qed

lemma to_partial_sel [simp]:
  "words (to_partial c a s) = words s" "same_params (caches s c) (caches (to_partial c a s) c)"
  "colour (slabs (to_partial c a s) b) = colour (slabs s b)" "slab_cache (slabs (to_partial c a s) b) = slab_cache (slabs s b)"
  "free_list (slabs (to_partial c a s) b) = free_list (slabs s b)"
  using same_slabs_move [of "slabs s" a "slabs_partial (caches s c)" "slabs_full (caches s c)"]
  by (simp_all add: to_partial_def same_params_def same_slabs_def case_prod_unfold Let_def)

lemma to_empty_sel [simp]:
  "words (to_empty c a s) = words s" "same_params (caches s c) (caches (to_empty c a s) c)"
  "colour (slabs (to_empty c a s) b) = colour (slabs s b)"
  using same_slabs_move [of "slabs s" a "slabs_empty (caches s c)" "slabs_partial (caches s c)"]
  by (simp_all add: to_empty_def same_params_def same_slabs_def case_prod_unfold Let_def)

section \<open>Returning a buffer\<close>

definition put_buffer :: "nat \<Rightarrow> u32 \<Rightarrow> u32 \<Rightarrow> alloc_state \<Rightarrow> alloc_state" where
  "put_buffer c a b s =
     (let s = finish_object (caches s c) b s; x = b + bufctl_offset (caches s c);
          s = s\<lparr>words := (words s)(x := free_list (slabs s a))\<rparr>
      in upd_slab a (\<lambda>y. y\<lparr>free_list := x, obj_count := obj_count y - 1\<rparr>) s)"

lemma finish_object_sel [simp]: "caches (finish_object cc b s) = caches s" "slabs (finish_object cc b s) = slabs s"
  by (subst finish_object_same, simp)+

lemma put_buffer_sel [simp]:
  "caches (put_buffer c a b s) = caches s" "colour (slabs (put_buffer c a b s) a') = colour (slabs s a')"
  by (simp_all add: put_buffer_def upd_slab_def Let_def)

lemma put_buffer_struct:
  assumes str: "slab_struct c s v pg" and a: "a \<in> set (v_slabs v)"
    and b: "b \<in> set (buffers (caches s c) (a - 4072) (colour (slabs s a)))"
    and x: "x = b + bufctl_offset (caches s c)" "x \<notin> set (v_free v a)"
  shows "slab_struct c (put_buffer c a b s) (v\<lparr>v_free := (v_free v)(a := x # v_free v a)\<rparr>) pg"
    and "\<And>y. \<not> in_buffer (caches s c) b y \<Longrightarrow> words (put_buffer c a b s) y = words s y"
proof -
  let ?cc = "caches s c" and ?p = "a - 4072" and ?col = "colour (slabs s a)"
  note d = slab_structD [OF str]
  have ok: "slab_ok c s a (v_free v a)"
    by (rule d(7) [OF a])
  have p: "page_ok ?p" "unat ?col \<le> unat (max_colour ?cc)"
    using ok by (simp_all add: slab_ok_def)
  note own = buffer_self [OF d(1) p b]
  have fits: "unat b + unat (alloc_size ?cc) \<le> 4294967296"
    using own(5) p(1) by (simp add: page_ok_def)
  let ?s1 = "finish_object ?cc b s"
  have fr: "words ?s1 y = words s y" if "\<not> in_buffer ?cc b y" for y
    by (rule finish_object_frame [OF d(1) fits that])
  have eq: "?s1 = s\<lparr>words := words ?s1, warnings := warnings ?s1\<rparr>"
    by (rule finish_object_same)
  have str1: "slab_struct c ?s1 v pg"
    by (subst eq, rule object_written [OF str a b]) (use x fr in auto)
  let ?y = "(slabs s a)\<lparr>free_list := x, obj_count := obj_count (slabs s a) - 1\<rparr>"
  let ?m = "(words ?s1)(x := free_list (slabs s a))"
  have s2: "put_buffer c a b s = ?s1\<lparr>words := ?m, slabs := (slabs ?s1)(a := ?y), warnings := warnings ?s1\<rparr>"
    by (simp add: put_buffer_def upd_slab_def Let_def x(1))
  have ok1: "slab_ok c ?s1 a (v_free v a)"
    by (rule slab_structD(7) [OF str1 a])
  have "x \<in> set (bufctls ?cc ?p ?col 0)"
    using b by (auto simp: buffers_def bufctls_def x(1))
  then have fl: "distinct (x # v_free v a)" "set (x # v_free v a) \<subseteq> set (bufctls ?cc ?p ?col 0)"
    using ok x(2) by (simp_all add: slab_ok_def)
  have "length (x # v_free v a) \<le> nbuf ?cc"
    using card_mono [OF finite_set fl(2)] distinct_card [OF fl(1)] card_length [of "bufctls ?cc ?p ?col 0"]
    by (simp add: length_bufctls)
  then have cnt: "unat (obj_count (slabs s a) - 1) + length (x # v_free v a) = nbuf ?cc"
    using ok unat_sub_u32 [of 1 "obj_count (slabs s a)"] by (simp add: slab_ok_def)
  have "link_chain ?m (free_list (slabs s a)) (v_free v a)"
    using ok1 x(2) by (subst link_chain_cong [of _ _ "words ?s1"]) (auto simp: slab_ok_def)
  moreover have "x \<noteq> 0"
    using bufctl_in_page [OF d(1) p \<open>x \<in> set (bufctls ?cc ?p ?col 0)\<close>] p(1)
    by (auto simp: page_ok_def in_page_def unat_eq_zero)
  ultimately have "slab_ok c (put_buffer c a b s) a (x # v_free v a)"
    using ok fl cnt by (simp add: slab_ok_def s2)
  moreover have "?m y = words ?s1 y" if "\<not> in_page ?p y" for y
    using bufctl_in_page [OF d(1) p \<open>x \<in> set (bufctls ?cc ?p ?col 0)\<close>] that by auto
  ultimately show "slab_struct c (put_buffer c a b s) (v\<lparr>v_free := (v_free v)(a := x # v_free v a)\<rparr>) pg"
    using slab_changed [OF str1 a _ _ _ s2] by simp
  show "words (put_buffer c a b s) y = words s y" if "\<not> in_buffer ?cc b y" for y
    using own(2) fr [OF that] that by (auto simp: s2 x(1))
qed

section \<open>Freeing an object\<close>

lemma slab_of_buffer:
  assumes "page_ok (a - 4072)" and "in_page (a - 4072) b"
  shows "ALIGN_START b SLAB_SIZE + SLAB_SIZE - SIZEOF_SLAB = a"
proof -
  let ?p = "a - 4072"
  obtain k where k: "unat ?p = 4096 * k"
    using assms(1) by (auto simp: page_ok_def)
  obtain j where j: "unat b = unat ?p + j"
    using assms(2) le_Suc_ex by (auto simp: in_page_def)
  have "unat b mod 4096 = unat b - unat ?p"
    using assms(2) k j by (simp add: in_page_def)
  moreover have "unat (ALIGN_START b 4096) = unat b - unat b mod 4096"
    using unat_align_start [of 4096 12 b] by (simp add: mask_eq_exp_minus_1)
  ultimately have "ALIGN_START b 4096 = ?p"
    using assms(2) by (simp add: in_page_def word_unat_eq_iff)
  then show ?thesis
    by (simp add: SLAB_SIZE_def PAGE_SIZE_def SIZEOF_SLAB_def)
qed

lemma to_partial_steps:
  "(let (h, st) = slab_remove a (slabs_full (caches s c)) (slabs s);
        s = upd_cache c (\<lambda>x. x\<lparr>slabs_full := h\<rparr>) (s\<lparr>slabs := st\<rparr>);
        s = s\<lparr>slabs := slab_push a (slabs_partial (caches s c)) (slabs s)\<rparr>
    in upd_cache c (\<lambda>x. x\<lparr>slabs_partial := a\<rparr>) s) = to_partial c a s"
  by (simp add: to_partial_def case_prod_unfold Let_def upd_cache_def)

lemma to_empty_steps:
  "(let (h, st) = slab_remove a (slabs_partial (caches s c)) (slabs s);
        s = upd_cache c (\<lambda>x. x\<lparr>slabs_partial := h\<rparr>) (s\<lparr>slabs := st\<rparr>);
        s = s\<lparr>slabs := slab_push a (slabs_empty (caches s c)) (slabs s)\<rparr>
    in upd_cache c (\<lambda>x. x\<lparr>slabs_empty := a, empty_count := empty_count x + 1\<rparr>) s) = to_empty c a s"
  by (simp add: to_empty_def case_prod_unfold Let_def upd_cache_def)

lemma slab_cache_free_eq:
  assumes "ALIGN_START b SLAB_SIZE + SLAB_SIZE - SIZEOF_SLAB = a" and "slab_cache (slabs s a) = c"
    and "s1 = (if free_list (slabs s a) = 0 then to_partial c a s else s)" and "s2 = put_buffer c a b s1"
  shows "slab_cache_free b s = (if obj_count (slabs s2 a) = 0 then to_empty c a s2 else s2)"
proof -
  have "bufctl_offset (caches s1 c) = bufctl_offset (caches s c)"
    by (simp add: assms(3) to_partial_def case_prod_unfold Let_def)
  then have s2: "upd_slab a (\<lambda>x. x\<lparr>free_list := b + bufctl_offset (caches s c), obj_count := obj_count x - 1\<rparr>)
      (finish_object (caches s1 c) b s1\<lparr>words := (words (finish_object (caches s1 c) b s1))
        (b + bufctl_offset (caches s c) := free_list (slabs (finish_object (caches s1 c) b s1) a))\<rparr>) = s2"
    by (simp add: assms(4) put_buffer_def Let_def)
  show ?thesis
    unfolding slab_cache_free_def assms(1,2) Let_def to_partial_steps [unfolded Let_def] assms(3) [symmetric]
      s2 to_empty_steps [unfolded Let_def] ..
qed

lemma free_partial:
  assumes inv: "slab_inv c s v pg" and a: "a \<in> set (v_slabs v)" and len: "length (v_free v a) < nbuf (caches s c)"
    and s1: "s1 = (if free_list (slabs s a) = 0 then to_partial c a s else s)"
  shows "\<exists>v1 xs ys. slab_struct c s1 v1 pg \<and> v_partial v1 = xs @ a # ys \<and>
    v_counts (nbuf (caches s c)) (v1\<lparr>v_partial := xs @ ys\<rparr>) \<and> v_free v1 = v_free v \<and> set (v_slabs v1) = set (v_slabs v)"
proof -
  note str = inv [unfolded slab_inv_def, THEN conjunct1] and cnt = inv [unfolded slab_inv_def, THEN conjunct2]
  have fl: "free_list (slabs s a) = 0 \<longleftrightarrow> v_free v a = []"
    using slab_structD(7) [OF str a] by (cases "v_free v a") (auto simp: slab_ok_def)
  have e: "a \<notin> set (v_empty v)"
    using cnt len by (auto simp: v_counts_def)
  show ?thesis
  proof (cases "v_free v a = []")
    case True
    then have "a \<in> set (v_full v)"
      using a e cnt by (auto simp: v_slabs_def v_counts_def)
    then obtain xs ys where v: "v_full v = xs @ a # ys"
      by (meson split_list)
    let ?v = "v\<lparr>v_full := xs @ ys, v_partial := a # v_partial v\<rparr>"
    have "slab_struct c s1 ?v pg"
      using to_partial_struct [OF str v] s1 fl True by simp
    moreover have "v_partial ?v = [] @ a # v_partial v" "set (v_slabs ?v) = set (v_slabs v)"
      "v_counts (nbuf (caches s c)) (?v\<lparr>v_partial := [] @ v_partial v\<rparr>)" "v_free ?v = v_free v"
      using cnt v by (auto simp: v_counts_def v_slabs_def)
    ultimately show ?thesis
      by blast
  next
    case False
    then have "a \<in> set (v_partial v)"
      using a e cnt by (auto simp: v_slabs_def v_counts_def)
    then obtain xs ys where v: "v_partial v = xs @ a # ys"
      by (meson split_list)
    have "v_counts (nbuf (caches s c)) (v\<lparr>v_partial := xs @ ys\<rparr>)"
      using cnt v by (auto simp: v_counts_def)
    then show ?thesis
      using str s1 fl False v by auto
  qed
qed

lemma allocated_put:
  assumes str: "slab_struct c s v pg" and a: "a \<in> set (v_slabs v)"
    and b: "b \<in> set (buffers (caches s c) (a - 4072) (colour (slabs s a)))" and x: "x = b + bufctl_offset (caches s c)"
    and v': "set (v_slabs v') = set (v_slabs v)" "v_free v' = (v_free v)(a := x # v_free v a)"
    and par: "same_params (caches s c) (caches s' c)" and col: "\<And>b. colour (slabs s' b) = colour (slabs s b)"
  shows "allocated c s' v' = allocated c s v - {b}"
proof -
  let ?cc = "caches s c"
  have off: "bufctl_offset (caches s' c) = bufctl_offset ?cc"
    using par by (simp add: same_params_def)
  have al: "allocated c s' v' = {y. \<exists>a' \<in> set (v_slabs v). y \<in> set (buffers ?cc (a' - 4072) (colour (slabs s a'))) \<and>
      y + bufctl_offset ?cc \<notin> set (if a' = a then x # v_free v a else v_free v a')}"
    by (simp add: allocated_def v' same_params_eq [OF par] off col)
  have "b \<notin> allocated c s' v'"
    unfolding al using buffer_owner [OF str a _ b] x by auto
  moreover have "(y \<in> allocated c s' v') = (y \<in> allocated c s v)" if "y \<noteq> b" for y
  proof -
    have "(y + bufctl_offset ?cc \<in> set (if a' = a then x # v_free v a else v_free v a')) =
        (y + bufctl_offset ?cc \<in> set (v_free v a'))" for a'
      using that by (simp add: x)
    then show ?thesis
      unfolding al by (simp add: allocated_def)
  qed
  ultimately have "(y \<in> allocated c s' v') = (y \<in> allocated c s v \<and> y \<noteq> b)" for y
    by (cases "y = b") simp_all
  then show ?thesis
    by blast
qed

lemma allocated_disjoint:
  assumes "slab_struct c s v pg" and "b \<in> allocated c s v" "b' \<in> allocated c s v"
    and "in_buffer (caches s c) b x" "in_buffer (caches s c) b' x"
  shows "b = b'"
  using assms(2,3) all_buffers_disjoint [OF assms(1) _ _ _ _ assms(4,5)] by (auto simp: allocated_def)

definition free_effect :: "nat \<Rightarrow> alloc_state \<Rightarrow> slab_view \<Rightarrow> u32 list \<Rightarrow> u32 \<Rightarrow> alloc_state \<Rightarrow> slab_view \<Rightarrow> bool" where
  "free_effect c s v pg b s' v' \<longleftrightarrow> slab_inv c s' v' pg \<and> allocated c s' v' = allocated c s v - {b} \<and>
     same_params (caches s c) (caches s' c) \<and>
     (\<forall>b' x. b' \<in> allocated c s v \<and> b' \<noteq> b \<and> in_buffer (caches s c) b' x \<longrightarrow> words s' x = words s x)"

lemma put_counts:
  assumes "v_counts n (v\<lparr>v_partial := xs @ ys\<rparr>)" and "v_partial v = xs @ a # ys" and "distinct (v_slabs v)"
    and "0 < length fl" and "length fl \<le> n"
  shows "v_counts n (if length fl = n then v\<lparr>v_free := (v_free v)(a := fl), v_partial := xs @ ys, v_empty := a # v_empty v\<rparr>
     else v\<lparr>v_free := (v_free v)(a := fl)\<rparr>)"
proof -
  have "a \<notin> set (xs @ ys)" "a \<notin> set (v_empty v)" "a \<notin> set (v_full v)"
    using assms(2,3) by (auto simp: v_slabs_def)
  then show ?thesis
    using assms(1,2,4,5) by (auto simp: v_counts_def)
qed

lemma free_shorter:
  assumes "slab_ok c s a fl" and "b \<in> set (buffers (caches s c) (a - 4072) (colour (slabs s a)))"
    and "b + bufctl_offset (caches s c) \<notin> set fl"
  shows "length fl < nbuf (caches s c)"
proof -
  let ?xs = "bufctls (caches s c) (a - 4072) (colour (slabs s a)) 0"
  have "b + bufctl_offset (caches s c) \<in> set ?xs"
    using assms(2) by (auto simp: buffers_def bufctls_def)
  then have "set fl \<subset> set ?xs" "distinct fl"
    using assms(1,3) by (auto simp: slab_ok_def)
  then show ?thesis
    using psubset_card_mono [OF finite_set, of "set fl" ?xs] distinct_card [of fl] card_length [of ?xs]
    by (simp add: length_bufctls)
qed

lemma slab_cache_free_ok:
  assumes inv: "slab_inv c s v pg" and b: "b \<in> allocated c s v"
  shows "\<exists>v'. free_effect c s v pg b (slab_cache_free b s) v'"
proof -
  let ?cc = "caches s c" and ?n = "nbuf (caches s c)"
  note str = inv [unfolded slab_inv_def, THEN conjunct1]
  obtain a where a: "a \<in> set (v_slabs v)" and bb: "b \<in> set (buffers ?cc (a - 4072) (colour (slabs s a)))"
    and nf: "b + bufctl_offset ?cc \<notin> set (v_free v a)"
    using b by (auto simp: allocated_def)
  have ok: "slab_ok c s a (v_free v a)"
    by (rule slab_structD(7) [OF str a])
  have own: "in_page (a - 4072) b"
    by (rule buffer_self(3) [OF slab_structD(1) [OF str] _ _ bb]) (use ok in \<open>simp_all add: slab_ok_def\<close>)
  define x where "x = b + bufctl_offset ?cc"
  define s1 where "s1 = (if free_list (slabs s a) = 0 then to_partial c a s else s)"
  define s2 where "s2 = put_buffer c a b s1"
  have free: "slab_cache_free b s = (if obj_count (slabs s2 a) = 0 then to_empty c a s2 else s2)"
    by (rule slab_cache_free_eq [OF slab_of_buffer [OF _ own] _ s1_def s2_def]) (use ok in \<open>simp_all add: slab_ok_def\<close>)
  have par: "same_params ?cc (caches s1 c)" and col: "\<And>b. colour (slabs s1 b) = colour (slabs s b)" and w: "words s1 = words s"
    by (simp_all add: s1_def)
  have off: "bufctl_offset (caches s1 c) = bufctl_offset ?cc"
    using par by (simp add: same_params_def)
  obtain v1 xs ys where str1: "slab_struct c s1 v1 pg" and v1: "v_partial v1 = xs @ a # ys" "v_free v1 = v_free v"
    "set (v_slabs v1) = set (v_slabs v)" and cnt1: "v_counts ?n (v1\<lparr>v_partial := xs @ ys\<rparr>)"
    using free_partial [OF inv a _ s1_def] free_shorter [OF ok bb nf] by blast
  let ?v2 = "v1\<lparr>v_free := (v_free v1)(a := x # v_free v1 a)\<rparr>"
  let ?v3 = "?v2\<lparr>v_partial := xs @ ys, v_empty := a # v_empty v1\<rparr>"
  have a1: "a \<in> set (v_slabs v1)" "b \<in> set (buffers (caches s1 c) (a - 4072) (colour (slabs s1 a)))"
    "x = b + bufctl_offset (caches s1 c)" "x \<notin> set (v_free v1 a)"
    using a bb nf v1(2,3) by (simp_all add: same_params_eq [OF par] off col x_def)
  note put = put_buffer_struct [OF str1 a1, folded s2_def]
  have frame: "words s2 y = words s y" if "b' \<in> allocated c s v" "b' \<noteq> b" "in_buffer ?cc b' y" for b' y
    using put(2) [of y] allocated_disjoint [OF str that(1) b that(3)] that(2) by (auto simp: same_params_eq [OF par] w)
  have al: "allocated c s' v' = allocated c s v - {b}"
    if "set (v_slabs v') = set (v_slabs v)" "v_free v' = v_free ?v2" "same_params ?cc (caches s' c)"
      "\<And>b. colour (slabs s' b) = colour (slabs s b)" for s' v'
    by (rule allocated_put [OF str a bb x_def that(1) _ that(3,4)]) (simp add: that(2) v1(2))
  have ok2: "slab_ok c s2 a (x # v_free v1 a)"
    using slab_structD(7) [OF put(1), of a] a1(1) by (simp add: v_slabs_def)
  then have zero: "obj_count (slabs s2 a) = 0 \<longleftrightarrow> length (x # v_free v1 a) = ?n"
    and le: "length (x # v_free v1 a) \<le> ?n"
    by (auto simp: slab_ok_def s2_def same_params_eq [OF par] unat_eq_zero [symmetric])
  note cnt2 = put_counts [OF cnt1 v1(1) slab_structD(5) [OF str1] _ le]
  have par2: "same_params ?cc (caches s2 c)" and col2: "\<And>b. colour (slabs s2 b) = colour (slabs s b)"
    using par col by (simp_all add: s2_def)
  have fin: "free_effect c s v pg b s3 v3" if "slab_struct c s3 v3 pg" "v_counts ?n v3" "set (v_slabs v3) = set (v_slabs v)"
      "v_free v3 = v_free ?v2" "same_params (caches s2 c) (caches s3 c)"
      "\<And>b. colour (slabs s3 b) = colour (slabs s2 b)" "words s3 = words s2" for s3 v3
  proof -
    have par3: "same_params ?cc (caches s3 c)"
      by (rule same_params_trans [OF par2 that(5)])
    show ?thesis
      using that(1-4) al [OF that(3,4) par3] col2 frame par3 that(6,7)
      by (auto simp: free_effect_def slab_inv_def same_params_eq [OF par3])
  qed
  have sl: "set (v_slabs ?v2) = set (v_slabs v)" "set (v_slabs ?v3) = set (v_slabs v)"
    using v1(1,3) by (auto simp: v_slabs_def)
  show ?thesis
  proof (cases "obj_count (slabs s2 a) = 0")
    case True
    have "free_effect c s v pg b (to_empty c a s2) ?v3"
      by (rule fin) (use to_empty_struct [OF put(1), of xs a ys] cnt2 True zero v1(1) sl in simp_all)
    then show ?thesis
      using True free by auto
  next
    case False
    have "free_effect c s v pg b s2 ?v2"
      by (rule fin) (use put(1) cnt2 False zero sl in simp_all)
    then show ?thesis
      using False free by auto
  qed
qed

end
