(* ===== verification/SlabReap.thy ===== *)
theory SlabReap
  imports SlabFree
begin

unbundle bit_operations_syntax

text \<open>
  Reaping empty slabs and the initialization of a cache.
\<close>

section \<open>Returning the page of an empty slab\<close>

definition dropped :: "nat \<Rightarrow> u32 \<Rightarrow> alloc_state \<Rightarrow> alloc_state" where
  "dropped c a s = page_free (a - 4072)
     (upd_cache c (\<lambda>x. x\<lparr>slabs_empty := slab_next (slabs s a), empty_count := empty_count x - 1\<rparr>) s)"

lemma dropped_sel [simp]:
  "slabs (dropped c a s) = slabs s" "words (dropped c a s) = (words s)(a - 4072 := head_page s)"
  "caches (dropped c a s) = (caches s)(c := (caches s c)\<lparr>slabs_empty := slab_next (slabs s a),
     empty_count := empty_count (caches s c) - 1\<rparr>)"
  "same_params (caches s c) (caches (dropped c a s) c)"
  "head_page (dropped c a s) = a - 4072" "page_count (dropped c a s) = page_count s + 1"
  by (simp_all add: dropped_def page_free_def upd_cache_def same_params_def)

lemma params_upd [simp]:
  "nbuf (cc\<lparr>slabs_empty := h, empty_count := k\<rparr>) = nbuf cc"
  "in_buffer (cc\<lparr>slabs_empty := h, empty_count := k\<rparr>) b x = in_buffer cc b x"
  "has_flag (cc\<lparr>slabs_empty := h, empty_count := k\<rparr>) f = has_flag cc f"
  by (simp_all add: nbuf_def in_buffer_def has_flag_def)

lemma dropped_struct:
  assumes str: "slab_struct c s v pg" and v: "v_empty v = a # es"
  shows "slab_struct c (dropped c a s) (v\<lparr>v_empty := es\<rparr>) ((a - 4072) # pg)"
proof (rule slab_structI)
  note d = slab_structD [OF str]
  have a: "a \<in> set (v_slabs v)"
    using v by (simp add: v_slabs_def)
  have p: "page_ok (a - 4072)"
    using d(7) [OF a] by (simp add: slab_ok_def)
  show "cache_ok (caches (dropped c a s) c)"
    using d(1) by (simp add: cache_ok_def has_flag_def)
  show "dlist (slabs (dropped c a s)) (slabs_empty (caches (dropped c a s) c)) (v_empty (v\<lparr>v_empty := es\<rparr>))"
    "dlist (slabs (dropped c a s)) (slabs_partial (caches (dropped c a s) c)) (v_partial (v\<lparr>v_empty := es\<rparr>))"
    "dlist (slabs (dropped c a s)) (slabs_full (caches (dropped c a s) c)) (v_full (v\<lparr>v_empty := es\<rparr>))"
    using d(2-4) v dlist_tail by simp_all
  show "distinct (v_slabs (v\<lparr>v_empty := es\<rparr>))"
    using d(5) v by (simp add: v_slabs_def)
  show "empty_count (caches (dropped c a s) c) = of_nat (length (v_empty (v\<lparr>v_empty := es\<rparr>)))"
    using d(6) v by simp
  have sub: "b \<in> set (v_slabs v) \<and> b \<noteq> a" if "b \<in> set (v_slabs (v\<lparr>v_empty := es\<rparr>))" for b
    using that d(5) v by (auto simp: v_slabs_def)
  show "slab_ok c (dropped c a s) b (v_free (v\<lparr>v_empty := es\<rparr>) b)" if "b \<in> set (v_slabs (v\<lparr>v_empty := es\<rparr>))" for b
  proof -
    have b: "b \<in> set (v_slabs v)" "b \<noteq> a"
      using sub [OF that] by simp_all
    have w: "words (dropped c a s) x = words s x" if "in_page (b - 4072) x" for x
      using slab_struct_other [OF str a b that] by (auto simp: in_page_def)
    have "slab_ok c (dropped c a s) b (v_free v b)"
      by (rule slab_ok_frame [OF d(7) [OF b(1)] d(1) w]) simp_all
    then show ?thesis
      by simp
  qed
  show "b - 4072 \<notin> set ((a - 4072) # pg)" if "b \<in> set (v_slabs (v\<lparr>v_empty := es\<rparr>))" for b
    using sub [OF that] d(8) by simp
  have "free_pages_are (dropped c a s) ((a - 4072) # pg)"
    unfolding dropped_def
    by (rule page_free_pages) (use d(8) [OF a] d(9) p in \<open>simp_all add: free_pages_are_def upd_cache_def page_ok_def\<close>)
  then show "free_pages_are (dropped c a s) ((a - 4072) # pg)" .
  show "page_ok q" if "q \<in> set ((a - 4072) # pg)" for q
    using that d(10) p by auto
qed

section \<open>Reaping\<close>

lemma slab_start:
  assumes "page_ok (a - 4072)"
  shows "ALIGN_START a SLAB_SIZE = a - 4072"
proof -
  have "unat a = unat (a - 4072) + 4072"
    using unat_add_u32 [of "a - 4072" 4072] page_ok_bounds [OF assms] by simp
  then have "in_page (a - 4072) a"
    by (simp add: in_page_def)
  from slab_of_buffer [OF assms this] show ?thesis
    by (simp add: SLAB_SIZE_def PAGE_SIZE_def SIZEOF_SLAB_def eq_diff_eq add.commute)
qed

lemma allocated_dropped:
  assumes inv: "slab_inv c s v pg" and v: "v_empty v = a # es"
  shows "allocated c (dropped c a s) (v\<lparr>v_empty := es\<rparr>) = allocated c s v"
proof -
  let ?cc = "caches s c" and ?cc' = "caches (dropped c a s) c"
  note str = inv [unfolded slab_inv_def, THEN conjunct1] and cnt = inv [unfolded slab_inv_def, THEN conjunct2]
  have ok: "slab_ok c s a (v_free v a)"
    using slab_structD(7) [OF str, of a] v by (simp add: v_slabs_def)
  have "length (v_free v a) = nbuf ?cc"
    using cnt v by (simp add: v_counts_def)
  then have "b + bufctl_offset ?cc \<in> set (v_free v a)" if "b \<in> set (buffers ?cc (a - 4072) (colour (slabs s a)))" for b
    using free_shorter [OF ok that] by auto
  moreover have "set (v_slabs v) = insert a (set (v_slabs (v\<lparr>v_empty := es\<rparr>)))"
    using v by (auto simp: v_slabs_def)
  moreover have "bufctl_offset ?cc' = bufctl_offset ?cc"
    by simp
  ultimately show ?thesis
    unfolding allocated_def same_params_eq [OF dropped_sel(4)] by auto
qed

lemma destroy_slab_eq:
  assumes "obj_count (slabs s a) = 0" and "page_ok (a - 4072)"
    and "dtor (caches s c) = None \<or> has_flag (caches s c) SLAB_POISON"
  shows "destroy_slab c a s = Inr (page_free (a - 4072) s)"
  using assms by (cases "dtor (caches s c)") (simp_all add: destroy_slab_def assert_that_def slab_start Let_def)

lemma reap_loop_ok:
  assumes "slab_inv c s v pg" and "dtor (caches s c) = None \<or> has_flag (caches s c) SLAB_POISON"
    and "n = unat (empty_count (caches s c))"
  shows "\<exists>s' v' pg'. reap_loop n c s = Inr s' \<and> slab_inv c s' v' (pg' @ pg) \<and> allocated c s' v' = allocated c s v \<and>
    same_params (caches s c) (caches s' c) \<and>
    empty_count (caches s' c) = min (empty_count (caches s c)) (working_set (caches s c)) \<and>
    (\<forall>b x. b \<in> allocated c s v \<and> in_buffer (caches s c) b x \<longrightarrow> words s' x = words s x)"
  using assms
proof (induction n arbitrary: s v pg)
  case 0
  then have "empty_count (caches s c) = 0"
    by (simp add: unat_eq_zero)
  then show ?case
    using 0 by (auto intro!: exI [of _ v] exI [of _ "[]"])
next
  case (Suc n)
  let ?cc = "caches s c" and ?a = "slabs_empty (caches s c)"
  show ?case
  proof (cases "working_set ?cc < empty_count ?cc")
    case False
    then show ?thesis
      using Suc.prems(1) by (auto simp: min_def not_less intro!: exI [of _ v] exI [of _ "[]"])
  next
    case True
    note str = Suc.prems(1) [unfolded slab_inv_def, THEN conjunct1] and cnt = Suc.prems(1) [unfolded slab_inv_def, THEN conjunct2]
    have "v_empty v \<noteq> []"
      using slab_structD(6) [OF str] Suc.prems(3) by auto
    then have "?a \<noteq> 0"
      using slab_structD(2) [OF str] by (cases "v_empty v") (auto simp: dlist_def)
    then obtain es where v: "v_empty v = ?a # es"
      using dlist_nonempty [OF slab_structD(2) [OF str]] by blast
    have ok: "slab_ok c s ?a (v_free v ?a)"
      using slab_structD(7) [OF str, of ?a] v by (simp add: v_slabs_def)
    let ?s = "dropped c ?a s" and ?v = "v\<lparr>v_empty := es\<rparr>"
    have cnt0: "obj_count (slabs s ?a) = 0"
      using ok cnt v by (simp add: slab_ok_def v_counts_def unat_eq_zero)
    have "destroy_slab c ?a (upd_cache c (\<lambda>x. x\<lparr>slabs_empty := slab_next (slabs s ?a),
        empty_count := empty_count x - 1\<rparr>) s) = Inr ?s"
      unfolding dropped_def
      by (rule destroy_slab_eq) (use Suc.prems(2) cnt0 ok in \<open>simp_all add: upd_cache_def slab_ok_def has_flag_def\<close>)
    then have step: "reap_loop (Suc n) c s = reap_loop n c ?s"
      using True by (simp add: Let_def)
    have inv': "slab_inv c ?s ?v ((?a - 4072) # pg)"
      using dropped_struct [OF str v] cnt v by (auto simp: slab_inv_def v_counts_def)
    have pre: "dtor (caches ?s c) = None \<or> has_flag (caches ?s c) SLAB_POISON"
      using Suc.prems(2) by (simp add: has_flag_def)
    have e: "unat (empty_count ?cc - 1) = n"
      using Suc.prems(3) unat_sub_u32 [of 1 "empty_count ?cc"] by simp
    obtain s' v' pg' where r: "reap_loop n c ?s = Inr s'" "slab_inv c s' v' (pg' @ (?a - 4072) # pg)"
      "allocated c s' v' = allocated c s v" and par: "same_params (caches ?s c) (caches s' c)"
      and cnt': "empty_count (caches s' c) = min (empty_count ?cc - 1) (working_set ?cc)"
      and fr: "\<And>b x. b \<in> allocated c s v \<Longrightarrow> in_buffer (caches ?s c) b x \<Longrightarrow> words s' x = words ?s x"
      using Suc.IH [OF inv' pre] e allocated_dropped [OF Suc.prems(1) v] by auto
    have "min (empty_count ?cc - 1) (working_set ?cc) = min (empty_count ?cc) (working_set ?cc)"
      using True e Suc.prems(3) by (auto simp: min_def word_le_nat_alt word_less_nat_alt word_unat_eq_iff)
    moreover have "words s' x = words s x" if "b \<in> allocated c s v" "in_buffer ?cc b x" for b x
    proof -
      have "x \<noteq> ?a - 4072"
        using allocated_frame [OF inv' [unfolded slab_inv_def, THEN conjunct1], of b x "?a - 4072"] that
          allocated_dropped [OF Suc.prems(1) v]
        by (auto simp: in_page_def)
      then show ?thesis
        using fr [OF that(1), of x] that(2) by simp
    qed
    moreover have "slab_inv c s' v' ((pg' @ [?a - 4072]) @ pg)"
      using r(2) by simp
    ultimately show ?thesis
      using step r cnt' same_params_trans [OF dropped_sel(4) par] by metis
  qed
qed

section \<open>Initialization\<close>

lemma unat_align_end_4:
  fixes x :: u32
  assumes "unat x + 3 < 4294967296"
  shows "unat (ALIGN_END x 4) = (unat x + 3) div 4 * 4"
proof -
  have "unat (x + 4 - 1) = unat x + 3"
    using unat_add_u32 [of x 3] assms by (simp add: add_diff_eq [symmetric])
  then show ?thesis
    using unat_align_start [of 4 2 "x + 4 - 1"]
    by (simp add: ALIGN_END_def mask_eq_exp_minus_1 minus_mod_eq_div_mult)
qed

lemma compute_alignment_ok:
  assumes "unat dcache + 3 < 4294967296" and "unat align + 3 < 4294967296"
  shows "4 dvd unat (compute_alignment dcache align flags)" "0 < unat (compute_alignment dcache align flags)"
    "unat (compute_alignment dcache align flags) \<le> max 4 (max (unat align) (unat dcache)) + 3"
proof -
  define x :: u32 where "x = (if align = 0 then 4 else align)"
  define y where "y = (if flags AND SLAB_HWCACHE_ALIGN \<noteq> 0 \<and> x < dcache then dcache else x)"
  have eq: "compute_alignment dcache align flags = ALIGN_END y 4"
    by (simp add: compute_alignment_def x_def y_def)
  have x: "0 < unat x" "unat x \<le> max 4 (unat align)" "unat x + 3 < 4294967296"
    using assms(2) unat_eq_zero [of align] by (auto simp: x_def simp del: unat_eq_zero)
  have y: "0 < unat y" "unat y \<le> max 4 (max (unat align) (unat dcache))" "unat y + 3 < 4294967296"
    using x assms(1) by (auto simp: y_def word_less_nat_alt)
  note e = unat_align_end_4 [OF y(3)]
  have "(unat y + 3) div 4 * 4 \<le> unat y + 3" "1 \<le> (unat y + 3) div 4"
    using y(1) by simp_all
  then show "4 dvd unat (compute_alignment dcache align flags)" "0 < unat (compute_alignment dcache align flags)"
    "unat (compute_alignment dcache align flags) \<le> max 4 (max (unat align) (unat dcache)) + 3"
    using y(2) by (simp_all add: eq e)
qed

lemma compute_alloc_size_ok:
  assumes "4 dvd unat osize" and "4 dvd unat al" and "0 < unat al" and "unat osize + 8 + unat al < 4294967296"
  shows "4 dvd unat (compute_alloc_size osize has_ctor flags al)"
    "unat osize \<le> unat (compute_alloc_size osize has_ctor flags al)"
    "unat (compute_alloc_size osize has_ctor flags al) \<le> unat osize + 8 + unat al"
    "flags AND SLAB_POISON \<noteq> 0 \<or> flags AND SLAB_RED_ZONE \<noteq> 0 \<Longrightarrow>
      unat osize + 4 \<le> unat (compute_alloc_size osize has_ctor flags al)"
proof -
  let ?p = "flags AND SLAB_POISON \<noteq> 0" and ?r = "flags AND SLAB_RED_ZONE \<noteq> 0"
  define k :: nat where "k = (if ?p \<and> ?r then 8 else if ?p \<or> ?r then 4
    else if has_ctor \<and> flags AND SLAB_COMPACT = 0 then 4 else 0)"
  define n :: u32 where "n = osize + of_nat k"
  have k: "4 dvd k" "k \<le> 8" "?p \<or> ?r \<Longrightarrow> 4 \<le> k"
    by (simp_all add: k_def)
  have un: "unat n = unat osize + k"
    unfolding n_def using assms(4) k(2) by (intro unat_add_nat_u32) simp
  have eq: "compute_alloc_size osize has_ctor flags al = (if n mod al \<noteq> 0 then n + (al - n mod al) else n)"
  proof -
    have "(if ?p \<and> ?r then osize + 4 + 4 else if ?p \<or> ?r then osize + 4
        else if has_ctor \<and> flags AND SLAB_COMPACT = 0 then osize + 4 else osize) = n"
      by (simp add: n_def k_def)
    then show ?thesis
      by (simp only: compute_alloc_size_def Let_def)
  qed
  have m: "unat (n mod al) = unat n mod unat al"
    by (simp add: unat_mod)
  then have lt: "unat (n mod al) < unat al"
    using assms(3) by simp
  then have "unat (n + (al - n mod al)) = unat n + (unat al - unat n mod unat al)"
    using unat_sub_u32 [of "n mod al" al] unat_add_u32 [of n "al - n mod al"] assms(4) un k(2) m by simp
  moreover have "4 dvd unat n mod unat al"
    using assms(1,2) k(1) un by (simp add: dvd_mod)
  ultimately obtain r where r: "unat (compute_alloc_size osize has_ctor flags al) = unat osize + k + r"
    "4 dvd r" "r \<le> unat al"
    using m un assms(2) by (cases "n mod al = 0") (auto simp: eq dvd_diff_nat)
  show "4 dvd unat (compute_alloc_size osize has_ctor flags al)"
    "unat osize \<le> unat (compute_alloc_size osize has_ctor flags al)"
    "unat (compute_alloc_size osize has_ctor flags al) \<le> unat osize + 8 + unat al"
    "?p \<or> ?r \<Longrightarrow> unat osize + 4 \<le> unat (compute_alloc_size osize has_ctor flags al)"
    using assms(1) k r by simp_all
qed

text \<open>The cache \<open>slab_cache_init\<close> sets up before it adds the first slab.\<close>

definition new_cache :: "u32 \<Rightarrow> string \<Rightarrow> u32 \<Rightarrow> u32 \<Rightarrow> slab_ctor option \<Rightarrow> slab_ctor option \<Rightarrow> u32 \<Rightarrow> slab_cache_t" where
  "new_cache dcache name n align ct dt flags =
     (let al = compute_alignment dcache align flags; osize = ALIGN_END n 4;
          asize = compute_alloc_size osize (ct \<noteq> None) flags al
      in \<lparr>slabs_empty = 0, slabs_partial = 0, slabs_full = 0, empty_count = 0, obj_size = osize,
           alloc_size = asize, alignment = al, bufctl_offset = asize - 4, next_colour = 0,
           max_colour = ((4072 - 4072 div asize * asize) div al) * al,
           working_set = SLAB_DEFAULT_WORKING_SET, ctor = ct, dtor = dt, cache_name = name, cache_flags = flags\<rparr>)"

text \<open>What \<open>slab_cache_init\<close> needs of its arguments: an object fits in a slab.\<close>

definition cache_args :: "u32 \<Rightarrow> u32 \<Rightarrow> u32 \<Rightarrow> bool" where
  "cache_args dcache n align \<longleftrightarrow> 4 \<le> unat n \<and> unat n + 14 + max 4 (max (unat align) (unat dcache)) \<le> 4072"

lemma new_cache_ok:
  assumes "cache_args dcache n align" and "\<And>f. ct = Some f \<or> dt = Some f \<Longrightarrow> obj_fn (ALIGN_END n 4) f"
  shows "cache_ok (new_cache dcache name n align ct dt flags)"
proof -
  let ?al = "compute_alignment dcache align flags" and ?o = "ALIGN_END n 4"
  define as where "as = compute_alloc_size ?o (ct \<noteq> None) flags ?al"
  have al: "4 dvd unat ?al" "0 < unat ?al" "unat ?al \<le> max 4 (max (unat align) (unat dcache)) + 3"
    using compute_alignment_ok [of dcache align flags] assms(1) by (auto simp: cache_args_def)
  have "unat ?o = (unat n + 3) div 4 * 4"
    using assms(1) by (intro unat_align_end_4) (simp add: cache_args_def)
  then have o: "4 dvd unat ?o" "4 \<le> unat ?o" "unat ?o \<le> unat n + 3"
    using assms(1) div_le_mono [of 7 "unat n + 3" 4] by (auto simp: cache_args_def)
  have as: "4 dvd unat as" "unat ?o \<le> unat as" "unat as \<le> unat ?o + 8 + unat ?al"
    "flags AND SLAB_POISON \<noteq> 0 \<or> flags AND SLAB_RED_ZONE \<noteq> 0 \<Longrightarrow> unat ?o + 4 \<le> unat as"
    using compute_alloc_size_ok [where osize = ?o and al = ?al and has_ctor = "ct \<noteq> None" and flags = flags] o al assms(1) by (auto simp: as_def cache_args_def)
  have used: "unat (4072 div as * as) = 4072 div unat as * unat as"
    by (subst unat_mult_u32) (simp_all add: unat_div le_less_trans [OF div_times_less_eq_dividend])
  define wasted where "wasted = 4072 - 4072 div as * as"
  have w: "unat wasted = 4072 mod unat as"
    unfolding wasted_def by (subst unat_sub_u32) (simp_all add: used minus_div_mult_eq_mod)
  have "unat wasted div unat ?al * unat ?al \<le> unat wasted" "unat wasted \<le> 4072"
    by (simp_all add: w)
  then have le: "unat wasted div unat ?al * unat ?al < 4294967296"
    by linarith
  have col: "unat (wasted div ?al * ?al) = unat wasted div unat ?al * unat ?al"
    by (subst unat_mult_u32) (use le in \<open>simp_all add: unat_div\<close>)
  have "unat as \<le> 4072"
    using as(3) o(3) al(3) assms(1) by (simp add: cache_args_def)
  then show ?thesis
    unfolding new_cache_def Let_def as_def [symmetric] wasted_def [symmetric]
    using as al o col w assms(2) by (simp add: cache_ok_def has_flag_def)
qed

lemma no_slabs_struct:
  assumes "free_pages_are s pg" and "\<And>p. p \<in> set pg \<Longrightarrow> page_ok p" and "cache_ok (caches s c)"
    and "slabs_empty (caches s c) = 0" "slabs_partial (caches s c) = 0" "slabs_full (caches s c) = 0"
      "empty_count (caches s c) = 0"
  shows "slab_struct c s \<lparr>v_empty = [], v_partial = [], v_full = [], v_free = \<lambda>_. []\<rparr> pg"
  by (rule slab_structI) (use assms in \<open>simp_all add: v_slabs_def dlist_def\<close>)

lemma slab_cache_init_eq:
  assumes "cache_args dcache n align"
    and "s1 = s\<lparr>caches := (caches s)(c := new_cache dcache name n align ct dt flags)\<rparr>"
  shows "slab_cache_init dcache c name n align ct dt flags s =
    (let (p, s2) = page_alloc s1 in
       if p = 0 then Inl (Panic ''Could not allocate page for first slab'') else init_and_add_slab c p s2)"
proof -
  have "SLAB_SIZE - SIZEOF_SLAB = 4072"
    by (simp add: SLAB_SIZE_def PAGE_SIZE_def SIZEOF_SLAB_def)
  moreover have "4 \<le> n"
    using assms(1) by (simp add: cache_args_def word_le_nat_alt)
  ultimately show ?thesis
    by (simp add: slab_cache_init_def assert_that_def assms(2) new_cache_def Let_def)
qed

lemma slab_cache_init_ok:
  assumes args: "cache_args dcache n align" and fn: "\<And>f. ct = Some f \<or> dt = Some f \<Longrightarrow> obj_fn (ALIGN_END n 4) f"
    and pages: "free_pages_are s pg" "\<And>p. p \<in> set pg \<Longrightarrow> page_ok p"
  shows "if pg = [] then slab_cache_init dcache c name n align ct dt flags s =
      Inl (Panic ''Could not allocate page for first slab'')
    else \<exists>s' v. slab_cache_init dcache c name n align ct dt flags s = Inr s' \<and> slab_inv c s' v (tl pg) \<and>
      allocated c s' v = {} \<and> obj_size (caches s' c) = ALIGN_END n 4 \<and> ctor (caches s' c) = ct \<and>
      dtor (caches s' c) = dt \<and> cache_flags (caches s' c) = flags \<and>
      (\<forall>x. \<not> in_page (hd pg) x \<longrightarrow> words s' x = words s x)"
proof -
  let ?cc = "new_cache dcache name n align ct dt flags"
  define s1 where "s1 = s\<lparr>caches := (caches s)(c := ?cc)\<rparr>"
  let ?v = "\<lparr>v_empty = [], v_partial = [], v_full = [], v_free = \<lambda>_. []\<rparr>"
  have pages1: "free_pages_are s1 pg"
    using pages(1) by (simp add: s1_def free_pages_are_def)
  have str: "slab_struct c s1 ?v pg"
    by (rule no_slabs_struct [OF pages1 pages(2)])
      (use new_cache_ok [OF args fn] in \<open>simp_all add: s1_def\<close>, simp_all add: new_cache_def Let_def)
  note eq = slab_cache_init_eq [OF args s1_def]
  show ?thesis
  proof (cases pg)
    case Nil
    then have "page_alloc s1 = (0, s1)"
      using page_alloc_pages [OF pages1] by simp
    then show ?thesis
      using eq Nil by simp
  next
    case (Cons p pg1)
    define s2 where "s2 = snd (page_alloc s1)"
    note pa = page_alloc_struct [OF str [unfolded Cons], folded s2_def]
    have alloc: "page_alloc s1 = (p, s2)" "p \<noteq> 0"
      using pa(1,3) by (simp_all add: s2_def prod_eq_iff page_ok_def)
    obtain m where m: "init_and_add_slab c p s2 = Inr (slab_added c p m s2)"
        "link_chain m (buffer_at (caches s1 c) p (next_colour (caches s1 c)) 0 + bufctl_offset (caches s1 c))
           (bufctls (caches s1 c) p (next_colour (caches s1 c)) 0)" "\<And>x. \<not> in_page p x \<Longrightarrow> m x = words s2 x"
      using init_and_add_slab_eq [of s2 c p "caches s1 c"] slab_structD(1) [OF str] pa(3,5) by metis
    define v2 where "v2 = ?v\<lparr>v_empty := [p + 4072],
      v_free := (v_free ?v)(p + 4072 := bufctls (caches s1 c) p (next_colour (caches s1 c)) 0)\<rparr>"
    have new: "p + 4072 \<notin> set (v_slabs ?v)"
      by (simp add: v_slabs_def)
    let ?s = "slab_added c p m s2"
    have str2: "slab_struct c ?s v2 pg1"
      by (rule slab_added_struct [OF pa(2-4) new m(2,3)]) (simp_all add: pa(5) v2_def)
    have par: "same_params ?cc (caches ?s c)"
      by (simp add: slab_added_def Let_def same_params_def pa(5) s1_def)
    have "v_counts (nbuf (caches ?s c)) v2"
      by (simp add: v_counts_def v2_def same_params_eq [OF par]) (simp add: s1_def length_bufctls)
    moreover have "allocated c ?s v2 = allocated c s2 ?v"
      by (rule allocated_added [OF new]) (simp add: v2_def pa(5))
    moreover have "allocated c s2 ?v = {}"
      by (simp add: allocated_def v_slabs_def)
    moreover have "words s2 = words s"
      by (simp add: s2_def page_alloc_def Let_def s1_def)
    moreover have "words ?s = m"
      by (simp add: slab_added_def Let_def)
    moreover have "obj_size (caches ?s c) = ALIGN_END n 4" "ctor (caches ?s c) = ct" "dtor (caches ?s c) = dt"
      "cache_flags (caches ?s c) = flags"
      using par by (simp_all add: same_params_def new_cache_def Let_def)
    ultimately show ?thesis
      using eq alloc m str2 Cons by (auto simp: slab_inv_def)
  qed
qed

lemma slab_cache_reap_ok:
  assumes "slab_inv c s v pg" and "dtor (caches s c) = None \<or> has_flag (caches s c) SLAB_POISON"
  shows "\<exists>s' v' pg'. slab_cache_reap c s = Inr s' \<and> slab_inv c s' v' (pg' @ pg) \<and> allocated c s' v' = allocated c s v \<and>
    same_params (caches s c) (caches s' c) \<and>
    empty_count (caches s' c) = min (empty_count (caches s c)) (working_set (caches s c)) \<and>
    (\<forall>b x. b \<in> allocated c s v \<and> in_buffer (caches s c) b x \<longrightarrow> words s' x = words s x)"
  unfolding slab_cache_reap_def by (rule reap_loop_ok [OF assms refl])

end
