(* ===== verification/SlabPool.thy ===== *)
theory SlabPool
  imports SlabReap
begin

unbundle bit_operations_syntax

text \<open>
  What the slab allocator promises its clients: objects that are handed out once, keep
  the words their owner wrote, and are not affected by other allocations, frees, and
  writes to other objects. The contract is the locale \<open>object_pool\<close>; its clients are
  sequences of commands.
\<close>

section \<open>Clients\<close>

datatype pool_cmd = Alloc | Free nat | Write nat nat u32

text \<open>A client holds its objects with the words it expects in them.\<close>

primrec pool_run ::
    "('s \<Rightarrow> ('o option \<times> 's) result) \<Rightarrow> ('o \<Rightarrow> 's \<Rightarrow> 's) \<Rightarrow> ('o \<Rightarrow> nat \<Rightarrow> u32 \<Rightarrow> 's \<Rightarrow> 's) \<Rightarrow> ('s \<Rightarrow> 'o \<Rightarrow> u32 list) \<Rightarrow>
      pool_cmd list \<Rightarrow> 's \<times> ('o \<times> u32 list) list \<Rightarrow> ('s \<times> ('o \<times> u32 list) list) result" where
  "pool_run al fr wr content [] st = Inr st"
| "pool_run al fr wr content (cmd # cmds) st =
     bind_ok
       (case (cmd, st) of
          (Alloc, (s, os)) \<Rightarrow>
            bind_ok (al s) (\<lambda>(r, s). Inr (s, case r of None \<Rightarrow> os | Some b \<Rightarrow> (b, content s b) # os))
        | (Free i, (s, os)) \<Rightarrow>
            if i < length os then Inr (fr (fst (os ! i)) s, take i os @ drop (Suc i) os) else Inr (s, os)
        | (Write i k w, (s, os)) \<Rightarrow>
            if i < length os \<and> k < length (snd (os ! i))
            then Inr (wr (fst (os ! i)) k w s, os[i := (fst (os ! i), (snd (os ! i))[k := w])])
            else Inr (s, os))
       (pool_run al fr wr content cmds)"

section \<open>The contract\<close>

locale object_pool =
  fixes al :: "'s \<Rightarrow> ('o option \<times> 's) result" and fr :: "'o \<Rightarrow> 's \<Rightarrow> 's"
    and wr :: "'o \<Rightarrow> nat \<Rightarrow> u32 \<Rightarrow> 's \<Rightarrow> 's" and content :: "'s \<Rightarrow> 'o \<Rightarrow> u32 list"
    and live_set :: "'s \<Rightarrow> 'o set \<Rightarrow> bool"
  assumes alloc_new: "live_set s A \<Longrightarrow> \<exists>r s'. al s = Inr (r, s') \<and>
      (case r of None \<Rightarrow> s' = s
       | Some b \<Rightarrow> b \<notin> A \<and> live_set s' (insert b A) \<and> (\<forall>b' \<in> A. content s' b' = content s b'))"
    and free_live: "live_set s A \<Longrightarrow> b \<in> A \<Longrightarrow>
      live_set (fr b s) (A - {b}) \<and> (\<forall>b' \<in> A - {b}. content (fr b s) b' = content s b')"
    and write_live: "live_set s A \<Longrightarrow> b \<in> A \<Longrightarrow> k < length (content s b) \<Longrightarrow>
      live_set (wr b k w s) A \<and> content (wr b k w s) b = (content s b)[k := w] \<and>
      (\<forall>b' \<in> A - {b}. content (wr b k w s) b' = content s b')"
begin

definition holds :: "'s \<times> ('o \<times> u32 list) list \<Rightarrow> bool" where
  "holds st \<longleftrightarrow> live_set (fst st) (fst ` set (snd st)) \<and> distinct (map fst (snd st)) \<and>
     (\<forall>x \<in> set (snd st). content (fst st) (fst x) = snd x)"

lemma step_holds:
  assumes "holds (s, os)"
  shows "\<exists>st. (case (cmd, (s, os)) of
          (Alloc, (s, os)) \<Rightarrow>
            bind_ok (al s) (\<lambda>(r, s). Inr (s, case r of None \<Rightarrow> os | Some b \<Rightarrow> (b, content s b) # os))
        | (Free i, (s, os)) \<Rightarrow>
            if i < length os then Inr (fr (fst (os ! i)) s, take i os @ drop (Suc i) os) else Inr (s, os)
        | (Write i k w, (s, os)) \<Rightarrow>
            if i < length os \<and> k < length (snd (os ! i))
            then Inr (wr (fst (os ! i)) k w s, os[i := (fst (os ! i), (snd (os ! i))[k := w])])
            else Inr (s, os)) = Inr st \<and> holds st"
proof (cases cmd)
  case Alloc
  obtain r s' where r: "al s = Inr (r, s')" "case r of None \<Rightarrow> s' = s
      | Some b \<Rightarrow> b \<notin> fst ` set os \<and> live_set s' (insert b (fst ` set os)) \<and> (\<forall>b' \<in> fst ` set os. content s' b' = content s b')"
    using alloc_new [of s "fst ` set os"] assms by (auto simp: holds_def)
  then show ?thesis
    using Alloc assms by (cases r) (auto simp: holds_def)
next
  case (Free i)
  show ?thesis
  proof (cases "i < length os")
    case True
    let ?b = "fst (os ! i)" and ?os = "take i os @ drop (Suc i) os"
    have eq: "os = take i os @ os ! i # drop (Suc i) os"
      by (rule id_take_nth_drop [OF True])
    have d: "distinct (map fst (take i os @ os ! i # drop (Suc i) os))"
      using assms by (subst eq [symmetric]) (simp add: holds_def)
    then have "?b \<notin> fst ` set ?os"
      by auto
    moreover have "fst ` set os = insert ?b (fst ` set ?os)"
      using arg_cong [OF eq, of "\<lambda>l. fst ` set l"] by (simp add: image_Un)
    ultimately have set: "fst ` set ?os = fst ` set os - {?b}"
      by simp
    have sub: "set ?os \<subseteq> set os"
      by (simp add: set_take_subset set_drop_subset)
    have "live_set (fr ?b s) (fst ` set ?os) \<and> (\<forall>b' \<in> fst ` set ?os. content (fr ?b s) b' = content s b')"
      unfolding set using free_live [of s "fst ` set os" ?b] assms True by (simp add: holds_def)
    then have "holds (fr ?b s, ?os)"
      using d sub assms by (auto simp: holds_def)
    then show ?thesis
      using Free True by simp
  qed (use Free assms in simp)
next
  case (Write i k w)
  show ?thesis
  proof (cases "i < length os \<and> k < length (snd (os ! i))")
    case True
    let ?b = "fst (os ! i)" and ?os = "os[i := (fst (os ! i), (snd (os ! i))[k := w])]"
    have same: "map fst ?os = map fst os"
      using True by (simp add: map_update list_update_same_conv)
    then have set: "fst ` set ?os = fst ` set os"
      by (metis list.set_map)
    have c: "content s ?b = snd (os ! i)"
      using assms True by (simp add: holds_def)
    have wl: "live_set (wr ?b k w s) (fst ` set os)" "content (wr ?b k w s) ?b = (content s ?b)[k := w]"
      "\<And>b'. b' \<in> fst ` set os - {?b} \<Longrightarrow> content (wr ?b k w s) b' = content s b'"
      using write_live [of s "fst ` set os" ?b k w] assms True c by (auto simp: holds_def)
    have "content (wr ?b k w s) (fst (?os ! j)) = snd (?os ! j)" if "j < length os" for j
    proof (cases "j = i")
      case False
      have "fst (os ! j) \<noteq> ?b"
        using assms False that True nth_eq_iff_index_eq [of "map fst os" j i] by (simp add: holds_def)
      then show ?thesis
        using wl(3) [of "fst (os ! j)"] assms that False by (simp add: holds_def)
    qed (use that wl(2) c in simp)
    then have "\<forall>x \<in> set ?os. content (wr ?b k w s) (fst x) = snd x"
      by (simp add: all_set_conv_all_nth del: nth_list_update)
    then have "holds (wr ?b k w s, ?os)"
      using wl(1) assms by (simp add: holds_def set same)
    then show ?thesis
      using Write True by simp
  qed (use Write assms in auto)
qed

lemma run_holds: "holds st \<Longrightarrow> \<exists>st'. pool_run al fr wr content cmds st = Inr st' \<and> holds st'"
proof (induction cmds arbitrary: st)
  case (Cons cmd cmds)
  obtain st' where "pool_run al fr wr content (cmd # cmds) st = pool_run al fr wr content cmds st'" "holds st'"
    using step_holds [of "fst st" "snd st" cmd] Cons.prems by auto
  then show ?case
    using Cons.IH by auto
qed simp

end

section \<open>The slab allocator meets the contract\<close>

definition slab_obj_alloc :: "nat \<Rightarrow> alloc_state \<Rightarrow> (u32 option \<times> alloc_state) result" where
  "slab_obj_alloc c s = bind_ok (slab_cache_alloc c s) (\<lambda>(b, s). Inr (if b = 0 then None else Some b, s))"

definition object_content :: "nat \<Rightarrow> alloc_state \<Rightarrow> u32 \<Rightarrow> u32 list" where
  "object_content c s b = map (\<lambda>k. words s (b + of_nat (4 * k))) [0..<unat (obj_size (caches s c)) div 4]"

definition object_write :: "u32 \<Rightarrow> nat \<Rightarrow> u32 \<Rightarrow> alloc_state \<Rightarrow> alloc_state" where
  "object_write b k w s = s\<lparr>words := (words s)(b + of_nat (4 * k) := w)\<rparr>"

definition slab_live :: "nat \<Rightarrow> alloc_state \<Rightarrow> u32 set \<Rightarrow> bool" where
  "slab_live c s A \<longleftrightarrow> (\<exists>v pg. slab_inv c s v pg \<and> allocated c s v = A)"

lemma object_in_buffer:
  assumes "slab_struct c s v pg" and "b \<in> allocated c s v" and "k < unat (obj_size (caches s c)) div 4"
  shows "in_buffer (caches s c) b (b + of_nat (4 * k))" "unat (b + of_nat (4 * k)) = unat b + 4 * k"
proof -
  note d = slab_structD [OF assms(1)]
  obtain a where a: "a \<in> set (v_slabs v)" "b \<in> set (buffers (caches s c) (a - 4072) (colour (slabs s a)))"
    using assms(2) by (auto simp: allocated_def)
  have p: "page_ok (a - 4072)" "unat (colour (slabs s a)) \<le> unat (max_colour (caches s c))"
    using d(7) [OF a(1)] by (simp_all add: slab_ok_def)
  have "unat b + unat (alloc_size (caches s c)) \<le> 4294967296" "4 * k < unat (alloc_size (caches s c))"
    using buffer_self(5) [OF d(1) p a(2)] p(1) assms(3) cache_okD(12) [OF d(1)] by (auto simp: page_ok_def)
  then show "unat (b + of_nat (4 * k)) = unat b + 4 * k" "in_buffer (caches s c) b (b + of_nat (4 * k))"
    using unat_add_nat_u32 [of b "4 * k"] by (simp_all add: in_buffer_def del: of_nat_mult)
qed

lemma content_frame:
  assumes "slab_struct c s v pg" and "b \<in> allocated c s v" and "same_params (caches s c) (caches s' c)"
    and "\<And>x. in_buffer (caches s c) b x \<Longrightarrow> words s' x = words s x"
  shows "object_content c s' b = object_content c s b"
proof -
  have "obj_size (caches s' c) = obj_size (caches s c)"
    using assms(3) by (simp add: same_params_def)
  moreover have "words s' (b + of_nat (4 * k)) = words s (b + of_nat (4 * k))"
    if "k < unat (obj_size (caches s c)) div 4" for k
    by (rule assms(4) [OF object_in_buffer(1) [OF assms(1,2) that]])
  ultimately show ?thesis
    by (simp add: object_content_def del: of_nat_mult)
qed

lemma object_write_ok:
  assumes inv: "slab_inv c s v pg" and b: "b \<in> allocated c s v" and k: "k < length (object_content c s b)"
  shows "slab_inv c (object_write b k w s) v pg" "allocated c (object_write b k w s) v = allocated c s v"
    "object_content c (object_write b k w s) b = (object_content c s b)[k := w]"
    "b' \<in> allocated c s v \<Longrightarrow> b' \<noteq> b \<Longrightarrow> object_content c (object_write b k w s) b' = object_content c s b'"
proof -
  note str = inv [unfolded slab_inv_def, THEN conjunct1] and cnt = inv [unfolded slab_inv_def, THEN conjunct2]
  let ?n = "unat (obj_size (caches s c)) div 4" and ?s = "object_write b k w s"
  have k': "k < ?n"
    using k by (simp add: object_content_def)
  obtain a where a: "a \<in> set (v_slabs v)" "b \<in> set (buffers (caches s c) (a - 4072) (colour (slabs s a)))"
    "b + bufctl_offset (caches s c) \<notin> set (v_free v a)"
    using b by (auto simp: allocated_def)
  note inb = object_in_buffer [OF str b k']
  have sel: "caches ?s = caches s" "slabs ?s = slabs s"
    by (simp_all add: object_write_def)
  have fr: "words ?s x = words s x" if "\<not> in_buffer (caches s c) b x" for x
    using that inb(1) by (auto simp: object_write_def)
  have "slab_struct c (s\<lparr>words := words ?s, warnings := warnings s\<rparr>) v pg"
    by (rule object_written [OF str a fr])
  then show "slab_inv c ?s v pg"
    using cnt by (simp add: slab_inv_def object_write_def)
  show "allocated c ?s v = allocated c s v"
    by (simp add: allocated_def sel)
  have "(b + of_nat (4 * j) = b + of_nat (4 * k)) = (j = k)" if "j < ?n" for j
    using object_in_buffer(2) [OF str b that] inb(2) by (metis add_left_cancel mult_cancel1 zero_neq_numeral)
  then show "object_content c ?s b = (object_content c s b)[k := w]"
    by (intro nth_equalityI) (auto simp: object_content_def sel nth_list_update object_write_def simp del: of_nat_mult)
  show "object_content c ?s b' = object_content c s b'" if "b' \<in> allocated c s v" "b' \<noteq> b"
    by (rule content_frame [OF str that(1)]) (use fr allocated_disjoint [OF str that(1) b] that(2) in \<open>auto simp: sel\<close>)
qed

interpretation slab_pool: object_pool "slab_obj_alloc c" slab_cache_free object_write "object_content c" "slab_live c"
  for c
proof
  fix s A
  assume "slab_live c s A"
  then obtain v pg where inv: "slab_inv c s v pg" and A: "allocated c s v = A"
    by (auto simp: slab_live_def)
  note str = inv [unfolded slab_inv_def, THEN conjunct1]
  show "\<exists>r s'. slab_obj_alloc c s = Inr (r, s') \<and>
      (case r of None \<Rightarrow> s' = s
       | Some b \<Rightarrow> b \<notin> A \<and> slab_live c s' (insert b A) \<and> (\<forall>b' \<in> A. object_content c s' b' = object_content c s b'))"
  proof -
    obtain b s' where al: "slab_cache_alloc c s = Inr (b, s')"
      and eff: "if b = 0 then s' = s \<and> pg = [] \<and> v_empty v = [] \<and> v_partial v = []
        else \<exists>v' pg'. alloc_effect c s v pg b s' v' pg'"
      using slab_cache_alloc_ok [OF inv] by blast
    show ?thesis
    proof (cases "b = 0")
      case False
      then obtain v' pg' where e: "alloc_effect c s v pg b s' v' pg'"
        using eff by auto
      then have "slab_live c s' (insert b A)" "b \<notin> A"
        using A by (auto simp: slab_live_def alloc_effect_def)
      moreover have "object_content c s' b' = object_content c s b'" if "b' \<in> A" for b'
        by (rule content_frame [OF str]) (use e that A in \<open>auto simp: alloc_effect_def\<close>)
      ultimately show ?thesis
        using al False by (simp add: slab_obj_alloc_def)
    qed (use al eff in \<open>simp add: slab_obj_alloc_def\<close>)
  qed
  fix b
  assume b: "b \<in> A"
  obtain v' where e: "free_effect c s v pg b (slab_cache_free b s) v'"
    using slab_cache_free_ok [OF inv, of b] b A by auto
  then have "slab_live c (slab_cache_free b s) (A - {b})"
    using A by (auto simp: slab_live_def free_effect_def)
  moreover have "object_content c (slab_cache_free b s) b' = object_content c s b'" if "b' \<in> A - {b}" for b'
    by (rule content_frame [OF str]) (use e that A in \<open>auto simp: free_effect_def\<close>)
  ultimately show "slab_live c (slab_cache_free b s) (A - {b}) \<and>
      (\<forall>b' \<in> A - {b}. object_content c (slab_cache_free b s) b' = object_content c s b')"
    by blast
  fix k w
  assume k: "k < length (object_content c s b)"
  note w = object_write_ok [OF inv b [folded A] k]
  have "slab_live c (object_write b k w s) A"
    using w(1,2) A by (auto simp: slab_live_def)
  moreover have "object_content c (object_write b k w s) b' = object_content c s b'" if "b' \<in> A - {b}" for b'
    by (rule w(4)) (use that A in auto)
  ultimately show "slab_live c (object_write b k w s) A \<and>
      object_content c (object_write b k w s) b = (object_content c s b)[k := w] \<and>
      (\<forall>b' \<in> A - {b}. object_content c (object_write b k w s) b' = object_content c s b')"
    using w(3) by blast
qed

end
