(* ===== verification/SlabClaims.thy ===== *)
theory SlabClaims
  imports SlabPool
begin

unbundle bit_operations_syntax

text \<open>
  The properties of the slab allocator, and a concrete cache to apply them to.
\<close>

section \<open>A small cache\<close>

definition demo_pages :: "u32 list" where
  "demo_pages = [0xc1000000, 0xc1001000]"

definition demo_alloc :: alloc_state where
  "demo_alloc = \<lparr>words = (\<lambda>_. 0)(0xc1000000 := 0xc1001000), head_page = 0xc1000000, page_count = 2,
     caches = (\<lambda>_. new_cache 0 [] 4 0 None None 0),
     slabs = (\<lambda>_. \<lparr>slab_prev = 0, slab_next = 0, slab_cache = 0, obj_count = 0, colour = 0, free_list = 0\<rparr>),
     warnings = []\<rparr>"

lemma demo_alloc_pages: "free_pages_are demo_alloc demo_pages" "p \<in> set demo_pages \<Longrightarrow> page_ok p" "demo_pages \<noteq> []"
  by (auto simp: free_pages_are_def demo_alloc_def demo_pages_def page_ok_def)

lemma demo_cache_args: "cache_args 32 100 0"
  by (simp add: cache_args_def)

lemma demo_cache:
  obtains s v where "slab_cache_init 32 0 ''demo'' 100 0 None None 0 demo_alloc = Inr s" "slab_inv 0 s v [0xc1001000]"
    "allocated 0 s v = {}" "dtor (caches s 0) = None"
proof -
  have "if demo_pages = [] then slab_cache_init 32 0 ''demo'' 100 0 None None 0 demo_alloc =
      Inl (Panic ''Could not allocate page for first slab'')
    else \<exists>s' v. slab_cache_init 32 0 ''demo'' 100 0 None None 0 demo_alloc = Inr s' \<and> slab_inv 0 s' v (tl demo_pages) \<and>
      allocated 0 s' v = {} \<and> obj_size (caches s' 0) = ALIGN_END 100 4 \<and> ctor (caches s' 0) = None \<and>
      dtor (caches s' 0) = None \<and> cache_flags (caches s' 0) = 0 \<and>
      (\<forall>x. \<not> in_page (hd demo_pages) x \<longrightarrow> words s' x = words demo_alloc x)"
    by (rule slab_cache_init_ok [OF demo_cache_args _ demo_alloc_pages(1,2)]) simp_all
  moreover have "tl demo_pages = [0xc1001000]"
    by (simp add: demo_pages_def)
  ultimately show thesis
    using that demo_alloc_pages(3) by (auto simp del: list.sel)
qed


section \<open>Objects\<close>

text \<open>
  Claim C15. After a cache was initialized, every sequence of allocations, frees and
  writes to allocated objects completes without a failed assertion; the objects held
  at the end are different from each other and each contains the words it contained when
  it was allocated, as changed by the writes to it and by nothing else.
\<close>

theorem slab_objects_private:
  assumes "cache_args dcache n align" and "\<And>f. ct = Some f \<or> dt = Some f \<Longrightarrow> obj_fn (ALIGN_END n 4) f"
    and "free_pages_are s pg" and "\<And>p. p \<in> set pg \<Longrightarrow> page_ok p"
    and "slab_cache_init dcache c name n align ct dt flags s = Inr s0"
  shows "\<exists>s' os. pool_run (slab_obj_alloc c) slab_cache_free object_write (object_content c) cmds (s0, []) = Inr (s', os) \<and>
    distinct (map fst os) \<and> (\<forall>x \<in> set os. object_content c s' (fst x) = snd x)"
proof -
  have "slab_live c s0 {}"
    using slab_cache_init_ok [OF assms(1,2,3,4), where ct = ct and dt = dt and c = c and name = name and flags = flags] assms(5)
    by (auto simp: slab_live_def split: if_splits)
  then have "slab_pool.holds c (s0, [])"
    by (simp add: slab_pool.holds_def)
  from slab_pool.run_holds [OF this, of cmds] show ?thesis
    by (auto simp: slab_pool.holds_def)
qed

theorem slab_objects_private_witness:
  "\<exists>s0 s' os. slab_cache_init 32 0 ''demo'' 100 0 None None 0 demo_alloc = Inr s0 \<and>
    pool_run (slab_obj_alloc 0) slab_cache_free object_write (object_content 0)
      [Alloc, Alloc, Write 0 3 7, Free 1, Alloc] (s0, []) = Inr (s', os) \<and> distinct (map fst os)"
proof -
  obtain s0 where "slab_cache_init 32 0 ''demo'' 100 0 None None 0 demo_alloc = Inr s0"
    using demo_cache by blast
  with slab_objects_private [OF demo_cache_args _ demo_alloc_pages(1,2) this,
      where cmds = "[Alloc, Alloc, Write 0 3 7, Free 1, Alloc]"]
  show ?thesis
    by auto
qed

lemma no_buffer_null:
  assumes "slab_struct c s v pg" and "pg = []" "v_empty v = []" "v_partial v = []" and "slab_cache_alloc c s = Inr (b, s')"
  shows "b = 0"
proof -
  have "page_alloc s = (0, s)"
    using page_alloc_pages [OF slab_structD(9) [OF assms(1)]] assms(2) by simp
  moreover have "slabs_partial (caches s c) = 0" "slabs_empty (caches s c) = 0"
    using slab_structD(2,3) [OF assms(1)] assms(3,4) by (simp_all add: dlist_def)
  ultimately show ?thesis
    using assms(5) by (simp add: slab_cache_alloc_def select_slab_def)
qed

lemma all_full_iff:
  assumes "slab_inv c s v pg"
  shows "v_empty v = [] \<and> v_partial v = [] \<longleftrightarrow>
    (\<forall>a \<in> set (v_slabs v). set (buffers (caches s c) (a - 4072) (colour (slabs s a))) \<subseteq> allocated c s v)"
proof -
  let ?B = "\<lambda>a. set (buffers (caches s c) (a - 4072) (colour (slabs s a)))"
  note str = assms [unfolded slab_inv_def, THEN conjunct1] and cnt = assms [unfolded slab_inv_def, THEN conjunct2]
  have full: "?B a \<subseteq> allocated c s v \<longleftrightarrow> v_free v a = []" if a: "a \<in> set (v_slabs v)" for a
  proof (cases "v_free v a")
    case Nil
    then show ?thesis
      using a by (auto simp: allocated_def)
  next
    case (Cons x xs)
    let ?b = "x - bufctl_offset (caches s c)"
    have "?b \<in> ?B a"
      using slab_structD(7) [OF str a] Cons by (intro bufctl_buffer) (simp add: slab_ok_def)
    moreover have "?b \<notin> allocated c s v"
      using buffer_owner [OF str a _ \<open>?b \<in> ?B a\<close>] Cons by (auto simp: allocated_def)
    ultimately show ?thesis
      using Cons by auto
  qed
  have "\<forall>a \<in> set (v_empty v) \<union> set (v_partial v). v_free v a \<noteq> []" "\<forall>a \<in> set (v_full v). v_free v a = []"
    using cnt nbuf_pos [OF slab_structD(1) [OF str]] by (auto simp: v_counts_def)
  moreover have "set (v_slabs v) = set (v_empty v) \<union> set (v_partial v) \<union> set (v_full v)"
    by (auto simp: v_slabs_def)
  ultimately have "(\<forall>a \<in> set (v_slabs v). v_free v a = []) \<longleftrightarrow> (\<forall>a \<in> set (v_empty v) \<union> set (v_partial v). False)"
    by (simp only: ball_Un) metis
  moreover have "(\<forall>a \<in> set (v_slabs v). v_free v a = []) \<longleftrightarrow> (\<forall>a \<in> set (v_slabs v). ?B a \<subseteq> allocated c s v)"
    by (rule ball_cong [OF refl]) (simp add: full)
  moreover have "(\<forall>a \<in> set (v_empty v) \<union> set (v_partial v). False) \<longleftrightarrow> v_empty v = [] \<and> v_partial v = []"
    by (cases "v_empty v"; cases "v_partial v") auto
  ultimately show ?thesis
    by (simp only:)
qed

text \<open>
  Claim C16. Allocation never fails an assertion, and it returns the null pointer exactly
  when the page allocator has no page left and every buffer of every slab of the cache
  is allocated.
\<close>

theorem slab_alloc_null_iff:
  assumes "slab_inv c s v pg"
  shows "\<exists>b s'. slab_cache_alloc c s = Inr (b, s') \<and>
    (b = 0 \<longleftrightarrow> pg = [] \<and> (\<forall>a \<in> set (v_slabs v).
       set (buffers (caches s c) (a - 4072) (colour (slabs s a))) \<subseteq> allocated c s v))"
proof -
  note str = assms [unfolded slab_inv_def, THEN conjunct1] and cnt = assms [unfolded slab_inv_def, THEN conjunct2]
  obtain b s' where al: "slab_cache_alloc c s = Inr (b, s')"
    and eff: "if b = 0 then s' = s \<and> pg = [] \<and> v_empty v = [] \<and> v_partial v = []
      else \<exists>v' pg'. alloc_effect c s v pg b s' v' pg'"
    using slab_cache_alloc_ok [OF assms] by blast
  have "b = 0 \<longleftrightarrow> pg = [] \<and> v_empty v = [] \<and> v_partial v = []"
    using eff al no_buffer_null [OF str] by (auto split: if_splits)
  also have "\<dots> \<longleftrightarrow> pg = [] \<and> (\<forall>a \<in> set (v_slabs v).
       set (buffers (caches s c) (a - 4072) (colour (slabs s a))) \<subseteq> allocated c s v)"
    using all_full_iff [OF assms] by blast
  finally show ?thesis
    using al by blast
qed

theorem slab_alloc_null_iff_witness:
  "\<exists>s v b s'. slab_inv 0 s v [0xc1001000] \<and> slab_cache_alloc 0 s = Inr (b, s') \<and> b \<noteq> 0"
proof -
  obtain s v where s: "slab_inv 0 s v [0xc1001000]"
    using demo_cache by blast
  with slab_alloc_null_iff [OF s] show ?thesis
    by auto
qed




section \<open>Reaping\<close>



text \<open>
  The destructor loop of \<open>destroy_slab\<close> continues as long as the address is below the
  slab header, while a slab has only as many buffers as fit entirely.
\<close>

lemma fold_upt_Suc: "fold f [0..<Suc n] m = fold (\<lambda>i. f (Suc i)) [0..<n] (f 0 m)"
proof -
  have "[0..<Suc n] = 0 # map Suc [0..<n]"
    by (simp add: map_Suc_upt upt_conv_Cons del: upt_Suc)
  then show ?thesis
    by (simp add: fold_map o_def del: upt_Suc)
qed

lemma dtor_calls_step:
  fixes A j :: nat
  assumes "0 < A" and "j < 4072"
  shows "(4072 - j + A - 1) div A = Suc ((4072 - (j + A) + A - 1) div A)"
proof -
  have "4072 - j + A - 1 = (4072 - j - 1) + A"
    using assms by simp
  then have "(4072 - j + A - 1) div A = Suc ((4072 - j - 1) div A)"
    using assms(1) by (simp only: div_add_self2)
  moreover have "(4072 - (j + A) + A - 1) div A = (4072 - j - 1) div A"
  proof (cases "j + A \<le> 4072")
    case True
    then have "4072 - (j + A) + A - 1 = 4072 - j - 1"
      using assms(1) by simp
    then show ?thesis
      by simp
  next
    case False
    then show ?thesis
      using assms by simp
  qed
  ultimately show ?thesis
    by simp
qed

lemma slab_addr_less:
  assumes "page_ok p" and "j < 8144"
  shows "p + of_nat j < p + (4072 :: u32) \<longleftrightarrow> j < 4072"
proof -
  have "unat (p + of_nat j) = unat p + j" "unat (p + 4072) = unat p + 4072"
    using unat_add_nat_u32 [of p j] unat_add_u32 [of p 4072] page_ok_bounds [OF assms(1)] assms(2) by simp_all
  then show ?thesis
    by (simp add: word_less_nat_alt)
qed

lemma destroy_buffers_ok:
  assumes p: "page_ok p" and A: "A = unat (alloc_size cc)" "0 < A" "A \<le> 4072"
    and "j < 8144" and "(4072 - j + A - 1) div A \<le> n"
  shows "destroy_buffers (Suc n) cc f (p + 4072) (p + of_nat j) m =
    Inr (fold (\<lambda>i. f (p + of_nat (j + i * A)) (obj_size cc)) [0..<(4072 - j + A - 1) div A] m)"
  using assms(5,6)
proof (induction n arbitrary: j m)
  case 0
  then have "\<not> j < 4072"
    using dtor_calls_step [OF A(2), of j] by auto
  then show ?case
    using slab_addr_less [OF p 0(1)] A(2) by simp
next
  case (Suc n)
  show ?case
  proof (cases "j < 4072")
    case True
    note q = dtor_calls_step [OF A(2) True]
    have next_addr: "p + of_nat j + alloc_size cc = p + of_nat (j + A)"
      by (simp add: A(1) add.assoc)
    have "destroy_buffers (Suc (Suc n)) cc f (p + 4072) (p + of_nat j) m =
        destroy_buffers (Suc n) cc f (p + 4072) (p + of_nat (j + A)) (f (p + of_nat j) (obj_size cc) m)"
      unfolding next_addr [symmetric] using slab_addr_less [OF p Suc.prems(1)] True by simp
    also have "\<dots> = Inr (fold (\<lambda>i. f (p + of_nat (j + A + i * A)) (obj_size cc)) [0..<(4072 - (j + A) + A - 1) div A]
        (f (p + of_nat j) (obj_size cc) m))"
      by (rule Suc.IH) (use True A(3) Suc.prems(2) q in simp_all)
    finally show ?thesis
      unfolding q fold_upt_Suc by (simp add: algebra_simps)
  next
    case False
    then show ?thesis
      using slab_addr_less [OF p Suc.prems(1)] A(2) by simp
  qed
qed

text \<open>
  Claim C19. The loop of \<open>destroy_slab\<close> terminates. It calls the destructor on every
  buffer of the slab in order and, when space is left between the last buffer and
  the slab header, once more on an address that is not a buffer of the slab.
\<close>

theorem destroy_slab_dtor_calls:
  assumes "cache_ok cc" and "page_ok p" and "unat col \<le> unat (max_colour cc)"
  shows "destroy_buffers (Suc SLAB_FUEL) cc f (p + 4072) (p + col) m =
    Inr (fold (\<lambda>b. f b (obj_size cc))
      (buffers cc p col @
        (if unat col + nbuf cc * unat (alloc_size cc) < 4072 then [buffer_at cc p col (nbuf cc)] else [])) m)"
proof -
  let ?A = "unat (alloc_size cc)" and ?c = "unat col" and ?n = "nbuf cc"
  note ok = cache_okD [OF assms(1)]
  define r where "r = 4072 mod ?A"
  have r: "4072 = ?n * ?A + r" "?c \<le> r" "r < ?A"
    using assms(3) ok(2,10) by (simp_all add: nbuf_def r_def)
  define x where "x = (r - ?c + ?A - 1) div ?A"
  have "4072 - ?c + ?A - 1 = (r - ?c + ?A - 1) + ?n * ?A"
    using r ok(2) by simp
  moreover have "(y + ?n * ?A) div ?A = ?n + y div ?A" for y
    using ok(2) by simp
  ultimately have calls: "(4072 - ?c + ?A - 1) div ?A = ?n + x"
    by (simp only: x_def)
  have x: "x = (if ?c + ?n * ?A < 4072 then 1 else 0)"
  proof (cases "?c = r")
    case False
    then have "r - ?c + ?A - 1 = (r - ?c - 1) + ?A" "r - ?c - 1 < ?A"
      using r by simp_all
    moreover have "(y + ?A) div ?A = Suc (y div ?A)" for y
      using ok(2) by (subst div_add_self2) simp_all
    ultimately have "x = 1"
      by (simp only: x_def) simp
    then show ?thesis
      using r False by simp
  qed (use r ok(2) in \<open>simp add: x_def\<close>)
  have "4072 div ?A \<le> 4072 div 4"
    using ok(2) by (rule div_le_mono2 [rotated]) simp
  then have fuel: "?n + x \<le> SLAB_FUEL"
    by (simp add: nbuf_def x SLAB_FUEL_def)
  have "destroy_buffers (Suc SLAB_FUEL) cc f (p + 4072) (p + of_nat ?c) m =
      Inr (fold (\<lambda>i. f (p + of_nat (?c + i * ?A)) (obj_size cc)) [0..<?n + x] m)"
    by (rule destroy_buffers_ok [of p ?A cc ?c SLAB_FUEL f m, unfolded calls]) (use assms(2) fuel r ok(2,3) in simp_all)
  moreover have "fold (\<lambda>i. f (p + of_nat (?c + i * ?A)) (obj_size cc)) is m =
      fold (\<lambda>b. f b (obj_size cc)) (map (buffer_at cc p col) is) m" for "is"
    by (simp add: fold_map o_def buffer_at_def)
  moreover have "map (buffer_at cc p col) [0..<?n + x] =
      buffers cc p col @ (if ?c + ?n * ?A < 4072 then [buffer_at cc p col ?n] else [])"
    by (simp add: x buffers_def)
  ultimately show ?thesis
    by (simp del: destroy_buffers.simps)
qed

theorem destroy_slab_dtor_calls_witness:
  "cache_ok (new_cache 0 [] 3000 0 None None 0) \<and>
    destroy_buffers (Suc SLAB_FUEL) (new_cache 0 [] 3000 0 None None 0) (\<lambda>b n m. m(0 := m 0 + 1))
      (0xc1000000 + 4072) (0xc1000000 + 0) (\<lambda>_. 0) = Inr ((\<lambda>_. 0)(0 := 2))"
proof -
  have ok: "cache_ok (new_cache 0 [] 3000 0 None None 0)"
    by (rule new_cache_ok) (simp_all add: cache_args_def)
  have p: "page_ok 0xc1000000"
    by (simp add: page_ok_def)
  show ?thesis
    using ok destroy_slab_dtor_calls [OF ok p, of 0 "\<lambda>b n m. m(0 := m 0 + 1)" "\<lambda>_. 0"]
    by (simp add: nbuf_def buffers_def new_cache_def Let_def compute_alloc_size_def compute_alignment_def
        ALIGN_END_def ALIGN_START_def SLAB_POISON_def SLAB_RED_ZONE_def)
qed

section \<open>Debugging checks\<close>

lemma check_poison_warns:
  assumes "distinct (map (\<lambda>i. b + of_nat (4 * i)) idxs)"
  shows "\<exists>m' ws'. check_poison b idxs d (m, ws) = (m', ws @ ws') \<and>
    (WriteToFreed b \<in> set ws' \<longleftrightarrow> d = 0 \<and> (\<exists>i \<in> set idxs. m (b + of_nat (4 * i)) \<noteq> SLAB_POISON_DEAD_VALUE)) \<and>
    (\<forall>y. PastEndOfFreed b y \<notin> set ws')"
  using assms
proof (induction idxs arbitrary: d m ws)
  case (Cons i idxs)
  let ?a = "b + of_nat (4 * i)"
  let ?m = "m(?a := SLAB_POISON_ALIVE_VALUE)" and ?bad = "m ?a \<noteq> SLAB_POISON_DEAD_VALUE"
  define w where "w = (if ?bad \<and> d = 0 then [WriteToFreed b] else []) @ (if ?bad \<and> d < 4 then [FreedValue (m ?a) (4 * i)] else [])"
  define d' where "d' = (if ?bad then d + 1 else d)"
  have step: "check_poison b (i # idxs) d (m, ws) = check_poison b idxs d' (?m, ws @ w)"
    by (simp add: w_def d'_def Let_def)
  have upd: "?m (b + of_nat (4 * j)) = m (b + of_nat (4 * j))" if "j \<in> set idxs" for j
  proof -
    have "?a \<notin> (\<lambda>i. b + of_nat (4 * i)) ` set idxs"
      using Cons.prems by (simp del: of_nat_mult)
    then show ?thesis
      using imageI [OF that, of "\<lambda>i. b + of_nat (4 * i)"] by (metis fun_upd_apply)
  qed
  have other: "(\<exists>j \<in> set idxs. ?m (b + of_nat (4 * j)) \<noteq> SLAB_POISON_DEAD_VALUE) =
      (\<exists>j \<in> set idxs. m (b + of_nat (4 * j)) \<noteq> SLAB_POISON_DEAD_VALUE)"
    by (rule bex_cong [OF refl]) (simp add: upd del: fun_upd_apply of_nat_mult)
  obtain m' ws' where ih: "check_poison b idxs d' (?m, ws @ w) = (m', (ws @ w) @ ws')"
    "WriteToFreed b \<in> set ws' \<longleftrightarrow> d' = 0 \<and> (\<exists>j \<in> set idxs. m (b + of_nat (4 * j)) \<noteq> SLAB_POISON_DEAD_VALUE)"
    "\<forall>y. PastEndOfFreed b y \<notin> set ws'"
    using Cons.IH [of d' ?m "ws @ w"] Cons.prems unfolding other by (auto simp del: of_nat_mult fun_upd_apply)
  have "WriteToFreed b \<in> set (w @ ws') \<longleftrightarrow> d = 0 \<and> (\<exists>j \<in> set (i # idxs). m (b + of_nat (4 * j)) \<noteq> SLAB_POISON_DEAD_VALUE)"
    using ih(2) by (cases ?bad) (simp_all add: w_def d'_def del: of_nat_mult)
  moreover have "\<forall>y. PastEndOfFreed b y \<notin> set (w @ ws')"
    using ih(3) by (simp add: w_def)
  ultimately show ?case
    unfolding step ih(1) by (intro exI [of _ m'] exI [of _ "w @ ws'"]) simp
qed simp

text \<open>
  Claim C20. With poisoning, allocating a buffer warns of a write to a freed object exactly
  when a word of the object changed since it was filled with the dead value, and of a
  write past the end of a freed object exactly when red zones are enabled too and the
  word after the object changed.
\<close>

theorem poison_detects_writes:
  assumes "cache_ok cc" and "unat b + unat (alloc_size cc) \<le> 4294967296" and "has_flag cc SLAB_POISON"
  shows "\<exists>ws. warnings (prepare_object cc b s) = warnings s @ ws \<and>
    (WriteToFreed b \<in> set ws \<longleftrightarrow>
      (\<exists>k < unat (obj_size cc) div 4. words s (b + of_nat (4 * k)) \<noteq> SLAB_POISON_DEAD_VALUE)) \<and>
    ((\<exists>y. PastEndOfFreed b y \<in> set ws) \<longleftrightarrow>
      has_flag cc SLAB_RED_ZONE \<and> words s (b + obj_size cc) \<noteq> SLAB_RED_ZONE_VALUE)"
proof -
  let ?n = "unat (obj_size cc) div 4" and ?rz = "b + of_nat (4 * (unat (obj_size cc) div 4))"
  note ok = cache_okD [OF assms(1)]
  have rz: "?rz = b + obj_size cc"
    using ok(11) by simp
  have addr: "unat (b + of_nat (4 * k)) = unat b + 4 * k" if "k < ?n" for k
    by (rule unat_add_nat_u32) (use that assms(2) ok(12) in linarith)
  then have "inj_on (\<lambda>i. b + of_nat (4 * i)) (set [0..<?n])"
    by (intro inj_onI) (metis add_left_cancel atLeastLessThan_iff atLeastLessThan_upt mult_cancel1 zero_neq_numeral)
  then have "distinct (map (\<lambda>i. b + of_nat (4 * i)) [0..<?n])"
    by (simp add: distinct_map del: of_nat_mult)
  from check_poison_warns [OF this, of 0 "words s" "warnings s"]
  obtain m' ws' where cp: "check_poison b [0..<?n] 0 (words s, warnings s) = (m', warnings s @ ws')"
    and w0: "WriteToFreed b \<in> set ws' \<longleftrightarrow>
      0 = (0 :: nat) \<and> (\<exists>i \<in> set [0..<?n]. words s (b + of_nat (4 * i)) \<noteq> SLAB_POISON_DEAD_VALUE)"
    and p: "\<forall>y. PastEndOfFreed b y \<notin> set ws'"
    by blast
  have w: "WriteToFreed b \<in> set ws' \<longleftrightarrow> (\<exists>k < ?n. words s (b + of_nat (4 * k)) \<noteq> SLAB_POISON_DEAD_VALUE)"
    unfolding w0 by (auto simp del: of_nat_mult)
  have m: "m' ?rz = words s ?rz" if "has_flag cc SLAB_RED_ZONE"
  proof -
    have "unat ?rz = unat b + 4 * ?n"
      by (rule unat_add_nat_u32) (use that assms(2) ok(11,13) in auto)
    then have "b + of_nat (4 * i) \<noteq> ?rz" if "i \<in> set [0..<?n]" for i
      using addr [of i] that by (auto simp del: of_nat_mult)
    from check_poison_frame [OF this, of "[0..<?n]" 0 "words s" "warnings s"] show ?thesis
      by (simp add: cp del: of_nat_mult)
  qed
  define ws where "ws = ws' @ (if has_flag cc SLAB_RED_ZONE \<and> words s ?rz \<noteq> SLAB_RED_ZONE_VALUE
    then [PastEndOfFreed b (words s ?rz)] else [])"
  have "warnings (prepare_object cc b s) = warnings s @ ws"
    using assms(3) m by (simp add: prepare_object_def cp ws_def Let_def del: of_nat_mult)
  then show ?thesis
    using w p by (intro exI [of _ ws]) (auto simp: ws_def rz simp del: of_nat_mult)
qed

theorem poison_detects_writes_witness:
  "has_flag (new_cache 0 [] 8 0 None None 3) SLAB_POISON \<and>
    WriteToFreed 0xc1000000 \<in> set (warnings (prepare_object (new_cache 0 [] 8 0 None None 3) 0xc1000000 demo_alloc))"
proof -
  let ?cc = "new_cache 0 [] 8 0 None None 3"
  have ok: "cache_ok ?cc"
    by (rule new_cache_ok) (simp_all add: cache_args_def)
  have obj: "obj_size ?cc = 8"
    by (simp add: new_cache_def Let_def ALIGN_END_def ALIGN_START_def)
  have fl: "has_flag ?cc SLAB_POISON"
    by (simp add: has_flag_def new_cache_def Let_def SLAB_POISON_def)
  have fits: "unat (0xc1000000 :: u32) + unat (alloc_size ?cc) \<le> 4294967296"
    using cache_okD(3) [OF ok] by simp
  have "words demo_alloc (0xc1000000 + of_nat (4 * 0)) \<noteq> SLAB_POISON_DEAD_VALUE"
    by (simp add: demo_alloc_def SLAB_POISON_DEAD_VALUE_def)
  then have "\<exists>k < unat (obj_size ?cc) div 4. words demo_alloc (0xc1000000 + of_nat (4 * k)) \<noteq> SLAB_POISON_DEAD_VALUE"
    by (intro exI [of _ 0]) (simp add: obj)
  then show ?thesis
    using fl poison_detects_writes [OF ok fits fl, of demo_alloc] by auto
qed

end
