(* ===== verification/Pmap.thy ===== *)
theory Pmap
  imports Slab KState
begin

unbundle bit_operations_syntax

text \<open>
  Page tables: \<open>kernel/infrastructure/i686/pmap\<close> and \<open>memory/pages.c\<close>. Page tables,
  page directories and page directory pointer tables are words of the kernel memory
  they share with the page allocator and the slab allocator; an entry is one word
  without Physical Address Extension (PAE) and two words with it. An address space is
  referred to by a number, zero being the initial address space. The registers and
  the invalidations of cached translations are part of the state.
\<close>

section \<open>Data\<close>

definition JINUE_PROT_NONE :: u32 where "JINUE_PROT_NONE = 0"
definition JINUE_PROT_READ :: u32 where "JINUE_PROT_READ = 1"
definition JINUE_PROT_WRITE :: u32 where "JINUE_PROT_WRITE = 2"
definition JINUE_PROT_EXEC :: u32 where "JINUE_PROT_EXEC = 4"
definition JINUE_MAP_NONE :: u32 where "JINUE_MAP_NONE = 0"
definition JINUE_MAP_UNCACHEABLE :: u32 where "JINUE_MAP_UNCACHEABLE = 1"
definition JINUE_MAP_WRITE_COMBINE :: u32 where "JINUE_MAP_WRITE_COMBINE = 2"
definition JINUE_MAP_LARGE_PAGES :: u32 where "JINUE_MAP_LARGE_PAGES = 4"

definition X86_PTE_PRESENT :: u32 where "X86_PTE_PRESENT = 1"
definition X86_PTE_READ_WRITE :: u32 where "X86_PTE_READ_WRITE = 2"
definition X86_PTE_USER :: u32 where "X86_PTE_USER = 4"
definition X86_PTE_PWT :: u32 where "X86_PTE_PWT = 8"
definition X86_PTE_PCD :: u32 where "X86_PTE_PCD = 0x10"
definition X86_PDE_PAGE_SIZE :: u32 where "X86_PDE_PAGE_SIZE = 0x80"
definition X86_PTE_GLOBAL :: u32 where "X86_PTE_GLOBAL = 0x100"
definition X86_PTE_PROT_NONE :: u32 where "X86_PTE_PROT_NONE = 0x400"
definition X86_PTE_NX :: u64 where "X86_PTE_NX = 0x8000000000000000"

definition PAGE_MASK :: u32 where "PAGE_MASK = 0xfff"
definition NOPAE_PAGE_TABLE_PTES :: u32 where "NOPAE_PAGE_TABLE_PTES = 1024"
definition PAE_PAGE_TABLE_PTES :: u32 where "PAE_PAGE_TABLE_PTES = 512"
definition PDPT_ENTRIES :: nat where "PDPT_ENTRIES = 4"
definition LARGE_PAGES_AREA_ADDR :: u32 where "LARGE_PAGES_AREA_ADDR = 0xf4000000"
definition LARGE_PAGES_AREA_SIZE :: u32 where "LARGE_PAGES_AREA_SIZE = 192 * 1024 * 1024"
definition MAPPING_AREA_SIZE :: u32 where "MAPPING_AREA_SIZE = 64 * 1024 * 1024"
definition MAPPING_AREA_ADDR :: u32 where "MAPPING_AREA_ADDR = LARGE_PAGES_AREA_ADDR - MAPPING_AREA_SIZE"
definition MEMORY_ADDR_16MB :: u32 where "MEMORY_ADDR_16MB = 16 * 1024 * 1024"
definition ADDR_4GB :: u64 where "ADDR_4GB = 0x100000000"

datatype cpu_feature =
    CPU_FEATURE_PAE
  | CPU_FEATURE_PSE
  | CPU_FEATURE_PGE
  | CPU_FEATURE_NX
  | CPU_FEATURE_PAT

text \<open>Operations on the processor, in the order they are executed.\<close>

datatype cpu_op =
    Invlpg u32
  | SetCr3 u32
  | SetCr4 u32
  | DisableCaches
  | InvalidateCaches
  | EnableCaches
  | InvalidateAllTlb
  | WriteMsr u32 u64

record addr_space_t =
  as_cr3 :: u32
  top_level :: u32

record pmap_state = alloc_state +
  kernel_page_tables :: u32
  kernel_page_directory :: u32
  entries_per_page_table :: u32
  large_page_size :: u32
  pgtable_format_pae :: bool
  page_frame_number_mask :: u64
  pdpt_cache :: nat
  initial_pdpt :: u32
  addr_spaces :: "nat \<Rightarrow> addr_space_t"
  current_addr_space :: nat
  page_frames :: "u32 list"
  cpu_has_feature :: "cpu_feature \<Rightarrow> bool"
  cr3 :: u32
  cr4 :: u32
  cpu_ops :: "cpu_op list"

definition page_offset_of :: "u32 \<Rightarrow> u32" where "page_offset_of x = x AND PAGE_MASK"
definition page_address_of :: "u32 \<Rightarrow> u32" where "page_address_of x = x AND NOT PAGE_MASK"
definition page_number_of :: "u32 \<Rightarrow> u32" where "page_number_of x = drop_bit 12 x"

section \<open>Entries without PAE\<close>

definition PAGE_TABLE_OFFSET_OF :: "u32 \<Rightarrow> u32 \<Rightarrow> u32" where
  "PAGE_TABLE_OFFSET_OF page_table_entries x = (x div PAGE_SIZE) AND (page_table_entries - 1)"

definition PAGE_DIRECTORY_OFFSET_OF :: "u32 \<Rightarrow> u32 \<Rightarrow> u32" where
  "PAGE_DIRECTORY_OFFSET_OF page_table_entries x =
     (x div (PAGE_SIZE * page_table_entries)) AND (page_table_entries - 1)"

definition nopae_page_table_offset_of :: "u32 \<Rightarrow> u32" where
  "nopae_page_table_offset_of addr = PAGE_TABLE_OFFSET_OF NOPAE_PAGE_TABLE_PTES addr"

definition nopae_page_directory_offset_of :: "u32 \<Rightarrow> u32" where
  "nopae_page_directory_offset_of addr = PAGE_DIRECTORY_OFFSET_OF NOPAE_PAGE_TABLE_PTES addr"

definition nopae_get_pte_with_offset :: "u32 \<Rightarrow> u32 \<Rightarrow> u32" where
  "nopae_get_pte_with_offset pte offset = pte + 4 * offset"

definition filter_pte_flags :: "u64 \<Rightarrow> u32" where
  "filter_pte_flags flags = ucast (flags AND ucast PAGE_MASK)"

definition nopae_set_pte :: "u32 \<Rightarrow> u32 \<Rightarrow> u64 \<Rightarrow> pmap_state \<Rightarrow> pmap_state result" where
  "nopae_set_pte pte paddr flags s =
     bind_ok (assert_that (paddr AND PAGE_MASK = 0) s) (\<lambda>s.
       Inr (s\<lparr>words := (words s)(pte := paddr OR filter_pte_flags flags)\<rparr>))"

definition nopae_get_pte_paddr :: "u32 \<Rightarrow> pmap_state \<Rightarrow> u32" where
  "nopae_get_pte_paddr pte s = words s pte AND NOT PAGE_MASK"

definition nopae_clear_pte :: "u32 \<Rightarrow> pmap_state \<Rightarrow> pmap_state" where
  "nopae_clear_pte pte s = s\<lparr>words := (words s)(pte := 0)\<rparr>"

definition nopae_copy_pte :: "u32 \<Rightarrow> u32 \<Rightarrow> pmap_state \<Rightarrow> pmap_state" where
  "nopae_copy_pte dest src s = s\<lparr>words := (words s)(dest := words s src)\<rparr>"

definition nopae_lookup_page_directory :: "nat \<Rightarrow> pmap_state \<Rightarrow> u32" where
  "nopae_lookup_page_directory addr_space s = top_level (addr_spaces s addr_space)"

section \<open>Entries with PAE\<close>

text \<open>A 64-bit entry is stored with its low word first.\<close>

definition read64 :: "word_mem \<Rightarrow> u32 \<Rightarrow> u64" where
  "read64 m a = ucast (m a) OR push_bit 32 (ucast (m (a + 4)))"

definition write64 :: "u32 \<Rightarrow> u64 \<Rightarrow> word_mem \<Rightarrow> word_mem" where
  "write64 a v m = m(a := ucast v, a + 4 := ucast (drop_bit 32 v))"

definition pdpt_offset_of :: "u32 \<Rightarrow> u32" where
  "pdpt_offset_of addr = drop_bit 30 addr"

definition pae_page_table_offset_of :: "u32 \<Rightarrow> u32" where
  "pae_page_table_offset_of addr = PAGE_TABLE_OFFSET_OF PAE_PAGE_TABLE_PTES addr"

definition pae_page_directory_offset_of :: "u32 \<Rightarrow> u32" where
  "pae_page_directory_offset_of addr = PAGE_DIRECTORY_OFFSET_OF PAE_PAGE_TABLE_PTES addr"

definition pae_get_pte_with_offset :: "u32 \<Rightarrow> u32 \<Rightarrow> u32" where
  "pae_get_pte_with_offset pte offset = pte + 8 * offset"

definition pae_set_pte :: "u32 \<Rightarrow> u64 \<Rightarrow> u64 \<Rightarrow> pmap_state \<Rightarrow> pmap_state result" where
  "pae_set_pte pte paddr flags s =
     bind_ok (assert_that (paddr AND NOT (page_frame_number_mask s) = 0) s) (\<lambda>s.
       Inr (s\<lparr>words := write64 pte (paddr OR flags) (words s)\<rparr>))"

definition pae_get_pte_paddr :: "u32 \<Rightarrow> pmap_state \<Rightarrow> u64" where
  "pae_get_pte_paddr pte s = read64 (words s) pte AND page_frame_number_mask s"

definition pae_clear_pte :: "u32 \<Rightarrow> pmap_state \<Rightarrow> pmap_state" where
  "pae_clear_pte pte s = s\<lparr>words := write64 pte 0 (words s)\<rparr>"

definition pae_copy_pte :: "u32 \<Rightarrow> u32 \<Rightarrow> pmap_state \<Rightarrow> pmap_state" where
  "pae_copy_pte dest src s = s\<lparr>words := write64 dest (read64 (words s) src) (words s)\<rparr>"

section \<open>Entries\<close>

definition get_pte_with_offset :: "pmap_state \<Rightarrow> u32 \<Rightarrow> u32 \<Rightarrow> u32" where
  "get_pte_with_offset s pte offset =
     (if pgtable_format_pae s then pae_get_pte_with_offset pte offset else nopae_get_pte_with_offset pte offset)"

definition page_table_offset_of :: "pmap_state \<Rightarrow> u32 \<Rightarrow> u32" where
  "page_table_offset_of s addr =
     (if pgtable_format_pae s then pae_page_table_offset_of addr else nopae_page_table_offset_of addr)"

definition page_directory_offset_of :: "pmap_state \<Rightarrow> u32 \<Rightarrow> u32" where
  "page_directory_offset_of s addr =
     (if pgtable_format_pae s then pae_page_directory_offset_of addr else nopae_page_directory_offset_of addr)"

definition copy_pte :: "u32 \<Rightarrow> u32 \<Rightarrow> pmap_state \<Rightarrow> pmap_state" where
  "copy_pte dest src s = (if pgtable_format_pae s then pae_copy_pte dest src s else nopae_copy_pte dest src s)"

definition copy_ptes :: "u32 \<Rightarrow> u32 \<Rightarrow> nat \<Rightarrow> pmap_state \<Rightarrow> pmap_state" where
  "copy_ptes dest src n s =
     fold (\<lambda>idx s. copy_pte (get_pte_with_offset s dest (of_nat idx)) (get_pte_with_offset s src (of_nat idx)) s)
       [0..<n] s"

definition set_pte :: "u32 \<Rightarrow> u64 \<Rightarrow> u64 \<Rightarrow> pmap_state \<Rightarrow> pmap_state result" where
  "set_pte pte paddr flags s =
     (if pgtable_format_pae s then pae_set_pte pte paddr flags s else nopae_set_pte pte (ucast paddr) flags s)"

definition clear_pte :: "u32 \<Rightarrow> pmap_state \<Rightarrow> pmap_state" where
  "clear_pte pte s = (if pgtable_format_pae s then pae_clear_pte pte s else nopae_clear_pte pte s)"

definition clear_ptes :: "u32 \<Rightarrow> nat \<Rightarrow> pmap_state \<Rightarrow> pmap_state" where
  "clear_ptes pte n s = fold (\<lambda>idx s. clear_pte (get_pte_with_offset s pte (of_nat idx)) s) [0..<n] s"

definition get_pte_paddr :: "u32 \<Rightarrow> pmap_state \<Rightarrow> u64" where
  "get_pte_paddr pte s =
     (if pgtable_format_pae s then pae_get_pte_paddr pte s else ucast (nopae_get_pte_paddr pte s))"

definition pte_is_present :: "u32 \<Rightarrow> pmap_state \<Rightarrow> bool" where
  "pte_is_present pte s = (words s pte AND (X86_PTE_PRESENT OR X86_PTE_PROT_NONE) \<noteq> 0)"

section \<open>Page frames owned by the kernel\<close>

definition PAGE_NUMBER64 :: "u64 \<Rightarrow> u64" where "PAGE_NUMBER64 x = x div 4096"

text \<open>The virtual address of a page frame of the kernel; a null pointer past the array.\<close>

definition lookup_page_frame_address :: "u64 \<Rightarrow> pmap_state \<Rightarrow> u32" where
  "lookup_page_frame_address paddr s =
     (let entry_index = unat (PAGE_NUMBER64 paddr)
      in if entry_index \<ge> length (page_frames s) then 0 else page_frames s ! entry_index)"

record acpi_addr_range =
  range_addr :: u64
  range_size :: u64
  range_type :: u32

definition ACPI_ADDR_RANGE_MEMORY :: u32 where "ACPI_ADDR_RANGE_MEMORY = 1"

primrec find_top_address_for_kernel :: "acpi_addr_range list \<Rightarrow> u64 \<Rightarrow> u64" where
  "find_top_address_for_kernel [] memory_top = memory_top"
| "find_top_address_for_kernel (entry # rest) memory_top =
     (if range_type entry \<noteq> ACPI_ADDR_RANGE_MEMORY \<or> range_addr entry \<ge> ADDR_4GB
      then find_top_address_for_kernel rest memory_top
      else
        (let entry_top = ALIGN_START (range_addr entry + range_size entry) 4096;
             entry_top = (if entry_top \<ge> ADDR_4GB then ADDR_4GB else entry_top)
         in find_top_address_for_kernel rest (if entry_top > memory_top then entry_top else memory_top)))"

definition PHYS_TO_VIRT_AT_16MB :: "u32 \<Rightarrow> u32" where
  "PHYS_TO_VIRT_AT_16MB x = x + (ALLOC_BASE - MEMORY_ADDR_16MB)"

text \<open>Each page frame mapped at boot; an index past the array is an access out of bounds.\<close>

primrec fill_page_frames :: "u32 list \<Rightarrow> u32 list \<Rightarrow> u32 list result" where
  "fill_page_frames [] frames = Inr frames"
| "fill_page_frames (addr # addrs) frames =
     (if unat (page_number_of addr) < length frames
      then fill_page_frames addrs (frames[unat (page_number_of addr) := PHYS_TO_VIRT_AT_16MB addr])
      else Inl BadAccess)"

definition initialize_page_frames_array ::
    "acpi_addr_range list \<Rightarrow> boot_alloc_t \<Rightarrow> pmap_state \<Rightarrow> (boot_alloc_t \<times> pmap_state) result" where
  "initialize_page_frames_array addr_map b s =
     (let entries_per_page = 1024 :: u32;
          memory_top = find_top_address_for_kernel addr_map 0;
          num_pages = ucast ((memory_top + 4096 - 1) div 4096) :: u32;
          array_entries = ALIGN_END num_pages entries_per_page;
          array_pages = array_entries div entries_per_page
      in bind_ok (boot_page_alloc_n (unat array_pages) b s) (\<lambda>(_, b, s).
           let top_at_16mb = MEMORY_ADDR_16MB + BOOT_SIZE_AT_16MB;
               addrs = map (\<lambda>k. MEMORY_ADDR_16MB + of_nat k * PAGE_SIZE)
                 [0..<unat (top_at_16mb - MEMORY_ADDR_16MB) div 4096]
           in bind_ok (fill_page_frames addrs (replicate (unat array_entries) 0)) (\<lambda>frames.
                Inr (b, s\<lparr>page_frames := frames\<rparr>))))"

section \<open>Kernel mappings\<close>

definition lookup_kernel_page_table_entry :: "u32 \<Rightarrow> pmap_state \<Rightarrow> u32 result" where
  "lookup_kernel_page_table_entry addr s =
     bind_ok (assert_that (is_kernel_pointer addr) s) (\<lambda>s.
       Inr (get_pte_with_offset s (kernel_page_tables s) (page_number_of (addr - JINUE_KLIMIT))))"

definition lookup_kernel_page_directory_entry :: "u32 \<Rightarrow> pmap_state \<Rightarrow> u32 result" where
  "lookup_kernel_page_directory_entry addr s =
     bind_ok (assert_that (is_kernel_pointer addr) s) (\<lambda>s.
       Inr (get_pte_with_offset s (kernel_page_directory s)
         (page_number_of (addr - JINUE_KLIMIT) div entries_per_page_table s)))"

definition machine_lookup_kernel_paddr :: "u32 \<Rightarrow> pmap_state \<Rightarrow> u64 result" where
  "machine_lookup_kernel_paddr addr s =
     bind_ok (assert_that (page_offset_of addr = 0) s) (\<lambda>s.
     bind_ok (lookup_kernel_page_table_entry addr s) (\<lambda>pte.
     bind_ok (assert_that (pte \<noteq> 0 \<and> pte_is_present pte s) s) (\<lambda>s. Inr (get_pte_paddr pte s))))"

definition machine_large_page_size :: "pmap_state \<Rightarrow> u32" where
  "machine_large_page_size s = large_page_size s"

definition map_arch_page_flags :: "u32 \<Rightarrow> u32 \<Rightarrow> pmap_state \<Rightarrow> u64" where
  "map_arch_page_flags prot flags s =
     (if prot AND (JINUE_PROT_READ OR JINUE_PROT_WRITE OR JINUE_PROT_EXEC) = 0
      then ucast X86_PTE_PROT_NONE
      else
        (let mapped_flags = X86_PTE_PRESENT :: u32;
             mapped_flags = (if prot AND JINUE_PROT_WRITE \<noteq> 0 then mapped_flags OR X86_PTE_READ_WRITE else mapped_flags);
             mapped_flags =
               (if prot AND JINUE_PROT_EXEC = 0
                then ucast (scast mapped_flags OR (if cpu_has_feature s CPU_FEATURE_NX then X86_PTE_NX else 0))
                else mapped_flags);
             mapped_flags =
               (if flags AND JINUE_MAP_UNCACHEABLE \<noteq> 0 then mapped_flags OR (X86_PTE_PCD OR X86_PTE_PWT) else mapped_flags);
             mapped_flags =
               (if flags AND JINUE_MAP_WRITE_COMBINE \<noteq> 0
                then mapped_flags OR ((if cpu_has_feature s CPU_FEATURE_PAT then 0 else X86_PTE_PCD) OR X86_PTE_PWT)
                else mapped_flags)
         in scast mapped_flags))"

definition invlpg :: "u32 \<Rightarrow> pmap_state \<Rightarrow> pmap_state" where
  "invlpg addr s = s\<lparr>cpu_ops := cpu_ops s @ [Invlpg addr]\<rparr>"

text \<open>
  The loops over the pages of a range. The fuel is the number of steps the range has; a
  loop whose offset wraps around without reaching the size runs out of it.
\<close>

primrec kernel_pages_loop ::
    "nat \<Rightarrow> (u32 \<Rightarrow> pmap_state \<Rightarrow> pmap_state result) \<Rightarrow> u32 \<Rightarrow> u32 \<Rightarrow> u32 \<Rightarrow> u32 \<Rightarrow> pmap_state \<Rightarrow> pmap_state result" where
  "kernel_pages_loop 0 f addr step n offset s = Inl OutOfFuel"
| "kernel_pages_loop (Suc k) f addr step n offset s =
     (if offset < n
      then bind_ok (f offset s) (\<lambda>s. kernel_pages_loop k f addr step n (offset + step) (invlpg (addr + offset) s))
      else Inr s)"

definition loop_fuel :: "u32 \<Rightarrow> u32 \<Rightarrow> nat" where
  "loop_fuel step n = Suc ((unat n + unat step - 1) div unat step)"

definition has_large_pages :: "pmap_state \<Rightarrow> bool" where
  "has_large_pages s = (cpu_has_feature s CPU_FEATURE_PAE \<or> cpu_has_feature s CPU_FEATURE_PSE)"

definition machine_map_kernel :: "u32 \<Rightarrow> u32 \<Rightarrow> u64 \<Rightarrow> u32 \<Rightarrow> u32 \<Rightarrow> pmap_state \<Rightarrow> pmap_state result" where
  "machine_map_kernel addr n paddr prot flags s =
     (let pte_flags = map_arch_page_flags prot flags s OR ucast X86_PTE_GLOBAL
      in if has_large_pages s \<and> addr \<ge> LARGE_PAGES_AREA_ADDR then
           bind_ok (assert_that (addr AND (large_page_size s - 1) = 0) s) (\<lambda>s.
           bind_ok (lookup_kernel_page_directory_entry addr s) (\<lambda>pte.
             kernel_pages_loop (loop_fuel (large_page_size s) n)
               (\<lambda>offset s. set_pte (get_pte_with_offset s pte (offset div large_page_size s)) (paddr + ucast offset)
                  (pte_flags OR ucast X86_PDE_PAGE_SIZE) s)
               addr (large_page_size s) n 0 s))
         else
           bind_ok (assert_that (page_offset_of addr = 0) s) (\<lambda>s.
           bind_ok (lookup_kernel_page_table_entry addr s) (\<lambda>pte.
             kernel_pages_loop (loop_fuel PAGE_SIZE n)
               (\<lambda>offset s. set_pte (get_pte_with_offset s pte (offset div PAGE_SIZE)) (paddr + ucast offset) pte_flags s)
               addr PAGE_SIZE n 0 s)))"

definition machine_unmap_kernel :: "u32 \<Rightarrow> u32 \<Rightarrow> pmap_state \<Rightarrow> pmap_state result" where
  "machine_unmap_kernel addr n s =
     (if has_large_pages s \<and> addr \<ge> LARGE_PAGES_AREA_ADDR then
        bind_ok (assert_that (addr AND (large_page_size s - 1) = 0) s) (\<lambda>s.
        bind_ok (lookup_kernel_page_directory_entry addr s) (\<lambda>pte.
          kernel_pages_loop (loop_fuel (large_page_size s) n)
            (\<lambda>offset s. Inr (clear_pte (get_pte_with_offset s pte (offset div large_page_size s)) s))
            addr (large_page_size s) n 0 s))
      else
        bind_ok (assert_that (page_offset_of addr = 0) s) (\<lambda>s.
        bind_ok (lookup_kernel_page_table_entry addr s) (\<lambda>pte.
          kernel_pages_loop (loop_fuel PAGE_SIZE n)
            (\<lambda>offset s. Inr (clear_pte (get_pte_with_offset s pte (offset div PAGE_SIZE)) s))
            addr PAGE_SIZE n 0 s)))"

section \<open>Page directories\<close>

definition pae_lookup_page_directory ::
    "nat \<Rightarrow> u32 \<Rightarrow> bool \<Rightarrow> bool \<Rightarrow> pmap_state \<Rightarrow> (u32 \<times> bool \<times> pmap_state) result" where
  "pae_lookup_page_directory addr_space addr create_as_needed must_reload_cr3 s =
     (let pdpte = top_level (addr_spaces s addr_space) + 8 * pdpt_offset_of addr
      in if pte_is_present pdpte s
         then Inr (lookup_page_frame_address (pae_get_pte_paddr pdpte s) s, must_reload_cr3, s)
         else if \<not> create_as_needed then Inr (0, must_reload_cr3, s)
         else
           (let (page_directory, s) = page_alloc s
            in if page_directory = 0 then Inr (0, must_reload_cr3, s)
               else
                 (let s = clear_page page_directory s
                  in bind_ok (machine_lookup_kernel_paddr page_directory s) (\<lambda>paddr.
                     bind_ok (pae_set_pte pdpte paddr (ucast X86_PTE_PRESENT) s) (\<lambda>s.
                       Inr (page_directory, True, s))))))"

definition lookup_page_directory ::
    "nat \<Rightarrow> u32 \<Rightarrow> bool \<Rightarrow> bool \<Rightarrow> pmap_state \<Rightarrow> (u32 \<times> bool \<times> pmap_state) result" where
  "lookup_page_directory addr_space addr create_as_needed must_reload_cr3 s =
     (if pgtable_format_pae s
      then pae_lookup_page_directory addr_space addr create_as_needed must_reload_cr3 s
      else Inr (nopae_lookup_page_directory addr_space s, must_reload_cr3, s))"

definition lookup_userspace_page_table ::
    "nat \<Rightarrow> u32 \<Rightarrow> bool \<Rightarrow> bool \<Rightarrow> pmap_state \<Rightarrow> (u32 \<times> bool \<times> pmap_state) result" where
  "lookup_userspace_page_table addr_space addr create_as_needed must_reload_cr3 s =
     bind_ok (assert_that (page_offset_of addr = 0) s) (\<lambda>s.
     bind_ok (assert_that (is_userspace_pointer addr) s) (\<lambda>s.
     bind_ok (lookup_page_directory addr_space addr create_as_needed must_reload_cr3 s)
       (\<lambda>(page_directory, must_reload_cr3, s).
       if page_directory = 0 then Inr (0, must_reload_cr3, s)
       else
         (let pde = get_pte_with_offset s page_directory (page_directory_offset_of s addr)
          in if pte_is_present pde s
             then Inr (lookup_page_frame_address (get_pte_paddr pde s) s, must_reload_cr3, s)
             else if \<not> create_as_needed then Inr (0, must_reload_cr3, s)
             else
               (let (page_table, s) = page_alloc s
                in if page_table = 0 then Inr (0, must_reload_cr3, s)
                   else
                     (let s = clear_page page_table s;
                          flags = X86_PTE_READ_WRITE OR X86_PTE_PRESENT;
                          flags = (if is_userspace_pointer addr then flags OR X86_PTE_USER else flags)
                      in bind_ok (machine_lookup_kernel_paddr page_table s) (\<lambda>paddr.
                         bind_ok (set_pte pde paddr (ucast flags) s) (\<lambda>s.
                           Inr (page_table, must_reload_cr3, s)))))))))"

section \<open>User space mappings\<close>

primrec map_userspace_loop ::
    "nat \<Rightarrow> nat \<Rightarrow> u32 \<Rightarrow> u32 \<Rightarrow> u64 \<Rightarrow> u64 \<Rightarrow> bool \<Rightarrow> u32 \<Rightarrow> u32 \<Rightarrow> u32 \<Rightarrow> bool \<Rightarrow>
      pmap_state \<Rightarrow> (bool \<times> bool \<times> pmap_state) result" where
  "map_userspace_loop 0 as addr n paddr pte_flags needs_invalidation offset pte pte_index must_reload_cr3 s =
     Inl OutOfFuel"
| "map_userspace_loop (Suc k) as addr n paddr pte_flags needs_invalidation offset pte pte_index must_reload_cr3 s =
     (if \<not> offset < n then Inr (True, must_reload_cr3, s)
      else
        bind_ok
          (if pte_index \<ge> entries_per_page_table s
           then bind_ok (lookup_userspace_page_table as (addr + offset) True must_reload_cr3 s)
                  (\<lambda>(pte, must_reload_cr3, s). Inr (pte, 0, must_reload_cr3, s))
           else Inr (pte, pte_index, must_reload_cr3, s))
          (\<lambda>(pte, pte_index, must_reload_cr3, s).
            if pte = 0 then Inr (False, must_reload_cr3, s)
            else
              bind_ok (set_pte (get_pte_with_offset s pte pte_index) (paddr + ucast offset) pte_flags s) (\<lambda>s.
                let s = (if needs_invalidation \<and> \<not> must_reload_cr3 then invlpg (addr + offset) s else s)
                in map_userspace_loop k as addr n paddr pte_flags needs_invalidation
                     (offset + PAGE_SIZE) pte (pte_index + 1) must_reload_cr3 s)))"

definition set_cr3 :: "u32 \<Rightarrow> pmap_state \<Rightarrow> pmap_state" where
  "set_cr3 v s = s\<lparr>cr3 := v, cpu_ops := cpu_ops s @ [SetCr3 v]\<rparr>"

definition reload_cr3 :: "pmap_state \<Rightarrow> pmap_state" where
  "reload_cr3 s = set_cr3 (cr3 s) s"

definition machine_map_userspace ::
    "nat \<Rightarrow> u32 \<Rightarrow> u32 \<Rightarrow> u64 \<Rightarrow> u32 \<Rightarrow> u32 \<Rightarrow> pmap_state \<Rightarrow> (bool \<times> pmap_state) result" where
  "machine_map_userspace as addr n paddr prot flags s =
     bind_ok (assert_that (page_offset_of addr = 0) s) (\<lambda>s.
       let needs_invalidation = (cr3 s = as_cr3 (addr_spaces s as));
           pte_index = page_table_offset_of s addr
       in bind_ok (lookup_userspace_page_table as addr True False s) (\<lambda>(pte, must_reload_cr3, s).
            if pte = 0 then Inr (False, s)
            else
              bind_ok (map_userspace_loop (loop_fuel PAGE_SIZE n) as addr n paddr
                  (map_arch_page_flags prot flags s OR ucast X86_PTE_USER) needs_invalidation
                  0 pte pte_index must_reload_cr3 s)
                (\<lambda>(ok, must_reload_cr3, s).
                  Inr (ok, if ok \<and> needs_invalidation \<and> must_reload_cr3 then reload_cr3 s else s))))"

section \<open>Address spaces\<close>

definition with_alloc :: "(alloc_state \<Rightarrow> ('r \<times> alloc_state) result) \<Rightarrow> pmap_state \<Rightarrow> ('r \<times> pmap_state) result" where
  "with_alloc f s =
     bind_ok (f (alloc_state.truncate s)) (\<lambda>(r, a).
       Inr (r, s\<lparr>words := words a, head_page := head_page a, page_count := page_count a,
                 caches := caches a, slabs := slabs a, warnings := warnings a\<rparr>))"

definition clone_first_kernel_page_directory :: "pmap_state \<Rightarrow> (u32 \<times> pmap_state) result" where
  "clone_first_kernel_page_directory s =
     bind_ok
       (if pgtable_format_pae s
        then bind_ok (pae_lookup_page_directory 0 JINUE_KLIMIT False False s) (\<lambda>(pd, _, s). Inr (pd, s))
        else Inr (nopae_lookup_page_directory 0 s, s))
       (\<lambda>(pd_template, s).
     bind_ok (assert_that (pd_template \<noteq> 0) s) (\<lambda>s.
       let klimit_offset = page_directory_offset_of s JINUE_KLIMIT
       in if klimit_offset = 0 then Inr (pd_template, s)
          else
            (let (page_directory, s) = page_alloc s
             in if page_directory = 0 then Inr (0, s)
                else
                  (let s = clear_ptes page_directory (unat klimit_offset) s;
                       s = copy_ptes (get_pte_with_offset s page_directory klimit_offset)
                             (get_pte_with_offset s pd_template klimit_offset)
                             (unat (entries_per_page_table s - klimit_offset)) s
                   in Inr (page_directory, s)))))"

definition free_first_kernel_page_directory :: "u32 \<Rightarrow> pmap_state \<Rightarrow> pmap_state" where
  "free_first_kernel_page_directory page_directory s =
     (if page_directory \<noteq> 0 \<and> page_directory_offset_of s JINUE_KLIMIT \<noteq> 0
      then page_free page_directory s else s)"

definition clear_pdpt :: "u32 \<Rightarrow> pmap_state \<Rightarrow> pmap_state" where
  "clear_pdpt pdpt s = fold (\<lambda>idx. pae_clear_pte (pdpt + 8 * of_nat idx)) [0..<PDPT_ENTRIES] s"

definition pae_create_addr_space :: "nat \<Rightarrow> u32 \<Rightarrow> pmap_state \<Rightarrow> (bool \<times> pmap_state) result" where
  "pae_create_addr_space as first_page_directory s =
     bind_ok (with_alloc (slab_cache_alloc (pdpt_cache s)) s) (\<lambda>(pdpt, s).
       if pdpt = 0 then Inr (False, s)
       else
         (let s = clear_pdpt pdpt s; klimit_offset = pdpt_offset_of JINUE_KLIMIT
          in bind_ok (machine_lookup_kernel_paddr first_page_directory s) (\<lambda>paddr.
             bind_ok (pae_set_pte (pdpt + 8 * klimit_offset) paddr (ucast X86_PTE_PRESENT) s) (\<lambda>s.
               let s = fold (\<lambda>idx s. pae_copy_pte (pdpt + 8 * of_nat idx) (initial_pdpt s + 8 * of_nat idx) s)
                         [unat klimit_offset + 1..<PDPT_ENTRIES] s
               in bind_ok (machine_lookup_kernel_paddr (page_address_of pdpt) s) (\<lambda>pdpt_page_paddr.
                    let pdpt_paddr = pdpt_page_paddr OR ucast (page_offset_of pdpt)
                    in Inr (True, s\<lparr>addr_spaces := (addr_spaces s)(as :=
                          \<lparr>as_cr3 = ucast pdpt_paddr, top_level = pdpt\<rparr>)\<rparr>))))))"

definition nopae_create_addr_space :: "nat \<Rightarrow> u32 \<Rightarrow> pmap_state \<Rightarrow> pmap_state result" where
  "nopae_create_addr_space as page_directory s =
     bind_ok (machine_lookup_kernel_paddr page_directory s) (\<lambda>paddr.
       Inr (s\<lparr>addr_spaces := (addr_spaces s)(as := \<lparr>as_cr3 = ucast paddr, top_level = page_directory\<rparr>)\<rparr>))"

definition pmap_create_addr_space :: "nat \<Rightarrow> pmap_state \<Rightarrow> (bool \<times> pmap_state) result" where
  "pmap_create_addr_space as s =
     bind_ok (clone_first_kernel_page_directory s) (\<lambda>(page_directory, s).
       if page_directory = 0 then Inr (False, s)
       else if \<not> pgtable_format_pae s
         then bind_ok (nopae_create_addr_space as page_directory s) (\<lambda>s. Inr (True, s))
       else
         bind_ok (pae_create_addr_space as page_directory s) (\<lambda>(retval, s).
           Inr (retval, if retval then s else free_first_kernel_page_directory page_directory s)))"

definition destroy_page_directory :: "u32 \<Rightarrow> u32 \<Rightarrow> pmap_state \<Rightarrow> pmap_state" where
  "destroy_page_directory page_directory last_index s =
     page_free page_directory
       (fold (\<lambda>idx s. let pte = get_pte_with_offset s page_directory (of_nat idx)
                     in if pte_is_present pte s
                        then page_free (lookup_page_frame_address (get_pte_paddr pte s) s) s else s)
         [0..<unat last_index] s)"

definition nopae_destroy_addr_space :: "nat \<Rightarrow> pmap_state \<Rightarrow> pmap_state" where
  "nopae_destroy_addr_space as s =
     destroy_page_directory (top_level (addr_spaces s as)) (nopae_page_directory_offset_of JINUE_KLIMIT) s"

definition pae_destroy_addr_space :: "nat \<Rightarrow> pmap_state \<Rightarrow> pmap_state result" where
  "pae_destroy_addr_space as s =
     (let pdpt = top_level (addr_spaces s as);
          s = fold (\<lambda>idx s. let pdpte = pdpt + 8 * of_nat idx
                in if pte_is_present pdpte s
                   then destroy_page_directory (lookup_page_frame_address (pae_get_pte_paddr pdpte s) s)
                          (entries_per_page_table s) s
                   else s)
              [0..<unat (pdpt_offset_of JINUE_KLIMIT)] s;
          klimit_offset = pae_page_directory_offset_of JINUE_KLIMIT
      in bind_ok
           (if klimit_offset > 0 then
              (let pdpte = pdpt + 8 * pdpt_offset_of JINUE_KLIMIT
               in bind_ok (assert_that (pte_is_present pdpte s) s) (\<lambda>s.
                    Inr (destroy_page_directory (lookup_page_frame_address (pae_get_pte_paddr pdpte s) s)
                      klimit_offset s)))
            else Inr s)
           (\<lambda>s. bind_ok (with_alloc (\<lambda>a. Inr ((), slab_cache_free pdpt a)) s) (\<lambda>(_, s). Inr s)))"

definition pmap_destroy_addr_space :: "nat \<Rightarrow> pmap_state \<Rightarrow> pmap_state result" where
  "pmap_destroy_addr_space as s =
     bind_ok (assert_that (as \<noteq> 0) s) (\<lambda>s.
     bind_ok (assert_that (as \<noteq> current_addr_space s) s) (\<lambda>s.
       if pgtable_format_pae s then pae_destroy_addr_space as s else Inr (nopae_destroy_addr_space as s)))"

definition pmap_switch_addr_space :: "nat \<Rightarrow> pmap_state \<Rightarrow> pmap_state" where
  "pmap_switch_addr_space as s = (set_cr3 (as_cr3 (addr_spaces s as)) s)\<lparr>current_addr_space := as\<rparr>"

definition pae_create_pdpt_cache :: "u32 \<Rightarrow> pmap_state \<Rightarrow> pmap_state result" where
  "pae_create_pdpt_cache dcache s =
     bind_ok (with_alloc (\<lambda>a. bind_ok
         (slab_cache_init dcache (pdpt_cache s) ''pae_pdpt'' 32 32 None None 0 a) (\<lambda>a. Inr ((), a))) s)
       (\<lambda>(_, s). Inr s)"

section \<open>Initialization\<close>

definition PAT_UC :: u64 where "PAT_UC = 0"
definition PAT_WC :: u64 where "PAT_WC = 1"
definition PAT_WB :: u64 where "PAT_WB = 6"
definition PAT_UC_MINUS :: u64 where "PAT_UC_MINUS = 7"
definition MSR_IA32_PAT :: u32 where "MSR_IA32_PAT = 0x277"
definition X86_CR4_PGE :: u32 where "X86_CR4_PGE = 0x80"

definition cpu_do :: "cpu_op \<Rightarrow> pmap_state \<Rightarrow> pmap_state" where
  "cpu_do x s = s\<lparr>cpu_ops := cpu_ops s @ [x]\<rparr>"

definition initialize_pat :: "pmap_state \<Rightarrow> pmap_state" where
  "initialize_pat s =
     (if \<not> cpu_has_feature s CPU_FEATURE_PAT then s
      else
        (let s = cpu_do DisableCaches s;
             s = cpu_do InvalidateAllTlb s;
             patval = push_bit 0 PAT_WB OR push_bit 8 PAT_WC OR push_bit 16 PAT_UC_MINUS OR push_bit 24 PAT_UC OR
               push_bit 32 PAT_WB OR push_bit 40 PAT_WC OR push_bit 48 PAT_UC_MINUS OR push_bit 56 PAT_UC;
             s = cpu_do (WriteMsr MSR_IA32_PAT patval) s;
             s = cpu_do InvalidateCaches s;
             s = cpu_do InvalidateAllTlb s
         in cpu_do EnableCaches s))"

record bootinfo_t =
  page_tables :: u32
  page_directory :: u32
  boot_cr3 :: u32
  acpi_addr_map :: "acpi_addr_range list"

definition pmap_init :: "nat \<Rightarrow> bootinfo_t \<Rightarrow> pmap_state \<Rightarrow> pmap_state" where
  "pmap_init cpu_phys_addr_width bootinfo s =
     (let s = s\<lparr>kernel_page_tables := page_tables bootinfo, kernel_page_directory := page_directory bootinfo\<rparr>;
          pae = cpu_has_feature s CPU_FEATURE_PAE;
          s = s\<lparr>addr_spaces := (addr_spaces s)(0 := (addr_spaces s 0)\<lparr>as_cr3 := boot_cr3 bootinfo\<rparr>),
                pgtable_format_pae := pae\<rparr>;
          s = (if pae
               then s\<lparr>addr_spaces := (addr_spaces s)(0 := (addr_spaces s 0)\<lparr>top_level :=
                        PHYS_TO_VIRT_AT_16MB (boot_cr3 bootinfo)\<rparr>), large_page_size := 2 * 1024 * 1024\<rparr>
               else s\<lparr>addr_spaces := (addr_spaces s)(0 := (addr_spaces s 0)\<lparr>top_level := page_directory bootinfo\<rparr>),
                      large_page_size := (if cpu_has_feature s CPU_FEATURE_PSE then 4 * 1024 * 1024 else 4 * 1024)\<rparr>);
          s = s\<lparr>entries_per_page_table := (if pae then PAE_PAGE_TABLE_PTES else NOPAE_PAGE_TABLE_PTES),
                page_frame_number_mask := (push_bit cpu_phys_addr_width 1 - 1) AND NOT (ucast PAGE_MASK)\<rparr>;
          s = initialize_pat s
      in if cpu_has_feature s CPU_FEATURE_PGE
         then cpu_do (SetCr4 (cr4 s OR X86_CR4_PGE)) (s\<lparr>cr4 := cr4 s OR X86_CR4_PGE\<rparr>)
         else s)"

end
