(* ===== verification/PageTables.thy ===== *)
theory PageTables
  imports Pmap SlabProps
begin

unbundle bit_operations_syntax

text \<open>
  Tables of entries in memory: reading, writing and clearing the entries of a page,
  for both formats, and the position of an address in the tables.
\<close>

section \<open>Formats\<close>

definition num_entries :: "pmap_state \<Rightarrow> nat" where
  "num_entries s = (if pgtable_format_pae s then 512 else 1024)"

text \<open>The address width is at least 32 bits, and the bits above it are not part of a frame.\<close>

definition fmt_ok :: "pmap_state \<Rightarrow> bool" where
  "fmt_ok s \<longleftrightarrow> unat (entries_per_page_table s) = num_entries s \<and>
     (\<exists>w. 32 \<le> w \<and> w \<le> 52 \<and> page_frame_number_mask s = (push_bit w 1 - 1) AND NOT (ucast PAGE_MASK))"

definition page_al :: "u32 \<Rightarrow> bool" where
  "page_al p \<longleftrightarrow> unat p mod 4096 = 0"

definition slot :: "pmap_state \<Rightarrow> u32 \<Rightarrow> nat \<Rightarrow> u32" where
  "slot s p i = get_pte_with_offset s p (of_nat i)"

definition pte_val :: "pmap_state \<Rightarrow> u32 \<Rightarrow> u64" where
  "pte_val s a = (if pgtable_format_pae s then read64 (words s) a else ucast (words s a))"

abbreviation entry :: "pmap_state \<Rightarrow> u32 \<Rightarrow> nat \<Rightarrow> u64" where
  "entry s p i \<equiv> pte_val s (slot s p i)"

definition present :: "u64 \<Rightarrow> bool" where
  "present v \<longleftrightarrow> v AND 0x401 \<noteq> 0"

definition frame :: "pmap_state \<Rightarrow> u64 \<Rightarrow> u64" where
  "frame s v = (if pgtable_format_pae s then v AND page_frame_number_mask s else v AND 0xfffff000)"

lemma page_al_bound:
  assumes "page_al p"
  shows "unat p + 4096 \<le> 4294967296"
proof -
  obtain k where k: "unat p = 4096 * k"
    using assms by (auto simp: page_al_def)
  have "unat p < 4294967296"
    by (rule unat_u32_less)
  then show ?thesis
    using k by simp
qed

lemma unat_slot:
  assumes "page_al p" and "i < num_entries s"
  shows "unat (slot s p i) = unat p + (if pgtable_format_pae s then 8 else 4) * i"
proof -
  let ?n = "(if pgtable_format_pae s then 8 else 4) * i"
  have "slot s p i = p + of_nat ?n"
    by (simp add: slot_def get_pte_with_offset_def pae_get_pte_with_offset_def nopae_get_pte_with_offset_def)
  moreover have "unat p + ?n < 4294967296"
    using page_al_bound [OF assms(1)] assms(2) by (cases "pgtable_format_pae s") (simp_all add: num_entries_def)
  ultimately show ?thesis
    using unat_add_nat_u32 [of p ?n] by simp
qed

lemma unat_slot_high:
  assumes "page_al p" and "i < num_entries s" and "pgtable_format_pae s"
  shows "unat (slot s p i + 4) = unat p + 8 * i + 4"
proof -
  have "unat (slot s p i) = unat p + 8 * i"
    using unat_slot [OF assms(1,2)] assms(3) by simp
  moreover have "unat p + 8 * i + 4 < 4294967296"
    using page_al_bound [OF assms(1)] assms(2,3) by (simp add: num_entries_def)
  ultimately show ?thesis
    using unat_add_u32 [of "slot s p i" 4] by simp
qed

lemma slot_in_page:
  assumes "page_al p" and "i < num_entries s"
  shows "in_page p (slot s p i)" "pgtable_format_pae s \<Longrightarrow> in_page p (slot s p i + 4)"
  using unat_slot [OF assms] unat_slot_high [OF assms] assms(2)
  by (cases "pgtable_format_pae s"; simp add: in_page_def num_entries_def)+

lemma slot_cong:
  "pgtable_format_pae s' = pgtable_format_pae s \<Longrightarrow> slot s' p i = slot s p i"
  by (simp add: slot_def get_pte_with_offset_def)

text \<open>The entries of a page depend on the words of the page only.\<close>

lemma entry_frame:
  assumes "page_al p" and "i < num_entries s" and "pgtable_format_pae s' = pgtable_format_pae s"
    and "\<And>x. in_page p x \<Longrightarrow> words s' x = words s x"
  shows "entry s' p i = entry s p i"
  using assms(4) [OF slot_in_page(1) [OF assms(1,2)]] assms(4) [OF slot_in_page(2) [OF assms(1,2)]] assms(3)
  by (simp add: pte_val_def slot_cong [OF assms(3)] read64_def)

section \<open>Writing an entry\<close>

lemma read64_write64 [simp]: "a + 4 \<noteq> a \<Longrightarrow> read64 (write64 a v m) a = v"
  by (rule bit_eqI) (auto simp: read64_def write64_def bit_simps)

lemma and_ucast:
  fixes v :: u64 and c :: u32
  shows "v AND ucast c = ucast (ucast v AND c)"
  by (rule bit_eqI) (auto simp: bit_simps dest: bit_imp_le_length)

lemma ucast_ucast_u32 [simp]: "ucast (ucast (x :: u32) :: u64) = x"
  by (rule bit_eqI) (auto simp: bit_simps dest: bit_imp_le_length)

lemma ucast_eq_0_u32 [simp]: "(ucast (x :: u32) :: u64) = 0 \<longleftrightarrow> x = 0"
  by (metis ucast_ucast_u32 unsigned_0)

lemma present_iff: "pte_is_present a s \<longleftrightarrow> present (pte_val s a)"
proof -
  have "ucast (read64 (words s) a) = words s a"
    by (rule bit_eqI) (auto simp: read64_def bit_simps)
  then show ?thesis
    using and_ucast [of "pte_val s a" "0x401"]
    by (simp add: pte_is_present_def present_def pte_val_def X86_PTE_PRESENT_def X86_PTE_PROT_NONE_def)
qed

lemma get_pte_paddr_frame: "get_pte_paddr a s = frame s (pte_val s a)"
proof -
  have "ucast (words s a) AND 0xfffff000 = (ucast (words s a AND 0xfffff000) :: u64)"
    using and_ucast [of "ucast (words s a)" "0xfffff000"] by simp
  moreover have "NOT PAGE_MASK = (0xfffff000 :: u32)"
    by (simp add: PAGE_MASK_def)
  ultimately show ?thesis
    by (simp add: get_pte_paddr_def frame_def pte_val_def pae_get_pte_paddr_def nopae_get_pte_paddr_def)
qed

text \<open>What an entry contains after it is set, and when it can be set.\<close>

definition frame_ok :: "pmap_state \<Rightarrow> u64 \<Rightarrow> bool" where
  "frame_ok s x = (if pgtable_format_pae s then x AND NOT (page_frame_number_mask s) = 0 else ucast x AND PAGE_MASK = 0)"

definition encode :: "pmap_state \<Rightarrow> u64 \<Rightarrow> u64 \<Rightarrow> u64" where
  "encode s x fl = (if pgtable_format_pae s then x OR fl else ucast (ucast x OR filter_pte_flags fl))"

lemma set_pte_fail: "\<not> frame_ok s x \<Longrightarrow> \<exists>e. set_pte a x fl s = Inl e"
  by (auto simp: set_pte_def frame_ok_def pae_set_pte_def nopae_set_pte_def assert_that_def split: if_splits)

lemma set_pte_ok:
  assumes "page_al p" and "i < num_entries s" and "frame_ok s x"
  shows "\<exists>m. set_pte (slot s p i) x fl s = Inr (s\<lparr>words := m\<rparr>) \<and> (\<forall>y. \<not> in_page p y \<longrightarrow> m y = words s y) \<and>
    entry (s\<lparr>words := m\<rparr>) p i = encode s x fl \<and>
    (\<forall>j < num_entries s. j \<noteq> i \<longrightarrow> entry (s\<lparr>words := m\<rparr>) p j = entry s p j)"
proof (cases "pgtable_format_pae s")
  case True
  let ?a = "slot s p i"
  define m where "m = write64 ?a (x OR fl) (words s)"
  have eq: "slot (s\<lparr>words := m\<rparr>) p j = slot s p j" for j
    by (rule slot_cong) simp
  have "set_pte ?a x fl s = Inr (s\<lparr>words := m\<rparr>)"
    using True assms(3) by (simp add: set_pte_def pae_set_pte_def frame_ok_def assert_that_def m_def)
  moreover have "m y = words s y" if "\<not> in_page p y" for y
    using that slot_in_page [OF assms(1,2)] True by (auto simp: m_def write64_def)
  moreover have "?a + 4 \<noteq> ?a"
    using unat_slot_high [OF assms(1,2) True] unat_slot [OF assms(1,2)] True by auto
  then have "entry (s\<lparr>words := m\<rparr>) p i = encode s x fl"
    using True unfolding pte_val_def eq by (simp add: m_def encode_def)
  moreover have "entry (s\<lparr>words := m\<rparr>) p j = entry s p j" if "j < num_entries s" "j \<noteq> i" for j
  proof -
    have u: "unat (slot s p j) = unat p + 8 * j" "unat ?a = unat p + 8 * i"
      "unat (slot s p j + 4) = unat p + 8 * j + 4" "unat (?a + 4) = unat p + 8 * i + 4"
      using unat_slot [OF assms(1)] unat_slot_high [OF assms(1)] that(1) assms(2) True by simp_all
    have "8 * j \<noteq> 8 * i" "8 * j + 4 \<noteq> 8 * i" "8 * j \<noteq> 8 * i + 4"
      using that(2) by presburger+
    then have "slot s p j \<noteq> ?a" "slot s p j \<noteq> ?a + 4" "slot s p j + 4 \<noteq> ?a" "slot s p j + 4 \<noteq> ?a + 4"
      by (simp_all add: word_unat_eq_iff u)
    then show ?thesis
      unfolding pte_val_def eq using True by (simp add: m_def write64_def read64_def)
  qed
  ultimately show ?thesis
    by blast
next
  case False
  let ?a = "slot s p i"
  define m where "m = (words s)(?a := ucast x OR filter_pte_flags fl)"
  have eq: "slot (s\<lparr>words := m\<rparr>) p j = slot s p j" for j
    by (rule slot_cong) simp
  have "set_pte ?a x fl s = Inr (s\<lparr>words := m\<rparr>)"
    using False assms(3) by (simp add: set_pte_def nopae_set_pte_def frame_ok_def assert_that_def m_def)
  moreover have "m y = words s y" if "\<not> in_page p y" for y
    using that slot_in_page(1) [OF assms(1,2)] by (auto simp: m_def)
  moreover have "entry (s\<lparr>words := m\<rparr>) p i = encode s x fl"
    using False unfolding pte_val_def eq by (simp add: m_def encode_def)
  moreover have "entry (s\<lparr>words := m\<rparr>) p j = entry s p j" if "j < num_entries s" "j \<noteq> i" for j
  proof -
    have "slot s p j \<noteq> ?a"
      using unat_slot [OF assms(1) that(1)] unat_slot [OF assms(1,2)] that(2) False by auto
    then show ?thesis
      unfolding pte_val_def eq using False by (simp add: m_def)
  qed
  ultimately show ?thesis
    by blast
qed

section \<open>Clearing entries\<close>

lemma fold_clear_words:
  "fold (\<lambda>k m. m(a + of_nat (4 * k) := (0 :: u32))) xs m x =
     (if \<exists>k \<in> set xs. x = a + of_nat (4 * k) then 0 else m x)"
  by (induction xs arbitrary: m) auto

lemma words_clear_pages:
  "words (clear_pages p n s) x = (if \<exists>k \<in> set [0..<n * 1024]. x = p + of_nat (4 * k) then 0 else words s x)"
  by (simp add: clear_pages_def fold_clear_words del: of_nat_mult)

lemma clear_page_frame:
  assumes "page_al p" and "\<not> in_page p x"
  shows "words (clear_page p s) x = words s x"
proof -
  have "x \<noteq> p + of_nat (4 * k)" if "k < 1024" for k
  proof -
    have "unat p + 4 * k < 4294967296"
      using page_al_bound [OF assms(1)] that by simp
    then have "in_page p (p + of_nat (4 * k))"
      using unat_add_nat_u32 [of p "4 * k"] that by (simp add: in_page_def)
    then show ?thesis
      using assms(2) by blast
  qed
  then have "\<not> (\<exists>k \<in> set [0..<1 * 1024]. x = p + of_nat (4 * k))"
    by (metis atLeastLessThan_iff mult_1 set_upt)
  then show ?thesis
    by (simp only: clear_page_def words_clear_pages if_False)
qed

lemma clear_page_word:
  assumes "k < 1024"
  shows "words (clear_page p s) (p + of_nat (4 * k)) = 0"
proof -
  have "\<exists>j \<in> set [0..<1 * 1024]. p + of_nat (4 * k) = p + of_nat (4 * j)"
    using assms by auto
  then show ?thesis
    by (simp only: clear_page_def words_clear_pages if_True)
qed

lemma clear_page_entry:
  assumes "i < num_entries s"
  shows "entry (clear_page p s) p i = 0"
proof (cases "pgtable_format_pae s")
  case True
  have e: "slot (clear_page p s) p i = p + of_nat (4 * (2 * i))"
    "slot (clear_page p s) p i + 4 = p + of_nat (4 * (2 * i + 1))"
    using True by (simp_all add: slot_def get_pte_with_offset_def pae_get_pte_with_offset_def clear_page_def clear_pages_def)
  have "2 * i < 1024" "2 * i + 1 < 1024"
    using assms True by (simp_all add: num_entries_def)
  then have "read64 (words (clear_page p s)) (slot (clear_page p s) p i) = 0"
    unfolding read64_def e(2) unfolding e(1) by (simp only: clear_page_word) simp
  then show ?thesis
    using True by (simp add: pte_val_def clear_page_def clear_pages_def)
next
  case False
  have e: "slot (clear_page p s) p i = p + of_nat (4 * i)"
    using False by (simp add: slot_def get_pte_with_offset_def nopae_get_pte_with_offset_def clear_page_def clear_pages_def)
  have "words (clear_page p s) (slot (clear_page p s) p i) = 0"
    unfolding e by (rule clear_page_word) (use assms False in \<open>simp add: num_entries_def\<close>)
  then show ?thesis
    using False by (simp add: pte_val_def clear_page_def clear_pages_def)
qed

lemma clear_page_sel [simp]:
  "page_count (clear_page p s) = page_count s" "head_page (clear_page p s) = head_page s"
  by (simp_all add: clear_page_def clear_pages_def)

section \<open>Position of an address in the tables\<close>

lemma unat_and_mask:
  fixes x :: "'a::len word"
  shows "unat (x AND mask n) = unat x mod 2 ^ n"
  by (simp only: take_bit_eq_mask [symmetric] unsigned_take_bit_eq) (simp add: take_bit_eq_mod)

lemma mask_words: "(511 :: u32) = mask 9" "(1023 :: u32) = mask 10" "(4095 :: u32) = mask 12"
  by (simp_all add: mask_eq_exp_minus_1)

lemma page_table_offset_of_eq: "unat (page_table_offset_of s a) = (unat a div 4096) mod num_entries s"
  by (simp add: page_table_offset_of_def pae_page_table_offset_of_def nopae_page_table_offset_of_def PAGE_TABLE_OFFSET_OF_def
      PAE_PAGE_TABLE_PTES_def NOPAE_PAGE_TABLE_PTES_def PAGE_SIZE_def mask_words unat_and_mask unat_div num_entries_def)

lemma page_directory_offset_of_eq:
  "unat (page_directory_offset_of s a) = (unat a div 4096 div num_entries s) mod num_entries s"
  by (simp add: page_directory_offset_of_def pae_page_directory_offset_of_def nopae_page_directory_offset_of_def
      PAGE_DIRECTORY_OFFSET_OF_def PAE_PAGE_TABLE_PTES_def NOPAE_PAGE_TABLE_PTES_def PAGE_SIZE_def mask_words unat_and_mask
      unat_div num_entries_def div_mult2_eq [symmetric])

lemma pdpt_offset_of_eq: "unat (pdpt_offset_of a) = unat a div 4096 div 512 div 512"
  by (simp only: pdpt_offset_of_def unat_drop_bit_eq) (simp add: drop_bit_eq_div div_mult2_eq [symmetric])

lemma page_offset_of_0_iff: "page_offset_of a = 0 \<longleftrightarrow> page_al a"
  by (simp add: page_offset_of_def PAGE_MASK_def mask_words word_unat_eq_iff unat_and_mask page_al_def)

end
