(* ===== verification/PmapInv.thy ===== *)
theory PmapInv
  imports PageTables
begin

unbundle bit_operations_syntax

text \<open>
  The page tables of the address spaces: which page is the directory or table for which
  part of which address space, and what the entries that link them contain. The pages
  used, the free pages and the entries of the kernel page tables do not overlap. The
  view is ghost state; \<open>user_pte\<close> is what the code's own lookup finds.
\<close>

section \<open>The view and its invariant\<close>

datatype role = FreePage | Dir nat nat | Tab nat nat

record pview =
  v_spaces :: "nat set"
  v_role :: "u32 \<Rightarrow> role option"
  v_dir :: "nat \<Rightarrow> nat \<Rightarrow> u32"
  v_tab :: "nat \<Rightarrow> nat \<Rightarrow> u32"

definition frame_page :: "pmap_state \<Rightarrow> u64 \<Rightarrow> u32" where
  "frame_page s v = lookup_page_frame_address (frame s v) s"

definition links :: "pmap_state \<Rightarrow> u64 \<Rightarrow> u32 \<Rightarrow> bool" where
  "links s v p \<longleftrightarrow> (if p = 0 then \<not> present v else present v \<and> frame_page s v = p)"

definition kpte :: "pmap_state \<Rightarrow> u32 \<Rightarrow> u32" where
  "kpte s p = get_pte_with_offset s (kernel_page_tables s) (page_number_of (p - JINUE_KLIMIT))"

definition entry_words :: "pmap_state \<Rightarrow> u32 \<Rightarrow> u32 set" where
  "entry_words s a = (if pgtable_format_pae s then {a, a + 4} else {a})"

definition kpage :: "pmap_state \<Rightarrow> u32 \<Rightarrow> bool" where
  "kpage s p \<longleftrightarrow> page_al p \<and> is_kernel_pointer p \<and> kpte s p \<noteq> 0 \<and> present (pte_val s (kpte s p)) \<and>
     frame_page s (pte_val s (kpte s p)) = p"

definition pdpte :: "pmap_state \<Rightarrow> nat \<Rightarrow> nat \<Rightarrow> u32" where
  "pdpte s as d = top_level (addr_spaces s as) + of_nat (8 * d)"

definition pdpt_words :: "pmap_state \<Rightarrow> nat \<Rightarrow> u32 set" where
  "pdpt_words s as =
     (if pgtable_format_pae s
      then {x. unat (top_level (addr_spaces s as)) \<le> unat x \<and> unat x < unat (top_level (addr_spaces s as)) + 32}
      else {})"

definition user_pages :: nat where
  "user_pages = 786432"

definition user_tabs :: "pmap_state \<Rightarrow> nat" where
  "user_tabs s = user_pages div num_entries s"

definition user_dirs :: "pmap_state \<Rightarrow> nat" where
  "user_dirs s = (if pgtable_format_pae s then 3 else 1)"

definition kernel_ok :: "pmap_state \<Rightarrow> pview \<Rightarrow> bool" where
  "kernel_ok s V \<longleftrightarrow> (\<forall>p. v_role V p \<noteq> None \<longrightarrow> kpage s p) \<and>
     (\<forall>p q x. v_role V p \<noteq> None \<longrightarrow> v_role V q \<noteq> None \<longrightarrow> x \<in> entry_words s (kpte s q) \<longrightarrow> \<not> in_page p x)"

definition tops_ok :: "pmap_state \<Rightarrow> pview \<Rightarrow> bool" where
  "tops_ok s V \<longleftrightarrow> (\<forall>as \<in> v_spaces V.
     (pgtable_format_pae s \<longrightarrow> unat (top_level (addr_spaces s as)) + 32 \<le> 4294967296) \<and>
     (\<forall>p x. v_role V p \<noteq> None \<longrightarrow> x \<in> pdpt_words s as \<longrightarrow> \<not> in_page p x \<and> x \<notin> entry_words s (kpte s p)) \<and>
     (\<forall>as' \<in> v_spaces V. as' \<noteq> as \<longrightarrow> pdpt_words s as \<inter> pdpt_words s as' = {}))"

definition dir_ok :: "pmap_state \<Rightarrow> pview \<Rightarrow> nat \<Rightarrow> nat \<Rightarrow> bool" where
  "dir_ok s V as d \<longleftrightarrow>
     (if pgtable_format_pae s then links s (read64 (words s) (pdpte s as d)) (v_dir V as d)
      else v_dir V as d = top_level (addr_spaces s as) \<and> v_dir V as d \<noteq> 0) \<and>
     (v_dir V as d \<noteq> 0 \<longrightarrow> v_role V (v_dir V as d) = Some (Dir as d))"

definition tab_ok :: "pmap_state \<Rightarrow> pview \<Rightarrow> nat \<Rightarrow> nat \<Rightarrow> bool" where
  "tab_ok s V as g \<longleftrightarrow>
     (if v_dir V as (g div num_entries s) = 0 then v_tab V as g = 0
      else links s (entry s (v_dir V as (g div num_entries s)) (g mod num_entries s)) (v_tab V as g)) \<and>
     (v_tab V as g \<noteq> 0 \<longrightarrow> v_role V (v_tab V as g) = Some (Tab as g))"

definition space_ok :: "pmap_state \<Rightarrow> pview \<Rightarrow> nat \<Rightarrow> bool" where
  "space_ok s V as \<longleftrightarrow> (\<forall>d < user_dirs s. dir_ok s V as d) \<and> (\<forall>g < user_tabs s. tab_ok s V as g)"

definition pt_inv :: "pmap_state \<Rightarrow> pview \<Rightarrow> u32 list \<Rightarrow> bool" where
  "pt_inv s V pg \<longleftrightarrow> fmt_ok s \<and> free_pages_are s pg \<and> (\<forall>p. v_role V p = Some FreePage \<longleftrightarrow> p \<in> set pg) \<and>
     kernel_ok s V \<and> tops_ok s V \<and> (\<forall>as \<in> v_spaces V. space_ok s V as)"

text \<open>The entry of a page: zero where there is no table.\<close>

definition page_entry :: "pmap_state \<Rightarrow> pview \<Rightarrow> nat \<Rightarrow> nat \<Rightarrow> u64" where
  "page_entry s V as v =
     (if v_tab V as (v div num_entries s) = 0 then 0
      else entry s (v_tab V as (v div num_entries s)) (v mod num_entries s))"

definition user_pte :: "nat \<Rightarrow> u32 \<Rightarrow> pmap_state \<Rightarrow> u64" where
  "user_pte as addr s =
     (case lookup_userspace_page_table as addr False False s of
        Inl e \<Rightarrow> 0
      | Inr (pt, _, _) \<Rightarrow> if pt = 0 then 0 else pte_val s (get_pte_with_offset s pt (page_table_offset_of s addr)))"

section \<open>What the tables do not depend on\<close>

definition same_static :: "pmap_state \<Rightarrow> pmap_state \<Rightarrow> bool" where
  "same_static s s' \<longleftrightarrow> pgtable_format_pae s' = pgtable_format_pae s \<and> page_frames s' = page_frames s \<and>
     page_frame_number_mask s' = page_frame_number_mask s \<and> entries_per_page_table s' = entries_per_page_table s \<and>
     kernel_page_tables s' = kernel_page_tables s \<and> addr_spaces s' = addr_spaces s"

lemma same_static_refl [simp]: "same_static s s"
  by (simp add: same_static_def)

lemma same_static_trans: "same_static s t \<Longrightarrow> same_static t u \<Longrightarrow> same_static s u"
  by (simp add: same_static_def)

lemma same_static_clear_page [simp]: "same_static s (clear_page p s)"
  by (simp add: same_static_def clear_page_def clear_pages_def)

lemma same_static_words [simp]: "same_static s (s\<lparr>words := m\<rparr>)"
  by (simp add: same_static_def)

lemma static_simps:
  assumes "same_static s s'"
  shows "num_entries s' = num_entries s" "fmt_ok s' = fmt_ok s" "slot s' p i = slot s p i" "frame s' v = frame s v"
    "frame_page s' v = frame_page s v" "links s' v p = links s v p" "kpte s' p = kpte s p"
    "entry_words s' a = entry_words s a" "pdpte s' as d = pdpte s as d" "pdpt_words s' as = pdpt_words s as"
    "user_tabs s' = user_tabs s" "user_dirs s' = user_dirs s" "pgtable_format_pae s' = pgtable_format_pae s"
    "addr_spaces s' = addr_spaces s" "frame_ok s' x = frame_ok s x" "encode s' x fl = encode s x fl"
  using assms
  by (simp_all add: same_static_def num_entries_def fmt_ok_def slot_def get_pte_with_offset_def frame_def frame_page_def
      links_def kpte_def entry_words_def pdpte_def pdpt_words_def user_tabs_def user_dirs_def lookup_page_frame_address_def
      frame_ok_def encode_def Let_def)

lemma pte_val_frame:
  assumes "same_static s s'" and "\<And>x. x \<in> entry_words s a \<Longrightarrow> words s' x = words s x"
  shows "pte_val s' a = pte_val s a"
  using assms by (auto simp: pte_val_def static_simps [OF assms(1)] entry_words_def read64_def split: if_splits)

lemma kpage_frame:
  assumes "same_static s s'" and "\<And>x. x \<in> entry_words s (kpte s p) \<Longrightarrow> words s' x = words s x"
  shows "kpage s' p = kpage s p"
  using pte_val_frame [OF assms] by (simp add: kpage_def static_simps [OF assms(1)])

lemma pdpte_words:
  assumes "pgtable_format_pae s" and "d < 4" and "unat (top_level (addr_spaces s as)) + 32 \<le> 4294967296"
  shows "pdpte s as d \<in> pdpt_words s as" "pdpte s as d + 4 \<in> pdpt_words s as"
    "unat (pdpte s as d) = unat (top_level (addr_spaces s as)) + 8 * d"
    "unat (pdpte s as d + 4) = unat (top_level (addr_spaces s as)) + 8 * d + 4"
proof -
  show u: "unat (pdpte s as d) = unat (top_level (addr_spaces s as)) + 8 * d"
    using unat_add_nat_u32 [of "top_level (addr_spaces s as)" "8 * d"] assms(2,3) by (simp add: pdpte_def)
  show u4: "unat (pdpte s as d + 4) = unat (top_level (addr_spaces s as)) + 8 * d + 4"
    using unat_add_u32 [of "pdpte s as d" 4] u assms(2,3) by simp
  show "pdpte s as d \<in> pdpt_words s as" "pdpte s as d + 4 \<in> pdpt_words s as"
    using u u4 assms(1,2) by (simp_all add: pdpt_words_def)
qed

lemma page_al_unique:
  assumes "page_al p" and "page_al q" and "in_page p x" and "in_page q x"
  shows "p = q"
proof -
  obtain i j where ij: "unat p = 4096 * i" "unat q = 4096 * j"
    using assms(1,2) unfolding page_al_def by (metis mod_0_imp_dvd dvdE)
  then have "i = j"
    using assms(3,4) by (simp add: in_page_def)
  then show ?thesis
    using ij by (simp add: word_unat_eq_iff)
qed

section \<open>Linking a page\<close>

lemma kpage_lookup:
  assumes "kpage s p"
  shows "machine_lookup_kernel_paddr p s = Inr (frame s (pte_val s (kpte s p)))"
  using assms
  by (simp add: kpage_def machine_lookup_kernel_paddr_def lookup_kernel_page_table_entry_def page_offset_of_0_iff
      assert_that_def present_iff get_pte_paddr_frame kpte_def)

text \<open>An entry written with the frame of a page and flags below the frame leads to that page.\<close>

lemma frame_mask:
  assumes "fmt_ok s" and "v AND NOT 0xfff = 0"
  shows "v AND page_frame_number_mask s = 0"
proof -
  obtain w where "page_frame_number_mask s = (push_bit w 1 - 1) AND NOT (ucast PAGE_MASK)"
    using assms(1) by (auto simp: fmt_ok_def)
  moreover have "ucast PAGE_MASK = (0xfff :: u64)"
    by (simp add: PAGE_MASK_def)
  ultimately have "page_frame_number_mask s = (push_bit w 1 - 1) AND NOT 0xfff"
    by metis
  moreover have "v AND ((push_bit w 1 - 1) AND NOT 0xfff) = (push_bit w 1 - 1) AND (v AND NOT 0xfff)"
    by (simp only: ac_simps)
  ultimately show ?thesis
    using assms(2) by simp
qed

lemma frame_frame: "frame s (frame s v) = frame s v"
  by (simp add: frame_def and.assoc)

lemma frame_encode:
  assumes "fmt_ok s" and "fl AND NOT 0xfff = 0" and "frame s x = x"
  shows "frame s (encode s x fl) = x" "frame_ok s x" "present (encode s x fl) \<longleftrightarrow> fl AND 0x401 \<noteq> 0"
proof -
  have "frame s (encode s x fl) = x \<and> frame_ok s x \<and> (present (encode s x fl) \<longleftrightarrow> fl AND 0x401 \<noteq> 0)"
  proof (cases "pgtable_format_pae s")
    case True
    let ?m = "page_frame_number_mask s"
    have x: "x AND ?m = x" "x AND NOT ?m = 0"
      using True assms(3) by (auto simp: frame_def) (metis and.assoc and_zero_eq bit.conj_cancel_right)
    have "(x OR fl) AND ?m = (x AND ?m) OR (fl AND ?m)"
      by (rule bit_eqI) (auto simp: bit_simps)
    moreover have "(x OR fl) AND 0x401 = fl AND 0x401"
    proof -
      have "?m AND 0x401 = 0"
        using frame_mask [OF assms(1), of "0x401"] by (simp add: and.commute)
      then have "x AND 0x401 = 0"
        using x(1) and.assoc [of x ?m "0x401"] by simp
      moreover have "(x OR fl) AND 0x401 = (x AND 0x401) OR (fl AND 0x401)"
        by (rule bit_eqI) (auto simp: bit_simps)
      ultimately show ?thesis
        by simp
    qed
    ultimately show ?thesis
      using True x frame_mask [OF assms(1,2)] by (simp add: frame_def encode_def frame_ok_def present_def)
  next
    case False
    have m: "(0xfffff000 :: u32) = NOT (mask 12)" "(0xfff :: u64) = mask 12"
      by (simp_all add: mask_eq_exp_minus_1)
    have u: "v AND 0xfffff000 = ucast (ucast v AND NOT (mask 12) :: u32)" for v :: u64
    proof -
      have "v AND 0xfffff000 = ucast (ucast v AND 0xfffff000 :: u32)"
        using and_ucast [of v "0xfffff000"] by simp
      then show ?thesis
        by (simp only: m)
    qed
    obtain w :: u32 where x: "x = ucast (w AND NOT (mask 12))"
      using False assms(3) u [of x] that [of "ucast x"] by (simp add: frame_def)
    let ?w = "w AND NOT (mask 12)"
    have f: "n < 12" if "bit fl n" for n
      using arg_cong [OF assms(2), of "\<lambda>v. bit v n"] that unfolding m by (auto simp: bit_simps dest: bit_imp_le_length)
    have c: "filter_pte_flags fl = ucast fl"
      unfolding filter_pte_flags_def PAGE_MASK_def by (rule bit_eqI) (auto simp: bit_simps m dest: f)
    have "(?w OR ucast fl) AND NOT (mask 12) = ?w"
      by (rule bit_eqI) (auto simp: bit_simps dest: f)
    moreover have "?w AND PAGE_MASK = 0"
      by (rule bit_eqI) (auto simp: bit_simps PAGE_MASK_def mask_words)
    moreover have "(ucast (?w OR ucast fl) :: u64) AND 0x401 = fl AND 0x401"
    proof -
      have "(0x401 :: u32) AND NOT (mask 12) = 0"
        by (simp add: mask_eq_exp_minus_1)
      then have "?w AND 0x401 = 0"
        by (metis and.assoc and.commute and_zero_eq)
      then have "(?w OR ucast fl) AND 0x401 = ucast fl AND 0x401"
        by (simp add: bit.conj_disj_distrib2)
      then show ?thesis
        using and_ucast [of "ucast (?w OR ucast fl)" "0x401"] and_ucast [of fl "0x401"] by simp
    qed
    ultimately show ?thesis
      using False by (simp add: frame_def encode_def frame_ok_def present_def u c x)
  qed
  then show "frame s (encode s x fl) = x" "frame_ok s x" "present (encode s x fl) \<longleftrightarrow> fl AND 0x401 \<noteq> 0"
    by simp_all
qed

section \<open>Changes confined to some pages\<close>

lemma pt_invD:
  assumes "pt_inv s V pg"
  shows "fmt_ok s" "free_pages_are s pg" "v_role V p = Some FreePage \<longleftrightarrow> p \<in> set pg"
    "v_role V p = Some r \<Longrightarrow> kpage s p" "as \<in> v_spaces V \<Longrightarrow> space_ok s V as" "kernel_ok s V" "tops_ok s V"
  using assms by (auto simp: pt_inv_def kernel_ok_def)

lemma dirD:
  assumes "pt_inv s V pg" and "as \<in> v_spaces V" and "d < user_dirs s"
  shows "dir_ok s V as d" "v_dir V as d \<noteq> 0 \<Longrightarrow> v_role V (v_dir V as d) = Some (Dir as d)"
proof -
  show d: "dir_ok s V as d"
    using pt_invD(5) [OF assms(1,2)] assms(3) by (simp add: space_ok_def)
  show "v_dir V as d \<noteq> 0 \<Longrightarrow> v_role V (v_dir V as d) = Some (Dir as d)"
    using d unfolding dir_ok_def by blast
qed

lemma tabD:
  assumes "pt_inv s V pg" and "as \<in> v_spaces V" and "g < user_tabs s"
  shows "tab_ok s V as g" "v_tab V as g \<noteq> 0 \<Longrightarrow> v_role V (v_tab V as g) = Some (Tab as g)"
    "v_dir V as (g div num_entries s) = 0 \<Longrightarrow> v_tab V as g = 0"
  using pt_invD(5) [OF assms(1,2)] assms(3) by (simp_all add: space_ok_def tab_ok_def)

lemma dir_of_tab: "g < user_tabs s \<Longrightarrow> g div num_entries s < user_dirs s"
  by (auto simp: user_tabs_def user_pages_def num_entries_def user_dirs_def)

lemma tab_of_page: "v < user_pages \<Longrightarrow> v div num_entries s < user_tabs s"
  by (auto simp: user_tabs_def user_pages_def num_entries_def)

lemma num_entries_pos [simp]: "0 < num_entries s" "i mod num_entries s < num_entries s"
  by (simp_all add: num_entries_def)

definition agree :: "pmap_state \<Rightarrow> pmap_state \<Rightarrow> u32 set \<Rightarrow> u32 set \<Rightarrow> bool" where
  "agree s s' P T \<longleftrightarrow> same_static s s' \<and>
     (\<forall>x. (\<forall>p \<in> P. \<not> in_page p x) \<longrightarrow> x \<notin> T \<longrightarrow> words s' x = words s x)"

definition confined :: "pmap_state \<Rightarrow> pview \<Rightarrow> u32 set \<Rightarrow> u32 set \<Rightarrow> bool" where
  "confined s V P T \<longleftrightarrow> (\<forall>p \<in> P. v_role V p \<noteq> None) \<and> T \<subseteq> (\<Union>as \<in> v_spaces V. pdpt_words s as)"

lemma agree_entry:
  assumes "pt_inv s V pg" and "confined s V P T" and "agree s s' P T"
    and "v_role V q \<noteq> None" and "q \<notin> P" and "i < num_entries s"
  shows "entry s' q i = entry s q i"
proof (rule entry_frame)
  show al: "page_al q"
    using assms(1,4) by (auto simp: pt_inv_def kernel_ok_def kpage_def)
  show "i < num_entries s" "pgtable_format_pae s' = pgtable_format_pae s"
    using assms(3,6) by (simp_all add: agree_def same_static_def)
  fix x
  assume x: "in_page q x"
  have "\<not> in_page p x" if "p \<in> P" for p
  proof
    assume "in_page p x"
    moreover have "page_al p"
      using that assms(1,2) by (auto simp: confined_def pt_inv_def kernel_ok_def kpage_def)
    ultimately have "p = q"
      using page_al_unique al x by blast
    then show False
      using that assms(5) by simp
  qed
  moreover have "x \<notin> T"
    using x assms(1,2,4) unfolding confined_def pt_inv_def tops_ok_def by blast
  ultimately show "words s' x = words s x"
    using assms(3) unfolding agree_def by blast
qed

lemma agree_kernel:
  assumes "pt_inv s V pg" and "confined s V P T" and "agree s s' P T"
    and "dom (v_role V') = dom (v_role V)" and "v_spaces V' = v_spaces V"
  shows "kernel_ok s' V'" "tops_ok s' V'"
proof -
  have st: "same_static s s'"
    using assms(3) by (simp add: agree_def)
  have r: "v_role V' p \<noteq> None \<longleftrightarrow> v_role V p \<noteq> None" for p
    using assms(4) by (auto simp: dom_def set_eq_iff)
  have "kpage s' p" if p: "v_role V p \<noteq> None" for p
  proof -
    have "words s' x = words s x" if x: "x \<in> entry_words s (kpte s p)" for x
    proof -
      have "\<not> in_page q x" if "q \<in> P" for q
        using that x p assms(1,2) unfolding confined_def pt_inv_def kernel_ok_def by blast
      moreover have "x \<notin> T"
        using x p assms(1,2) unfolding confined_def pt_inv_def tops_ok_def by blast
      ultimately show ?thesis
        using assms(3) unfolding agree_def by blast
    qed
    then have "kpage s' p = kpage s p"
      by (rule kpage_frame [OF st])
    then show ?thesis
      using p assms(1) by (simp add: pt_inv_def kernel_ok_def)
  qed
  then show "kernel_ok s' V'"
    using pt_invD(6) [OF assms(1)] by (simp add: kernel_ok_def static_simps [OF st] r del: not_None_eq)
  show "tops_ok s' V'"
    using pt_invD(7) [OF assms(1)] by (simp add: tops_ok_def static_simps [OF st] r assms(5) del: not_None_eq)
qed

lemma pdpt_bound:
  assumes "pt_inv s V pg" and "as \<in> v_spaces V" and "pgtable_format_pae s"
  shows "unat (top_level (addr_spaces s as)) + 32 \<le> 4294967296"
  using pt_invD(7) [OF assms(1)] assms(2,3) by (simp add: tops_ok_def)

lemma agree_pdpte:
  assumes "pt_inv s V pg" and "confined s V P T" and "agree s s' P T" and "as \<in> v_spaces V" and "d < 4"
    and "pgtable_format_pae s" and "pdpte s as d \<notin> T" and "pdpte s as d + 4 \<notin> T"
  shows "read64 (words s') (pdpte s as d) = read64 (words s) (pdpte s as d)"
proof -
  have "words s' x = words s x" if x: "x \<in> pdpt_words s as" "x \<notin> T" for x
  proof -
    have "\<not> in_page q x" if "q \<in> P" for q
      using that x(1) assms(1,2,4) unfolding confined_def pt_inv_def tops_ok_def by blast
    then show ?thesis
      using x(2) assms(3) unfolding agree_def by blast
  qed
  then show ?thesis
    using pdpte_words(1,2) [OF assms(6,5) pdpt_bound [OF assms(1,4,6)]] assms(7,8) by (simp add: read64_def)
qed

lemma agree_free:
  assumes "free_pages_are s pg" and "head_page s' = head_page s" and "page_count s' = page_count s"
    and "\<And>q. q \<in> set pg \<Longrightarrow> words s' q = words s q"
  shows "free_pages_are s' pg"
  using assms link_chain_cong [of pg "words s'" "words s" "head_page s"] by (simp add: free_pages_are_def)

end
