(* ===== verification/PmapOps.thy ===== *)
theory PmapOps
  imports PmapInv
begin

unbundle bit_operations_syntax

text \<open>
  The operations on the page tables of user space keep the invariant: writing an entry
  of a table, linking a new table or directory, looking up the table of an address.
\<close>

lemma in_page_self [simp]: "in_page q q"
  by (simp add: in_page_def)

section \<open>Writing an entry of a table\<close>

lemma dir_ok_agree:
  assumes "pt_inv s V pg" and "confined s V P T" and "agree s s' P T" and "as \<in> v_spaces V" and "d < user_dirs s"
    and "pgtable_format_pae s \<Longrightarrow> pdpte s as d \<notin> T \<and> pdpte s as d + 4 \<notin> T" and "v_dir V' as d = v_dir V as d"
    and "v_dir V as d \<noteq> 0 \<Longrightarrow> v_role V' (v_dir V as d) = v_role V (v_dir V as d)"
  shows "dir_ok s' V' as d"
proof -
  have st: "same_static s s'"
    using assms(3) by (simp add: agree_def)
  have "read64 (words s') (pdpte s as d) = read64 (words s) (pdpte s as d)" if "pgtable_format_pae s"
    by (rule agree_pdpte [OF assms(1-4)]) (use that assms(5,6) in \<open>simp_all add: user_dirs_def\<close>)
  then show ?thesis
    using dirD(1) [OF assms(1,4,5)] assms(7,8) by (auto simp: dir_ok_def static_simps [OF st])
qed

lemma leaf_inv:
  assumes inv: "pt_inv s V pg" and as: "as \<in> v_spaces V" and g: "g < user_tabs s"
    and t: "v_tab V as g = t" "t \<noteq> 0" and ag: "agree s s' {t} {}"
    and pages: "head_page s' = head_page s" "page_count s' = page_count s"
  shows "pt_inv s' V pg"
    and "as' \<in> v_spaces V \<Longrightarrow> v < user_pages \<Longrightarrow> as' \<noteq> as \<or> v div num_entries s \<noteq> g \<Longrightarrow>
      page_entry s' V as' v = page_entry s V as' v"
proof -
  have role: "v_role V t = Some (Tab as g)"
    using tabD(2) [OF inv as g] t by simp
  have st: "same_static s s'"
    using ag by (simp add: agree_def)
  have conf: "confined s V {t} {}"
    using role by (simp add: confined_def)
  have entry_same: "entry s' q i = entry s q i" if "v_role V q \<noteq> None" "q \<noteq> t" "i < num_entries s" for q i
    by (rule agree_entry [OF inv conf ag]) (use that in auto)
  show "page_entry s' V as' v = page_entry s V as' v"
    if "as' \<in> v_spaces V" "v < user_pages" "as' \<noteq> as \<or> v div num_entries s \<noteq> g"
  proof (cases "v_tab V as' (v div num_entries s) = 0")
    case False
    let ?q = "v_tab V as' (v div num_entries s)"
    have "v_role V ?q = Some (Tab as' (v div num_entries s))"
      using tabD(2) [OF inv that(1) tab_of_page [OF that(2)]] False by simp
    then have "entry s' ?q (v mod num_entries s) = entry s ?q (v mod num_entries s)"
      using entry_same [of ?q] role that(3) by fastforce
    then show ?thesis
      by (simp add: page_entry_def static_simps [OF st])
  qed (simp add: page_entry_def static_simps [OF st])
  show "pt_inv s' V pg"
    unfolding pt_inv_def
  proof (intro conjI ballI)
    show "fmt_ok s'"
      using pt_invD(1) [OF inv] by (simp add: static_simps [OF st])
    show "kernel_ok s' V" "tops_ok s' V"
      using agree_kernel [OF inv conf ag] by simp_all
    show "\<forall>p. v_role V p = Some FreePage \<longleftrightarrow> p \<in> set pg"
      using pt_invD(3) [OF inv] by blast
    show "free_pages_are s' pg"
    proof (rule agree_free [OF pt_invD(2) [OF inv] pages])
      fix q
      assume "q \<in> set pg"
      then have "v_role V q = Some FreePage"
        using pt_invD(3) [OF inv] by blast
      then have "\<not> in_page t q"
        using role page_al_unique [of t q q] pt_invD(4) [OF inv] by (fastforce simp: kpage_def in_page_def)
      then show "words s' q = words s q"
        using ag by (simp add: agree_def)
    qed
    fix as'
    assume as': "as' \<in> v_spaces V"
    show "space_ok s' V as'"
      unfolding space_ok_def
    proof (intro conjI allI impI)
      fix d
      assume "d < user_dirs s'"
      then have d: "d < user_dirs s"
        by (simp add: static_simps [OF st])
      show "dir_ok s' V as' d"
        by (rule dir_ok_agree [OF inv conf ag as' d]) simp_all
    next
      fix k
      assume "k < user_tabs s'"
      then have k: "k < user_tabs s"
        by (simp add: static_simps [OF st])
      show "tab_ok s' V as' k"
      proof (cases "v_dir V as' (k div num_entries s) = 0")
        case True
        then show ?thesis
          using tabD(1) [OF inv as' k] by (simp add: tab_ok_def static_simps [OF st])
      next
        case False
        let ?q = "v_dir V as' (k div num_entries s)"
        have "v_role V ?q = Some (Dir as' (k div num_entries s))"
          using dirD(2) [OF inv as' dir_of_tab [OF k]] False by simp
        then have "entry s' ?q (k mod num_entries s) = entry s ?q (k mod num_entries s)"
          using entry_same [of ?q] role by fastforce
        then show ?thesis
          using tabD(1) [OF inv as' k] False by (simp add: tab_ok_def static_simps [OF st])
      qed
    qed
  qed
qed

section \<open>Linking a new table\<close>

definition with_tab :: "pview \<Rightarrow> nat \<Rightarrow> nat \<Rightarrow> u32 \<Rightarrow> pview" where
  "with_tab V as g p = V\<lparr>v_role := (v_role V)(p \<mapsto> Tab as g), v_tab := (v_tab V)(as := (v_tab V as)(g := p))\<rparr>"

definition with_dir :: "pview \<Rightarrow> nat \<Rightarrow> nat \<Rightarrow> u32 \<Rightarrow> pview" where
  "with_dir V as d p = V\<lparr>v_role := (v_role V)(p \<mapsto> Dir as d), v_dir := (v_dir V)(as := (v_dir V as)(d := p))\<rparr>"

lemma with_tab_sel [simp]:
  "v_spaces (with_tab V as g p) = v_spaces V" "v_dir (with_tab V as g p) = v_dir V"
  "v_role (with_tab V as g p) = (v_role V)(p \<mapsto> Tab as g)"
  "v_tab (with_tab V as g p) as' g' = (if as' = as \<and> g' = g then p else v_tab V as' g')"
  by (simp_all add: with_tab_def)

lemma with_dir_sel [simp]:
  "v_spaces (with_dir V as d p) = v_spaces V" "v_tab (with_dir V as d p) = v_tab V"
  "v_role (with_dir V as d p) = (v_role V)(p \<mapsto> Dir as d)"
  "v_dir (with_dir V as d p) as' d' = (if as' = as \<and> d' = d then p else v_dir V as' d')"
  by (simp_all add: with_dir_def)

lemma not_present_0 [simp]: "\<not> present 0" "links s 0 0"
  by (simp_all add: present_def links_def)

lemma link_tab:
  assumes inv: "pt_inv s V (p # pg)" and as: "as \<in> v_spaces V" and g: "g < user_tabs s"
    and dp: "v_dir V as (g div num_entries s) = dp" "dp \<noteq> 0" and t: "v_tab V as g = 0"
    and ag: "agree s s' {p, dp} {}" and free: "free_pages_are s' pg"
    and others: "\<And>i. i < num_entries s \<Longrightarrow> i \<noteq> g mod num_entries s \<Longrightarrow> entry s' dp i = entry s dp i"
    and link: "links s (entry s' dp (g mod num_entries s)) p"
    and zero: "\<And>i. i < num_entries s \<Longrightarrow> entry s' p i = 0"
  shows "pt_inv s' (with_tab V as g p) pg"
    and "as' \<in> v_spaces V \<Longrightarrow> v < user_pages \<Longrightarrow> page_entry s' (with_tab V as g p) as' v = page_entry s V as' v"
proof -
  let ?E = "num_entries s" and ?V = "with_tab V as g p"
  have rp: "v_role V p = Some FreePage" and rdp: "v_role V dp = Some (Dir as (g div ?E))"
    using pt_invD(3) [OF inv] dirD(2) [OF inv as dir_of_tab [OF g]] dp by auto
  have p0: "p \<noteq> 0"
    using pt_invD(2) [OF inv] by (simp add: free_pages_are_def)
  have st: "same_static s s'"
    using ag by (simp add: agree_def)
  have conf: "confined s V {p, dp} {}"
    using rp rdp by (simp add: confined_def)
  have entry_same: "entry s' q i = entry s q i" if "v_role V q \<noteq> None" "q \<noteq> p" "q \<noteq> dp" "i < ?E" for q i
    by (rule agree_entry [OF inv conf ag]) (use that in auto)
  show "page_entry s' ?V as' v = page_entry s V as' v" if v: "as' \<in> v_spaces V" "v < user_pages"
  proof (cases "as' = as \<and> v div ?E = g")
    case True
    then show ?thesis
      using p0 t zero by (simp add: page_entry_def static_simps [OF st])
  next
    case False
    let ?q = "v_tab V as' (v div ?E)"
    have "entry s' ?q (v mod ?E) = entry s ?q (v mod ?E)" if "?q \<noteq> 0"
      using entry_same [of ?q] tabD(2) [OF inv v(1) tab_of_page [OF v(2)] that] rp rdp by fastforce
    then show ?thesis
      using False by (auto simp: page_entry_def static_simps [OF st])
  qed
  have dm: "dom (v_role ?V) = dom (v_role V)"
    using rp by auto
  show "pt_inv s' ?V pg"
    unfolding pt_inv_def
  proof (intro conjI ballI)
    show "fmt_ok s'"
      using pt_invD(1) [OF inv] by (simp add: static_simps [OF st])
    show "kernel_ok s' ?V" "tops_ok s' ?V"
      using agree_kernel [OF inv conf ag dm] by simp_all
    show "\<forall>q. v_role ?V q = Some FreePage \<longleftrightarrow> q \<in> set pg"
      using pt_invD(3) [OF inv] pt_invD(2) [OF inv] by (auto simp: free_pages_are_def)
    show "free_pages_are s' pg"
      by (rule free)
    fix as'
    assume "as' \<in> v_spaces ?V"
    then have as': "as' \<in> v_spaces V"
      by simp
    show "space_ok s' ?V as'"
      unfolding space_ok_def
    proof (intro conjI allI impI)
      fix d
      assume "d < user_dirs s'"
      then have d: "d < user_dirs s"
        by (simp add: static_simps [OF st])
      show "dir_ok s' ?V as' d"
        by (rule dir_ok_agree [OF inv conf ag as' d]) (use dirD(2) [OF inv as' d] rp in auto)
    next
      fix k
      assume "k < user_tabs s'"
      then have k: "k < user_tabs s"
        by (simp add: static_simps [OF st])
      let ?q = "v_dir V as' (k div ?E)"
      show "tab_ok s' ?V as' k"
      proof (cases "as' = as \<and> k = g")
        case True
        then show ?thesis
          using dp link by (simp add: tab_ok_def static_simps [OF st])
      next
        case False
        have role: "v_tab V as' k \<noteq> 0 \<longrightarrow> v_role ?V (v_tab V as' k) = Some (Tab as' k)"
          using tabD(2) [OF inv as' k] rp by auto
        have "entry s' ?q (k mod ?E) = entry s ?q (k mod ?E)" if q: "?q \<noteq> 0"
        proof (cases "?q = dp")
          case True
          have "k mod ?E \<noteq> g mod ?E"
          proof
            assume "k mod ?E = g mod ?E"
            moreover have "k div ?E = g div ?E" "as' = as"
              using dirD(2) [OF inv as' dir_of_tab [OF k] q] rdp True by simp_all
            ultimately show False
              using False by (metis div_mult_mod_eq)
          qed
          then show ?thesis
            using others True by simp
        next
          case False
          then show ?thesis
            using entry_same [of ?q] dirD(2) [OF inv as' dir_of_tab [OF k] q] rp by fastforce
        qed
        then show ?thesis
          using tabD(1) [OF inv as' k] False role by (auto simp: tab_ok_def static_simps [OF st])
      qed
    qed
  qed
qed

lemma link_dir:
  assumes inv: "pt_inv s V (p # pg)" and as: "as \<in> v_spaces V" and d: "d < user_dirs s" and pae: "pgtable_format_pae s"
    and dp: "v_dir V as d = 0" and ag: "agree s s' {p} (entry_words s (pdpte s as d))" and free: "free_pages_are s' pg"
    and link: "links s (read64 (words s') (pdpte s as d)) p"
    and zero: "\<And>i. i < num_entries s \<Longrightarrow> entry s' p i = 0"
  shows "pt_inv s' (with_dir V as d p) pg"
    and "as' \<in> v_spaces V \<Longrightarrow> v < user_pages \<Longrightarrow> page_entry s' (with_dir V as d p) as' v = page_entry s V as' v"
proof -
  let ?E = "num_entries s" and ?V = "with_dir V as d p" and ?T = "entry_words s (pdpte s as d)"
  have rp: "v_role V p = Some FreePage"
    using pt_invD(3) [OF inv] by simp
  have p0: "p \<noteq> 0"
    using pt_invD(2) [OF inv] by (simp add: free_pages_are_def)
  have st: "same_static s s'"
    using ag by (simp add: agree_def)
  have d4: "d < 4"
    using d by (simp add: user_dirs_def split: if_splits)
  note pw = pdpte_words [OF pae _ pdpt_bound [OF inv _ pae]]
  have T: "?T \<subseteq> pdpt_words s as"
    using pw(1,2) [OF d4 as] pae by (simp add: entry_words_def)
  have conf: "confined s V {p} ?T"
    using rp as T by (auto simp: confined_def)
  have entry_same: "entry s' q i = entry s q i" if "v_role V q \<noteq> None" "q \<noteq> p" "i < ?E" for q i
    by (rule agree_entry [OF inv conf ag]) (use that in auto)
  show "page_entry s' ?V as' v = page_entry s V as' v" if v: "as' \<in> v_spaces V" "v < user_pages"
  proof -
    let ?q = "v_tab V as' (v div ?E)"
    have "entry s' ?q (v mod ?E) = entry s ?q (v mod ?E)" if "?q \<noteq> 0"
      using entry_same [of ?q] tabD(2) [OF inv v(1) tab_of_page [OF v(2)] that] rp by fastforce
    then show ?thesis
      by (auto simp: page_entry_def static_simps [OF st])
  qed
  have dm: "dom (v_role ?V) = dom (v_role V)"
    using rp by auto
  show "pt_inv s' ?V pg"
    unfolding pt_inv_def
  proof (intro conjI ballI)
    show "fmt_ok s'"
      using pt_invD(1) [OF inv] by (simp add: static_simps [OF st])
    show "kernel_ok s' ?V" "tops_ok s' ?V"
      using agree_kernel [OF inv conf ag dm] by simp_all
    show "\<forall>q. v_role ?V q = Some FreePage \<longleftrightarrow> q \<in> set pg"
      using pt_invD(3) [OF inv] pt_invD(2) [OF inv] by (auto simp: free_pages_are_def)
    show "free_pages_are s' pg"
      by (rule free)
    fix as'
    assume "as' \<in> v_spaces ?V"
    then have as': "as' \<in> v_spaces V"
      by simp
    show "space_ok s' ?V as'"
      unfolding space_ok_def
    proof (intro conjI allI impI)
      fix k
      assume "k < user_dirs s'"
      then have k: "k < user_dirs s" "k < 4"
        by (simp_all add: static_simps [OF st] user_dirs_def split: if_splits)
      show "dir_ok s' ?V as' k"
      proof (cases "as' = as \<and> k = d")
        case True
        then show ?thesis
          using pae link by (simp add: dir_ok_def static_simps [OF st])
      next
        case False
        have "{pdpte s as' k, pdpte s as' k + 4} \<inter> ?T = {}"
        proof (cases "as' = as")
          case True
          then have "k \<noteq> d"
            using False by simp
          then have "8 * k \<noteq> 8 * d" "8 * k + 4 \<noteq> 8 * d" "8 * k \<noteq> 8 * d + 4"
            by presburger+
          then show ?thesis
            using pw(3,4) [OF k(2) as] pw(3,4) [OF d4 as] pae True
            by (simp add: entry_words_def word_unat_eq_iff)
        next
          case False
          then show ?thesis
            using pw(1,2) [OF k(2) as'] T pt_invD(7) [OF inv] as as' unfolding tops_ok_def by blast
        qed
        then show ?thesis
          by (intro dir_ok_agree [OF inv conf ag as' k(1)]) (use dirD(2) [OF inv as' k(1)] rp False in auto)
      qed
    next
      fix k
      assume "k < user_tabs s'"
      then have k: "k < user_tabs s"
        by (simp add: static_simps [OF st])
      let ?q = "v_dir V as' (k div ?E)"
      have role: "v_tab V as' k \<noteq> 0 \<longrightarrow> v_role ?V (v_tab V as' k) = Some (Tab as' k)"
        using tabD(2) [OF inv as' k] rp by (cases "v_tab V as' k = 0") auto
      show "tab_ok s' ?V as' k"
      proof (cases "as' = as \<and> k div ?E = d")
        case True
        then have "v_tab V as' k = 0"
          using tabD(3) [OF inv as' k] dp by simp
        then show ?thesis
          using True zero by (simp add: tab_ok_def static_simps [OF st] p0)
      next
        case False
        have "entry s' ?q (k mod ?E) = entry s ?q (k mod ?E)" if q: "?q \<noteq> 0"
          using entry_same [of ?q] dirD(2) [OF inv as' dir_of_tab [OF k] q] rp by fastforce
        then show ?thesis
          using tabD(1) [OF inv as' k] False role by (auto simp: tab_ok_def static_simps [OF st])
      qed
    qed
  qed
qed

section \<open>Looking up the table of an address\<close>

text \<open>A page taken from the allocator and cleared, before it is linked.\<close>

definition fresh :: "pmap_state \<Rightarrow> u32 \<Rightarrow> pmap_state" where
  "fresh s p = clear_page p (snd (page_alloc s))"

lemma fresh_page:
  assumes inv: "pt_inv s V (p # pg)"
  shows "fst (page_alloc s) = p" "p \<noteq> 0"
    and "fresh s p = s\<lparr>words := words (fresh s p), head_page := head_page (fresh s p), page_count := page_count (fresh s p)\<rparr>"
    and "agree s (fresh s p) {p} {}" "free_pages_are (fresh s p) pg"
    and "i < num_entries s \<Longrightarrow> entry (fresh s p) p i = 0"
    and "machine_lookup_kernel_paddr p (fresh s p) = Inr (frame s (pte_val s (kpte s p)))"
    and "frame_page s (pte_val s (kpte s p)) = p"
proof -
  let ?a = "snd (page_alloc s)"
  have al: "fst (page_alloc s) = p" "p \<noteq> 0" "free_pages_are ?a pg" "words ?a = words s"
    using page_alloc_pages [OF pt_invD(2) [OF inv]] by simp_all
  show "fst (page_alloc s) = p" "p \<noteq> 0"
    using al(1,2) by simp_all
  have a: "?a = s\<lparr>head_page := head_page ?a, page_count := page_count ?a\<rparr>"
    by (simp add: page_alloc_def Let_def)
  show f: "fresh s p = s\<lparr>words := words (fresh s p), head_page := head_page (fresh s p), page_count := page_count (fresh s p)\<rparr>"
    by (subst fresh_def, subst a) (simp add: fresh_def clear_page_def clear_pages_def al(4))
  have st: "same_static s (fresh s p)"
    by (subst f) (simp add: same_static_def)
  have rp: "v_role V p = Some FreePage" and kp: "kpage s p"
    using pt_invD(3,4) [OF inv, of p] by auto
  then have page: "page_al p"
    by (simp add: kpage_def)
  show ag: "agree s (fresh s p) {p} {}"
    using st by (simp add: agree_def fresh_def clear_page_frame [OF page] al(4))
  show "free_pages_are (fresh s p) pg"
  proof (rule agree_free [OF al(3)])
    fix q
    assume q: "q \<in> set pg"
    then have "page_al q" "q \<noteq> p"
      using pt_invD(3,4) [OF inv, of q] pt_invD(2) [OF inv] by (auto simp: kpage_def free_pages_are_def)
    then have "\<not> in_page p q"
      using page_al_unique [of p q q] page by (auto simp: in_page_def)
    then show "words (fresh s p) q = words ?a q"
      using clear_page_frame [OF page] by (simp add: fresh_def)
  qed (simp_all add: fresh_def)
  show "entry (fresh s p) p i = 0" if "i < num_entries s"
    unfolding fresh_def by (rule clear_page_entry) (use that in \<open>simp add: page_alloc_def Let_def num_entries_def split: if_splits\<close>)
  have "kernel_ok (fresh s p) V"
    by (rule agree_kernel(1) [OF inv _ ag]) (simp_all add: confined_def rp)
  then have "kpage (fresh s p) p"
    using rp by (simp add: kernel_ok_def)
  moreover have "pte_val (fresh s p) (kpte s p) = pte_val s (kpte s p)"
  proof (rule pte_val_frame [OF st])
    fix x
    assume "x \<in> entry_words s (kpte s p)"
    then have "\<not> in_page p x"
      using pt_invD(6) [OF inv] rp unfolding kernel_ok_def by blast
    then show "words (fresh s p) x = words s x"
      using ag by (simp add: agree_def)
  qed
  ultimately show "machine_lookup_kernel_paddr p (fresh s p) = Inr (frame s (pte_val s (kpte s p)))"
    using kpage_lookup by (simp add: static_simps [OF st])
  show "frame_page s (pte_val s (kpte s p)) = p"
    using kp by (simp add: kpage_def)
qed

text \<open>The state after a lookup: pages may have been allocated, nothing else has changed.\<close>

definition mem_changed :: "pmap_state \<Rightarrow> pmap_state \<Rightarrow> bool" where
  "mem_changed s s' \<longleftrightarrow> s' = s\<lparr>words := words s', head_page := head_page s', page_count := page_count s'\<rparr>"

lemma mem_changed_refl [simp]: "mem_changed s s"
  by (simp add: mem_changed_def)

lemma mem_changed_trans:
  assumes "mem_changed s t" and "mem_changed t u"
  shows "mem_changed s u"
  unfolding mem_changed_def
  by (subst assms(2) [unfolded mem_changed_def], subst assms(1) [unfolded mem_changed_def]) simp

lemma mem_changed_static:
  assumes "mem_changed s s'"
  shows "same_static s s'"
  by (subst assms [unfolded mem_changed_def]) (simp add: same_static_def)

lemma mem_changed_sel:
  assumes "mem_changed s s'"
  shows "cr3 s' = cr3 s" "cpu_ops s' = cpu_ops s" "cpu_has_feature s' = cpu_has_feature s"
    "entries_per_page_table s' = entries_per_page_table s"
  by (subst assms [unfolded mem_changed_def], simp)+

definition looked_up :: "pmap_state \<Rightarrow> pview \<Rightarrow> pmap_state \<Rightarrow> pview \<Rightarrow> bool" where
  "looked_up s V s' V' \<longleftrightarrow>
     mem_changed s s' \<and> v_spaces V' = v_spaces V \<and>
     (\<forall>as v. as \<in> v_spaces V \<longrightarrow> v < user_pages \<longrightarrow> page_entry s' V' as v = page_entry s V as v)"

lemma looked_up_refl [simp]: "looked_up s V s V"
  by (simp add: looked_up_def)

lemma looked_up_static: "looked_up s V s' V' \<Longrightarrow> same_static s s'"
  by (simp add: looked_up_def mem_changed_static)

lemma looked_up_trans: "looked_up s V t W \<Longrightarrow> looked_up t W u X \<Longrightarrow> looked_up s V u X"
  using mem_changed_trans [of s t u] by (simp add: looked_up_def)

definition dir_index :: "pmap_state \<Rightarrow> u32 \<Rightarrow> nat" where
  "dir_index s addr = unat addr div 4096 div num_entries s div num_entries s"

definition tab_index :: "pmap_state \<Rightarrow> u32 \<Rightarrow> nat" where
  "tab_index s addr = unat addr div 4096 div num_entries s"

lemma user_index:
  assumes "is_userspace_pointer addr"
  shows "unat addr div 4096 < user_pages" "tab_index s addr < user_tabs s" "dir_index s addr < user_dirs s"
proof -
  have "unat addr < 3221225472"
    using assms by (simp add: is_userspace_pointer_def JINUE_KLIMIT_def word_less_nat_alt)
  then show p: "unat addr div 4096 < user_pages"
    by (simp add: user_pages_def)
  show t: "tab_index s addr < user_tabs s"
    unfolding tab_index_def by (rule tab_of_page [OF p])
  show "dir_index s addr < user_dirs s"
    using dir_of_tab [OF t] by (simp add: dir_index_def tab_index_def)
qed

lemma pdpte_index:
  assumes "pgtable_format_pae s"
  shows "top_level (addr_spaces s as) + 8 * pdpt_offset_of addr = pdpte s as (dir_index s addr)"
proof -
  have "8 * pdpt_offset_of addr = of_nat (8 * unat (pdpt_offset_of addr))"
    by simp
  then show ?thesis
    using assms unfolding pdpte_def dir_index_def pdpt_offset_of_eq num_entries_def by simp
qed

lemma present_flags: "(ucast X86_PTE_PRESENT :: u64) = 1"
  by (simp add: X86_PTE_PRESENT_def)

lemma lookup_dir_create:
  assumes inv: "pt_inv s V (p # pg)" and as: "as \<in> v_spaces V" and addr: "is_userspace_pointer addr"
    and pae: "pgtable_format_pae s" and none: "v_dir V as (dir_index s addr) = 0"
  shows "\<exists>s'. lookup_page_directory as addr True r s = Inr (p, True, s') \<and>
    pt_inv s' (with_dir V as (dir_index s addr) p) pg \<and> looked_up s V s' (with_dir V as (dir_index s addr) p)"
proof -
  let ?d = "dir_index s addr" and ?f = "fresh s p" and ?x = "frame s (pte_val s (kpte s p))"
  let ?a = "pdpte s as ?d"
  define s' where "s' = ?f\<lparr>words := write64 ?a (?x OR 1) (words ?f)\<rparr>"
  note fr = fresh_page [OF inv]
  have rp: "v_role V p = Some FreePage"
    using pt_invD(3) [OF inv] by simp
  have st: "same_static s ?f" "same_static s s'"
    using fr(4) by (simp_all add: agree_def s'_def same_static_def)
  have d: "?d < user_dirs s" "?d < 4"
    using user_index(3) [OF addr, of s] by (simp_all add: user_dirs_def split: if_splits)
  have "\<not> present (read64 (words s) ?a)"
    using dirD(1) [OF inv as d(1)] none pae by (simp add: dir_ok_def links_def)
  then have np: "\<not> pte_is_present ?a s"
    using pae by (simp add: present_iff pte_val_def)
  have enc: "frame s (encode s ?x 1) = ?x" "frame_ok s ?x" "present (encode s ?x 1)"
    using frame_encode [OF pt_invD(1) [OF inv], of 1 ?x] frame_frame by simp_all
  have ok: "pae_set_pte ?a ?x 1 ?f = Inr s'"
    using enc(2) pae st(1) by (simp add: pae_set_pte_def frame_ok_def assert_that_def s'_def same_static_def)
  have keep: "words s' x = words ?f x" if "in_page q x" "v_role V q \<noteq> None" for q x
  proof -
    have "x \<notin> pdpt_words s as"
      using that pt_invD(7) [OF inv] as unfolding tops_ok_def by blast
    then show ?thesis
      using pdpte_words(1,2) [OF pae d(2) pdpt_bound [OF inv as pae]] by (auto simp: s'_def write64_def)
  qed
  have "lookup_page_directory as addr True r s = Inr (p, True, s')"
    using np pae fr(1,2,7) ok
    by (simp add: lookup_page_directory_def pae_lookup_page_directory_def pdpte_index fresh_def present_flags
        case_prod_beta Let_def)
  moreover have "agree s s' {p} (entry_words s ?a)"
    using fr(4) st(2) pae by (auto simp: agree_def s'_def write64_def entry_words_def)
  moreover have "free_pages_are s' pg"
  proof (rule agree_free [OF fr(5)])
    fix q
    assume "q \<in> set pg"
    then have "v_role V q = Some FreePage"
      using pt_invD(3) [OF inv] by simp
    then show "words s' q = words ?f q"
      by (intro keep [of q]) simp_all
  qed (simp_all add: s'_def)
  moreover have "links s (read64 (words s') ?a) p"
  proof -
    have "?a + 4 \<noteq> ?a"
      using pdpte_words(3,4) [OF pae d(2) pdpt_bound [OF inv as pae]] by auto
    then have "read64 (words s') ?a = encode s ?x 1"
      using pae by (simp add: s'_def encode_def)
    then show ?thesis
      using enc fr(2,8) by (simp add: links_def frame_page_def)
  qed
  moreover have "entry s' p i = 0" if i: "i < num_entries s" for i
  proof -
    have "entry s' p i = entry ?f p i"
    proof (rule entry_frame)
      show "page_al p" "i < num_entries ?f" "pgtable_format_pae s' = pgtable_format_pae ?f"
        using rp pt_invD(4) [OF inv] i by (auto simp: kpage_def static_simps [OF st(1)] s'_def)
    qed (use keep rp in simp)
    then show ?thesis
      using fr(6) [OF i] by simp
  qed
  moreover have "mem_changed s s'"
    unfolding mem_changed_def s'_def by (subst fr(3)) simp
  ultimately show ?thesis
    using link_dir [OF inv as d(1) pae none] by (simp add: looked_up_def)
qed

text \<open>What a lookup returns: the page and the state, with no page left when it fails.\<close>

definition lookup_result ::
    "pmap_state \<Rightarrow> pview \<Rightarrow> u32 list \<Rightarrow> bool \<Rightarrow> pmap_state \<Rightarrow> pview \<Rightarrow> u32 list \<Rightarrow> u32 \<Rightarrow> bool" where
  "lookup_result s V pg create s' V' pg' p \<longleftrightarrow>
     pt_inv s' V' pg' \<and> looked_up s V s' V' \<and> (\<not> create \<longrightarrow> s' = s \<and> V' = V \<and> pg' = pg) \<and>
     (p = 0 \<longrightarrow> create \<longrightarrow> pg' = [])"

lemma lookup_dir:
  assumes inv: "pt_inv s V pg" and as: "as \<in> v_spaces V" and addr: "is_userspace_pointer addr"
  shows "\<exists>p r' s' V' pg'. lookup_page_directory as addr create r s = Inr (p, r', s') \<and>
    lookup_result s V pg create s' V' pg' p \<and> v_dir V' as (dir_index s addr) = p \<and> v_tab V' = v_tab V \<and> (r \<longrightarrow> r')"
proof (cases "pgtable_format_pae s \<and> v_dir V as (dir_index s addr) = 0")
  case True
  then have np: "\<not> pte_is_present (pdpte s as (dir_index s addr)) s"
    using dirD(1) [OF inv as user_index(3) [OF addr]] by (simp add: dir_ok_def links_def present_iff pte_val_def)
  show ?thesis
  proof (cases "create \<and> pg \<noteq> []")
    case True
    then obtain p pg' where pg: "pg = p # pg'"
      by (cases pg) auto
    obtain s' where "lookup_page_directory as addr True r s = Inr (p, True, s')"
      "pt_inv s' (with_dir V as (dir_index s addr) p) pg'" "looked_up s V s' (with_dir V as (dir_index s addr) p)"
      using lookup_dir_create [OF inv [unfolded pg] as addr] \<open>pgtable_format_pae s \<and> _\<close> by blast
    moreover have "p \<noteq> 0"
      using fresh_page(2) [OF inv [unfolded pg]] .
    ultimately have "lookup_page_directory as addr create r s = Inr (p, True, s') \<and>
        lookup_result s V pg create s' (with_dir V as (dir_index s addr) p) pg' p"
      using True by (simp add: lookup_result_def)
    then show ?thesis
      by (intro exI [of _ p] exI [of _ True] exI [of _ s'] exI [of _ "with_dir V as (dir_index s addr) p"] exI [of _ pg'])
        simp
  next
    case False
    have "fst (page_alloc s) = 0 \<and> snd (page_alloc s) = s" if "pg = []"
      using page_alloc_pages [OF pt_invD(2) [OF inv]] that by simp
    then have "lookup_page_directory as addr create r s = Inr (0, r, s)"
      using False True np
      by (auto simp: lookup_page_directory_def pae_lookup_page_directory_def pdpte_index case_prod_beta Let_def)
    then show ?thesis
      using True False inv by (intro exI [of _ 0] exI [of _ r] exI [of _ s] exI [of _ V] exI [of _ pg])
        (simp add: lookup_result_def)
  qed
next
  case False
  let ?p = "v_dir V as (dir_index s addr)"
  have "?p \<noteq> 0 \<and> lookup_page_directory as addr create r s = Inr (?p, r, s)"
    using False dirD(1) [OF inv as user_index(3) [OF addr]] get_pte_paddr_frame [of "pdpte s as (dir_index s addr)" s]
    by (auto simp: dir_ok_def links_def present_iff pte_val_def lookup_page_directory_def pae_lookup_page_directory_def
        pdpte_index nopae_lookup_page_directory_def frame_page_def get_pte_paddr_def split: if_splits)
  then show ?thesis
    using inv by (intro exI [of _ ?p] exI [of _ r] exI [of _ s] exI [of _ V] exI [of _ pg]) (simp add: lookup_result_def)
qed

lemma pde_slot:
  "get_pte_with_offset s dp (page_directory_offset_of s addr) = slot s dp (tab_index s addr mod num_entries s)"
  "get_pte_with_offset s t (page_table_offset_of s addr) = slot s t (unat addr div 4096 mod num_entries s)"
  unfolding slot_def tab_index_def page_directory_offset_of_eq [symmetric] page_table_offset_of_eq [symmetric] by simp_all

lemma link_new_table:
  assumes inv: "pt_inv s V (p # pg)" and as: "as \<in> v_spaces V" and g: "g < user_tabs s"
    and dp: "v_dir V as (g div num_entries s) = dp" "dp \<noteq> 0" and t: "v_tab V as g = 0"
  shows "\<exists>s'. set_pte (slot s dp (g mod num_entries s)) (frame s (pte_val s (kpte s p))) 7 (fresh s p) = Inr s' \<and>
    pt_inv s' (with_tab V as g p) pg \<and> looked_up s V s' (with_tab V as g p)"
proof -
  let ?E = "num_entries s" and ?f = "fresh s p" and ?x = "frame s (pte_val s (kpte s p))"
  note fr = fresh_page [OF inv]
  have rp: "v_role V p = Some FreePage" and rdp: "v_role V dp = Some (Dir as (g div ?E))"
    using pt_invD(3) [OF inv] dirD(2) [OF inv as dir_of_tab [OF g]] dp by auto
  have st: "same_static s ?f"
    using fr(4) by (simp add: agree_def)
  have al: "page_al p" "page_al dp"
    using pt_invD(4) [OF inv rp] pt_invD(4) [OF inv rdp] by (simp_all add: kpage_def)
  have disj: "\<not> in_page q x" if "in_page dp x" "q = p \<or> q \<in> set pg" for q x
  proof -
    have "v_role V q = Some FreePage"
      using that(2) pt_invD(3) [OF inv] by auto
    then have "page_al q" "q \<noteq> dp"
      using pt_invD(4) [OF inv] rdp by (auto simp: kpage_def)
    then show ?thesis
      using page_al_unique [OF al(2) _ that(1)] by auto
  qed
  have enc: "frame s (encode s ?x 7) = ?x" "frame_ok s ?x" "present (encode s ?x 7)"
    using frame_encode [OF pt_invD(1) [OF inv], of 7 ?x] frame_frame by simp_all
  obtain m where m: "set_pte (slot s dp (g mod ?E)) ?x 7 ?f = Inr (?f\<lparr>words := m\<rparr>)"
      "\<And>y. \<not> in_page dp y \<Longrightarrow> m y = words ?f y"
      "entry (?f\<lparr>words := m\<rparr>) dp (g mod ?E) = encode s ?x 7"
      "\<And>j. j < ?E \<Longrightarrow> j \<noteq> g mod ?E \<Longrightarrow> entry (?f\<lparr>words := m\<rparr>) dp j = entry ?f dp j"
    using set_pte_ok [OF al(2), of "g mod ?E" ?f ?x 7] enc(2) by (auto simp: static_simps [OF st])
  define s' where "s' = ?f\<lparr>words := m\<rparr>"
  have "agree s s' {p, dp} {}"
    using fr(4) m(2) by (simp add: agree_def s'_def same_static_def)
  moreover have "free_pages_are s' pg"
  proof (rule agree_free [OF fr(5)])
    show "words s' q = words ?f q" if "q \<in> set pg" for q
      using m(2) [of q] disj [of q q] that by (auto simp: s'_def)
  qed (simp_all add: s'_def)
  moreover have "entry s' dp i = entry s dp i" if "i < ?E" "i \<noteq> g mod ?E" for i
  proof -
    have "entry ?f dp i = entry s dp i"
      by (rule agree_entry [OF inv _ fr(4)]) (use that(1) rp rdp in \<open>auto simp: confined_def\<close>)
    then show ?thesis
      using m(4) [OF that] by (simp add: s'_def)
  qed
  moreover have "links s (entry s' dp (g mod ?E)) p"
    using m(3) enc fr(2,8) by (simp add: links_def s'_def frame_page_def)
  moreover have "entry s' p i = 0" if i: "i < ?E" for i
  proof -
    have "entry s' p i = entry ?f p i"
      by (rule entry_frame) (use al i m(2) disj in \<open>auto simp: static_simps [OF st] s'_def\<close>)
    then show ?thesis
      using fr(6) [OF i] by simp
  qed
  moreover have "mem_changed s s'"
    unfolding mem_changed_def s'_def by (subst fr(3)) simp
  ultimately show ?thesis
    using link_tab [OF inv as g dp t, of s'] m(1) by (simp add: looked_up_def s'_def)
qed

lemma user_flags: "(ucast ((X86_PTE_READ_WRITE OR X86_PTE_PRESENT) OR X86_PTE_USER) :: u64) = 7"
  by (simp add: X86_PTE_READ_WRITE_def X86_PTE_PRESENT_def X86_PTE_USER_def)

lemma lookup_tab:
  assumes inv: "pt_inv s V pg" and as: "as \<in> v_spaces V" and addr: "is_userspace_pointer addr" "page_al addr"
  shows "\<exists>p r' s' V' pg'. lookup_userspace_page_table as addr create r s = Inr (p, r', s') \<and>
    lookup_result s V pg create s' V' pg' p \<and> v_tab V' as (tab_index s addr) = p \<and> (r \<longrightarrow> r')"
proof -
  let ?E = "num_entries s" and ?g = "tab_index s addr"
  obtain dp r1 s1 V1 pg1 where l1: "lookup_page_directory as addr create r s = Inr (dp, r1, s1)"
      "lookup_result s V pg create s1 V1 pg1 dp" "v_dir V1 as (dir_index s addr) = dp" "v_tab V1 = v_tab V" "r \<longrightarrow> r1"
    using lookup_dir [OF inv as addr(1)] by blast
  have inv1: "pt_inv s1 V1 pg1" and lu1: "looked_up s V s1 V1" and as1: "as \<in> v_spaces V1"
    using l1(2) as by (simp_all add: lookup_result_def looked_up_def)
  note st = looked_up_static [OF lu1]
  have g: "?g < user_tabs s" "?g < user_tabs s1"
    using user_index(2) [OF addr(1), of s] by (simp_all add: static_simps [OF st])
  have dg: "?g div ?E = dir_index s addr"
    by (simp add: tab_index_def dir_index_def)
  have tidx: "tab_index s1 addr = ?g"
    by (simp add: tab_index_def static_simps [OF st])
  let ?pde = "slot s1 dp (?g mod ?E)"
  have pde: "get_pte_with_offset s1 dp (page_directory_offset_of s1 addr) = ?pde"
    by (simp add: pde_slot tidx static_simps [OF st])
  note unf = lookup_userspace_page_table_def assert_that_def page_offset_of_0_iff Let_def case_prod_beta
  consider "dp = 0" | "dp \<noteq> 0" "v_tab V1 as ?g \<noteq> 0" | "dp \<noteq> 0" "v_tab V1 as ?g = 0" "\<not> (create \<and> pg1 \<noteq> [])"
    | p pg' where "dp \<noteq> 0" "v_tab V1 as ?g = 0" "create" "pg1 = p # pg'"
    by (cases pg1) auto
  then show ?thesis
  proof cases
    case 1
    then have "lookup_userspace_page_table as addr create r s = Inr (0, r1, s1)" "v_tab V1 as ?g = 0"
      using l1(1) addr tabD(3) [OF inv1 as1 g(2)] l1(3) dg by (simp_all add: unf static_simps [OF st])
    then show ?thesis
      using l1(2,5) 1 by blast
  next
    case 2
    let ?t = "v_tab V1 as ?g"
    have "links s1 (entry s1 dp (?g mod ?E)) ?t"
      using tabD(1) [OF inv1 as1 g(2)] l1(3) dg 2 by (simp add: tab_ok_def static_simps [OF st])
    then have "lookup_userspace_page_table as addr create r s = Inr (?t, r1, s1)"
      using l1(1) addr 2 pde by (simp add: unf links_def present_iff get_pte_paddr_frame frame_page_def)
    moreover have "lookup_result s V pg create s1 V1 pg1 ?t"
      using l1(2) 2 by (simp add: lookup_result_def)
    ultimately show ?thesis
      using l1(5) by blast
  next
    case 3
    have "links s1 (entry s1 dp (?g mod ?E)) 0"
      using tabD(1) [OF inv1 as1 g(2)] l1(3) dg 3 by (simp add: tab_ok_def static_simps [OF st])
    moreover have "fst (page_alloc s1) = 0 \<and> snd (page_alloc s1) = s1" if "pg1 = []"
      using page_alloc_pages [OF pt_invD(2) [OF inv1]] that by simp
    ultimately have "lookup_userspace_page_table as addr create r s = Inr (0, r1, s1)"
      using l1(1) addr 3 pde by (auto simp: unf links_def present_iff)
    moreover have "lookup_result s V pg create s1 V1 pg1 0"
      using l1(2) 3 by (simp add: lookup_result_def)
    ultimately show ?thesis
      using l1(5) 3 by blast
  next
    case 4
    have np: "links s1 (entry s1 dp (?g mod ?E)) 0"
      using tabD(1) [OF inv1 as1 g(2)] l1(3) dg 4 by (simp add: tab_ok_def static_simps [OF st])
    note inv4 = inv1 [unfolded 4(4)]
    note fr = fresh_page [OF inv4]
    obtain s' where s': "set_pte ?pde (frame s1 (pte_val s1 (kpte s1 p))) 7 (fresh s1 p) = Inr s'"
        "pt_inv s' (with_tab V1 as ?g p) pg'" "looked_up s1 V1 s' (with_tab V1 as ?g p)"
      using link_new_table [OF inv4 as1 g(2), of dp] l1(3) dg 4 by (auto simp: static_simps [OF st])
    have "lookup_userspace_page_table as addr create r s = Inr (p, r1, s')"
      using l1(1) addr 4 pde np fr(1,2,7) s'(1) by (simp add: unf links_def present_iff fresh_def user_flags)
    moreover have "lookup_result s V pg create s' (with_tab V1 as ?g p) pg' p"
      using 4 s' looked_up_trans [OF lu1 s'(3)] fr(2) by (simp add: lookup_result_def)
    ultimately show ?thesis
      using l1(5) by (intro exI [of _ p] exI [of _ r1] exI [of _ s'] exI [of _ "with_tab V1 as ?g p"] exI [of _ pg']) simp
  qed
qed

text \<open>What the lookup of the code finds is the entry of the view.\<close>

lemma user_pte_page_entry:
  assumes inv: "pt_inv s V pg" and as: "as \<in> v_spaces V" and addr: "is_userspace_pointer addr" "page_al addr"
  shows "user_pte as addr s = page_entry s V as (unat addr div 4096)"
proof -
  obtain p r' where "lookup_userspace_page_table as addr False False s = Inr (p, r', s)" "v_tab V as (tab_index s addr) = p"
    using lookup_tab [OF assms, of False False] by (auto simp: lookup_result_def)
  then show ?thesis
    by (simp add: user_pte_def page_entry_def pde_slot tab_index_def)
qed

end
