(* ===== verification/PmapMap.thy ===== *)
theory PmapMap
  imports PmapOps
begin

unbundle bit_operations_syntax

text \<open>
  Mapping a range of user space, \<open>machine_map_userspace\<close>: the loop over the pages writes the entry
  of each page once, whatever tables exist when it starts, and stops early only when no page is
  left for a table.
\<close>

lemma pt_inv_same:
  assumes "same_static s s'" and "words s' = words s" and "head_page s' = head_page s" and "page_count s' = page_count s"
  shows "pt_inv s' V pg = pt_inv s V pg" "page_entry s' V as v = page_entry s V as v"
proof -
  have e: "pte_val s' a = pte_val s a" for a
    using assms(2) by (simp add: pte_val_def static_simps [OF assms(1)])
  then show "page_entry s' V as v = page_entry s V as v"
    by (simp add: page_entry_def static_simps [OF assms(1)])
  have "kpage s' p = kpage s p" for p
    by (simp add: kpage_def e static_simps [OF assms(1)])
  moreover have "dir_ok s' V as d = dir_ok s V as d" "tab_ok s' V as g = tab_ok s V as g" for as d g
    by (simp_all add: dir_ok_def tab_ok_def e assms(2) static_simps [OF assms(1)])
  ultimately show "pt_inv s' V pg = pt_inv s V pg"
    using assms(2-4)
    by (simp add: pt_inv_def space_ok_def tops_ok_def kernel_ok_def free_pages_are_def static_simps [OF assms(1)])
qed

lemma map_page:
  assumes inv: "pt_inv s V pg" and as: "as \<in> v_spaces V" and v: "v < user_pages"
    and t: "v_tab V as (v div num_entries s) = t" "t \<noteq> 0" and x: "frame_ok s x"
  shows "\<exists>m. set_pte (slot s t (v mod num_entries s)) x fl s = Inr (s\<lparr>words := m\<rparr>) \<and> pt_inv (s\<lparr>words := m\<rparr>) V pg \<and>
    (\<forall>as' v'. as' \<in> v_spaces V \<longrightarrow> v' < user_pages \<longrightarrow>
      page_entry (s\<lparr>words := m\<rparr>) V as' v' = (if as' = as \<and> v' = v then encode s x fl else page_entry s V as' v'))"
proof -
  let ?E = "num_entries s"
  have role: "v_role V t = Some (Tab as (v div ?E))"
    using tabD(2) [OF inv as tab_of_page [OF v]] t by simp
  have al: "page_al t"
    using pt_invD(4) [OF inv role] by (simp add: kpage_def)
  obtain m where m: "set_pte (slot s t (v mod ?E)) x fl s = Inr (s\<lparr>words := m\<rparr>)"
      "\<And>y. \<not> in_page t y \<Longrightarrow> m y = words s y" "entry (s\<lparr>words := m\<rparr>) t (v mod ?E) = encode s x fl"
      "\<And>j. j < ?E \<Longrightarrow> j \<noteq> v mod ?E \<Longrightarrow> entry (s\<lparr>words := m\<rparr>) t j = entry s t j"
    using set_pte_ok [OF al, of "v mod ?E" s x fl] x by auto
  let ?s = "s\<lparr>words := m\<rparr>"
  have ag: "agree s ?s {t} {}"
    using m(2) by (simp add: agree_def)
  note leaf = leaf_inv [OF inv as tab_of_page [OF v] t ag, simplified]
  have "page_entry ?s V as' v' = (if as' = as \<and> v' = v then encode s x fl else page_entry s V as' v')"
    if "as' \<in> v_spaces V" "v' < user_pages" for as' v'
  proof (cases "as' = as \<and> v' div ?E = v div ?E")
    case True
    then have "v' mod ?E = v mod ?E \<longleftrightarrow> v' = v"
      by (metis div_mult_mod_eq)
    then show ?thesis
      using True m(3) m(4) [of "v' mod ?E"] t by (auto simp: page_entry_def num_entries_def)
  next
    case False
    then show ?thesis
      using leaf(2) [OF that] by auto
  qed
  then show ?thesis
    using m(1) leaf(1) by blast
qed

text \<open>The number of pages of a range of \<open>n\<close> bytes.\<close>

definition pages_of :: "u32 \<Rightarrow> nat" where
  "pages_of n = (unat n + 4095) div 4096"

lemma loop_fuel_pages: "loop_fuel PAGE_SIZE n = Suc (pages_of n)"
  by (simp add: loop_fuel_def pages_of_def PAGE_SIZE_def)

lemma unat_page_offset:
  assumes "j \<le> pages_of n" and "unat n \<le> 3221225472"
  shows "unat (of_nat (4096 * j) :: u32) = 4096 * j"
proof -
  have "4096 * j \<le> unat n + 4095"
    using assms(1) by (simp add: pages_of_def)
  then show ?thesis
    using assms(2) by (intro unat_of_nat_u32) simp
qed

lemma page_offset_less:
  assumes "j \<le> pages_of n" and "unat n \<le> 3221225472"
  shows "of_nat (4096 * j) < n \<longleftrightarrow> j < pages_of n"
  using unat_page_offset [OF assms] by (auto simp: word_less_nat_alt pages_of_def)

text \<open>A page of the range is a page of user space.\<close>

lemma page_in_range:
  assumes "page_al addr" and "unat addr + unat n \<le> 3221225472" and "j < pages_of n"
  shows "unat (addr + of_nat (4096 * j)) = unat addr + 4096 * j" "is_userspace_pointer (addr + of_nat (4096 * j))"
    "page_al (addr + of_nat (4096 * j))" "unat (addr + of_nat (4096 * j)) div 4096 = unat addr div 4096 + j"
    "unat addr div 4096 + j < user_pages"
proof -
  have lt: "4096 * j < unat n"
    using assms(3) by (simp add: pages_of_def)
  show u: "unat (addr + of_nat (4096 * j)) = unat addr + 4096 * j"
    by (rule unat_add_nat_u32) (use assms(2) lt in simp)
  then show user: "is_userspace_pointer (addr + of_nat (4096 * j))"
    using assms(2) lt by (simp add: is_userspace_pointer_def JINUE_KLIMIT_def word_less_nat_alt)
  show "page_al (addr + of_nat (4096 * j))"
    using assms(1) unfolding page_al_def u by simp
  show v: "unat (addr + of_nat (4096 * j)) div 4096 = unat addr div 4096 + j"
    unfolding u by simp
  show "unat addr div 4096 + j < user_pages"
    using user_index(1) [OF user] v by simp
qed

section \<open>The loop\<close>

definition page_frame :: "u64 \<Rightarrow> nat \<Rightarrow> u64" where
  "page_frame paddr i = paddr + of_nat (4096 * i)"

lemma page_frame_offset:
  assumes "j \<le> pages_of n" and "unat n \<le> 3221225472"
  shows "paddr + ucast (of_nat (4096 * j) :: u32) = page_frame paddr j"
proof -
  have "ucast (of_nat (4096 * j) :: u32) = (of_nat (unat (of_nat (4096 * j) :: u32)) :: u64)"
    by (simp only: of_nat_unat)
  then show ?thesis
    unfolding unat_page_offset [OF assms] by (simp add: page_frame_def)
qed

text \<open>The position in the tables: in a table, or at the end of one.\<close>

definition at_page :: "pmap_state \<Rightarrow> pview \<Rightarrow> nat \<Rightarrow> nat \<Rightarrow> u32 \<Rightarrow> u32 \<Rightarrow> bool" where
  "at_page s V as v pte idx \<longleftrightarrow>
     (if unat idx = num_entries s then v mod num_entries s = 0
      else unat idx = v mod num_entries s \<and> v_tab V as (v div num_entries s) = pte \<and> pte \<noteq> 0)"

lemma at_next_page:
  assumes "unat idx = v mod num_entries s" and "v_tab V as (v div num_entries s) = pte" and "pte \<noteq> 0"
    and "num_entries s' = num_entries s"
  shows "at_page s' V as (Suc v) pte (idx + 1)"
proof -
  have i: "unat idx < num_entries s"
    by (simp add: assms(1))
  then have u: "unat (idx + 1) = Suc (v mod num_entries s)"
    using unat_add_u32 [of idx 1] assms(1) by (simp add: num_entries_def split: if_splits)
  show ?thesis
    using u i assms by (auto simp: at_page_def mod_Suc div_Suc)
qed

text \<open>
  What mapping the pages \<open>j\<close> to \<open>J - 1\<close> of the range changes: exactly their entries, in one
  address space.
\<close>

definition range_mapped ::
    "pmap_state \<Rightarrow> pview \<Rightarrow> pmap_state \<Rightarrow> pview \<Rightarrow> nat \<Rightarrow> nat \<Rightarrow> nat \<Rightarrow> nat \<Rightarrow> u64 \<Rightarrow> u64 \<Rightarrow> bool" where
  "range_mapped s V s' V' as v0 j J paddr fl \<longleftrightarrow>
     (\<forall>as' v. as' \<in> v_spaces V \<longrightarrow> v < user_pages \<longrightarrow>
       page_entry s' V' as' v =
         (if as' = as \<and> v0 + j \<le> v \<and> v < v0 + J then encode s (page_frame paddr (v - v0)) fl else page_entry s V as' v))"

definition loop_result ::
    "pmap_state \<Rightarrow> pview \<Rightarrow> nat \<Rightarrow> u32 \<Rightarrow> u32 \<Rightarrow> u64 \<Rightarrow> u64 \<Rightarrow> bool \<Rightarrow> nat \<Rightarrow> bool \<Rightarrow>
      bool \<Rightarrow> bool \<Rightarrow> pmap_state \<Rightarrow> pview \<Rightarrow> u32 list \<Rightarrow> nat \<Rightarrow> bool" where
  "loop_result s V as addr n paddr fl inval j r ok r' s' V' pg' J \<longleftrightarrow>
     pt_inv s' V' pg' \<and> v_spaces V' = v_spaces V \<and> same_static s s' \<and> cr3 s' = cr3 s \<and> j \<le> J \<and> J \<le> pages_of n \<and>
     (ok \<longleftrightarrow> J = pages_of n) \<and> (\<not> ok \<longrightarrow> pg' = []) \<and> (r \<longrightarrow> r') \<and>
     range_mapped s V s' V' as (unat addr div 4096) j J paddr fl \<and>
     (\<exists>ops. cpu_ops s' = cpu_ops s @ ops) \<and>
     (inval \<longrightarrow> \<not> r' \<longrightarrow> cpu_ops s' = cpu_ops s @ map (\<lambda>i. Invlpg (addr + of_nat (4096 * i))) [j..<J])"

lemma loop_result_step:
  assumes looked: "looked_up s V s1 V1" and same: "same_static s1 s2" "cr3 s2 = cr3 s1"
    and mapped: "\<And>as' v. as' \<in> v_spaces V1 \<Longrightarrow> v < user_pages \<Longrightarrow>
      page_entry s2 V1 as' v = (if as' = as \<and> v = unat addr div 4096 + j then encode s1 (page_frame paddr j) fl
        else page_entry s1 V1 as' v)"
    and ops: "cpu_ops s2 = cpu_ops s1 @ (if inval \<and> \<not> r1 then [Invlpg (addr + of_nat (4096 * j))] else [])"
    and r1: "r \<longrightarrow> r1" and res: "loop_result s2 V1 as addr n paddr fl inval (Suc j) r1 ok r' s' V' pg' J"
  shows "loop_result s V as addr n paddr fl inval j r ok r' s' V' pg' J"
proof -
  let ?v0 = "unat addr div 4096"
  note st = looked_up_static [OF looked] same_static_trans [OF looked_up_static [OF looked] same(1)]
  have sp: "v_spaces V1 = v_spaces V" and sel: "cr3 s1 = cr3 s" "cpu_ops s1 = cpu_ops s"
    using looked mem_changed_sel [of s s1] by (simp_all add: looked_up_def)
  have pe: "page_entry s1 V1 as' v = page_entry s V as' v" if "as' \<in> v_spaces V" "v < user_pages" for as' v
    using looked that by (simp add: looked_up_def)
  have j: "Suc j \<le> J"
    using res by (simp add: loop_result_def)
  have "range_mapped s V s' V' as ?v0 j J paddr fl"
    unfolding range_mapped_def
  proof (intro allI impI)
    fix as' v
    assume a: "as' \<in> v_spaces V" "v < user_pages"
    then have "page_entry s' V' as' v = (if as' = as \<and> ?v0 + Suc j \<le> v \<and> v < ?v0 + J
        then encode s (page_frame paddr (v - ?v0)) fl else page_entry s2 V1 as' v)"
      using res sp unfolding loop_result_def range_mapped_def static_simps(16) [OF st(2)] by blast
    moreover have "page_entry s2 V1 as' v =
        (if as' = as \<and> v = ?v0 + j then encode s (page_frame paddr j) fl else page_entry s V as' v)"
      using mapped [of as' v] a pe [of as' v] sp by (simp add: static_simps [OF st(1)])
    ultimately show "page_entry s' V' as' v = (if as' = as \<and> ?v0 + j \<le> v \<and> v < ?v0 + J
        then encode s (page_frame paddr (v - ?v0)) fl else page_entry s V as' v)"
      using j by (cases "v = ?v0 + j") auto
  qed
  moreover have "[j..<J] = j # [Suc j..<J]"
    using j by (simp add: upt_conv_Cons)
  ultimately show ?thesis
    using res r1 sp sel same(2) ops same_static_trans [OF st(2), of s'] by (auto simp: loop_result_def)
qed

lemma loop_enter_table:
  assumes inv: "pt_inv s V pg" and as: "as \<in> v_spaces V" and addr: "page_al addr" "unat addr + unat n \<le> 3221225472"
    and j: "j < pages_of n" and pos: "at_page s V as (unat addr div 4096 + j) pte idx"
  shows "\<exists>pte' idx' r' s' V' pg'.
    (if idx \<ge> entries_per_page_table s
     then bind_ok (lookup_userspace_page_table as (addr + of_nat (4096 * j)) True r s)
            (\<lambda>(pte, must_reload_cr3, s). Inr (pte, 0, must_reload_cr3, s))
     else Inr (pte, idx, r, s)) = Inr (pte', idx', r', s') \<and>
    pt_inv s' V' pg' \<and> looked_up s V s' V' \<and> (r \<longrightarrow> r') \<and> (pte' = 0 \<longrightarrow> pg' = []) \<and>
    v_tab V' as ((unat addr div 4096 + j) div num_entries s) = pte' \<and> unat idx' = (unat addr div 4096 + j) mod num_entries s"
proof -
  note pr = page_in_range [OF addr j]
  have e: "unat (entries_per_page_table s) = num_entries s"
    using pt_invD(1) [OF inv] by (simp add: fmt_ok_def)
  let ?v = "unat addr div 4096 + j"
  let ?L = "if idx \<ge> entries_per_page_table s
     then bind_ok (lookup_userspace_page_table as (addr + of_nat (4096 * j)) True r s)
            (\<lambda>(pte, must_reload_cr3, s). Inr (pte, 0 :: u32, must_reload_cr3, s))
     else Inr (pte, idx, r, s)"
  show ?thesis
  proof (cases "unat idx = num_entries s")
    case True
    obtain p r' s' V' pg' where l: "lookup_userspace_page_table as (addr + of_nat (4096 * j)) True r s = Inr (p, r', s')"
        "lookup_result s V pg True s' V' pg' p" "v_tab V' as (tab_index s (addr + of_nat (4096 * j))) = p" "r \<longrightarrow> r'"
      using lookup_tab [OF inv as pr(2,3)] by blast
    then have "?L = Inr (p, 0, r', s') \<and> pt_inv s' V' pg' \<and> looked_up s V s' V' \<and> (p = 0 \<longrightarrow> pg' = []) \<and>
        v_tab V' as (?v div num_entries s) = p \<and> unat (0 :: u32) = ?v mod num_entries s"
      using True pos e pr(4)
      by (simp add: word_le_nat_alt lookup_result_def tab_index_def at_page_def del: of_nat_mult)
    then show ?thesis
      using l(4) by blast
  next
    case False
    then have "\<not> idx \<ge> entries_per_page_table s"
      using pos e by (simp add: at_page_def word_le_nat_alt not_le)
    then have "?L = Inr (pte, idx, r, s) \<and> pte \<noteq> 0 \<and> v_tab V as (?v div num_entries s) = pte \<and>
        unat idx = ?v mod num_entries s"
      using False pos by (simp add: at_page_def)
    then show ?thesis
      using inv looked_up_refl [of s V] by blast
  qed
qed

lemma map_userspace_loop_ok:
  assumes "pt_inv s V pg" and "as \<in> v_spaces V" and addr: "page_al addr" "unat addr + unat n \<le> 3221225472"
    and "\<And>i. i < pages_of n \<Longrightarrow> frame_ok s (page_frame paddr i)"
    and "j \<le> pages_of n" and "pages_of n - j < k" and "at_page s V as (unat addr div 4096 + j) pte idx"
  shows "\<exists>ok r' s' V' pg' J.
    map_userspace_loop k as addr n paddr fl inval (of_nat (4096 * j)) pte idx r s = Inr (ok, r', s') \<and>
    loop_result s V as addr n paddr fl inval j r ok r' s' V' pg' J"
  using assms(1,2,5-)
proof (induction k arbitrary: s V pg j pte idx r)
  case 0
  then show ?case
    by simp
next
  case (Suc k)
  have n: "unat n \<le> 3221225472"
    using addr(2) by simp
  show ?case
  proof (cases "j < pages_of n")
    case False
    then have "map_userspace_loop (Suc k) as addr n paddr fl inval (of_nat (4096 * j)) pte idx r s = Inr (True, r, s)"
      using page_offset_less [OF Suc.prems(4) n] by (simp del: of_nat_mult)
    moreover have "loop_result s V as addr n paddr fl inval j r True r s V pg j"
      using False Suc.prems(1,4) by (auto simp: loop_result_def range_mapped_def)
    ultimately show ?thesis
      by blast
  next
    case True
    let ?v = "unat addr div 4096 + j"
    obtain pte' idx' r1 s1 V1 pg1 where e:
      "(if idx \<ge> entries_per_page_table s
        then bind_ok (lookup_userspace_page_table as (addr + of_nat (4096 * j)) True r s)
               (\<lambda>(pte, must_reload_cr3, s). Inr (pte, 0, must_reload_cr3, s))
        else Inr (pte, idx, r, s)) = Inr (pte', idx', r1, s1)"
      and t: "pt_inv s1 V1 pg1" "looked_up s V s1 V1" "r \<longrightarrow> r1" "pte' = 0 \<longrightarrow> pg1 = []"
        "v_tab V1 as (?v div num_entries s) = pte'" "unat idx' = ?v mod num_entries s"
      using loop_enter_table [OF Suc.prems(1,2) addr True Suc.prems(6), of r] by blast
    note st = looked_up_static [OF t(2)]
    note step = map_userspace_loop.simps(2) [of k as addr n paddr fl inval "of_nat (4096 * j)" pte idx r s]
    have less: "of_nat (4096 * j) < n"
      using page_offset_less [OF Suc.prems(4) n] True by simp
    show ?thesis
    proof (cases "pte' = 0")
      case True
      then have "map_userspace_loop (Suc k) as addr n paddr fl inval (of_nat (4096 * j)) pte idx r s = Inr (False, r1, s1)"
        unfolding step e using less by (simp del: of_nat_mult)
      moreover have "loop_result s V as addr n paddr fl inval j r False r1 s1 V1 pg1 j"
        using t True \<open>j < pages_of n\<close> st mem_changed_sel [of s s1]
        by (auto simp: loop_result_def range_mapped_def looked_up_def)
      ultimately show ?thesis
        by blast
    next
      case False
      have as1: "as \<in> v_spaces V1"
        using t(2) Suc.prems(2) by (simp add: looked_up_def)
      have fo: "frame_ok s1 (page_frame paddr i)" if "i < pages_of n" for i
        using Suc.prems(3) [OF that] by (simp add: static_simps [OF st])
      obtain m where m: "set_pte (slot s1 pte' (?v mod num_entries s)) (page_frame paddr j) fl s1 = Inr (s1\<lparr>words := m\<rparr>)"
          "pt_inv (s1\<lparr>words := m\<rparr>) V1 pg1"
          "\<And>as' v'. as' \<in> v_spaces V1 \<Longrightarrow> v' < user_pages \<Longrightarrow> page_entry (s1\<lparr>words := m\<rparr>) V1 as' v' =
            (if as' = as \<and> v' = ?v then encode s1 (page_frame paddr j) fl else page_entry s1 V1 as' v')"
        using map_page [OF t(1) as1 page_in_range(5) [OF addr True], of pte' "page_frame paddr j" fl] t(5) False fo [OF True]
        by (auto simp: static_simps [OF st])
      define s2 where "s2 = (if inval \<and> \<not> r1 then invlpg (addr + of_nat (4096 * j)) (s1\<lparr>words := m\<rparr>) else s1\<lparr>words := m\<rparr>)"
      have st2: "same_static (s1\<lparr>words := m\<rparr>) s2" "same_static s1 s2" "cr3 s2 = cr3 s1"
        "words s2 = words (s1\<lparr>words := m\<rparr>)" "head_page s2 = head_page (s1\<lparr>words := m\<rparr>)"
        "page_count s2 = page_count (s1\<lparr>words := m\<rparr>)"
        by (simp_all add: s2_def invlpg_def same_static_def)
      note same = pt_inv_same [OF st2(1,4-6)]
      have "idx' = of_nat (?v mod num_entries s)"
        by (simp add: t(6) [symmetric])
      then have sl: "get_pte_with_offset s1 pte' idx' = slot s1 pte' (?v mod num_entries s)"
        by (simp add: slot_def)
      have "map_userspace_loop (Suc k) as addr n paddr fl inval (of_nat (4096 * j)) pte idx r s =
          map_userspace_loop k as addr n paddr fl inval (of_nat (4096 * Suc j)) pte' (idx' + 1) r1 s2"
        unfolding step e using less False m(1) page_frame_offset [OF Suc.prems(4) n, of paddr]
        by (simp add: sl s2_def PAGE_SIZE_def Let_def algebra_simps)
      moreover have "\<exists>ok r' s' V' pg' J.
          map_userspace_loop k as addr n paddr fl inval (of_nat (4096 * Suc j)) pte' (idx' + 1) r1 s2 = Inr (ok, r', s') \<and>
          loop_result s2 V1 as addr n paddr fl inval (Suc j) r1 ok r' s' V' pg' J"
      proof (rule Suc.IH)
        show "pt_inv s2 V1 pg1" "as \<in> v_spaces V1" "Suc j \<le> pages_of n" "pages_of n - Suc j < k"
          using same(1) m(2) as1 True Suc.prems(5) by simp_all
        show "frame_ok s2 (page_frame paddr i)" if "i < pages_of n" for i
          using fo [OF that] by (simp add: static_simps [OF st2(2)])
        show "at_page s2 V1 as (unat addr div 4096 + Suc j) pte' (idx' + 1)"
          using at_next_page [of idx' ?v s V1 as pte' s2] t(5,6) False
          by (simp add: static_simps [OF st2(2)] static_simps [OF st])
      qed
      moreover have "loop_result s V as addr n paddr fl inval j r ok r' s' V' pg' J"
        if "loop_result s2 V1 as addr n paddr fl inval (Suc j) r1 ok r' s' V' pg' J" for ok r' s' V' pg' J
        by (rule loop_result_step [OF t(2) st2(2,3) _ _ t(3) that]) (use m(3) same(2) in \<open>simp_all add: s2_def invlpg_def\<close>)
      ultimately show ?thesis
        by metis
    qed
  qed
qed

section \<open>The whole operation\<close>

lemma user_flag: "(ucast X86_PTE_USER :: u64) = 4"
  by (simp add: X86_PTE_USER_def)

lemma map_arch_page_flags_cong: "cpu_has_feature s' = cpu_has_feature s \<Longrightarrow> map_arch_page_flags prot flags s' = map_arch_page_flags prot flags s"
  by (simp add: map_arch_page_flags_def)

text \<open>The entries after mapping the first \<open>J\<close> pages of the range.\<close>

definition user_range_mapped ::
    "nat set \<Rightarrow> nat \<Rightarrow> u32 \<Rightarrow> nat \<Rightarrow> u64 \<Rightarrow> u64 \<Rightarrow> pmap_state \<Rightarrow> pmap_state \<Rightarrow> bool" where
  "user_range_mapped spaces as addr J paddr fl s s' \<longleftrightarrow>
     (\<forall>as' \<in> spaces. \<forall>a. is_userspace_pointer a \<longrightarrow> page_al a \<longrightarrow>
       user_pte as' a s' =
         (if as' = as \<and> unat addr \<le> unat a \<and> unat a < unat addr + 4096 * J
          then encode s (page_frame paddr ((unat a - unat addr) div 4096)) fl else user_pte as' a s))"

text \<open>A page is flushed when its translation is invalidated or the page tables are loaded again.\<close>

definition flushed :: "cpu_op list \<Rightarrow> u32 \<Rightarrow> bool" where
  "flushed ops a \<longleftrightarrow> Invlpg a \<in> set ops \<or> (\<exists>v. SetCr3 v \<in> set ops)"

lemma user_range_mapped_intro:
  assumes inv: "pt_inv s V pg" and inv': "pt_inv s' V' pg'" and sp: "v_spaces V' = v_spaces V" and addr: "page_al addr"
    and m: "range_mapped s V s' V' as (unat addr div 4096) 0 J paddr fl"
  shows "user_range_mapped (v_spaces V) as addr J paddr fl s s'"
  unfolding user_range_mapped_def
proof (intro ballI allI impI)
  fix as' a
  assume a: "as' \<in> v_spaces V" "is_userspace_pointer a" "page_al a"
  obtain i k where ik: "unat a = 4096 * i" "unat addr = 4096 * k"
    using a(3) addr unfolding page_al_def by (metis mod_0_imp_dvd dvdE)
  have "page_entry s' V' as' i = (if as' = as \<and> k \<le> i \<and> i < k + J
      then encode s (page_frame paddr (i - k)) fl else page_entry s V as' i)"
    using m a(1) user_index(1) [OF a(2)] by (simp add: range_mapped_def ik)
  then show "user_pte as' a s' = (if as' = as \<and> unat addr \<le> unat a \<and> unat a < unat addr + 4096 * J
      then encode s (page_frame paddr ((unat a - unat addr) div 4096)) fl else user_pte as' a s)"
    using user_pte_page_entry [OF inv a(1-3)] user_pte_page_entry [OF inv' _ a(2,3)] a(1) sp
    by (simp add: ik flip: diff_mult_distrib2)
qed

lemma machine_map_userspace_ok:
  assumes inv: "pt_inv s V pg" and as: "as \<in> v_spaces V" and addr: "page_al addr" "unat addr + unat n \<le> 3221225472"
    and user: "is_userspace_pointer addr" and frames: "\<And>i. i < pages_of n \<Longrightarrow> frame_ok s (page_frame paddr i)"
  shows "\<exists>ok s' V' pg' J ops. machine_map_userspace as addr n paddr prot flags s = Inr (ok, s') \<and>
    pt_inv s' V' pg' \<and> v_spaces V' = v_spaces V \<and> J \<le> pages_of n \<and> (ok \<longrightarrow> J = pages_of n) \<and> (\<not> ok \<longrightarrow> pg' = []) \<and>
    user_range_mapped (v_spaces V) as addr J paddr (map_arch_page_flags prot flags s OR 4) s s' \<and>
    cpu_ops s' = cpu_ops s @ ops \<and>
    (ok \<longrightarrow> cr3 s = as_cr3 (addr_spaces s as) \<longrightarrow> (\<forall>i < pages_of n. flushed ops (addr + of_nat (4096 * i))))"
proof -
  let ?fl = "map_arch_page_flags prot flags s OR 4" and ?inval = "cr3 s = as_cr3 (addr_spaces s as)"
  obtain p r s1 V1 pg1 where l: "lookup_userspace_page_table as addr True False s = Inr (p, r, s1)"
      "lookup_result s V pg True s1 V1 pg1 p" "v_tab V1 as (tab_index s addr) = p"
    using lookup_tab [OF inv as user addr(1)] by blast
  have inv1: "pt_inv s1 V1 pg1" and lu: "looked_up s V s1 V1"
    using l(2) by (simp_all add: lookup_result_def)
  note st = looked_up_static [OF lu]
  have mc: "cpu_ops s1 = cpu_ops s" "cpu_has_feature s1 = cpu_has_feature s" "v_spaces V1 = v_spaces V"
    using lu mem_changed_sel [of s s1] by (simp_all add: looked_up_def)
  have fl1: "map_arch_page_flags prot flags s1 OR 4 = ?fl"
    using map_arch_page_flags_cong [OF mc(2)] by simp
  have pe: "range_mapped s V s1 V1 as (unat addr div 4096) 0 0 paddr ?fl"
    using lu by (auto simp: range_mapped_def looked_up_def)
  note unf = machine_map_userspace_def assert_that_def page_offset_of_0_iff Let_def loop_fuel_pages user_flag
  show ?thesis
  proof (cases "p = 0")
    case True
    then have "machine_map_userspace as addr n paddr prot flags s = Inr (False, s1)" "pg1 = []"
      using l(1,2) addr(1) by (simp_all add: unf lookup_result_def)
    then show ?thesis
      using inv1 mc user_range_mapped_intro [OF inv inv1 mc(3) addr(1) pe]
      by (intro exI [of _ False] exI [of _ s1] exI [of _ V1] exI [of _ pg1] exI [of _ 0] exI [of _ "[]"]) simp
  next
    case False
    let ?idx = "page_table_offset_of s addr"
    have pos: "at_page s1 V1 as (unat addr div 4096 + 0) p ?idx"
      using l(3) False less_imp_neq [OF num_entries_pos(2), of "unat addr div 4096" s]
      by (simp add: at_page_def static_simps [OF st] page_table_offset_of_eq tab_index_def)
    have "frame_ok s1 (page_frame paddr i)" if "i < pages_of n" for i
      using frames [OF that] by (simp add: static_simps [OF st])
    then obtain ok r' s2 V2 pg2 J where loop:
        "map_userspace_loop (Suc (pages_of n)) as addr n paddr ?fl ?inval 0 p ?idx r s1 = Inr (ok, r', s2)"
        "loop_result s1 V1 as addr n paddr ?fl ?inval 0 r ok r' s2 V2 pg2 J"
      using map_userspace_loop_ok [OF inv1 _ addr _ _ _ pos, of paddr "Suc (pages_of n)" ?fl ?inval r] as mc(3) by auto
    define s3 where "s3 = (if ok \<and> ?inval \<and> r' then reload_cr3 s2 else s2)"
    have run: "machine_map_userspace as addr n paddr prot flags s = Inr (ok, s3)"
      using l(1) addr(1) False loop(1) fl1 by (simp add: unf s3_def del: map_userspace_loop.simps)
    have st3: "same_static s2 s3" "words s3 = words s2" "head_page s3 = head_page s2" "page_count s3 = page_count s2"
      by (simp_all add: s3_def reload_cr3_def set_cr3_def same_static_def)
    have inv3: "pt_inv s3 V2 pg2" and sp: "v_spaces V2 = v_spaces V" and J: "J \<le> pages_of n" "ok \<longrightarrow> J = pages_of n" "\<not> ok \<longrightarrow> pg2 = []"
      using loop(2) mc(3) pt_inv_same(1) [OF st3] by (simp_all add: loop_result_def)
    have "range_mapped s V s3 V2 as (unat addr div 4096) 0 J paddr ?fl"
      using loop(2) lu unfolding loop_result_def range_mapped_def looked_up_def pt_inv_same(2) [OF st3] static_simps(16) [OF st]
      by simp
    note mapped = user_range_mapped_intro [OF inv inv3 sp addr(1) this]
    obtain ops where ops: "cpu_ops s3 = cpu_ops s @ ops"
        "ok \<longrightarrow> ?inval \<longrightarrow> (\<forall>i < pages_of n. flushed ops (addr + of_nat (4096 * i)))"
    proof -
      obtain xs where xs: "cpu_ops s2 = cpu_ops s @ xs"
          "?inval \<longrightarrow> \<not> r' \<longrightarrow> xs = map (\<lambda>i. Invlpg (addr + of_nat (4096 * i))) [0..<J]"
        using loop(2) mc(1) by (auto simp: loop_result_def)
      show thesis
      proof (cases "ok \<and> ?inval \<and> r'")
        case True
        have "flushed (xs @ [SetCr3 (cr3 s2)]) a" for a
          by (auto simp: flushed_def)
        then show thesis
          using that [of "xs @ [SetCr3 (cr3 s2)]"] xs(1) True by (simp add: s3_def reload_cr3_def set_cr3_def)
      next
        case False
        then show thesis
          using that [of xs] xs J(2) by (auto simp: s3_def flushed_def)
      qed
    qed
    show ?thesis
      using run inv3 sp J mapped ops
      by (intro exI [of _ ok] exI [of _ s3] exI [of _ V2] exI [of _ pg2] exI [of _ J] exI [of _ ops]) simp
  qed
qed

end
