(* ===== verification/Mman.thy ===== *)
theory Mman
  imports Pmap
begin

unbundle bit_operations_syntax

text \<open>
  The mapping of memory in the kernel address space of \<open>kernel/domain/services/mman.c\<close>:
  two regions, one of normal and one of large pages, from which addresses are taken
  in order; the latest mapping can be resized or undone.
\<close>

record alloc_region_t =
  region_addr :: u32
  size_remaining :: u32
  region_page_size :: u32

datatype region_id = NormalRegion | LargePagesRegion

text \<open>The region of the latest mapping is null before the first mapping.\<close>

record mman_state =
  normal_region :: alloc_region_t
  large_pages_region :: alloc_region_t
  latest_region :: "region_id option"
  latest_addr :: u32
  latest_prot :: u32
  latest_flags :: u32

definition initial_mman :: mman_state where
  "initial_mman =
     \<lparr>normal_region = \<lparr>region_addr = MAPPING_AREA_ADDR, size_remaining = MAPPING_AREA_SIZE, region_page_size = PAGE_SIZE\<rparr>,
      large_pages_region = \<lparr>region_addr = LARGE_PAGES_AREA_ADDR, size_remaining = LARGE_PAGES_AREA_SIZE, region_page_size = 0\<rparr>,
      latest_region = None, latest_addr = 0, latest_prot = JINUE_PROT_NONE, latest_flags = JINUE_MAP_NONE\<rparr>"

fun get_region :: "region_id \<Rightarrow> mman_state \<Rightarrow> alloc_region_t" where
  "get_region NormalRegion m = normal_region m"
| "get_region LargePagesRegion m = large_pages_region m"

fun upd_region :: "region_id \<Rightarrow> (alloc_region_t \<Rightarrow> alloc_region_t) \<Rightarrow> mman_state \<Rightarrow> mman_state" where
  "upd_region NormalRegion f m = m\<lparr>normal_region := f (normal_region m)\<rparr>"
| "upd_region LargePagesRegion f m = m\<lparr>large_pages_region := f (large_pages_region m)\<rparr>"

definition the_region :: "mman_state \<Rightarrow> region_id result" where
  "the_region m = (case latest_region m of None \<Rightarrow> Inl BadAccess | Some r \<Rightarrow> Inr r)"

definition expand_mapping ::
    "u64 \<Rightarrow> u32 \<Rightarrow> u32 \<Rightarrow> u32 \<Rightarrow> mman_state \<times> pmap_state \<Rightarrow> (mman_state \<times> pmap_state) result" where
  "expand_mapping paddr new_end prot flags = (\<lambda>(m, s).
     bind_ok (the_region m) (\<lambda>r.
       let old_end = region_addr (get_region r m);
           n = new_end - old_end
       in if n > size_remaining (get_region r m)
          then Inl (Panic ''No more space to map memory in kernel'')
          else bind_ok (machine_map_kernel old_end n paddr prot flags s) (\<lambda>s.
                 Inr (upd_region r (\<lambda>x. x\<lparr>region_addr := new_end, size_remaining := size_remaining x - n\<rparr>) m, s))))"

definition shrink_mapping :: "u32 \<Rightarrow> mman_state \<times> pmap_state \<Rightarrow> (mman_state \<times> pmap_state) result" where
  "shrink_mapping new_end = (\<lambda>(m, s).
     bind_ok (the_region m) (\<lambda>r.
       let old_end = region_addr (get_region r m);
           n = old_end - new_end
       in bind_ok (machine_unmap_kernel new_end n s) (\<lambda>s.
            Inr (upd_region r (\<lambda>x. x\<lparr>region_addr := new_end, size_remaining := size_remaining x + n\<rparr>) m, s))))"

definition map_in_kernel ::
    "u64 \<Rightarrow> u32 \<Rightarrow> u32 \<Rightarrow> u32 \<Rightarrow> mman_state \<times> pmap_state \<Rightarrow> (u32 \<times> mman_state \<times> pmap_state) result" where
  "map_in_kernel paddr n prot flags = (\<lambda>(m, s).
     let (r, m) =
           (if flags AND JINUE_MAP_LARGE_PAGES \<noteq> 0
            then (LargePagesRegion, upd_region LargePagesRegion (\<lambda>x. x\<lparr>region_page_size := machine_large_page_size s\<rparr>) m)
            else (NormalRegion, m));
         region = get_region r m;
         offset = ucast (paddr AND ucast (region_page_size region - 1)) :: u32;
         start = region_addr region;
         end_addr = ALIGN_END (start + offset + n) (region_page_size region);
         m = m\<lparr>latest_region := Some r, latest_addr := start + offset, latest_prot := prot, latest_flags := flags\<rparr>
     in bind_ok (expand_mapping (paddr - ucast offset) end_addr prot flags (m, s)) (\<lambda>(m, s).
          Inr (start + offset, m, s)))"

definition resize_map_in_kernel :: "u32 \<Rightarrow> mman_state \<times> pmap_state \<Rightarrow> (mman_state \<times> pmap_state) result" where
  "resize_map_in_kernel n = (\<lambda>(m, s).
     bind_ok (the_region m) (\<lambda>r.
       let a = latest_addr m;
           old_end = region_addr (get_region r m);
           new_end = ALIGN_END (a + n) (region_page_size (get_region r m));
           m = upd_region r (\<lambda>x. x\<lparr>region_addr := new_end\<rparr>) m
       in if new_end \<le> old_end then shrink_mapping new_end (m, s)
          else
            (let start = ALIGN_START a (region_page_size (get_region r m))
             in bind_ok (machine_lookup_kernel_paddr start s) (\<lambda>paddr.
                  expand_mapping (paddr + ucast (old_end - start)) new_end (latest_prot m) (latest_flags m) (m, s)))))"

definition undo_map_in_kernel :: "mman_state \<times> pmap_state \<Rightarrow> (mman_state \<times> pmap_state) result" where
  "undo_map_in_kernel = (\<lambda>(m, s).
     bind_ok (the_region m) (\<lambda>r.
       let start = ALIGN_START (latest_addr m) (region_page_size (get_region r m))
       in bind_ok (shrink_mapping start (m, s)) (\<lambda>(m, s).
            Inr (m\<lparr>latest_addr := 0, latest_prot := JINUE_PROT_NONE, latest_flags := JINUE_MAP_NONE\<rparr>, s))))"

end
