(* ===== verification/KernelMap.thy ===== *)
theory KernelMap
  imports PmapMap Mman
begin

unbundle bit_operations_syntax

text \<open>
  Mappings of the kernel, \<open>machine_map_kernel\<close> and \<open>machine_unmap_kernel\<close>, outside the area of large
  pages: the page tables of the kernel are one array of entries, and the loops write
  exactly the entries of the range.
\<close>

section \<open>Entries of the kernel page tables\<close>

definition entry_size :: "pmap_state \<Rightarrow> nat" where
  "entry_size s = (if pgtable_format_pae s then 8 else 4)"

definition tables_fit :: "pmap_state \<Rightarrow> bool" where
  "tables_fit s \<longleftrightarrow> 0 < unat (kernel_page_tables s) \<and> unat (kernel_page_tables s) + entry_size s * 262144 \<le> 4294967296"

definition kernel_page :: "u32 \<Rightarrow> bool" where
  "kernel_page a \<longleftrightarrow> page_al a \<and> is_kernel_pointer a"

definition kentry :: "pmap_state \<Rightarrow> u32 \<Rightarrow> u64" where
  "kentry s a = pte_val s (kpte s a)"

definition kernel_table_words :: "pmap_state \<Rightarrow> u32 set" where
  "kernel_table_words s = {x. unat (kernel_page_tables s) \<le> unat x \<and> unat x < unat (kernel_page_tables s) + entry_size s * 262144}"

lemma kernel_pointer_unat: "is_kernel_pointer a \<longleftrightarrow> 3221225472 \<le> unat a"
  by (simp add: is_kernel_pointer_def JINUE_KLIMIT_def word_le_nat_alt)

lemma unat_page_number:
  assumes "is_kernel_pointer a"
  shows "unat (page_number_of (a - JINUE_KLIMIT)) = (unat a - 3221225472) div 4096"
proof -
  have "unat (a - JINUE_KLIMIT) = unat a - 3221225472"
    using unat_sub_u32 [of JINUE_KLIMIT a] assms by (simp add: kernel_pointer_unat JINUE_KLIMIT_def)
  then show ?thesis
    by (simp only: page_number_of_def unat_drop_bit_eq) (simp add: drop_bit_eq_div)
qed

lemma unat_kpte:
  assumes "tables_fit s" and "is_kernel_pointer a"
  shows "unat (kpte s a) = unat (kernel_page_tables s) + entry_size s * ((unat a - 3221225472) div 4096)"
    "(unat a - 3221225472) div 4096 < 262144"
proof -
  let ?k = "(unat a - 3221225472) div 4096"
  show k: "?k < 262144"
    using unat_u32_less [of a] by (simp add: less_mult_imp_div_less)
  have "kpte s a = kernel_page_tables s + of_nat (entry_size s * unat (page_number_of (a - JINUE_KLIMIT)))"
    by (simp add: kpte_def get_pte_with_offset_def pae_get_pte_with_offset_def nopae_get_pte_with_offset_def entry_size_def)
  moreover have "entry_size s * ?k < entry_size s * 262144"
    using k by (simp add: entry_size_def)
  moreover have "unat (kernel_page_tables s) + entry_size s * ?k < 4294967296"
    using assms(1) calculation(2) unfolding tables_fit_def by linarith
  ultimately show "unat (kpte s a) = unat (kernel_page_tables s) + entry_size s * ?k"
    using unat_add_nat_u32 [of "kernel_page_tables s" "entry_size s * ?k"]
    by (simp add: unat_page_number [OF assms(2)] del: of_nat_mult)
qed

lemma kpte_words:
  assumes "tables_fit s" and "kernel_page a" and "x \<in> entry_words s (kpte s a)"
  shows "x \<in> kernel_table_words s" "kernel_page b \<Longrightarrow> x \<in> entry_words s (kpte s b) \<Longrightarrow> a = b"
proof -
  let ?t = "unat (kernel_page_tables s)" and ?k = "\<lambda>a. (unat a - 3221225472) div 4096"
  have range: "?t + entry_size s * ?k a \<le> unat x \<and> unat x \<le> ?t + entry_size s * ?k a + (entry_size s - 4)"
    if "kernel_page a" "x \<in> entry_words s (kpte s a)" for a
  proof -
    have u: "unat (kpte s a) = ?t + entry_size s * ?k a" "?k a < 262144"
      using unat_kpte [OF assms(1)] that(1) by (simp_all add: kernel_page_def)
    have "entry_size s * ?k a + entry_size s \<le> entry_size s * 262144"
      using u(2) by (simp add: entry_size_def)
    then have "unat (kpte s a + 4) = unat (kpte s a) + 4" if "pgtable_format_pae s"
      using unat_add_u32 [of "kpte s a" 4] u assms(1) that by (simp add: tables_fit_def entry_size_def)
    then show ?thesis
      using that(2) u(1) by (auto simp: entry_words_def entry_size_def split: if_splits)
  qed
  have "?k a < 262144"
    using unat_kpte(2) [OF assms(1)] assms(2) by (simp add: kernel_page_def)
  then show "x \<in> kernel_table_words s"
    using range [OF assms(2,3)] by (simp add: kernel_table_words_def entry_size_def split: if_splits)
  show "a = b" if b: "kernel_page b" "x \<in> entry_words s (kpte s b)"
  proof -
    have "?k a = ?k b"
      using range [OF assms(2,3)] range [OF b] by (auto simp: entry_size_def split: if_splits)
    moreover obtain i j where "unat a = 4096 * i" "unat b = 4096 * j" "786432 \<le> i" "786432 \<le> j"
    proof -
      obtain i j where ij: "unat a = 4096 * i" "unat b = 4096 * j"
        using assms(2) b(1) unfolding kernel_page_def page_al_def by (metis mod_0_imp_dvd dvdE)
      show thesis
        using that [OF ij] ij assms(2) b(1) by (simp add: kernel_page_def kernel_pointer_unat)
    qed
    ultimately show ?thesis
      by (simp add: word_unat_eq_iff)
  qed
qed

text \<open>Writing or clearing one entry.\<close>

lemma kernel_entry_written:
  assumes fit: "tables_fit s" and a: "kernel_page a"
    and m: "\<And>x. x \<notin> entry_words s (kpte s a) \<Longrightarrow> m x = words s x" and v: "pte_val (s\<lparr>words := m\<rparr>) (kpte s a) = v"
  shows "kernel_page b \<Longrightarrow> kentry (s\<lparr>words := m\<rparr>) b = (if b = a then v else kentry s b)"
    "y \<notin> kernel_table_words s \<Longrightarrow> m y = words s y"
proof -
  have st: "same_static s (s\<lparr>words := m\<rparr>)"
    by simp
  show "kentry (s\<lparr>words := m\<rparr>) b = (if b = a then v else kentry s b)" if b: "kernel_page b"
  proof (cases "b = a")
    case False
    have "pte_val (s\<lparr>words := m\<rparr>) (kpte s b) = pte_val s (kpte s b)"
    proof (rule pte_val_frame [OF st])
      fix x
      assume "x \<in> entry_words s (kpte s b)"
      then have "x \<notin> entry_words s (kpte s a)"
        using kpte_words(2) [OF fit b _ a] False by blast
      then show "words (s\<lparr>words := m\<rparr>) x = words s x"
        using m by simp
    qed
    then show ?thesis
      using False by (simp add: kentry_def static_simps(7) [OF st])
  qed (use v in \<open>simp add: kentry_def static_simps(7) [OF st]\<close>)
  show "m y = words s y" if "y \<notin> kernel_table_words s"
    using m kpte_words(1) [OF fit a] that by blast
qed

lemma write64_other [simp]: "y \<noteq> a \<Longrightarrow> y \<noteq> a + 4 \<Longrightarrow> write64 a v m y = m y"
  by (simp add: write64_def)

lemma set_pte_at:
  assumes "frame_ok s x"
  shows "\<exists>m. set_pte a x fl s = Inr (s\<lparr>words := m\<rparr>) \<and> (\<forall>y. y \<notin> entry_words s a \<longrightarrow> m y = words s y) \<and>
    pte_val (s\<lparr>words := m\<rparr>) a = encode s x fl"
  using assms
  by (intro exI [of _ "if pgtable_format_pae s then write64 a (x OR fl) (words s) else (words s)(a := ucast x OR filter_pte_flags fl)"])
    (simp add: set_pte_def pae_set_pte_def nopae_set_pte_def frame_ok_def assert_that_def encode_def entry_words_def pte_val_def)

lemma clear_pte_at:
  "\<exists>m. clear_pte a s = s\<lparr>words := m\<rparr> \<and> (\<forall>y. y \<notin> entry_words s a \<longrightarrow> m y = words s y) \<and> pte_val (s\<lparr>words := m\<rparr>) a = 0"
  by (intro exI [of _ "if pgtable_format_pae s then write64 a 0 (words s) else (words s)(a := 0)"])
    (simp add: clear_pte_def pae_clear_pte_def nopae_clear_pte_def entry_words_def pte_val_def)

section \<open>The loops\<close>

definition kernel_changed :: "u32 \<Rightarrow> nat \<Rightarrow> nat \<Rightarrow> (nat \<Rightarrow> u64) \<Rightarrow> pmap_state \<Rightarrow> pmap_state \<Rightarrow> bool" where
  "kernel_changed addr j J val s s' \<longleftrightarrow>
     s' = s\<lparr>words := words s', cpu_ops := cpu_ops s @ map (\<lambda>i. Invlpg (addr + of_nat (4096 * i))) [j..<J]\<rparr> \<and>
     (\<forall>b. kernel_page b \<longrightarrow> kentry s' b =
       (if unat addr + 4096 * j \<le> unat b \<and> unat b < unat addr + 4096 * J then val ((unat b - unat addr) div 4096) else kentry s b)) \<and>
     (\<forall>y. y \<notin> kernel_table_words s \<longrightarrow> words s' y = words s y)"

lemma kernel_page_in_range:
  assumes "kernel_page addr" and "unat addr + unat n \<le> 4294967296" and "j < pages_of n"
  shows "unat (addr + of_nat (4096 * j)) = unat addr + 4096 * j" "kernel_page (addr + of_nat (4096 * j))"
proof -
  have "4096 * j < unat n"
    using assms(3) by (simp add: pages_of_def)
  then show u: "unat (addr + of_nat (4096 * j)) = unat addr + 4096 * j"
    using assms(2) by (intro unat_add_nat_u32) simp
  show "kernel_page (addr + of_nat (4096 * j))"
    using assms(1) unfolding kernel_page_def kernel_pointer_unat page_al_def u by simp
qed

lemma kentry_same:
  "same_static s s' \<Longrightarrow> words s' = words s \<Longrightarrow> kentry s' b = kentry s b"
  by (simp add: kentry_def pte_val_def static_simps)

lemma kernel_changed_step:
  assumes j: "j < J" and u: "unat (addr + of_nat (4096 * j)) = unat addr + 4096 * j"
    and m: "\<And>b. kernel_page b \<Longrightarrow> kentry (s\<lparr>words := m\<rparr>) b = (if b = addr + of_nat (4096 * j) then val j else kentry s b)"
      "\<And>y. y \<notin> kernel_table_words s \<Longrightarrow> m y = words s y"
    and s': "kernel_changed addr (Suc j) J val (invlpg (addr + of_nat (4096 * j)) (s\<lparr>words := m\<rparr>)) s'"
    and addr: "kernel_page addr"
  shows "kernel_changed addr j J val s s'"
proof -
  let ?a = "addr + of_nat (4096 * j)"
  let ?s2 = "invlpg ?a (s\<lparr>words := m\<rparr>)"
  have st: "same_static (s\<lparr>words := m\<rparr>) ?s2" "words ?s2 = words (s\<lparr>words := m\<rparr>)"
    by (simp_all add: invlpg_def same_static_def)
  have w: "kernel_table_words ?s2 = kernel_table_words s"
    by (simp add: kernel_table_words_def entry_size_def invlpg_def)
  have "s' = s\<lparr>words := words s', cpu_ops := cpu_ops s @ map (\<lambda>i. Invlpg (addr + of_nat (4096 * i))) [j..<J]\<rparr>"
    using s' j by (subst kernel_changed_def [THEN iffD1, THEN conjunct1, OF s']) (simp add: invlpg_def upt_conv_Cons)
  moreover have "kentry s' b = (if unat addr + 4096 * j \<le> unat b \<and> unat b < unat addr + 4096 * J
      then val ((unat b - unat addr) div 4096) else kentry s b)" if b: "kernel_page b" for b
  proof -
    obtain i k where ik: "unat b = 4096 * i" "unat addr = 4096 * k"
      using b addr unfolding kernel_page_def page_al_def by (metis mod_0_imp_dvd dvdE)
    have "kentry s' b = (if unat addr + 4096 * Suc j \<le> unat b \<and> unat b < unat addr + 4096 * J
        then val ((unat b - unat addr) div 4096) else kentry ?s2 b)"
      using s' b by (simp add: kernel_changed_def)
    moreover have "b = ?a \<longleftrightarrow> i = k + j"
      unfolding word_unat_eq_iff u ik by auto
    then have "kentry ?s2 b = (if i = k + j then val j else kentry s b)"
      unfolding kentry_same [OF st] m(1) [OF b] by (simp only:)
    ultimately show ?thesis
      using j by (cases "i = k + j") (auto simp: ik simp flip: diff_mult_distrib2)
  qed
  moreover have "words s' y = words s y" if "y \<notin> kernel_table_words s" for y
  proof -
    have "words s' y = words ?s2 y"
      using s' that unfolding kernel_changed_def w by blast
    then show ?thesis
      using m(2) [OF that] st(2) by simp
  qed
  ultimately show ?thesis
    unfolding kernel_changed_def by blast
qed

lemma kernel_pages_loop_ok:
  assumes addr: "kernel_page addr" "unat addr + unat n \<le> 4294967296"
    and f: "\<And>i s'. i < pages_of n \<Longrightarrow> same_static s s' \<Longrightarrow> \<exists>m. f (of_nat (4096 * i)) s' = Inr (s'\<lparr>words := m\<rparr>) \<and>
      (\<forall>b. kernel_page b \<longrightarrow> kentry (s'\<lparr>words := m\<rparr>) b = (if b = addr + of_nat (4096 * i) then val i else kentry s' b)) \<and>
      (\<forall>y. y \<notin> kernel_table_words s \<longrightarrow> m y = words s' y)"
    and "j \<le> pages_of n" and "same_static s s1"
  shows "\<exists>s'. kernel_pages_loop (Suc (pages_of n - j)) f addr PAGE_SIZE n (of_nat (4096 * j)) s1 = Inr s' \<and>
    kernel_changed addr j (pages_of n) val s1 s'"
  using assms(4,5)
proof (induction "pages_of n - j" arbitrary: j s1)
  case 0
  have n: "unat n \<le> 3221225472"
    using addr by (simp add: kernel_page_def kernel_pointer_unat)
  have "kernel_pages_loop (Suc (pages_of n - j)) f addr PAGE_SIZE n (of_nat (4096 * j)) s1 = Inr s1"
    using page_offset_less [OF 0(2) n] 0 by (simp del: of_nat_mult)
  moreover have "kernel_changed addr j (pages_of n) val s1 s1"
    using 0 by (auto simp: kernel_changed_def)
  ultimately show ?case
    by blast
next
  case (Suc k)
  have n: "unat n \<le> 3221225472"
    using addr by (simp add: kernel_page_def kernel_pointer_unat)
  have j: "j < pages_of n" and k: "k = pages_of n - Suc j"
    using Suc(2) by simp_all
  note pr = kernel_page_in_range [OF addr j]
  obtain m where m: "f (of_nat (4096 * j)) s1 = Inr (s1\<lparr>words := m\<rparr>)"
      "\<And>b. kernel_page b \<Longrightarrow> kentry (s1\<lparr>words := m\<rparr>) b = (if b = addr + of_nat (4096 * j) then val j else kentry s1 b)"
      "\<And>y. y \<notin> kernel_table_words s \<Longrightarrow> m y = words s1 y"
    using f [OF j Suc.prems(2)] by blast
  define s2 where "s2 = invlpg (addr + of_nat (4096 * j)) (s1\<lparr>words := m\<rparr>)"
  have st: "same_static s1 s2" "same_static s s2"
    using Suc.prems(2) by (simp_all add: s2_def invlpg_def same_static_def)
  have "kernel_pages_loop (Suc (pages_of n - j)) f addr PAGE_SIZE n (of_nat (4096 * j)) s1 =
      kernel_pages_loop (Suc (pages_of n - Suc j)) f addr PAGE_SIZE n (of_nat (4096 * Suc j)) s2"
    using page_offset_less [OF Suc.prems(1) n] j m(1)
    by (simp add: Suc_diff_Suc s2_def PAGE_SIZE_def algebra_simps)
  moreover obtain s' where s': "kernel_pages_loop (Suc (pages_of n - Suc j)) f addr PAGE_SIZE n (of_nat (4096 * Suc j)) s2 = Inr s'"
      "kernel_changed addr (Suc j) (pages_of n) val s2 s'"
    using Suc.hyps(1) [OF k _ st(2)] j by auto
  moreover have "kernel_table_words s1 = kernel_table_words s"
    using Suc.prems(2) by (simp add: same_static_def kernel_table_words_def entry_size_def)
  then have "kernel_changed addr j (pages_of n) val s1 s'"
    using kernel_changed_step [OF j pr(1) m(2) _ s'(2) [unfolded s2_def] addr(1)] m(3) by simp
  ultimately show ?case
    by auto
qed

section \<open>Mapping and unmapping\<close>

lemma kpte_offset:
  assumes "kernel_page addr" and "unat addr + unat n \<le> 4294967296" and "i < pages_of n"
  shows "get_pte_with_offset s (kpte s addr) (of_nat (4096 * i) div PAGE_SIZE) = kpte s (addr + of_nat (4096 * i))"
proof -
  let ?a = "addr + of_nat (4096 * i)"
  note pr = kernel_page_in_range [OF assms]
  have n: "unat n \<le> 3221225472"
    using assms(1,2) by (simp add: kernel_page_def kernel_pointer_unat)
  have "unat (of_nat (4096 * i) div PAGE_SIZE :: u32) = i"
    using unat_page_offset [OF less_imp_le [OF assms(3)] n] by (simp add: unat_div PAGE_SIZE_def del: of_nat_mult)
  moreover have "unat (page_number_of (?a - JINUE_KLIMIT)) = unat (page_number_of (addr - JINUE_KLIMIT)) + i"
  proof -
    have "unat addr + 4096 * i - 3221225472 = unat addr - 3221225472 + i * 4096"
      using assms(1) by (simp add: kernel_page_def kernel_pointer_unat)
    then show ?thesis
      using unat_page_number [of addr] unat_page_number [of ?a] pr assms(1) by (simp add: kernel_page_def del: of_nat_mult)
  qed
  ultimately have e: "page_number_of (?a - JINUE_KLIMIT) = page_number_of (addr - JINUE_KLIMIT) + of_nat (4096 * i) div PAGE_SIZE"
    using unat_u32_less [of "page_number_of (?a - JINUE_KLIMIT)"]
    by (simp add: word_unat_eq_iff unat_add_u32 del: of_nat_mult)
  show ?thesis
    unfolding kpte_def e
    by (simp add: get_pte_with_offset_def pae_get_pte_with_offset_def nopae_get_pte_with_offset_def algebra_simps)
qed

definition small_pages :: "u32 \<Rightarrow> pmap_state \<Rightarrow> bool" where
  "small_pages addr s \<longleftrightarrow> \<not> (has_large_pages s \<and> addr \<ge> LARGE_PAGES_AREA_ADDR)"

lemma machine_map_kernel_ok:
  assumes fit: "tables_fit s" and addr: "kernel_page addr" "unat addr + unat n \<le> 4294967296" and small: "small_pages addr s"
    and frames: "\<And>i. i < pages_of n \<Longrightarrow> frame_ok s (page_frame paddr i)"
  shows "\<exists>s'. machine_map_kernel addr n paddr prot flags s = Inr s' \<and>
    kernel_changed addr 0 (pages_of n) (\<lambda>i. encode s (page_frame paddr i) (map_arch_page_flags prot flags s OR 0x100)) s s'"
proof -
  let ?fl = "map_arch_page_flags prot flags s OR 0x100"
  let ?f = "\<lambda>offset s'. set_pte (get_pte_with_offset s' (kpte s addr) (offset div PAGE_SIZE)) (paddr + ucast offset) ?fl s'"
  have n: "unat n \<le> 3221225472"
    using addr by (simp add: kernel_page_def kernel_pointer_unat)
  have step: "\<exists>m. ?f (of_nat (4096 * i)) s' = Inr (s'\<lparr>words := m\<rparr>) \<and>
      (\<forall>b. kernel_page b \<longrightarrow> kentry (s'\<lparr>words := m\<rparr>) b =
        (if b = addr + of_nat (4096 * i) then encode s (page_frame paddr i) ?fl else kentry s' b)) \<and>
      (\<forall>y. y \<notin> kernel_table_words s \<longrightarrow> m y = words s' y)" if i: "i < pages_of n" and st: "same_static s s'" for i s'
  proof -
    let ?a = "addr + of_nat (4096 * i)"
    have at: "get_pte_with_offset s' (kpte s addr) (of_nat (4096 * i) div PAGE_SIZE) = kpte s' ?a"
      using kpte_offset [OF addr i, of s'] by (simp add: static_simps [OF st] del: of_nat_mult)
    have fit': "tables_fit s'" "kernel_table_words s' = kernel_table_words s"
      using fit st by (simp_all add: tables_fit_def entry_size_def same_static_def kernel_table_words_def)
    have "frame_ok s' (page_frame paddr i)"
      using frames [OF i] by (simp add: static_simps [OF st])
    then obtain m where m: "set_pte (kpte s' ?a) (page_frame paddr i) ?fl s' = Inr (s'\<lparr>words := m\<rparr>)"
        "\<And>y. y \<notin> entry_words s' (kpte s' ?a) \<Longrightarrow> m y = words s' y"
        "pte_val (s'\<lparr>words := m\<rparr>) (kpte s' ?a) = encode s (page_frame paddr i) ?fl"
      using set_pte_at [of s' "page_frame paddr i" "kpte s' ?a" ?fl] by (auto simp: static_simps [OF st])
    then show ?thesis
      using kernel_entry_written [OF fit'(1) kernel_page_in_range(2) [OF addr i] m(2,3)] fit'(2)
        page_frame_offset [OF less_imp_le [OF i] n, of paddr]
      by (intro exI [of _ m]) (simp add: at del: of_nat_mult)
  qed
  have "(ucast X86_PTE_GLOBAL :: u64) = 0x100"
    by (simp add: X86_PTE_GLOBAL_def)
  then have "machine_map_kernel addr n paddr prot flags s =
      kernel_pages_loop (Suc (pages_of n - 0)) ?f addr PAGE_SIZE n (of_nat (4096 * 0)) s"
    using addr unfolding machine_map_kernel_def Let_def if_not_P [OF small [unfolded small_pages_def]]
    by (simp add: kernel_page_def page_offset_of_0_iff assert_that_def
        lookup_kernel_page_table_entry_def loop_fuel_pages kpte_def del: kernel_pages_loop.simps)
  then show ?thesis
    using kernel_pages_loop_ok [OF addr step, of 0 s] by simp
qed

lemma machine_unmap_kernel_ok:
  assumes fit: "tables_fit s" and addr: "kernel_page addr" "unat addr + unat n \<le> 4294967296" and small: "small_pages addr s"
  shows "\<exists>s'. machine_unmap_kernel addr n s = Inr s' \<and> kernel_changed addr 0 (pages_of n) (\<lambda>i. 0) s s'"
proof -
  let ?f = "\<lambda>offset s'. Inr (clear_pte (get_pte_with_offset s' (kpte s addr) (offset div PAGE_SIZE)) s')"
  have step: "\<exists>m. ?f (of_nat (4096 * i)) s' = Inr (s'\<lparr>words := m\<rparr>) \<and>
      (\<forall>b. kernel_page b \<longrightarrow> kentry (s'\<lparr>words := m\<rparr>) b = (if b = addr + of_nat (4096 * i) then 0 else kentry s' b)) \<and>
      (\<forall>y. y \<notin> kernel_table_words s \<longrightarrow> m y = words s' y)" if i: "i < pages_of n" and st: "same_static s s'" for i s'
  proof -
    let ?a = "addr + of_nat (4096 * i)"
    have at: "get_pte_with_offset s' (kpte s addr) (of_nat (4096 * i) div PAGE_SIZE) = kpte s' ?a"
      using kpte_offset [OF addr i, of s'] by (simp add: static_simps [OF st] del: of_nat_mult)
    have fit': "tables_fit s'" "kernel_table_words s' = kernel_table_words s"
      using fit st by (simp_all add: tables_fit_def entry_size_def same_static_def kernel_table_words_def)
    obtain m where m: "clear_pte (kpte s' ?a) s' = s'\<lparr>words := m\<rparr>"
        "\<And>y. y \<notin> entry_words s' (kpte s' ?a) \<Longrightarrow> m y = words s' y" "pte_val (s'\<lparr>words := m\<rparr>) (kpte s' ?a) = 0"
      using clear_pte_at [of "kpte s' ?a" s'] by blast
    then show ?thesis
      using kernel_entry_written [OF fit'(1) kernel_page_in_range(2) [OF addr i] m(2,3)] fit'(2)
      by (intro exI [of _ m]) (simp add: at del: of_nat_mult)
  qed
  have "machine_unmap_kernel addr n s = kernel_pages_loop (Suc (pages_of n - 0)) ?f addr PAGE_SIZE n (of_nat (4096 * 0)) s"
    using addr unfolding machine_unmap_kernel_def Let_def if_not_P [OF small [unfolded small_pages_def]]
    by (simp add: kernel_page_def page_offset_of_0_iff assert_that_def
        lookup_kernel_page_table_entry_def loop_fuel_pages kpte_def del: kernel_pages_loop.simps)
  then show ?thesis
    using kernel_pages_loop_ok [OF addr step, of 0 s] by simp
qed

end
