(* ===== verification/MmanProps.thy ===== *)
theory MmanProps
  imports KernelMap
begin

unbundle bit_operations_syntax

text \<open>
  Memory mapped in the kernel at fresh addresses, undone, and resized
  (\<open>kernel/domain/services/mman.c\<close>), down to the entries of the page tables.
\<close>

section \<open>Flags of an entry\<close>

lemmas page_flag_defs = X86_PTE_PRESENT_def X86_PTE_READ_WRITE_def X86_PTE_PCD_def X86_PTE_PWT_def X86_PTE_NX_def
  X86_PTE_PROT_NONE_def X86_PTE_USER_def X86_PTE_GLOBAL_def

lemma map_arch_page_flags_bits: "map_arch_page_flags prot flags s AND NOT 0x41b = 0"
  by (simp add: map_arch_page_flags_def Let_def page_flag_defs)

lemma map_arch_page_flags_present: "map_arch_page_flags prot flags s AND 0x401 \<noteq> 0"
  by (simp add: map_arch_page_flags_def Let_def page_flag_defs)

lemma and_not_0:
  fixes v c :: "'a::len word"
  assumes "v AND NOT c = 0"
  shows "v AND c = v"
proof (rule bit_eqI)
  fix n
  show "bit (v AND c) n = bit v n"
    using arg_cong [OF assms, of "\<lambda>x. bit x n"] by (auto simp: bit_simps dest: bit_imp_le_length)
qed

lemma or_flags:
  fixes v :: u64
  assumes "v AND NOT 0x41b = 0" and "v AND 0x401 \<noteq> 0" and "c AND NOT 0xfff = 0"
  shows "(v OR c) AND NOT 0xfff = 0" "(v OR c) AND 0x401 \<noteq> 0"
proof -
  have "v AND NOT 0xfff = (v AND 0x41b) AND NOT 0xfff"
    by (simp only: and_not_0 [OF assms(1)])
  then have "v AND NOT 0xfff = 0"
    by (simp add: and.assoc)
  then show "(v OR c) AND NOT 0xfff = 0"
    using assms(3) by (simp add: bit.conj_disj_distrib2)
  show "(v OR c) AND 0x401 \<noteq> 0"
    using assms(2) by (simp add: bit.conj_disj_distrib2 or_eq_0_iff)
qed

lemma kernel_flags:
  "(map_arch_page_flags prot flags s OR 0x100) AND NOT 0xfff = 0" "(map_arch_page_flags prot flags s OR 0x100) AND 0x401 \<noteq> 0"
  by (rule or_flags [OF map_arch_page_flags_bits map_arch_page_flags_present], simp)+

section \<open>Alignment\<close>

lemma align_end_add:
  assumes "page_al p"
  shows "ALIGN_END (p + w) 4096 = p + ALIGN_END w 4096"
proof -
  have m: "(4096 :: u32) - 1 = mask 12"
    by (simp add: mask_eq_exp_minus_1)
  have t: "unat (take_bit 12 x) = unat x mod 4096" for x :: u32
    by (simp only: unsigned_take_bit_eq) (simp add: take_bit_eq_mod)
  have "unat (p + (w + 4095)) mod 4096 = (unat p + unat (w + 4095)) mod 4294967296 mod 4096"
    by (simp add: unat_word_ariths(1))
  also have "\<dots> = (unat p + unat (w + 4095)) mod 4096"
    by (simp add: mod_mod_cancel)
  also have "\<dots> = unat (w + 4095) mod 4096"
    using assms by (metis add_0 mod_add_left_eq page_al_def)
  finally have "take_bit 12 (p + (w + 4095)) = take_bit 12 (w + 4095)"
    by (simp only: word_unat_eq_iff t)
  moreover have "p + w + 4096 - 1 = p + (w + 4095)" "w + 4096 - 1 = w + 4095"
    by simp_all
  ultimately show ?thesis
    unfolding ALIGN_END_def ALIGN_START_def m and_not_mask_word by (simp only: add_diff_eq)
qed

lemma unat_align_end:
  fixes w :: u32
  assumes "unat w + 4095 < 4294967296"
  shows "unat (ALIGN_END w 4096) = 4096 * pages_of w"
proof -
  have "unat (w + 4095) = unat w + 4095"
    using unat_add_u32 [of w 4095] assms by simp
  moreover have "w + 4096 - 1 = w + 4095"
    by simp
  moreover have "(4096 :: u32) = mask 12 + 1"
    by (simp add: mask_eq_exp_minus_1)
  ultimately have "unat (ALIGN_END w 4096) = (unat w + 4095) - (unat w + 4095) mod 4096"
    using unat_align_start [of 4096 12 "w + 4095"] by (simp add: ALIGN_END_def add.commute)
  then show ?thesis
    by (simp add: pages_of_def minus_mod_eq_mult_div)
qed

section \<open>The region of normal pages\<close>

text \<open>
  The addresses from \<open>MAPPING_AREA_ADDR\<close> to the next one to give out are in use, those from there to
  \<open>LARGE_PAGES_AREA_ADDR\<close> remain.
\<close>

definition region_ok :: "alloc_region_t \<Rightarrow> bool" where
  "region_ok r \<longleftrightarrow> region_page_size r = 4096 \<and> kernel_page (region_addr r) \<and>
     unat (region_addr r) + unat (size_remaining r) = 4093640704"

definition map_pages :: "u64 \<Rightarrow> u32 \<Rightarrow> nat" where
  "map_pages paddr n = (unat paddr mod 4096 + unat n + 4095) div 4096"

text \<open>The physical address of the first page.\<close>

definition map_base :: "u64 \<Rightarrow> u64" where
  "map_base paddr = paddr - ucast (ucast (paddr AND 4095) :: u32)"

lemma unat_map_offset: "unat (ucast (paddr AND 4095) :: u32) = unat (paddr :: u64) mod 4096"
proof -
  have "(4095 :: u64) = mask 12"
    by (simp add: mask_eq_exp_minus_1)
  then have "unat (paddr AND 4095) = unat paddr mod 4096"
    using unat_and_mask [of paddr 12] by simp
  moreover have "unat paddr mod 4096 < 4096"
    by simp
  ultimately show ?thesis
    by (simp add: unsigned_ucast_eq take_bit_eq_mod del: unat_and_mask)
qed

lemma region_small:
  assumes "region_ok r" and "0 < unat (size_remaining r)"
  shows "small_pages (region_addr r) s"
proof -
  have "\<not> LARGE_PAGES_AREA_ADDR \<le> region_addr r"
    using assms by (simp add: region_ok_def LARGE_PAGES_AREA_ADDR_def word_le_nat_alt)
  then show ?thesis
    by (simp add: small_pages_def)
qed

text \<open>The size given to the page table code, in bytes and in pages.\<close>

lemma map_size:
  assumes r: "region_ok r" and n: "unat paddr mod 4096 + unat n + 4095 < 4294967296"
  defines "off \<equiv> ucast (paddr AND 4095) :: u32"
  shows "unat (ALIGN_END (region_addr r + off + n) 4096 - region_addr r) = 4096 * map_pages paddr n"
    "4096 * map_pages paddr n < 4294967296"
proof -
  have u: "unat (off + n) = unat paddr mod 4096 + unat n"
    using unat_add_u32 [of off n] n by (simp add: off_def unat_map_offset)
  have "ALIGN_END (region_addr r + off + n) 4096 - region_addr r = ALIGN_END (off + n) 4096"
    using align_end_add [of "region_addr r" "off + n"] r by (simp add: region_ok_def kernel_page_def add.assoc)
  moreover have "pages_of (off + n) = map_pages paddr n"
    by (simp add: pages_of_def map_pages_def u)
  ultimately show "unat (ALIGN_END (region_addr r + off + n) 4096 - region_addr r) = 4096 * map_pages paddr n"
    using unat_align_end [of "off + n"] n u by simp
  show "4096 * map_pages paddr n < 4294967296"
    using n unfolding map_pages_def by (simp add: le_less_trans [OF div_times_less_eq_dividend])
qed

lemma pages_of_mult: "unat n = 4096 * k \<Longrightarrow> pages_of n = k"
  by (simp add: pages_of_def)

lemma map_in_kernel_ok:
  assumes r: "region_ok (normal_region m)" and fit: "tables_fit s" and small: "flags AND JINUE_MAP_LARGE_PAGES = 0"
    and n: "unat paddr mod 4096 + unat n + 4095 < 4294967296"
    and frames: "\<And>i. i < map_pages paddr n \<Longrightarrow> frame_ok s (page_frame (map_base paddr) i)"
    and room: "4096 * map_pages paddr n \<le> unat (size_remaining (normal_region m))"
    and pos: "0 < unat (size_remaining (normal_region m))"
  defines "start \<equiv> region_addr (normal_region m)"
  shows "\<exists>m' s'. map_in_kernel paddr n prot flags (m, s) = Inr (start + ucast (paddr AND 4095), m', s') \<and>
    region_ok (normal_region m') \<and> unat (region_addr (normal_region m')) = unat start + 4096 * map_pages paddr n \<and>
    latest_region m' = Some NormalRegion \<and> latest_addr m' = start + ucast (paddr AND 4095) \<and>
    kernel_changed start 0 (map_pages paddr n)
      (\<lambda>i. encode s (page_frame (map_base paddr) i) (map_arch_page_flags prot flags s OR 0x100)) s s'"
proof -
  let ?off = "ucast (paddr AND 4095) :: u32"
  let ?stop = "ALIGN_END (start + ?off + n) 4096"
  let ?n = "?stop - start"
  have un: "unat ?n = 4096 * map_pages paddr n"
    using map_size(1) [OF r n] by (simp add: start_def)
  have stop_eq: "unat ?stop = unat start + 4096 * map_pages paddr n"
    using unat_add_u32 [of start ?n] un room r by (simp add: start_def region_ok_def)
  have "kernel_page start" "unat start + unat ?n \<le> 4294967296"
    using r un room by (simp_all add: start_def region_ok_def)
  then obtain s' where s': "machine_map_kernel start ?n (map_base paddr) prot flags s = Inr s'"
      "kernel_changed start 0 (map_pages paddr n)
        (\<lambda>i. encode s (page_frame (map_base paddr) i) (map_arch_page_flags prot flags s OR 0x100)) s s'"
    using machine_map_kernel_ok [OF fit, of start ?n "map_base paddr" prot flags] pages_of_mult [OF un] frames
      region_small [OF r pos, of s] by (auto simp: start_def)
  define m' where "m' = m\<lparr>normal_region := (normal_region m)\<lparr>region_addr := ?stop,
      size_remaining := size_remaining (normal_region m) - ?n\<rparr>, latest_region := Some NormalRegion,
      latest_addr := start + ?off, latest_prot := prot, latest_flags := flags\<rparr>"
  have ps: "region_page_size (normal_region m) = 4096"
    using r by (simp add: region_ok_def)
  have "\<not> ?n > size_remaining (normal_region m)"
    using un room by (simp add: word_less_nat_alt not_less)
  then have "map_in_kernel paddr n prot flags (m, s) = Inr (start + ?off, m', s')"
    using s'(1) small ps
    by (simp add: map_in_kernel_def expand_mapping_def the_region_def Let_def start_def m'_def map_base_def)
  moreover have "region_ok (normal_region m')"
    using r un room stop_eq unat_sub_u32 [of ?n "size_remaining (normal_region m)"]
    by (simp add: region_ok_def m'_def start_def kernel_page_def page_al_def kernel_pointer_unat)
  ultimately show ?thesis
    using s'(2) stop_eq by (intro exI [of _ m'] exI [of _ s']) (simp add: m'_def)
qed

lemma map_in_kernel_panic:
  assumes r: "region_ok (normal_region m)" and small: "flags AND JINUE_MAP_LARGE_PAGES = 0"
    and n: "unat paddr mod 4096 + unat n + 4095 < 4294967296"
    and room: "unat (size_remaining (normal_region m)) < 4096 * map_pages paddr n"
  shows "map_in_kernel paddr n prot flags (m, s) = Inl (Panic ''No more space to map memory in kernel'')"
proof -
  have "region_page_size (normal_region m) = 4096"
    using r by (simp add: region_ok_def)
  moreover have "ALIGN_END (region_addr (normal_region m) + ucast (paddr AND 4095) + n) 4096 - region_addr (normal_region m) >
      size_remaining (normal_region m)"
    using map_size(1) [OF r n] room by (simp add: word_less_nat_alt)
  ultimately show ?thesis
    using small by (simp add: map_in_kernel_def expand_mapping_def the_region_def Let_def)
qed

text \<open>What the lookup of the kernel finds in an entry that has been written.\<close>

lemma lookup_kernel_entry:
  assumes fit: "tables_fit s" and fmt: "fmt_ok s" and a: "kernel_page a"
    and e: "kentry s a = encode s x fl" and fl: "fl AND NOT 0xfff = 0" "fl AND 0x401 \<noteq> 0" and x: "frame s x = x"
  shows "machine_lookup_kernel_paddr a s = Inr x"
proof -
  have "kpte s a \<noteq> 0"
    using unat_kpte(1) [OF fit, of a] a fit by (auto simp: kernel_page_def tables_fit_def)
  then show ?thesis
    using a e frame_encode [OF fmt fl(1) x] fl(2)
    by (simp add: machine_lookup_kernel_paddr_def lookup_kernel_page_table_entry_def kernel_page_def page_offset_of_0_iff
        assert_that_def present_iff get_pte_paddr_frame kentry_def kpte_def)
qed

lemma kernel_changed_static: "kernel_changed addr j J val s s' \<Longrightarrow> same_static s s'"
  unfolding kernel_changed_def by (elim conjE, erule ssubst) (simp add: same_static_def)

lemma tables_fit_static: "same_static s s' \<Longrightarrow> tables_fit s' = tables_fit s"
  by (simp add: tables_fit_def entry_size_def same_static_def)

section \<open>Undoing a mapping\<close>

lemma align_start_page:
  assumes "page_al p" and "unat off < 4096"
  shows "ALIGN_START (p + off) 4096 = p"
proof -
  obtain k where k: "unat p = 4096 * k"
    using assms(1) by (auto simp: page_al_def)
  have "unat (p + off) = unat p + unat off"
    using unat_add_u32 [of p off] page_al_bound [OF assms(1)] assms(2) by simp
  moreover have "(4096 :: u32) = mask 12 + 1"
    by (simp add: mask_eq_exp_minus_1)
  ultimately have "unat (ALIGN_START (p + off) 4096) = unat p"
    using unat_align_start [of 4096 12 "p + off"] assms(2) k by simp
  then show ?thesis
    by (simp add: word_unat_eq_iff)
qed

lemma undo_map_in_kernel_ok:
  assumes r: "region_ok (normal_region m)" and fit: "tables_fit s" and latest: "latest_region m = Some NormalRegion"
      "latest_addr m = start + off" "kernel_page start" "unat off < 4096"
    and len: "unat (region_addr (normal_region m)) = unat start + 4096 * k" and pos: "unat start < 4093640704"
  shows "\<exists>m' s'. undo_map_in_kernel (m, s) = Inr (m', s') \<and> region_ok (normal_region m') \<and>
    region_addr (normal_region m') = start \<and> kernel_changed start 0 k (\<lambda>i. 0) s s'"
proof -
  let ?n = "region_addr (normal_region m) - start"
  have un: "unat ?n = 4096 * k"
    using unat_sub_u32 [of start "region_addr (normal_region m)"] len by simp
  have al: "ALIGN_START (latest_addr m) 4096 = start"
    using align_start_page [of start off] latest by (simp add: kernel_page_def)
  have "small_pages start s"
    using pos by (simp add: small_pages_def LARGE_PAGES_AREA_ADDR_def word_le_nat_alt)
  then obtain s' where s': "machine_unmap_kernel start ?n s = Inr s'" "kernel_changed start 0 k (\<lambda>i. 0) s s'"
    using machine_unmap_kernel_ok [OF fit latest(3), of ?n] un r len pages_of_mult [OF un] by (auto simp: region_ok_def)
  define m' where "m' = m\<lparr>normal_region := (normal_region m)\<lparr>region_addr := start,
      size_remaining := size_remaining (normal_region m) + ?n\<rparr>,
      latest_addr := 0, latest_prot := JINUE_PROT_NONE, latest_flags := JINUE_MAP_NONE\<rparr>"
  have "region_page_size (normal_region m) = 4096"
    using r by (simp add: region_ok_def)
  then have "undo_map_in_kernel (m, s) = Inr (m', s')"
    using s'(1) latest(1) al by (simp add: undo_map_in_kernel_def shrink_mapping_def the_region_def Let_def m'_def)
  moreover have "region_ok (normal_region m')"
    using r len un latest(3) unat_add_u32 [of "size_remaining (normal_region m)" ?n] unat_u32_less [of start]
    by (simp add: region_ok_def m'_def)
  ultimately show ?thesis
    using s'(2) by (intro exI [of _ m'] exI [of _ s']) (simp add: m'_def)
qed

section \<open>Resizing a mapping\<close>

lemma kernel_loop_empty: "kernel_pages_loop (loop_fuel step 0) f addr step 0 0 s = Inr s"
  by (simp add: loop_fuel_def)

lemma map_unmap_empty:
  "machine_map_kernel addr 0 paddr prot flags s = Inr s' \<Longrightarrow> s' = s" "machine_unmap_kernel addr 0 s = Inr s' \<Longrightarrow> s' = s"
  by (auto simp: machine_map_kernel_def machine_unmap_kernel_def Let_def kernel_loop_empty assert_that_def
      lookup_kernel_page_directory_entry_def lookup_kernel_page_table_entry_def split: if_splits)

lemma get_upd_region [simp]: "get_region r (upd_region r f m) = f (get_region r m)"
  by (cases r) simp_all

lemma the_region_upd [simp]: "the_region (upd_region r f m) = the_region m"
  by (cases r) (simp_all add: the_region_def)

lemma resize_unchanged:
  assumes "latest_region m = Some r" and "resize_map_in_kernel n (m, s) = Inr (m', s')"
  shows "s' = s \<and> size_remaining (get_region r m') = size_remaining (get_region r m) \<and>
    region_addr (get_region r m') = ALIGN_END (latest_addr m + n) (region_page_size (get_region r m))"
proof -
  have "the_region m = Inr r"
    using assms(1) by (simp add: the_region_def)
  then show ?thesis
    using assms(2) by (auto simp: resize_map_in_kernel_def shrink_mapping_def expand_mapping_def Let_def bind_ok_def
        split: if_splits sum.splits dest: map_unmap_empty)
qed

end
