(* ===== verification/PmapClaims.thy ===== *)
theory PmapClaims
  imports MmanProps SlabReap
begin

unbundle bit_operations_syntax

text \<open>
  Properties of the page tables and of the mappings of the kernel, with concrete states where they
  apply: one address space without PAE, its page directory and two free pages.
\<close>

section \<open>A state with one address space\<close>

definition demo_pmap :: pmap_state where
  "demo_pmap =
     \<lparr>words = (\<lambda>_. 0)(0xc0801000 := 0x1003, 0xc0801004 := 0x2003, 0xc0801008 := 0x3003, 0xc0401000 := 0xc0402000),
      head_page = 0xc0401000, page_count = 2,
      caches = (\<lambda>_. new_cache 0 [] 4 0 None None 0),
      slabs = (\<lambda>_. \<lparr>slab_prev = 0, slab_next = 0, slab_cache = 0, obj_count = 0, colour = 0, free_list = 0\<rparr>),
      warnings = [], kernel_page_tables = 0xc0800000, kernel_page_directory = 0xc0a00000, entries_per_page_table = 1024,
      large_page_size = 0x400000, pgtable_format_pae = False,
      page_frame_number_mask = (push_bit 36 1 - 1) AND NOT (ucast PAGE_MASK),
      pdpt_cache = 0, initial_pdpt = 0, addr_spaces = (\<lambda>_. \<lparr>as_cr3 = 0x1000, top_level = 0xc0400000\<rparr>), current_addr_space = 0,
      page_frames = [0, 0xc0400000, 0xc0401000, 0xc0402000], cpu_has_feature = (\<lambda>_. False), cr3 = 0x1000, cr4 = 0,
      cpu_ops = []\<rparr>"

definition demo_view :: pview where
  "demo_view =
     \<lparr>v_spaces = {0}, v_role = [0xc0400000 \<mapsto> Dir 0 0, 0xc0401000 \<mapsto> FreePage, 0xc0402000 \<mapsto> FreePage],
      v_dir = (\<lambda>as d. 0xc0400000), v_tab = (\<lambda>as g. 0)\<rparr>"

lemma demo_role:
  "v_role demo_view p = Some r \<longleftrightarrow> p = 0xc0400000 \<and> r = Dir 0 0 \<or> p = 0xc0401000 \<and> r = FreePage \<or> p = 0xc0402000 \<and> r = FreePage"
  by (auto simp: demo_view_def)

lemma demo_kpte:
  "kpte demo_pmap 0xc0400000 = 0xc0801000" "kpte demo_pmap 0xc0401000 = 0xc0801004" "kpte demo_pmap 0xc0402000 = 0xc0801008"
  by (simp_all add: kpte_def demo_pmap_def get_pte_with_offset_def nopae_get_pte_with_offset_def page_number_of_def JINUE_KLIMIT_def)

lemma demo_pae: "\<not> pgtable_format_pae demo_pmap"
  by (simp add: demo_pmap_def)

lemma demo_kernel_ok: "kernel_ok demo_pmap demo_view"
proof -
  have "kpage demo_pmap p" if "p \<in> {0xc0400000, 0xc0401000, 0xc0402000}" for p
    using that by (auto simp: kpage_def demo_kpte)
      (simp_all add: demo_pmap_def page_al_def is_kernel_pointer_def JINUE_KLIMIT_def present_def pte_val_def frame_page_def
        frame_def lookup_page_frame_address_def PAGE_NUMBER64_def)
  moreover have "\<not> in_page p x"
    if "p \<in> {0xc0400000, 0xc0401000, 0xc0402000}" "q \<in> {0xc0400000, 0xc0401000, 0xc0402000}"
      "x \<in> entry_words demo_pmap (kpte demo_pmap q)" for p q x
    using that by (auto simp: demo_kpte entry_words_def demo_pae in_page_def)
  ultimately show ?thesis
    unfolding kernel_ok_def by (auto simp: demo_role)
qed

lemma demo_inv: "pt_inv demo_pmap demo_view [0xc0401000, 0xc0402000]"
  unfolding pt_inv_def
proof (intro conjI ballI)
  show "fmt_ok demo_pmap"
    by (auto simp: fmt_ok_def demo_pmap_def num_entries_def intro!: exI [of _ 36])
  show "free_pages_are demo_pmap [0xc0401000, 0xc0402000]"
    by (simp add: free_pages_are_def demo_pmap_def)
  show "\<forall>p. v_role demo_view p = Some FreePage \<longleftrightarrow> p \<in> set [0xc0401000, 0xc0402000]"
    by (auto simp: demo_role)
  show "kernel_ok demo_pmap demo_view"
    by (rule demo_kernel_ok)
  show "tops_ok demo_pmap demo_view"
    by (simp add: tops_ok_def pdpt_words_def demo_pmap_def demo_view_def)
  fix as
  assume "as \<in> v_spaces demo_view"
  then have as: "as = 0"
    by (simp add: demo_view_def)
  have "dir_ok demo_pmap demo_view 0 d" if "d < 1" for d
    using that by (simp add: dir_ok_def demo_pmap_def demo_view_def)
  moreover have "tab_ok demo_pmap demo_view 0 g" if "g < 768" for g
  proof -
    have ne: "num_entries demo_pmap = 1024"
      by (simp add: num_entries_def demo_pmap_def)
    have "page_al 0xc0400000"
      by (simp add: page_al_def)
    then have "in_page 0xc0400000 (slot demo_pmap 0xc0400000 g)"
      using slot_in_page(1) [of "0xc0400000" g demo_pmap] that ne by simp
    then have "slot demo_pmap 0xc0400000 g \<notin> {0xc0801000, 0xc0801004, 0xc0801008, 0xc0401000}"
      by (auto simp: in_page_def)
    then have "entry demo_pmap 0xc0400000 g = 0"
      by (simp add: pte_val_def) (simp add: demo_pmap_def)
    then show ?thesis
      using that by (simp add: tab_ok_def ne) (simp add: demo_view_def)
  qed
  moreover have "user_dirs demo_pmap = 1" "user_tabs demo_pmap = 768"
    by (simp_all add: user_dirs_def user_tabs_def user_pages_def num_entries_def demo_pmap_def)
  ultimately show "space_ok demo_pmap demo_view as"
    by (simp add: space_ok_def as)
qed

section \<open>User space\<close>

text \<open>
  Claim C21. Mapping a page-aligned range of user space never fails an assertion when the physical
  addresses fit the entries. It returns false only when no free page is left for a table. The code's
  own lookup then finds, for every page of every address space, the new entry when the page is one of
  the first \<open>J\<close> pages of the range in the address space given, and the old entry otherwise; \<open>J\<close> is the
  whole range on success. On success in the current address space, every page of the range has been
  flushed from the translation cache.
\<close>

theorem map_userspace_exact:
  assumes "pt_inv s V pg" and "as \<in> v_spaces V" and "page_al addr" and "is_userspace_pointer addr"
    and "unat addr + unat n \<le> 3221225472" and "\<forall>i < pages_of n. frame_ok s (page_frame paddr i)"
  shows "\<exists>ok s' V' pg' J ops. machine_map_userspace as addr n paddr prot flags s = Inr (ok, s') \<and>
    pt_inv s' V' pg' \<and> v_spaces V' = v_spaces V \<and> J \<le> pages_of n \<and> (ok \<longrightarrow> J = pages_of n) \<and> (\<not> ok \<longrightarrow> pg' = []) \<and>
    user_range_mapped (v_spaces V) as addr J paddr (map_arch_page_flags prot flags s OR 4) s s' \<and>
    cpu_ops s' = cpu_ops s @ ops \<and>
    (ok \<longrightarrow> cr3 s = as_cr3 (addr_spaces s as) \<longrightarrow> (\<forall>i < pages_of n. flushed ops (addr + of_nat (4096 * i))))"
  by (rule machine_map_userspace_ok [OF assms(1,2,3,5,4)]) (use assms(6) in blast)

theorem map_userspace_exact_witness:
  "\<exists>ok s' J. machine_map_userspace 0 0x3ff000 0x2000 0x500000 3 0 demo_pmap = Inr (ok, s') \<and> J \<le> 2 \<and>
    user_range_mapped {0} 0 0x3ff000 J 0x500000 (map_arch_page_flags 3 0 demo_pmap OR 4) demo_pmap s'"
proof -
  have sp: "v_spaces demo_view = {0}"
    by (simp add: demo_view_def)
  have p: "pages_of 0x2000 = 2"
    by (simp add: pages_of_def)
  have fr: "\<forall>i < pages_of 0x2000. frame_ok demo_pmap (page_frame 0x500000 i)"
    unfolding p by (auto simp: frame_ok_def demo_pae page_frame_def PAGE_MASK_def less_2_cases_iff)
  show ?thesis
    using map_userspace_exact [OF demo_inv, of 0 "0x3ff000" "0x2000" "0x500000" 3 0] fr
    by (auto simp: sp p page_al_def is_userspace_pointer_def JINUE_KLIMIT_def)
qed



text \<open>
  Claim C23. The flags of an entry: the page is present exactly when some access is allowed, marked as
  without access otherwise, and writable exactly when write access is. The no-execute flag is never
  set, whatever the processor supports: the 64-bit flag is stored in a 32-bit variable.
\<close>

theorem page_flags_exact:
  "(map_arch_page_flags prot flags s AND ucast X86_PTE_PRESENT \<noteq> 0) = (prot AND 7 \<noteq> 0) \<and>
   (map_arch_page_flags prot flags s AND ucast X86_PTE_PROT_NONE \<noteq> 0) = (prot AND 7 = 0) \<and>
   (map_arch_page_flags prot flags s AND ucast X86_PTE_READ_WRITE \<noteq> 0) = (prot AND JINUE_PROT_WRITE \<noteq> 0) \<and>
   map_arch_page_flags prot flags s AND X86_PTE_NX = 0"
proof -
  have "prot AND 2 = 0" if "prot AND 7 = 0"
  proof -
    have "prot AND 2 = (prot AND 7) AND 2"
      by (simp add: and.assoc)
    then show ?thesis
      using that by simp
  qed
  moreover have "map_arch_page_flags prot flags s AND X86_PTE_NX = 0"
    by (simp add: map_arch_page_flags_def Let_def page_flag_defs)
  ultimately show ?thesis
    by (simp add: map_arch_page_flags_def Let_def page_flag_defs JINUE_PROT_READ_def JINUE_PROT_WRITE_def JINUE_PROT_EXEC_def)
qed

section \<open>Mappings of the kernel\<close>

lemma initial_region: "region_ok (normal_region initial_mman)" "unat (size_remaining (normal_region initial_mman)) = 67108864"
  by (simp_all add: region_ok_def initial_mman_def MAPPING_AREA_ADDR_def LARGE_PAGES_AREA_ADDR_def MAPPING_AREA_SIZE_def
      PAGE_SIZE_def kernel_page_def page_al_def is_kernel_pointer_def JINUE_KLIMIT_def)

lemma demo_tables_fit: "tables_fit demo_pmap" "fmt_ok demo_pmap"
  using pt_invD(1) [OF demo_inv] by (simp_all add: tables_fit_def entry_size_def demo_pmap_def)

text \<open>
  Claim C24. Mapping memory in the kernel with normal pages returns the next free address of the
  mapping area, at the offset in the page of the physical address. Each page from there on then
  translates to the page of physical memory at the same distance; every other page of the kernel keeps
  its translation. When the pages do not fit in what remains of the area, the kernel panics.
\<close>

theorem map_in_kernel_correct:
  assumes "region_ok (normal_region m)" and "tables_fit s" and "fmt_ok s" and "flags AND JINUE_MAP_LARGE_PAGES = 0"
    and "0 < size_remaining (normal_region m)" and "unat paddr mod 4096 + unat n + 4095 < 4294967296"
    and "\<forall>i < map_pages paddr n. frame s (page_frame (map_base paddr) i) = page_frame (map_base paddr) i"
  shows "if unat (size_remaining (normal_region m)) < 4096 * map_pages paddr n
    then map_in_kernel paddr n prot flags (m, s) = Inl (Panic ''No more space to map memory in kernel'')
    else \<exists>m' s'. map_in_kernel paddr n prot flags (m, s) =
        Inr (region_addr (normal_region m) + ucast (paddr AND 4095), m', s') \<and> region_ok (normal_region m') \<and>
      unat (region_addr (normal_region m')) = unat (region_addr (normal_region m)) + 4096 * map_pages paddr n \<and>
      (\<forall>i < map_pages paddr n. machine_lookup_kernel_paddr (region_addr (normal_region m) + of_nat (4096 * i)) s' =
        Inr (page_frame (map_base paddr) i)) \<and>
      (\<forall>b. kernel_page b \<longrightarrow> unat b < unat (region_addr (normal_region m)) \<or>
        unat (region_addr (normal_region m')) \<le> unat b \<longrightarrow> kentry s' b = kentry s b)"
proof (cases "unat (size_remaining (normal_region m)) < 4096 * map_pages paddr n")
  case True
  then show ?thesis
    using map_in_kernel_panic [OF assms(1,4,6)] by simp
next
  case False
  let ?start = "region_addr (normal_region m)" and ?fl = "map_arch_page_flags prot flags s OR 0x100"
  have pos: "0 < unat (size_remaining (normal_region m))"
    using assms(5) by (simp add: word_less_nat_alt)
  have "frame_ok s (page_frame (map_base paddr) i)" if "i < map_pages paddr n" for i
    using frame_encode(2) [OF assms(3), of 0] assms(7) that by simp
  then obtain m' s' where m': "map_in_kernel paddr n prot flags (m, s) = Inr (?start + ucast (paddr AND 4095), m', s')"
      "region_ok (normal_region m')" "unat (region_addr (normal_region m')) = unat ?start + 4096 * map_pages paddr n"
      "kernel_changed ?start 0 (map_pages paddr n) (\<lambda>i. encode s (page_frame (map_base paddr) i) ?fl) s s'"
    using map_in_kernel_ok [OF assms(1,2,4,6)] False pos by (metis not_less)
  note st = kernel_changed_static [OF m'(4)]
  have page: "kernel_page ?start"
    using assms(1) by (simp add: region_ok_def)
  have "machine_lookup_kernel_paddr (?start + of_nat (4096 * i)) s' = Inr (page_frame (map_base paddr) i)"
    if i: "i < map_pages paddr n" for i
  proof (rule lookup_kernel_entry [where fl = ?fl])
    have u: "unat (?start + of_nat (4096 * i)) = unat ?start + 4096 * i"
      using unat_add_nat_u32 [of ?start "4096 * i"] m'(3) i unat_u32_less [of "region_addr (normal_region m')"] by simp
    show k: "kernel_page (?start + of_nat (4096 * i))"
      using page unfolding kernel_page_def kernel_pointer_unat page_al_def u by simp
    show "tables_fit s'" "fmt_ok s'" "?fl AND NOT 0xfff = 0" "?fl AND 0x401 \<noteq> 0"
      using assms(2,3) kernel_flags by (simp_all add: tables_fit_static [OF st] static_simps [OF st])
    show "frame s' (page_frame (map_base paddr) i) = page_frame (map_base paddr) i"
      using assms(7) i by (simp add: static_simps [OF st])
    show "kentry s' (?start + of_nat (4096 * i)) = encode s' (page_frame (map_base paddr) i) ?fl"
      using m'(4) k i u unfolding kernel_changed_def static_simps(16) [OF st] by (simp del: of_nat_mult)
  qed
  moreover have "kentry s' b = kentry s b"
    if "kernel_page b" "unat b < unat ?start \<or> unat (region_addr (normal_region m')) \<le> unat b" for b
    using m'(3,4) that unfolding kernel_changed_def by auto
  ultimately show ?thesis
    using False m'(1-3) by auto
qed

theorem map_in_kernel_correct_witness:
  "\<exists>m' s'. map_in_kernel 0xe0000800 0x1000 3 0 (initial_mman, demo_pmap) = Inr (0xf0000800, m', s') \<and>
    machine_lookup_kernel_paddr 0xf0000000 s' = Inr 0xe0000000 \<and> machine_lookup_kernel_paddr 0xf0001000 s' = Inr 0xe0001000"
proof -
  have p: "map_pages 0xe0000800 0x1000 = 2" and b: "map_base 0xe0000800 = 0xe0000000"
    by (simp_all add: map_pages_def map_base_def)
  have a: "region_addr (normal_region initial_mman) = 0xf0000000"
    by (simp add: initial_mman_def MAPPING_AREA_ADDR_def LARGE_PAGES_AREA_ADDR_def MAPPING_AREA_SIZE_def)
  have f: "\<forall>i < 2. frame demo_pmap (page_frame 0xe0000000 i) = page_frame 0xe0000000 i"
    by (auto simp: frame_def demo_pae page_frame_def less_2_cases_iff)
  have sz: "0 < size_remaining (normal_region initial_mman)"
    using initial_region(2) by (simp add: word_less_nat_alt)
  obtain m' s' where m': "map_in_kernel 0xe0000800 0x1000 3 0 (initial_mman, demo_pmap) = Inr (0xf0000800, m', s')"
      "\<forall>i < 2. machine_lookup_kernel_paddr (0xf0000000 + of_nat (4096 * i)) s' = Inr (page_frame 0xe0000000 i)"
    using map_in_kernel_correct [OF initial_region(1) demo_tables_fit, of 0 "0xe0000800" "0x1000" 3] f sz
    by (auto simp: p b a initial_region(2))
  then show ?thesis
    using m'(2) [rule_format, of 0] m'(2) [rule_format, of 1] by (auto simp: page_frame_def)
qed

text \<open>
  Claim C25. Undoing the mapping just made clears the entries of its pages, leaves the entries of every
  other page of the kernel as they were before the mapping, and gives its addresses back to the area.
\<close>

theorem map_undo_round_trip:
  assumes "region_ok (normal_region m)" and "tables_fit s" and "fmt_ok s" and "flags AND JINUE_MAP_LARGE_PAGES = 0"
    and "0 < size_remaining (normal_region m)" and "unat paddr mod 4096 + unat n + 4095 < 4294967296"
    and "\<forall>i < map_pages paddr n. frame s (page_frame (map_base paddr) i) = page_frame (map_base paddr) i"
    and "4096 * map_pages paddr n \<le> unat (size_remaining (normal_region m))"
  shows "\<exists>a m1 s1 m2 s2. map_in_kernel paddr n prot flags (m, s) = Inr (a, m1, s1) \<and>
    undo_map_in_kernel (m1, s1) = Inr (m2, s2) \<and> normal_region m2 = normal_region m \<and>
    (\<forall>b. kernel_page b \<longrightarrow> kentry s2 b =
      (if unat (region_addr (normal_region m)) \<le> unat b \<and>
          unat b < unat (region_addr (normal_region m)) + 4096 * map_pages paddr n then 0 else kentry s b))"
proof -
  let ?start = "region_addr (normal_region m)" and ?k = "map_pages paddr n"
  have pos: "0 < unat (size_remaining (normal_region m))"
    using assms(5) by (simp add: word_less_nat_alt)
  have "frame_ok s (page_frame (map_base paddr) i)" if "i < ?k" for i
    using frame_encode(2) [OF assms(3), of 0] assms(7) that by simp
  then obtain m1 s1 where m1: "map_in_kernel paddr n prot flags (m, s) = Inr (?start + ucast (paddr AND 4095), m1, s1)"
      "region_ok (normal_region m1)" "unat (region_addr (normal_region m1)) = unat ?start + 4096 * ?k"
      "latest_region m1 = Some NormalRegion" "latest_addr m1 = ?start + ucast (paddr AND 4095)"
      "kernel_changed ?start 0 ?k (\<lambda>i. encode s (page_frame (map_base paddr) i) (map_arch_page_flags prot flags s OR 0x100)) s s1"
    using map_in_kernel_ok [OF assms(1,2,4,6) _ assms(8) pos] by metis
  have fit: "tables_fit s1"
    using assms(2) tables_fit_static [OF kernel_changed_static [OF m1(6)]] by simp
  have "kernel_page ?start" "unat ?start < 4093640704"
    using assms(1) pos by (simp_all add: region_ok_def)
  then obtain m2 s2 where m2: "undo_map_in_kernel (m1, s1) = Inr (m2, s2)" "region_ok (normal_region m2)"
      "region_addr (normal_region m2) = ?start" "kernel_changed ?start 0 ?k (\<lambda>i. 0) s1 s2"
    using undo_map_in_kernel_ok [OF m1(2) fit m1(4,5)] m1(3) by (auto simp: unat_map_offset)
  have "normal_region m2 = normal_region m"
    using m2(2,3) assms(1) by (intro alloc_region_t.equality) (simp_all add: region_ok_def word_unat_eq_iff)
  moreover have "kentry s2 b = (if unat ?start \<le> unat b \<and> unat b < unat ?start + 4096 * ?k then 0 else kentry s b)"
    if "kernel_page b" for b
    using m1(6) m2(4) that unfolding kernel_changed_def by simp
  ultimately show ?thesis
    using m1(1) m2(1) by blast
qed

theorem map_undo_round_trip_witness:
  "\<exists>a m1 s1 m2 s2. map_in_kernel 0xe0000800 0x1000 3 0 (initial_mman, demo_pmap) = Inr (a, m1, s1) \<and>
    undo_map_in_kernel (m1, s1) = Inr (m2, s2) \<and> normal_region m2 = normal_region initial_mman \<and> kentry s2 0xf0001000 = 0"
proof -
  have p: "map_pages 0xe0000800 0x1000 = 2" and b: "map_base 0xe0000800 = 0xe0000000"
    by (simp_all add: map_pages_def map_base_def)
  have a: "region_addr (normal_region initial_mman) = 0xf0000000"
    by (simp add: initial_mman_def MAPPING_AREA_ADDR_def LARGE_PAGES_AREA_ADDR_def MAPPING_AREA_SIZE_def)
  have f: "\<forall>i < 2. frame demo_pmap (page_frame 0xe0000000 i) = page_frame 0xe0000000 i"
    by (auto simp: frame_def demo_pae page_frame_def less_2_cases_iff)
  have sz: "0 < size_remaining (normal_region initial_mman)"
    using initial_region(2) by (simp add: word_less_nat_alt)
  have "kernel_page 0xf0001000"
    by (simp add: kernel_page_def page_al_def is_kernel_pointer_def JINUE_KLIMIT_def)
  then show ?thesis
    using map_undo_round_trip [OF initial_region(1) demo_tables_fit, of 0 "0xe0000800" "0x1000" 3] f sz
    by (fastforce simp: p b a initial_region(2))
qed

text \<open>
  Claim C26. Resizing the latest mapping changes no entry of the page tables and no remaining size: the
  end of the region is moved before the size of the change is computed from it, so the pages a larger
  mapping needs are not mapped and those a smaller one leaves are not unmapped.
\<close>

theorem resize_maps_nothing:
  assumes "latest_region m = Some r" and "resize_map_in_kernel n (m, s) = Inr (m', s')"
  shows "s' = s \<and> size_remaining (get_region r m') = size_remaining (get_region r m) \<and>
    region_addr (get_region r m') = ALIGN_END (latest_addr m + n) (region_page_size (get_region r m))"
  by (rule resize_unchanged [OF assms])

definition demo_mman :: mman_state where
  "demo_mman = initial_mman\<lparr>latest_region := Some NormalRegion, latest_addr := 0xf0000000,
     normal_region := \<lparr>region_addr = 0xf0004000, size_remaining = 0x3ffc000, region_page_size = 4096\<rparr>\<rparr>"

theorem resize_maps_nothing_witness:
  "\<exists>m'. resize_map_in_kernel 0x1000 (demo_mman, demo_pmap) = Inr (m', demo_pmap) \<and>
    size_remaining (normal_region m') = 0x3ffc000 \<and> region_addr (normal_region m') = 0xf0001000"
proof -
  have l: "latest_region demo_mman = Some NormalRegion"
    by (simp add: demo_mman_def)
  have e: "ALIGN_END 0xf0001000 4096 = (0xf0001000 :: u32)"
    by (simp add: ALIGN_END_def ALIGN_START_def)
  have "\<not> has_large_pages demo_pmap"
    by (simp add: has_large_pages_def demo_pmap_def)
  then obtain m' s' where r: "resize_map_in_kernel 0x1000 (demo_mman, demo_pmap) = Inr (m', s')"
    by (simp add: resize_map_in_kernel_def shrink_mapping_def the_region_def demo_mman_def e Let_def
        machine_unmap_kernel_def assert_that_def page_offset_of_def PAGE_MASK_def kernel_loop_empty
        lookup_kernel_page_table_entry_def is_kernel_pointer_def JINUE_KLIMIT_def)
  show ?thesis
    using resize_maps_nothing [OF l r] r e by (simp add: demo_mman_def)
qed

end
