(* ===== verification/Cmdline.thy ===== *)
theory Cmdline
  imports Prelude
begin

text \<open>
  The kernel command line: \<open>kernel/domain/services/cmdline.c\<close> and the options of the machine in
  \<open>kernel/infrastructure/i686/cmdline.c\<close>. The command line is the memory it is read from, indexed by
  the distance from its start; a token is a position and a length in it. The parser is a state
  machine that handles one character at a time.
\<close>

type_synonym cmdline = "nat \<Rightarrow> char"

section \<open>Data\<close>

definition CMDLINE_MAX_VALID_LENGTH :: nat where "CMDLINE_MAX_VALID_LENGTH = 4096"
definition CMDLINE_MAX_PARSE_LENGTH :: nat where "CMDLINE_MAX_PARSE_LENGTH = 65536"

datatype cmdline_error =
    CMDLINE_ERROR_TOO_LONG
  | CMDLINE_ERROR_IS_NULL
  | CMDLINE_ERROR_JUNK_AFTER_ENDQUOTE
  | CMDLINE_ERROR_UNCLOSED_QUOTES
  | CMDLINE_ERROR_INVALID_ON_PANIC
  | CMDLINE_ERROR_INVALID_NX
  | CMDLINE_ERROR_INVALID_SERIAL_ENABLE
  | CMDLINE_ERROR_INVALID_SERIAL_BAUD_RATE
  | CMDLINE_ERROR_INVALID_SERIAL_IOPORT
  | CMDLINE_ERROR_INVALID_SERIAL_DEV
  | CMDLINE_ERROR_INVALID_VGA_ENABLE

datatype parse_state =
    PARSE_STATE_START
  | PARSE_STATE_NAME
  | PARSE_STATE_EQUAL
  | PARSE_STATE_VALUE
  | PARSE_STATE_VALUE_START_QUOTE
  | PARSE_STATE_QUOTED_VALUE
  | PARSE_STATE_END_QUOTE
  | PARSE_STATE_DASH1
  | PARSE_STATE_DASH2
  | PARSE_STATE_ARGUMENT_START_QUOTE
  | PARSE_STATE_QUOTED_ARGUMENT
  | PARSE_STATE_AFTER2DASH_START
  | PARSE_STATE_AFTER2DASH_ARGUMENT
  | PARSE_STATE_AFTER2DASH_EQUAL
  | PARSE_STATE_AFTER2DASH_VALUE
  | PARSE_STATE_AFTER2DASH_QUOTED_VALUE
  | PARSE_STATE_AFTER2DASH_VALUE_END_QUOTE
  | PARSE_STATE_AFTER2DASH_START_QUOTE
  | PARSE_STATE_AFTER2DASH_QUOTED_ARGUMENT
  | PARSE_STATE_AFTER2DASH_END_QUOTE

text \<open>The start of a token is null until it has been set.\<close>

record cmdline_token =
  tok_start :: "nat option"
  tok_length :: nat

text \<open>The context of the parser, with its local flag and the errors found so far.\<close>

record parse_context =
  pc_state :: parse_state
  pc_option :: cmdline_token
  pc_value :: cmdline_token
  pc_position :: nat
  pc_done :: bool
  pc_has_option :: bool
  pc_has_argument :: bool
  pc_has_action :: bool
  pc_errors :: "cmdline_error set"

definition initialize_context :: "cmdline_error set \<Rightarrow> parse_context" where
  "initialize_context errs =
     \<lparr>pc_state = PARSE_STATE_START, pc_option = \<lparr>tok_start = None, tok_length = 0\<rparr>,
      pc_value = \<lparr>tok_start = None, tok_length = 0\<rparr>, pc_position = 0, pc_done = False,
      pc_has_option = False, pc_has_argument = False, pc_has_action = False, pc_errors = errs\<rparr>"

definition is_separator :: "char \<Rightarrow> bool" where
  "is_separator c = (c = CHR '' '' \<or> c = CHR 0x09 \<or> c = CHR 0x00)"

section \<open>The parser\<close>

definition start_option :: "parse_context \<Rightarrow> parse_context" where
  "start_option x = x\<lparr>pc_option := (pc_option x)\<lparr>tok_start := Some (pc_position x)\<rparr>\<rparr>"

definition start_value :: "parse_context \<Rightarrow> parse_context" where
  "start_value x = x\<lparr>pc_value := (pc_value x)\<lparr>tok_start := Some (pc_position x)\<rparr>\<rparr>"

text \<open>The distance from the start of the token to the current position.\<close>

definition end_token :: "nat \<Rightarrow> cmdline_token \<Rightarrow> cmdline_token" where
  "end_token pos t = t\<lparr>tok_length := (case tok_start t of Some a \<Rightarrow> pos - a | None \<Rightarrow> pos)\<rparr>"

definition end_option :: "parse_context \<Rightarrow> parse_context" where
  "end_option x = x\<lparr>pc_option := end_token (pc_position x) (pc_option x)\<rparr>"

definition end_value :: "parse_context \<Rightarrow> parse_context" where
  "end_value x = x\<lparr>pc_value := end_token (pc_position x) (pc_value x)\<rparr>"

definition to_state :: "parse_state \<Rightarrow> parse_context \<Rightarrow> parse_context" where
  "to_state st x = x\<lparr>pc_state := st\<rparr>"

definition has_argument :: "parse_context \<Rightarrow> parse_context" where
  "has_argument x = x\<lparr>pc_has_argument := True, pc_has_action := True\<rparr>"

definition has_option :: "parse_context \<Rightarrow> parse_context" where
  "has_option x = x\<lparr>pc_has_option := True, pc_has_action := True\<rparr>"

definition add_error :: "cmdline_error \<Rightarrow> parse_context \<Rightarrow> parse_context" where
  "add_error e x = x\<lparr>pc_errors := insert e (pc_errors x)\<rparr>"

primrec parse_char :: "parse_state \<Rightarrow> char \<Rightarrow> parse_context \<Rightarrow> parse_context" where
  "parse_char PARSE_STATE_START c x =
     (if c = CHR 0x22 then to_state PARSE_STATE_ARGUMENT_START_QUOTE x
      else if c = CHR ''-'' then to_state PARSE_STATE_DASH1 (start_option x)
      else if \<not> is_separator c then to_state PARSE_STATE_NAME (start_option x)
      else x)"
| "parse_char PARSE_STATE_NAME c x =
     (if c = CHR ''='' then to_state PARSE_STATE_EQUAL (end_option x)
      else if is_separator c then has_argument (end_option (to_state PARSE_STATE_START x))
      else x)"
| "parse_char PARSE_STATE_EQUAL c x =
     (if is_separator c then has_option (end_value (start_value (to_state PARSE_STATE_START x)))
      else if c = CHR 0x22 then to_state PARSE_STATE_VALUE_START_QUOTE x
      else to_state PARSE_STATE_VALUE (start_value x))"
| "parse_char PARSE_STATE_VALUE c x =
     (if is_separator c then has_option (end_value (to_state PARSE_STATE_START x)) else x)"
| "parse_char PARSE_STATE_VALUE_START_QUOTE c x =
     (if c = CHR 0x22 then has_option (end_value (start_value (to_state PARSE_STATE_END_QUOTE x)))
      else if c = CHR 0x00 then add_error CMDLINE_ERROR_UNCLOSED_QUOTES x
      else to_state PARSE_STATE_QUOTED_VALUE (start_value x))"
| "parse_char PARSE_STATE_QUOTED_VALUE c x =
     (if c = CHR 0x22 then has_option (end_value (to_state PARSE_STATE_END_QUOTE x))
      else if c = CHR 0x00 then add_error CMDLINE_ERROR_UNCLOSED_QUOTES x
      else x)"
| "parse_char PARSE_STATE_END_QUOTE c x =
     (if is_separator c then to_state PARSE_STATE_START x
      else
        (let x = add_error CMDLINE_ERROR_JUNK_AFTER_ENDQUOTE x
         in if c = CHR 0x22 then to_state PARSE_STATE_ARGUMENT_START_QUOTE x
            else if c = CHR ''-'' then to_state PARSE_STATE_DASH1 (start_option x)
            else to_state PARSE_STATE_NAME (start_option x)))"
| "parse_char PARSE_STATE_DASH1 c x =
     (if c = CHR ''-'' then to_state PARSE_STATE_DASH2 x else to_state PARSE_STATE_NAME x)"
| "parse_char PARSE_STATE_DASH2 c x =
     (if is_separator c then to_state PARSE_STATE_AFTER2DASH_START x else to_state PARSE_STATE_START x)"
| "parse_char PARSE_STATE_ARGUMENT_START_QUOTE c x =
     (if c = CHR 0x22 then has_argument (end_option (start_option (to_state PARSE_STATE_END_QUOTE x)))
      else if c = CHR 0x00 then add_error CMDLINE_ERROR_UNCLOSED_QUOTES x
      else start_option (to_state PARSE_STATE_QUOTED_ARGUMENT x))"
| "parse_char PARSE_STATE_QUOTED_ARGUMENT c x =
     (if c = CHR 0x22 then has_argument (end_option (to_state PARSE_STATE_END_QUOTE x))
      else if c = CHR 0x00 then add_error CMDLINE_ERROR_UNCLOSED_QUOTES x
      else x)"
| "parse_char PARSE_STATE_AFTER2DASH_START c x =
     (if c = CHR 0x22 then to_state PARSE_STATE_AFTER2DASH_START_QUOTE x
      else if \<not> is_separator c then to_state PARSE_STATE_AFTER2DASH_ARGUMENT (start_option x)
      else x)"
| "parse_char PARSE_STATE_AFTER2DASH_ARGUMENT c x =
     (if c = CHR ''='' then to_state PARSE_STATE_AFTER2DASH_EQUAL x
      else if is_separator c then has_argument (end_option (to_state PARSE_STATE_AFTER2DASH_START x))
      else x)"
| "parse_char PARSE_STATE_AFTER2DASH_EQUAL c x =
     (if is_separator c then has_argument (end_option (to_state PARSE_STATE_AFTER2DASH_START x))
      else if c = CHR 0x22 then to_state PARSE_STATE_AFTER2DASH_QUOTED_VALUE x
      else to_state PARSE_STATE_AFTER2DASH_VALUE x)"
| "parse_char PARSE_STATE_AFTER2DASH_VALUE c x =
     (if is_separator c then has_argument (end_option (to_state PARSE_STATE_AFTER2DASH_START x)) else x)"
| "parse_char PARSE_STATE_AFTER2DASH_QUOTED_VALUE c x =
     (if c = CHR 0x22 then to_state PARSE_STATE_AFTER2DASH_VALUE_END_QUOTE x
      else if c = CHR 0x00 then add_error CMDLINE_ERROR_UNCLOSED_QUOTES x
      else x)"
| "parse_char PARSE_STATE_AFTER2DASH_VALUE_END_QUOTE c x =
     (let x = has_argument (end_option x)
      in if is_separator c then to_state PARSE_STATE_AFTER2DASH_START x
         else (add_error CMDLINE_ERROR_JUNK_AFTER_ENDQUOTE x)\<lparr>pc_done := True\<rparr>)"
| "parse_char PARSE_STATE_AFTER2DASH_START_QUOTE c x =
     (if c = CHR 0x22 then has_argument (end_option (start_option (to_state PARSE_STATE_AFTER2DASH_END_QUOTE x)))
      else if c = CHR 0x00 then add_error CMDLINE_ERROR_UNCLOSED_QUOTES x
      else start_option (to_state PARSE_STATE_AFTER2DASH_QUOTED_ARGUMENT x))"
| "parse_char PARSE_STATE_AFTER2DASH_QUOTED_ARGUMENT c x =
     (if c = CHR 0x22 then has_argument (end_option (to_state PARSE_STATE_AFTER2DASH_END_QUOTE x))
      else if c = CHR 0x00 then add_error CMDLINE_ERROR_UNCLOSED_QUOTES x
      else x)"
| "parse_char PARSE_STATE_AFTER2DASH_END_QUOTE c x =
     (if is_separator c then to_state PARSE_STATE_AFTER2DASH_START x
      else (add_error CMDLINE_ERROR_JUNK_AFTER_ENDQUOTE x)\<lparr>pc_done := True\<rparr>)"

text \<open>One iteration of the loop.\<close>

definition parse_step :: "cmdline \<Rightarrow> parse_context \<Rightarrow> parse_context" where
  "parse_step s x =
     (let c = s (pc_position x);
          x = (if pc_position x \<ge> CMDLINE_MAX_VALID_LENGTH then add_error CMDLINE_ERROR_TOO_LONG x else x)
      in if pc_position x \<ge> CMDLINE_MAX_PARSE_LENGTH then x\<lparr>pc_done := True\<rparr>
         else
           (let x = parse_char (pc_state x) c x;
                x = (if c = CHR 0x00 then x\<lparr>pc_done := True\<rparr> else x)
            in x\<lparr>pc_position := pc_position x + 1\<rparr>))"

lemma parse_char_position [simp]: "pc_position (parse_char st c x) = pc_position x"
  by (cases st) (simp_all add: to_state_def start_option_def start_value_def end_option_def end_value_def has_argument_def
      has_option_def add_error_def Let_def)

definition parse_measure :: "parse_context \<Rightarrow> nat" where
  "parse_measure x = (if pc_done x then 0 else Suc (CMDLINE_MAX_PARSE_LENGTH - pc_position x))"

lemma parse_step_measure: "\<not> pc_done x \<Longrightarrow> parse_measure (parse_step s x) < parse_measure x"
  by (auto simp: parse_measure_def parse_step_def add_error_def Let_def CMDLINE_MAX_VALID_LENGTH_def CMDLINE_MAX_PARSE_LENGTH_def)

function parse_loop :: "cmdline \<Rightarrow> parse_context \<Rightarrow> parse_context" where
  "parse_loop s x = (if pc_has_action x \<or> pc_done x then x else parse_loop s (parse_step s x))"
  by pat_completeness auto

termination
  by (relation "measure (\<lambda>(s, x). parse_measure x)") (simp_all add: parse_step_measure)

declare parse_loop.simps [simp del]

definition mutate_context :: "cmdline \<Rightarrow> parse_context \<Rightarrow> parse_context" where
  "mutate_context s x = parse_loop s (x\<lparr>pc_has_action := False, pc_has_argument := False, pc_has_option := False\<rparr>)"

lemma parse_loop_measure: "parse_measure (parse_loop s x) \<le> parse_measure x"
proof (induction s x rule: parse_loop.induct)
  case (1 s x)
  then show ?case
    using parse_step_measure [of x s] by (subst parse_loop.simps) auto
qed

lemma mutate_context_measure:
  assumes "\<not> pc_done x"
  shows "parse_measure (mutate_context s x) < parse_measure x"
proof -
  let ?x = "x\<lparr>pc_has_action := False, pc_has_argument := False, pc_has_option := False\<rparr>"
  have "mutate_context s x = parse_loop s (parse_step s ?x)"
    using assms by (simp add: mutate_context_def parse_loop.simps [of s ?x])
  then show ?thesis
    using parse_loop_measure [of s "parse_step s ?x"] parse_step_measure [of ?x s] assms
    by (simp add: parse_measure_def)
qed

lemma mutate_context_not_done: "\<not> pc_done (mutate_context s x) \<Longrightarrow> \<not> pc_done x"
  by (auto simp: mutate_context_def parse_loop.simps)

text \<open>The loop around the parser, with what is done with each option or argument found.\<close>

function cmdline_loop :: "(parse_context \<Rightarrow> 'a \<Rightarrow> 'a) \<Rightarrow> cmdline \<Rightarrow> parse_context \<Rightarrow> 'a \<Rightarrow> 'a \<times> parse_context" where
  "cmdline_loop f s x a =
     (let x' = mutate_context s x; a' = f x' a
      in if pc_done x' then (a', x') else cmdline_loop f s x' a')"
  by pat_completeness auto

termination
  by (relation "measure (\<lambda>(f, s, x, a). parse_measure x)") (simp_all add: mutate_context_measure mutate_context_not_done)

declare cmdline_loop.simps [simp del]

section \<open>Matching values\<close>

definition token_char :: "cmdline \<Rightarrow> cmdline_token \<Rightarrow> nat \<Rightarrow> char" where
  "token_char s t i = s ((case tok_start t of Some a \<Rightarrow> a | None \<Rightarrow> 0) + i)"

definition token_string :: "cmdline \<Rightarrow> cmdline_token \<Rightarrow> string" where
  "token_string s t = map (token_char s t) [0..<tok_length t]"

text \<open>Character of a constant string, null at its end.\<close>

definition name_char :: "string \<Rightarrow> nat \<Rightarrow> char" where
  "name_char name i = (if i < length name then name ! i else CHR 0x00)"

text \<open>Underscore and dash are equivalent.\<close>

definition dash_to_underscore :: "char \<Rightarrow> char" where
  "dash_to_underscore c = (if c = CHR ''-'' then CHR ''_'' else c)"

type_synonym cmdline_enum_def = "(string \<times> int) list"

definition enum_entry_matches :: "cmdline \<Rightarrow> cmdline_token \<Rightarrow> string \<Rightarrow> bool" where
  "enum_entry_matches s t name =
     (list_all (\<lambda>i. dash_to_underscore (name_char name i) = dash_to_underscore (token_char s t i)) [0..<tok_length t] \<and>
      name_char name (tok_length t) = CHR 0x00)"

primrec get_enum_entry_by_token :: "cmdline_enum_def \<Rightarrow> cmdline \<Rightarrow> cmdline_token \<Rightarrow> (string \<times> int) option" where
  "get_enum_entry_by_token [] s t = None"
| "get_enum_entry_by_token (e # es) s t =
     (if enum_entry_matches s t (fst e) then Some e else get_enum_entry_by_token es s t)"

definition cmdline_match_enum :: "cmdline_enum_def \<Rightarrow> cmdline \<Rightarrow> cmdline_token \<Rightarrow> int option" where
  "cmdline_match_enum d s t = (case get_enum_entry_by_token d s t of None \<Rightarrow> None | Some e \<Rightarrow> Some (snd e))"

definition bool_names :: cmdline_enum_def where
  "bool_names = [(''true'', 1), (''yes'', 1), (''enable'', 1), (''1'', 1), (''false'', 0), (''no'', 0), (''disable'', 0), (''0'', 0)]"

definition cmdline_match_boolean :: "cmdline \<Rightarrow> cmdline_token \<Rightarrow> bool option" where
  "cmdline_match_boolean s t =
     (case cmdline_match_enum bool_names s t of None \<Rightarrow> None | Some v \<Rightarrow> Some (v \<noteq> 0))"

definition char_code :: "char \<Rightarrow> int" where
  "char_code c = of_char c"

definition isdigit :: "char \<Rightarrow> bool" where
  "isdigit c = (48 \<le> char_code c \<and> char_code c \<le> 57)"

definition isxdigit :: "char \<Rightarrow> bool" where
  "isxdigit c = (isdigit c \<or> 97 \<le> char_code c \<and> char_code c \<le> 102 \<or> 65 \<le> char_code c \<and> char_code c \<le> 70)"

definition integer_of_digit :: "char \<Rightarrow> int" where
  "integer_of_digit c =
     (let ivalue = char_code c - 48
      in if ivalue < 10 \<and> ivalue \<ge> 0 then ivalue
         else
           (let ivalue = char_code c - 97 + 10
            in if ivalue < 36 \<and> ivalue \<ge> 0 then ivalue else char_code c - 65 + 10))"

primrec accumulate_digits :: "(char \<Rightarrow> bool) \<Rightarrow> int \<Rightarrow> string \<Rightarrow> int \<Rightarrow> int option" where
  "accumulate_digits valid base [] acc = Some acc"
| "accumulate_digits valid base (c # cs) acc =
     (if \<not> valid c then None else accumulate_digits valid base cs (int32 (base * acc + integer_of_digit c)))"

definition cmdline_match_integer :: "cmdline \<Rightarrow> cmdline_token \<Rightarrow> int option" where
  "cmdline_match_integer s t =
     (if tok_length t < 1 then None
      else
        (let c = token_char s t 0
         in if tok_length t = 1 then (if \<not> isdigit c then None else Some (integer_of_digit c))
            else if char_code c = 0 then
              (let c = token_char s t 1
               in if c \<noteq> CHR ''x'' \<or> tok_length t < 3 then None
                  else if tok_length t > 10 then None
                  else accumulate_digits isxdigit 16 (drop 2 (token_string s t)) 0)
            else if tok_length t > 9 then None
            else accumulate_digits isdigit 10 (token_string s t) 0))"

section \<open>Configuration\<close>

datatype config_nx = CONFIG_NX_AUTO | CONFIG_NX_REQUIRE

datatype config_on_panic = CONFIG_ON_PANIC_HALT | CONFIG_ON_PANIC_REBOOT

record machine_config_t =
  nx :: config_nx
  serial_enable :: bool
  serial_baud_rate :: int
  serial_ioport :: int
  vga_enable :: bool

record config_t =
  machine_config :: machine_config_t
  on_panic :: config_on_panic

definition SERIAL_MAX_IOPORT :: int where "SERIAL_MAX_IOPORT = 0x10000 - 8"

text \<open>The values of the enumerations are their positions in the source.\<close>

definition machine_option_names :: cmdline_enum_def where
  "machine_option_names =
     [(''nx'', 0), (''serial_enable'', 1), (''serial_baud_rate'', 2), (''serial_ioport'', 3), (''serial_dev'', 4), (''vga_enable'', 5)]"

definition opt_nx_names :: cmdline_enum_def where
  "opt_nx_names = [(''auto'', 0), (''require'', 1)]"

definition serial_ports :: cmdline_enum_def where
  "serial_ports =
     [(''0'', 0x3f8), (''1'', 0x2f8), (''2'', 0x3e8), (''3'', 0x2e8),
      (''ttyS0'', 0x3f8), (''ttyS1'', 0x2f8), (''ttyS2'', 0x3e8), (''ttyS3'', 0x2e8),
      (''/dev/ttyS0'', 0x3f8), (''/dev/ttyS1'', 0x2f8), (''/dev/ttyS2'', 0x3e8), (''/dev/ttyS3'', 0x2e8),
      (''com1'', 0x3f8), (''com2'', 0x2f8), (''com3'', 0x3e8), (''com4'', 0x2e8),
      (''COM1'', 0x3f8), (''COM2'', 0x2f8), (''COM3'', 0x3e8), (''COM4'', 0x2e8)]"

definition serial_baud_rates :: cmdline_enum_def where
  "serial_baud_rates =
     [(''300'', 300), (''600'', 600), (''1200'', 1200), (''2400'', 2400), (''4800'', 4800), (''9600'', 9600), (''14400'', 14400),
      (''19200'', 19200), (''38400'', 38400), (''57600'', 57600), (''115200'', 115200)]"

definition machine_cmdline_process_option ::
    "cmdline \<Rightarrow> cmdline_token \<Rightarrow> cmdline_token \<Rightarrow> machine_config_t \<times> cmdline_error set \<Rightarrow> machine_config_t \<times> cmdline_error set" where
  "machine_cmdline_process_option s option value = (\<lambda>(config, errs).
     case cmdline_match_enum machine_option_names s option of
       None \<Rightarrow> (config, errs)
     | Some opt_name \<Rightarrow>
         if opt_name = 0 then
           (case cmdline_match_enum opt_nx_names s value of
              None \<Rightarrow> (config, insert CMDLINE_ERROR_INVALID_NX errs)
            | Some v \<Rightarrow> (config\<lparr>nx := (if v = 0 then CONFIG_NX_AUTO else CONFIG_NX_REQUIRE)\<rparr>, errs))
         else if opt_name = 1 then
           (case cmdline_match_boolean s value of
              None \<Rightarrow> (config, insert CMDLINE_ERROR_INVALID_SERIAL_ENABLE errs)
            | Some v \<Rightarrow> (config\<lparr>serial_enable := v\<rparr>, errs))
         else if opt_name = 2 then
           (case cmdline_match_enum serial_baud_rates s value of
              None \<Rightarrow> (config, insert CMDLINE_ERROR_INVALID_SERIAL_BAUD_RATE errs)
            | Some v \<Rightarrow> (config\<lparr>serial_baud_rate := v\<rparr>, errs))
         else if opt_name = 3 then
           (case cmdline_match_integer s value of
              None \<Rightarrow> (config, insert CMDLINE_ERROR_INVALID_SERIAL_IOPORT errs)
            | Some v \<Rightarrow>
                if v > SERIAL_MAX_IOPORT then (config, insert CMDLINE_ERROR_INVALID_SERIAL_IOPORT errs)
                else (config\<lparr>serial_ioport := v\<rparr>, errs))
         else if opt_name = 4 then
           (case cmdline_match_enum serial_ports s value of
              None \<Rightarrow> (config, insert CMDLINE_ERROR_INVALID_SERIAL_DEV errs)
            | Some v \<Rightarrow> (config\<lparr>serial_ioport := v\<rparr>, errs))
         else
           (case cmdline_match_boolean s value of
              None \<Rightarrow> (config, insert CMDLINE_ERROR_INVALID_VGA_ENABLE errs)
            | Some v \<Rightarrow> (config\<lparr>vga_enable := v\<rparr>, errs)))"

definition kernel_option_names :: cmdline_enum_def where
  "kernel_option_names = [(''on_panic'', 0)]"

definition opt_on_panic_names :: cmdline_enum_def where
  "opt_on_panic_names = [(''halt'', 0), (''reboot'', 1)]"

definition process_name_value_pair ::
    "cmdline \<Rightarrow> parse_context \<Rightarrow> config_t \<times> cmdline_error set \<Rightarrow> config_t \<times> cmdline_error set" where
  "process_name_value_pair s x = (\<lambda>(config, errs).
     case cmdline_match_enum kernel_option_names s (pc_option x) of
       None \<Rightarrow>
         (let (mc, errs) = machine_cmdline_process_option s (pc_option x) (pc_value x) (machine_config config, errs)
          in (config\<lparr>machine_config := mc\<rparr>, errs))
     | Some _ \<Rightarrow>
         (case cmdline_match_enum opt_on_panic_names s (pc_value x) of
            None \<Rightarrow> (config, insert CMDLINE_ERROR_INVALID_ON_PANIC errs)
          | Some v \<Rightarrow> (config\<lparr>on_panic := (if v = 0 then CONFIG_ON_PANIC_HALT else CONFIG_ON_PANIC_REBOOT)\<rparr>, errs)))"

text \<open>The errors of the options and those of the parser are reported together.\<close>

definition cmdline_parse_options :: "config_t \<Rightarrow> cmdline option \<Rightarrow> config_t \<times> cmdline_error set" where
  "cmdline_parse_options config cmdline =
     (case cmdline of
        None \<Rightarrow> (config, {CMDLINE_ERROR_IS_NULL})
      | Some s \<Rightarrow>
          (let ((config, errs), x) =
             cmdline_loop (\<lambda>x a. if pc_has_option x then process_name_value_pair s x a else a) s (initialize_context {}) (config, {})
           in (config, errs \<union> pc_errors x)))"

definition invalid_value :: "string \<Rightarrow> string" where
  "invalid_value name = ''  Invalid value for argument '' @ [CHR 0x27] @ name @ [CHR 0x27]"

definition cmdline_report_errors :: "cmdline_error set \<Rightarrow> string list \<times> unit result" where
  "cmdline_report_errors errs =
     (if errs = {} then ([], Inr ())
      else
        (''warning: there are issues with the kernel command line:'' #
         concat (map (\<lambda>(e, msg). if e \<in> errs then [msg] else [])
           [(CMDLINE_ERROR_TOO_LONG, ''  Kernel command line is too long''),
            (CMDLINE_ERROR_IS_NULL, ''  No kernel command line/command line is NULL''),
            (CMDLINE_ERROR_INVALID_ON_PANIC, invalid_value ''on_panic''),
            (CMDLINE_ERROR_INVALID_NX, invalid_value ''nx''),
            (CMDLINE_ERROR_INVALID_SERIAL_ENABLE, invalid_value ''serial_enable''),
            (CMDLINE_ERROR_INVALID_SERIAL_BAUD_RATE, invalid_value ''serial_baud_rate''),
            (CMDLINE_ERROR_INVALID_SERIAL_IOPORT, invalid_value ''serial_ioport''),
            (CMDLINE_ERROR_INVALID_SERIAL_DEV, invalid_value ''serial_dev''),
            (CMDLINE_ERROR_INVALID_VGA_ENABLE, invalid_value ''vga_enable''),
            (CMDLINE_ERROR_JUNK_AFTER_ENDQUOTE, ''  Invalid character after closing quote, separator (e.g. space) expected''),
            (CMDLINE_ERROR_UNCLOSED_QUOTES, ''  Unclosed quotes at end of input. Is closing quote missing?'')]),
         Inl (Panic ''Invalid kernel command line'')))"

section \<open>Arguments and environment of the first process\<close>

text \<open>The characters written to the buffer, in order.\<close>

definition cmdline_write_arguments :: "cmdline \<Rightarrow> string" where
  "cmdline_write_arguments s =
     fst (cmdline_loop (\<lambda>x buf. if pc_has_argument x then buf @ token_string s (pc_option x) @ [CHR 0x00] else buf)
       s (initialize_context {}) [])"

definition filter_userspace_environ :: "cmdline \<Rightarrow> cmdline_token \<Rightarrow> bool" where
  "filter_userspace_environ s name = (get_enum_entry_by_token kernel_option_names s name = None)"

definition cmdline_write_environ :: "cmdline \<Rightarrow> string" where
  "cmdline_write_environ s =
     fst (cmdline_loop (\<lambda>x buf. if pc_has_option x \<and> filter_userspace_environ s (pc_option x)
         then buf @ token_string s (pc_option x) @ [CHR ''=''] @ token_string s (pc_value x) @ [CHR 0x00] else buf)
       s (initialize_context {}) [])"

definition cmdline_count_arguments :: "cmdline \<Rightarrow> nat" where
  "cmdline_count_arguments s =
     fst (cmdline_loop (\<lambda>x n. if pc_has_argument x then n + 1 else n) s (initialize_context {}) 0)"

definition cmdline_count_environ :: "cmdline \<Rightarrow> nat" where
  "cmdline_count_environ s =
     fst (cmdline_loop (\<lambda>x n. if pc_has_option x \<and> filter_userspace_environ s (pc_option x) then n + 1 else n)
       s (initialize_context {}) 0)"

section \<open>Reporting the command line\<close>

definition isspace :: "char \<Rightarrow> bool" where
  "isspace c = (c = CHR '' '' \<or> c = CHR 0x09 \<or> c = CHR 0x0A \<or> c = CHR 0x0D \<or> c = CHR 0x0B)"

text \<open>Position of the last space of a line of at most 78 characters.\<close>

definition last_space :: "string \<Rightarrow> int" where
  "last_space line = fold (\<lambda>idx l. if isspace (line ! idx) then int idx else l) [0..<min 78 (length line)] (- 1)"

function report_lines :: "string \<Rightarrow> string list" where
  "report_lines line =
     (if line = [] then []
      else if last_space line \<ge> 40
        then take (nat (last_space line)) line # report_lines (drop (nat (last_space line) + 1) line)
      else take 78 line # report_lines (drop (min 78 (length line)) line))"
  by pat_completeness auto

termination
  by (relation "measure length") auto

declare report_lines.simps [simp del]

definition cmdline_report_options :: "string \<Rightarrow> string list" where
  "cmdline_report_options cmdline = ''Command line:'' # map (\<lambda>l. ''  '' @ l) (report_lines cmdline)"

end
