(* ===== verification/Printf.thy ===== *)
theory Printf
  imports Cmdline
begin

text \<open>
  Formatted output, \<open>userspace/lib/libc/vsnprintf.c\<close>, which the kernel links for its logs. The output
  buffer is memory indexed by addresses; a null write pointer is a dry run that only counts. Lengths
  are 32-bit, as \<open>size_t\<close> and \<open>int\<close> are. The variable arguments are a list of typed values; to fetch
  a value that is not there, or of another type, is undefined behaviour and an error of the model.
\<close>

section \<open>Data\<close>

datatype length_modifier_t =
    LENGTH_MODIFIER_NONE
  | LENGTH_MODIFIER_HH
  | LENGTH_MODIFIER_H
  | LENGTH_MODIFIER_L
  | LENGTH_MODIFIER_LL
  | LENGTH_MODIFIER_J
  | LENGTH_MODIFIER_Z

text \<open>A value passed as a variable argument: 32 bits, 64 bits, or a string that may be null.\<close>

datatype va_value = VInt int | VLong int | VStr "string option"

record printf_state =
  ps_format :: string
  ps_wrptr :: "nat option"
  ps_len :: nat
  ps_maxlen :: nat
  ps_memory :: "nat \<Rightarrow> char"

record saved_position_t =
  sp_wrptr :: "nat option"
  sp_len :: nat

record conv_spec_t =
  cs_plus :: bool
  cs_minus :: bool
  cs_zero :: bool
  cs_space :: bool
  cs_hash :: bool
  cs_width :: int
  cs_prec :: int
  cs_length_modifier :: length_modifier_t
  cs_conversion :: char

abbreviation size_t_range :: nat where "size_t_range \<equiv> 2 ^ 32"

definition save_position :: "printf_state \<Rightarrow> saved_position_t" where
  "save_position st = \<lparr>sp_wrptr = ps_wrptr st, sp_len = ps_len st\<rparr>"

definition get_length :: "saved_position_t \<Rightarrow> printf_state \<Rightarrow> nat" where
  "get_length start st = (ps_len st + size_t_range - sp_len start) mod size_t_range"

definition start_dry_run :: "printf_state \<Rightarrow> printf_state" where
  "start_dry_run st = st\<lparr>ps_wrptr := None\<rparr>"

definition go_back :: "saved_position_t \<Rightarrow> printf_state \<Rightarrow> nat \<times> printf_state" where
  "go_back start st = (get_length start st, st\<lparr>ps_len := sp_len start, ps_wrptr := sp_wrptr start\<rparr>)"

section \<open>Arguments\<close>

definition argument_size :: "conv_spec_t \<Rightarrow> nat" where
  "argument_size spec =
     (if cs_conversion spec = CHR ''p'' then 4
      else case cs_length_modifier spec of
        LENGTH_MODIFIER_HH \<Rightarrow> 1
      | LENGTH_MODIFIER_H \<Rightarrow> 2
      | LENGTH_MODIFIER_L \<Rightarrow> 4
      | LENGTH_MODIFIER_LL \<Rightarrow> 8
      | LENGTH_MODIFIER_J \<Rightarrow> 8
      | LENGTH_MODIFIER_Z \<Rightarrow> 4
      | LENGTH_MODIFIER_NONE \<Rightarrow> 4)"

fun va_arg_int :: "va_value list \<Rightarrow> (int \<times> va_value list) result" where
  "va_arg_int (VInt v # args) = Inr (v, args)"
| "va_arg_int args = Inl BadAccess"

fun va_arg_long :: "va_value list \<Rightarrow> (int \<times> va_value list) result" where
  "va_arg_long (VLong v # args) = Inr (v, args)"
| "va_arg_long args = Inl BadAccess"

fun va_arg_string :: "va_value list \<Rightarrow> (string option \<times> va_value list) result" where
  "va_arg_string (VStr v # args) = Inr (v, args)"
| "va_arg_string args = Inl BadAccess"

text \<open>A \<open>size_t\<close> argument is not negative when it is converted.\<close>

definition get_signed_argument :: "conv_spec_t \<Rightarrow> va_value list \<Rightarrow> (int \<times> va_value list) result" where
  "get_signed_argument spec args =
     (case cs_length_modifier spec of
        LENGTH_MODIFIER_LL \<Rightarrow> bind_ok (va_arg_long args) (\<lambda>(v, args). Inr (signed_take_bit 63 v, args))
      | LENGTH_MODIFIER_J \<Rightarrow> bind_ok (va_arg_long args) (\<lambda>(v, args). Inr (signed_take_bit 63 v, args))
      | LENGTH_MODIFIER_Z \<Rightarrow> bind_ok (va_arg_int args) (\<lambda>(v, args). Inr (v mod 2 ^ 32, args))
      | _ \<Rightarrow> bind_ok (va_arg_int args) (\<lambda>(v, args). Inr (int32 v, args)))"

definition get_unsigned_argument :: "conv_spec_t \<Rightarrow> va_value list \<Rightarrow> (int \<times> va_value list) result" where
  "get_unsigned_argument spec args =
     (case cs_length_modifier spec of
        LENGTH_MODIFIER_LL \<Rightarrow> bind_ok (va_arg_long args) (\<lambda>(v, args). Inr (v mod 2 ^ 64, args))
      | LENGTH_MODIFIER_J \<Rightarrow> bind_ok (va_arg_long args) (\<lambda>(v, args). Inr (v mod 2 ^ 64, args))
      | _ \<Rightarrow> bind_ok (va_arg_int args) (\<lambda>(v, args). Inr (v mod 2 ^ 32, args)))"

section \<open>Writing\<close>

definition terminate_string :: "printf_state \<Rightarrow> printf_state" where
  "terminate_string st =
     (case ps_wrptr st of None \<Rightarrow> st | Some p \<Rightarrow> st\<lparr>ps_memory := (ps_memory st)(p := CHR 0x00)\<rparr>)"

definition write_char :: "char \<Rightarrow> printf_state \<Rightarrow> printf_state" where
  "write_char c st =
     (let st = (case ps_wrptr st of
                  None \<Rightarrow> st
                | Some p \<Rightarrow> if ps_len st < ps_maxlen st
                    then st\<lparr>ps_memory := (ps_memory st)(p := c), ps_wrptr := Some (p + 1)\<rparr> else st)
      in st\<lparr>ps_len := (ps_len st + 1) mod size_t_range\<rparr>)"

text \<open>The same character several times.\<close>

primrec write_repeat :: "nat \<Rightarrow> char \<Rightarrow> printf_state \<Rightarrow> printf_state" where
  "write_repeat 0 c st = st"
| "write_repeat (Suc n) c st = write_repeat n c (write_char c st)"

primrec write_string_loop :: "string \<Rightarrow> int \<Rightarrow> saved_position_t \<Rightarrow> printf_state \<Rightarrow> printf_state" where
  "write_string_loop [] prec start st = st"
| "write_string_loop (c # cs) prec start st =
     (if prec < 0 \<or> int (get_length start st) < prec
      then write_string_loop cs prec start (write_char c st) else st)"

definition write_string :: "string \<Rightarrow> conv_spec_t \<Rightarrow> printf_state \<Rightarrow> printf_state" where
  "write_string str spec st = write_string_loop str (cs_prec spec) (save_position st) st"

definition digit_char :: "nat \<Rightarrow> char" where
  "digit_char d = char_of (d + 48)"

definition hex_char :: "bool \<Rightarrow> nat \<Rightarrow> char" where
  "hex_char upper d =
     (if d < 10 then digit_char d else if upper then char_of (d - 10 + 65) else char_of (d - 10 + 97))"

text \<open>The loop over the digits of a number in a base that is a power of two, from the first one.\<close>

primrec write_bit_digits ::
    "nat \<Rightarrow> (nat \<Rightarrow> char) \<Rightarrow> nat \<Rightarrow> int \<Rightarrow> nat \<Rightarrow> bool \<Rightarrow> printf_state \<Rightarrow> printf_state" where
  "write_bit_digits bits f value prec 0 nonzero st = st"
| "write_bit_digits bits f value prec (Suc digit) nonzero st =
     (let digit_value = take_bit bits (drop_bit (bits * digit) value)
      in if nonzero \<or> digit_value \<noteq> 0 \<or> int (Suc digit) \<le> prec
         then write_bit_digits bits f value prec digit True (write_char (f digit_value) st)
         else write_bit_digits bits f value prec digit nonzero st)"

definition default_prec :: "conv_spec_t \<Rightarrow> int" where
  "default_prec spec = (if cs_prec spec < 1 then 1 else cs_prec spec)"

definition write_hexadecimal :: "int \<Rightarrow> conv_spec_t \<Rightarrow> printf_state \<Rightarrow> printf_state" where
  "write_hexadecimal value spec st =
     (let digit = 2 * argument_size spec;
          prec = (if cs_conversion spec = CHR ''p'' then int digit else default_prec spec);
          st = (if cs_hash spec \<and> (value \<noteq> 0 \<or> cs_conversion spec = CHR ''p'')
                then write_char (CHR ''x'') (write_char (CHR ''0'') st) else st);
          st = write_repeat (nat (prec - int digit)) (CHR ''0'') st
      in write_bit_digits 4 (hex_char (cs_conversion spec = CHR ''X'')) (nat value) prec digit False st)"

definition write_octal :: "int \<Rightarrow> conv_spec_t \<Rightarrow> printf_state \<Rightarrow> printf_state" where
  "write_octal value spec st =
     (let digit = (8 * argument_size spec + 2) div 3;
          prec = (if cs_conversion spec = CHR ''p'' then int digit else default_prec spec);
          st = (if cs_hash spec \<and> (value \<noteq> 0 \<or> cs_conversion spec = CHR ''p'') then write_char (CHR ''0'') st else st);
          st = write_repeat (nat (prec - int digit)) (CHR ''0'') st
      in write_bit_digits 3 digit_char (nat value) prec digit False st)"

primrec write_decimal_digits :: "nat \<Rightarrow> nat \<Rightarrow> int \<Rightarrow> nat \<Rightarrow> bool \<Rightarrow> printf_state \<Rightarrow> printf_state" where
  "write_decimal_digits value pwr prec 0 nonzero st = st"
| "write_decimal_digits value pwr prec (Suc digit) nonzero st =
     (let digit_value = value div pwr
      in if nonzero \<or> digit_value \<noteq> 0 \<or> int (Suc digit) \<le> prec
         then write_decimal_digits (value - digit_value * pwr) (pwr div 10) prec digit True
                (write_char (digit_char digit_value) st)
         else write_decimal_digits value (pwr div 10) prec digit nonzero st)"

definition write_unsigned :: "int \<Rightarrow> conv_spec_t \<Rightarrow> printf_state \<Rightarrow> printf_state" where
  "write_unsigned value spec st =
     (let prec = default_prec spec;
          (pwr, value, digit) =
            (if argument_size spec = 8 then (10000000000000000000, nat value, 20)
             else if argument_size spec = 4 then (1000000000, nat value mod 4294967296, 10)
             else if argument_size spec = 2 then (10000, nat value mod 65536, 5)
             else (100, nat value mod 256, 3));
          st = write_repeat (nat (prec - int digit)) (CHR ''0'') st
      in write_decimal_digits value pwr prec digit False st)"

text \<open>The opposite of the value is computed as a 64-bit integer and then read as an unsigned one.\<close>

definition write_signed :: "int \<Rightarrow> conv_spec_t \<Rightarrow> printf_state \<Rightarrow> printf_state" where
  "write_signed value spec st =
     (if value < 0 then write_unsigned ((- value) mod 2 ^ 64) spec (write_char (CHR ''-'') st)
      else write_unsigned value spec
        (if cs_plus spec then write_char (CHR ''+'') st else if cs_space spec then write_char (CHR '' '') st else st))"

section \<open>Parsing the format\<close>

definition current :: "printf_state \<Rightarrow> char" where
  "current st = (case ps_format st of [] \<Rightarrow> CHR 0x00 | c # _ \<Rightarrow> c)"

definition consume :: "printf_state \<Rightarrow> printf_state" where
  "consume st = (if current st \<noteq> CHR 0x00 then st\<lparr>ps_format := tl (ps_format st)\<rparr> else st)"

primrec numeric_loop :: "string \<Rightarrow> int \<Rightarrow> int \<times> string" where
  "numeric_loop [] value = (value, [])"
| "numeric_loop (c # cs) value =
     (if isdigit c then numeric_loop cs (int32 (int32 (value * 10) + (char_code c - 48))) else (value, c # cs))"

definition parse_numeric :: "printf_state \<Rightarrow> int \<times> printf_state" where
  "parse_numeric st = (let (value, rest) = numeric_loop (ps_format st) 0 in (value, st\<lparr>ps_format := rest\<rparr>))"

primrec flags_loop :: "string \<Rightarrow> conv_spec_t \<Rightarrow> conv_spec_t \<times> string" where
  "flags_loop [] spec = (spec, [])"
| "flags_loop (c # cs) spec =
     (if c = CHR ''-'' then flags_loop cs (spec\<lparr>cs_minus := True\<rparr>)
      else if c = CHR ''+'' then flags_loop cs (spec\<lparr>cs_plus := True\<rparr>)
      else if c = CHR '' '' then flags_loop cs (spec\<lparr>cs_space := True\<rparr>)
      else if c = CHR ''#'' then flags_loop cs (spec\<lparr>cs_hash := True\<rparr>)
      else if c = CHR ''0'' then flags_loop cs (spec\<lparr>cs_zero := True\<rparr>)
      else (spec, c # cs))"

definition parse_flags :: "conv_spec_t \<times> printf_state \<Rightarrow> conv_spec_t \<times> printf_state" where
  "parse_flags = (\<lambda>(spec, st).
     let (spec, rest) = flags_loop (ps_format st) (spec\<lparr>cs_plus := False, cs_minus := False, cs_zero := False, cs_space := False, cs_hash := False\<rparr>)
     in (spec, st\<lparr>ps_format := rest\<rparr>))"

definition parse_field_width ::
    "conv_spec_t \<times> printf_state \<Rightarrow> va_value list \<Rightarrow> (conv_spec_t \<times> printf_state \<times> va_value list) result" where
  "parse_field_width = (\<lambda>(spec, st) args.
     let spec = spec\<lparr>cs_width := - 1\<rparr>
     in if current st = CHR ''*'' then
          bind_ok (va_arg_int args) (\<lambda>(v, args). Inr (spec\<lparr>cs_width := int32 v\<rparr>, consume st, args))
        else if isdigit (current st) then
          (let (v, st) = parse_numeric st in Inr (spec\<lparr>cs_width := v\<rparr>, st, args))
        else Inr (spec, st, args))"

definition parse_precision ::
    "conv_spec_t \<times> printf_state \<times> va_value list \<Rightarrow> (conv_spec_t \<times> printf_state \<times> va_value list) result" where
  "parse_precision = (\<lambda>(spec, st, args).
     let spec = spec\<lparr>cs_prec := - 1\<rparr>
     in if current st = CHR ''.'' then
          (let st = consume st
           in if current st = CHR ''*'' then
                bind_ok (va_arg_int args) (\<lambda>(v, args).
                  let spec = spec\<lparr>cs_prec := int32 v\<rparr>
                  in Inr (if cs_prec spec < 0 then spec\<lparr>cs_prec := int32 (- cs_prec spec), cs_minus := True\<rparr> else spec, consume st, args))
              else (let (v, st) = parse_numeric st in Inr (spec\<lparr>cs_prec := v\<rparr>, st, args)))
        else Inr (spec, st, args))"

definition parse_length_modifier :: "conv_spec_t \<times> printf_state \<Rightarrow> conv_spec_t \<times> printf_state" where
  "parse_length_modifier = (\<lambda>(spec, st).
     if current st = CHR ''h'' then
       (let st = consume st
        in if current st = CHR ''h'' then (spec\<lparr>cs_length_modifier := LENGTH_MODIFIER_HH\<rparr>, consume st)
           else (spec\<lparr>cs_length_modifier := LENGTH_MODIFIER_H\<rparr>, st))
     else if current st = CHR ''l'' then
       (let st = consume st
        in if current st = CHR ''l'' then (spec\<lparr>cs_length_modifier := LENGTH_MODIFIER_LL\<rparr>, consume st)
           else (spec\<lparr>cs_length_modifier := LENGTH_MODIFIER_L\<rparr>, st))
     else if current st = CHR ''j'' then (spec\<lparr>cs_length_modifier := LENGTH_MODIFIER_J\<rparr>, consume st)
     else if current st = CHR ''z'' then (spec\<lparr>cs_length_modifier := LENGTH_MODIFIER_Z\<rparr>, consume st)
     else (spec\<lparr>cs_length_modifier := LENGTH_MODIFIER_NONE\<rparr>, st))"

definition parse_conversion_specifier :: "conv_spec_t \<times> printf_state \<Rightarrow> conv_spec_t \<times> printf_state" where
  "parse_conversion_specifier = (\<lambda>(spec, st). (spec\<lparr>cs_conversion := current st\<rparr>, consume st))"

definition parse_conversion_specification ::
    "conv_spec_t \<times> printf_state \<times> va_value list \<Rightarrow> (conv_spec_t \<times> printf_state \<times> va_value list) result" where
  "parse_conversion_specification = (\<lambda>(spec, st, args).
     bind_ok (parse_field_width (parse_flags (spec, st)) args) (\<lambda>r.
     bind_ok (parse_precision r) (\<lambda>(spec, st, args).
     let (spec, st) = parse_conversion_specifier (parse_length_modifier (spec, st)) in Inr (spec, st, args))))"

section \<open>Conversions\<close>

definition is_right_justified :: "conv_spec_t \<Rightarrow> bool" where
  "is_right_justified spec = (cs_width spec > 0 \<and> \<not> cs_minus spec)"

definition add_padding_right_justified :: "conv_spec_t \<Rightarrow> nat \<Rightarrow> printf_state \<Rightarrow> printf_state" where
  "add_padding_right_justified spec len st =
     (let l = int32 (int len)
      in if cs_width spec < l then st
         else write_repeat (nat (cs_width spec - l)) (if cs_prec spec < 0 \<and> cs_zero spec then CHR ''0'' else CHR '' '') st)"

definition is_left_justified :: "conv_spec_t \<Rightarrow> bool" where
  "is_left_justified spec = (cs_width spec > 0 \<and> cs_minus spec)"

definition add_padding_left_justified :: "conv_spec_t \<Rightarrow> nat \<Rightarrow> printf_state \<Rightarrow> printf_state" where
  "add_padding_left_justified spec len st =
     (let l = int32 (int len)
      in if cs_width spec < l then st else write_repeat (nat (cs_width spec - l)) (CHR '' '') st)"

text \<open>The statements that all conversions but \<open>%c\<close> share.\<close>

definition write_justified :: "conv_spec_t \<Rightarrow> (printf_state \<Rightarrow> printf_state) \<Rightarrow> printf_state \<Rightarrow> printf_state" where
  "write_justified spec wr st =
     (let start = save_position st;
          st = (if is_right_justified spec
                then (let (len, st) = go_back start (wr (start_dry_run st)) in add_padding_right_justified spec len st)
                else st);
          st = wr st
      in if is_left_justified spec then add_padding_left_justified spec (get_length start st) st else st)"

definition write_justified_char :: "conv_spec_t \<Rightarrow> char \<Rightarrow> printf_state \<Rightarrow> printf_state" where
  "write_justified_char spec c st =
     (let st = (if is_right_justified spec then add_padding_right_justified spec 1 st else st);
          st = write_char c st
      in if is_left_justified spec then add_padding_left_justified spec 1 st else st)"

definition process_conversion ::
    "conv_spec_t \<Rightarrow> va_value list \<Rightarrow> printf_state \<Rightarrow> (printf_state \<times> va_value list) result" where
  "process_conversion spec args st =
     (let c = cs_conversion spec
      in if c = CHR ''i'' \<or> c = CHR ''d'' then
           bind_ok (get_signed_argument spec args) (\<lambda>(v, args). Inr (write_justified spec (write_signed v spec) st, args))
         else if c = CHR ''o'' then
           bind_ok (get_unsigned_argument spec args) (\<lambda>(v, args). Inr (write_justified spec (write_octal v spec) st, args))
         else if c = CHR ''u'' then
           bind_ok (get_unsigned_argument spec args) (\<lambda>(v, args). Inr (write_justified spec (write_unsigned v spec) st, args))
         else if c = CHR ''x'' \<or> c = CHR ''X'' then
           bind_ok (get_unsigned_argument spec args) (\<lambda>(v, args). Inr (write_justified spec (write_hexadecimal v spec) st, args))
         else if c = CHR ''c'' then
           bind_ok (va_arg_int args) (\<lambda>(v, args). Inr (write_justified_char spec (char_of (nat (v mod 256))) st, args))
         else if c = CHR ''s'' then
           bind_ok (va_arg_string args) (\<lambda>(v, args).
             Inr (write_justified spec (write_string (case v of None \<Rightarrow> ''(null)'' | Some str \<Rightarrow> str) spec) st, args))
         else if c = CHR ''p'' then
           bind_ok (va_arg_int args) (\<lambda>(v, args). Inr (write_justified spec (write_hexadecimal (v mod 2 ^ 32) spec) st, args))
         else if c = CHR ''%'' then Inr (write_char (CHR ''%'') st, args)
         else Inr (st, args))"

definition initialize_state :: "nat option \<Rightarrow> nat \<Rightarrow> string \<Rightarrow> (nat \<Rightarrow> char) \<Rightarrow> printf_state" where
  "initialize_state s n format memory =
     \<lparr>ps_format = format, ps_wrptr = s, ps_len = 0, ps_maxlen = (if n = 0 then 0 else n - 1), ps_memory = memory\<rparr>"

text \<open>The specification is a local variable; every field is set before it is used.\<close>

definition initial_spec :: conv_spec_t where
  "initial_spec = \<lparr>cs_plus = False, cs_minus = False, cs_zero = False, cs_space = False, cs_hash = False, cs_width = - 1, cs_prec = - 1,
     cs_length_modifier = LENGTH_MODIFIER_NONE, cs_conversion = CHR 0x00\<rparr>"

section \<open>Termination\<close>

lemma write_char_format [simp]: "ps_format (write_char c st) = ps_format st"
  by (simp add: write_char_def Let_def split: option.split)

lemma write_repeat_format [simp]: "ps_format (write_repeat n c st) = ps_format st"
  by (induction n arbitrary: st) simp_all

lemma write_string_format [simp]: "ps_format (write_string str spec st) = ps_format st"
proof -
  have "ps_format (write_string_loop str p start st) = ps_format st" for p start
    by (induction str arbitrary: st) simp_all
  then show ?thesis
    by (simp add: write_string_def)
qed

lemma write_bit_digits_format [simp]: "ps_format (write_bit_digits b f v p d z st) = ps_format st"
  by (induction d arbitrary: z st) (simp_all add: Let_def)

lemma write_decimal_digits_format [simp]: "ps_format (write_decimal_digits v pw p d z st) = ps_format st"
  by (induction d arbitrary: v pw z st) (simp_all add: Let_def)

lemma write_number_format [simp]:
  "ps_format (write_hexadecimal v spec st) = ps_format st" "ps_format (write_octal v spec st) = ps_format st"
  "ps_format (write_unsigned v spec st) = ps_format st" "ps_format (write_signed v spec st) = ps_format st"
  by (simp_all add: write_hexadecimal_def write_octal_def write_unsigned_def write_signed_def Let_def)

lemma padding_format [simp]:
  "ps_format (add_padding_right_justified spec len st) = ps_format st"
  "ps_format (add_padding_left_justified spec len st) = ps_format st"
  by (simp_all add: add_padding_right_justified_def add_padding_left_justified_def Let_def)

lemma write_justified_format [simp]:
  assumes "\<And>st. ps_format (wr st) = ps_format st"
  shows "ps_format (write_justified spec wr st) = ps_format st"
  using assms by (simp add: write_justified_def go_back_def start_dry_run_def Let_def)

lemma write_justified_char_format [simp]: "ps_format (write_justified_char spec c st) = ps_format st"
  by (simp add: write_justified_char_def Let_def)

lemma process_conversion_format:
  "process_conversion spec args st = Inr (st', args') \<Longrightarrow> ps_format st' = ps_format st"
  by (auto simp: process_conversion_def Let_def bind_ok_eq_Inr split: if_splits)

lemma numeric_loop_length: "length (snd (numeric_loop cs v)) \<le> length cs"
  by (induction cs arbitrary: v) (simp_all add: le_Suc_eq)

lemma flags_loop_length: "length (snd (flags_loop cs spec)) \<le> length cs"
  by (induction cs arbitrary: spec) (simp_all add: le_Suc_eq)

lemma consume_length: "length (ps_format (consume st)) \<le> length (ps_format st)"
  by (simp add: consume_def)

lemma consume_less: "current st \<noteq> CHR 0x00 \<Longrightarrow> length (ps_format (consume st)) < length (ps_format st)"
  by (auto simp: consume_def current_def split: list.splits)

lemma parse_numeric_length: "parse_numeric st = (v, st') \<Longrightarrow> length (ps_format st') \<le> length (ps_format st)"
  using numeric_loop_length [of "ps_format st" 0] by (auto simp: parse_numeric_def Let_def split: prod.splits)

lemma parse_flags_length: "parse_flags (spec, st) = (spec', st') \<Longrightarrow> length (ps_format st') \<le> length (ps_format st)"
  using flags_loop_length [of "ps_format st" "spec\<lparr>cs_plus := False, cs_minus := False, cs_zero := False, cs_space := False, cs_hash := False\<rparr>"]
  by (auto simp: parse_flags_def Let_def split: prod.splits)

lemma parse_field_width_length:
  "parse_field_width (spec, st) args = Inr (spec', st', args') \<Longrightarrow> length (ps_format st') \<le> length (ps_format st)"
  using consume_length [of st]
  by (auto simp: parse_field_width_def Let_def bind_ok_eq_Inr dest: parse_numeric_length split: if_splits prod.splits)

lemma parse_precision_length:
  "parse_precision (spec, st, args) = Inr (spec', st', args') \<Longrightarrow> length (ps_format st') \<le> length (ps_format st)"
  using consume_length [of st] consume_length [of "consume st"]
  by (auto simp: parse_precision_def Let_def bind_ok_eq_Inr dest!: parse_numeric_length split: if_splits prod.splits)

lemma parse_specifier_length:
  "parse_conversion_specifier (parse_length_modifier (spec, st)) = (spec', st') \<Longrightarrow> length (ps_format st') \<le> length (ps_format st)"
  using consume_length [of st] consume_length [of "consume st"] consume_length [of "consume (consume st)"]
  by (auto simp: parse_conversion_specifier_def parse_length_modifier_def Let_def split: if_splits)

lemma parse_specification_length:
  assumes "parse_conversion_specification (spec, st, args) = Inr (spec', st', args')"
  shows "length (ps_format st') \<le> length (ps_format st)"
proof -
  obtain spec1 st1 where f: "parse_flags (spec, st) = (spec1, st1)"
    by fastforce
  obtain spec2 st2 args2 where w: "parse_field_width (spec1, st1) args = Inr (spec2, st2, args2)"
    using assms f by (auto simp: parse_conversion_specification_def bind_ok_eq_Inr)
  obtain spec3 st3 args3 where p: "parse_precision (spec2, st2, args2) = Inr (spec3, st3, args3)"
    using assms f w by (auto simp: parse_conversion_specification_def bind_ok_eq_Inr)
  have "parse_conversion_specifier (parse_length_modifier (spec3, st3)) = (spec', st')"
    using assms f w p by (auto simp: parse_conversion_specification_def split: prod.splits)
  then show ?thesis
    using parse_flags_length [OF f] parse_field_width_length [OF w] parse_precision_length [OF p] parse_specifier_length
    by fastforce
qed

section \<open>The function\<close>

lemma consume_write_char: "ps_format (consume (write_char c st)) = ps_format (consume st)"
  by (simp add: consume_def current_def)

function vsnprintf_loop :: "printf_state \<Rightarrow> va_value list \<Rightarrow> printf_state result" where
  "vsnprintf_loop st args =
     (if current st = CHR 0x00 then Inr st
      else if current st \<noteq> CHR ''%'' then vsnprintf_loop (consume (write_char (current st) st)) args
      else if current (consume st) = CHR ''%'' then vsnprintf_loop (consume (write_char (CHR ''%'') (consume st))) args
      else
        bind_ok (parse_conversion_specification (initial_spec, consume st, args)) (\<lambda>(spec, st', args').
        bind_ok (process_conversion spec args' st') (\<lambda>(st'', args''). vsnprintf_loop st'' args'')))"
  by pat_completeness auto

termination
proof (relation "measure (\<lambda>(st, args). length (ps_format st))")
  fix st args
  assume "current st \<noteq> CHR 0x00"
  then show "((consume (write_char (current st) st), args), (st, args)) \<in> measure (\<lambda>(st, args). length (ps_format st))"
    using consume_less [of st] by (simp add: consume_write_char)
next
  fix st args
  assume "current st \<noteq> CHR 0x00"
  then show "((consume (write_char (CHR ''%'') (consume st)), args), (st, args)) \<in> measure (\<lambda>(st, args). length (ps_format st))"
    using consume_less [of st] consume_length [of "consume st"] by (simp add: consume_write_char)
next
  fix st args x spec st' args'
  fix r y st'' args''
  assume "current st \<noteq> CHR 0x00"
    and "parse_conversion_specification (initial_spec, consume st, args) = Inr x" and "(spec, r) = x" and "(st', args') = r"
    and "process_conversion spec args' st' = Inr y" and "(st'', args'') = y"
  then show "((st'', args''), (st, args)) \<in> measure (\<lambda>(st, args). length (ps_format st))"
    using consume_less [of st] parse_specification_length [of initial_spec "consume st" args spec st' args']
      process_conversion_format [of spec args' st' st'' args''] by auto
qed simp

declare vsnprintf_loop.simps [simp del]

definition vsnprintf ::
    "nat option \<Rightarrow> nat \<Rightarrow> string \<Rightarrow> va_value list \<Rightarrow> (nat \<Rightarrow> char) \<Rightarrow> (nat \<times> (nat \<Rightarrow> char)) result" where
  "vsnprintf s n format args memory =
     bind_ok (vsnprintf_loop (initialize_state s n format memory) args) (\<lambda>st.
       let st = terminate_string st in Inr (ps_len st, ps_memory st))"

end
