(* ===== verification/Logging.thy ===== *)
theory Logging
  imports Printf
begin

text \<open>
  The kernel log, \<open>kernel/domain/services/logging.c\<close>: a ring buffer of events with a write position, a
  tail and readers. Addresses are relative to the start of the ring buffer, whose bytes are in an
  explicit memory; the text of an event is written there by the formatted output function. What a
  reader passes to its log function is recorded. The spinlock is left out.
\<close>

section \<open>Data\<close>

definition RING_BUFFER_SIZE :: nat where "RING_BUFFER_SIZE = 65536"
definition LOG_MAX_LENGTH :: nat where "LOG_MAX_LENGTH = 480"

text \<open>Level, facility and text of an event.\<close>

type_synonym log_entry = "char \<times> char \<times> string"

record log_reader_t =
  read_ptr :: nat
  read_id :: nat
  logged :: "log_entry list"

record log_state =
  ring :: "nat \<Rightarrow> char"
  write_ptr :: nat
  tail_ptr :: nat
  write_id :: nat
  tail_id :: nat
  readers :: "log_reader_t list"

definition initial_log :: "(nat \<Rightarrow> char) \<Rightarrow> log_state" where
  "initial_log m = \<lparr>ring = m, write_ptr = 0, tail_ptr = 0, write_id = 0, tail_id = 0, readers = []\<rparr>"

text \<open>The event at an address: a 16-bit length, the level, the facility and the text.\<close>

definition event_length :: "(nat \<Rightarrow> char) \<Rightarrow> nat \<Rightarrow> nat" where
  "event_length m p = of_char (m p) + 256 * of_char (m (p + 1))"

definition set_event_length :: "nat \<Rightarrow> nat \<Rightarrow> (nat \<Rightarrow> char) \<Rightarrow> nat \<Rightarrow> char" where
  "set_event_length p n m = m(p := char_of (n mod 256), p + 1 := char_of (n div 256 mod 256))"

definition event_entry :: "(nat \<Rightarrow> char) \<Rightarrow> nat \<Rightarrow> log_entry" where
  "event_entry m p = (m (p + 2), m (p + 3), map (\<lambda>i. m (p + 4 + i)) [0..<event_length m p])"

definition event_span :: "nat \<Rightarrow> nat" where
  "event_span len = 4 + (len + 3) div 4 * 4"

section \<open>Readers\<close>

definition initialize_at_start :: "log_state \<Rightarrow> log_reader_t \<Rightarrow> log_reader_t" where
  "initialize_at_start s r = r\<lparr>read_ptr := tail_ptr s, read_id := tail_id s\<rparr>"

definition initialize_log_reader :: "log_state \<Rightarrow> log_reader_t" where
  "initialize_log_reader s = initialize_at_start s \<lparr>read_ptr = 0, read_id = 0, logged = []\<rparr>"

definition register_log_reader :: "log_reader_t \<Rightarrow> log_state \<Rightarrow> log_state" where
  "register_log_reader r s = s\<lparr>readers := readers s @ [r]\<rparr>"

section \<open>Positions\<close>

definition write_go_next :: "log_state \<Rightarrow> log_state" where
  "write_go_next s =
     s\<lparr>write_ptr := write_ptr s + event_span (event_length (ring s) (write_ptr s)), write_id := write_id s + 1\<rparr>"

definition tail_go_next :: "log_state \<Rightarrow> log_state" where
  "tail_go_next s =
     s\<lparr>tail_ptr := tail_ptr s + event_span (event_length (ring s) (tail_ptr s)), tail_id := tail_id s + 1\<rparr>"

definition read_go_next :: "log_state \<Rightarrow> log_reader_t \<Rightarrow> log_reader_t" where
  "read_go_next s r =
     r\<lparr>read_ptr := read_ptr r + event_span (event_length (ring s) (read_ptr r)), read_id := read_id r + 1\<rparr>"

definition write_terminator :: "log_state \<Rightarrow> log_state" where
  "write_terminator s = s\<lparr>ring := set_event_length (write_ptr s) 0 (ring s)\<rparr>"

definition is_at_terminator :: "log_state \<Rightarrow> nat \<Rightarrow> bool" where
  "is_at_terminator s p = (event_length (ring s) p = 0)"

definition REDZONE_SIZE :: nat where "REDZONE_SIZE = LOG_MAX_LENGTH + 2 * 4"

definition pointer_is_in_redzone :: "log_state \<Rightarrow> nat \<Rightarrow> bool" where
  "pointer_is_in_redzone s p = (write_ptr s \<le> p \<and> p < write_ptr s + REDZONE_SIZE)"

text \<open>
  The loop that moves the tail; the fuel is one iteration per position of the ring buffer, which is
  enough for every state the log can reach.
\<close>

primrec push_tail_loop :: "nat \<Rightarrow> log_state \<Rightarrow> log_state result" where
  "push_tail_loop 0 s = (if pointer_is_in_redzone s (tail_ptr s) then Inl OutOfFuel else Inr s)"
| "push_tail_loop (Suc n) s =
     (if pointer_is_in_redzone s (tail_ptr s)
      then
        (let s = tail_go_next s
         in push_tail_loop n (if is_at_terminator s (tail_ptr s) then s\<lparr>tail_ptr := 0\<rparr> else s))
      else Inr s)"

definition push_tail :: "log_state \<Rightarrow> log_state result" where
  "push_tail s = push_tail_loop RING_BUFFER_SIZE s"

section \<open>Catching up\<close>

primrec sync_loop :: "nat \<Rightarrow> log_state \<Rightarrow> log_reader_t \<Rightarrow> log_reader_t" where
  "sync_loop 0 s r = r"
| "sync_loop (Suc n) s r =
     (let r = (if is_at_terminator s (read_ptr r) then r\<lparr>read_ptr := 0\<rparr> else r);
          r = r\<lparr>logged := logged r @ [event_entry (ring s) (read_ptr r)]\<rparr>
      in sync_loop n s (read_go_next s r))"

definition sync_reader :: "log_state \<Rightarrow> log_reader_t \<Rightarrow> log_reader_t" where
  "sync_reader s r =
     (let r = (if read_id r < tail_id s then initialize_at_start s r else r)
      in sync_loop (write_id s - read_id r) s r)"

definition sync_all_readers :: "log_state \<Rightarrow> log_state" where
  "sync_all_readers s = s\<lparr>readers := map (sync_reader s) (readers s)\<rparr>"

section \<open>Writing\<close>

definition log_message :: "char \<Rightarrow> char \<Rightarrow> string \<Rightarrow> va_value list \<Rightarrow> log_state \<Rightarrow> log_state result" where
  "log_message loglevel facility format args s =
     bind_ok (if pointer_is_in_redzone s RING_BUFFER_SIZE
              then bind_ok (push_tail s) (\<lambda>s. Inr ((write_terminator s)\<lparr>write_ptr := 0\<rparr>))
              else Inr s) (\<lambda>s.
     bind_ok (if write_id s \<noteq> 0 then push_tail s else Inr s) (\<lambda>s.
     let p = write_ptr s;
         m = (ring s)(p + 2 := loglevel, p + 3 := facility)
     in bind_ok (vsnprintf (Some (p + 4)) (LOG_MAX_LENGTH + 1) format args m) (\<lambda>(n, m).
        Inr (sync_all_readers (write_go_next (s\<lparr>ring := set_event_length p (n mod 65536) m\<rparr>))))))"

end
