(* ===== verification/PrintfProps.thy ===== *)
theory PrintfProps
  imports Printf
begin

text \<open>
  Formatted output against a reference that builds the whole text: what the function leaves in the
  buffer is that text cut to the space available, and it returns the length of the whole text. The
  reference writes numbers with their usual digits.
\<close>

section \<open>Digits\<close>

fun digits :: "nat \<Rightarrow> nat \<Rightarrow> nat list" where
  "digits b v = (if b < 2 \<or> v < b then [v] else digits b (v div b) @ [v mod b])"

declare digits.simps [simp del]

definition zero_pad :: "nat \<Rightarrow> nat list \<Rightarrow> nat list" where
  "zero_pad n ds = replicate (n - length ds) 0 @ ds"

text \<open>The digits of the lowest \<open>n\<close> positions.\<close>

definition expand :: "nat \<Rightarrow> nat \<Rightarrow> nat \<Rightarrow> nat list" where
  "expand b n v = map (\<lambda>i. v div b ^ i mod b) (rev [0..<n])"

lemma expand_0 [simp]: "expand b 0 v = []"
  by (simp add: expand_def)

lemma expand_Suc: "expand b (Suc n) v = (v div b ^ n mod b) # expand b n v"
  by (simp add: expand_def)

lemma length_expand [simp]: "length (expand b n v) = n"
  by (simp add: expand_def)

lemma expand_Suc_low: "expand b (Suc n) v = expand b n (v div b) @ [v mod b]"
proof (induction n)
  case (Suc n)
  have "v div b ^ Suc n mod b = v div b div b ^ n mod b"
    by (simp add: div_mult2_eq)
  then show ?case
    using Suc by (simp add: expand_Suc [of b "Suc n" v] expand_Suc [of b n "v div b"])
qed (simp add: expand_Suc)

lemma length_zero_pad [simp]: "length (zero_pad n ds) = max n (length ds)"
  by (simp add: zero_pad_def)

lemma zero_pad_expand:
  assumes "2 \<le> b"
  shows "zero_pad (Suc n) (digits b (v mod b ^ Suc n)) = expand b (Suc n) v"
proof (induction n arbitrary: v)
  case 0
  then show ?case
    using assms by (simp add: digits.simps [of b "v mod b"] zero_pad_def expand_Suc)
next
  case (Suc n)
  let ?w = "v mod b ^ Suc (Suc n)"
  have low: "?w mod b = v mod b"
    by (simp add: mod_mult2_eq)
  have high: "?w div b = v div b mod b ^ Suc n"
  proof -
    have "?w = b * (v div b mod b ^ Suc n) + v mod b"
      by (metis mod_mult2_eq power_Suc)
    then show ?thesis
      using assms by simp
  qed
  have IH: "zero_pad (Suc n) (digits b (?w div b)) = expand b (Suc n) (v div b)"
    using Suc [of "v div b"] high by simp
  show ?case
  proof (cases "?w < b")
    case True
    then have "?w div b = 0"
      by simp
    then have "expand b (Suc n) (v div b) = replicate (Suc n) 0"
      using IH assms by (simp add: digits.simps [of b 0] zero_pad_def replicate_append_same)
    then show ?thesis
      using True low expand_Suc_low [of b "Suc n" v] by (simp add: digits.simps [of b "v mod b"] zero_pad_def)
  next
    case False
    then have "digits b ?w = digits b (?w div b) @ [?w mod b]"
      using assms by (subst digits.simps) simp
    then show ?thesis
      using IH low expand_Suc_low [of b "Suc n" v] by (simp add: zero_pad_def)
  qed
qed

lemma length_digits_le:
  assumes "2 \<le> b"
  shows "length (digits b (v mod b ^ Suc n)) \<le> Suc n"
  using arg_cong [OF zero_pad_expand [OF assms, of n v], of length] by simp

lemma zero_pad_more: "length ds \<le> n \<Longrightarrow> n \<le> p \<Longrightarrow> zero_pad p ds = replicate (p - n) 0 @ zero_pad n ds"
  by (simp add: zero_pad_def replicate_add [symmetric] flip: append_assoc)

lemma length_digits_leading:
  assumes "2 \<le> b" and "v div b ^ n mod b \<noteq> 0"
  shows "length (digits b (v mod b ^ Suc n)) = Suc n"
proof (rule ccontr)
  let ?ds = "digits b (v mod b ^ Suc n)"
  assume "length ?ds \<noteq> Suc n"
  then have "length ?ds < Suc n"
    using length_digits_le [OF assms(1), of v n] by simp
  then have "hd (zero_pad (Suc n) ?ds) = 0"
    by (simp add: zero_pad_def hd_append)
  then show False
    using zero_pad_expand [OF assms(1), of n v] assms(2) by (simp add: expand_Suc)
qed

text \<open>The digits a loop from the first position writes.\<close>

primrec written :: "nat \<Rightarrow> nat \<Rightarrow> nat \<Rightarrow> nat \<Rightarrow> bool \<Rightarrow> nat list" where
  "written b v p 0 nonzero = []"
| "written b v p (Suc d) nonzero =
     (let x = v div b ^ d mod b
      in if nonzero \<or> x \<noteq> 0 \<or> Suc d \<le> p then x # written b v p d True else written b v p d nonzero)"

lemma written_nonzero [simp]: "written b v p d True = expand b d v"
  by (induction d) (simp_all add: expand_Suc)

lemma written_digits:
  assumes "2 \<le> b" and "1 \<le> p"
  shows "replicate (p - d) 0 @ written b v p d False = zero_pad p (digits b (v mod b ^ d))"
proof (induction d)
  case 0
  have "digits b 0 = [0]"
    using assms(1) by (simp add: digits.simps [of b 0])
  then show ?case
    using assms by (simp add: zero_pad_def replicate_append_same flip: replicate_Suc)
next
  case (Suc d)
  let ?ds = "digits b (v mod b ^ Suc d)"
  consider "Suc d \<le> p" | "\<not> Suc d \<le> p" "v div b ^ d mod b \<noteq> 0" | "\<not> Suc d \<le> p" "v div b ^ d mod b = 0"
    by blast
  then show ?case
  proof cases
    case 1
    then have "zero_pad p ?ds = replicate (p - Suc d) 0 @ zero_pad (Suc d) ?ds"
      using length_digits_le [OF assms(1)] by (intro zero_pad_more) simp_all
    then show ?thesis
      using 1 zero_pad_expand [OF assms(1), of d v] by (simp add: expand_Suc)
  next
    case 2
    then have "length ?ds = Suc d"
      using length_digits_leading [OF assms(1)] by simp
    then have "zero_pad p ?ds = zero_pad (Suc d) ?ds"
      using 2 by (simp add: zero_pad_def)
    then show ?thesis
      using 2 zero_pad_expand [OF assms(1), of d v] by (simp add: expand_Suc)
  next
    case 3
    have "v mod b ^ Suc d = b ^ d * (v div b ^ d mod b) + v mod b ^ d"
      by (metis mod_mult2_eq mult.commute power_Suc)
    then have "v mod b ^ Suc d = v mod b ^ d"
      using 3 by simp
    then show ?thesis
      using 3 Suc by simp
  qed
qed

section \<open>Sequences of characters\<close>

definition emit :: "string \<Rightarrow> printf_state \<Rightarrow> printf_state" where
  "emit w st = fold write_char w st"

lemma emit_Nil [simp]: "emit [] st = st"
  by (simp add: emit_def)

lemma emit_Cons: "emit (c # w) st = emit w (write_char c st)"
  by (simp add: emit_def)

lemma emit_append: "emit (v @ w) st = emit w (emit v st)"
  by (simp add: emit_def)

lemma write_char_maxlen [simp]: "ps_maxlen (write_char c st) = ps_maxlen st"
  by (simp add: write_char_def Let_def split: option.split)

lemma write_char_len: "ps_len (write_char c st) = (ps_len st + 1) mod size_t_range"
  by (simp add: write_char_def Let_def split: option.split)

lemma emit_frame [simp]: "ps_format (emit w st) = ps_format st" "ps_maxlen (emit w st) = ps_maxlen st"
  by (induction w arbitrary: st) (simp_all add: emit_Cons)

lemma emit_len: "ps_len st < size_t_range \<Longrightarrow> ps_len (emit w st) = (ps_len st + length w) mod size_t_range"
proof (induction w arbitrary: st)
  case (Cons c w)
  then show ?case
    by (simp add: emit_Cons write_char_len mod_simps)
qed simp

lemma emit_len_bound: "ps_len st < size_t_range \<Longrightarrow> ps_len (emit w st) < size_t_range"
  by (simp add: emit_len)

text \<open>A dry run writes nothing.\<close>

lemma write_char_dry: "ps_wrptr st = None \<Longrightarrow> write_char c st = st\<lparr>ps_len := (ps_len st + 1) mod size_t_range\<rparr>"
  by (simp add: write_char_def)

lemma emit_dry:
  assumes "ps_wrptr st = None" and "ps_len st < size_t_range"
  shows "emit w st = st\<lparr>ps_len := (ps_len st + length w) mod size_t_range\<rparr>"
  using assms
proof (induction w arbitrary: st)
  case (Cons c w)
  then show ?case
    by (simp add: emit_Cons write_char_dry mod_simps)
qed simp

text \<open>What is written fills the space left and no more.\<close>

definition put :: "string \<Rightarrow> nat \<Rightarrow> (nat \<Rightarrow> char) \<Rightarrow> nat \<Rightarrow> char" where
  "put w p m = (\<lambda>a. if p \<le> a \<and> a < p + length w then w ! (a - p) else m a)"

lemma put_Nil [simp]: "put [] p m = m"
  by (auto simp: put_def fun_eq_iff)

lemma put_Cons: "put (c # w) p m = put w (p + 1) (m(p := c))"
  by (auto simp: put_def fun_eq_iff nth_Cons')

lemma emit_memory:
  assumes "ps_wrptr st = Some p" and "ps_len st + length w < size_t_range"
  shows "ps_memory (emit w st) = put (take (ps_maxlen st - ps_len st) w) p (ps_memory st) \<and>
    ps_wrptr (emit w st) = Some (p + min (length w) (ps_maxlen st - ps_len st))"
  using assms
proof (induction w arbitrary: st p)
  case (Cons c w)
  have len: "ps_len (write_char c st) = ps_len st + 1"
    using Cons.prems by (simp add: write_char_len)
  show ?case
  proof (cases "ps_len st < ps_maxlen st")
    case True
    have m: "ps_wrptr (write_char c st) = Some (p + 1)" "ps_memory (write_char c st) = (ps_memory st)(p := c)"
      using True Cons.prems(1) by (simp_all add: write_char_def)
    obtain k where k: "ps_maxlen st - ps_len st = Suc k"
      using True by (cases "ps_maxlen st - ps_len st") simp_all
    then have k': "ps_maxlen (write_char c st) - ps_len (write_char c st) = k"
      using len by simp
    have "ps_len (write_char c st) + length w < size_t_range"
      using Cons.prems(2) len by simp
    from Cons.IH [OF m(1) this] show ?thesis
      unfolding k' m(2) by (simp add: emit_Cons k put_Cons fun_upd_def)
  next
    case False
    have "ps_wrptr (write_char c st) = Some p" "ps_memory (write_char c st) = ps_memory st"
      using False Cons.prems(1) by (simp_all add: write_char_def)
    then show ?thesis
      using Cons.IH [of "write_char c st" p] Cons.prems len False by (simp add: emit_Cons)
  qed
qed simp

section \<open>Writers\<close>

lemma write_repeat_emit: "write_repeat n c st = emit (replicate n c) st"
  by (induction n arbitrary: st) (simp_all add: emit_Cons)

lemma write_bit_digits_emit:
  "write_bit_digits bits f v p d z st = emit (map f (written (2 ^ bits) v (nat p) d z)) st"
proof (induction d arbitrary: z st)
  case (Suc d)
  have "take_bit bits (drop_bit (bits * d) v) = v div (2 ^ bits) ^ d mod 2 ^ bits"
    by (simp add: take_bit_eq_mod drop_bit_eq_div power_mult)
  moreover have "(int (Suc d) \<le> p) = (Suc d \<le> nat p)"
    by linarith
  ultimately show ?case
    using Suc by (simp add: Let_def emit_Cons)
qed simp

lemma mod_div_digit:
  assumes "2 \<le> b" and "d < n"
  shows "v mod b ^ n div b ^ d mod b = v div b ^ d mod (b :: nat)"
proof -
  have "b ^ n = b ^ d * b ^ (n - d)"
    using assms(2) by (simp flip: power_add)
  then have "v mod b ^ n div b ^ d = v div b ^ d mod b ^ (n - d)"
    using assms(1) by (simp add: mod_mult2_eq)
  moreover have "b dvd b ^ (n - d)"
    using assms(2) by (simp add: dvd_power)
  ultimately show ?thesis
    by (simp add: mod_mod_cancel)
qed

lemma written_mod: "2 \<le> b \<Longrightarrow> d \<le> n \<Longrightarrow> written b (v mod b ^ n) p d z = written b v p d z"
proof (induction d arbitrary: z)
  case (Suc d)
  have "v mod b ^ n div b ^ d mod b = v div b ^ d mod b"
    using Suc.prems by (intro mod_div_digit) simp_all
  moreover have "written b (v mod b ^ n) p d y = written b v p d y" for y
    using Suc by simp
  ultimately show ?case
    by (simp add: Let_def del: written_nonzero)
qed simp

text \<open>The decimal loop divides what is left of the value by a decreasing power of ten.\<close>

lemma write_decimal_digits_emit:
  assumes "v < 10 ^ d" and "\<And>e. d = Suc e \<Longrightarrow> pw = 10 ^ e"
  shows "write_decimal_digits v pw p d z st = emit (map digit_char (written 10 v (nat p) d z)) st"
  using assms
proof (induction d arbitrary: v pw z st)
  case (Suc d)
  have pw: "pw = 10 ^ d"
    using Suc.prems(2) by simp
  have x: "v div 10 ^ d mod 10 = v div 10 ^ d"
    using Suc.prems(1) by (simp add: less_mult_imp_div_less mult.commute)
  have rest: "v - v div 10 ^ d * 10 ^ d = v mod 10 ^ d"
    by (simp add: minus_div_mult_eq_mod)
  have next_pw: "\<And>e. d = Suc e \<Longrightarrow> pw div 10 = 10 ^ e"
    using pw by simp
  have le: "(1 + int d \<le> p) = (Suc d \<le> nat p)"
    by linarith
  show ?case
  proof (cases "z \<or> v div 10 ^ d \<noteq> 0 \<or> Suc d \<le> nat p")
    case True
    have "write_decimal_digits (v mod 10 ^ d) (pw div 10) p d True (write_char (digit_char (v div 10 ^ d)) st) =
      emit (map digit_char (written 10 (v mod 10 ^ d) (nat p) d True)) (write_char (digit_char (v div 10 ^ d)) st)"
      using next_pw by (intro Suc.IH) simp_all
    then show ?thesis
      using True x rest written_mod [of 10 d d v "nat p" True] by (simp add: Let_def le pw emit_Cons del: written_nonzero)
  next
    case False
    then have "v < 10 ^ d"
      by (simp add: div_eq_0_iff)
    then have "write_decimal_digits v (pw div 10) p d z st = emit (map digit_char (written 10 v (nat p) d z)) st"
      using next_pw by (intro Suc.IH) simp_all
    then show ?thesis
      using False x by (simp add: Let_def le pw)
  qed
qed simp

section \<open>Numbers\<close>

definition number_digits :: "nat \<Rightarrow> nat \<Rightarrow> nat \<Rightarrow> nat list" where
  "number_digits b p v = zero_pad p (digits b v)"

definition unsigned_text :: "int \<Rightarrow> conv_spec_t \<Rightarrow> string" where
  "unsigned_text v spec =
     map digit_char (number_digits 10 (nat (default_prec spec)) (nat v mod 2 ^ (8 * argument_size spec)))"

definition signed_text :: "int \<Rightarrow> conv_spec_t \<Rightarrow> string" where
  "signed_text v spec =
     (if v < 0 then CHR ''-'' # unsigned_text (- v) spec
      else (if cs_plus spec then ''+'' else if cs_space spec then '' '' else []) @ unsigned_text v spec)"

definition bits_prec :: "nat \<Rightarrow> conv_spec_t \<Rightarrow> nat" where
  "bits_prec digit spec = (if cs_conversion spec = CHR ''p'' then digit else nat (default_prec spec))"

definition hexadecimal_text :: "int \<Rightarrow> conv_spec_t \<Rightarrow> string" where
  "hexadecimal_text v spec =
     (if cs_hash spec \<and> (v \<noteq> 0 \<or> cs_conversion spec = CHR ''p'') then ''0x'' else []) @
     map (hex_char (cs_conversion spec = CHR ''X''))
       (number_digits 16 (bits_prec (2 * argument_size spec) spec) (nat v mod 2 ^ (8 * argument_size spec)))"

definition octal_text :: "int \<Rightarrow> conv_spec_t \<Rightarrow> string" where
  "octal_text v spec =
     (if cs_hash spec \<and> (v \<noteq> 0 \<or> cs_conversion spec = CHR ''p'') then ''0'' else []) @
     map digit_char (number_digits 8 (bits_prec ((8 * argument_size spec + 2) div 3) spec)
       (nat v mod 8 ^ ((8 * argument_size spec + 2) div 3)))"

lemma argument_size_cases: "argument_size spec = 1 \<or> argument_size spec = 2 \<or> argument_size spec = 4 \<or> argument_size spec = 8"
  by (simp add: argument_size_def split: length_modifier_t.split)

lemma default_prec_pos: "1 \<le> nat (default_prec spec)"
  by (simp add: default_prec_def) linarith

lemma digit_char_zero: "digit_char 0 = CHR ''0''" "hex_char u 0 = CHR ''0''"
  by (simp_all add: digit_char_def hex_char_def char_of_def bit_Suc_0_iff)

lemma write_decimal_number:
  assumes "v < 10 ^ Suc e" and "1 \<le> nat p"
  shows "write_decimal_digits v (10 ^ e) p (Suc e) False (write_repeat (nat (p - int (Suc e))) (CHR ''0'') st) =
    emit (map digit_char (number_digits 10 (nat p) v)) st"
proof -
  have "map digit_char (number_digits 10 (nat p) v) =
    replicate (nat (p - int (Suc e))) (CHR ''0'') @ map digit_char (written 10 v (nat p) (Suc e) False)"
    using written_digits [of 10 "nat p" "Suc e" v, symmetric] assms
    by (simp add: number_digits_def digit_char_zero nat_diff_distrib' del: written.simps)
  then show ?thesis
    using assms by (simp add: emit_append write_repeat_emit write_decimal_digits_emit del: written.simps write_decimal_digits.simps)
qed

lemma write_unsigned_emit:
  assumes "0 \<le> v" and "v < 2 ^ 64"
  shows "write_unsigned v spec st = emit (unsigned_text v spec) st"
proof -
  have m: "nat v mod 2 ^ 64 = nat v" "nat v < 10 ^ 20"
    using assms by (simp_all add: nat_less_iff)
  have b: "nat v mod 4294967296 < 10 ^ 10" "nat v mod 65536 < 10 ^ 5" "nat v mod 256 < 10 ^ 3"
    using less_trans [of "nat v mod 4294967296" 4294967296 "10 ^ 10"] less_trans [of "nat v mod 65536" 65536 "10 ^ 5"]
      less_trans [of "nat v mod 256" 256 "10 ^ 3"] by simp_all
  note num = write_decimal_number [where p = "default_prec spec", OF _ default_prec_pos]
  consider "argument_size spec = 8" | "argument_size spec = 4" | "argument_size spec = 2" | "argument_size spec = 1"
    using argument_size_cases by blast
  then show ?thesis
  proof cases
    case 1
    then show ?thesis
      using num [of "nat v" 19 st] m by (simp add: write_unsigned_def unsigned_text_def del: write_decimal_digits.simps)
  next
    case 2
    then show ?thesis
      using num [of "nat v mod 4294967296" 9 st] b by (simp add: write_unsigned_def unsigned_text_def del: write_decimal_digits.simps)
  next
    case 3
    then show ?thesis
      using num [of "nat v mod 65536" 4 st] b by (simp add: write_unsigned_def unsigned_text_def del: write_decimal_digits.simps)
  next
    case 4
    then show ?thesis
      using num [of "nat v mod 256" 2 st] b by (simp add: write_unsigned_def unsigned_text_def del: write_decimal_digits.simps)
  qed
qed

lemma write_bits_number:
  assumes "1 \<le> bits" and "1 \<le> nat p" and "f 0 = CHR ''0''"
  shows "write_bit_digits bits f v p d False (write_repeat (nat (p - int d)) (CHR ''0'') st) =
    emit (map f (number_digits (2 ^ bits) (nat p) (v mod (2 ^ bits) ^ d))) st"
proof -
  have "2 \<le> (2 :: nat) ^ bits"
    using assms(1) power_increasing [of 1 bits "2 :: nat"] by simp
  then have "map f (number_digits (2 ^ bits) (nat p) (v mod (2 ^ bits) ^ d)) =
    replicate (nat (p - int d)) (CHR ''0'') @ map f (written (2 ^ bits) v (nat p) d False)"
    using written_digits [of "2 ^ bits" "nat p" d v, symmetric] assms(2,3) by (simp add: number_digits_def nat_diff_distrib')
  then show ?thesis
    by (simp add: emit_append write_repeat_emit write_bit_digits_emit)
qed

lemma argument_size_pos: "1 \<le> argument_size spec"
  using argument_size_cases [of spec] by auto

lemma write_hexadecimal_emit: "write_hexadecimal v spec st = emit (hexadecimal_text v spec) st"
proof -
  define d where "d = 2 * argument_size spec"
  define p where "p = (if cs_conversion spec = CHR ''p'' then int d else default_prec spec)"
  define f where "f = hex_char (cs_conversion spec = CHR ''X'')"
  have p: "1 \<le> nat p" "nat p = bits_prec d spec"
    using default_prec_pos [of spec] argument_size_pos [of spec] by (auto simp: p_def d_def bits_prec_def)
  have "(16 :: nat) ^ d = 2 ^ (8 * argument_size spec)"
    by (simp add: d_def power_mult)
  then have core: "write_bit_digits 4 f (nat v) p d False (write_repeat (nat (p - int d)) (CHR ''0'') u) =
      emit (map f (number_digits 16 (bits_prec d spec) (nat v mod 2 ^ (8 * argument_size spec)))) u" for u
    using write_bits_number [of 4 p f "nat v" d u] p by (simp add: f_def digit_char_zero)
  show ?thesis
    unfolding write_hexadecimal_def hexadecimal_text_def Let_def d_def [symmetric] p_def [symmetric] f_def [symmetric] core
    by (auto simp: emit_append emit_Cons)
qed

lemma write_octal_emit: "write_octal v spec st = emit (octal_text v spec) st"
proof -
  define d where "d = (8 * argument_size spec + 2) div 3"
  define p where "p = (if cs_conversion spec = CHR ''p'' then int d else default_prec spec)"
  have "1 \<le> d"
    using argument_size_pos [of spec] unfolding d_def by linarith
  then have p: "1 \<le> nat p" "nat p = bits_prec d spec"
    using default_prec_pos [of spec] by (simp_all add: p_def bits_prec_def)
  have core: "write_bit_digits 3 digit_char (nat v) p d False (write_repeat (nat (p - int d)) (CHR ''0'') u) =
      emit (map digit_char (number_digits 8 (bits_prec d spec) (nat v mod 8 ^ d))) u" for u
    using write_bits_number [of 3 p digit_char "nat v" d u] p by (simp add: digit_char_zero)
  show ?thesis
    unfolding write_octal_def octal_text_def Let_def d_def [symmetric] p_def [symmetric] core
    by (auto simp: emit_append emit_Cons)
qed

lemma write_signed_emit:
  assumes "- (2 ^ 63) \<le> v" and "v < 2 ^ 63"
  shows "write_signed v spec st = emit (signed_text v spec) st"
  using assms by (simp add: write_signed_def signed_text_def write_unsigned_emit emit_Cons emit_append)

section \<open>Strings\<close>

definition string_text :: "string \<Rightarrow> conv_spec_t \<Rightarrow> string" where
  "string_text str spec = (if cs_prec spec < 0 then str else take (nat (cs_prec spec)) str)"

lemma mod_distance:
  assumes "l < n"
  shows "((l + k) mod n + n - l) mod n = k mod (n :: nat)"
proof -
  have "(l + k) mod n + n - l = (l + k) mod n + (n - l)"
    using assms by simp
  then have "((l + k) mod n + n - l) mod n = (l + k + (n - l)) mod n"
    by (simp add: mod_add_left_eq)
  then show ?thesis
    using assms by simp
qed

lemma get_length_emit:
  assumes "ps_len st < size_t_range"
  shows "get_length (save_position st) (emit w st) = length w mod size_t_range"
  using mod_distance [OF assms] by (simp only: get_length_def save_position_def emit_len [OF assms] saved_position_t.simps)

lemma write_string_loop_emit:
  assumes "ps_len st < size_t_range" and "p < 2 ^ 31" and "0 \<le> p \<Longrightarrow> int (length w) \<le> p"
  shows "write_string_loop cs p (save_position st) (emit w st) =
    emit (if p < 0 then cs else take (nat p - length w) cs) (emit w st)"
  using assms(3)
proof (induction cs arbitrary: w)
  case (Cons c cs)
  have step: "emit cs' (write_char c (emit w st)) = emit cs' (emit (w @ [c]) st)" for cs'
    by (simp add: emit_append emit_Cons)
  show ?case
  proof (cases "p < 0 \<or> int (length w) < p")
    case True
    then have "write_string_loop (c # cs) p (save_position st) (emit w st) =
      write_string_loop cs p (save_position st) (emit (w @ [c]) st)"
      using assms(1,2) by (auto simp: get_length_emit emit_append emit_Cons)
    also have "\<dots> = emit (if p < 0 then cs else take (nat p - length (w @ [c])) cs) (emit (w @ [c]) st)"
      using True by (intro Cons.IH) auto
    also have "\<dots> = emit (if p < 0 then c # cs else take (nat p - length w) (c # cs)) (emit w st)"
      using True step by (auto simp: take_Cons' emit_Cons emit_append)
    finally show ?thesis .
  next
    case False
    then show ?thesis
      using assms(1,2) Cons.prems by (simp add: get_length_emit)
  qed
qed simp

lemma write_string_emit:
  assumes "ps_len st < size_t_range" and "cs_prec spec < 2 ^ 31"
  shows "write_string str spec st = emit (string_text str spec) st"
  using write_string_loop_emit [OF assms, of "[]" str] by (simp add: write_string_def string_text_def)

section \<open>Padding\<close>

definition justify :: "conv_spec_t \<Rightarrow> string \<Rightarrow> string" where
  "justify spec t =
     (if cs_width spec \<le> 0 then t
      else if cs_minus spec then t @ replicate (nat (cs_width spec) - length t) (CHR '' '')
      else replicate (nat (cs_width spec) - length t) (if cs_prec spec < 0 \<and> cs_zero spec then CHR ''0'' else CHR '' '') @ t)"

lemma justify_length: "length t \<le> length (justify spec t)"
  by (simp add: justify_def)

lemma int32_length: "n < 2 ^ 31 \<Longrightarrow> int32 (int n) = int n"
  by (rule int32_id) simp_all

lemma padding_emit:
  assumes "n < 2 ^ 31"
  shows "add_padding_right_justified spec n st =
      emit (replicate (nat (cs_width spec) - n) (if cs_prec spec < 0 \<and> cs_zero spec then CHR ''0'' else CHR '' '')) st"
    and "add_padding_left_justified spec n st = emit (replicate (nat (cs_width spec) - n) (CHR '' '')) st"
proof -
  have "nat (cs_width spec - int n) = nat (cs_width spec) - n" "cs_width spec < int n \<Longrightarrow> nat (cs_width spec) - n = 0"
    by linarith+
  then show "add_padding_right_justified spec n st =
      emit (replicate (nat (cs_width spec) - n) (if cs_prec spec < 0 \<and> cs_zero spec then CHR ''0'' else CHR '' '')) st"
    and "add_padding_left_justified spec n st = emit (replicate (nat (cs_width spec) - n) (CHR '' '')) st"
    using assms
    by (simp_all add: add_padding_right_justified_def add_padding_left_justified_def Let_def int32_length write_repeat_emit)
qed

lemma dry_run_go_back:
  assumes "ps_len st < size_t_range" and "length t < 2 ^ 31"
  shows "go_back (save_position st) (emit t (start_dry_run st)) = (length t, st)"
proof -
  have "emit t (start_dry_run st) = (start_dry_run st)\<lparr>ps_len := (ps_len st + length t) mod size_t_range\<rparr>"
    using assms(1) emit_dry [of "start_dry_run st" t] by (simp add: start_dry_run_def)
  moreover have "get_length (save_position (start_dry_run st)) (emit t (start_dry_run st)) = length t"
    using assms get_length_emit [of "start_dry_run st" t] by (simp add: start_dry_run_def)
  ultimately show ?thesis
    by (simp add: go_back_def save_position_def start_dry_run_def get_length_def)
qed

lemma write_justified_emit:
  assumes "\<And>st. ps_len st < size_t_range \<Longrightarrow> wr st = emit t st" and "ps_len st < size_t_range" and "length t < 2 ^ 31"
  shows "write_justified spec wr st = emit (justify spec t) st"
proof -
  have dry: "ps_len (start_dry_run st) < size_t_range"
    using assms(2) by (simp add: start_dry_run_def)
  have len: "get_length (save_position st) (emit t st) = length t"
    using assms(2,3) by (simp add: get_length_emit)
  consider "cs_width spec \<le> 0" | "0 < cs_width spec" "cs_minus spec" | "0 < cs_width spec" "\<not> cs_minus spec"
    by linarith
  then show ?thesis
  proof cases
    case 1
    then show ?thesis
      using assms by (simp add: write_justified_def is_right_justified_def is_left_justified_def justify_def)
  next
    case 2
    then show ?thesis
      using assms len
      by (simp add: write_justified_def is_right_justified_def is_left_justified_def justify_def padding_emit emit_append)
  next
    case 3
    then show ?thesis
      using assms(1) [OF dry] assms(1) [OF emit_len_bound [OF assms(2)]] dry_run_go_back [OF assms(2,3)] padding_emit(1) [OF assms(3)]
      by (simp add: write_justified_def is_right_justified_def is_left_justified_def justify_def emit_append)
  qed
qed

section \<open>Conversions\<close>

definition conversion_text :: "conv_spec_t \<Rightarrow> va_value list \<Rightarrow> (string \<times> va_value list) result" where
  "conversion_text spec args =
     (let c = cs_conversion spec
      in if c = CHR ''i'' \<or> c = CHR ''d'' then
           bind_ok (get_signed_argument spec args) (\<lambda>(v, args). Inr (justify spec (signed_text v spec), args))
         else if c = CHR ''o'' then
           bind_ok (get_unsigned_argument spec args) (\<lambda>(v, args). Inr (justify spec (octal_text v spec), args))
         else if c = CHR ''u'' then
           bind_ok (get_unsigned_argument spec args) (\<lambda>(v, args). Inr (justify spec (unsigned_text v spec), args))
         else if c = CHR ''x'' \<or> c = CHR ''X'' then
           bind_ok (get_unsigned_argument spec args) (\<lambda>(v, args). Inr (justify spec (hexadecimal_text v spec), args))
         else if c = CHR ''c'' then
           bind_ok (va_arg_int args) (\<lambda>(v, args). Inr (justify spec [char_of (nat (v mod 256))], args))
         else if c = CHR ''s'' then
           bind_ok (va_arg_string args) (\<lambda>(v, args).
             Inr (justify spec (string_text (case v of None \<Rightarrow> ''(null)'' | Some str \<Rightarrow> str) spec), args))
         else if c = CHR ''p'' then
           bind_ok (va_arg_int args) (\<lambda>(v, args). Inr (justify spec (hexadecimal_text (v mod 2 ^ 32) spec), args))
         else if c = CHR ''%'' then Inr (''%'', args)
         else Inr ([], args))"

lemma get_signed_range: "get_signed_argument spec args = Inr (v, args') \<Longrightarrow> - (2 ^ 63) \<le> v \<and> v < 2 ^ 63"
proof -
  have long: "- (2 ^ 63) \<le> signed_take_bit 63 x \<and> signed_take_bit 63 x < 2 ^ 63" for x :: int
    using signed_take_bit_int_greater_eq_minus_exp [of 63 x] signed_take_bit_int_less_exp [of 63 x] by simp
  have word: "- (2 ^ 63) \<le> int32 x \<and> int32 x < 2 ^ 63" "- (2 ^ 63) \<le> x mod 2 ^ 32 \<and> x mod 2 ^ 32 < 2 ^ 63" for x
  proof -
    show "- (2 ^ 63) \<le> x mod 2 ^ 32 \<and> x mod 2 ^ 32 < 2 ^ 63"
      using less_trans [of "x mod 2 ^ 32" "2 ^ 32" "2 ^ 63"] order_trans [of "- (2 ^ 63)" 0 "x mod 2 ^ 32"] by simp
  qed (use int32_range [of x] in simp)
  show "get_signed_argument spec args = Inr (v, args') \<Longrightarrow> - (2 ^ 63) \<le> v \<and> v < 2 ^ 63"
    using long word
    by (cases "cs_length_modifier spec") (auto simp only: get_signed_argument_def bind_ok_eq_Inr length_modifier_t.case split_beta
        sum.inject prod.inject prod.collapse)
qed

lemma get_unsigned_range: "get_unsigned_argument spec args = Inr (v, args') \<Longrightarrow> 0 \<le> v \<and> v < 2 ^ 64"
proof -
  have m: "0 \<le> x mod 2 ^ 64 \<and> x mod 2 ^ 64 < 2 ^ 64" "0 \<le> x mod 2 ^ 32 \<and> x mod 2 ^ 32 < 2 ^ 64" for x :: int
  proof -
    show "0 \<le> x mod 2 ^ 32 \<and> x mod 2 ^ 32 < 2 ^ 64"
      using less_trans [of "x mod 2 ^ 32" "2 ^ 32" "2 ^ 64"] by simp
  qed simp
  show "get_unsigned_argument spec args = Inr (v, args') \<Longrightarrow> 0 \<le> v \<and> v < 2 ^ 64"
    using m
    by (cases "cs_length_modifier spec") (auto simp only: get_unsigned_argument_def bind_ok_eq_Inr length_modifier_t.case split_beta
        sum.inject prod.inject prod.collapse)
qed

lemma write_one_char: "write_char c st = emit [c] st"
  by (simp add: emit_Cons)

lemma char_justified: "write_justified_char spec c st = emit (justify spec [c]) st"
proof -
  consider "cs_width spec \<le> 0" | "0 < cs_width spec" "cs_minus spec" | "0 < cs_width spec" "\<not> cs_minus spec"
    by linarith
  then show ?thesis
    by cases (simp_all add: write_justified_char_def is_left_justified_def is_right_justified_def justify_def padding_emit
        emit_append emit_Cons)
qed

lemma process_conversion_emit:
  assumes "ps_len st < size_t_range" and "cs_prec spec < 2 ^ 31"
    and "conversion_text spec args = Inr (t, args')" and "length t < 2 ^ 31"
  shows "process_conversion spec args st = Inr (emit t st, args')"
proof -
  have j: "write_justified spec wr st = emit (justify spec u) st"
    if "\<And>st. ps_len st < size_t_range \<Longrightarrow> wr st = emit u st" "t = justify spec u" for wr u
    using write_justified_emit [OF that(1) assms(1)] justify_length [of u spec] assms(4) that(2) by simp
  have s: "write_justified spec (write_signed v spec) st = emit t st"
    if "get_signed_argument spec args = Inr (v, a)" "t = justify spec (signed_text v spec)" for v a
    using j [of "write_signed v spec", OF write_signed_emit that(2)] get_signed_range [OF that(1)] that(2) by simp
  have u: "write_justified spec (write_unsigned v spec) st = emit t st"
    if "get_unsigned_argument spec args = Inr (v, a)" "t = justify spec (unsigned_text v spec)" for v a
    using j [of "write_unsigned v spec", OF write_unsigned_emit that(2)] get_unsigned_range [OF that(1)] that(2) by simp
  have o: "write_justified spec (write_octal v spec) st = emit t st" if "t = justify spec (octal_text v spec)" for v
    using j [of "write_octal v spec", OF write_octal_emit that] that by simp
  have x: "write_justified spec (write_hexadecimal v spec) st = emit t st" if "t = justify spec (hexadecimal_text v spec)" for v
    using j [of "write_hexadecimal v spec", OF write_hexadecimal_emit that] that by simp
  have str: "write_justified spec (write_string w spec) st = emit t st" if "t = justify spec (string_text w spec)" for w
    using j [of "write_string w spec", OF write_string_emit [OF _ assms(2)] that] that by simp
  show ?thesis
    using assms(3) s u o x str char_justified [of spec _ st] write_one_char [of "CHR ''%''" st]
    by (auto simp: conversion_text_def process_conversion_def Let_def bind_ok_eq_Inr split: if_split_asm)
qed

end
