(* ===== verification/CmdlineProps.thy ===== *)
theory CmdlineProps
  imports Cmdline
begin

text \<open>
  Properties of the command line parser. All its clients see the same sequence of contexts; in each
  context the tokens lie before the position reached, and everything written for them fits in the
  characters read.
\<close>

section \<open>The contexts the parser goes through\<close>

function cmdline_contexts :: "cmdline \<Rightarrow> parse_context \<Rightarrow> parse_context list" where
  "cmdline_contexts s x =
     (let x' = mutate_context s x in x' # (if pc_done x' then [] else cmdline_contexts s x'))"
  by pat_completeness auto

termination
  by (relation "measure (\<lambda>(s, x). parse_measure x)") (simp_all add: mutate_context_measure mutate_context_not_done)

declare cmdline_contexts.simps [simp del]

lemma cmdline_loop_fold:
  "cmdline_loop f s x a = (fold f (cmdline_contexts s x) a, last (cmdline_contexts s x))"
proof (induction s x arbitrary: a rule: cmdline_contexts.induct)
  case (1 s x)
  then show ?case
    using cmdline_contexts.simps [of s "mutate_context s x"]
    by (simp add: cmdline_loop.simps [of f s x a] cmdline_contexts.simps [of s x] Let_def)
qed

section \<open>Invariant\<close>

text \<open>
  \<open>w\<close> characters have been written for what came before, and \<open>p\<close> is the position reached.
\<close>

definition option_ends :: "parse_context \<Rightarrow> nat \<Rightarrow> nat \<Rightarrow> bool" where
  "option_ends x w p \<longleftrightarrow> (\<exists>a. tok_start (pc_option x) = Some a \<and> w \<le> a \<and> a + tok_length (pc_option x) < p)"

definition option_open :: "parse_context \<Rightarrow> nat \<Rightarrow> nat \<Rightarrow> bool" where
  "option_open x w p \<longleftrightarrow> (\<exists>a. tok_start (pc_option x) = Some a \<and> w \<le> a \<and> a \<le> p)"

definition value_open :: "parse_context \<Rightarrow> nat \<Rightarrow> bool" where
  "value_open x p \<longleftrightarrow>
     (\<exists>a b. tok_start (pc_option x) = Some a \<and> tok_start (pc_value x) = Some b \<and> a + tok_length (pc_option x) < b \<and> b \<le> p)"

definition state_inv :: "nat \<Rightarrow> parse_context \<Rightarrow> bool" where
  "state_inv w x =
     (let p = pc_position x
      in w \<le> p \<and>
         (case pc_state x of
            PARSE_STATE_NAME \<Rightarrow> option_open x w p
          | PARSE_STATE_DASH1 \<Rightarrow> option_open x w p
          | PARSE_STATE_DASH2 \<Rightarrow> option_open x w p
          | PARSE_STATE_QUOTED_ARGUMENT \<Rightarrow> option_open x w p
          | PARSE_STATE_AFTER2DASH_ARGUMENT \<Rightarrow> option_open x w p
          | PARSE_STATE_AFTER2DASH_EQUAL \<Rightarrow> option_open x w p
          | PARSE_STATE_AFTER2DASH_VALUE \<Rightarrow> option_open x w p
          | PARSE_STATE_AFTER2DASH_QUOTED_VALUE \<Rightarrow> option_open x w p
          | PARSE_STATE_AFTER2DASH_VALUE_END_QUOTE \<Rightarrow> option_open x w p
          | PARSE_STATE_AFTER2DASH_QUOTED_ARGUMENT \<Rightarrow> option_open x w p
          | PARSE_STATE_EQUAL \<Rightarrow> option_ends x w p
          | PARSE_STATE_VALUE_START_QUOTE \<Rightarrow> option_ends x w p
          | PARSE_STATE_VALUE \<Rightarrow> option_ends x w p \<and> value_open x p
          | PARSE_STATE_QUOTED_VALUE \<Rightarrow> option_ends x w p \<and> value_open x p
          | _ \<Rightarrow> True))"

text \<open>What has been found, when something has.\<close>

definition found_ok :: "nat \<Rightarrow> parse_context \<Rightarrow> bool" where
  "found_ok w x \<longleftrightarrow>
     (pc_has_argument x \<longrightarrow>
       (\<exists>a. tok_start (pc_option x) = Some a \<and> w \<le> a \<and> a + tok_length (pc_option x) < pc_position x)) \<and>
     (pc_has_option x \<longrightarrow>
       (\<exists>a b. tok_start (pc_option x) = Some a \<and> tok_start (pc_value x) = Some b \<and> w \<le> a \<and>
         a + tok_length (pc_option x) < b \<and> b + tok_length (pc_value x) < pc_position x)) \<and>
     \<not> (pc_has_argument x \<and> pc_has_option x) \<and> (pc_has_action x \<longleftrightarrow> pc_has_argument x \<or> pc_has_option x)"

text \<open>The characters written for a context.\<close>

definition weight :: "parse_context \<Rightarrow> nat" where
  "weight x = (if pc_has_argument x then tok_length (pc_option x) + 1
     else if pc_has_option x then tok_length (pc_option x) + tok_length (pc_value x) + 2 else 0)"

lemmas parse_defs = to_state_def start_option_def start_value_def end_option_def end_value_def has_argument_def
  has_option_def add_error_def end_token_def

definition quiet :: "parse_context \<Rightarrow> bool" where
  "quiet x \<longleftrightarrow> \<not> pc_has_argument x \<and> \<not> pc_has_option x \<and> \<not> pc_has_action x"

definition step_ok :: "nat \<Rightarrow> parse_context \<Rightarrow> bool" where
  "step_ok w y \<longleftrightarrow> found_ok w y \<and> w + weight y \<le> pc_position y \<and> (pc_done y \<or> state_inv (w + weight y) y)"

lemma parse_char_inv:
  assumes "state_inv w x" and "quiet x" and "pc_state x = st"
  shows "step_ok w ((parse_char st c x)\<lparr>pc_position := pc_position x + 1\<rparr>)"
proof -
  note defs = step_ok_def state_inv_def quiet_def found_ok_def weight_def parse_defs option_open_def option_ends_def
    value_open_def Let_def
  show ?thesis
    using assms by (cases st; clarsimp simp: defs; (linarith | auto)?)
qed

text \<open>No character before the position reached is the end of the string.\<close>

definition read_ok :: "cmdline \<Rightarrow> parse_context \<Rightarrow> bool" where
  "read_ok s x \<longleftrightarrow> (\<forall>i. i + 1 < pc_position x \<longrightarrow> s i \<noteq> CHR 0x00) \<and>
     (pc_done x \<or> (\<forall>i < pc_position x. s i \<noteq> CHR 0x00)) \<and> pc_position x \<le> CMDLINE_MAX_PARSE_LENGTH"

definition context_ok :: "cmdline \<Rightarrow> nat \<Rightarrow> parse_context \<Rightarrow> bool" where
  "context_ok s w x \<longleftrightarrow> step_ok w x \<and> read_ok s x"

lemma state_inv_update [simp]:
  "state_inv w (x\<lparr>pc_errors := e\<rparr>) = state_inv w x" "state_inv w (x\<lparr>pc_has_action := b\<rparr>) = state_inv w x"
  "state_inv w (x\<lparr>pc_has_argument := b\<rparr>) = state_inv w x" "state_inv w (x\<lparr>pc_has_option := b\<rparr>) = state_inv w x"
  "state_inv w (x\<lparr>pc_done := b\<rparr>) = state_inv w x"
  by (cases "pc_state x"; simp add: state_inv_def option_open_def option_ends_def value_open_def)+

lemma found_ok_done [simp]: "found_ok w (x\<lparr>pc_done := b\<rparr>) = found_ok w x"
  by (simp add: found_ok_def)

lemma weight_done [simp]: "weight (x\<lparr>pc_done := b\<rparr>) = weight x"
  by (simp add: weight_def)

lemma step_ok_done: "step_ok w x \<Longrightarrow> step_ok w (x\<lparr>pc_done := True\<rparr>)"
  by (simp add: step_ok_def)

lemma done_position: "x\<lparr>pc_done := b, pc_position := p\<rparr> = x\<lparr>pc_position := p, pc_done := b\<rparr>" for x :: parse_context
  by (cases x) simp

lemma step_ok_quiet: "state_inv w x \<Longrightarrow> quiet x \<Longrightarrow> step_ok w x"
  by (simp add: step_ok_def found_ok_def weight_def quiet_def state_inv_def Let_def)

lemma parse_step_char:
  assumes "state_inv w x" and "quiet x"
  shows "step_ok w ((if b then (parse_char (pc_state x) c x)\<lparr>pc_done := True\<rparr> else parse_char (pc_state x) c x)
    \<lparr>pc_position := pc_position x + 1\<rparr>)"
  using parse_char_inv [OF assms refl, of c] step_ok_done [OF parse_char_inv [OF assms refl, of c]]
  by (simp add: done_position)

lemma parse_step_ok:
  assumes "state_inv w x" and "quiet x"
  shows "step_ok w (parse_step s x)"
proof -
  define y where "y = (if pc_position x \<ge> CMDLINE_MAX_VALID_LENGTH then add_error CMDLINE_ERROR_TOO_LONG x else x)"
  have y: "state_inv w y" "quiet y" "pc_position y = pc_position x"
    using assms by (simp_all add: y_def add_error_def quiet_def)
  have "step_ok w (y\<lparr>pc_done := True\<rparr>)"
    using y by (intro step_ok_done step_ok_quiet)
  then show ?thesis
    using parse_step_char [OF y(1,2), of "s (pc_position x) = CHR 0x00" "s (pc_position x)"] y(3)
    by (auto simp: parse_step_def Let_def y_def [symmetric])
qed

lemma parse_step_position:
  "pc_position (parse_step s x) = (if pc_position x \<ge> CMDLINE_MAX_PARSE_LENGTH then pc_position x else pc_position x + 1)"
  by (simp add: parse_step_def Let_def add_error_def)

lemma parse_step_done:
  assumes "\<not> pc_done (parse_step s x)"
  shows "s (pc_position x) \<noteq> CHR 0x00" and "pc_position x < CMDLINE_MAX_PARSE_LENGTH"
  using assms by (auto simp: parse_step_def Let_def add_error_def split: if_splits)

lemma parse_step_read:
  assumes "read_ok s x" and "\<not> pc_done x"
  shows "read_ok s (parse_step s x)"
proof -
  have before: "\<forall>i < pc_position x. s i \<noteq> CHR 0x00" and limit: "pc_position x \<le> CMDLINE_MAX_PARSE_LENGTH"
    using assms by (simp_all add: read_ok_def)
  have "pc_done (parse_step s x) \<or> s (pc_position x) \<noteq> CHR 0x00"
    using parse_step_done(1) by blast
  then have "pc_done (parse_step s x) \<or> (\<forall>i < pc_position (parse_step s x). s i \<noteq> CHR 0x00)"
    using before by (auto simp: parse_step_position less_Suc_eq)
  then show ?thesis
    using before limit by (auto simp: read_ok_def parse_step_position)
qed

lemma context_ok_quiet:
  assumes "context_ok s w x" and "\<not> pc_has_action x" and "\<not> pc_done x"
  shows "state_inv w x" and "quiet x"
  using assms by (auto simp: context_ok_def step_ok_def found_ok_def quiet_def weight_def)

lemma parse_loop_ok: "context_ok s w x \<Longrightarrow> context_ok s w (parse_loop s x)"
proof (induction s x rule: parse_loop.induct)
  case (1 s x)
  show ?case
  proof (cases "pc_has_action x \<or> pc_done x")
    case True
    then show ?thesis
      using "1.prems" by (simp add: parse_loop.simps [of s x])
  next
    case False
    then have "context_ok s w (parse_step s x)"
      using context_ok_quiet [OF "1.prems"] parse_step_ok parse_step_read "1.prems" by (auto simp: context_ok_def)
    then show ?thesis
      using "1.IH" False by (simp add: parse_loop.simps [of s x])
  qed
qed

lemma mutate_context_ok:
  assumes "context_ok s w x" and "\<not> pc_done x"
  shows "context_ok s (w + weight x) (mutate_context s x)"
proof -
  have "state_inv (w + weight x) x"
    using assms by (simp add: context_ok_def step_ok_def)
  then have "context_ok s (w + weight x) (x\<lparr>pc_has_action := False, pc_has_argument := False, pc_has_option := False\<rparr>)"
    using assms step_ok_quiet by (simp add: context_ok_def quiet_def read_ok_def)
  then show ?thesis
    unfolding mutate_context_def by (rule parse_loop_ok)
qed

lemma cmdline_contexts_ok:
  assumes "context_ok s w x" and "\<not> pc_done x"
  shows "(\<forall>y \<in> set (cmdline_contexts s x). \<exists>v. context_ok s v y) \<and>
    context_ok s (w + weight x + sum_list (map weight (butlast (cmdline_contexts s x)))) (last (cmdline_contexts s x))"
  using assms
proof (induction s x arbitrary: w rule: cmdline_contexts.induct)
  case (1 s x)
  let ?y = "mutate_context s x"
  have y: "context_ok s (w + weight x) ?y"
    using mutate_context_ok "1.prems" by simp
  show ?case
  proof (cases "pc_done ?y")
    case True
    then show ?thesis
      using y by (auto simp: cmdline_contexts.simps [of s x] Let_def)
  next
    case False
    then show ?thesis
      using "1.IH" [OF refl False y] y cmdline_contexts.simps [of s "mutate_context s x"]
      by (auto simp: cmdline_contexts.simps [of s x] Let_def add.assoc)
  qed
qed

lemma initialize_context_ok: "context_ok s 0 (initialize_context e)"
  by (simp add: context_ok_def step_ok_def found_ok_def weight_def state_inv_def read_ok_def initialize_context_def)

section \<open>What is written\<close>

lemma fold_append_if: "fold (\<lambda>x buf. if P x then buf @ f x else buf) xs a = a @ concat (map f (filter P xs))"
  by (induction xs arbitrary: a) auto

lemma fold_count_if: "fold (\<lambda>x n. if P x then n + 1 else n) xs a = a + length (filter P xs)" for a :: nat
  by (induction xs arbitrary: a) auto

definition contexts :: "cmdline \<Rightarrow> parse_context list" where
  "contexts s = cmdline_contexts s (initialize_context {})"

definition argument_text :: "cmdline \<Rightarrow> parse_context \<Rightarrow> string" where
  "argument_text s x = token_string s (pc_option x) @ [CHR 0x00]"

definition environ_text :: "cmdline \<Rightarrow> parse_context \<Rightarrow> string" where
  "environ_text s x = token_string s (pc_option x) @ [CHR ''=''] @ token_string s (pc_value x) @ [CHR 0x00]"

definition in_environ :: "cmdline \<Rightarrow> parse_context \<Rightarrow> bool" where
  "in_environ s x \<longleftrightarrow> pc_has_option x \<and> filter_userspace_environ s (pc_option x)"

lemma write_arguments_concat:
  "cmdline_write_arguments s = concat (map (argument_text s) (filter pc_has_argument (contexts s)))"
  by (simp add: cmdline_write_arguments_def cmdline_loop_fold fold_append_if contexts_def argument_text_def [abs_def])

lemma write_environ_concat:
  "cmdline_write_environ s = concat (map (environ_text s) (filter (in_environ s) (contexts s)))"
  by (simp add: cmdline_write_environ_def cmdline_loop_fold fold_append_if [where P = "in_environ s", unfolded in_environ_def]
      contexts_def environ_text_def [abs_def] in_environ_def [abs_def])

lemma count_arguments_length: "cmdline_count_arguments s = length (filter pc_has_argument (contexts s))"
  unfolding cmdline_count_arguments_def cmdline_loop_fold fst_conv fold_count_if contexts_def by simp

lemma count_environ_length: "cmdline_count_environ s = length (filter (in_environ s) (contexts s))"
  unfolding cmdline_count_environ_def cmdline_loop_fold fst_conv in_environ_def [symmetric] fold_count_if contexts_def
  by simp

lemma contexts_ok:
  assumes "y \<in> set (contexts s)"
  shows "\<exists>v. context_ok s v y"
proof -
  have "\<not> pc_done (initialize_context {})"
    by (simp add: initialize_context_def)
  then show ?thesis
    using assms cmdline_contexts_ok [OF initialize_context_ok, of "{}" s] by (simp add: contexts_def)
qed

lemma cmdline_contexts_not_Nil [simp]: "cmdline_contexts s x \<noteq> []"
  by (simp add: cmdline_contexts.simps [of s x] Let_def)

lemma contexts_weight:
  "\<exists>x \<in> set (contexts s). sum_list (map weight (contexts s)) \<le> pc_position x"
proof -
  let ?l = "contexts s"
  have not_Nil: "?l \<noteq> []"
    by (simp add: contexts_def)
  have "context_ok s (sum_list (map weight (butlast ?l))) (last ?l)"
    using cmdline_contexts_ok [OF initialize_context_ok, of "{}" s]
    by (simp add: contexts_def initialize_context_def weight_def)
  then have "sum_list (map weight (butlast ?l)) + weight (last ?l) \<le> pc_position (last ?l)"
    by (simp add: context_ok_def step_ok_def)
  moreover have "sum_list (map weight ?l) = sum_list (map weight (butlast ?l)) + weight (last ?l)"
    using arg_cong [OF append_butlast_last_id [OF not_Nil], of "\<lambda>l. sum_list (map weight l)"] by simp
  ultimately have "sum_list (map weight ?l) \<le> pc_position (last ?l)"
    by simp
  then show ?thesis
    using last_in_set [OF not_Nil] by blast
qed

lemma context_position:
  assumes "context_ok s v x"
  shows "pc_position x \<le> CMDLINE_MAX_PARSE_LENGTH" and "s n = CHR 0x00 \<Longrightarrow> pc_position x \<le> n + 1"
  using assms by (auto simp: context_ok_def read_ok_def not_less)

lemma token_string_length [simp]: "length (token_string s t) = tok_length t"
  by (simp add: token_string_def)

lemma written_weight:
  assumes "\<forall>x \<in> set xs. \<not> (pc_has_argument x \<and> pc_has_option x)"
  shows "length (concat (map (argument_text s) (filter pc_has_argument xs))) +
    length (concat (map (environ_text s) (filter (in_environ s) xs))) \<le> sum_list (map weight xs)"
  using assms by (induction xs) (auto simp: argument_text_def environ_text_def weight_def in_environ_def)

lemma token_before_end:
  assumes "context_ok s v x" and "tok_start t = Some a" and "a + tok_length t < pc_position x"
  shows "CHR 0x00 \<notin> set (token_string s t)"
proof -
  have "s (a + i) \<noteq> CHR 0x00" if "i < tok_length t" for i
    using assms that by (simp add: context_ok_def read_ok_def)
  then have "\<forall>c \<in> set (token_string s t). c \<noteq> CHR 0x00"
    using assms(2) by (simp add: token_string_def token_char_def)
  then show ?thesis
    by blast
qed

lemma option_token:
  assumes "context_ok s v x" and "pc_has_argument x \<or> pc_has_option x"
  shows "\<exists>a. tok_start (pc_option x) = Some a \<and> a + tok_length (pc_option x) < pc_position x"
  using assms by (fastforce simp: context_ok_def step_ok_def found_ok_def)

lemma value_token:
  assumes "context_ok s v x" and "pc_has_option x"
  shows "\<exists>a. tok_start (pc_value x) = Some a \<and> a + tok_length (pc_value x) < pc_position x"
  using assms by (fastforce simp: context_ok_def step_ok_def found_ok_def)

lemma option_no_end:
  assumes "x \<in> set (contexts s)" and "pc_has_argument x \<or> pc_has_option x"
  shows "CHR 0x00 \<notin> set (token_string s (pc_option x))"
proof -
  obtain v where x: "context_ok s v x"
    using contexts_ok [OF assms(1)] by blast
  show ?thesis
    using token_before_end [OF x] option_token [OF x assms(2)] by blast
qed

lemma value_no_end:
  assumes "x \<in> set (contexts s)" and "pc_has_option x"
  shows "CHR 0x00 \<notin> set (token_string s (pc_value x))"
proof -
  obtain v where x: "context_ok s v x"
    using contexts_ok [OF assms(1)] by blast
  show ?thesis
    using token_before_end [OF x] value_token [OF x assms(2)] by blast
qed

lemma count_concat_ends:
  assumes "\<forall>x \<in> set xs. count_list (f x) c = 1"
  shows "count_list (concat (map f xs)) c = length xs"
  using assms by (induction xs) auto

lemma count_argument_ends: "count_list (cmdline_write_arguments s) (CHR 0x00) = cmdline_count_arguments s"
  unfolding write_arguments_concat count_arguments_length
  by (rule count_concat_ends) (auto simp: argument_text_def count_notin option_no_end)

lemma count_environ_ends: "count_list (cmdline_write_environ s) (CHR 0x00) = cmdline_count_environ s"
  unfolding write_environ_concat count_environ_length
  by (rule count_concat_ends) (auto simp: environ_text_def in_environ_def count_notin option_no_end value_no_end)

lemma contexts_exclusive: "\<forall>x \<in> set (contexts s). \<not> (pc_has_argument x \<and> pc_has_option x)"
proof
  fix x
  assume "x \<in> set (contexts s)"
  then show "\<not> (pc_has_argument x \<and> pc_has_option x)"
    using contexts_ok [of x s] by (auto simp: context_ok_def step_ok_def found_ok_def)
qed

lemma written_position:
  "\<exists>x \<in> set (contexts s). length (cmdline_write_arguments s) + length (cmdline_write_environ s) \<le> pc_position x"
proof -
  obtain x where x: "x \<in> set (contexts s)" "sum_list (map weight (contexts s)) \<le> pc_position x"
    using contexts_weight by blast
  have "length (cmdline_write_arguments s) + length (cmdline_write_environ s) \<le> pc_position x"
    using le_trans [OF written_weight [OF contexts_exclusive, of s s] x(2)]
    unfolding write_arguments_concat [symmetric] write_environ_concat [symmetric] .
  then show ?thesis
    using x(1) by blast
qed

lemma written_length:
  "length (cmdline_write_arguments s) + length (cmdline_write_environ s) \<le> CMDLINE_MAX_PARSE_LENGTH"
proof -
  obtain x where x: "x \<in> set (contexts s)"
      "length (cmdline_write_arguments s) + length (cmdline_write_environ s) \<le> pc_position x"
    using written_position by blast
  obtain v where "context_ok s v x"
    using contexts_ok [OF x(1)] by blast
  then have "pc_position x \<le> CMDLINE_MAX_PARSE_LENGTH"
    by (rule context_position)
  then show ?thesis
    using x(2) by simp
qed

lemma written_length_string:
  assumes "s n = CHR 0x00"
  shows "length (cmdline_write_arguments s) + length (cmdline_write_environ s) \<le> n + 1"
proof -
  obtain x where x: "x \<in> set (contexts s)"
      "length (cmdline_write_arguments s) + length (cmdline_write_environ s) \<le> pc_position x"
    using written_position by blast
  obtain v where "context_ok s v x"
    using contexts_ok [OF x(1)] by blast
  then have "pc_position x \<le> n + 1"
    using assms by (rule context_position)
  then show ?thesis
    using x(2) by simp
qed

end
