(* ===== verification/CmdlineItems.thy ===== *)
theory CmdlineItems
  imports CmdlineProps
begin

text \<open>
  The parser against a reference: the text of a list of arguments and name-value pairs, some of them
  in quotes, is split back into that list.
\<close>

section \<open>Items of a command line\<close>

datatype item =
    Argument string
  | QuotedArgument string
  | Setting string string
  | QuotedSetting string string

definition plain_name :: "string \<Rightarrow> bool" where
  "plain_name w \<longleftrightarrow> w \<noteq> [] \<and> hd w \<noteq> CHR 0x22 \<and> hd w \<noteq> CHR ''-'' \<and> list_all (\<lambda>c. \<not> is_separator c \<and> c \<noteq> CHR ''='') w"

definition plain_value :: "string \<Rightarrow> bool" where
  "plain_value w \<longleftrightarrow> (w = [] \<or> hd w \<noteq> CHR 0x22) \<and> list_all (\<lambda>c. \<not> is_separator c) w"

definition quotable :: "string \<Rightarrow> bool" where
  "quotable w \<longleftrightarrow> list_all (\<lambda>c. c \<noteq> CHR 0x22 \<and> c \<noteq> CHR 0x00) w"

fun item_ok :: "item \<Rightarrow> bool" where
  "item_ok (Argument w) = plain_name w"
| "item_ok (QuotedArgument w) = quotable w"
| "item_ok (Setting n v) = (plain_name n \<and> plain_value v)"
| "item_ok (QuotedSetting n v) = (plain_name n \<and> quotable v)"

fun item_text :: "item \<Rightarrow> string" where
  "item_text (Argument w) = w"
| "item_text (QuotedArgument w) = CHR 0x22 # w @ [CHR 0x22]"
| "item_text (Setting n v) = n @ CHR ''='' # v"
| "item_text (QuotedSetting n v) = n @ CHR ''='' # CHR 0x22 # v @ [CHR 0x22]"

fun item_quoted :: "item \<Rightarrow> bool" where
  "item_quoted (Argument w) = False"
| "item_quoted (QuotedArgument w) = True"
| "item_quoted (Setting n v) = False"
| "item_quoted (QuotedSetting n v) = True"

text \<open>What an item stands for: an argument or a name-value pair.\<close>

fun item_meaning :: "item \<Rightarrow> string + string \<times> string" where
  "item_meaning (Argument w) = Inl w"
| "item_meaning (QuotedArgument w) = Inl w"
| "item_meaning (Setting n v) = Inr (n, v)"
| "item_meaning (QuotedSetting n v) = Inr (n, v)"

fun line_text :: "item list \<Rightarrow> string" where
  "line_text [] = [CHR 0x00]"
| "line_text [i] = item_text i @ [CHR 0x00]"
| "line_text (i # j # is) = item_text i @ CHR '' '' # line_text (j # is)"

section \<open>Reading characters\<close>

primrec reads :: "cmdline \<Rightarrow> nat \<Rightarrow> string \<Rightarrow> bool" where
  "reads s p [] = True"
| "reads s p (c # cs) = (s p = c \<and> reads s (Suc p) cs)"

lemma reads_append [simp]: "reads s p (xs @ ys) = (reads s p xs \<and> reads s (p + length xs) ys)"
  by (induction xs arbitrary: p) auto

lemma reads_nth: "reads s p w \<Longrightarrow> i < length w \<Longrightarrow> s (p + i) = w ! i"
proof (induction w arbitrary: p i)
  case (Cons c w)
  then show ?case
    using Cons.IH [of "Suc p" "i - 1"] by (cases i) simp_all
qed simp

lemma reads_token:
  assumes "reads s p w" and "tok_start t = Some p" and "tok_length t = length w"
  shows "token_string s t = w"
  using assms by (intro nth_equalityI) (simp_all add: token_string_def token_char_def reads_nth)

definition active :: "parse_context \<Rightarrow> bool" where
  "active x \<longleftrightarrow> \<not> pc_has_action x \<and> \<not> pc_done x"

definition after_char :: "char \<Rightarrow> parse_context \<Rightarrow> parse_context" where
  "after_char c y = (if c = CHR 0x00 then y\<lparr>pc_done := True\<rparr> else y)\<lparr>pc_position := pc_position y + 1\<rparr>"

lemma parse_loop_step:
  assumes "active x" and "pc_position x < CMDLINE_MAX_VALID_LENGTH" and "s (pc_position x) = c"
  shows "parse_loop s x = parse_loop s (after_char c (parse_char (pc_state x) c x))"
  using assms
  by (simp add: parse_loop.simps [of s x] active_def parse_step_def Let_def CMDLINE_MAX_VALID_LENGTH_def
      CMDLINE_MAX_PARSE_LENGTH_def after_char_def)

lemma parse_loop_stop: "\<not> active x \<Longrightarrow> parse_loop s x = x"
  by (simp add: parse_loop.simps [of s x] active_def)

text \<open>Characters that leave the parser in the state it is in.\<close>

lemma parse_loop_scan:
  assumes "active x" and "reads s (pc_position x) w" and "pc_position x + length w \<le> CMDLINE_MAX_VALID_LENGTH"
    and "\<forall>c \<in> set w. c \<noteq> CHR 0x00 \<and> (\<forall>y. parse_char (pc_state x) c y = y)"
  shows "parse_loop s x = parse_loop s (x\<lparr>pc_position := pc_position x + length w\<rparr>)"
  using assms
proof (induction w arbitrary: x)
  case Nil
  then show ?case
    by simp
next
  case (Cons c w)
  let ?x = "x\<lparr>pc_position := Suc (pc_position x)\<rparr>"
  have "parse_loop s x = parse_loop s (after_char c (parse_char (pc_state x) c x))"
    using Cons.prems by (intro parse_loop_step) simp_all
  also have "after_char c (parse_char (pc_state x) c x) = ?x"
    using Cons.prems by (simp add: after_char_def)
  also have "parse_loop s ?x = parse_loop s (?x\<lparr>pc_position := pc_position ?x + length w\<rparr>)"
    using Cons.prems by (intro Cons.IH) (simp_all add: active_def)
  finally show ?case
    by simp
qed

section \<open>Names and values\<close>

definition with_option :: "nat \<Rightarrow> nat \<Rightarrow> parse_context \<Rightarrow> parse_context" where
  "with_option a l x = x\<lparr>pc_option := (pc_option x)\<lparr>tok_start := Some a, tok_length := l\<rparr>\<rparr>"

lemma parse_name:
  assumes "active x" and "pc_state x = PARSE_STATE_START" and "plain_name w" and "reads s (pc_position x) w"
    and "pc_position x + length w \<le> CMDLINE_MAX_VALID_LENGTH"
  shows "parse_loop s x = parse_loop s ((start_option x)\<lparr>pc_state := PARSE_STATE_NAME, pc_position := pc_position x + length w\<rparr>)"
proof -
  obtain c cs where w: "w = c # cs" "c \<noteq> CHR 0x22" "c \<noteq> CHR ''-''" "\<not> is_separator c"
      "\<forall>d \<in> set cs. \<not> is_separator d \<and> d \<noteq> CHR ''=''"
    using assms(3) by (cases w) (auto simp: plain_name_def list_all_iff)
  let ?y = "(start_option x)\<lparr>pc_state := PARSE_STATE_NAME, pc_position := pc_position x + 1\<rparr>"
  have "parse_loop s x = parse_loop s (after_char c (parse_char (pc_state x) c x))"
    using assms w by (intro parse_loop_step) simp_all
  also have "after_char c (parse_char (pc_state x) c x) = ?y"
    using assms(2) w by (simp add: after_char_def to_state_def start_option_def is_separator_def)
  also have "parse_loop s ?y = parse_loop s (?y\<lparr>pc_position := pc_position ?y + length cs\<rparr>)"
    using assms w by (intro parse_loop_scan) (auto simp: active_def start_option_def is_separator_def)
  finally show ?thesis
    using w(1) by simp
qed

lemma parse_argument:
  assumes "active x" and "pc_state x = PARSE_STATE_START" and "plain_name w" and "reads s (pc_position x) (w @ [c])"
    and "is_separator c" and "pc_position x + length w < CMDLINE_MAX_VALID_LENGTH"
  shows "parse_loop s x = (with_option (pc_position x) (length w) x)\<lparr>pc_state := PARSE_STATE_START,
    pc_position := pc_position x + length w + 1, pc_has_argument := True, pc_has_action := True,
    pc_done := (c = CHR 0x00)\<rparr>"
proof -
  let ?y = "(start_option x)\<lparr>pc_state := PARSE_STATE_NAME, pc_position := pc_position x + length w\<rparr>"
  have "parse_loop s x = parse_loop s ?y"
    using assms by (intro parse_name) simp_all
  also have "\<dots> = parse_loop s (after_char c (parse_char (pc_state ?y) c ?y))"
    using assms by (intro parse_loop_step) (simp_all add: active_def start_option_def)
  also have "\<dots> = after_char c (parse_char (pc_state ?y) c ?y)"
    using assms(5) by (intro parse_loop_stop) (auto simp: active_def after_char_def parse_defs is_separator_def)
  finally show ?thesis
    using assms(1,5) by (auto simp: after_char_def parse_defs is_separator_def with_option_def active_def)
qed

text \<open>One step, when the context before it is known.\<close>

lemma parse_loop_step_to:
  assumes "parse_loop s x = parse_loop s y" and "active y" and "pc_position y < CMDLINE_MAX_VALID_LENGTH"
    and "s (pc_position y) = c" and "after_char c (parse_char (pc_state y) c y) = z"
  shows "parse_loop s x = parse_loop s z"
  using assms parse_loop_step [of y s c] by simp

lemma parse_loop_scan_to:
  assumes "parse_loop s x = parse_loop s y" and "active y" and "reads s (pc_position y) w"
    and "pc_position y + length w \<le> CMDLINE_MAX_VALID_LENGTH"
    and "\<forall>c \<in> set w. c \<noteq> CHR 0x00 \<and> (\<forall>y'. parse_char (pc_state y) c y' = y')"
    and "y\<lparr>pc_position := pc_position y + length w\<rparr> = z"
  shows "parse_loop s x = parse_loop s z"
  using assms parse_loop_scan [of y s w] by simp

lemma parse_quoted_argument:
  assumes "active x" and "pc_state x = PARSE_STATE_START" and "quotable w"
    and "reads s (pc_position x) (CHR 0x22 # w @ [CHR 0x22])"
    and "pc_position x + length w + 1 < CMDLINE_MAX_VALID_LENGTH"
  shows "parse_loop s x = (with_option (pc_position x + 1) (length w) x)\<lparr>pc_state := PARSE_STATE_END_QUOTE,
    pc_position := pc_position x + length w + 2, pc_has_argument := True, pc_has_action := True\<rparr>"
proof -
  let ?y = "x\<lparr>pc_state := PARSE_STATE_ARGUMENT_START_QUOTE, pc_position := pc_position x + 1\<rparr>"
  have y: "parse_loop s x = parse_loop s ?y"
    using assms by (intro parse_loop_step_to [OF refl, of x s "CHR 0x22"]) (simp_all add: after_char_def to_state_def)
  let ?z = "(with_option (pc_position x + 1) (length w) x)\<lparr>pc_state := PARSE_STATE_END_QUOTE,
    pc_position := pc_position x + length w + 2, pc_has_argument := True, pc_has_action := True\<rparr>"
  have "parse_loop s x = parse_loop s ?z"
  proof (cases w)
    case Nil
    show ?thesis
      using assms Nil by (intro parse_loop_step_to [OF y, of "CHR 0x22"])
        (simp_all add: active_def after_char_def parse_defs with_option_def)
  next
    case (Cons c cs)
    then have c: "c \<noteq> CHR 0x22" "c \<noteq> CHR 0x00" "\<forall>d \<in> set cs. d \<noteq> CHR 0x22 \<and> d \<noteq> CHR 0x00"
      using assms(3) by (auto simp: quotable_def list_all_iff)
    let ?u = "(start_option ?y)\<lparr>pc_state := PARSE_STATE_QUOTED_ARGUMENT, pc_position := pc_position x + 2\<rparr>"
    have u: "parse_loop s x = parse_loop s ?u"
      using assms c Cons by (intro parse_loop_step_to [OF y, of c]) (simp_all add: active_def after_char_def parse_defs)
    let ?v = "?u\<lparr>pc_position := pc_position x + length w + 1\<rparr>"
    have v: "parse_loop s x = parse_loop s ?v"
      using assms c Cons by (intro parse_loop_scan_to [OF u, of cs]) (simp_all add: active_def parse_defs)
    show ?thesis
      using assms Cons by (intro parse_loop_step_to [OF v, of "CHR 0x22"])
        (simp_all add: active_def after_char_def parse_defs with_option_def)
  qed
  then show ?thesis
    by (simp add: parse_loop_stop active_def)
qed

definition with_value :: "nat \<Rightarrow> nat \<Rightarrow> parse_context \<Rightarrow> parse_context" where
  "with_value a l x = x\<lparr>pc_value := (pc_value x)\<lparr>tok_start := Some a, tok_length := l\<rparr>\<rparr>"

text \<open>A name and the equal sign after it.\<close>

lemma parse_equal:
  assumes "active x" and "pc_state x = PARSE_STATE_START" and "plain_name w"
    and "reads s (pc_position x) (w @ [CHR ''=''])" and "pc_position x + length w < CMDLINE_MAX_VALID_LENGTH"
  shows "parse_loop s x = parse_loop s ((with_option (pc_position x) (length w) x)
    \<lparr>pc_state := PARSE_STATE_EQUAL, pc_position := pc_position x + length w + 1\<rparr>)"
proof -
  have y: "parse_loop s x = parse_loop s ((start_option x)\<lparr>pc_state := PARSE_STATE_NAME, pc_position := pc_position x + length w\<rparr>)"
    using assms by (intro parse_name) simp_all
  show ?thesis
    using assms by (intro parse_loop_step_to [OF y, of "CHR ''=''"])
      (simp_all add: active_def after_char_def parse_defs with_option_def)
qed

lemma parse_value:
  assumes "active x" and "pc_state x = PARSE_STATE_EQUAL" and "plain_value w" and "reads s (pc_position x) (w @ [c])"
    and "is_separator c" and "pc_position x + length w < CMDLINE_MAX_VALID_LENGTH"
  shows "parse_loop s x = (with_value (pc_position x) (length w) x)\<lparr>pc_state := PARSE_STATE_START,
    pc_position := pc_position x + length w + 1, pc_has_option := True, pc_has_action := True, pc_done := (c = CHR 0x00)\<rparr>"
proof -
  let ?z = "(with_value (pc_position x) (length w) x)\<lparr>pc_state := PARSE_STATE_START,
    pc_position := pc_position x + length w + 1, pc_has_option := True, pc_has_action := True, pc_done := (c = CHR 0x00)\<rparr>"
  have "parse_loop s x = parse_loop s ?z"
  proof (cases w)
    case Nil
    show ?thesis
      using assms Nil by (intro parse_loop_step_to [OF refl, of x s c])
        (simp_all add: active_def after_char_def parse_defs with_value_def)
  next
    case (Cons d ds)
    then have d: "d \<noteq> CHR 0x22" "\<not> is_separator d" "\<forall>e \<in> set ds. \<not> is_separator e"
      using assms(3) by (auto simp: plain_value_def list_all_iff)
    let ?u = "(start_value x)\<lparr>pc_state := PARSE_STATE_VALUE, pc_position := pc_position x + 1\<rparr>"
    have u: "parse_loop s x = parse_loop s ?u"
      using assms d Cons by (intro parse_loop_step_to [OF refl, of x s d])
        (auto simp: active_def after_char_def parse_defs is_separator_def)
    let ?v = "?u\<lparr>pc_position := pc_position x + length w\<rparr>"
    have v: "parse_loop s x = parse_loop s ?v"
      using assms d Cons by (intro parse_loop_scan_to [OF u, of ds]) (auto simp: active_def parse_defs is_separator_def)
    show ?thesis
      using assms Cons by (intro parse_loop_step_to [OF v, of c])
        (simp_all add: active_def after_char_def parse_defs with_value_def)
  qed
  then show ?thesis
    by (simp add: parse_loop_stop active_def)
qed

lemma parse_quoted_value:
  assumes "active x" and "pc_state x = PARSE_STATE_EQUAL" and "quotable w"
    and "reads s (pc_position x) (CHR 0x22 # w @ [CHR 0x22])"
    and "pc_position x + length w + 1 < CMDLINE_MAX_VALID_LENGTH"
  shows "parse_loop s x = (with_value (pc_position x + 1) (length w) x)\<lparr>pc_state := PARSE_STATE_END_QUOTE,
    pc_position := pc_position x + length w + 2, pc_has_option := True, pc_has_action := True\<rparr>"
proof -
  let ?y = "x\<lparr>pc_state := PARSE_STATE_VALUE_START_QUOTE, pc_position := pc_position x + 1\<rparr>"
  have y: "parse_loop s x = parse_loop s ?y"
    using assms by (intro parse_loop_step_to [OF refl, of x s "CHR 0x22"])
      (simp_all add: after_char_def to_state_def is_separator_def)
  let ?z = "(with_value (pc_position x + 1) (length w) x)\<lparr>pc_state := PARSE_STATE_END_QUOTE,
    pc_position := pc_position x + length w + 2, pc_has_option := True, pc_has_action := True\<rparr>"
  have "parse_loop s x = parse_loop s ?z"
  proof (cases w)
    case Nil
    show ?thesis
      using assms Nil by (intro parse_loop_step_to [OF y, of "CHR 0x22"])
        (simp_all add: active_def after_char_def parse_defs with_value_def)
  next
    case (Cons c cs)
    then have c: "c \<noteq> CHR 0x22" "c \<noteq> CHR 0x00" "\<forall>d \<in> set cs. d \<noteq> CHR 0x22 \<and> d \<noteq> CHR 0x00"
      using assms(3) by (auto simp: quotable_def list_all_iff)
    let ?u = "(start_value ?y)\<lparr>pc_state := PARSE_STATE_QUOTED_VALUE, pc_position := pc_position x + 2\<rparr>"
    have u: "parse_loop s x = parse_loop s ?u"
      using assms c Cons by (intro parse_loop_step_to [OF y, of c]) (simp_all add: active_def after_char_def parse_defs)
    let ?v = "?u\<lparr>pc_position := pc_position x + length w + 1\<rparr>"
    have v: "parse_loop s x = parse_loop s ?v"
      using assms c Cons by (intro parse_loop_scan_to [OF u, of cs]) (simp_all add: active_def parse_defs)
    show ?thesis
      using assms Cons by (intro parse_loop_step_to [OF v, of "CHR 0x22"])
        (simp_all add: active_def after_char_def parse_defs with_value_def)
  qed
  then show ?thesis
    by (simp add: parse_loop_stop active_def)
qed

section \<open>Items\<close>

text \<open>What a context has found.\<close>

definition found :: "cmdline \<Rightarrow> parse_context \<Rightarrow> (string + string \<times> string) list" where
  "found s x =
     (if pc_has_argument x then [Inl (token_string s (pc_option x))]
      else if pc_has_option x then [Inr (token_string s (pc_option x), token_string s (pc_value x))]
      else [])"

definition at_item :: "cmdline \<Rightarrow> parse_context \<Rightarrow> item \<Rightarrow> char \<Rightarrow> bool" where
  "at_item s x i c \<longleftrightarrow> active x \<and> quiet x \<and> pc_state x = PARSE_STATE_START \<and> item_ok i \<and>
     reads s (pc_position x) (item_text i @ [c]) \<and> is_separator c \<and>
     pc_position x + length (item_text i) < CMDLINE_MAX_VALID_LENGTH"

definition item_found :: "cmdline \<Rightarrow> parse_context \<Rightarrow> item \<Rightarrow> char \<Rightarrow> parse_context \<Rightarrow> bool" where
  "item_found s x i c y \<longleftrightarrow> found s y = [item_meaning i] \<and>
     pc_state y = (if item_quoted i then PARSE_STATE_END_QUOTE else PARSE_STATE_START) \<and>
     pc_position y = pc_position x + length (item_text i) + (if item_quoted i then 0 else 1) \<and>
     pc_done y = (\<not> item_quoted i \<and> c = CHR 0x00)"

lemma parse_item_argument:
  assumes "at_item s x i c" and "i = Argument w"
  shows "item_found s x i c (parse_loop s x)"
proof -
  have "reads s (pc_position x) w"
    using assms by (simp add: at_item_def)
  then show ?thesis
    using assms parse_argument [of x w s c]
    by (simp add: at_item_def item_found_def found_def with_option_def reads_token)
qed

lemma parse_item_quoted_argument:
  assumes "at_item s x i c" and "i = QuotedArgument w"
  shows "item_found s x i c (parse_loop s x)"
proof -
  have "reads s (pc_position x + 1) w"
    using assms by (simp add: at_item_def)
  then show ?thesis
    using assms parse_quoted_argument [of x w s]
    by (simp add: at_item_def item_found_def found_def with_option_def reads_token active_def)
qed

lemma parse_item_setting:
  assumes "at_item s x i c" and "i = Setting n v"
  shows "item_found s x i c (parse_loop s x)"
proof -
  let ?y = "(with_option (pc_position x) (length n) x)\<lparr>pc_state := PARSE_STATE_EQUAL, pc_position := pc_position x + length n + 1\<rparr>"
  have "parse_loop s x = parse_loop s ?y"
    using assms by (intro parse_equal) (simp_all add: at_item_def)
  moreover have "reads s (pc_position x) n" "reads s (pc_position x + length n + 1) v"
    using assms by (simp_all add: at_item_def)
  ultimately show ?thesis
    using assms parse_value [of ?y v s c]
    by (simp add: at_item_def item_found_def found_def with_option_def with_value_def reads_token active_def quiet_def)
qed

lemma parse_item_quoted_setting:
  assumes "at_item s x i c" and "i = QuotedSetting n v"
  shows "item_found s x i c (parse_loop s x)"
proof -
  let ?y = "(with_option (pc_position x) (length n) x)\<lparr>pc_state := PARSE_STATE_EQUAL, pc_position := pc_position x + length n + 1\<rparr>"
  have "parse_loop s x = parse_loop s ?y"
    using assms by (intro parse_equal) (simp_all add: at_item_def)
  moreover have "reads s (pc_position x) n" "reads s (pc_position x + length n + 2) v"
    using assms by (simp_all add: at_item_def)
  ultimately show ?thesis
    using assms parse_quoted_value [of ?y v s]
    by (simp add: at_item_def item_found_def found_def with_option_def with_value_def reads_token active_def quiet_def)
qed

lemma parse_item: "at_item s x i c \<Longrightarrow> item_found s x i c (parse_loop s x)"
  using parse_item_argument parse_item_quoted_argument parse_item_setting parse_item_quoted_setting by (cases i) blast+

section \<open>Lines\<close>

text \<open>
  The parser is at the start of an item, or after a closing quote with the separator still to be
  read.
\<close>

definition ready :: "cmdline \<Rightarrow> parse_context \<Rightarrow> item list \<Rightarrow> bool" where
  "ready s x items \<longleftrightarrow> \<not> pc_done x \<and> list_all item_ok items \<and>
     (if pc_state x = PARSE_STATE_START then reads s (pc_position x) (line_text items) \<and>
        pc_position x + length (line_text items) \<le> CMDLINE_MAX_VALID_LENGTH
      else pc_state x = PARSE_STATE_END_QUOTE \<and>
        reads s (pc_position x) (if items = [] then [CHR 0x00] else CHR '' '' # line_text items) \<and>
        pc_position x + (if items = [] then 1 else 1 + length (line_text items)) \<le> CMDLINE_MAX_VALID_LENGTH)"

abbreviation cleared :: "parse_context \<Rightarrow> parse_context" where
  "cleared x \<equiv> x\<lparr>pc_has_action := False, pc_has_argument := False, pc_has_option := False\<rparr>"

lemma line_text_Cons:
  "line_text (i # is) = item_text i @ (if is = [] then CHR 0x00 else CHR '' '') # (if is = [] then [] else line_text is)"
  by (cases "is") simp_all

lemma separator_chars [simp]: "is_separator (CHR '' '')" "is_separator (CHR 0x00)"
  by (simp_all add: is_separator_def)

lemma ready_item:
  assumes "ready s x (i # is)"
  obtains y where "mutate_context s x = parse_loop s y" and "at_item s y i (if is = [] then CHR 0x00 else CHR '' '')"
    and "reads s (pc_position y) (line_text (i # is))"
    and "pc_position y + length (line_text (i # is)) \<le> CMDLINE_MAX_VALID_LENGTH" and "list_all item_ok is"
proof (cases "pc_state x = PARSE_STATE_START")
  case True
  then show ?thesis
    using assms by (intro that [of "cleared x"])
      (simp_all add: ready_def mutate_context_def at_item_def active_def quiet_def line_text_Cons split: if_splits)
next
  case False
  let ?y = "(cleared x)\<lparr>pc_state := PARSE_STATE_START, pc_position := pc_position x + 1\<rparr>"
  have "parse_loop s (cleared x) = parse_loop s ?y"
    using assms False by (intro parse_loop_step_to [OF refl, of "cleared x" s "CHR '' ''"])
      (simp_all add: ready_def active_def after_char_def parse_defs)
  then show ?thesis
    using assms False by (intro that [of ?y])
      (simp_all add: ready_def mutate_context_def at_item_def active_def quiet_def line_text_Cons split: if_splits)
qed

lemma ready_step:
  assumes "ready s x (i # is)"
  shows "found s (mutate_context s x) = [item_meaning i]"
    and "pc_done (mutate_context s x) \<Longrightarrow> is = []"
    and "\<not> pc_done (mutate_context s x) \<Longrightarrow> ready s (mutate_context s x) is"
proof -
  let ?c = "if is = [] then CHR 0x00 else CHR '' ''"
  obtain y where y: "mutate_context s x = parse_loop s y" "at_item s y i ?c" "reads s (pc_position y) (line_text (i # is))"
      "pc_position y + length (line_text (i # is)) \<le> CMDLINE_MAX_VALID_LENGTH" "list_all item_ok is"
    using ready_item [OF assms] by blast
  have f: "item_found s y i ?c (mutate_context s x)"
    using parse_item [OF y(2)] y(1) by simp
  show "found s (mutate_context s x) = [item_meaning i]"
    using f by (simp add: item_found_def)
  show "pc_done (mutate_context s x) \<Longrightarrow> is = []"
    using f by (auto simp: item_found_def split: if_splits)
  show "\<not> pc_done (mutate_context s x) \<Longrightarrow> ready s (mutate_context s x) is"
    using f y(3,4,5) by (auto simp: item_found_def ready_def line_text_Cons split: if_splits)
qed

lemma ready_end:
  assumes "ready s x []"
  shows "found s (mutate_context s x) = []" and "pc_done (mutate_context s x)"
proof -
  let ?y = "(cleared x)\<lparr>pc_state := PARSE_STATE_START, pc_position := pc_position x + 1, pc_done := True\<rparr>"
  have "parse_loop s (cleared x) = parse_loop s ?y"
    using assms by (intro parse_loop_step_to [OF refl, of "cleared x" s "CHR 0x00"])
      (auto simp: ready_def active_def after_char_def parse_defs split: if_splits)
  then have "mutate_context s x = ?y"
    by (simp add: mutate_context_def parse_loop_stop active_def)
  then show "found s (mutate_context s x) = []" and "pc_done (mutate_context s x)"
    by (simp_all add: found_def)
qed

lemma contexts_found: "ready s x items \<Longrightarrow> concat (map (found s) (cmdline_contexts s x)) = map item_meaning items"
proof (induction items arbitrary: x)
  case Nil
  then show ?case
    using ready_end [OF Nil] by (simp add: cmdline_contexts.simps [of s x] Let_def)
next
  case (Cons i items)
  then show ?case
    using ready_step [OF Cons.prems] by (auto simp: cmdline_contexts.simps [of s x] Let_def)
qed

section \<open>Reference\<close>

definition same_name :: "string \<Rightarrow> string \<Rightarrow> bool" where
  "same_name a b \<longleftrightarrow> map dash_to_underscore a = map dash_to_underscore b"

definition kernel_name :: "string \<Rightarrow> bool" where
  "kernel_name n = list_ex (\<lambda>e. same_name n (fst e)) kernel_option_names"

definition arguments_of :: "item list \<Rightarrow> string" where
  "arguments_of items = concat (map (\<lambda>i. case item_meaning i of Inl w \<Rightarrow> w @ [CHR 0x00] | Inr _ \<Rightarrow> []) items)"

definition environ_of :: "item list \<Rightarrow> string" where
  "environ_of items = concat (map (\<lambda>i. case item_meaning i of Inl w \<Rightarrow> []
     | Inr (n, v) \<Rightarrow> if kernel_name n then [] else n @ [CHR ''=''] @ v @ [CHR 0x00]) items)"

lemma dash_to_underscore_end [simp]: "(dash_to_underscore c = CHR 0x00) = (c = CHR 0x00)"
  by (simp add: dash_to_underscore_def)

lemma enum_entry_matches_iff:
  assumes "CHR 0x00 \<notin> set (token_string s t)" and "CHR 0x00 \<notin> set name"
  shows "enum_entry_matches s t name \<longleftrightarrow> same_name (token_string s t) name"
proof
  assume m: "enum_entry_matches s t name"
  have len: "tok_length t \<le> length name"
  proof (rule ccontr)
    assume "\<not> ?thesis"
    then have "length name < tok_length t"
      by simp
    then have "dash_to_underscore (name_char name (length name)) = dash_to_underscore (token_char s t (length name))"
      using m by (simp add: enum_entry_matches_def list_all_iff)
    then have "token_char s t (length name) = CHR 0x00"
      by (simp add: name_char_def dash_to_underscore_def split: if_splits)
    then show False
      using assms(1) \<open>length name < tok_length t\<close> by (force simp: token_string_def)
  qed
  have "tok_length t = length name"
  proof (rule ccontr)
    assume "\<not> ?thesis"
    then have lt: "tok_length t < length name"
      using len by simp
    then have "name ! tok_length t = CHR 0x00"
      using m by (simp add: enum_entry_matches_def name_char_def)
    then show False
      using assms(2) nth_mem [OF lt] by simp
  qed
  then show "same_name (token_string s t) name"
    using m unfolding same_name_def
    by (intro nth_equalityI) (simp_all add: token_string_def enum_entry_matches_def list_all_iff name_char_def)
next
  assume eq: "same_name (token_string s t) name"
  then have len: "tok_length t = length name"
    using map_eq_imp_length_eq [of dash_to_underscore "token_string s t" dash_to_underscore name] by (simp add: same_name_def)
  have "dash_to_underscore (token_char s t i) = dash_to_underscore (name ! i)" if "i < length name" for i
    using arg_cong [OF eq [unfolded same_name_def], of "\<lambda>l. l ! i"] that len by (simp add: token_string_def)
  then show "enum_entry_matches s t name"
    using len by (simp add: enum_entry_matches_def list_all_iff name_char_def)
qed

lemma filter_environ_iff:
  assumes "CHR 0x00 \<notin> set (token_string s t)"
  shows "filter_userspace_environ s t \<longleftrightarrow> \<not> kernel_name (token_string s t)"
  using enum_entry_matches_iff [OF assms, of "''on_panic''"]
  by (simp add: filter_userspace_environ_def kernel_option_names_def kernel_name_def)

lemma arguments_found:
  "concat (map (argument_text s) (filter pc_has_argument xs)) =
   concat (map (\<lambda>m. case m of Inl w \<Rightarrow> w @ [CHR 0x00] | Inr _ \<Rightarrow> []) (concat (map (found s) xs)))"
  by (induction xs) (simp_all add: found_def argument_text_def)

lemma environ_found:
  assumes "\<forall>x \<in> set xs. \<not> (pc_has_argument x \<and> pc_has_option x)"
    and "\<forall>x \<in> set xs. pc_has_option x \<longrightarrow> CHR 0x00 \<notin> set (token_string s (pc_option x))"
  shows "concat (map (environ_text s) (filter (in_environ s) xs)) =
    concat (map (\<lambda>m. case m of Inl w \<Rightarrow> []
      | Inr (n, v) \<Rightarrow> if kernel_name n then [] else n @ [CHR ''=''] @ v @ [CHR 0x00]) (concat (map (found s) xs)))"
  using assms by (induction xs) (auto simp: found_def in_environ_def environ_text_def filter_environ_iff)

lemma found_arguments:
  assumes "concat (map (found s) (contexts s)) = map item_meaning items"
  shows "cmdline_write_arguments s = arguments_of items"
  unfolding write_arguments_concat arguments_found assms arguments_of_def by (simp add: o_def)

lemma found_environ:
  assumes "concat (map (found s) (contexts s)) = map item_meaning items"
  shows "cmdline_write_environ s = environ_of items"
proof -
  have "\<forall>x \<in> set (contexts s). pc_has_option x \<longrightarrow> CHR 0x00 \<notin> set (token_string s (pc_option x))"
    using option_no_end by blast
  then show ?thesis
    unfolding write_environ_concat environ_of_def by (simp add: environ_found [OF contexts_exclusive] assms o_def)
qed

lemma line_ready:
  assumes "list_all item_ok items" and "reads s 0 (line_text items)" and "length (line_text items) \<le> CMDLINE_MAX_VALID_LENGTH"
  shows "concat (map (found s) (contexts s)) = map item_meaning items"
proof -
  have "ready s (initialize_context {}) items"
    using assms by (simp add: ready_def initialize_context_def)
  then show ?thesis
    unfolding contexts_def by (rule contexts_found)
qed

lemma line_arguments:
  assumes "list_all item_ok items" and "reads s 0 (line_text items)" and "length (line_text items) \<le> CMDLINE_MAX_VALID_LENGTH"
  shows "cmdline_write_arguments s = arguments_of items"
  by (rule found_arguments [OF line_ready [OF assms]])

lemma line_environ:
  assumes "list_all item_ok items" and "reads s 0 (line_text items)" and "length (line_text items) \<le> CMDLINE_MAX_VALID_LENGTH"
  shows "cmdline_write_environ s = environ_of items"
  by (rule found_environ [OF line_ready [OF assms]])

lemma reads_name_char_drop: "i \<le> length w \<Longrightarrow> reads (name_char w) i (drop i w)"
proof (induction "length w - i" arbitrary: i)
  case (Suc k)
  then have "drop i w = w ! i # drop (Suc i) w" "i < length w"
    by (simp_all add: Cons_nth_drop_Suc)
  then show ?case
    using Suc.hyps(1) [of "Suc i"] Suc.hyps(2) by (simp add: name_char_def)
qed simp

lemma reads_name_char: "reads (name_char w) 0 w"
  using reads_name_char_drop [of 0 w] by simp

end
