(* ===== verification/CmdlineClaims.thy ===== *)
theory CmdlineClaims
  imports CmdlineItems
begin

text \<open>
  Properties of the command line: the parser never reads past the end of the string, and what the
  clients of the parser compute.
\<close>

section \<open>Characters the parser depends on\<close>

definition agree :: "nat \<Rightarrow> cmdline \<Rightarrow> cmdline \<Rightarrow> bool" where
  "agree n s t \<longleftrightarrow> s n = CHR 0x00 \<and> (\<forall>i \<le> n. t i = s i)"

lemma active_position: "agree n s t \<Longrightarrow> read_ok s x \<Longrightarrow> \<not> pc_done x \<Longrightarrow> pc_position x \<le> n"
  by (auto simp: agree_def read_ok_def not_less [symmetric])

lemma parse_loop_agree: "agree n s t \<Longrightarrow> read_ok s x \<Longrightarrow> parse_loop t x = parse_loop s x"
proof (induction s x rule: parse_loop.induct)
  case (1 s x)
  show ?case
  proof (cases "pc_has_action x \<or> pc_done x")
    case True
    then show ?thesis
      by (simp add: parse_loop.simps [of t x] parse_loop.simps [of s x])
  next
    case False
    have "t (pc_position x) = s (pc_position x)"
      using active_position [OF "1.prems"] "1.prems"(1) False by (simp add: agree_def)
    then have "parse_step t x = parse_step s x"
      by (simp add: parse_step_def)
    then show ?thesis
      using "1.IH" [OF False "1.prems"(1) parse_step_read] "1.prems"(2) False
      by (simp add: parse_loop.simps [of t x] parse_loop.simps [of s x])
  qed
qed

lemma mutate_context_agree: "agree n s t \<Longrightarrow> read_ok s x \<Longrightarrow> mutate_context t x = mutate_context s x"
  unfolding mutate_context_def by (rule parse_loop_agree) (simp_all add: read_ok_def)

lemma cmdline_contexts_agree:
  "agree n s t \<Longrightarrow> context_ok s w x \<Longrightarrow> \<not> pc_done x \<Longrightarrow> cmdline_contexts t x = cmdline_contexts s x"
proof (induction s x arbitrary: w rule: cmdline_contexts.induct)
  case (1 s x)
  have "mutate_context t x = mutate_context s x"
    using "1.prems"(2) by (intro mutate_context_agree [OF "1.prems"(1)]) (simp add: context_ok_def)
  then show ?case
    using "1.IH" [OF refl _ "1.prems"(1) mutate_context_ok [OF "1.prems"(2,3)]]
    by (simp add: cmdline_contexts.simps [of t x] cmdline_contexts.simps [of s x] Let_def)
qed

lemma contexts_agree:
  assumes "agree n s t"
  shows "contexts t = contexts s"
  unfolding contexts_def
  by (rule cmdline_contexts_agree [OF assms initialize_context_ok]) (simp add: initialize_context_def)

text \<open>The characters of a token.\<close>

definition token_same :: "cmdline \<Rightarrow> cmdline \<Rightarrow> cmdline_token \<Rightarrow> bool" where
  "token_same s t tok \<longleftrightarrow> (\<forall>i < tok_length tok. token_char t tok i = token_char s tok i)"

lemma token_string_same: "token_same s t tok \<Longrightarrow> token_string t tok = token_string s tok"
  by (simp add: token_same_def token_string_def)

lemma get_enum_entry_same:
  assumes "token_same s t tok"
  shows "get_enum_entry_by_token d t tok = get_enum_entry_by_token d s tok"
proof -
  have "enum_entry_matches t tok name = enum_entry_matches s tok name" for name
    using assms by (simp add: enum_entry_matches_def token_same_def list_all_iff)
  then show ?thesis
    by (induction d) simp_all
qed

lemma match_enum_same: "token_same s t tok \<Longrightarrow> cmdline_match_enum d t tok = cmdline_match_enum d s tok"
  by (simp add: cmdline_match_enum_def get_enum_entry_same)

lemma match_boolean_same: "token_same s t tok \<Longrightarrow> cmdline_match_boolean t tok = cmdline_match_boolean s tok"
  by (simp add: cmdline_match_boolean_def match_enum_same)

lemma match_integer_same: "token_same s t tok \<Longrightarrow> cmdline_match_integer t tok = cmdline_match_integer s tok"
  using token_string_same [of s t tok] by (simp add: cmdline_match_integer_def token_same_def Let_def)

lemma process_pair_same:
  assumes "token_same s t (pc_option x)" and "token_same s t (pc_value x)"
  shows "process_name_value_pair t x = process_name_value_pair s x"
  using assms
  by (simp add: process_name_value_pair_def machine_cmdline_process_option_def match_enum_same match_boolean_same
      match_integer_same cong: option.case_cong if_cong)

lemma token_same_before:
  assumes "agree n s t" and "context_ok s v x" and "tok_start tok = Some a" and "a + tok_length tok < pc_position x"
  shows "token_same s t tok"
proof -
  have "pc_position x \<le> n + 1"
    using assms(1,2) context_position(2) by (simp add: agree_def)
  then show ?thesis
    using assms by (simp add: token_same_def token_char_def agree_def)
qed

lemma contexts_token_same:
  assumes "agree n s t" and "x \<in> set (contexts s)"
  shows "pc_has_argument x \<or> pc_has_option x \<Longrightarrow> token_same s t (pc_option x)"
    and "pc_has_option x \<Longrightarrow> token_same s t (pc_value x)"
proof -
  obtain v where x: "context_ok s v x"
    using contexts_ok [OF assms(2)] by blast
  show "pc_has_argument x \<or> pc_has_option x \<Longrightarrow> token_same s t (pc_option x)"
    using token_same_before [OF assms(1) x] option_token [OF x] by blast
  show "pc_has_option x \<Longrightarrow> token_same s t (pc_value x)"
    using token_same_before [OF assms(1) x] value_token [OF x] by blast
qed

lemma parse_options_agree:
  assumes "agree n s t"
  shows "cmdline_parse_options config (Some t) = cmdline_parse_options config (Some s)"
proof -
  have "(if pc_has_option x then process_name_value_pair t x a else a) = (if pc_has_option x then process_name_value_pair s x a else a)"
    if "x \<in> set (contexts s)" for x a
    using process_pair_same [OF contexts_token_same [OF assms that]] by simp
  then have "fold (\<lambda>x a. if pc_has_option x then process_name_value_pair t x a else a) (contexts t) (config, {}) =
    fold (\<lambda>x a. if pc_has_option x then process_name_value_pair s x a else a) (contexts s) (config, {})"
    unfolding contexts_agree [OF assms] by (intro fold_cong refl) blast
  then show ?thesis
    using contexts_agree [OF assms] by (simp add: cmdline_parse_options_def cmdline_loop_fold contexts_def [symmetric])
qed

lemma in_environ_agree:
  assumes "agree n s t" and "x \<in> set (contexts s)"
  shows "in_environ t x = in_environ s x"
  using contexts_token_same [OF assms]
  by (auto simp: in_environ_def filter_userspace_environ_def get_enum_entry_same)

lemma write_arguments_agree:
  assumes "agree n s t"
  shows "cmdline_write_arguments t = cmdline_write_arguments s"
  using contexts_token_same(1) [OF assms]
  by (auto simp: write_arguments_concat contexts_agree [OF assms] argument_text_def token_string_same
      intro!: arg_cong [where f = concat] map_cong)

lemma write_environ_agree:
  assumes "agree n s t"
  shows "cmdline_write_environ t = cmdline_write_environ s"
proof -
  have "filter (in_environ t) (contexts s) = filter (in_environ s) (contexts s)"
    using in_environ_agree [OF assms] by (intro filter_cong) simp_all
  then show ?thesis
    using contexts_token_same [OF assms]
    by (auto simp: write_environ_concat contexts_agree [OF assms] environ_text_def in_environ_def token_string_same
        intro!: arg_cong [where f = concat] map_cong)
qed

section \<open>Integers\<close>

definition decimal_value :: "string \<Rightarrow> int" where
  "decimal_value ds = foldl (\<lambda>v c. 10 * v + (char_code c - 48)) 0 ds"

lemma char_code_zero: "char_code c = 0 \<longleftrightarrow> c = CHR 0x00"
proof -
  have "(of_char c :: int) = of_char (CHR 0x00) \<longleftrightarrow> c = CHR 0x00"
    by (rule of_char_eq_iff)
  then show ?thesis
    by (simp add: char_code_def)
qed

lemma integer_of_digit_decimal: "isdigit c \<Longrightarrow> integer_of_digit c = char_code c - 48"
  by (simp add: isdigit_def integer_of_digit_def Let_def)

lemma foldl_digits_bound:
  assumes "list_all isdigit ds" and "0 \<le> v" and "v < 10 ^ k"
  shows "0 \<le> foldl (\<lambda>v c. 10 * v + (char_code c - 48)) v ds \<and>
    foldl (\<lambda>v c. 10 * v + (char_code c - 48)) v ds < 10 ^ (k + length ds)"
  using assms
proof (induction ds arbitrary: v k)
  case (Cons c ds)
  have "0 \<le> 10 * v + (char_code c - 48)" "10 * v + (char_code c - 48) < 10 ^ Suc k"
    using Cons.prems by (auto simp: isdigit_def)
  then show ?case
    using Cons.IH [of "10 * v + (char_code c - 48)" "Suc k"] Cons.prems by simp
qed simp

lemma int32_small: "0 \<le> v \<Longrightarrow> v < 10 ^ 9 \<Longrightarrow> int32 v = v"
  by (rule int32_id) simp_all

lemma accumulate_decimal:
  assumes "0 \<le> v" and "v < 10 ^ k" and "k + length ds \<le> 9"
  shows "accumulate_digits isdigit 10 ds v =
    (if list_all isdigit ds then Some (foldl (\<lambda>v c. 10 * v + (char_code c - 48)) v ds) else None)"
  using assms
proof (induction ds arbitrary: v k)
  case (Cons c ds)
  show ?case
  proof (cases "isdigit c")
    case True
    let ?v = "10 * v + (char_code c - 48)"
    have v: "0 \<le> ?v" "?v < 10 ^ Suc k"
      using Cons.prems True by (auto simp: isdigit_def)
    moreover have "(10 :: int) ^ Suc k \<le> 10 ^ 9"
      using Cons.prems by (intro power_increasing) simp_all
    ultimately have "int32 ?v = ?v"
      by (intro int32_small) simp_all
    then show ?thesis
      using Cons.IH [OF v] Cons.prems True by (simp add: integer_of_digit_decimal)
  qed simp
qed simp

lemma match_integer_decimal:
  assumes "CHR 0x00 \<notin> set (token_string s t)"
  shows "cmdline_match_integer s t =
    (if 1 \<le> tok_length t \<and> tok_length t \<le> 9 \<and> list_all isdigit (token_string s t)
     then Some (decimal_value (token_string s t)) else None)"
proof -
  consider "tok_length t = 0" | "tok_length t = 1" | "1 < tok_length t"
    by linarith
  then show ?thesis
  proof cases
    case 1
    then show ?thesis
      by (simp add: cmdline_match_integer_def)
  next
    case 2
    then show ?thesis
      by (simp add: cmdline_match_integer_def token_string_def decimal_value_def integer_of_digit_decimal)
  next
    case 3
    have "token_char s t 0 \<in> set (token_string s t)"
      using 3 by (simp add: token_string_def)
    then have "char_code (token_char s t 0) \<noteq> 0"
      using assms by (auto simp: char_code_zero)
    then show ?thesis
      using 3 accumulate_decimal [of 0 0 "token_string s t"] by (simp add: cmdline_match_integer_def decimal_value_def)
  qed
qed


section \<open>Two dashes\<close>

text \<open>
  After two dashes that do not stand alone, the next character is dropped and what follows is parsed
  as if it were the start of an option.
\<close>

lemma cmdline_contexts_cong: "mutate_context s x = mutate_context s y \<Longrightarrow> cmdline_contexts s x = cmdline_contexts s y"
  by (simp add: cmdline_contexts.simps [of s x] cmdline_contexts.simps [of s y])

lemma double_dash_contexts:
  assumes "reads s 0 (''--'' @ [c])" and "\<not> is_separator c"
  shows "contexts s = cmdline_contexts s ((start_option (initialize_context {}))\<lparr>pc_position := 3\<rparr>)"
proof -
  let ?x = "initialize_context {}"
  have c: "c \<noteq> CHR 0x00"
    using assms(2) by auto
  let ?u = "(start_option ?x)\<lparr>pc_state := PARSE_STATE_DASH1, pc_position := 1\<rparr>"
  have u: "parse_loop s ?x = parse_loop s ?u"
    using assms by (intro parse_loop_step_to [OF refl, of ?x s "CHR ''-''"])
      (simp_all add: active_def after_char_def parse_defs initialize_context_def CMDLINE_MAX_VALID_LENGTH_def)
  let ?v = "(start_option ?x)\<lparr>pc_state := PARSE_STATE_DASH2, pc_position := 2\<rparr>"
  have v: "parse_loop s ?x = parse_loop s ?v"
    using assms by (intro parse_loop_step_to [OF u, of "CHR ''-''"])
      (simp_all add: active_def after_char_def parse_defs initialize_context_def CMDLINE_MAX_VALID_LENGTH_def)
  have "parse_loop s ?x = parse_loop s ((start_option ?x)\<lparr>pc_position := 3\<rparr>)"
    using assms c by (intro parse_loop_step_to [OF v, of c])
      (simp_all add: active_def after_char_def parse_defs initialize_context_def CMDLINE_MAX_VALID_LENGTH_def numeral_2_eq_2)
  then have "mutate_context s ?x = mutate_context s ((start_option ?x)\<lparr>pc_position := 3\<rparr>)"
    by (simp add: mutate_context_def initialize_context_def start_option_def)
  then show ?thesis
    unfolding contexts_def by (rule cmdline_contexts_cong)
qed

lemma double_dash_option:
  assumes "\<not> is_separator c" and "list_all item_ok items" and "length (line_text items) + 3 \<le> CMDLINE_MAX_VALID_LENGTH"
    and "reads s 0 (''--'' @ [c] @ line_text items)"
  shows "cmdline_write_arguments s = arguments_of items \<and> cmdline_write_environ s = environ_of items"
proof -
  have "ready s ((start_option (initialize_context {}))\<lparr>pc_position := 3\<rparr>) items"
    using assms by (simp add: ready_def initialize_context_def start_option_def eval_nat_numeral)
  moreover have "contexts s = cmdline_contexts s ((start_option (initialize_context {}))\<lparr>pc_position := 3\<rparr>)"
    using assms by (intro double_dash_contexts) simp_all
  ultimately have "concat (map (found s) (contexts s)) = map item_meaning items"
    using contexts_found by simp
  then show ?thesis
    by (simp add: found_arguments found_environ)
qed

section \<open>Claims\<close>

text \<open>
  Claim C28. The strings written on the stack of the first process. For a command line with its end at
  position \<open>n\<close>, the arguments and the environment together take at most \<open>n + 1\<close> characters, never
  more than the parser's limit, and they consist of exactly as many null-terminated strings as the
  functions that count them return.
\<close>

theorem cmdline_layout:
  assumes "s n = CHR 0x00"
  shows "length (cmdline_write_arguments s) + length (cmdline_write_environ s) \<le> min (n + 1) CMDLINE_MAX_PARSE_LENGTH \<and>
    count_list (cmdline_write_arguments s) (CHR 0x00) = cmdline_count_arguments s \<and>
    count_list (cmdline_write_environ s) (CHR 0x00) = cmdline_count_environ s"
  using written_length [of s] written_length_string [of s n, OF assms] count_argument_ends count_environ_ends by simp

theorem cmdline_layout_witness:
  "length (cmdline_write_arguments (name_char ''a b=c'')) + length (cmdline_write_environ (name_char ''a b=c'')) \<le> 6"
proof -
  have "name_char ''a b=c'' 5 = CHR 0x00"
    by (simp add: name_char_def)
  from cmdline_layout [of "name_char ''a b=c''" 5, OF this] show ?thesis
    by simp
qed

text \<open>
  Claim C29. The parser never depends on what lies after the end of the string: two memories that agree
  up to a null character give the same configuration, errors, arguments, environment and counts.
\<close>

theorem cmdline_reads_string_only:
  assumes "s n = CHR 0x00" and "\<forall>i \<le> n. t i = s i"
  shows "cmdline_parse_options config (Some t) = cmdline_parse_options config (Some s) \<and>
    cmdline_write_arguments t = cmdline_write_arguments s \<and> cmdline_write_environ t = cmdline_write_environ s \<and>
    cmdline_count_arguments t = cmdline_count_arguments s \<and> cmdline_count_environ t = cmdline_count_environ s"
proof -
  have "agree n s t"
    using assms by (simp add: agree_def)
  then show ?thesis
    using parse_options_agree write_arguments_agree write_environ_agree
    by (simp flip: count_argument_ends count_environ_ends)
qed

theorem cmdline_reads_string_only_witness:
  "cmdline_write_environ (\<lambda>i. if i = 0 then CHR ''a'' else if i = 1 then CHR ''='' else if i = 2 then CHR 0x00 else CHR ''z'') =
   cmdline_write_environ (\<lambda>i. if i = 0 then CHR ''a'' else if i = 1 then CHR ''='' else CHR 0x00)"
proof -
  let ?s = "\<lambda>i :: nat. if i = 0 then CHR ''a'' else if i = 1 then CHR ''='' else CHR 0x00"
  let ?t = "\<lambda>i :: nat. if i = 0 then CHR ''a'' else if i = 1 then CHR ''='' else if i = 2 then CHR 0x00 else CHR ''z''"
  have "\<forall>i \<le> 2. ?t i = ?s i"
    by auto
  then show ?thesis
    using cmdline_reads_string_only [of ?s 2 ?t undefined] by simp
qed



text \<open>
  Claim C30. An integer value is accepted exactly when it has one to nine characters that are all
  decimal digits, and its value is then that of the digits, with no overflow. In particular a value
  with a hexadecimal prefix is always rejected.
\<close>

theorem cmdline_match_integer_exact:
  assumes "CHR 0x00 \<notin> set (token_string s t)"
  shows "cmdline_match_integer s t =
    (if 1 \<le> tok_length t \<and> tok_length t \<le> 9 \<and> list_all isdigit (token_string s t)
     then Some (decimal_value (token_string s t)) else None)"
  by (rule match_integer_decimal [OF assms])

theorem cmdline_match_integer_exact_witness:
  "cmdline_match_integer (name_char ''1016'') \<lparr>tok_start = Some 0, tok_length = 4\<rparr> = Some 1016 \<and>
   cmdline_match_integer (name_char ''0x3f8'') \<lparr>tok_start = Some 0, tok_length = 5\<rparr> = None"
proof -
  let ?t = "\<lparr>tok_start = Some 0, tok_length = 4\<rparr>" and ?u = "\<lparr>tok_start = Some 0, tok_length = 5\<rparr>"
  have "token_string (name_char ''1016'') ?t = ''1016''" "token_string (name_char ''0x3f8'') ?u = ''0x3f8''"
    by (simp_all add: token_string_def token_char_def name_char_def upt_rec)
  then show ?thesis
    using cmdline_match_integer_exact [of "name_char ''1016''" ?t] cmdline_match_integer_exact [of "name_char ''0x3f8''" ?u]
    by (simp add: isdigit_def char_code_def decimal_value_def)
qed

end
