(* ===== verification/PrintfClaims.thy ===== *)
theory PrintfClaims
  imports PrintfProps CmdlineClaims
begin

text \<open>
  The reference for a whole format, and the properties of formatted output.
\<close>

section \<open>Parsing depends on the format only\<close>

definition blank :: "string \<Rightarrow> printf_state" where
  "blank f = initialize_state None 0 f (\<lambda>_. CHR 0x00)"

lemma ps_format_blank [simp]: "ps_format (blank f) = f"
  by (simp add: blank_def initialize_state_def)

definition refit :: "printf_state \<Rightarrow> printf_state \<Rightarrow> printf_state" where
  "refit st u = st\<lparr>ps_format := ps_format u\<rparr>"

lemma refit_refit [simp]: "refit (refit st u) v = refit st v" and refit_format [simp]: "ps_format (refit st u) = ps_format u"
  by (simp_all add: refit_def)

lemma current_refit [simp]: "current (refit st u) = current u"
  by (simp add: current_def)

lemma consume_refit: "consume (refit st u) = refit st (consume u)"
  by (simp add: consume_def) (simp add: refit_def)

lemma parse_numeric_refit: "parse_numeric (refit st u) = (fst (parse_numeric u), refit st (snd (parse_numeric u)))"
  by (simp add: parse_numeric_def Let_def case_prod_unfold) (simp add: refit_def)

lemma parse_flags_refit: "parse_flags (spec, refit st u) = (fst (parse_flags (spec, u)), refit st (snd (parse_flags (spec, u))))"
  by (simp add: parse_flags_def Let_def case_prod_unfold) (simp add: refit_def)

definition refit_result ::
    "printf_state \<Rightarrow> (conv_spec_t \<times> printf_state \<times> va_value list) result \<Rightarrow> (conv_spec_t \<times> printf_state \<times> va_value list) result" where
  "refit_result st r = bind_ok r (\<lambda>(spec, u, args). Inr (spec, refit st u, args))"

lemma bind_refit: "bind_ok (bind_ok m f) g = bind_ok m (\<lambda>x. bind_ok (f x) g)"
  by (cases m) simp_all

lemma parse_field_width_refit:
  "parse_field_width (spec, refit st u) args = refit_result st (parse_field_width (spec, u) args)"
  by (simp add: parse_field_width_def refit_result_def Let_def parse_numeric_refit consume_refit bind_refit case_prod_unfold)

lemma parse_precision_refit:
  "parse_precision (spec, refit st u, args) = refit_result st (parse_precision (spec, u, args))"
  by (simp add: parse_precision_def refit_result_def Let_def parse_numeric_refit consume_refit bind_refit case_prod_unfold)

lemma parse_specifier_refit:
  "parse_conversion_specifier (parse_length_modifier (spec, refit st u)) =
   (fst (parse_conversion_specifier (parse_length_modifier (spec, u))),
    refit st (snd (parse_conversion_specifier (parse_length_modifier (spec, u)))))"
  by (simp add: parse_conversion_specifier_def parse_length_modifier_def Let_def consume_refit)

lemma parse_specification_refit:
  "parse_conversion_specification (spec, refit st u, args) = refit_result st (parse_conversion_specification (spec, u, args))"
  by (simp add: parse_conversion_specification_def parse_flags_refit parse_field_width_refit refit_result_def bind_refit case_prod_unfold
      parse_precision_refit parse_specifier_refit Let_def cong: bind_ok_cong)

definition parse_spec :: "string \<Rightarrow> va_value list \<Rightarrow> (conv_spec_t \<times> string \<times> va_value list) result" where
  "parse_spec f args =
     bind_ok (parse_conversion_specification (initial_spec, blank f, args)) (\<lambda>(spec, u, args). Inr (spec, ps_format u, args))"

lemma parse_specification_spec:
  "parse_conversion_specification (initial_spec, st, args) =
   bind_ok (parse_spec (ps_format st) args) (\<lambda>(spec, rest, args'). Inr (spec, st\<lparr>ps_format := rest\<rparr>, args'))"
proof -
  have "st = refit st (blank (ps_format st))"
    by (simp add: refit_def)
  then show ?thesis
    using parse_specification_refit [of initial_spec st "blank (ps_format st)" args]
    by (simp add: parse_spec_def refit_result_def bind_refit case_prod_unfold refit_def)
qed

lemma parse_spec_length: "parse_spec f args = Inr (spec, rest, args') \<Longrightarrow> length rest \<le> length f"
  using parse_specification_length [of initial_spec "blank f" args] by (fastforce simp: parse_spec_def bind_ok_eq_Inr)

lemma numeric_loop_bound: "v < 2 ^ 31 \<Longrightarrow> fst (numeric_loop cs v) < 2 ^ 31"
  using int32_range by (induction cs arbitrary: v) auto

lemma parse_spec_prec:
  assumes "parse_spec f args = Inr (spec, rest, args')"
  shows "cs_prec spec < 2 ^ 31"
proof -
  have p: "cs_prec spec' < 2 ^ 31" if "parse_precision (spec, st, args) = Inr (spec', st', args')" for spec st args spec' st' args'
    using that numeric_loop_bound [of 0] int32_range
    by (auto simp: parse_precision_def Let_def parse_numeric_def bind_ok_eq_Inr case_prod_unfold split: if_splits)
  have "cs_prec (fst (parse_conversion_specifier (parse_length_modifier (spec, st)))) = cs_prec spec" for spec st
    by (simp add: parse_conversion_specifier_def parse_length_modifier_def Let_def)
  then show ?thesis
    using assms p by (fastforce simp: parse_spec_def parse_conversion_specification_def bind_ok_eq_Inr case_prod_unfold Let_def)
qed

section \<open>Reference\<close>

function render :: "string \<Rightarrow> va_value list \<Rightarrow> string result" where
  "render f args =
     (case f of
        [] \<Rightarrow> Inr []
      | c # cs \<Rightarrow>
          if c = CHR 0x00 then Inr []
          else if c \<noteq> CHR ''%'' then bind_ok (render cs args) (\<lambda>t. Inr (c # t))
          else if cs \<noteq> [] \<and> hd cs = CHR ''%'' then bind_ok (render (tl cs) args) (\<lambda>t. Inr (CHR ''%'' # t))
          else
            bind_ok (parse_spec cs args) (\<lambda>(spec, rest, args').
            bind_ok (conversion_text spec args') (\<lambda>(t, args'').
            bind_ok (render rest args'') (\<lambda>u. Inr (t @ u)))))"
  by pat_completeness auto

termination
  by (relation "measure (\<lambda>(f, args). length f)") (auto dest: parse_spec_length intro: diff_less)

declare render.simps [simp del]

lemma write_char_refit: "write_char c (st\<lparr>ps_format := f\<rparr>) = (write_char c st)\<lparr>ps_format := f\<rparr>"
  by (simp add: write_char_def Let_def split: option.split)

lemma emit_refit: "emit w (st\<lparr>ps_format := f\<rparr>) = (emit w st)\<lparr>ps_format := f\<rparr>"
  by (induction w arbitrary: st) (simp_all add: emit_Cons write_char_refit)

lemma process_conversion_error: "conversion_text spec args = Inl e \<Longrightarrow> process_conversion spec args st = Inl e"
  by (auto simp: conversion_text_def process_conversion_def Let_def bind_ok_eq_Inl split: if_splits)

lemma process_conversion_arguments:
  "conversion_text spec args = Inr (t, args') \<Longrightarrow> \<exists>st'. process_conversion spec args st = Inr (st', args') \<and> ps_format st' = ps_format st"
  by (auto simp: conversion_text_def process_conversion_def Let_def bind_ok_eq_Inr split: if_splits)

text \<open>One step of the loop, by the first characters of the format.\<close>

lemma loop_end: "current st = CHR 0x00 \<Longrightarrow> vsnprintf_loop st args = Inr st"
  by (simp add: vsnprintf_loop.simps [of st args])

lemma loop_char:
  assumes "ps_format st = c # cs" and "c \<noteq> CHR 0x00" and "c \<noteq> CHR ''%''"
  shows "vsnprintf_loop st args = vsnprintf_loop ((write_char c st)\<lparr>ps_format := cs\<rparr>) args"
  using assms by (simp add: vsnprintf_loop.simps [of st args] current_def consume_def)

lemma loop_percent:
  assumes "ps_format st = CHR ''%'' # CHR ''%'' # cs"
  shows "vsnprintf_loop st args = vsnprintf_loop ((write_char (CHR ''%'') st)\<lparr>ps_format := cs\<rparr>) args"
  using assms by (simp add: vsnprintf_loop.simps [of st args] current_def consume_def write_char_refit)

lemma loop_conversion:
  assumes "ps_format st = CHR ''%'' # cs" and "\<not> (cs \<noteq> [] \<and> hd cs = CHR ''%'')"
  shows "vsnprintf_loop st args =
    bind_ok (parse_spec cs args) (\<lambda>(spec, rest, args').
    bind_ok (process_conversion spec args' (st\<lparr>ps_format := rest\<rparr>)) (\<lambda>(st'', args''). vsnprintf_loop st'' args''))"
proof -
  have "consume st = st\<lparr>ps_format := cs\<rparr>" "current st = CHR ''%''"
    using assms(1) by (simp_all add: consume_def current_def)
  moreover have "current (st\<lparr>ps_format := cs\<rparr>) \<noteq> CHR ''%''"
    using assms(2) by (cases cs) (simp_all add: current_def)
  ultimately show ?thesis
    by (simp add: vsnprintf_loop.simps [of st args] parse_specification_spec bind_refit case_prod_unfold)
qed

lemma vsnprintf_loop_render:
  assumes "render f args = Inr t" and "ps_format st = f" and "ps_len st < size_t_range" and "length t < 2 ^ 31"
  shows "\<exists>rest. vsnprintf_loop st args = Inr ((emit t st)\<lparr>ps_format := rest\<rparr>)"
  using assms
proof (induction f args arbitrary: t st rule: render.induct)
  case (1 f args)
  consider "f = [] \<or> hd f = CHR 0x00"
    | c cs where "f = c # cs" "c \<noteq> CHR 0x00" "c \<noteq> CHR ''%''"
    | cs where "f = CHR ''%'' # CHR ''%'' # cs"
    | cs where "f = CHR ''%'' # cs" "\<not> (cs \<noteq> [] \<and> hd cs = CHR ''%'')"
    by (metis hd_Cons_tl list.sel(1))
  then show ?case
  proof cases
    case a: 1
    then have "t = []" "current st = CHR 0x00"
      using "1.prems" by (auto simp: render.simps [of f] current_def split: list.splits)
    then show ?thesis
      using loop_end [of st args] by (intro exI [of _ "ps_format st"]) simp
  next
    case b: 2
    then obtain u where u: "render cs args = Inr u" "t = c # u"
      using "1.prems"(1) by (auto simp: render.simps [of "c # cs"] bind_ok_eq_Inr)
    let ?st = "(write_char c st)\<lparr>ps_format := cs\<rparr>"
    have "\<exists>rest. vsnprintf_loop ?st args = Inr ((emit u ?st)\<lparr>ps_format := rest\<rparr>)"
      using b u "1.prems" by (intro "1.IH"(1) [OF b(1)]) (simp_all add: write_char_len)
    then show ?thesis
      using loop_char [of st c cs args] b u(2) "1.prems"(2) by (simp add: emit_refit emit_Cons)
  next
    case c: 3
    then obtain u where u: "render cs args = Inr u" "t = CHR ''%'' # u"
      using "1.prems"(1) by (auto simp: render.simps [of "CHR ''%'' # CHR ''%'' # cs"] bind_ok_eq_Inr)
    let ?st = "(write_char (CHR ''%'') st)\<lparr>ps_format := cs\<rparr>"
    have "\<exists>rest. vsnprintf_loop ?st args = Inr ((emit u ?st)\<lparr>ps_format := rest\<rparr>)"
      using c u "1.prems" by (intro "1.IH"(2) [OF c]) (simp_all add: write_char_len)
    then show ?thesis
      using loop_percent [of st cs args] c u(2) "1.prems"(2) by (simp add: emit_refit emit_Cons)
  next
    case d: 4
    then obtain spec rest args1 v args2 u where r: "parse_spec cs args = Inr (spec, rest, args1)"
        "conversion_text spec args1 = Inr (v, args2)" "render rest args2 = Inr u" "t = v @ u"
      using "1.prems"(1) by (auto simp: render.simps [of "CHR ''%'' # cs"] bind_ok_eq_Inr)
    let ?st = "st\<lparr>ps_format := rest\<rparr>"
    have p: "process_conversion spec args1 ?st = Inr (emit v ?st, args2)"
      using "1.prems" r parse_spec_prec [OF r(1)] by (intro process_conversion_emit) simp_all
    have "\<exists>rest'. vsnprintf_loop (emit v ?st) args2 = Inr ((emit u (emit v ?st))\<lparr>ps_format := rest'\<rparr>)"
      using d r "1.prems" emit_len_bound [of ?st v] by (intro "1.IH"(3) [OF d(1)]) auto
    then show ?thesis
      using loop_conversion [of st cs args] d r p "1.prems"(2) by (simp add: emit_refit emit_append)
  qed
qed

lemma vsnprintf_loop_error:
  assumes "render f args = Inl e" and "ps_format st = f"
  shows "vsnprintf_loop st args = Inl e"
  using assms
proof (induction f args arbitrary: st rule: render.induct)
  case (1 f args)
  consider "f = [] \<or> hd f = CHR 0x00"
    | c cs where "f = c # cs" "c \<noteq> CHR 0x00" "c \<noteq> CHR ''%''"
    | cs where "f = CHR ''%'' # CHR ''%'' # cs"
    | cs where "f = CHR ''%'' # cs" "\<not> (cs \<noteq> [] \<and> hd cs = CHR ''%'')"
    by (metis hd_Cons_tl list.sel(1))
  then show ?case
  proof cases
    case a: 1
    then show ?thesis
      using "1.prems" by (auto simp: render.simps [of f] split: list.splits)
  next
    case b: 2
    then have "render cs args = Inl e"
      using "1.prems"(1) by (simp add: render.simps [of "c # cs"] bind_ok_eq_Inl)
    then have "vsnprintf_loop ((write_char c st)\<lparr>ps_format := cs\<rparr>) args = Inl e"
      using b by (intro "1.IH"(1) [OF b(1)]) simp_all
    then show ?thesis
      using loop_char [of st c cs args] b "1.prems"(2) by simp
  next
    case c: 3
    then have "render cs args = Inl e"
      using "1.prems"(1) by (simp add: render.simps [of "CHR ''%'' # CHR ''%'' # cs"] bind_ok_eq_Inl)
    then have "vsnprintf_loop ((write_char (CHR ''%'') st)\<lparr>ps_format := cs\<rparr>) args = Inl e"
      using c by (intro "1.IH"(2) [OF c]) simp_all
    then show ?thesis
      using loop_percent [of st cs args] c "1.prems"(2) by simp
  next
    case d: 4
    then consider "parse_spec cs args = Inl e"
      | spec rest args1 where "parse_spec cs args = Inr (spec, rest, args1)" "conversion_text spec args1 = Inl e"
      | spec rest args1 v args2 where "parse_spec cs args = Inr (spec, rest, args1)"
        "conversion_text spec args1 = Inr (v, args2)" "render rest args2 = Inl e"
      using "1.prems"(1) by (auto simp: render.simps [of "CHR ''%'' # cs"] bind_ok_eq_Inl)
    then show ?thesis
    proof cases
      case 3
      obtain st' where st': "process_conversion spec args1 (st\<lparr>ps_format := rest\<rparr>) = Inr (st', args2)" "ps_format st' = rest"
        using process_conversion_arguments [OF 3(2), of "st\<lparr>ps_format := rest\<rparr>"] by auto
      have "vsnprintf_loop st' args2 = Inl e"
        using d 3 st'(2) by (intro "1.IH"(3) [OF d(1)]) auto
      then show ?thesis
        using loop_conversion [of st cs args] d 3 st'(1) "1.prems"(2) by simp
    qed (use loop_conversion [of st cs args] d "1.prems"(2) process_conversion_error in simp_all)
  qed
qed

lemma put_terminated: "(put w p m)(p + length w := c) = put (w @ [c]) p m"
  by (auto simp: put_def fun_eq_iff nth_append)

lemma vsnprintf_buffer:
  assumes "render format args = Inr t" and "length t < 2 ^ 31"
  shows "vsnprintf (Some p) n format args m = Inr (length t, put (take (n - 1) t @ [CHR 0x00]) p m)"
proof -
  let ?st = "initialize_state (Some p) n format m"
  have st: "ps_wrptr ?st = Some p" "ps_len ?st = 0" "ps_maxlen ?st = n - 1" "ps_memory ?st = m" "ps_format ?st = format"
    by (simp_all add: initialize_state_def)
  obtain rest where loop: "vsnprintf_loop ?st args = Inr ((emit t ?st)\<lparr>ps_format := rest\<rparr>)"
    using vsnprintf_loop_render [OF assms(1) st(5)] assms(2) st(2) by auto
  have "ps_memory (emit t ?st) = put (take (n - 1) t) p m" "ps_wrptr (emit t ?st) = Some (p + length (take (n - 1) t))"
    using emit_memory [OF st(1), of t] st assms(2) by (simp_all add: min.commute)
  moreover have "ps_len (emit t ?st) = length t"
    using emit_len [of ?st t] st(2) assms(2) by simp
  ultimately show ?thesis
    using put_terminated [of "take (n - 1) t" p m "CHR 0x00"] by (simp add: vsnprintf_def loop terminate_string_def)
qed

lemma vsnprintf_dry:
  assumes "render format args = Inr t" and "length t < 2 ^ 31"
  shows "vsnprintf None n format args m = Inr (length t, m)"
proof -
  let ?st = "initialize_state None n format m"
  have st: "ps_wrptr ?st = None" "ps_len ?st = 0" "ps_memory ?st = m" "ps_format ?st = format"
    by (simp_all add: initialize_state_def)
  obtain rest where loop: "vsnprintf_loop ?st args = Inr ((emit t ?st)\<lparr>ps_format := rest\<rparr>)"
    using vsnprintf_loop_render [OF assms(1) st(4)] assms(2) st(2) by auto
  have "emit t ?st = ?st\<lparr>ps_len := length t\<rparr>"
    using emit_dry [OF st(1), of t] st(2) assms(2) by simp
  then show ?thesis
    using st by (simp add: vsnprintf_def loop terminate_string_def)
qed

lemma vsnprintf_error: "render format args = Inl e \<Longrightarrow> vsnprintf s n format args m = Inl e"
  using vsnprintf_loop_error [of format args e "initialize_state s n format m"] by (simp add: vsnprintf_def initialize_state_def)

section \<open>Reading numbers back\<close>

lemma digits_below: "2 \<le> b \<Longrightarrow> d \<in> set (digits b v) \<Longrightarrow> d < b"
proof (induction b v rule: digits.induct)
  case (1 b v)
  then show ?case
    using digits.simps [of b v] by (auto split: if_splits)
qed

lemma digits_value: "foldl (\<lambda>a d. b * a + d) 0 (digits b v) = v"
proof (induction b v rule: digits.induct)
  case (1 b v)
  then show ?case
    by (subst digits.simps) simp
qed

lemma foldl_zeros: "foldl (\<lambda>a d. b * a + d) 0 (replicate n 0 @ ds) = foldl (\<lambda>a d. b * a + d) 0 (ds :: nat list)"
  by (induction n) simp_all

lemma char_code_digit: "d < 10 \<Longrightarrow> char_code (digit_char d) = int d + 48"
proof -
  assume "d < 10"
  have "int (of_char (char_of (d + 48) :: char)) = of_char (char_of (d + 48) :: char)"
    by (rule of_nat_of_char)
  then show ?thesis
    using \<open>d < 10\<close> by (simp add: char_code_def digit_char_def)
qed

lemma decimal_value_digits:
  assumes "\<forall>d \<in> set ds. d < 10"
  shows "foldl (\<lambda>v c. 10 * v + (char_code c - 48)) (int a) (map digit_char ds) = int (foldl (\<lambda>a d. 10 * a + d) a ds)"
  using assms
proof (induction ds arbitrary: a)
  case (Cons d ds)
  then show ?case
    using Cons.IH [of "10 * a + d"] by (simp add: char_code_digit)
qed simp

lemma unsigned_text_value:
  "decimal_value (unsigned_text v spec) = int (nat v mod 2 ^ (8 * argument_size spec)) \<and> list_all isdigit (unsigned_text v spec)"
proof -
  let ?w = "nat v mod 2 ^ (8 * argument_size spec)"
  let ?ds = "number_digits 10 (nat (default_prec spec)) ?w"
  have below: "\<forall>d \<in> set ?ds. d < 10"
    using digits_below [of 10 _ ?w] by (auto simp: number_digits_def zero_pad_def)
  have "foldl (\<lambda>a d. 10 * a + d) 0 ?ds = ?w"
    using digits_value [of 10 ?w] foldl_zeros [of 10 _ "digits 10 ?w"] by (simp add: number_digits_def zero_pad_def)
  then show ?thesis
    using decimal_value_digits [OF below, of 0] below
    by (simp add: decimal_value_def unsigned_text_def list_all_iff isdigit_def char_code_digit less_Suc_eq_le numeral_eq_Suc)
qed

section \<open>Claims\<close>

text \<open>
  Claim C31. Formatted output is equivalent to the reference that builds the whole text: for a buffer of
  at least one character, the buffer holds the text cut to the space available and a null character,
  nothing else in memory changes, and the length of the whole text is returned. Without a buffer only
  the length is computed. A missing argument is reported in both.
\<close>

theorem vsnprintf_equals_reference:
  assumes "0 < n" and "\<forall>t. render format args = Inr t \<longrightarrow> length t < 2 ^ 31"
  shows "vsnprintf (Some p) n format args m =
      bind_ok (render format args) (\<lambda>t. Inr (length t, put (take (n - 1) t @ [CHR 0x00]) p m)) \<and>
    vsnprintf None n format args m = bind_ok (render format args) (\<lambda>t. Inr (length t, m))"
proof (cases "render format args")
  case (Inl e)
  then show ?thesis
    by (simp add: vsnprintf_error)
next
  case (Inr t)
  then show ?thesis
    using assms(2) vsnprintf_buffer [OF Inr] vsnprintf_dry [OF Inr] by simp
qed

theorem vsnprintf_equals_reference_witness:
  "vsnprintf (Some 100) 6 ''%5s|%c'' [VStr (Some ''ab''), VInt 65] (\<lambda>_. CHR ''z'') =
   Inr (7, put (''   ab'' @ [CHR 0x00]) 100 (\<lambda>_. CHR ''z''))"
proof -
  have r: "render ''%5s|%c'' [VStr (Some ''ab''), VInt 65] = Inr ''   ab|A''"
    by code_simp
  then have "\<forall>t. render ''%5s|%c'' [VStr (Some ''ab''), VInt 65] = Inr t \<longrightarrow> length t < 2 ^ 31"
    by simp
  from vsnprintf_equals_reference [OF _ this, of 6 100 "\<lambda>_. CHR ''z''"] show ?thesis
    by (simp add: r)
qed

text \<open>
  Claim C33. A size of zero does not protect the buffer: when the pointer is not null, the null
  character is written at the start of the buffer although it has no room for it.
\<close>

theorem vsnprintf_zero_size_writes:
  assumes "render format args = Inr t" and "length t < 2 ^ 31"
  shows "vsnprintf (Some p) 0 format args m = Inr (length t, m(p := CHR 0x00))"
proof -
  have "put [CHR 0x00] p m = m(p := CHR 0x00)"
    by (auto simp: put_def fun_eq_iff)
  then show ?thesis
    using vsnprintf_buffer [OF assms, of p 0 m] by simp
qed

theorem vsnprintf_zero_size_writes_witness:
  "vsnprintf (Some 100) 0 ''a'' [] (\<lambda>_. CHR ''z'') = Inr (1, (\<lambda>_. CHR ''z'')(100 := CHR 0x00))"
proof -
  have "render ''a'' [] = Inr ''a''"
    by code_simp
  from vsnprintf_zero_size_writes [OF this] show ?thesis
    by simp
qed

text \<open>
  Claim C32. An unsigned number is written as its decimal digits: every character is a digit, and the
  digits read back give the value modulo the size of the argument, for every length modifier,
  precision and 64-bit value.
\<close>

theorem write_unsigned_round_trip:
  assumes "0 \<le> v" and "v < 2 ^ 64"
  shows "\<exists>w. write_unsigned v spec st = fold write_char w st \<and> list_all isdigit w \<and>
    decimal_value w = v mod 2 ^ (8 * argument_size spec) \<and> int (length w) \<ge> default_prec spec"
proof (intro exI conjI)
  show "write_unsigned v spec st = fold write_char (unsigned_text v spec) st"
    using write_unsigned_emit [OF assms] by (simp add: emit_def)
  show "list_all isdigit (unsigned_text v spec)"
    using unsigned_text_value by blast
  have "int (nat v mod 2 ^ (8 * argument_size spec)) = v mod 2 ^ (8 * argument_size spec)"
    using assms(1) by (simp add: zmod_int)
  then show "decimal_value (unsigned_text v spec) = v mod 2 ^ (8 * argument_size spec)"
    using unsigned_text_value [of v spec] by simp
  show "int (length (unsigned_text v spec)) \<ge> default_prec spec"
    by (simp add: unsigned_text_def number_digits_def)
qed

theorem write_unsigned_round_trip_witness:
  "\<exists>w. write_unsigned 4294967301 initial_spec (blank []) = fold write_char w (blank []) \<and> list_all isdigit w \<and> decimal_value w = 5"
  using write_unsigned_round_trip [of 4294967301 initial_spec "blank []"] by (auto simp: argument_size_def initial_spec_def)

end
