(* ===== verification/LoggingProps.thy ===== *)
theory LoggingProps
  imports Logging PrintfClaims
begin

text \<open>
  The ring buffer of the log holds the latest events in order, and every reader gets each of them
  once. The ghost argument \<open>all\<close> is the list of all events since the start.
\<close>

section \<open>Events in memory\<close>

definition entry_size :: "log_entry \<Rightarrow> nat" where
  "entry_size e = event_span (length (snd (snd e)))"

definition fits :: "log_entry \<Rightarrow> bool" where
  "fits e \<longleftrightarrow> 1 \<le> length (snd (snd e)) \<and> length (snd (snd e)) \<le> LOG_MAX_LENGTH"

definition holds :: "(nat \<Rightarrow> char) \<Rightarrow> nat \<Rightarrow> log_entry \<Rightarrow> bool" where
  "holds m p e \<longleftrightarrow> fits e \<and> event_length m p = length (snd (snd e)) \<and> event_entry m p = e"

primrec events_at :: "(nat \<Rightarrow> char) \<Rightarrow> nat \<Rightarrow> log_entry list \<Rightarrow> nat \<Rightarrow> bool" where
  "events_at m p [] q \<longleftrightarrow> p = q"
| "events_at m p (e # es) q \<longleftrightarrow> holds m p e \<and> events_at m (p + entry_size e) es q"

lemma entry_size_bounds: "fits e \<Longrightarrow> 8 \<le> entry_size e \<and> entry_size e \<le> 484"
  by (auto simp: fits_def entry_size_def event_span_def LOG_MAX_LENGTH_def)

lemma events_at_span: "events_at m p es q \<Longrightarrow> p + 8 * length es \<le> q"
proof (induction es arbitrary: p)
  case (Cons e es)
  then have "p + entry_size e + 8 * length es \<le> q" "fits e"
    by (auto simp: holds_def)
  then show ?case
    using entry_size_bounds [of e] by simp
qed simp

lemma events_at_append: "events_at m p (xs @ ys) q \<longleftrightarrow> (\<exists>r. events_at m p xs r \<and> events_at m r ys q)"
  by (induction xs arbitrary: p) auto

lemma entry_size_ge: "4 + length (snd (snd e)) \<le> entry_size e"
  by (simp add: entry_size_def event_span_def)

lemma holds_frame:
  assumes "holds m p e" and "\<And>a. p \<le> a \<Longrightarrow> a < p + entry_size e \<Longrightarrow> m' a = m a"
  shows "holds m' p e"
proof -
  have "1 \<le> length (snd (snd e))"
    using assms(1) by (simp add: holds_def fits_def)
  then have l: "event_length m' p = event_length m p"
    using assms(2) [of p] assms(2) [of "p + 1"] entry_size_ge [of e] by (simp add: event_length_def)
  have "m' (p + 4 + i) = m (p + 4 + i)" if "i < length (snd (snd e))" for i
    using assms(2) [of "p + 4 + i"] entry_size_ge [of e] that by simp
  then have "event_entry m' p = event_entry m p"
    using l assms(1) assms(2) [of "p + 2"] assms(2) [of "p + 3"] entry_size_ge [of e] \<open>1 \<le> length (snd (snd e))\<close>
    by (simp add: event_entry_def holds_def)
  then show ?thesis
    using assms(1) l by (simp add: holds_def)
qed

lemma events_at_frame:
  assumes "events_at m p es q" and "\<And>a. p \<le> a \<Longrightarrow> a < q \<Longrightarrow> m' a = m a"
  shows "events_at m' p es q"
  using assms
proof (induction es arbitrary: p)
  case (Cons e es)
  have rest: "events_at m (p + entry_size e) es q" and e: "holds m p e"
    using Cons.prems(1) by simp_all
  have "p + entry_size e \<le> q"
    using events_at_span [OF rest] by simp
  then have "holds m' p e"
    using Cons.prems(2) by (intro holds_frame [OF e]) simp
  moreover have "events_at m' (p + entry_size e) es q"
    using Cons.prems(2) by (intro Cons.IH [OF rest]) simp
  ultimately show ?case
    by simp
qed simp

lemma holds_not_terminator: "holds m p e \<Longrightarrow> event_length m p \<noteq> 0"
  by (auto simp: holds_def fits_def)

lemma set_event_length_get: "n < 65536 \<Longrightarrow> event_length (set_event_length p n m) p = n"
proof -
  assume "n < 65536"
  then have "n div 256 mod 256 = n div 256"
    by (simp add: less_mult_imp_div_less)
  then show ?thesis
    by (simp add: event_length_def set_event_length_def)
qed

lemma set_event_length_other [simp]: "a \<noteq> p \<Longrightarrow> a \<noteq> p + 1 \<Longrightarrow> set_event_length p n m a = m a"
  by (simp add: set_event_length_def)

section \<open>Invariant\<close>

definition one_lap :: "log_state \<Rightarrow> log_entry list \<Rightarrow> bool" where
  "one_lap s live \<longleftrightarrow> tail_ptr s = 0 \<and> events_at (ring s) 0 live (write_ptr s)"

text \<open>The oldest events are those left of the previous lap, up to a terminator.\<close>

definition two_laps :: "log_state \<Rightarrow> log_entry list \<Rightarrow> log_entry list \<Rightarrow> nat \<Rightarrow> bool" where
  "two_laps s old new t \<longleftrightarrow> old \<noteq> [] \<and> events_at (ring s) (tail_ptr s) old t \<and> event_length (ring s) t = 0 \<and>
     RING_BUFFER_SIZE - REDZONE_SIZE < t \<and> t \<le> RING_BUFFER_SIZE - 4 \<and> events_at (ring s) 0 new (write_ptr s) \<and>
     write_ptr s \<le> tail_ptr s"

definition log_ok :: "log_state \<Rightarrow> log_entry list \<Rightarrow> bool" where
  "log_ok s all \<longleftrightarrow> write_id s = length all \<and> (all = [] \<and> tail_id s = 0 \<or> tail_id s < length all) \<and>
     write_ptr s \<le> RING_BUFFER_SIZE - 4 \<and>
     (one_lap s (drop (tail_id s) all) \<or> (\<exists>old new t. drop (tail_id s) all = old @ new \<and> two_laps s old new t))"

lemmas ring_sizes = RING_BUFFER_SIZE_def REDZONE_SIZE_def LOG_MAX_LENGTH_def

abbreviation moved_tail :: "nat \<Rightarrow> nat \<Rightarrow> log_state \<Rightarrow> log_state" where
  "moved_tail p i s \<equiv> s\<lparr>tail_ptr := p, tail_id := i\<rparr>"

section \<open>Moving the tail\<close>

lemma one_lap_outside:
  assumes "log_ok s all" and "one_lap s (drop (tail_id s) all)" and "write_id s \<noteq> 0"
  shows "\<not> pointer_is_in_redzone s (tail_ptr s)"
proof -
  have "drop (tail_id s) all \<noteq> []"
    using assms(1,3) by (auto simp: log_ok_def)
  then have "0 < write_ptr s"
    using assms(2) events_at_span [of "ring s" 0 "drop (tail_id s) all" "write_ptr s"]
    by (cases "drop (tail_id s) all") (auto simp: one_lap_def)
  then show ?thesis
    using assms(2) by (simp add: pointer_is_in_redzone_def one_lap_def)
qed

lemma tail_go_next_holds:
  assumes "holds (ring s) (tail_ptr s) e"
  shows "tail_go_next s = moved_tail (tail_ptr s + entry_size e) (tail_id s + 1) s"
  using assms by (simp add: tail_go_next_def holds_def entry_size_def)

lemma push_tail_loop_outside: "\<not> pointer_is_in_redzone s (tail_ptr s) \<Longrightarrow> push_tail_loop n s = Inr s"
  by (cases n) simp_all

lemma moved_tail_start: "(moved_tail p i s)\<lparr>tail_ptr := q\<rparr> = moved_tail q i s" for s :: log_state
  by (cases s) simp

definition pushed :: "log_state \<Rightarrow> log_entry list \<Rightarrow> log_state \<Rightarrow> bool" where
  "pushed s all s' \<longleftrightarrow> (\<exists>p i. s' = moved_tail p i s \<and> tail_id s \<le> i \<and> (i = tail_id s \<longrightarrow> p = tail_ptr s)) \<and> log_ok s' all \<and>
     \<not> pointer_is_in_redzone s' (tail_ptr s')"

lemma pushed_refl: "log_ok s all \<Longrightarrow> \<not> pointer_is_in_redzone s (tail_ptr s) \<Longrightarrow> pushed s all s"
  unfolding pushed_def by (intro conjI exI [of _ "tail_ptr s"] exI [of _ "tail_id s"]) simp_all

lemma pushed_trans:
  assumes "pushed (moved_tail p i s) all s'" and "tail_id s < i"
  shows "pushed s all s'"
proof -
  obtain q j where "s' = moved_tail q j (moved_tail p i s)" "i \<le> j"
    using assms(1) by (auto simp: pushed_def)
  then show ?thesis
    using assms unfolding pushed_def by (intro conjI exI [of _ q] exI [of _ j]) simp_all
qed

text \<open>The last event of the previous lap is never in the way of an event at the start.\<close>

lemma last_old_event:
  assumes "two_laps s [e] new t" and "pointer_is_in_redzone s (tail_ptr s)"
  shows "0 < write_ptr s" and "new \<noteq> []"
proof -
  have "fits e" "tail_ptr s + entry_size e = t"
    using assms(1) by (auto simp: two_laps_def holds_def)
  then have "t \<le> tail_ptr s + 484"
    using entry_size_bounds [of e] by simp
  moreover have "RING_BUFFER_SIZE - REDZONE_SIZE < t"
    using assms(1) by (simp add: two_laps_def)
  ultimately show "0 < write_ptr s"
    using assms(2) by (auto simp: pointer_is_in_redzone_def ring_sizes)
  then show "new \<noteq> []"
    using assms(1) by (auto simp: two_laps_def)
qed

lemma push_tail_loop_ok:
  assumes "log_ok s all" and "drop (tail_id s) all = old @ new" and "two_laps s old new t" and "length old \<le> n"
  shows "\<exists>s'. push_tail_loop n s = Inr s' \<and> pushed s all s'"
  using assms
proof (induction n arbitrary: s old)
  case 0
  then show ?case
    by (simp add: two_laps_def)
next
  case (Suc n)
  show ?case
  proof (cases "pointer_is_in_redzone s (tail_ptr s)")
    case False
    then show ?thesis
      using pushed_refl [OF Suc.prems(1)] by simp
  next
    case True
    obtain e old' where old: "old = e # old'"
      using Suc.prems(3) by (cases old) (auto simp: two_laps_def)
    let ?p = "tail_ptr s + entry_size e" and ?i = "tail_id s + 1"
    have e: "holds (ring s) (tail_ptr s) e" and rest: "events_at (ring s) ?p old' t"
      using Suc.prems(3) old by (auto simp: two_laps_def)
    have live: "drop ?i all = old' @ new"
      using Suc.prems(2) old by (metis append_Cons drop_Suc list.sel(3) tl_drop Suc_eq_plus1)
    have next_tail: "tail_go_next s = moved_tail ?p ?i s"
      by (rule tail_go_next_holds [OF e])
    show ?thesis
    proof (cases old')
      case Nil
      then have new: "0 < write_ptr s" "new \<noteq> []"
        using last_old_event [of s e new t] Suc.prems(3) True old by simp_all
      have "is_at_terminator (moved_tail ?p ?i s) ?p"
        using Nil rest Suc.prems(3) by (simp add: is_at_terminator_def two_laps_def)
      moreover have "pushed s all (moved_tail 0 ?i s)"
      proof -
        have "tail_id s + 1 < length all"
          using live new(2) Nil by (metis append_Nil drop_eq_Nil2 not_le)
        then have "log_ok (moved_tail 0 ?i s) all"
          using Suc.prems(1,3) live Nil by (simp add: log_ok_def one_lap_def two_laps_def)
        moreover have "\<not> pointer_is_in_redzone (moved_tail 0 ?i s) 0"
          using new(1) by (simp add: pointer_is_in_redzone_def)
        ultimately show ?thesis
          unfolding pushed_def by (intro conjI exI [of _ 0] exI [of _ ?i]) simp_all
      qed
      moreover have "push_tail_loop n (moved_tail 0 ?i s) = Inr (moved_tail 0 ?i s)"
        using new(1) by (intro push_tail_loop_outside) (simp add: pointer_is_in_redzone_def)
      ultimately show ?thesis
        using True by (simp add: Let_def next_tail moved_tail_start del: log_state.update_convs)
    next
      case (Cons f fs)
      then have "\<not> is_at_terminator (moved_tail ?p ?i s) ?p"
        using rest holds_not_terminator [of "ring s" ?p f] by (simp add: is_at_terminator_def)
      moreover have laps: "two_laps (moved_tail ?p ?i s) old' new t"
        using Suc.prems(3) rest Cons by (simp add: two_laps_def)
      moreover have "log_ok (moved_tail ?p ?i s) all"
      proof -
        have "tail_id s + 1 < length all"
          using live Cons by (metis append_is_Nil_conv drop_eq_Nil2 list.discI not_le)
        then show ?thesis
          using Suc.prems(1) live laps by (auto simp: log_ok_def)
      qed
      ultimately obtain s' where "push_tail_loop n (moved_tail ?p ?i s) = Inr s'" "pushed (moved_tail ?p ?i s) all s'"
        using Suc.IH [of "moved_tail ?p ?i s" old'] live Suc.prems(4) old by auto
      then show ?thesis
        using True next_tail \<open>\<not> is_at_terminator (moved_tail ?p ?i s) ?p\<close> pushed_trans [where p = ?p and i = ?i and s = s and s' = s' and all = all] by (simp add: Let_def)
    qed
  qed
qed

lemma push_tail_ok:
  assumes "log_ok s all" and "write_id s \<noteq> 0"
  shows "\<exists>s'. push_tail s = Inr s' \<and> pushed s all s'"
proof (cases "one_lap s (drop (tail_id s) all)")
  case True
  then have "\<not> pointer_is_in_redzone s (tail_ptr s)"
    using one_lap_outside assms by blast
  then show ?thesis
    using pushed_refl [OF assms(1)] by (simp add: push_tail_def push_tail_loop_outside)
next
  case False
  then obtain old new t where l: "drop (tail_id s) all = old @ new" "two_laps s old new t"
    using assms(1) by (auto simp: log_ok_def)
  have "length old \<le> RING_BUFFER_SIZE"
    using l(2) events_at_span [of "ring s" "tail_ptr s" old t] by (auto simp: two_laps_def ring_sizes)
  then show ?thesis
    unfolding push_tail_def using push_tail_loop_ok [OF assms(1) l] by blast
qed

section \<open>Writing an event\<close>

definition message_ok :: "string \<Rightarrow> va_value list \<Rightarrow> bool" where
  "message_ok format args =
     (case render format args of Inl _ \<Rightarrow> False | Inr t \<Rightarrow> 1 \<le> length t \<and> length t \<le> LOG_MAX_LENGTH)"

definition message_text :: "string \<Rightarrow> va_value list \<Rightarrow> string" where
  "message_text format args = (case render format args of Inl _ \<Rightarrow> [] | Inr t \<Rightarrow> t)"

text \<open>The memory after an event has been written at an address.\<close>

definition stored :: "nat \<Rightarrow> log_entry \<Rightarrow> (nat \<Rightarrow> char) \<Rightarrow> nat \<Rightarrow> char" where
  "stored p e m = set_event_length p (length (snd (snd e)))
     (put (snd (snd e) @ [CHR 0x00]) (p + 4) (m(p + 2 := fst e, p + 3 := fst (snd e))))"

lemma put_outside: "a < p \<or> p + length w \<le> a \<Longrightarrow> put w p m a = m a"
  by (auto simp: put_def)

lemma stored_outside:
  assumes "fits e" and "a < p \<or> p + REDZONE_SIZE \<le> a"
  shows "stored p e m a = m a"
proof -
  have "length (snd (snd e)) \<le> 480"
    using assms(1) by (simp add: fits_def LOG_MAX_LENGTH_def)
  then have "put (snd (snd e) @ [CHR 0x00]) (p + 4) (m(p + 2 := fst e, p + 3 := fst (snd e))) a = m a"
    using assms(2) by (subst put_outside) (auto simp: ring_sizes)
  then show ?thesis
    using assms(2) by (auto simp: stored_def ring_sizes)
qed

lemma stored_holds:
  assumes "fits e"
  shows "holds (stored p e m) p e"
proof -
  let ?t = "snd (snd e)"
  have len: "event_length (stored p e m) p = length ?t"
    using assms by (simp add: stored_def set_event_length_get fits_def LOG_MAX_LENGTH_def)
  have chars: "stored p e m (p + 4 + i) = ?t ! i" if "i < length ?t" for i
    using that by (simp add: stored_def put_def nth_append)
  have "stored p e m (p + 2) = fst e" "stored p e m (p + 3) = fst (snd e)"
    by (simp_all add: stored_def put_def)
  moreover have "map (\<lambda>i. stored p e m (p + 4 + i)) [0..<length ?t] = ?t"
    using chars by (intro nth_equalityI) simp_all
  ultimately show ?thesis
    using assms len by (simp add: holds_def event_entry_def)
qed

definition written_event :: "log_entry \<Rightarrow> log_state \<Rightarrow> log_state" where
  "written_event e s = s\<lparr>ring := stored (write_ptr s) e (ring s), write_ptr := write_ptr s + entry_size e, write_id := write_id s + 1\<rparr>"

lemma write_event_ok:
  assumes "log_ok s all" and "fits e" and "write_ptr s + REDZONE_SIZE \<le> RING_BUFFER_SIZE"
    and "write_id s \<noteq> 0 \<Longrightarrow> \<not> pointer_is_in_redzone s (tail_ptr s)"
  shows "log_ok (written_event e s) (all @ [e])"
proof -
  let ?s = "written_event e s"
  have size: "entry_size e \<le> 484"
    using entry_size_bounds [OF assms(2)] by simp
  have e: "holds (ring ?s) (write_ptr s) e"
    using stored_holds [OF assms(2)] by (simp add: written_event_def)
  have frame: "ring ?s a = ring s a" if "a < write_ptr s \<or> write_ptr s + REDZONE_SIZE \<le> a" for a
    using stored_outside [OF assms(2) that] by (simp add: written_event_def)
  have extend: "events_at (ring ?s) 0 (live @ [e]) (write_ptr ?s)" if "events_at (ring s) 0 live (write_ptr s)" for live
    using events_at_frame [OF that, of "ring ?s"] frame e by (auto simp: events_at_append written_event_def)
  have basic: "write_id ?s = length (all @ [e])" "tail_id ?s < length (all @ [e])" "write_ptr ?s \<le> RING_BUFFER_SIZE - 4"
    using assms(1,3) size by (auto simp: log_ok_def written_event_def ring_sizes)
  have drop_all: "drop (tail_id ?s) (all @ [e]) = drop (tail_id s) all @ [e]"
    using assms(1) by (auto simp: log_ok_def written_event_def)
  show ?thesis
  proof (cases "one_lap s (drop (tail_id s) all)")
    case True
    then have "one_lap ?s (drop (tail_id ?s) (all @ [e]))"
      using extend drop_all by (simp add: one_lap_def) (simp add: written_event_def)
    then show ?thesis
      using basic by (simp add: log_ok_def)
  next
    case False
    then obtain old new t where l: "drop (tail_id s) all = old @ new" "two_laps s old new t"
      using assms(1) by (auto simp: log_ok_def)
    have "write_id s \<noteq> 0"
      using assms(1) l by (auto simp: log_ok_def two_laps_def)
    then have far: "write_ptr s + REDZONE_SIZE \<le> tail_ptr s"
      using assms(4) l(2) by (auto simp: pointer_is_in_redzone_def two_laps_def)
    have old: "events_at (ring s) (tail_ptr s) old t" and t: "event_length (ring s) t = 0"
      using l(2) by (simp_all add: two_laps_def)
    have above: "ring ?s a = ring s a" if "tail_ptr s \<le> a" for a
      using frame [of a] far that by simp
    have "tail_ptr s \<le> t"
      using events_at_span [OF old] by simp
    then have "event_length (ring ?s) t = 0"
      using t above [of t] above [of "t + 1"] by (simp add: event_length_def)
    moreover have "events_at (ring ?s) (tail_ptr s) old t"
      using above by (intro events_at_frame [OF old])
    ultimately have "two_laps ?s old (new @ [e]) t"
      using l(2) extend [of new] far size by (simp add: two_laps_def ring_sizes) (simp add: written_event_def)
    then show ?thesis
      using basic l(1) drop_all by (fastforce simp: log_ok_def)
  qed
qed

section \<open>Readers\<close>

lemma sync_loop_add: "sync_loop (a + b) s r = sync_loop b s (sync_loop a s r)"
  by (induction a arbitrary: r) (simp_all add: Let_def)

abbreviation caught_up :: "nat \<Rightarrow> nat \<Rightarrow> log_entry list \<Rightarrow> log_reader_t \<Rightarrow> log_reader_t" where
  "caught_up p i l r \<equiv> r\<lparr>read_ptr := p, read_id := i, logged := l\<rparr>"

lemma reader_order: "r\<lparr>logged := l, read_ptr := p, read_id := i\<rparr> = caught_up p i l r" for r :: log_reader_t
  by (cases r) simp

lemma sync_loop_events:
  assumes "events_at (ring s) (read_ptr r) es q"
  shows "sync_loop (length es) s r = caught_up q (read_id r + length es) (logged r @ es) r"
  using assms
proof (induction es arbitrary: r)
  case (Cons e es)
  let ?p = "read_ptr r"
  have e: "holds (ring s) ?p e"
    using Cons.prems by simp
  let ?r = "caught_up (?p + entry_size e) (read_id r + 1) (logged r @ [e]) r"
  have "sync_loop (length (e # es)) s r = sync_loop (length es) s ?r"
    using e holds_not_terminator [OF e]
    by (simp add: Let_def is_at_terminator_def read_go_next_def holds_def entry_size_def reader_order)
  then show ?case
    using Cons.IH [of ?r] Cons.prems by simp
qed simp

text \<open>From a terminator the reader continues at the start of the buffer.\<close>

lemma sync_loop_terminator:
  assumes "event_length (ring s) (read_ptr r) = 0" and "events_at (ring s) 0 es q" and "es \<noteq> []"
  shows "sync_loop (length es) s r = caught_up q (read_id r + length es) (logged r @ es) r"
proof -
  obtain e es' where es: "es = e # es'"
    using assms(3) by (cases es) simp_all
  then have e: "event_length (ring s) 0 \<noteq> 0"
    using assms(2) holds_not_terminator [of "ring s" 0 e] by simp
  have "sync_loop (length es) s r = sync_loop (length es) s (r\<lparr>read_ptr := 0\<rparr>)"
    using assms(1) e es by (simp add: Let_def is_at_terminator_def)
  then show ?thesis
    using sync_loop_events [of s "r\<lparr>read_ptr := 0\<rparr>" es q] assms(2) by simp
qed

lemma sync_loop_from_tail:
  assumes "log_ok s all" and "0 < write_ptr s" and "read_ptr r = tail_ptr s" and "read_id r = tail_id s"
  shows "sync_loop (write_id s - tail_id s) s r = caught_up (write_ptr s) (write_id s) (logged r @ drop (tail_id s) all) r"
proof -
  have ids: "write_id s = length all" "tail_id s \<le> length all"
    using assms(1) by (auto simp: log_ok_def)
  show ?thesis
  proof (cases "one_lap s (drop (tail_id s) all)")
    case True
    then have "events_at (ring s) (read_ptr r) (drop (tail_id s) all) (write_ptr s)"
      using assms(3) by (simp add: one_lap_def)
    then show ?thesis
      using sync_loop_events [of s r "drop (tail_id s) all" "write_ptr s"] ids assms(4) by simp
  next
    case False
    then obtain old new t where l: "drop (tail_id s) all = old @ new" "two_laps s old new t"
      using assms(1) by (auto simp: log_ok_def)
    let ?r = "caught_up t (read_id r + length old) (logged r @ old) r"
    have "sync_loop (length old) s r = ?r"
      using l(2) assms(3) by (intro sync_loop_events) (simp add: two_laps_def)
    moreover have "sync_loop (length new) s ?r = caught_up (write_ptr s) (read_id ?r + length new) (logged ?r @ new) ?r"
      using l(2) assms(2) by (intro sync_loop_terminator) (auto simp: two_laps_def)
    moreover have "write_id s - tail_id s = length old + length new" "read_id r + (length old + length new) = write_id s"
      using arg_cong [OF l(1), of length] ids assms(4) by simp_all
    ultimately show ?thesis
      using l(1) by (simp add: sync_loop_add add.assoc)
  qed
qed

text \<open>
  A reader has seen nothing and starts at or before the tail, or it has seen everything written so
  far since some event.
\<close>

definition fresh :: "log_state \<Rightarrow> log_reader_t \<Rightarrow> bool" where
  "fresh s r \<longleftrightarrow> logged r = [] \<and> (read_id r < tail_id s \<or> read_id r = tail_id s \<and> read_ptr r = tail_ptr s)"

definition synced :: "log_state \<Rightarrow> log_entry list \<Rightarrow> nat \<Rightarrow> log_reader_t \<Rightarrow> bool" where
  "synced s all j r \<longleftrightarrow> read_id r = write_id s \<and> read_ptr r = write_ptr s \<and> j \<le> length all \<and> logged r = drop j all"

lemma sync_fresh:
  assumes "log_ok s all" and "0 < write_ptr s" and "fresh s r"
  shows "synced s all (tail_id s) (sync_reader s r)"
proof -
  let ?r = "if read_id r < tail_id s then initialize_at_start s r else r"
  have r: "read_ptr ?r = tail_ptr s" "read_id ?r = tail_id s" "logged ?r = []"
    using assms(3) by (auto simp: fresh_def initialize_at_start_def)
  have "tail_id s \<le> length all"
    using assms(1) by (auto simp: log_ok_def)
  then show ?thesis
    using sync_loop_from_tail [OF assms(1,2) r(1,2)] r(2,3) by (simp add: sync_reader_def Let_def synced_def)
qed

text \<open>A reader that was up to date reads the new event, after the terminator if there is one.\<close>

lemma sync_synced:
  assumes "logged r = drop j all" and "j \<le> length all" and "read_id r = length all" and "write_id s = length all + 1"
    and "tail_id s \<le> length all" and "holds (ring s) q e" and "write_ptr s = q + entry_size e"
    and "read_ptr r = q \<or> event_length (ring s) (read_ptr r) = 0 \<and> q = 0"
  shows "synced s (all @ [e]) j (sync_reader s r)"
proof -
  have "sync_loop (length [e]) s r = caught_up (write_ptr s) (read_id r + length [e]) (logged r @ [e]) r"
  proof (cases "read_ptr r = q")
    case True
    then show ?thesis
      using assms(6,7) by (intro sync_loop_events) simp
  next
    case False
    then show ?thesis
      using assms(6,7,8) by (intro sync_loop_terminator) auto
  qed
  then show ?thesis
    using assms(1-5) by (simp add: sync_reader_def synced_def del: sync_loop.simps)
qed

end
