(* ===== verification/LoggingClaims.thy ===== *)
theory LoggingClaims
  imports LoggingProps
begin

text \<open>
  Properties of the kernel log: sequences of messages and registrations of readers.
\<close>

section \<open>Making room\<close>

definition make_room :: "log_state \<Rightarrow> log_state result" where
  "make_room s =
     bind_ok (if pointer_is_in_redzone s RING_BUFFER_SIZE
              then bind_ok (push_tail s) (\<lambda>s. Inr ((write_terminator s)\<lparr>write_ptr := 0\<rparr>))
              else Inr s) (\<lambda>s. if write_id s \<noteq> 0 then push_tail s else Inr s)"

definition room :: "log_state \<Rightarrow> log_entry list \<Rightarrow> log_state \<Rightarrow> bool" where
  "room s all s' \<longleftrightarrow> log_ok s' all \<and> write_id s' = write_id s \<and> readers s' = readers s \<and>
     (write_id s \<noteq> 0 \<longrightarrow> \<not> pointer_is_in_redzone s' (tail_ptr s')) \<and> write_ptr s' + REDZONE_SIZE \<le> RING_BUFFER_SIZE \<and>
     tail_id s \<le> tail_id s' \<and> (tail_id s' = tail_id s \<longrightarrow> tail_ptr s' = tail_ptr s) \<and>
     (write_ptr s' = write_ptr s \<or>
      write_ptr s' = 0 \<and> event_length (ring s') (write_ptr s) = 0 \<and> REDZONE_SIZE \<le> write_ptr s) \<and>
     (\<forall>a \<ge> RING_BUFFER_SIZE. ring s' a = ring s a)"

lemma pushed_keeps:
  assumes "pushed s all s'"
  shows "log_ok s' all" and "\<not> pointer_is_in_redzone s' (tail_ptr s')" and "ring s' = ring s" and "write_ptr s' = write_ptr s"
    and "write_id s' = write_id s" and "readers s' = readers s" and "tail_id s \<le> tail_id s'"
    and "tail_id s' = tail_id s \<Longrightarrow> tail_ptr s' = tail_ptr s"
  using assms by (auto simp: pushed_def)

lemma log_written: "log_ok s all \<Longrightarrow> 0 < write_ptr s \<Longrightarrow> write_id s \<noteq> 0"
  by (auto simp: log_ok_def one_lap_def two_laps_def)

lemma not_in_redzone_end:
  assumes "log_ok s all" and "\<not> pointer_is_in_redzone s RING_BUFFER_SIZE"
  shows "write_ptr s + REDZONE_SIZE \<le> RING_BUFFER_SIZE"
  using assms by (auto simp: log_ok_def pointer_is_in_redzone_def ring_sizes)

lemma wrap_ok:
  assumes "pushed s all s'" and "pointer_is_in_redzone s RING_BUFFER_SIZE"
  shows "log_ok ((write_terminator s')\<lparr>write_ptr := 0\<rparr>) all"
proof -
  note k = pushed_keeps [OF assms(1)]
  let ?w = "write_ptr s'" and ?u = "(write_terminator s')\<lparr>write_ptr := 0\<rparr>"
  have w: "RING_BUFFER_SIZE - REDZONE_SIZE < ?w" "?w \<le> RING_BUFFER_SIZE - 4"
    using assms(2) k(1,4) by (auto simp: pointer_is_in_redzone_def log_ok_def ring_sizes)
  have lap: "one_lap s' (drop (tail_id s') all)"
  proof (rule ccontr)
    assume "\<not> ?thesis"
    then obtain old new t where l: "two_laps s' old new t"
      using k(1) by (auto simp: log_ok_def)
    then have "tail_ptr s' \<le> t" "t \<le> RING_BUFFER_SIZE - 4" "?w \<le> tail_ptr s'"
      using events_at_span [of "ring s'" "tail_ptr s'" old t] by (simp_all add: two_laps_def)
    then show False
      using k(2) w by (simp add: pointer_is_in_redzone_def ring_sizes)
  qed
  then have live: "events_at (ring s') 0 (drop (tail_id s') all) ?w" "tail_ptr s' = 0"
    by (simp_all add: one_lap_def)
  have "events_at (ring ?u) 0 (drop (tail_id s') all) ?w"
    by (rule events_at_frame [OF live(1)]) (simp add: write_terminator_def)
  moreover have "event_length (ring ?u) ?w = 0"
    by (simp add: write_terminator_def set_event_length_get)
  moreover have "drop (tail_id s') all \<noteq> []"
    using live(1) w by (auto simp: ring_sizes)
  ultimately have "two_laps ?u (drop (tail_id s') all) [] ?w"
    using w live(2) by (simp add: two_laps_def write_terminator_def)
  then show ?thesis
    using k(1) by (auto simp: log_ok_def write_terminator_def)
qed

lemma make_room_ok:
  assumes "log_ok s all"
  shows "\<exists>s'. make_room s = Inr s' \<and> room s all s'"
proof (cases "pointer_is_in_redzone s RING_BUFFER_SIZE")
  case True
  then have w: "REDZONE_SIZE \<le> write_ptr s" "write_ptr s \<le> RING_BUFFER_SIZE - 4"
    using assms by (auto simp: pointer_is_in_redzone_def log_ok_def ring_sizes)
  have id: "write_id s \<noteq> 0"
    using log_written [OF assms] w by (simp add: ring_sizes)
  obtain s1 where s1: "push_tail s = Inr s1" "pushed s all s1"
    using push_tail_ok [OF assms id] by blast
  note k = pushed_keeps [OF s1(2)]
  let ?u = "(write_terminator s1)\<lparr>write_ptr := 0\<rparr>"
  have u: "log_ok ?u all" "write_id ?u = write_id s" "readers ?u = readers s"
    "tail_id ?u = tail_id s1" "tail_ptr ?u = tail_ptr s1" "write_ptr ?u = 0"
    using wrap_ok [OF s1(2) True] k by (simp_all add: write_terminator_def)
  obtain s2 where s2: "push_tail ?u = Inr s2" "pushed ?u all s2"
    using push_tail_ok [OF u(1)] u(2) id by auto
  note l = pushed_keeps [OF s2(2)]
  have "event_length (ring s2) (write_ptr s) = 0" "\<forall>a \<ge> RING_BUFFER_SIZE. ring s2 a = ring s a"
    using l(3) k(3,4) w(2) by (auto simp: write_terminator_def set_event_length_get ring_sizes)
  then have "room s all s2"
    using l k u w id unfolding room_def by (auto simp: ring_sizes)
  moreover have "make_room s = Inr s2"
    using True s1(1) s2(1) u(2) id by (simp add: make_room_def)
  ultimately show ?thesis
    by blast
next
  case False
  note far = not_in_redzone_end [OF assms False]
  show ?thesis
  proof (cases "write_id s = 0")
    case True
    then show ?thesis
      using False far assms by (simp add: make_room_def room_def)
  next
    case id: False
    obtain s1 where s1: "push_tail s = Inr s1" "pushed s all s1"
      using push_tail_ok [OF assms id] by blast
    then show ?thesis
      using False id far pushed_keeps [OF s1(2)] by (simp add: make_room_def room_def)
  qed
qed

section \<open>Messages\<close>

lemma log_message_make_room:
  "log_message loglevel facility format args s =
   bind_ok (make_room s) (\<lambda>s.
     bind_ok (vsnprintf (Some (write_ptr s + 4)) (LOG_MAX_LENGTH + 1) format args
       ((ring s)(write_ptr s + 2 := loglevel, write_ptr s + 3 := facility))) (\<lambda>(n, m).
     Inr (sync_all_readers (write_go_next (s\<lparr>ring := set_event_length (write_ptr s) (n mod 65536) m\<rparr>)))))"
  by (simp add: log_message_def make_room_def bind_refit Let_def)

lemma message_entry:
  assumes "message_ok format args"
  shows "render format args = Inr (message_text format args)" and "fits (loglevel, facility, message_text format args)"
  using assms by (auto simp: message_ok_def message_text_def fits_def split: sum.splits)

lemma write_message:
  assumes "message_ok format args" and "e = (loglevel, facility, message_text format args)"
  shows "bind_ok (vsnprintf (Some (write_ptr s + 4)) (LOG_MAX_LENGTH + 1) format args
      ((ring s)(write_ptr s + 2 := loglevel, write_ptr s + 3 := facility))) (\<lambda>(n, m).
      Inr (sync_all_readers (write_go_next (s\<lparr>ring := set_event_length (write_ptr s) (n mod 65536) m\<rparr>)))) =
    Inr (sync_all_readers (written_event e s))"
proof -
  let ?t = "message_text format args"
  note m = message_entry [OF assms(1)]
  have len: "length ?t \<le> 480"
    using m(2) by (simp add: fits_def LOG_MAX_LENGTH_def)
  then have "vsnprintf (Some (write_ptr s + 4)) (LOG_MAX_LENGTH + 1) format args
      ((ring s)(write_ptr s + 2 := loglevel, write_ptr s + 3 := facility)) =
    Inr (length ?t, put (?t @ [CHR 0x00]) (write_ptr s + 4) ((ring s)(write_ptr s + 2 := loglevel, write_ptr s + 3 := facility)))"
    using vsnprintf_buffer [OF m(1)] by (simp add: LOG_MAX_LENGTH_def)
  then show ?thesis
    using len by (simp add: write_go_next_def written_event_def stored_def assms(2) entry_size_def set_event_length_get)
qed

lemma log_ok_readers [simp]: "log_ok (s\<lparr>readers := x\<rparr>) all = log_ok s all"
  by (simp add: log_ok_def one_lap_def two_laps_def)

lemma synced_readers [simp]: "synced (s\<lparr>readers := x\<rparr>) all j r = synced s all j r"
  by (simp add: synced_def)

text \<open>What a step of the log does to a reader.\<close>

definition advances :: "log_state \<Rightarrow> log_entry list \<Rightarrow> log_state \<Rightarrow> log_entry list \<Rightarrow> log_reader_t \<Rightarrow> log_reader_t \<Rightarrow> bool" where
  "advances s all s' all' r r' \<longleftrightarrow>
     (\<forall>j. synced s all j r \<longrightarrow> synced s' all' j r') \<and>
     (fresh s r \<longrightarrow> (if all' = all then fresh s' r' else (\<exists>j \<le> length all. synced s' all' j r')))"

lemma reader_after_message:
  assumes "room s all u" and "write_id s = length all" and "fits e"
  shows "advances s all (sync_all_readers (written_event e u)) (all @ [e]) r (sync_reader (written_event e u) r)"
proof -
  let ?w = "written_event e u"
  have u: "log_ok u all" "write_ptr u + REDZONE_SIZE \<le> RING_BUFFER_SIZE" "write_id u \<noteq> 0 \<Longrightarrow> \<not> pointer_is_in_redzone u (tail_ptr u)"
    "write_id u = length all"
    using assms(1,2) by (simp_all add: room_def)
  have ok: "log_ok ?w (all @ [e])"
    by (rule write_event_ok [OF u(1) assms(3) u(2,3)])
  have tail: "tail_id ?w = tail_id u" "tail_ptr ?w = tail_ptr u" "tail_id u \<le> length all"
    using u(1) by (auto simp: written_event_def log_ok_def)
  have pos: "0 < write_ptr ?w"
    using entry_size_bounds [OF assms(3)] by (simp add: written_event_def)
  have "synced ?w (all @ [e]) j (sync_reader ?w r)" if "synced s all j r" for j
  proof (rule sync_synced [where q = "write_ptr u"])
    show "holds (ring ?w) (write_ptr u) e"
      using stored_holds [OF assms(3)] by (simp add: written_event_def)
    have r: "read_ptr r = write_ptr s"
      using that by (simp add: synced_def)
    show "read_ptr r = write_ptr u \<or> event_length (ring ?w) (read_ptr r) = 0 \<and> write_ptr u = 0"
    proof (cases "write_ptr u = write_ptr s")
      case False
      then have z: "write_ptr u = 0" "event_length (ring u) (write_ptr s) = 0" "REDZONE_SIZE \<le> write_ptr s"
        using assms(1) by (auto simp: room_def)
      have "ring ?w a = ring u a" if "REDZONE_SIZE \<le> a" for a
        using stored_outside [OF assms(3), of a 0 "ring u"] that z(1) by (simp add: written_event_def)
      then have "event_length (ring ?w) (write_ptr s) = 0"
        using z(2,3) by (simp add: event_length_def)
      then show ?thesis
        using r z(1) by simp
    qed (simp add: r)
  qed (use that assms(2) u(4) tail in \<open>simp_all add: synced_def written_event_def\<close>)
  moreover have "fresh s r \<Longrightarrow> fresh ?w r"
    using assms(1) unfolding fresh_def room_def tail by linarith
  then have "fresh s r \<Longrightarrow> synced ?w (all @ [e]) (tail_id ?w) (sync_reader ?w r)"
    using sync_fresh [OF ok pos] by blast
  then have "fresh s r \<Longrightarrow> \<exists>j \<le> length all. synced ?w (all @ [e]) j (sync_reader ?w r)"
    using tail by auto
  ultimately show ?thesis
    by (simp add: advances_def sync_all_readers_def)
qed

definition log_step :: "log_state \<Rightarrow> log_entry list \<Rightarrow> log_state \<Rightarrow> log_entry list \<Rightarrow> bool" where
  "log_step s all s' all' \<longleftrightarrow> log_ok s' all' \<and> (\<forall>a \<ge> RING_BUFFER_SIZE. ring s' a = ring s a) \<and>
     length (readers s) \<le> length (readers s') \<and>
     (\<forall>i < length (readers s). advances s all s' all' (readers s ! i) (readers s' ! i))"

lemma log_message_step:
  assumes "log_ok s all" and "message_ok format args"
  shows "\<exists>s'. log_message loglevel facility format args s = Inr s' \<and> length (readers s') = length (readers s) \<and>
    log_step s all s' (all @ [(loglevel, facility, message_text format args)])"
proof -
  obtain u where u: "make_room s = Inr u" "room s all u"
    using make_room_ok [OF assms(1)] by blast
  let ?e = "(loglevel, facility, message_text format args)"
  let ?w = "written_event ?e u"
  have e: "fits ?e"
    by (rule message_entry [OF assms(2)])
  have "log_message loglevel facility format args s = Inr (sync_all_readers ?w)"
    using write_message [OF assms(2) refl, of u] by (simp add: log_message_make_room u(1))
  moreover have "log_ok ?w (all @ [?e])"
    using u(2) e by (intro write_event_ok) (simp_all add: room_def)
  moreover have "\<forall>a \<ge> RING_BUFFER_SIZE. ring ?w a = ring s a"
    using u(2) stored_outside [OF e, of _ "write_ptr u" "ring u"] by (auto simp: room_def written_event_def)
  moreover have "readers ?w = readers s"
    using u(2) by (simp add: room_def written_event_def)
  moreover have "write_id s = length all"
    using assms(1) by (simp add: log_ok_def)
  moreover have "\<forall>i < length (readers s). advances s all (sync_all_readers ?w) (all @ [?e]) (readers s ! i) (sync_reader ?w (readers s ! i))"
    using reader_after_message [OF u(2) \<open>write_id s = length all\<close> e] by blast
  ultimately show ?thesis
    by (simp add: log_step_def sync_all_readers_def)
qed

section \<open>Sequences\<close>

datatype log_op = Log_message char char string "va_value list" | Register_reader

fun run_log :: "log_op list \<Rightarrow> log_state \<Rightarrow> log_state result" where
  "run_log [] s = Inr s"
| "run_log (Log_message loglevel facility format args # ops) s =
     bind_ok (log_message loglevel facility format args s) (run_log ops)"
| "run_log (Register_reader # ops) s = run_log ops (register_log_reader (initialize_log_reader s) s)"

fun op_ok :: "log_op \<Rightarrow> bool" where
  "op_ok (Log_message loglevel facility format args) = message_ok format args"
| "op_ok Register_reader = True"

fun entries_of :: "log_op list \<Rightarrow> log_entry list" where
  "entries_of [] = []"
| "entries_of (Log_message loglevel facility format args # ops) =
     (loglevel, facility, message_text format args) # entries_of ops"
| "entries_of (Register_reader # ops) = entries_of ops"

fun registrations :: "log_op list \<Rightarrow> nat" where
  "registrations [] = 0"
| "registrations (Log_message loglevel facility format args # ops) = registrations ops"
| "registrations (Register_reader # ops) = registrations ops + 1"

lemma run_log_append: "run_log (xs @ ys) s = bind_ok (run_log xs s) (run_log ys)"
  by (induction xs s rule: run_log.induct) (simp_all add: bind_refit cong: bind_ok_cong)

lemma entries_of_append [simp]: "entries_of (xs @ ys) = entries_of xs @ entries_of ys"
  by (induction xs rule: entries_of.induct) simp_all

lemma advances_trans:
  assumes "advances s all s' (all @ xs) r r'" and "advances s' (all @ xs) s'' (all @ xs @ ys) r' r''"
  shows "advances s all s'' (all @ xs @ ys) r r''"
proof -
  have sync: "synced s'' (all @ xs @ ys) j r''" if "synced s' (all @ xs) j r'" for j
    using assms(2) that by (simp add: advances_def)
  show ?thesis
  proof (cases "xs = []")
    case True
    then show ?thesis
      using assms sync by (simp add: advances_def)
  next
    case False
    then have "\<exists>j \<le> length all. synced s'' (all @ xs @ ys) j r''" if "fresh s r"
      using assms(1) sync that by (auto simp: advances_def)
    moreover have "synced s'' (all @ xs @ ys) j r''" if "synced s all j r" for j
      using assms(1) sync that by (simp add: advances_def)
    ultimately show ?thesis
      using False by (simp add: advances_def)
  qed
qed

lemma log_step_trans:
  assumes "log_step s all s' (all @ xs)" and "log_step s' (all @ xs) s'' (all @ xs @ ys)"
  shows "log_step s all s'' (all @ xs @ ys)"
proof -
  have "advances s all s'' (all @ xs @ ys) (readers s ! i) (readers s'' ! i)" if "i < length (readers s)" for i
    using assms that advances_trans [of s all s' xs "readers s ! i" "readers s' ! i" s'' ys "readers s'' ! i"]
    by (simp add: log_step_def)
  then show ?thesis
    using assms by (simp add: log_step_def)
qed

lemma advances_register: "advances s all (register_log_reader x s) all r r"
  by (simp add: advances_def register_log_reader_def synced_def fresh_def)

lemma register_step: "log_ok s all \<Longrightarrow> log_step s all (register_log_reader x s) all"
  using advances_register [of s all x] by (simp add: log_step_def register_log_reader_def nth_append)

lemma log_step_refl: "log_ok s all \<Longrightarrow> log_step s all s all"
  by (simp add: log_step_def advances_def)

lemma run_log_step:
  assumes "log_ok s all" and "list_all op_ok ops"
  shows "\<exists>s'. run_log ops s = Inr s' \<and> length (readers s') = length (readers s) + registrations ops \<and>
    log_step s all s' (all @ entries_of ops)"
  using assms
proof (induction ops s arbitrary: all rule: run_log.induct)
  case (1 s)
  then show ?case
    using log_step_refl by simp
next
  case (2 loglevel facility format args ops s)
  let ?e = "(loglevel, facility, message_text format args)"
  obtain s1 where s1: "log_message loglevel facility format args s = Inr s1" "length (readers s1) = length (readers s)"
      "log_step s all s1 (all @ [?e])"
    using log_message_step [OF "2.prems"(1), of format args loglevel facility] "2.prems"(2) by auto
  obtain s2 where "run_log ops s1 = Inr s2" "length (readers s2) = length (readers s1) + registrations ops"
      "log_step s1 (all @ [?e]) s2 ((all @ [?e]) @ entries_of ops)"
    using "2.IH" [of s1 "all @ [?e]"] s1 "2.prems"(2) by (auto simp: log_step_def)
  then show ?case
    using s1 log_step_trans [of s all s1 "[?e]" s2 "entries_of ops"] by simp
next
  case (3 ops s)
  let ?s = "register_log_reader (initialize_log_reader s) s"
  obtain s2 where "run_log ops ?s = Inr s2" "length (readers s2) = length (readers ?s) + registrations ops"
      "log_step ?s all s2 (all @ entries_of ops)"
    using "3.IH" [of all] register_step [OF "3.prems"(1)] "3.prems"(2) by (auto simp: log_step_def)
  then show ?case
    using log_step_trans [of s all ?s "[]" s2 "entries_of ops"] register_step [OF "3.prems"(1), of "initialize_log_reader s"]
    by (simp add: register_log_reader_def)
qed

lemma initial_log_ok: "log_ok (initial_log m) []"
  by (simp add: log_ok_def initial_log_def one_lap_def)

lemma new_reader_fresh:
  "fresh (register_log_reader (initialize_log_reader s) s) (initialize_log_reader s)"
  by (simp add: fresh_def initialize_log_reader_def initialize_at_start_def register_log_reader_def)

section \<open>Empty messages\<close>

text \<open>A message without characters leaves an event that looks like a terminator.\<close>

lemma empty_message:
  assumes "log_ok s all" and "one_lap s all" and "tail_id s = 0" and "all \<noteq> []" and "render format args = Inr []"
    and "write_ptr s + REDZONE_SIZE \<le> RING_BUFFER_SIZE"
  shows "\<exists>u. log_message loglevel facility format args s = Inr (sync_all_readers u) \<and> readers u = readers s \<and>
    write_id u = length all + 1 \<and> tail_id u = 0 \<and> event_length (ring u) (write_ptr s) = 0 \<and>
    (\<forall>a < write_ptr s. ring u a = ring s a)"
proof -
  let ?p = "write_ptr s"
  have id: "write_id s = length all" "write_id s \<noteq> 0"
    using assms(1,4) by (auto simp: log_ok_def)
  have "\<not> pointer_is_in_redzone s RING_BUFFER_SIZE"
    using assms(6) by (simp add: pointer_is_in_redzone_def)
  moreover have "\<not> pointer_is_in_redzone s (tail_ptr s)"
    using one_lap_outside [OF assms(1)] assms(2,3) id(2) by simp
  ultimately have room: "make_room s = Inr s"
    using id(2) by (simp add: make_room_def push_tail_def push_tail_loop_outside)
  let ?m = "(ring s)(?p + 2 := loglevel, ?p + 3 := facility)"
  let ?u = "write_go_next (s\<lparr>ring := set_event_length ?p 0 (put [CHR 0x00] (?p + 4) ?m)\<rparr>)"
  have "vsnprintf (Some (?p + 4)) (LOG_MAX_LENGTH + 1) format args ?m = Inr (0, put [CHR 0x00] (?p + 4) ?m)"
    using vsnprintf_buffer [OF assms(5)] by simp
  then have "log_message loglevel facility format args s = Inr (sync_all_readers ?u)"
    by (simp add: log_message_make_room room)
  moreover have "\<forall>a < ?p. ring ?u a = ring s a"
    by (simp add: write_go_next_def put_outside)
  moreover have "event_length (ring ?u) ?p = 0" "readers ?u = readers s" "write_id ?u = length all + 1" "tail_id ?u = 0"
    using id assms(3) by (simp_all add: write_go_next_def set_event_length_get)
  ultimately show ?thesis
    by blast
qed

lemma first_message:
  assumes "message_ok format args" and "e = (loglevel, facility, message_text format args)"
  shows "\<exists>s. run_log [Register_reader, Log_message loglevel facility format args] (initial_log m) = Inr s \<and> log_ok s [e] \<and>
    one_lap s [e] \<and> tail_id s = 0 \<and> write_ptr s = entry_size e \<and> (\<exists>r. readers s = [r] \<and> synced s [e] 0 r)"
proof -
  have e: "fits e"
    using message_entry [OF assms(1)] assms(2) by simp
  let ?s = "register_log_reader (initialize_log_reader (initial_log m)) (initial_log m)"
  have ok: "log_ok ?s []"
    by (simp add: log_ok_def register_log_reader_def initial_log_def one_lap_def)
  have init: "write_ptr ?s = 0" "tail_ptr ?s = 0" "tail_id ?s = 0" "write_id ?s = 0" "readers ?s = [initialize_log_reader (initial_log m)]"
    by (simp_all add: register_log_reader_def initial_log_def)
  have room: "make_room ?s = Inr ?s"
    using init by (simp add: make_room_def pointer_is_in_redzone_def ring_sizes)
  let ?w = "written_event e ?s"
  have run: "run_log [Register_reader, Log_message loglevel facility format args] (initial_log m) = Inr (sync_all_readers ?w)"
    using write_message [OF assms, of ?s] by (simp add: log_message_make_room room)
  have "log_ok ?w ([] @ [e])"
    using ok e init by (intro write_event_ok) (simp_all add: ring_sizes)
  then have w: "log_ok ?w [e]"
    by simp
  have "holds (ring ?w) 0 e"
    using stored_holds [OF e, of 0] init by (simp add: written_event_def)
  then have lap: "one_lap ?w [e]"
    using init by (simp add: one_lap_def written_event_def)
  have "synced ?w [e] (tail_id ?w) (sync_reader ?w (initialize_log_reader (initial_log m)))"
    using entry_size_bounds [OF e] init w
    by (intro sync_fresh) (simp_all add: written_event_def fresh_def initialize_log_reader_def initialize_at_start_def initial_log_def)
  then show ?thesis
    using run w lap init
    by (intro exI [of _ "sync_all_readers ?w"]) (simp add: sync_all_readers_def written_event_def one_lap_def)
qed

section \<open>Claims\<close>

text \<open>
  Claim C34. A reader of the kernel log gets the messages in order, complete and each of them once: in
  every sequence of messages of 1 to 480 characters and registrations of readers, a reader has
  received, after the first message that follows its registration, a suffix of all the messages that
  contains at least every message since its registration. The sequence always completes.
\<close>

theorem log_reader_gets_suffix:
  assumes "list_all op_ok pre" and "list_all op_ok post" and "entries_of post \<noteq> []"
  shows "\<exists>s j. run_log (pre @ Register_reader # post) (initial_log m) = Inr s \<and> j \<le> length (entries_of pre) \<and>
    logged (readers s ! registrations pre) = drop j (entries_of (pre @ post))"
proof -
  obtain s1 where s1: "run_log pre (initial_log m) = Inr s1" "length (readers s1) = registrations pre"
      "log_step (initial_log m) [] s1 (entries_of pre)"
    using run_log_step [OF initial_log_ok [of m] assms(1)] by (auto simp: initial_log_def)
  let ?s = "register_log_reader (initialize_log_reader s1) s1"
  have ok: "log_ok ?s (entries_of pre)"
    using s1(3) register_step [of s1 "entries_of pre"] by (simp add: log_step_def)
  obtain s2 where s2: "run_log post ?s = Inr s2" "log_step ?s (entries_of pre) s2 (entries_of pre @ entries_of post)"
    using run_log_step [OF ok assms(2)] by blast
  have "readers ?s ! registrations pre = initialize_log_reader s1" "registrations pre < length (readers ?s)"
    using s1(2) by (simp_all add: register_log_reader_def nth_append)
  then obtain j where "j \<le> length (entries_of pre)"
      "synced s2 (entries_of pre @ entries_of post) j (readers s2 ! registrations pre)"
    using s2(2) new_reader_fresh [of s1] assms(3) by (fastforce simp: log_step_def advances_def)
  then show ?thesis
    using s1(1) s2(1) by (intro exI [of _ s2] exI [of _ j]) (simp add: run_log_append synced_def)
qed

theorem log_reader_gets_suffix_witness:
  "\<exists>s. run_log [Register_reader, Log_message (CHR 0x06) (CHR 0x00) ''hi'' []] (initial_log (\<lambda>_. CHR ''z'')) = Inr s \<and>
    logged (readers s ! 0) = [(CHR 0x06, CHR 0x00, ''hi'')]"
proof -
  have r: "render ''hi'' [] = Inr ''hi''"
    by code_simp
  then have "list_all op_ok [Log_message (CHR 0x06) (CHR 0x00) ''hi'' []]"
    by (simp add: message_ok_def LOG_MAX_LENGTH_def)
  from log_reader_gets_suffix [of "[]", OF _ this, of "\<lambda>_. CHR ''z''"] show ?thesis
    using r by (simp add: message_text_def)
qed

text \<open>
  Claim C35. The log never writes outside its ring buffer: in every sequence of messages of 1 to 480
  characters and registrations of readers, memory at and after the end of the ring buffer is
  unchanged, and the loop that moves the tail ends.
\<close>

theorem log_stays_in_ring:
  assumes "list_all op_ok ops"
  shows "\<exists>s. run_log ops (initial_log m) = Inr s \<and> (\<forall>a \<ge> RING_BUFFER_SIZE. ring s a = m a) \<and> write_ptr s \<le> RING_BUFFER_SIZE - 4"
proof -
  obtain s where "run_log ops (initial_log m) = Inr s" "log_step (initial_log m) [] s (entries_of ops)"
    using run_log_step [OF initial_log_ok [of m] assms] by auto
  then show ?thesis
    by (intro exI [of _ s]) (simp add: log_step_def log_ok_def initial_log_def)
qed

theorem log_stays_in_ring_witness:
  "\<exists>s. run_log [Log_message (CHR 0x06) (CHR 0x00) ''hi'' []] (initial_log (\<lambda>_. CHR ''z'')) = Inr s \<and> ring s 65536 = CHR ''z''"
proof -
  have "render ''hi'' [] = Inr ''hi''"
    by code_simp
  then have "list_all op_ok [Log_message (CHR 0x06) (CHR 0x00) ''hi'' []]"
    by (simp add: message_ok_def LOG_MAX_LENGTH_def)
  from log_stays_in_ring [OF this, of "\<lambda>_. CHR ''z''"] show ?thesis
    unfolding RING_BUFFER_SIZE_def by auto
qed

text \<open>
  Claim C36. An empty message breaks the log: a reader that has received a first message and then
  meets a message without characters takes it for the terminator, goes back to the start of the ring
  buffer and receives the first message a second time.
\<close>

theorem empty_message_repeats_first:
  assumes "message_ok format args" and "e = (loglevel, facility, message_text format args)" and "render format' args' = Inr []"
  shows "\<exists>s. run_log [Register_reader, Log_message loglevel facility format args, Log_message loglevel' facility' format' args']
      (initial_log m) = Inr s \<and> map logged (readers s) = [[e, e]]"
proof -
  obtain s r where s: "run_log [Register_reader, Log_message loglevel facility format args] (initial_log m) = Inr s" "log_ok s [e]"
      "one_lap s [e]" "tail_id s = 0" "write_ptr s = entry_size e" "readers s = [r]" "synced s [e] 0 r"
    using first_message [OF assms(1,2), of m] by blast
  have e: "holds (ring s) 0 e" "fits e"
    using s(3) message_entry [OF assms(1)] assms(2) by (simp_all add: one_lap_def)
  obtain u where u: "log_message loglevel' facility' format' args' s = Inr (sync_all_readers u)" "readers u = readers s"
      "write_id u = length [e] + 1" "tail_id u = 0" "event_length (ring u) (write_ptr s) = 0" "\<forall>a < write_ptr s. ring u a = ring s a"
    using empty_message [OF s(2,3,4) _ assms(3), of loglevel' facility'] entry_size_bounds [OF e(2)] s(5) by (auto simp: ring_sizes)
  have "holds (ring u) 0 e"
    using u(6) s(5) by (intro holds_frame [OF e(1)]) simp
  then have "sync_loop (length [e]) u r = caught_up (entry_size e) (read_id r + length [e]) (logged r @ [e]) r"
    using s(7) u(5) by (intro sync_loop_terminator) (simp_all add: synced_def)
  then have "logged (sync_reader u r) = [e, e]"
    using s(2,7) u(3,4) by (simp add: sync_reader_def synced_def log_ok_def del: sync_loop.simps)
  then show ?thesis
    using s(1,6) u(1,2) run_log_append [of "[Register_reader, Log_message loglevel facility format args]"
        "[Log_message loglevel' facility' format' args']" "initial_log m"]
    by (intro exI [of _ "sync_all_readers u"]) (simp add: sync_all_readers_def)
qed

theorem empty_message_repeats_first_witness:
  "\<exists>s. run_log [Register_reader, Log_message (CHR 0x06) (CHR 0x00) ''hi'' [], Log_message (CHR 0x06) (CHR 0x10) ''%.*s'' [VInt 0, VStr (Some ''x'')]]
      (initial_log (\<lambda>_. CHR ''z'')) = Inr s \<and>
    map logged (readers s) = [[(CHR 0x06, CHR 0x00, ''hi''), (CHR 0x06, CHR 0x00, ''hi'')]]"
proof -
  have r: "render ''hi'' [] = Inr ''hi''" "render ''%.*s'' [VInt 0, VStr (Some ''x'')] = Inr []"
    by code_simp+
  then have "message_ok ''hi'' []" "message_text ''hi'' [] = ''hi''"
    by (simp_all add: message_ok_def message_text_def LOG_MAX_LENGTH_def)
  then show ?thesis
    using empty_message_repeats_first [OF _ refl r(2), of "''hi''" "[]"] by simp
qed

end
