(* ===== verification/Elf.thy ===== *)
theory Elf
  imports Cmdline
begin

text \<open>
  Loading the user space loader, \<open>kernel/infrastructure/elf.c\<close>: the checks on the header, the address
  of the program headers, the contents of a loadable segment, and the stack of the first process. The
  memory of the process is indexed by virtual addresses, one character per byte. The page tables are
  the subject of another theory: here the pages of the segments and of the stack are mapped.
\<close>

type_synonym memory = "nat \<Rightarrow> char"

section \<open>Headers\<close>

record Elf32_Ehdr =
  e_ident :: "nat list"
  e_type :: nat
  e_machine :: nat
  e_version :: nat
  e_entry :: nat
  e_phoff :: nat
  e_flags :: nat
  e_phentsize :: nat
  e_phnum :: nat

record Elf32_Phdr =
  p_type :: nat
  p_offset :: nat
  p_vaddr :: nat
  p_filesz :: nat
  p_memsz :: nat
  p_flags :: nat

text \<open>The message of the first check that fails.\<close>

definition elf_check :: "Elf32_Ehdr \<Rightarrow> string option" where
  "elf_check ehdr =
     (if e_ident ehdr ! 0 \<noteq> 0x7f \<or> e_ident ehdr ! 1 \<noteq> of_char (CHR ''E'') \<or> e_ident ehdr ! 2 \<noteq> of_char (CHR ''L'') \<or>
         e_ident ehdr ! 3 \<noteq> of_char (CHR ''F'') then Some ''not an ELF binary (ELF identification/magic check)''
      else if e_ident ehdr ! 4 \<noteq> 1 then Some ''bad file class''
      else if e_ident ehdr ! 5 \<noteq> 1 then Some ''bad endianess''
      else if e_version ehdr \<noteq> 1 \<or> e_ident ehdr ! 6 \<noteq> 1 then Some ''not ELF version 1''
      else if e_machine ehdr \<noteq> 3 then Some ''not for x86 architecture''
      else if e_flags ehdr \<noteq> 0 then Some ''invalid flags''
      else if e_type ehdr \<noteq> 2 then Some ''not an an executable''
      else if e_phoff ehdr = 0 \<or> e_phnum ehdr = 0 then Some ''no program headers''
      else if e_entry ehdr = 0 then Some ''no entry point''
      else if e_phentsize ehdr \<noteq> 32 then Some ''unsupported program header size''
      else None)"

definition PT_LOAD :: nat where "PT_LOAD = 1"

abbreviation flag_set :: "nat \<Rightarrow> nat \<Rightarrow> bool" where
  "flag_set flags i \<equiv> bit flags i"

text \<open>The first read-only loadable segment that contains the program headers; sums are 32-bit.\<close>

fun get_at_phdr :: "Elf32_Ehdr \<Rightarrow> Elf32_Phdr list \<Rightarrow> nat result" where
  "get_at_phdr ehdr [] = Inl (Panic ''Program headers address (AT_PHDR) could not be determined'')"
| "get_at_phdr ehdr (phdr # phdrs) =
     (let phdr_fileend = (e_phoff ehdr + e_phnum ehdr * e_phentsize ehdr) mod 2 ^ 32;
          p_fileend = (p_offset phdr + p_filesz phdr) mod 2 ^ 32
      in if p_type phdr \<noteq> PT_LOAD \<or> flag_set (p_flags phdr) 1 then get_at_phdr ehdr phdrs
         else if p_offset phdr \<le> e_phoff ehdr \<and> phdr_fileend \<le> p_fileend
           then Inr ((p_vaddr phdr + e_phoff ehdr + 2 ^ 32 - p_offset phdr) mod 2 ^ 32)
         else get_at_phdr ehdr phdrs)"

text \<open>Protection flags: read 1, write 2, execute 4, where a writable segment is never executable.\<close>

definition map_protection_flags :: "nat \<Rightarrow> nat" where
  "map_protection_flags flags =
     (if flag_set flags 2 then 1 else 0) + (if flag_set flags 1 then 2 else if flag_set flags 0 then 4 else 0)"

section \<open>Segments\<close>

definition page_start :: "nat \<Rightarrow> nat" where
  "page_start a = a div 4096 * 4096"

definition page_end :: "nat \<Rightarrow> nat" where
  "page_end a = page_start (a + 4095)"

text \<open>The two loops over the bytes of a page: copy up to \<open>stop\<close>, then pad.\<close>

primrec copy_bytes :: "nat \<Rightarrow> memory \<Rightarrow> nat \<Rightarrow> nat \<Rightarrow> memory \<Rightarrow> memory" where
  "copy_bytes 0 file file_ptr vptr m = m"
| "copy_bytes (Suc n) file file_ptr vptr m = copy_bytes n file (file_ptr + 1) (vptr + 1) (m(vptr := file file_ptr))"

primrec pad_bytes :: "nat \<Rightarrow> nat \<Rightarrow> memory \<Rightarrow> memory" where
  "pad_bytes 0 vptr m = m"
| "pad_bytes (Suc n) vptr m = pad_bytes n (vptr + 1) (m(vptr := CHR 0x00))"

text \<open>The loop over the pages of a segment that needs new pages; the first number counts the pages left.\<close>

primrec load_pages :: "nat \<Rightarrow> memory \<Rightarrow> nat \<Rightarrow> nat \<Rightarrow> nat \<Rightarrow> memory \<Rightarrow> memory" where
  "load_pages 0 file file_ptr vptr vfend m = m"
| "load_pages (Suc k) file file_ptr vptr vfend m =
     (let vnext = vptr + 4096;
          stop = (if vnext > vfend then vfend else vnext);
          n = stop - vptr;
          m = copy_bytes n file file_ptr vptr m;
          m = pad_bytes (vnext - (vptr + n)) (vptr + n) m
      in load_pages k file (file_ptr + n) vnext vfend m)"

definition load_segment :: "memory \<Rightarrow> Elf32_Phdr \<Rightarrow> memory \<Rightarrow> memory" where
  "load_segment file phdr m =
     (let vptr = page_start (p_vaddr phdr);
          vend = page_end (p_vaddr phdr + p_memsz phdr)
      in load_pages ((vend - vptr) div 4096) file (page_start (p_offset phdr)) vptr (p_vaddr phdr + p_filesz phdr) m)"

section \<open>Stack\<close>

definition STACK_BASE :: nat where "STACK_BASE = 0xc0000000"
definition RESERVED_STACK_SIZE :: nat where "RESERVED_STACK_SIZE = 32 * 1024"

record elf_info_t =
  entry :: nat
  at_phdr :: nat
  at_phent :: nat
  at_phnum :: nat

text \<open>A 32-bit value in memory, lowest byte first.\<close>

definition write32 :: "nat \<Rightarrow> nat \<Rightarrow> memory \<Rightarrow> memory" where
  "write32 a v m = m(a := char_of (v mod 256), a + 1 := char_of (v div 256 mod 256),
     a + 2 := char_of (v div 65536 mod 256), a + 3 := char_of (v div 16777216 mod 256))"

definition write_text :: "nat \<Rightarrow> string \<Rightarrow> memory \<Rightarrow> memory" where
  "write_text p w m = (\<lambda>a. if p \<le> a \<and> a < p + length w then w ! (a - p) else m a)"

text \<open>The end of the string at an address; the fuel is the size of the part of the stack it is in.\<close>

primrec skip_string :: "nat \<Rightarrow> memory \<Rightarrow> nat \<Rightarrow> nat result" where
  "skip_string 0 m str = Inl OutOfFuel"
| "skip_string (Suc n) m str = (if m str \<noteq> CHR 0x00 then skip_string n m (str + 1) else Inr str)"

primrec string_array_loop :: "nat \<Rightarrow> nat \<Rightarrow> nat \<Rightarrow> memory \<Rightarrow> memory result" where
  "string_array_loop 0 array str m = Inr m"
| "string_array_loop (Suc n) array str m =
     (let m = write32 array str m
      in bind_ok (skip_string RESERVED_STACK_SIZE m str) (\<lambda>str. string_array_loop n (array + 4) (str + 1) m))"

definition initialize_string_array :: "nat \<Rightarrow> nat \<Rightarrow> nat \<Rightarrow> memory \<Rightarrow> memory result" where
  "initialize_string_array array n str m = string_array_loop n array str m"

text \<open>The auxiliary vectors: types and values, in order.\<close>

definition auxiliary_vectors :: "elf_info_t \<Rightarrow> nat \<Rightarrow> nat \<Rightarrow> (nat \<times> nat) list" where
  "auxiliary_vectors elf_info howsyscall acpi_rsdp =
     [(2, at_phdr elf_info), (3, at_phent elf_info), (4, at_phnum elf_info), (5, 4096), (6, entry elf_info), (7, STACK_BASE),
      (8, howsyscall), (9, acpi_rsdp), (10, 1), (0, 0)]"

primrec write_auxv :: "(nat \<times> nat) list \<Rightarrow> nat \<Rightarrow> memory \<Rightarrow> memory" where
  "write_auxv [] a m = m"
| "write_auxv (v # vs) a m = write_auxv vs (a + 8) (write32 (a + 4) (snd v) (write32 a (fst v) m))"

definition initialize_stack ::
    "elf_info_t \<Rightarrow> nat \<Rightarrow> nat \<Rightarrow> cmdline \<Rightarrow> string \<Rightarrow> memory \<Rightarrow> (nat \<times> memory) result" where
  "initialize_stack elf_info howsyscall acpi_rsdp cmdline argv0 m =
     (let sp = STACK_BASE - RESERVED_STACK_SIZE;
          argc = cmdline_count_arguments cmdline + 1;
          m = write32 sp argc m;
          argv = sp + 4;
          m = write32 (argv + 4 * argc) 0 m;
          nenv = cmdline_count_environ cmdline;
          envp = argv + 4 * (argc + 1);
          m = write32 (envp + 4 * nenv) 0 m;
          auxvp = envp + 4 * (nenv + 1);
          m = write_auxv (auxiliary_vectors elf_info howsyscall acpi_rsdp) auxvp m;
          args = auxvp + 8 * 10;
          m = write_text args (argv0 @ [CHR 0x00]) m;
          arg1 = args + length argv0 + 1;
          m = write_text arg1 (cmdline_write_arguments cmdline) m;
          envs = arg1 + length (cmdline_write_arguments cmdline);
          m = write_text envs (cmdline_write_environ cmdline) m
      in bind_ok (initialize_string_array argv argc args m) (\<lambda>m.
         bind_ok (initialize_string_array envp nenv envs m) (\<lambda>m. Inr (sp, m))))"

end
