(* ===== verification/ElfProps.thy ===== *)
theory ElfProps
  imports Elf CmdlineClaims
begin

text \<open>
  What the first process finds in its memory: the contents of its segments, and on its stack the
  arguments, the environment and the auxiliary vectors.
\<close>

section \<open>Values in memory\<close>

definition read32 :: "memory \<Rightarrow> nat \<Rightarrow> nat" where
  "read32 m a = of_char (m a) + 256 * of_char (m (a + 1)) + 65536 * of_char (m (a + 2)) + 16777216 * of_char (m (a + 3))"

lemma bytes_of_32:
  assumes "v < (2 :: nat) ^ 32"
  shows "v mod 256 + 256 * (v div 256 mod 256) + 65536 * (v div 65536 mod 256) + 16777216 * (v div 16777216 mod 256) = v"
proof -
  have "v div 16777216 mod 256 = v div 16777216"
    using assms by (simp add: less_mult_imp_div_less)
  moreover have "v div 65536 = v div 65536 mod 256 + 256 * (v div 16777216)" "v div 256 = v div 256 mod 256 + 256 * (v div 65536)"
    using mod_mult_div_eq [of "v div 65536" 256] mod_mult_div_eq [of "v div 256" 256] by (simp_all add: div_mult2_eq [symmetric])
  moreover have "v = v mod 256 + 256 * (v div 256)"
    by simp
  ultimately show ?thesis
    by linarith
qed

lemma read32_write32: "v < 2 ^ 32 \<Longrightarrow> read32 (write32 a v m) a = v"
  using bytes_of_32 [of v] by (simp add: read32_def write32_def)

lemma write32_frame: "b < a \<or> a + 4 \<le> b \<Longrightarrow> write32 a v m b = m b"
  by (auto simp: write32_def)

lemma write_text_frame: "b < p \<or> p + length w \<le> b \<Longrightarrow> write_text p w m b = m b"
  by (auto simp: write_text_def)

lemma read32_cong: "(\<And>b. a \<le> b \<Longrightarrow> b < a + 4 \<Longrightarrow> m' b = m b) \<Longrightarrow> read32 m' a = read32 m a"
  by (simp add: read32_def)

definition text_at :: "memory \<Rightarrow> nat \<Rightarrow> string \<Rightarrow> bool" where
  "text_at m p w \<longleftrightarrow> (\<forall>i < length w. m (p + i) = w ! i)"

lemma text_at_cong: "text_at m p w \<Longrightarrow> (\<And>b. p \<le> b \<Longrightarrow> b < p + length w \<Longrightarrow> m' b = m b) \<Longrightarrow> text_at m' p w"
  by (simp add: text_at_def)

lemma text_at_append: "text_at m p (v @ w) \<longleftrightarrow> text_at m p v \<and> text_at m (p + length v) w"
proof -
  have "text_at m (p + length v) w" if "text_at m p (v @ w)"
    unfolding text_at_def
  proof (intro allI impI)
    fix i
    assume "i < length w"
    then show "m (p + length v + i) = w ! i"
      using that [unfolded text_at_def, rule_format, of "length v + i"] by (simp add: add.assoc)
  qed
  moreover have "text_at m p v" if "text_at m p (v @ w)"
    using that by (auto simp: text_at_def nth_append)
  moreover have "text_at m p (v @ w)" if v: "text_at m p v" and w: "text_at m (p + length v) w"
    unfolding text_at_def
  proof (intro allI impI)
    fix i
    assume i: "i < length (v @ w)"
    show "m (p + i) = (v @ w) ! i"
      using i v w [unfolded text_at_def, rule_format, of "i - length v"] by (cases "i < length v") (simp_all add: text_at_def nth_append)
  qed
  ultimately show ?thesis
    by blast
qed

lemma text_at_write_text: "text_at (write_text p w m) p w"
  by (simp add: text_at_def write_text_def)

section \<open>Arrays of strings\<close>

definition c_strings :: "string list \<Rightarrow> string" where
  "c_strings ws = concat (map (\<lambda>w. w @ [CHR 0x00]) ws)"

primrec string_starts :: "nat \<Rightarrow> string list \<Rightarrow> nat list" where
  "string_starts p [] = []"
| "string_starts p (w # ws) = p # string_starts (p + length w + 1) ws"

lemma length_string_starts [simp]: "length (string_starts p ws) = length ws"
  by (induction ws arbitrary: p) simp_all

lemma c_strings_Cons: "c_strings (w # ws) = w @ [CHR 0x00] @ c_strings ws"
  by (simp add: c_strings_def)

lemma c_strings_text:
  "text_at m p (c_strings (w # ws)) \<longleftrightarrow> text_at m p (w @ [CHR 0x00]) \<and> text_at m (p + length w + 1) (c_strings ws)"
  using text_at_append [of m p "w @ [CHR 0x00]" "c_strings ws"] by (simp add: c_strings_Cons del: text_at_append)

lemma string_starts_text:
  "text_at m p (c_strings ws) \<Longrightarrow> i < length ws \<Longrightarrow> text_at m (string_starts p ws ! i) (ws ! i @ [CHR 0x00])"
proof (induction ws arbitrary: p i)
  case (Cons w ws)
  then have "text_at m p (w @ [CHR 0x00])" "text_at m (p + length w + 1) (c_strings ws)"
    by (simp_all add: c_strings_text)
  then show ?case
    using Cons.IH [of "p + length w + 1" "i - 1"] Cons.prems(2) by (cases i) simp_all
qed simp

lemma string_starts_bound: "i < length ws \<Longrightarrow> string_starts p ws ! i < p + length (c_strings ws)"
proof (induction ws arbitrary: p i)
  case (Cons w ws)
  then show ?case
    using Cons.IH [of "i - 1" "p + length w + 1"] by (cases i) (simp_all add: c_strings_Cons)
qed simp

lemma skip_string_end:
  assumes "text_at m p (w @ [CHR 0x00])" and "CHR 0x00 \<notin> set w" and "length w < n"
  shows "skip_string n m p = Inr (p + length w)"
  using assms
proof (induction w arbitrary: n p)
  case Nil
  then show ?case
    by (cases n) (simp_all add: text_at_def)
next
  case (Cons c w)
  have "text_at m (p + length [c]) (w @ [CHR 0x00])" "text_at m p [c]"
    using Cons.prems(1) text_at_append [of m p "[c]" "w @ [CHR 0x00]"] by simp_all
  then show ?case
    using Cons.IH [of "p + 1" "n - 1"] Cons.prems(2,3) by (cases n) (auto simp: text_at_def)
qed

text \<open>Only the array changes, and its entries are the addresses of the strings.\<close>

lemma string_array_ok:
  assumes "text_at m p (c_strings ws)" and "\<forall>w \<in> set ws. CHR 0x00 \<notin> set w" and "array + 4 * length ws \<le> p"
    and "length (c_strings ws) \<le> RESERVED_STACK_SIZE" and "p + length (c_strings ws) < 2 ^ 32"
  shows "\<exists>m'. string_array_loop (length ws) array p m = Inr m' \<and>
    (\<forall>i < length ws. read32 m' (array + 4 * i) = string_starts p ws ! i) \<and>
    (\<forall>b. b < array \<or> array + 4 * length ws \<le> b \<longrightarrow> m' b = m b)"
  using assms
proof (induction ws arbitrary: array p m)
  case (Cons w ws)
  let ?m = "write32 array p m" and ?p = "p + length w + 1"
  have m: "text_at ?m p (c_strings (w # ws))"
    using Cons.prems(3) by (intro text_at_cong [OF Cons.prems(1)] write32_frame) simp
  then have t: "text_at ?m p (w @ [CHR 0x00])" "text_at ?m ?p (c_strings ws)"
    by (simp_all add: c_strings_text)
  have skip: "skip_string RESERVED_STACK_SIZE ?m p = Inr (p + length w)"
    using t(1) Cons.prems(2,4) by (intro skip_string_end) (simp_all add: c_strings_Cons)
  obtain m' where m': "string_array_loop (length ws) (array + 4) ?p ?m = Inr m'"
      "\<forall>i < length ws. read32 m' (array + 4 + 4 * i) = string_starts ?p ws ! i"
      "\<forall>b. b < array + 4 \<or> array + 4 + 4 * length ws \<le> b \<longrightarrow> m' b = ?m b"
    using Cons.IH [of ?m ?p "array + 4"] t(2) Cons.prems by (auto simp: c_strings_Cons)
  have "string_array_loop (length (w # ws)) array p m = Inr m'"
    using skip m'(1) by simp
  moreover have "read32 m' array = p"
    using m'(3) read32_cong [of array m' ?m] Cons.prems(5) read32_write32 [of p array m] by (simp add: c_strings_Cons)
  then have "\<forall>i < length (w # ws). read32 m' (array + 4 * i) = string_starts p (w # ws) ! i"
    using m'(2) by (auto simp: less_Suc_eq_0_disj add.assoc)
  moreover have "\<forall>b. b < array \<or> array + 4 * length (w # ws) \<le> b \<longrightarrow> m' b = m b"
    using m'(3) write32_frame [of _ array p m] by auto
  ultimately show ?case
    by blast
qed simp

section \<open>The strings of the command line\<close>

definition argument_strings :: "cmdline \<Rightarrow> string list" where
  "argument_strings s = map (\<lambda>x. token_string s (pc_option x)) (filter pc_has_argument (contexts s))"

definition environ_strings :: "cmdline \<Rightarrow> string list" where
  "environ_strings s =
     map (\<lambda>x. token_string s (pc_option x) @ [CHR ''=''] @ token_string s (pc_value x)) (filter (in_environ s) (contexts s))"

lemma written_strings:
  "cmdline_write_arguments s = c_strings (argument_strings s)" "cmdline_write_environ s = c_strings (environ_strings s)"
  by (simp_all add: write_arguments_concat write_environ_concat c_strings_def argument_strings_def environ_strings_def o_def
      argument_text_def [abs_def] environ_text_def [abs_def])

lemma strings_count:
  "cmdline_count_arguments s = length (argument_strings s)" "cmdline_count_environ s = length (environ_strings s)"
  by (simp_all add: count_arguments_length count_environ_length argument_strings_def environ_strings_def)

lemma strings_no_end:
  "\<forall>w \<in> set (argument_strings s). CHR 0x00 \<notin> set w" "\<forall>w \<in> set (environ_strings s). CHR 0x00 \<notin> set w"
  using option_no_end [of _ s] value_no_end [of _ s]
  by (auto simp: argument_strings_def environ_strings_def in_environ_def)

primrec split_strings :: "string \<Rightarrow> string \<Rightarrow> string list" where
  "split_strings [] acc = []"
| "split_strings (c # cs) acc = (if c = CHR 0x00 then rev acc # split_strings cs [] else split_strings cs (c # acc))"

lemma split_strings_append:
  "CHR 0x00 \<notin> set w \<Longrightarrow> split_strings (w @ CHR 0x00 # cs) acc = (rev acc @ w) # split_strings cs []"
  by (induction w arbitrary: acc) auto

lemma split_c_strings: "\<forall>w \<in> set ws. CHR 0x00 \<notin> set w \<Longrightarrow> split_strings (c_strings ws) [] = ws"
  by (induction ws) (simp_all add: c_strings_Cons split_strings_append, simp add: c_strings_def)

lemma length_c_strings: "length ws \<le> length (c_strings ws)"
  by (induction ws) (simp_all add: c_strings_Cons)

section \<open>Auxiliary vectors\<close>

lemma write_auxv_frame: "b < a \<or> a + 8 * length vs \<le> b \<Longrightarrow> write_auxv vs a m b = m b"
  by (induction vs arbitrary: a m) (auto simp: write32_frame)

lemma write_auxv_read:
  assumes "\<forall>v \<in> set vs. fst v < 2 ^ 32 \<and> snd v < 2 ^ 32" and "i < length vs"
  shows "read32 (write_auxv vs a m) (a + 8 * i) = fst (vs ! i) \<and> read32 (write_auxv vs a m) (a + 8 * i + 4) = snd (vs ! i)"
  using assms
proof (induction vs arbitrary: a m i)
  case (Cons v vs)
  show ?case
  proof (cases i)
    case 0
    let ?m = "write32 (a + 4) (snd v) (write32 a (fst v) m)"
    have "read32 (write_auxv vs (a + 8) ?m) a = read32 (write32 a (fst v) m) a"
      by (rule read32_cong) (simp add: write_auxv_frame write32_frame)
    moreover have "read32 (write_auxv vs (a + 8) ?m) (a + 4) = read32 ?m (a + 4)"
      by (rule read32_cong) (simp add: write_auxv_frame)
    ultimately show ?thesis
      using Cons.prems 0 by (simp add: read32_write32)
  next
    case (Suc j)
    then show ?thesis
      using Cons.IH [of j "a + 8"] Cons.prems by (simp add: add.assoc)
  qed
qed simp

end
