(* ===== verification/ElfClaims.thy ===== *)
theory ElfClaims
  imports ElfProps
begin

text \<open>
  Properties of the memory of the first process.
\<close>

section \<open>The stack\<close>

abbreviation stack_pointer :: nat where "stack_pointer \<equiv> STACK_BASE - RESERVED_STACK_SIZE"

text \<open>
  The stack has the number of arguments, their addresses and a null pointer, the addresses of the
  environment strings and a null pointer, and the auxiliary vectors.
\<close>

definition pointers_at :: "memory \<Rightarrow> nat \<Rightarrow> string list \<Rightarrow> bool" where
  "pointers_at m a ws \<longleftrightarrow>
     (\<forall>i < length ws. text_at m (read32 m (a + 4 * i)) (ws ! i @ [CHR 0x00])) \<and> read32 m (a + 4 * length ws) = 0"

definition vectors_at :: "memory \<Rightarrow> nat \<Rightarrow> (nat \<times> nat) list \<Rightarrow> bool" where
  "vectors_at m a vs \<longleftrightarrow>
     (\<forall>i < length vs. read32 m (a + 8 * i) = fst (vs ! i) \<and> read32 m (a + 8 * i + 4) = snd (vs ! i))"

definition stack_layout :: "memory \<Rightarrow> string list \<Rightarrow> string list \<Rightarrow> (nat \<times> nat) list \<Rightarrow> bool" where
  "stack_layout m args envs vs \<longleftrightarrow> read32 m stack_pointer = length args \<and> pointers_at m (stack_pointer + 4) args \<and>
     pointers_at m (stack_pointer + 4 + 4 * (length args + 1)) envs \<and>
     vectors_at m (stack_pointer + 4 + 4 * (length args + 1) + 4 * (length envs + 1)) vs"

lemmas stack_sizes = STACK_BASE_def RESERVED_STACK_SIZE_def

lemma vectors_at_cong:
  assumes "vectors_at m a vs" and "\<And>b. a \<le> b \<Longrightarrow> b < a + 8 * length vs \<Longrightarrow> m' b = m b"
  shows "vectors_at m' a vs"
  unfolding vectors_at_def
proof (intro allI impI conjI)
  fix i
  assume i: "i < length vs"
  then show "read32 m' (a + 8 * i) = fst (vs ! i)" "read32 m' (a + 8 * i + 4) = snd (vs ! i)"
    using assms read32_cong [of "a + 8 * i" m' m] read32_cong [of "a + 8 * i + 4" m' m] by (simp_all add: vectors_at_def)
qed

text \<open>The words of the stack, before the arrays are filled in.\<close>

lemma stack_words:
  assumes "\<forall>v \<in> set vs. fst v < 2 ^ 32 \<and> snd v < 2 ^ 32" and "n < 2 ^ 32" and "argv = sp + 4"
    and "envp = argv + 4 * (n + 1)" and "auxv = envp + 4 * (k + 1)"
    and m1: "m1 = write_auxv vs auxv (write32 (envp + 4 * k) 0 (write32 (argv + 4 * n) 0 (write32 sp n m)))"
  shows "read32 m1 sp = n \<and> read32 m1 (argv + 4 * n) = 0 \<and> read32 m1 (envp + 4 * k) = 0 \<and> vectors_at m1 auxv vs"
proof -
  have "read32 m1 sp = read32 (write32 sp n m) sp"
    by (rule read32_cong) (simp add: m1 assms(3-5) write_auxv_frame write32_frame)
  moreover have "read32 m1 (argv + 4 * n) = read32 (write32 (argv + 4 * n) 0 (write32 sp n m)) (argv + 4 * n)"
    by (rule read32_cong) (simp add: m1 assms(4,5) write_auxv_frame write32_frame)
  moreover have "read32 m1 (envp + 4 * k) = read32 (write32 (envp + 4 * k) 0 (write32 (argv + 4 * n) 0 (write32 sp n m))) (envp + 4 * k)"
    by (rule read32_cong) (simp add: m1 assms(5) write_auxv_frame)
  moreover have "vectors_at m1 auxv vs"
    using write_auxv_read [OF assms(1)] by (simp add: vectors_at_def m1)
  ultimately show ?thesis
    using assms(2) by (simp add: read32_write32)
qed

text \<open>The steps of the function, for strings that fit.\<close>

lemma stack_steps:
  assumes args: "\<forall>w \<in> set args. CHR 0x00 \<notin> set w" and envs: "\<forall>w \<in> set envs. CHR 0x00 \<notin> set w"
    and vs: "\<forall>v \<in> set vs. fst v < 2 ^ 32 \<and> snd v < 2 ^ 32" "length vs = 10"
    and size: "4 * (length args + length envs + 3) + 80 + length (c_strings args) + length (c_strings envs) \<le> RESERVED_STACK_SIZE"
    and sp: "sp = stack_pointer" and argv: "argv = sp + 4" and envp: "envp = argv + 4 * (length args + 1)"
    and auxv: "auxv = envp + 4 * (length envs + 1)" and p: "p = auxv + 80" and q: "q = p + length (c_strings args)"
    and m1: "m1 = write_auxv vs auxv (write32 (envp + 4 * length envs) 0 (write32 (argv + 4 * length args) 0 (write32 sp (length args) m)))"
    and m2: "m2 = write_text q (c_strings envs) (write_text p (c_strings args) m1)"
  shows "\<exists>m3 m4. string_array_loop (length args) argv p m2 = Inr m3 \<and> string_array_loop (length envs) envp q m3 = Inr m4 \<and>
    stack_layout m4 args envs vs \<and> (\<forall>b. b < sp \<or> STACK_BASE \<le> b \<longrightarrow> m4 b = m b)"
proof -
  have high: "sp + RESERVED_STACK_SIZE = STACK_BASE" "STACK_BASE < 2 ^ 32" "length args < 2 ^ 32"
    using size by (simp_all add: sp stack_sizes)
  have text2: "text_at m2 p (c_strings args)" "text_at m2 q (c_strings envs)"
    using text_at_write_text by (auto simp: m2 q text_at_def write_text_def)
  obtain m3 where m3: "string_array_loop (length args) argv p m2 = Inr m3"
      "\<forall>i < length args. read32 m3 (argv + 4 * i) = string_starts p args ! i"
      "\<forall>b. b < argv \<or> argv + 4 * length args \<le> b \<longrightarrow> m3 b = m2 b"
    using string_array_ok [OF text2(1) args, of argv] size high by (auto simp: p auxv envp argv)
  have "text_at m3 q (c_strings envs)"
    using m3(3) by (intro text_at_cong [OF text2(2)]) (simp add: q p auxv envp)
  then obtain m4 where m4: "string_array_loop (length envs) envp q m3 = Inr m4"
      "\<forall>i < length envs. read32 m4 (envp + 4 * i) = string_starts q envs ! i"
      "\<forall>b. b < envp \<or> envp + 4 * length envs \<le> b \<longrightarrow> m4 b = m3 b"
    using string_array_ok [OF _ envs, of m3 q envp] size high by (auto simp: q p auxv envp argv)
  have words: "m4 b = m1 b" if "b < argv \<or> envp \<le> b + 4 \<and> b < envp \<or> envp + 4 * length envs \<le> b \<and> b < p" for b
    using m4(3) m3(3) that by (auto simp: m2 write_text_frame q p auxv envp argv)
  have "read32 m4 sp = read32 m1 sp" "read32 m4 (argv + 4 * length args) = read32 m1 (argv + 4 * length args)"
    "read32 m4 (envp + 4 * length envs) = read32 m1 (envp + 4 * length envs)"
    by (rule read32_cong, rule words, simp add: argv envp auxv p)+
  moreover have "vectors_at m1 auxv vs \<Longrightarrow> vectors_at m4 auxv vs"
    by (rule vectors_at_cong, assumption, rule words) (simp add: auxv p vs(2))
  moreover have "read32 m4 (argv + 4 * i) = string_starts p args ! i" if "i < length args" for i
    using m3(2) m4(3) that read32_cong [of "argv + 4 * i" m4 m3] by (simp add: envp)
  moreover have "m4 b = m2 b" if "auxv \<le> b" for b
    using m4(3) m3(3) that by (simp add: auxv envp)
  then have "text_at m4 p (c_strings args)" "text_at m4 q (c_strings envs)"
    using text_at_cong [OF text2(1), of m4] text_at_cong [OF text2(2), of m4] by (simp_all add: q p)
  ultimately have "stack_layout m4 args envs vs"
    using m4(2) string_starts_text [of m4] stack_words [OF vs(1) high(3) argv envp auxv m1]
    unfolding stack_layout_def pointers_at_def sp [symmetric] argv [symmetric] envp [symmetric] auxv [symmetric] by simp
  moreover have "m4 b = m b" if "b < sp \<or> STACK_BASE \<le> b" for b
    using m3(3) m4(3) that size high vs(2)
    by (auto simp: m2 m1 write_text_frame write_auxv_frame write32_frame q p auxv envp argv)
  ultimately show ?thesis
    using m3(1) m4(1) by blast
qed

definition info_ok :: "elf_info_t \<Rightarrow> nat \<Rightarrow> nat \<Rightarrow> bool" where
  "info_ok elf_info howsyscall acpi_rsdp = list_all (\<lambda>v. snd v < 2 ^ 32) (auxiliary_vectors elf_info howsyscall acpi_rsdp)"

definition program_arguments :: "string \<Rightarrow> cmdline \<Rightarrow> string list" where
  "program_arguments argv0 s = argv0 # split_strings (cmdline_write_arguments s) []"

definition program_environment :: "cmdline \<Rightarrow> string list" where
  "program_environment s = split_strings (cmdline_write_environ s) []"

lemma program_strings:
  "program_arguments argv0 s = argv0 # argument_strings s" "program_environment s = environ_strings s"
  by (simp_all add: program_arguments_def program_environment_def written_strings split_c_strings strings_no_end)

lemma strings_fit:
  assumes "s n = CHR 0x00" and "n < CMDLINE_MAX_VALID_LENGTH" and "length argv0 \<le> 255"
  shows "4 * (length (argv0 # argument_strings s) + length (environ_strings s) + 3) + 80 +
    length (c_strings (argv0 # argument_strings s)) + length (c_strings (environ_strings s)) \<le> RESERVED_STACK_SIZE"
proof -
  have "length (c_strings (argument_strings s)) + length (c_strings (environ_strings s)) \<le> 4096"
    using written_length_string [of s n, OF assms(1)] assms(2) by (simp add: written_strings CMDLINE_MAX_VALID_LENGTH_def)
  then show ?thesis
    using length_c_strings [of "argument_strings s"] length_c_strings [of "environ_strings s"] assms(3)
    by (simp add: c_strings_Cons RESERVED_STACK_SIZE_def)
qed

lemma write_text_append: "write_text (p + length v) w (write_text p v m) = write_text p (v @ w) m"
  by (auto simp: write_text_def fun_eq_iff nth_append)

lemma initialize_stack_ok:
  assumes "s n = CHR 0x00" and "n < CMDLINE_MAX_VALID_LENGTH" and "CHR 0x00 \<notin> set argv0" and "length argv0 \<le> 255"
    and "info_ok elf_info howsyscall acpi_rsdp"
  shows "\<exists>m'. initialize_stack elf_info howsyscall acpi_rsdp s argv0 m = Inr (stack_pointer, m') \<and>
    stack_layout m' (program_arguments argv0 s) (program_environment s) (auxiliary_vectors elf_info howsyscall acpi_rsdp) \<and>
    (\<forall>b. b < stack_pointer \<or> STACK_BASE \<le> b \<longrightarrow> m' b = m b)"
proof -
  let ?vs = "auxiliary_vectors elf_info howsyscall acpi_rsdp"
  let ?args = "argv0 # argument_strings s" and ?envs = "environ_strings s"
  have vs: "\<forall>v \<in> set ?vs. fst v < 2 ^ 32 \<and> snd v < 2 ^ 32" "length ?vs = 10"
    using assms(5) by (simp_all add: info_ok_def auxiliary_vectors_def)
  have args: "\<forall>w \<in> set ?args. CHR 0x00 \<notin> set w"
    using assms(3) strings_no_end(1) [of s] by simp
  obtain m3 m4 where steps: "string_array_loop (length ?args) (stack_pointer + 4)
      (stack_pointer + 4 + 4 * (length ?args + 1) + 4 * (length ?envs + 1) + 80)
      (write_text (stack_pointer + 4 + 4 * (length ?args + 1) + 4 * (length ?envs + 1) + 80 + length (c_strings ?args)) (c_strings ?envs)
        (write_text (stack_pointer + 4 + 4 * (length ?args + 1) + 4 * (length ?envs + 1) + 80) (c_strings ?args)
          (write_auxv ?vs (stack_pointer + 4 + 4 * (length ?args + 1) + 4 * (length ?envs + 1))
            (write32 (stack_pointer + 4 + 4 * (length ?args + 1) + 4 * length ?envs) 0
              (write32 (stack_pointer + 4 + 4 * length ?args) 0 (write32 stack_pointer (length ?args) m)))))) = Inr m3"
      "string_array_loop (length ?envs) (stack_pointer + 4 + 4 * (length ?args + 1))
        (stack_pointer + 4 + 4 * (length ?args + 1) + 4 * (length ?envs + 1) + 80 + length (c_strings ?args)) m3 = Inr m4"
      "stack_layout m4 ?args ?envs ?vs" "\<forall>b. b < stack_pointer \<or> STACK_BASE \<le> b \<longrightarrow> m4 b = m b"
    using stack_steps [OF args strings_no_end(2) vs strings_fit [of s n, OF assms(1,2,4)] refl refl refl refl refl refl refl refl, of m]
    by blast
  have join: "write_text (p + length argv0 + 1) (c_strings (argument_strings s)) (write_text p (argv0 @ [CHR 0x00]) u) = write_text p (c_strings ?args) u"
    for p u
    using write_text_append [of p "argv0 @ [CHR 0x00]" "c_strings (argument_strings s)" u] by (simp add: c_strings_Cons)
  have "initialize_stack elf_info howsyscall acpi_rsdp s argv0 m = Inr (stack_pointer, m4)"
    using steps(1,2) unfolding initialize_stack_def Let_def initialize_string_array_def strings_count written_strings join
    by (simp add: c_strings_Cons add.assoc)
  then show ?thesis
    using steps(3,4) by (simp add: program_strings)
qed

section \<open>Segments\<close>

lemma copy_bytes_at:
  "copy_bytes n file f v m a = (if v \<le> a \<and> a < v + n then file (f + (a - v)) else m a)"
  by (induction n arbitrary: f v m) (auto simp: Suc_diff_Suc)

lemma pad_bytes_at: "pad_bytes n v m a = (if v \<le> a \<and> a < v + n then CHR 0x00 else m a)"
  by (induction n arbitrary: v m) auto

text \<open>Below the end of the file contents every byte of the page is copied, above it is zero.\<close>

lemma load_pages_at:
  "load_pages k file f v vfend m a =
     (if v \<le> a \<and> a < v + 4096 * k then (if a < vfend then file (f + (a - v)) else CHR 0x00) else m a)"
proof (induction k arbitrary: f v m)
  case (Suc k)
  let ?n = "(if v + 4096 > vfend then vfend else v + 4096) - v"
  have n: "?n \<le> 4096" "a < v + ?n \<longleftrightarrow> a < v + 4096 \<and> a < vfend" if "v \<le> a" for a
    using that by auto
  show ?case
  proof (cases "v \<le> a \<and> a < v + 4096")
    case True
    then show ?thesis
      using n(2) [of a] by (simp add: Suc Let_def copy_bytes_at pad_bytes_at) linarith
  next
    case False
    have "a < vfend \<Longrightarrow> v + 4096 \<le> a \<Longrightarrow> ?n = 4096"
      by simp
    then show ?thesis
      using False by (auto simp: Suc Let_def copy_bytes_at pad_bytes_at)
  qed
qed auto

lemma page_bounds: "page_start a \<le> a" "a \<le> page_end a" "page_end a < a + 4096" "4096 dvd page_start a" "4096 dvd page_end a"
  by (simp_all add: page_start_def page_end_def)

lemma page_start_offset: "a - page_start a = a mod 4096"
  by (simp add: page_start_def minus_div_mult_eq_mod)

lemma load_segment_at:
  "load_segment file phdr m a =
     (if page_start (p_vaddr phdr) \<le> a \<and> a < page_end (p_vaddr phdr + p_memsz phdr)
      then (if a < p_vaddr phdr + p_filesz phdr then file (page_start (p_offset phdr) + (a - page_start (p_vaddr phdr))) else CHR 0x00)
      else m a)"
proof -
  let ?v = "page_start (p_vaddr phdr)" and ?e = "page_end (p_vaddr phdr + p_memsz phdr)"
  have "?v \<le> ?e"
    using page_bounds(1) [of "p_vaddr phdr"] page_bounds(2) [of "p_vaddr phdr + p_memsz phdr"] by linarith
  then have "?v + 4096 * ((?e - ?v) div 4096) = ?e"
    using page_bounds(4) [of "p_vaddr phdr"] page_bounds(5) [of "p_vaddr phdr + p_memsz phdr"] by (simp add: dvd_diff_nat)
  then show ?thesis
    by (simp add: load_segment_def load_pages_at Let_def)
qed

section \<open>Claims\<close>

text \<open>
  Claim C1. The stack of the first process: for every command line that the kernel accepts, the stack
  holds the number of arguments, pointers to the program name and to each argument followed by a null
  pointer, pointers to each environment string followed by a null pointer, and the auxiliary vectors,
  and each pointer leads to the null-terminated string it stands for.
\<close>

theorem user_stack_layout:
  assumes "s n = CHR 0x00" and "n < CMDLINE_MAX_VALID_LENGTH" and "CHR 0x00 \<notin> set argv0" and "length argv0 \<le> 255"
    and "info_ok elf_info howsyscall acpi_rsdp"
  shows "\<exists>m'. initialize_stack elf_info howsyscall acpi_rsdp s argv0 m = Inr (STACK_BASE - RESERVED_STACK_SIZE, m') \<and>
    stack_layout m' (program_arguments argv0 s) (program_environment s) (auxiliary_vectors elf_info howsyscall acpi_rsdp)"
  using initialize_stack_ok [of s n argv0 elf_info howsyscall acpi_rsdp m, OF assms] by blast

theorem user_stack_layout_witness:
  "\<exists>m'. initialize_stack \<lparr>entry = 0x1000, at_phdr = 0x1034, at_phent = 32, at_phnum = 2\<rparr> 0 0 (\<lambda>_. CHR 0x00) ''init'' (\<lambda>_. CHR ''z'') =
      Inr (STACK_BASE - RESERVED_STACK_SIZE, m') \<and>
    stack_layout m' (program_arguments ''init'' (\<lambda>_. CHR 0x00)) (program_environment (\<lambda>_. CHR 0x00))
      (auxiliary_vectors \<lparr>entry = 0x1000, at_phdr = 0x1034, at_phent = 32, at_phnum = 2\<rparr> 0 0)"
  using user_stack_layout [of "\<lambda>_. CHR 0x00" 0 "''init''" "\<lparr>entry = 0x1000, at_phdr = 0x1034, at_phent = 32, at_phnum = 2\<rparr>" 0 0 "\<lambda>_. CHR ''z''"]
  by (simp add: CMDLINE_MAX_VALID_LENGTH_def info_ok_def auxiliary_vectors_def STACK_BASE_def)

text \<open>
  Claim C1. The part of the stack reserved for arguments and environment is large enough: for every
  command line that the kernel accepts and every program name of at most 255 characters, nothing is
  written outside it.
\<close>

theorem user_stack_in_bounds:
  assumes "s n = CHR 0x00" and "n < CMDLINE_MAX_VALID_LENGTH" and "CHR 0x00 \<notin> set argv0" and "length argv0 \<le> 255"
    and "info_ok elf_info howsyscall acpi_rsdp"
  shows "\<exists>sp m'. initialize_stack elf_info howsyscall acpi_rsdp s argv0 m = Inr (sp, m') \<and>
    (\<forall>b. b < STACK_BASE - RESERVED_STACK_SIZE \<or> STACK_BASE \<le> b \<longrightarrow> m' b = m b)"
  using initialize_stack_ok [of s n argv0 elf_info howsyscall acpi_rsdp m, OF assms] by blast

theorem user_stack_in_bounds_witness:
  "\<exists>sp m'. initialize_stack \<lparr>entry = 0x1000, at_phdr = 0x1034, at_phent = 32, at_phnum = 2\<rparr> 0 0 (name_char ''a b=c'') ''init'' (\<lambda>_. CHR ''z'') =
      Inr (sp, m') \<and> m' STACK_BASE = CHR ''z''"
proof -
  have "name_char ''a b=c'' 5 = CHR 0x00"
    by (simp add: name_char_def)
  from user_stack_in_bounds [of "name_char ''a b=c''" 5 "''init''" "\<lparr>entry = 0x1000, at_phdr = 0x1034, at_phent = 32, at_phnum = 2\<rparr>" 0 0
      "\<lambda>_. CHR ''z''", OF this] show ?thesis
    by (auto simp: CMDLINE_MAX_VALID_LENGTH_def info_ok_def auxiliary_vectors_def STACK_BASE_def)
qed

text \<open>
  Claim C1. The contents of a segment that needs new pages: when its offset in the file and its address
  agree within a page, every address of the segment holds the byte of the file it stands for, the part
  beyond the file contents is zero up to the end of the last page, and memory outside the pages of the
  segment is unchanged.
\<close>

theorem load_segment_contents:
  assumes "p_offset phdr mod 4096 = p_vaddr phdr mod 4096" and "p_filesz phdr \<le> p_memsz phdr"
  shows "(\<forall>i < p_filesz phdr. load_segment file phdr m (p_vaddr phdr + i) = file (p_offset phdr + i)) \<and>
    (\<forall>a. p_vaddr phdr + p_filesz phdr \<le> a \<and> a < page_end (p_vaddr phdr + p_memsz phdr) \<longrightarrow> load_segment file phdr m a = CHR 0x00) \<and>
    (\<forall>a. a < page_start (p_vaddr phdr) \<or> page_end (p_vaddr phdr + p_memsz phdr) \<le> a \<longrightarrow> load_segment file phdr m a = m a)"
proof -
  let ?v = "p_vaddr phdr" and ?o = "p_offset phdr"
  have o: "page_start ?o + (?v + i - page_start ?v) = ?o + i" for i
    using page_start_offset [of ?v] page_start_offset [of ?o] page_bounds(1) [of ?v] page_bounds(1) [of ?o] assms(1) by linarith
  have "page_start ?v \<le> ?v" "?v + p_memsz phdr \<le> page_end (?v + p_memsz phdr)"
    using page_bounds by blast+
  then show ?thesis
    using o assms(2) by (auto simp: load_segment_at)
qed

theorem load_segment_contents_witness:
  "load_segment (\<lambda>_. CHR ''x'') \<lparr>p_type = 1, p_offset = 4100, p_vaddr = 8196, p_filesz = 3, p_memsz = 10, p_flags = 6\<rparr> (\<lambda>_. CHR ''z'') 8198 = CHR ''x''"
proof -
  let ?phdr = "\<lparr>p_type = 1, p_offset = 4100, p_vaddr = 8196, p_filesz = 3, p_memsz = 10, p_flags = 6\<rparr>"
  have "\<forall>i < 3. load_segment (\<lambda>_. CHR ''x'') ?phdr (\<lambda>_. CHR ''z'') (8196 + i) = CHR ''x''"
    using load_segment_contents [of ?phdr "\<lambda>_. CHR ''x''" "\<lambda>_. CHR ''z''"] by simp
  from this [rule_format, of 2] show ?thesis
    by simp
qed

end
