(* ===== verification/Spec2Isabelle.thy ===== *)
theory Spec2Isabelle
  imports KernelProps SlabClaims PmapClaims LoggingClaims ElfClaims
begin

text \<open>
  Verification of the kernel core.
\<close>

end
